(* ===== verification/Vx_Prelude.thy ===== *)
theory Vx_Prelude
  imports Main "HOL-Library.Word" "HOL-Library.Signed_Division" "HOL-Library.AList" "HOL-Library.Char_ord"
    "HOL-Library.Multiset"
begin

text \<open>
  Shared vocabulary of the development.

  Go's three ways to leave a function are the constructors of \<open>outcome\<close>: a value, an
  \<^verbatim>\<open>error\<close> return and a run-time panic (index or slice bounds, nil dereference, division
  by zero). Slicing, \<^verbatim>\<open>bytes.Split\<close> / \<^verbatim>\<open>strings.Split\<close> and the wrap-around of Go's
  \<^verbatim>\<open>int\<close>/\<^verbatim>\<open>int64\<close> are modelled here once for all components.
\<close>

named_theorems outcome_simps
named_theorems scan_simps
named_theorems route_simps
named_theorems meta_simps

type_synonym uint64 = "64 word"
type_synonym uint32 = "32 word"
type_synonym byte = "8 word"

datatype ('e, 'a) outcome = Ok 'a | Err 'e | Panic

fun obind :: "('e, 'a) outcome \<Rightarrow> ('a \<Rightarrow> ('e, 'b) outcome) \<Rightarrow> ('e, 'b) outcome" where
  "obind (Ok x) f = f x"
| "obind (Err e) f = Err e"
| "obind Panic f = Panic"

lemma obind_eq_Ok [outcome_simps]: "obind m f = Ok y \<longleftrightarrow> (\<exists>x. m = Ok x \<and> f x = Ok y)"
  by (cases m) auto

lemma obind_eq_Panic [outcome_simps]:
  "obind m f = Panic \<longleftrightarrow> m = Panic \<or> (\<exists>x. m = Ok x \<and> f x = Panic)"
  by (cases m) auto

text \<open>The Go slice expression \<^verbatim>\<open>xs[lo:hi]\<close>; \<open>None\<close> is the run-time panic.\<close>

definition go_slice :: "'a list \<Rightarrow> int \<Rightarrow> int \<Rightarrow> 'a list option" where
  "go_slice xs lo hi =
     (if 0 \<le> lo \<and> lo \<le> hi \<and> hi \<le> int (length xs)
      then Some (take (nat (hi - lo)) (drop (nat lo) xs)) else None)"

lemma go_slice_append [simp]:
  "go_slice (xs @ ys @ zs) (int (length xs)) (int (length xs + length ys)) = Some ys"
  by (simp add: go_slice_def)

lemma go_slice_length: "go_slice xs lo hi = Some ys \<Longrightarrow> int (length ys) = hi - lo"
  by (auto simp: go_slice_def min_def split: if_splits)

text \<open>The Go index expression \<^verbatim>\<open>xs[i]\<close>.\<close>

definition go_index :: "'a list \<Rightarrow> int \<Rightarrow> 'a option" where
  "go_index xs i = (if 0 \<le> i \<and> i < int (length xs) then Some (xs ! nat i) else None)"

text \<open>\<^verbatim>\<open>bytes.Split(s, sep)\<close> and \<^verbatim>\<open>strings.Split\<close> for a separator of one byte: always at
  least one piece.\<close>

fun split_on :: "'a \<Rightarrow> 'a list \<Rightarrow> 'a list list" where
  "split_on c [] = [[]]"
| "split_on c (x # xs) =
     (if x = c then [] # split_on c xs
      else case split_on c xs of [] \<Rightarrow> [[x]] | p # ps \<Rightarrow> (x # p) # ps)"

fun join_with :: "'a \<Rightarrow> 'a list list \<Rightarrow> 'a list" where
  "join_with c [] = []"
| "join_with c [p] = p"
| "join_with c (p # q # ps) = p @ c # join_with c (q # ps)"

lemma split_on_not_Nil [simp]: "split_on c xs \<noteq> []"
  by (induction xs) (auto split: list.splits)

lemma split_on_clean: "c \<notin> set p \<Longrightarrow> split_on c p = [p]"
  by (induction p) auto

lemma split_on_append: "c \<notin> set p \<Longrightarrow> split_on c (p @ c # xs) = p # split_on c xs"
  by (induction p) auto

lemma join_split_on: "join_with c (split_on c xs) = xs"
proof (induction xs)
  case (Cons x xs)
  then show ?case
    by (cases "split_on c xs" rule: list.exhaust; cases "tl (split_on c xs)") (auto)
qed simp

lemma split_on_join:
  "ps \<noteq> [] \<Longrightarrow> \<forall>p\<in>set ps. c \<notin> set p \<Longrightarrow> split_on c (join_with c ps) = ps"
  by (induction c ps rule: join_with.induct) (auto simp: split_on_clean split_on_append)

text \<open>Go's \<^verbatim>\<open>int\<close> and \<^verbatim>\<open>int64\<close> wrap modulo \<open>2 ^ 64\<close>.\<close>

definition i64 :: "int \<Rightarrow> int" where
  "i64 x = signed_take_bit 63 x"

lemma i64_id [simp]: "- (2 ^ 63) \<le> x \<Longrightarrow> x < 2 ^ 63 \<Longrightarrow> i64 x = x"
  by (simp add: i64_def signed_take_bit_int_eq_self)

lemma i64_range: "- (2 ^ 63) \<le> i64 x \<and> i64 x < 2 ^ 63"
  using signed_take_bit_int_greater_eq_minus_exp [of 63 x] signed_take_bit_int_less_exp [of 63 x]
  by (simp add: i64_def)

lemma i64_small: "\<bar>x\<bar> < 2 ^ 63 \<Longrightarrow> i64 x = x"
  by (intro i64_id) auto

text \<open>Words read as natural numbers.\<close>

lemma unat_of_nat_small: "n < 2 ^ LENGTH('a) \<Longrightarrow> unat (of_nat n :: 'a::len word) = n"
  by (simp add: unat_of_nat)

lemma unat_mod_less: "0 < n \<Longrightarrow> n < 2 ^ LENGTH('a) \<Longrightarrow> unat (x mod of_nat n :: 'a::len word) < n"
  by (simp add: unat_mod_distrib unat_of_nat_small)

text \<open>The indices a counter modulo \<open>l\<close> visits in \<open>l\<close> consecutive steps.\<close>

lemma mset_mod_cycle: "0 < l \<Longrightarrow> mset (map (\<lambda>k. k mod l) [a..<a + l]) = mset [0..<l]"
proof (induction a)
  case (Suc a)
  have "[a..<a + l] = a # [Suc a..<a + l]" "[Suc a..<Suc a + l] = [Suc a..<a + l] @ [a + l]"
    using Suc.prems by (simp_all add: upt_conv_Cons)
  then show ?case using Suc by simp
next
  case 0
  have "map (\<lambda>k. k mod l) [0..<l] = [0..<l]" by (rule map_idI) simp
  then show ?case by (simp only: add_0)
qed

lemma sint_small: "unat (x::uint64) < 2 ^ 63 \<Longrightarrow> sint x = int (unat x)"
proof -
  assume "unat x < 2 ^ 63"
  then have "int (unat x) < int (2 ^ 63)" by (rule of_nat_less_iff [THEN iffD2])
  then have u: "uint x < 2 ^ 63" by simp
  have "sint x = signed_take_bit 63 (uint x)" by (simp add: sint_uint)
  also have "\<dots> = uint x" using u order_trans [of "- (2 ^ 63)" 0 "uint x"]
    by (intro signed_take_bit_int_eq_self) simp_all
  finally show ?thesis by simp
qed

lemma int_smod_int: "int a smod int n = int (a mod n)"
  by (simp add: signed_modulo_int_def sgn_if of_nat_mod)

end
