(* ===== verification/Scan.thy ===== *)
theory Scan
  imports Vx_Prelude
begin

text \<open>
  The byte scanner that \<^verbatim>\<open>route/scanner.go\<close> and \<^verbatim>\<open>utils/expr/expr.go\<close> both carry: the same
  fields and the same methods, different token tables. The table (what the \<^verbatim>\<open>switch\<close> of
  \<^verbatim>\<open>NextToken\<close> says about a byte) is the argument \<open>tbl\<close>, the value of \<^verbatim>\<open>tokenEOF\<close> the
  argument \<open>teof\<close>.

  The contract is the locale \<open>lexer\<close>, the Go interface of the same name: a lexer state is seen as
  the pair of the text scanned since the last \<^verbatim>\<open>ScanString\<close> and the text still to be read.
\<close>

record 'tok scanner =
  input :: string
  token :: 'tok
  bp :: int
  sp :: int
  ch :: char

definition eoi :: char where
  "eoi = CHR 0x1A"

definition scan_Next :: "'tok scanner \<Rightarrow> 'tok scanner" where
  "scan_Next s =
     (let b = bp s + 1
      in s\<lparr>bp := b, ch := (if b < int (length (input s)) then input s ! nat b else eoi)\<rparr>)"

definition newScanner :: "'tok \<Rightarrow> string \<Rightarrow> 'tok scanner" where
  "newScanner teof inp = scan_Next \<lparr>input = inp, token = teof, bp = -1, sp = 0, ch = CHR 0x00\<rparr>"

function scan_NextToken :: "(char \<Rightarrow> 'tok option) \<Rightarrow> 'tok \<Rightarrow> 'tok scanner \<Rightarrow> 'tok scanner" where
  "scan_NextToken tbl teof s =
     (case tbl (ch s) of
        Some t \<Rightarrow> scan_Next (s\<lparr>token := t\<rparr>)
      | None \<Rightarrow>
          if ch s = eoi then scan_Next (s\<lparr>token := teof\<rparr>)
          else scan_NextToken tbl teof (scan_Next s))"
  by pat_completeness auto

definition scan_TokenIndex :: "'tok scanner \<Rightarrow> int" where
  "scan_TokenIndex s = bp s - 1"

text \<open>\<open>None\<close> is the slice-bounds panic of \<^verbatim>\<open>scan.input[scan.sp : scan.bp-1]\<close>.\<close>

definition scan_ScanString :: "'tok scanner \<Rightarrow> (string \<times> 'tok scanner) option" where
  "scan_ScanString s =
     map_option (\<lambda>v. (v, s\<lparr>sp := bp s\<rparr>)) (go_slice (input s) (sp s) (bp s - 1))"

definition scan_measure :: "'tok scanner \<Rightarrow> nat" where
  "scan_measure s = (if ch s = eoi then 0 else Suc (nat (int (length (input s)) - bp s)))"

lemma scan_measure_Next: "ch s \<noteq> eoi \<Longrightarrow> scan_measure (scan_Next s) < scan_measure s"
  by (auto simp: scan_measure_def scan_Next_def Let_def)

termination scan_NextToken
  by (relation "measure (\<lambda>(tbl, teof, s). scan_measure s)") (auto simp: scan_measure_Next)

declare scan_NextToken.simps [simp del]

subsection \<open>The contract of a lexer\<close>

text \<open>The first token of a text: the text before it and, unless the end of input (or an end-of-input
  byte) comes first, its byte, its kind and the text after it.\<close>

fun lex1 :: "(char \<Rightarrow> 'tok option) \<Rightarrow> string \<Rightarrow> string \<times> (char \<times> 'tok \<times> string) option" where
  "lex1 tbl [] = ([], None)"
| "lex1 tbl (c # cs) =
     (case tbl c of
        Some t \<Rightarrow> ([], Some (c, t, cs))
      | None \<Rightarrow> if c = eoi then ([], None)
                else (let (w, r) = lex1 tbl cs in (c # w, r)))"

definition clean :: "(char \<Rightarrow> 'tok option) \<Rightarrow> string \<Rightarrow> bool" where
  "clean tbl w \<longleftrightarrow> (\<forall>c\<in>set w. tbl c = None \<and> c \<noteq> eoi)"

lemma clean_simps [simp]:
  "clean tbl []"
  "clean tbl (c # cs) \<longleftrightarrow> tbl c = None \<and> c \<noteq> eoi \<and> clean tbl cs"
  "clean tbl (xs @ ys) \<longleftrightarrow> clean tbl xs \<and> clean tbl ys"
  by (auto simp: clean_def)

lemma lex1_clean [scan_simps]:
  "clean tbl w \<Longrightarrow> lex1 tbl w = (w, None)"
  "clean tbl w \<Longrightarrow> tbl c = Some t \<Longrightarrow> lex1 tbl (w @ c # rest) = (w, Some (c, t, rest))"
  by (induction w) auto

lemma lex1_Some_length: "lex1 tbl rest = (w, Some (c, t, rest')) \<Longrightarrow> length rest' < length rest"
  by (induction rest arbitrary: w) (auto split: option.splits if_splits prod.splits)

lemma lex1_append_clean: "clean tbl pre \<Longrightarrow> lex1 tbl (pre @ rest) = (pre @ fst (lex1 tbl rest), snd (lex1 tbl rest))"
  by (induction pre) (auto split: prod.splits)

locale lexer =
  fixes tbl :: "char \<Rightarrow> 'tok option" and teof :: 'tok
    and live :: "'s \<Rightarrow> string \<Rightarrow> string \<Rightarrow> bool"
    and ended :: "'s \<Rightarrow> string \<Rightarrow> bool"
    and nextToken :: "'s \<Rightarrow> 's" and tokenOf :: "'s \<Rightarrow> 'tok" and tokenIndex :: "'s \<Rightarrow> int"
    and scanString :: "'s \<Rightarrow> (string \<times> 's) option"
  assumes next_token:
      "live s pend rest \<Longrightarrow> lex1 tbl rest = (w, Some (c, t, rest')) \<Longrightarrow>
       live (nextToken s) (pend @ w @ [c]) rest' \<and> tokenOf (nextToken s) = t \<and>
       tokenIndex (nextToken s) = tokenIndex s + 1 + int (length w)"
    and next_eof:
      "live s pend rest \<Longrightarrow> lex1 tbl rest = (w, None) \<Longrightarrow>
       ended (nextToken s) (pend @ w) \<and> tokenOf (nextToken s) = teof"
    and scan_at:
      "live s (w @ [c]) rest \<Longrightarrow>
       \<exists>s'. scanString s = Some (w, s') \<and> live s' [] rest \<and> tokenIndex s' = tokenIndex s"
    and scan_end: "ended s w \<Longrightarrow> \<exists>s'. scanString s = Some (w, s')"
begin

text \<open>After any token the pending text can be scanned: a client never meets a slice panic.\<close>

lemma next_scan_total:
  assumes "live s pend rest"
  shows "\<exists>w s'. scanString (nextToken s) = Some (pend @ w, s')"
proof (cases "lex1 tbl rest")
  case (Pair w r)
  show ?thesis
  proof (cases r)
    case None
    then show ?thesis using next_eof [OF assms] scan_end Pair by blast
  next
    case (Some cr)
    obtain c t rest' where r: "r = Some (c, t, rest')" using Some by (cases cr) auto
    then have "live (nextToken s) ((pend @ w) @ [c]) rest'"
      using next_token [OF assms, of w c t rest'] Pair by simp
    then show ?thesis using scan_at by blast
  qed
qed

end

subsection \<open>The scanner implements the contract\<close>

definition scan_live :: "'tok scanner \<Rightarrow> string \<Rightarrow> string \<Rightarrow> bool" where
  "scan_live s pend rest \<longleftrightarrow>
     0 \<le> sp s \<and> bp s = sp s + int (length pend) \<and>
     drop (nat (sp s)) (input s) = pend @ rest \<and> nat (sp s) \<le> length (input s) \<and>
     ch s = (case rest of [] \<Rightarrow> eoi | c # _ \<Rightarrow> c)"

definition scan_ended :: "'tok scanner \<Rightarrow> string \<Rightarrow> bool" where
  "scan_ended s w \<longleftrightarrow> (\<exists>s'. scan_ScanString s = Some (w, s'))"

lemma newScanner_live: "scan_live (newScanner teof inp) [] inp"
  by (auto simp: scan_live_def newScanner_def scan_Next_def Let_def split: list.splits)

lemma scan_live_drop:
  "scan_live s pend rest \<Longrightarrow> drop (nat (bp s)) (input s) = rest \<and> nat (bp s) \<le> length (input s)
     \<and> 0 \<le> bp s"
proof -
  assume a: "scan_live s pend rest"
  then have "drop (nat (bp s)) (input s) = drop (length pend) (drop (nat (sp s)) (input s))"
    by (simp only: drop_drop) (simp add: scan_live_def nat_add_distrib add.commute)
  then have "drop (nat (bp s)) (input s) = rest"
    using a by (simp add: scan_live_def del: drop_drop)
  moreover have "length (drop (nat (sp s)) (input s)) = length (pend @ rest)"
    using a by (simp add: scan_live_def del: length_drop)
  ultimately show ?thesis using a by (auto simp: scan_live_def)
qed

lemma scan_live_Next:
  assumes "scan_live s pend (c # rest)"
  shows "scan_live (scan_Next s) (pend @ [c]) rest"
proof -
  have d: "drop (nat (bp s)) (input s) = c # rest" and b: "0 \<le> bp s"
    using scan_live_drop [OF assms] by auto
  then have "drop (nat (bp s + 1)) (input s) = rest"
    by (metis Suc_nat_eq_nat_zadd1 add.commute drop_Suc list.sel(3) tl_drop)
  then show ?thesis
    using assms b
    by (cases rest) (auto simp: scan_live_def scan_Next_def Let_def nth_via_drop)
qed

lemma scan_live_token [simp]: "scan_live (s\<lparr>token := t\<rparr>) pend rest = scan_live s pend rest"
  by (simp add: scan_live_def)

lemma scan_Next_simps [simp]:
  "token (scan_Next s) = token s" "bp (scan_Next s) = bp s + 1" "sp (scan_Next s) = sp s"
  "input (scan_Next s) = input s"
  by (simp_all add: scan_Next_def Let_def)

lemma scan_NextToken_token:
  assumes "scan_live s pend rest" "lex1 tbl rest = (w, Some (c, t, rest'))"
  shows "scan_live (scan_NextToken tbl teof s) (pend @ w @ [c]) rest'
    \<and> token (scan_NextToken tbl teof s) = t
    \<and> scan_TokenIndex (scan_NextToken tbl teof s) = scan_TokenIndex s + 1 + int (length w)"
  using assms
proof (induction rest arbitrary: s pend w)
  case (Cons x xs)
  have x: "ch s = x" using Cons.prems(1) by (simp add: scan_live_def)
  show ?case
  proof (cases "tbl x")
    case (Some u)
    then show ?thesis
      using Cons.prems scan_live_Next [of "s\<lparr>token := u\<rparr>" pend x xs] x
      by (simp add: scan_NextToken.simps [of tbl teof s] scan_TokenIndex_def)
  next
    case None
    then obtain w' where "x \<noteq> eoi" "w = x # w'" "lex1 tbl xs = (w', Some (c, t, rest'))"
      using Cons.prems(2) by (auto split: if_splits prod.splits)
    then show ?thesis
      using Cons.IH [OF scan_live_Next [OF Cons.prems(1)], of w'] None x
      by (simp add: scan_NextToken.simps [of tbl teof s] scan_TokenIndex_def)
  qed
qed simp

lemma scan_NextToken_eof:
  assumes "scan_live s pend rest" "lex1 tbl rest = (w, None)" "tbl eoi = None"
  shows "scan_ended (scan_NextToken tbl teof s) (pend @ w) \<and> token (scan_NextToken tbl teof s) = teof"
  using assms
proof (induction rest arbitrary: s pend w)
  case Nil
  then show ?case
    by (auto simp: scan_NextToken.simps [of tbl teof s] scan_live_def scan_ended_def
        scan_ScanString_def go_slice_def) 
next
  case (Cons x xs)
  have x: "ch s = x" using Cons.prems(1) by (simp add: scan_live_def)
  show ?case
  proof (cases "x = eoi")
    case True
    then show ?thesis
      using Cons.prems x
      by (auto simp: scan_NextToken.simps [of tbl teof s] scan_live_def scan_ended_def
        scan_ScanString_def go_slice_def dest: arg_cong [where f = length])
  next
    case False
    then obtain w' where *: "tbl x = None" "w = x # w'" "lex1 tbl xs = (w', None)"
      using Cons.prems(2) by (auto split: option.splits prod.splits)
    then show ?thesis
      using Cons.IH [OF scan_live_Next [OF Cons.prems(1)] *(3) Cons.prems(3)] x False
      by (simp add: scan_NextToken.simps [of tbl teof s])
  qed
qed

lemma scan_ScanString_live:
  assumes "scan_live s (w @ [c]) rest"
  shows "scan_ScanString s = Some (w, s\<lparr>sp := bp s\<rparr>) \<and> scan_live (s\<lparr>sp := bp s\<rparr>) [] rest
    \<and> scan_TokenIndex (s\<lparr>sp := bp s\<rparr>) = scan_TokenIndex s"
  using assms scan_live_drop [OF assms]
  by (auto simp: scan_live_def scan_ScanString_def go_slice_def scan_TokenIndex_def)

lemma scan_lexer:
  "tbl eoi = None \<Longrightarrow>
   lexer tbl teof scan_live scan_ended (scan_NextToken tbl teof) token scan_TokenIndex scan_ScanString"
  unfolding lexer_def
  using scan_NextToken_token [of _ _ _ tbl] scan_NextToken_eof [of _ _ _ tbl]
    scan_ScanString_live scan_ended_def
  by (intro conjI allI impI) blast+

text \<open>A token other than the end of input consumes input, so the parsers' loops end.\<close>

lemma scan_measure_upd [simp]:
  "scan_measure (s\<lparr>token := t\<rparr>) = scan_measure s" "scan_measure (s\<lparr>sp := i\<rparr>) = scan_measure s"
  by (simp_all add: scan_measure_def)

lemma scan_NextToken_measure:
  assumes "tbl eoi = None" "token (scan_NextToken tbl teof s) \<noteq> teof"
  shows "scan_measure (scan_NextToken tbl teof s) < scan_measure s"
  using assms
proof (induction tbl teof s rule: scan_NextToken.induct)
  case (1 tbl teof s)
  show ?case
  proof (cases "tbl (ch s)")
    case None
    then have "ch s \<noteq> eoi" using 1 by (auto simp: scan_NextToken.simps [of tbl teof s])
    then show ?thesis using 1 None scan_measure_Next [of s]
      by (auto simp: scan_NextToken.simps [of tbl teof s])
  next
    case (Some t)
    then have "ch s \<noteq> eoi" using 1 by auto
    then show ?thesis using Some 1 scan_measure_Next [of "s\<lparr>token := t\<rparr>"]
      by (auto simp: scan_NextToken.simps [of tbl teof s])
  qed
qed

end
