(* ===== verification/Url_Expr.thy ===== *)
theory Url_Expr
  imports Scan
begin

text \<open>
  The expressions of URL rewriting (\<^verbatim>\<open>utils/expr/expr.go\<close>): a template such as
  \<^verbatim>\<open>/v2/$(param.id)$(origin.query)\<close> is parsed into a list of expressions, and \<^verbatim>\<open>Exec\<close> writes
  their values into one buffer.

  The request of \<^verbatim>\<open>fasthttp\<close> is the record of what the expressions read of it; the JSON accessor
  \<^verbatim>\<open>jsonparser.Get\<close> is the argument \<open>jget\<close>, \<open>None\<close> standing for its error result.
\<close>

subsection \<open>Contexts and expressions\<close>

record Request =
  rq_QueryString :: string
  rq_QueryArg :: "string \<Rightarrow> string"
  rq_Path :: string
  rq_Cookie :: "string \<Rightarrow> string"
  rq_HeaderPeek :: "string \<Rightarrow> string"
  rq_Body :: string

record Ctx =
  ctx_Origin :: "Request option"
  ctx_Depend :: "string option"
  ctx_Params :: "(string \<rightharpoonup> string) option"

definition ctx_Reset :: "Ctx \<Rightarrow> Ctx" where
  "ctx_Reset c = \<lparr>ctx_Origin = None, ctx_Depend = None,
     ctx_Params = map_option (\<lambda>_. Map.empty) (ctx_Params c)\<rparr>"

text \<open>A write to a nil map panics.\<close>

definition ctx_AddParam :: "string \<Rightarrow> string \<Rightarrow> Ctx \<Rightarrow> (unit, Ctx) outcome" where
  "ctx_AddParam name v c =
     (case ctx_Params c of None \<Rightarrow> Panic | Some m \<Rightarrow> Ok (c\<lparr>ctx_Params := Some (m(name \<mapsto> v))\<rparr>))"

definition ctx_CopyParams :: "Ctx \<Rightarrow> string \<rightharpoonup> string" where
  "ctx_CopyParams c = (case ctx_Params c of None \<Rightarrow> Map.empty | Some m \<Rightarrow> m)"

datatype Expr =
    constExpr string
  | originQueryExpr
  | originQueryParamExpr string
  | originPathExpr
  | originCookieParamExpr string
  | originHeaderParamExpr string
  | originBodyParamExpr "string list"
  | dependParamExpr "string list"
  | pathParamExpr string

fun expr_Name :: "Expr \<Rightarrow> string" where
  "expr_Name (constExpr v) = ''const-expr''"
| "expr_Name originQueryExpr = ''origin-query-expr''"
| "expr_Name (originQueryParamExpr p) = ''origin-query-param-expr''"
| "expr_Name originPathExpr = ''origin-path-expr''"
| "expr_Name (originCookieParamExpr p) = ''origin-cookie-expr''"
| "expr_Name (originHeaderParamExpr p) = ''origin-header-expr''"
| "expr_Name (originBodyParamExpr p) = ''origin-body-expr''"
| "expr_Name (dependParamExpr p) = ''depend-expr''"
| "expr_Name (pathParamExpr p) = ''param-expr''"

type_synonym json_get = "string \<Rightarrow> string list \<Rightarrow> string option"

text \<open>One \<^verbatim>\<open>Exec\<close> method per expression: the buffer after the write. Reading a nil \<^verbatim>\<open>Origin\<close>
  panics.\<close>

definition with_origin :: "Ctx \<Rightarrow> (Request \<Rightarrow> string) \<Rightarrow> string \<Rightarrow> (unit, string) outcome" where
  "with_origin c f buf = (case ctx_Origin c of None \<Rightarrow> Panic | Some r \<Rightarrow> Ok (buf @ f r))"

fun expr_Exec :: "json_get \<Rightarrow> Expr \<Rightarrow> string \<Rightarrow> Ctx \<Rightarrow> (unit, string) outcome" where
  "expr_Exec jget (constExpr v) buf c = Ok (buf @ v)"
| "expr_Exec jget originQueryExpr buf c =
     with_origin c (\<lambda>r. if 0 < length (rq_QueryString r) then CHR ''?'' # rq_QueryString r else []) buf"
| "expr_Exec jget (originQueryParamExpr p) buf c = with_origin c (\<lambda>r. rq_QueryArg r p) buf"
| "expr_Exec jget originPathExpr buf c = with_origin c rq_Path buf"
| "expr_Exec jget (originCookieParamExpr p) buf c = with_origin c (\<lambda>r. rq_Cookie r p) buf"
| "expr_Exec jget (originHeaderParamExpr p) buf c = with_origin c (\<lambda>r. rq_HeaderPeek r p) buf"
| "expr_Exec jget (originBodyParamExpr ps) buf c =
     with_origin c (\<lambda>r. case jget (rq_Body r) ps of None \<Rightarrow> [] | Some v \<Rightarrow> v) buf"
| "expr_Exec jget (dependParamExpr ps) buf c =
     Ok (buf @ (case ctx_Depend c of
                  None \<Rightarrow> []
                | Some d \<Rightarrow> (case jget d ps of None \<Rightarrow> [] | Some v \<Rightarrow> v)))"
| "expr_Exec jget (pathParamExpr p) buf c =
     Ok (buf @ (case ctx_Params c of
                  None \<Rightarrow> []
                | Some m \<Rightarrow> (case m p of None \<Rightarrow> [] | Some v \<Rightarrow> v)))"

fun Exec_from :: "json_get \<Rightarrow> Ctx \<Rightarrow> Expr list \<Rightarrow> string \<Rightarrow> (unit, string) outcome" where
  "Exec_from jget c [] buf = Ok buf"
| "Exec_from jget c (e # es) buf = obind (expr_Exec jget e buf c) (Exec_from jget c es)"

definition Exec :: "json_get \<Rightarrow> Ctx \<Rightarrow> Expr list \<Rightarrow> (unit, string) outcome" where
  "Exec jget c es = Exec_from jget c es []"

subsection \<open>The parser of templates\<close>

datatype expr_token = etEOF | etUnknown | etDollar | etLParen | etRParen

fun expr_tbl :: "char \<Rightarrow> expr_token option" where
  "expr_tbl c =
     (if c = CHR ''$'' then Some etDollar
      else if c = CHR ''('' then Some etLParen
      else if c = CHR '')'' then Some etRParen
      else None)"

type_synonym escanner = "expr_token scanner"

abbreviation expr_NextToken :: "escanner \<Rightarrow> escanner" where
  "expr_NextToken \<equiv> scan_NextToken expr_tbl etEOF"

datatype expr_error =
    ExpectDollarOrRParen | MissingDollar | EMissingLParen | ExpectRParen
  | DependError | ParamError | NotSupportSource string
  | OriginError | OriginQueryError | OriginPathError | OriginCookieError | OriginHeaderError
  | OriginBodyError | NotSupportOrigin string

text \<open>\<open>values\<close> are the dot-separated pieces; indexing and \<^verbatim>\<open>values[2:]\<close> are guarded by the length
  tests before them.\<close>

definition newOriginExpr :: "string list \<Rightarrow> (expr_error, Expr) outcome" where
  "newOriginExpr vs =
     (let n = length vs
      in if n < 2 then Err OriginError
         else if vs ! 1 = ''query'' then
           if 3 < n then Err OriginQueryError
           else if n = 2 then Ok originQueryExpr
           else Ok (originQueryParamExpr (vs ! 2))
         else if vs ! 1 = ''path'' then
           if n \<noteq> 2 then Err OriginPathError else Ok originPathExpr
         else if vs ! 1 = ''cookie'' then
           if n \<noteq> 3 then Err OriginCookieError else Ok (originCookieParamExpr (vs ! 2))
         else if vs ! 1 = ''header'' then
           if n \<noteq> 3 then Err OriginHeaderError else Ok (originHeaderParamExpr (vs ! 2))
         else if vs ! 1 = ''body'' then
           if n < 3 then Err OriginBodyError else Ok (originBodyParamExpr (drop 2 vs))
         else Err (NotSupportOrigin (vs ! 1)))"

definition newExpr :: "string \<Rightarrow> (expr_error, Expr) outcome" where
  "newExpr v =
     (let vs = split_on (CHR ''.'') v
      in if vs ! 0 = ''origin'' then newOriginExpr vs
         else if vs ! 0 = ''depend'' then
           if length vs < 2 then Err DependError else Ok (dependParamExpr (drop 2 vs))
         else if vs ! 0 = ''param'' then
           if length vs \<noteq> 2 then Err ParamError else Ok (pathParamExpr (vs ! 1))
         else Err (NotSupportSource (vs ! 0)))"

definition scan_then ::
  "escanner \<Rightarrow> (string \<Rightarrow> (expr_error, Expr list) outcome)
     \<Rightarrow> (expr_error, Expr list \<times> escanner) outcome" where
  "scan_then lx k =
     (case scan_ScanString lx of
        None \<Rightarrow> Panic
      | Some (v, lx') \<Rightarrow> obind (k v) (\<lambda>es. Ok (es, lx')))"

definition add_const :: "Expr list \<Rightarrow> string \<Rightarrow> Expr list" where
  "add_const es v = (if 0 < length v then es @ [constExpr v] else es)"

fun expr_token_step ::
  "expr_token \<Rightarrow> expr_token \<Rightarrow> Expr list \<Rightarrow> escanner
     \<Rightarrow> (expr_error, Expr list \<times> escanner) outcome" where
  "expr_token_step etDollar prev es lx =
     (if prev = etUnknown \<or> prev = etRParen then scan_then lx (\<lambda>v. Ok (add_const es v))
      else Err ExpectDollarOrRParen)"
| "expr_token_step etLParen prev es lx =
     (if prev \<noteq> etDollar then Err MissingDollar else scan_then lx (\<lambda>_. Ok es))"
| "expr_token_step etRParen prev es lx =
     (if prev \<noteq> etLParen then Err EMissingLParen
      else scan_then lx (\<lambda>v. obind (newExpr v) (\<lambda>e. Ok (es @ [e]))))"
| "expr_token_step etEOF prev es lx =
     (if prev = etUnknown \<or> prev = etRParen then scan_then lx (\<lambda>v. Ok (add_const es v))
      else Err ExpectRParen)"
| "expr_token_step etUnknown prev es lx = Ok (es, lx)"

function Parse_loop :: "expr_token \<Rightarrow> Expr list \<Rightarrow> escanner \<Rightarrow> (expr_error, Expr list) outcome" where
  "Parse_loop prev es lx0 =
     (let lx = expr_NextToken lx0; tok = token lx
      in case expr_token_step tok prev es lx of
           Ok (es', lx') \<Rightarrow> if tok = etEOF then Ok es' else Parse_loop tok es' lx'
         | Err e \<Rightarrow> Err e
         | Panic \<Rightarrow> Panic)"
  by pat_completeness auto

definition Parse :: "string \<Rightarrow> (expr_error, Expr list) outcome" where
  "Parse v = Parse_loop etUnknown [] (newScanner etEOF v)"

lemma scan_then_measure: "scan_then lx k = Ok (es, lx') \<Longrightarrow> scan_measure lx' = scan_measure lx"
  by (auto simp: scan_then_def scan_ScanString_def outcome_simps split: option.splits)

lemma expr_token_measure:
  "expr_token_step tok prev es lx = Ok (es', lx') \<Longrightarrow> scan_measure lx' = scan_measure lx"
  by (cases tok) (auto split: if_splits dest: scan_then_measure)

termination Parse_loop
  by (relation "measure (\<lambda>(prev, es, lx). scan_measure lx)")
    (auto dest!: expr_token_measure intro!: scan_NextToken_measure simp: eoi_def)

declare Parse_loop.simps [simp del]

subsection \<open>Runs of the parser\<close>

interpretation el: lexer expr_tbl etEOF scan_live scan_ended expr_NextToken token
  scan_TokenIndex scan_ScanString
  by (rule scan_lexer) (simp add: eoi_def)

lemma expr_tbl_not_EOF: "lex1 expr_tbl rest = (w, Some (c, t, rest')) \<Longrightarrow> t \<noteq> etEOF \<and> t \<noteq> etUnknown"
  by (induction rest arbitrary: w) (auto split: if_splits option.splits prod.splits)

definition eparses :: "expr_token \<Rightarrow> Expr list \<Rightarrow> string \<Rightarrow> (expr_error, Expr list) outcome \<Rightarrow> bool" where
  "eparses prev es rest r \<longleftrightarrow> (\<forall>lx. scan_live lx [] rest \<longrightarrow> Parse_loop prev es lx = r)"

lemma eparses_token:
  assumes l: "lex1 expr_tbl rest0 = (w, Some (c, t, rest))" and nxt: "eparses t es' rest r"
    and tok: "\<And>lx. scan_ScanString lx = Some (w, lx\<lparr>sp := bp lx\<rparr>) \<Longrightarrow>
      expr_token_step t prev es lx = Ok (es', lx\<lparr>sp := bp lx\<rparr>)"
  shows "eparses prev es rest0 r"
  unfolding eparses_def
proof (intro allI impI)
  fix lx :: escanner
  assume "scan_live lx [] rest0"
  note n = el.next_token [OF this l]
  then have "scan_ScanString (expr_NextToken lx) = Some (w, (expr_NextToken lx)\<lparr>sp := bp (expr_NextToken lx)\<rparr>)"
    "scan_live ((expr_NextToken lx)\<lparr>sp := bp (expr_NextToken lx)\<rparr>) [] rest"
    using scan_ScanString_live [of "expr_NextToken lx" w c rest] by auto
  then show "Parse_loop prev es lx = r"
    using n tok nxt expr_tbl_not_EOF [OF l]
    by (subst Parse_loop.simps) (simp add: Let_def eparses_def)
qed

lemma eparses_EOF:
  assumes "lex1 expr_tbl rest = (w, None)" "prev = etUnknown \<or> prev = etRParen"
  shows "eparses prev es rest (Ok (add_const es w))"
  unfolding eparses_def
proof (intro allI impI)
  fix lx :: escanner
  assume "scan_live lx [] rest"
  from el.next_eof [OF this assms(1)] show "Parse_loop prev es lx = Ok (add_const es w)"
    using assms(2)
    by (subst Parse_loop.simps) (auto simp: Let_def scan_ended_def scan_ScanString_def scan_then_def)
qed

subsection \<open>Printed templates parse back and evaluate piecewise\<close>

abbreviation ident :: "string \<Rightarrow> bool" where
  "ident p \<equiv> CHR ''.'' \<notin> set p \<and> clean expr_tbl p"

fun pieces :: "Expr \<Rightarrow> string list" where
  "pieces (constExpr v) = []"
| "pieces originQueryExpr = [''origin'', ''query'']"
| "pieces (originQueryParamExpr p) = [''origin'', ''query'', p]"
| "pieces originPathExpr = [''origin'', ''path'']"
| "pieces (originCookieParamExpr p) = [''origin'', ''cookie'', p]"
| "pieces (originHeaderParamExpr p) = [''origin'', ''header'', p]"
| "pieces (originBodyParamExpr ps) = [''origin'', ''body''] @ ps"
| "pieces (dependParamExpr ps) = []"
| "pieces (pathParamExpr p) = [''param'', p]"

text \<open>The symbols of the template language (constants and the \<^verbatim>\<open>depend\<close> source apart).\<close>

fun symbol :: "Expr \<Rightarrow> bool" where
  "symbol (constExpr v) \<longleftrightarrow> False"
| "symbol originQueryExpr \<longleftrightarrow> True"
| "symbol (originQueryParamExpr p) \<longleftrightarrow> ident p"
| "symbol originPathExpr \<longleftrightarrow> True"
| "symbol (originCookieParamExpr p) \<longleftrightarrow> ident p"
| "symbol (originHeaderParamExpr p) \<longleftrightarrow> ident p"
| "symbol (originBodyParamExpr ps) \<longleftrightarrow> ps \<noteq> [] \<and> list_all ident ps"
| "symbol (dependParamExpr ps) \<longleftrightarrow> False"
| "symbol (pathParamExpr p) \<longleftrightarrow> ident p"

definition print_sym :: "Expr \<Rightarrow> string" where
  "print_sym e = join_with (CHR ''.'') (pieces e)"

definition print_tmpl :: "(string \<times> Expr) list \<Rightarrow> string \<Rightarrow> string" where
  "print_tmpl parts tail = concat (map (\<lambda>(l, e). l @ ''$('' @ print_sym e @ '')'') parts) @ tail"

fun tmpl_exprs :: "Expr list \<Rightarrow> (string \<times> Expr) list \<Rightarrow> string \<Rightarrow> Expr list" where
  "tmpl_exprs es [] tail = add_const es tail"
| "tmpl_exprs es ((l, e) # parts) tail = tmpl_exprs (add_const es l @ [e]) parts tail"

lemma pieces_ident: "symbol e \<Longrightarrow> pieces e \<noteq> [] \<and> (\<forall>p\<in>set (pieces e). ident p)"
  by (cases e) (auto simp: eoi_def list_all_iff)

lemma clean_join: "\<forall>p\<in>set ps. clean tbl p \<Longrightarrow> tbl c = None \<Longrightarrow> c \<noteq> eoi \<Longrightarrow> clean tbl (join_with c ps)"
  by (induction c ps rule: join_with.induct) auto

lemma newExpr_sym: "symbol e \<Longrightarrow> newExpr (print_sym e) = Ok e"
proof -
  assume s: "symbol e"
  then have "split_on (CHR ''.'') (print_sym e) = pieces e"
    using pieces_ident [OF s] split_on_join [of "pieces e"] by (simp add: print_sym_def)
  then show ?thesis
    using s by (cases e) (auto simp: newExpr_def newOriginExpr_def Let_def neq_Nil_conv)
qed

lemma eparses_part:
  assumes "clean expr_tbl l" "symbol e" "prev = etUnknown \<or> prev = etRParen"
    and nxt: "eparses etRParen (add_const es l @ [e]) rest r"
  shows "eparses prev es (l @ ''$('' @ print_sym e @ '')'' @ rest) r"
proof -
  have cl: "clean expr_tbl (print_sym e)"
    using pieces_ident [OF assms(2)] by (auto simp: print_sym_def eoi_def intro!: clean_join)
  have "lex1 expr_tbl (print_sym e @ CHR '')'' # rest) = (print_sym e, Some (CHR '')'', etRParen, rest))"
    by (rule lex1_clean(2) [OF cl]) simp
  from eparses_token [OF this nxt]
  have "eparses etLParen (add_const es l) (print_sym e @ CHR '')'' # rest) r"
    using newExpr_sym [OF assms(2)] by (simp add: scan_then_def)
  from eparses_token [OF _ this, where w = "[]"]
  have "eparses etDollar (add_const es l) (CHR ''('' # print_sym e @ CHR '')'' # rest) r"
    by (simp add: scan_then_def)
  from eparses_token [OF lex1_clean(2) [OF assms(1)] this]
  show ?thesis using assms(3) by (auto simp: scan_then_def)
qed

lemma eparses_tmpl:
  assumes "\<forall>(l, e)\<in>set parts. clean expr_tbl l \<and> symbol e" "clean expr_tbl tail"
    "prev = etUnknown \<or> prev = etRParen"
  shows "eparses prev es (print_tmpl parts tail) (Ok (tmpl_exprs es parts tail))"
  using assms
proof (induction parts arbitrary: es prev)
  case Nil
  then show ?case
    using eparses_EOF [OF lex1_clean(1)] by (simp add: print_tmpl_def del: expr_tbl.simps)
next
  case (Cons p parts)
  obtain l e where p: "p = (l, e)" by (cases p)
  have "eparses etRParen (add_const es l @ [e]) (print_tmpl parts tail)
      (Ok (tmpl_exprs (add_const es l @ [e]) parts tail))"
    using Cons by (intro Cons.IH) auto
  from eparses_part [OF _ _ _ this] show ?case
    using Cons.prems p by (simp add: print_tmpl_def del: expr_tbl.simps)
qed

text \<open>The value of an expression.\<close>

fun expr_value :: "json_get \<Rightarrow> Request \<Rightarrow> Ctx \<Rightarrow> Expr \<Rightarrow> string" where
  "expr_value jget r c (constExpr v) = v"
| "expr_value jget r c originQueryExpr =
     (if rq_QueryString r = [] then [] else CHR ''?'' # rq_QueryString r)"
| "expr_value jget r c (originQueryParamExpr p) = rq_QueryArg r p"
| "expr_value jget r c originPathExpr = rq_Path r"
| "expr_value jget r c (originCookieParamExpr p) = rq_Cookie r p"
| "expr_value jget r c (originHeaderParamExpr p) = rq_HeaderPeek r p"
| "expr_value jget r c (originBodyParamExpr ps) = (case jget (rq_Body r) ps of None \<Rightarrow> [] | Some v \<Rightarrow> v)"
| "expr_value jget r c (dependParamExpr ps) =
     (case Option.bind (ctx_Depend c) (\<lambda>d. jget d ps) of None \<Rightarrow> [] | Some v \<Rightarrow> v)"
| "expr_value jget r c (pathParamExpr p) = (case ctx_CopyParams c p of None \<Rightarrow> [] | Some v \<Rightarrow> v)"

lemma Exec_value:
  "ctx_Origin c = Some r \<Longrightarrow>
   Exec_from jget c es buf = Ok (buf @ concat (map (expr_value jget r c) es))"
proof (induction es arbitrary: buf)
  case (Cons e es)
  have "expr_Exec jget e buf c = Ok (buf @ expr_value jget r c e)"
    using Cons.prems
    by (cases e) (auto simp: with_origin_def ctx_CopyParams_def split: option.splits)
  then show ?case using Cons by simp
qed simp

lemma tmpl_exprs_value:
  "concat (map (expr_value jget r c) (tmpl_exprs es parts tail))
     = concat (map (expr_value jget r c) es)
       @ concat (map (\<lambda>(l, e). l @ expr_value jget r c e) parts) @ tail"
  by (induction es parts tail rule: tmpl_exprs.induct) (auto simp: add_const_def)


definition demo_request :: Request where
  "demo_request = \<lparr>rq_QueryString = ''a=1'', rq_QueryArg = (\<lambda>_. []), rq_Path = ''/p'',
     rq_Cookie = (\<lambda>_. []), rq_HeaderPeek = (\<lambda>_. []), rq_Body = []\<rparr>"

definition demo_ctx :: Ctx where
  "demo_ctx = \<lparr>ctx_Origin = Some demo_request, ctx_Depend = None, ctx_Params = Some [''id'' \<mapsto> ''42'']\<rparr>"


subsection \<open>Totality\<close>

lemma newExpr_no_panic: "newExpr v \<noteq> Panic"
  by (simp add: newExpr_def newOriginExpr_def Let_def)

lemma expr_token_total:
  assumes "scan_live lx (w @ [c]) rest" "t \<noteq> etEOF" "t \<noteq> etUnknown"
  shows "expr_token_step t prev es lx \<noteq> Panic \<and>
    (\<forall>es' lx'. expr_token_step t prev es lx = Ok (es', lx') \<longrightarrow> scan_live lx' [] rest)"
  using assms scan_ScanString_live [OF assms(1)] newExpr_no_panic
  by (cases t) (auto simp: scan_then_def outcome_simps)

lemma Parse_loop_total: "scan_live lx [] rest \<Longrightarrow> Parse_loop prev es lx \<noteq> Panic"
proof (induction prev es lx arbitrary: rest rule: Parse_loop.induct)
  case (1 prev es lx)
  let ?lx = "expr_NextToken lx"
  obtain w r where l: "lex1 expr_tbl rest = (w, r)" by fastforce
  show ?case
  proof (cases r)
    case None
    then have "scan_ended ?lx w \<and> token ?lx = etEOF" using el.next_eof [OF "1.prems"] l by simp
    then show ?thesis
      by (subst Parse_loop.simps) (auto simp: Let_def scan_ended_def scan_then_def)
  next
    case (Some ctr)
    then obtain c t rest' where l': "lex1 expr_tbl rest = (w, Some (c, t, rest'))"
      using l by (cases ctr) auto
    note n = el.next_token [OF "1.prems" l'] and t = expr_tbl_not_EOF [OF l']
    have st: "expr_token_step t prev es ?lx \<noteq> Panic" "\<And>es' lx'. expr_token_step t prev es ?lx = Ok (es', lx')
        \<Longrightarrow> scan_live lx' [] rest'"
      using expr_token_total [of ?lx w c rest' t prev es] n t by auto
    have "Parse_loop prev es lx = obind (expr_token_step t prev es ?lx) (\<lambda>(es', lx'). Parse_loop t es' lx')"
      using n t by (subst Parse_loop.simps) (auto simp: Let_def split: outcome.splits)
    moreover have "Parse_loop t es' lx' \<noteq> Panic" if "expr_token_step t prev es ?lx = Ok (es', lx')" for es' lx'
      using "1.IH" [OF refl refl, of "(es', lx')" es' lx' rest'] n t that st(2) [OF that] by auto
    ultimately show ?thesis using st(1) by (auto simp: outcome_simps)
  qed
qed

text \<open>The template parser is total: on every byte string it terminates with a list of
  expressions or an error, and executing such a list in a context that has an origin request never
  panics either.\<close>

theorem Parse_Exec_total:
  assumes "ctx_Origin c = Some r"
  shows "(\<exists>e. Parse v = Err e) \<or> (\<exists>es buf. Parse v = Ok es \<and> Exec jget c es = Ok buf)"
proof (cases "Parse v")
  case (Ok es)
  then show ?thesis using Exec_value [OF assms] by (simp add: Exec_def)
next
  case Panic
  then show ?thesis using Parse_loop_total [OF newScanner_live] by (simp add: Parse_def)
qed simp

theorem Parse_Exec_total_witness:
  "(\<exists>e. Parse ''$(a'' = Err e) \<or> (\<exists>es buf. Parse ''$(a'' = Ok es \<and> Exec (\<lambda>_ _. None) demo_ctx es = Ok buf)"
  by (rule Parse_Exec_total [of demo_ctx demo_request]) (simp add: demo_ctx_def)

text \<open>The documented symbol \<^verbatim>\<open>$(depend.xxx)\<close> loses its path: the first piece after
  \<^verbatim>\<open>depend\<close> is dropped, so \<^verbatim>\<open>depend.x\<close> asks the JSON accessor for the empty path and
  \<^verbatim>\<open>depend.x.p1.p2\<close> for \<^verbatim>\<open>p1.p2\<close> only.\<close>

theorem depend_drops_first:
  assumes "list_all (\<lambda>p. CHR ''.'' \<notin> set p) (x # ps)"
  shows "newExpr (join_with (CHR ''.'') (''depend'' # x # ps)) = Ok (dependParamExpr ps)"
proof -
  have "split_on (CHR ''.'') (join_with (CHR ''.'') (''depend'' # x # ps)) = ''depend'' # x # ps"
    using assms by (intro split_on_join) (auto simp: list_all_iff)
  then show ?thesis by (simp add: newExpr_def Let_def)
qed

theorem depend_drops_first_witness:
  "newExpr ''depend.user'' = Ok (dependParamExpr [])"
  using depend_drops_first [of "''user''" "[]"] by simp

end
