(* ===== verification/Meta_Model.thy ===== *)
theory Meta_Model
  imports Vx_Prelude
begin

text \<open>
  The metadata of the gateway, the messages of \<^verbatim>\<open>pb/metapb\<close>: one \<open>record\<close> per struct with the
  struct's fields (a field \<^verbatim>\<open>F\<close> of \<^verbatim>\<open>API\<close> is \<open>api_F\<close>, and so on) and one \<open>datatype\<close> per
  enumeration. A nil-able pointer is an \<open>option\<close>; \<^verbatim>\<open>uint64\<close> identifiers are 64-bit words. The
  bookkeeping fields of the protocol buffer runtime (\<^verbatim>\<open>XXX_*\<close>) carry no metadata and are left out.
\<close>

datatype Status = Down | Up | Unknown

datatype CircuitStatus = Open | Half | Close

datatype LoadBalance = RoundRobin | IPHash | WightRobin | Rand

datatype Protocol = HTTP | Grpc | Dubbo | SpringCloud

datatype Source = QueryString | FormData | JSONBody | Header | Cookie | PathValue

datatype RuleType = RuleRegexp

datatype CMP = CMPEQ | CMPLT | CMPLE | CMPGT | CMPGE | CMPIn | CMPMatch

datatype RoutingStrategy = Copy | Split

datatype MatchRule = MatchDefault | MatchAll | MatchAny

datatype HostType = HostOrigin | HostServerAddress | HostCustom

datatype RateLimitOption = Wait | Reject

record Proxy =
  px_Addr :: string
  px_AddrRPC :: string

record Cluster =
  cl_ID :: uint64
  cl_Name :: string
  cl_LoadBalance :: LoadBalance

record HeathCheck =
  hc_Path :: string
  hc_Body :: string
  hc_CheckInterval :: int
  hc_Timeout :: int

record CircuitBreaker =
  cb_CloseTimeout :: int
  cb_HalfTrafficRate :: int
  cb_RateCheckPeriod :: int
  cb_FailureRateToClose :: int
  cb_SucceedRateToOpen :: int

record Server =
  sv_ID :: uint64
  sv_Addr :: string
  sv_Protocol :: Protocol
  sv_MaxQPS :: int
  sv_HeathCheck :: "HeathCheck option"
  sv_CircuitBreaker :: "CircuitBreaker option"
  sv_Weight :: int
  sv_RateLimitOption :: RateLimitOption

record Bind =
  bd_ClusterID :: uint64
  bd_ServerID :: uint64

record PairValue =
  pv_Name :: string
  pv_Value :: string

record IPAccessControl =
  ac_Whitelist :: "string list"
  ac_Blacklist :: "string list"

record HTTPResult =
  hr_Body :: string
  hr_Headers :: "PairValue list"
  hr_Cookies :: "PairValue list"
  hr_Code :: int

record Parameter =
  pa_Name :: string
  pa_Source :: Source
  pa_Index :: int

record ValidationRule =
  vr_RuleType :: RuleType
  vr_Expression :: string

record Validation =
  va_Parameter :: Parameter
  va_Required :: bool
  va_Rules :: "ValidationRule list"

record RetryStrategy =
  rs_Interval :: int
  rs_MaxTimes :: int
  rs_Codes :: "int list"

record Condition =
  co_Parameter :: Parameter
  co_Cmp :: CMP
  co_Expect :: string

record Cache =
  ca_Keys :: "Parameter list"
  ca_Deadline :: uint64
  ca_Conditions :: "Condition list"

record DispatchNode =
  dn_ClusterID :: uint64
  dn_URLRewrite :: string
  dn_AttrName :: string
  dn_Validations :: "Validation list"
  dn_Cache :: "Cache option"
  dn_DefaultValue :: "HTTPResult option"
  dn_UseDefault :: bool
  dn_BatchIndex :: int
  dn_RetryStrategy :: "RetryStrategy option"
  dn_WriteTimeout :: int
  dn_ReadTimeout :: int
  dn_HostType :: HostType
  dn_CustemHost :: string

record RenderAttr =
  ra_Name :: string
  ra_ExtractExp :: string

record RenderObject =
  ro_Name :: string
  ro_Attrs :: "RenderAttr list"
  ro_FlatAttrs :: bool

record RenderTemplate =
  rt_Objects :: "RenderObject list"

record WebSocketOptions =
  ws_Origin :: string

record TLSEmbedCert =
  tc_CertData :: string
  tc_KeyData :: string

record API =
  api_ID :: uint64
  api_Name :: string
  api_URLPattern :: string
  api_Method :: string
  api_Domain :: string
  api_Status :: Status
  api_IPAccessControl :: "IPAccessControl option"
  api_DefaultValue :: "HTTPResult option"
  api_Nodes :: "DispatchNode list"
  api_Perms :: "string list"
  api_AuthFilter :: string
  api_RenderTemplate :: "RenderTemplate option"
  api_UseDefault :: bool
  api_MatchRule :: MatchRule
  api_Position :: uint32
  api_Tags :: "PairValue list"
  api_WebSocketOptions :: "WebSocketOptions option"
  api_MaxQPS :: int
  api_CircuitBreaker :: "CircuitBreaker option"
  api_RateLimitOption :: RateLimitOption
  api_UseTLS :: bool
  api_TlsEmbedCert :: "TLSEmbedCert option"

record Routing =
  rg_ID :: uint64
  rg_ClusterID :: uint64
  rg_Conditions :: "Condition list"
  rg_Strategy :: RoutingStrategy
  rg_TrafficRate :: int
  rg_Status :: Status
  rg_API :: uint64
  rg_Name :: string

record Plugin =
  pl_ID :: uint64
  pl_Name :: string
  pl_Author :: string
  pl_Email :: string
  pl_Status :: Status
  pl_UpdateAt :: int
  pl_Version :: int
  pl_Content :: string
  pl_Cfg :: string

text \<open>An API with the zero value in every field but the ones routing looks at, for examples.\<close>

definition zero_api :: API where
  "zero_api = \<lparr>api_ID = 0, api_Name = [], api_URLPattern = [], api_Method = [], api_Domain = [],
     api_Status = Down, api_IPAccessControl = None, api_DefaultValue = None, api_Nodes = [],
     api_Perms = [], api_AuthFilter = [], api_RenderTemplate = None, api_UseDefault = False,
     api_MatchRule = MatchDefault, api_Position = 0, api_Tags = [], api_WebSocketOptions = None,
     api_MaxQPS = 0, api_CircuitBreaker = None, api_RateLimitOption = Wait, api_UseTLS = False,
     api_TlsEmbedCert = None\<rparr>"

end
