(* ===== verification/Fast_Rand.thy ===== *)
theory Fast_Rand
  imports Vx_Prelude
begin

text \<open>
  The pseudo random generator of \<^verbatim>\<open>utils/fastrand\<close>: a 32-bit xorshift generator that reseeds
  itself from the clock while its state is zero, and Lemire's reduction to a range. The clock readings a
  reseeding loop would see are the argument \<open>nanos\<close>; running out of them is \<open>None\<close>.
\<close>

unbundle bit_operations_syntax

definition getRandomUint32 :: "int \<Rightarrow> uint32" where
  "getRandomUint32 x = word_of_int (drop_bit 32 x XOR x)"

text \<open>The loop \<^verbatim>\<open>for r.x == 0\<close>.\<close>

fun rng_seed :: "int list \<Rightarrow> uint32 \<Rightarrow> uint32 option" where
  "rng_seed [] x = (if x \<noteq> 0 then Some x else None)"
| "rng_seed (n # ns) x = (if x \<noteq> 0 then Some x else rng_seed ns (getRandomUint32 n))"

definition xorshift :: "uint32 \<Rightarrow> uint32" where
  "xorshift x0 =
     (let x1 = x0 XOR push_bit 13 x0; x2 = x1 XOR drop_bit 17 x1 in x2 XOR push_bit 5 x2)"

definition rng_Uint32 :: "int list \<Rightarrow> uint32 \<Rightarrow> uint32 option" where
  "rng_Uint32 nanos x = map_option xorshift (rng_seed nanos x)"

definition reduce :: "uint32 \<Rightarrow> uint32 \<Rightarrow> uint32" where
  "reduce x maxN = ucast (drop_bit 32 (ucast x * ucast maxN :: uint64))"

definition rng_Uint32n :: "int list \<Rightarrow> uint32 \<Rightarrow> uint32 \<Rightarrow> (uint32 \<times> uint32) option" where
  "rng_Uint32n nanos maxN x = map_option (\<lambda>x'. (x', reduce x' maxN)) (rng_Uint32 nanos x)"

lemma unat_uint32_bound: "unat (x::uint32) < 2 ^ 32"
proof -
  have "unat x < 2 ^ LENGTH(32)" by (rule unsigned_less)
  then show ?thesis by simp
qed

lemma unat_ucast_up: "unat (ucast (x::uint32) :: uint64) = unat x"
  using unat_uint32_bound [of x] by (simp add: unsigned_ucast_eq take_bit_nat_eq_self)

lemma unat_reduce: "unat (reduce x n) = unat x * unat n div 2 ^ 32"
proof -
  have "unat x * unat n < 2 ^ 32 * 2 ^ 32"
    by (rule mult_strict_mono') (use unat_uint32_bound in simp_all)
  then have p: "unat x * unat n < 2 ^ 64" by simp
  then have m: "unat (ucast x * ucast n :: uint64) = unat x * unat n"
    using unat_mult_lem [of "ucast x :: uint64" "ucast n :: uint64"] by (simp add: unat_ucast_up)
  have "unat (drop_bit 32 (ucast x * ucast n :: uint64)) = unat x * unat n div 2 ^ 32"
    by (subst unat_drop_bit_eq) (simp only: drop_bit_eq_div m)
  moreover have "unat x * unat n div 2 ^ 32 < 2 ^ 32" using p by (simp add: div_less_iff_less_mult)
  ultimately show ?thesis
    by (simp only: reduce_def unsigned_ucast_eq) (simp add: take_bit_nat_eq_self)
qed

lemma reduce_less: "n \<noteq> 0 \<Longrightarrow> reduce x n < n"
proof -
  assume "n \<noteq> 0"
  then have n: "0 < unat n" by (simp add: unat_gt_0)
  have "unat x * unat n < 2 ^ 32 * unat n" using n unat_uint32_bound [of x] by simp
  then have "unat x * unat n div 2 ^ 32 < unat n" by (simp add: div_less_iff_less_mult mult.commute)
  then show ?thesis by (simp add: word_less_nat_alt unat_reduce)
qed

text \<open>A word that equals a proper shift of itself is zero, so the generator never reaches the state zero
  that would make it reseed.\<close>

lemma push_self_zero:
  fixes x :: uint32
  assumes "0 < k" "x = push_bit k x"
  shows "x = 0"
proof -
  have "\<not> bit x n" for n
  proof (induction n rule: less_induct)
    case (less n)
    have "bit x n = bit (push_bit k x) n" using assms(2) by simp
    also have "\<dots> \<longleftrightarrow> n < 32 \<and> k \<le> n \<and> bit x (n - k)" by (auto simp: bit_simps)
    finally show ?case using less [of "n - k"] assms(1) by auto
  qed
  then show ?thesis by (intro bit_eqI) simp
qed

lemma drop_self_zero:
  fixes x :: uint32
  assumes "0 < k" "x = drop_bit k x"
  shows "x = 0"
proof -
  have step: "bit x n \<longleftrightarrow> bit x (k + n)" for n
    using assms(2) by (metis bit_drop_bit_eq comp_apply)
  have "\<not> bit x n" for n
  proof (induction "32 - n" arbitrary: n rule: less_induct)
    case less
    show ?case
    proof (cases "n < 32")
      case True
      then show ?thesis using less [of "k + n"] step assms(1) by simp
    next
      case False
      then show ?thesis using bit_imp_le_length [of x n] by auto
    qed
  qed
  then show ?thesis by (intro bit_eqI) simp
qed

lemma xor_zero: "(a::uint32) XOR b = 0 \<longleftrightarrow> a = b"
  by (metis bit.xor_left_self xor.comm_neutral xor_self_eq)

lemma xorshift_nonzero: "x \<noteq> 0 \<Longrightarrow> xorshift x \<noteq> 0"
proof -
  assume "x \<noteq> 0"
  then have "x XOR push_bit 13 x \<noteq> 0" using push_self_zero [of 13 x] by (auto simp: xor_zero)
  then have "(x XOR push_bit 13 x) XOR drop_bit 17 (x XOR push_bit 13 x) \<noteq> 0" (is "?y \<noteq> 0")
    using drop_self_zero [of 17 "x XOR push_bit 13 x"] xor_zero by (metis zero_less_numeral)
  then have "?y XOR push_bit 5 ?y \<noteq> 0"
    using push_self_zero [of 5 ?y] xor_zero by (metis zero_less_numeral)
  then show ?thesis by (simp only: xorshift_def Let_def not_False_eq_True)
qed

lemma rng_seed_nonzero: "rng_seed nanos x = Some y \<Longrightarrow> y \<noteq> 0"
  by (induction nanos arbitrary: x) (auto split: if_splits)

text \<open>The generator. When a draw returns (at most as many clock readings as it is given were
  zero), the value is below the bound, and the new state is not zero, so the next draw needs no reading
  of the clock at all.\<close>

theorem rng_Uint32n_ok:
  assumes "maxN \<noteq> 0" "rng_Uint32n nanos maxN x = Some (x', v)"
  shows "v < maxN \<and> x' \<noteq> 0 \<and> (\<exists>x'' v'. rng_Uint32n [] maxN x' = Some (x'', v') \<and> v' < maxN)"
proof -
  obtain y where y: "rng_seed nanos x = Some y" "x' = xorshift y" "v = reduce x' maxN"
    using assms(2) by (auto simp: rng_Uint32n_def rng_Uint32_def)
  then have "x' \<noteq> 0" using rng_seed_nonzero xorshift_nonzero by simp
  then show ?thesis using y assms(1) by (auto simp: rng_Uint32n_def rng_Uint32_def reduce_less)
qed

theorem rng_Uint32n_ok_witness:
  "rng_Uint32n [4294967295] 10 0 = Some (253983, 0) \<and> (0::uint32) < 10"
proof -
  have e: "rng_Uint32n [4294967295] 10 0 = Some (253983, 0)" by code_simp
  then show ?thesis using rng_Uint32n_ok [OF _ e] by simp
qed

end
