(* ===== verification/Balance.thy ===== *)
theory Balance
  imports Meta_Model Fast_Rand
begin

text \<open>
  The load balancers (\<^verbatim>\<open>lbs/*.go\<close>) and the client address they hash (\<^verbatim>\<open>utils/ip.go\<close>). A balancer
  is a state and a function \<open>select\<close> from the state, the request and the active servers to the new state
  and the chosen server's identifier; the interface \<^verbatim>\<open>LoadBalance\<close> is the locale \<open>load_balance\<close>,
  interpreted for each of the four strategies and for the dispatch over them.

  Of the request only two headers and the remote address are read (\<open>ReqCtx\<close>). The random strategy draws
  from the shared generator; the generator state a \<^verbatim>\<open>sync.Pool\<close> hands out is part of its state here.
\<close>

subsection \<open>The client address\<close>

record ReqCtx =
  rc_Header :: "string \<Rightarrow> string"
  rc_RemoteIP :: string

definition is_space :: "char \<Rightarrow> bool" where
  "is_space c \<longleftrightarrow> c \<in> {CHR '' '', CHR 0x09, CHR 0x0A, CHR 0x0B, CHR 0x0C, CHR 0x0D}"

definition TrimSpace :: "string \<Rightarrow> string" where
  "TrimSpace s = rev (dropWhile is_space (rev (dropWhile is_space s)))"

definition ClientIP :: "ReqCtx \<Rightarrow> string" where
  "ClientIP ctx =
     (let ip = rc_Header ctx ''X-Forwarded-For'';
          ip = (if CHR '','' \<in> set ip then takeWhile (\<lambda>c. c \<noteq> CHR '','') ip else ip);
          ip = TrimSpace ip
      in if 0 < length ip then ip
         else let ip = TrimSpace (rc_Header ctx ''X-Real-Ip'')
              in if 0 < length ip then ip else rc_RemoteIP ctx)"

subsection \<open>The strategies\<close>

definition rr_Select :: "uint64 \<Rightarrow> ReqCtx \<Rightarrow> Server list \<Rightarrow> uint64 \<times> uint64" where
  "rr_Select ops ctx servers =
     (let l = of_nat (length servers) :: uint64
      in if l \<le> 0 then (ops, 0)
         else let ops = ops + 1 in (ops, sv_ID (servers ! unat (ops mod l))))"

definition fnv32a :: "string \<Rightarrow> uint32" where
  "fnv32a key = foldl (\<lambda>h c. (h XOR word_of_nat (of_char c)) * 16777619) 2166136261 key"

definition haship_Select :: "unit \<Rightarrow> ReqCtx \<Rightarrow> Server list \<Rightarrow> unit \<times> uint64" where
  "haship_Select u ctx servers =
     (let l = length servers
      in if l \<le> 0 then ((), 0)
         else ((), sv_ID (servers ! unat (fnv32a (ClientIP ctx) mod word_of_nat l))))"

definition rand_Select :: "uint32 \<Rightarrow> ReqCtx \<Rightarrow> Server list \<Rightarrow> uint32 \<times> uint64" where
  "rand_Select x ctx servers =
     (let l = length servers
      in if l \<le> 0 then (x, 0)
         else let x' = xorshift x in (x', sv_ID (servers ! unat (reduce x' (word_of_nat l)))))"

record weightRobin =
  effectiveWeight :: int
  currentWeight :: int

type_synonym wr_opts = "uint64 \<rightharpoonup> weightRobin"

text \<open>One pass of the loop over the servers, from the last to the first; the loop variables are the map,
  the running total and the best identifier so far.\<close>

definition wr_step :: "Server \<Rightarrow> wr_opts \<times> int \<times> uint64 \<Rightarrow> wr_opts \<times> int \<times> uint64" where
  "wr_step svr = (\<lambda>(opts, tot, best).
     let i = sv_ID svr;
         opts = (if opts i = None
                 then opts(i \<mapsto> \<lparr>effectiveWeight = sv_Weight svr, currentWeight = 0\<rparr>) else opts);
         wt = the (opts i);
         wt = wt\<lparr>currentWeight := i64 (currentWeight wt + effectiveWeight wt)\<rparr>;
         tot = i64 (tot + effectiveWeight wt);
         wt = (if effectiveWeight wt < sv_Weight svr
               then wt\<lparr>effectiveWeight := i64 (effectiveWeight wt + 1)\<rparr> else wt);
         opts = opts(i \<mapsto> wt);
         best = (if best = 0 \<or> opts best = None \<or> currentWeight (the (opts best)) < currentWeight wt
                 then i else best)
     in (opts, tot, best))"

definition wr_Select :: "wr_opts \<Rightarrow> ReqCtx \<Rightarrow> Server list \<Rightarrow> wr_opts \<times> uint64" where
  "wr_Select opts ctx servers =
     (if length servers \<le> 0 then (opts, 0)
      else let (opts, tot, best) = fold wr_step (rev servers) (opts, 0, 0)
           in if best = 0 then (opts, 0)
              else (opts(best \<mapsto> (the (opts best))
                       \<lparr>currentWeight := i64 (currentWeight (the (opts best)) - tot)\<rparr>), best))"

subsection \<open>Choosing a strategy\<close>

datatype balancer = LbRoundRobin uint64 | LbWeightRobin wr_opts | LbHashIP | LbRand uint32

text \<open>\<open>x\<close> is the generator state the pool provides.\<close>

fun NewLoadBalance :: "uint32 \<Rightarrow> LoadBalance \<Rightarrow> balancer" where
  "NewLoadBalance x RoundRobin = LbRoundRobin 0"
| "NewLoadBalance x WightRobin = LbWeightRobin Map.empty"
| "NewLoadBalance x IPHash = LbHashIP"
| "NewLoadBalance x Rand = LbRand x"

fun lb_Select :: "balancer \<Rightarrow> ReqCtx \<Rightarrow> Server list \<Rightarrow> balancer \<times> uint64" where
  "lb_Select (LbRoundRobin ops) ctx svs = map_prod LbRoundRobin id (rr_Select ops ctx svs)"
| "lb_Select (LbWeightRobin opts) ctx svs = map_prod LbWeightRobin id (wr_Select opts ctx svs)"
| "lb_Select LbHashIP ctx svs = (LbHashIP, snd (haship_Select () ctx svs))"
| "lb_Select (LbRand x) ctx svs = map_prod LbRand id (rand_Select x ctx svs)"

subsection \<open>The contract\<close>

text \<open>Fewer than \<open>2 ^ 32\<close> servers: the strategies convert the length to 32 bits.\<close>

locale load_balance =
  fixes select :: "'s \<Rightarrow> ReqCtx \<Rightarrow> Server list \<Rightarrow> 's \<times> uint64"
  assumes select_none: "select s ctx [] = (s, 0)"
    and select_some: "servers \<noteq> [] \<Longrightarrow> length servers < 2 ^ 32 \<Longrightarrow>
      snd (select s ctx servers) \<in> sv_ID ` set servers"
begin

text \<open>A client that resolves the identifier among the servers it passed always succeeds.\<close>

lemma select_resolves:
  assumes "servers \<noteq> []" "length servers < 2 ^ 32"
  shows "\<exists>sv\<in>set servers. find (\<lambda>x. sv_ID x = snd (select s ctx servers)) servers = Some sv"
proof -
  have "find (\<lambda>x. sv_ID x = snd (select s ctx servers)) servers \<noteq> None"
    using select_some [OF assms, of s ctx] by (auto simp: find_None_iff)
  then show ?thesis by (auto simp: find_Some_iff)
qed

lemma select_nonzero:
  assumes "servers \<noteq> []" "length servers < 2 ^ 32" "0 \<notin> sv_ID ` set servers"
  shows "snd (select s ctx servers) \<noteq> 0"
  using select_some [OF assms(1,2), of s ctx] assms(3) by metis

end

interpretation rr: load_balance rr_Select
proof
  fix servers s ctx
  assume a: "(servers :: Server list) \<noteq> []" "length servers < 2 ^ 32"
  then have "unat (of_nat (length servers) :: uint64) = length servers"
    by (intro unat_of_nat_small) simp
  then have "(of_nat (length servers) :: uint64) \<noteq> 0" using a(1) by (metis length_0_conv unat_0)
  then show "snd (rr_Select s ctx servers) \<in> sv_ID ` set servers"
    using a unat_mod_less [of "length servers", where 'a = 64 and x = "s + 1"]
    by (simp add: rr_Select_def Let_def)
qed (simp add: rr_Select_def)

interpretation hip: load_balance haship_Select
proof
  fix servers s ctx
  assume "(servers :: Server list) \<noteq> []" "length servers < 2 ^ 32"
  then show "snd (haship_Select s ctx servers) \<in> sv_ID ` set servers"
    using unat_mod_less [of "length servers", where 'a = 32 and x = "fnv32a (ClientIP ctx)"]
    by (simp add: haship_Select_def Let_def)
qed (simp add: haship_Select_def)

interpretation rnd: load_balance rand_Select
proof
  fix servers s ctx
  assume a: "(servers :: Server list) \<noteq> []" "length servers < 2 ^ 32"
  then have u: "unat (word_of_nat (length servers) :: uint32) = length servers"
    by (intro unat_of_nat_small) simp
  then have "(word_of_nat (length servers) :: uint32) \<noteq> 0" using a(1) by (metis length_0_conv unat_0)
  then have "unat (reduce (xorshift s) (word_of_nat (length servers))) < length servers"
    using reduce_less u by (metis word_less_nat_alt)
  then show "snd (rand_Select s ctx servers) \<in> sv_ID ` set servers"
    using a by (simp add: rand_Select_def Let_def)
qed (simp add: rand_Select_def)

lemma wr_step_best:
  "wr_step svr (opts, tot, best) = (opts', tot', best') \<Longrightarrow> best' = best \<or> best' = sv_ID svr"
  by (auto simp: wr_step_def Let_def split: if_splits)

lemma wr_fold_best:
  "fold wr_step svs st = (opts', tot', best') \<Longrightarrow> snd (snd st) = 0 \<or> snd (snd st) \<in> A \<Longrightarrow>
   sv_ID ` set svs \<subseteq> A \<Longrightarrow> svs \<noteq> [] \<or> snd (snd st) \<in> A \<Longrightarrow> best' \<in> A"
proof (induction svs arbitrary: st)
  case (Cons svr svs)
  obtain opts tot best where st: "st = (opts, tot, best)" by (cases st)
  obtain o1 t1 b1 where s1: "wr_step svr st = (o1, t1, b1)" by (cases "wr_step svr st")
  have "b1 \<in> A" using s1 st Cons.prems by (auto simp: wr_step_def Let_def split: if_splits)
  then show ?case using Cons.IH [of "(o1, t1, b1)"] Cons.prems s1 by simp
qed auto

interpretation wr: load_balance wr_Select
proof
  fix servers s ctx
  assume a: "(servers :: Server list) \<noteq> []"
  obtain o1 t1 b1 where f: "fold wr_step (rev servers) (s, 0, 0) = (o1, t1, b1)"
    by (cases "fold wr_step (rev servers) (s, 0, 0)")
  then have "b1 \<in> sv_ID ` set servers" using a by (intro wr_fold_best [OF f]) auto
  then show "snd (wr_Select s ctx servers) \<in> sv_ID ` set servers"
    using a f by (cases "b1 = 0") (simp_all add: wr_Select_def)
qed (simp add: wr_Select_def)

interpretation lb: load_balance lb_Select
proof
  fix servers s ctx
  show "lb_Select s ctx [] = (s, 0)"
    by (cases s) (simp_all add: rr.select_none wr.select_none rnd.select_none hip.select_none)
  assume "(servers :: Server list) \<noteq> []" "length servers < 2 ^ 32"
  then show "snd (lb_Select s ctx servers) \<in> sv_ID ` set servers"
    by (cases s) (simp_all add: rr.select_some wr.select_some rnd.select_some hip.select_some)
qed

subsection \<open>Round robin is fair\<close>

fun rr_run :: "nat \<Rightarrow> uint64 \<Rightarrow> ReqCtx \<Rightarrow> Server list \<Rightarrow> uint64 list" where
  "rr_run 0 ops ctx servers = []"
| "rr_run (Suc n) ops ctx servers =
     (let (ops', i) = rr_Select ops ctx servers in i # rr_run n ops' ctx servers)"

lemma rr_run_map:
  assumes "servers \<noteq> []" "length servers < 2 ^ 32" "unat ops + n < 2 ^ 64"
  shows "rr_run n ops ctx servers
    = map (\<lambda>k. sv_ID (servers ! (k mod length servers))) [Suc (unat ops)..<Suc (unat ops + n)]"
  using assms(3)
proof (induction n arbitrary: ops)
  case (Suc n)
  have l: "unat (of_nat (length servers) :: uint64) = length servers"
    using assms(2) by (intro unat_of_nat_small) simp
  then have l0: "(of_nat (length servers) :: uint64) \<noteq> 0" using assms(1) by (metis length_0_conv unat_0)
  have o: "unat (ops + 1) = Suc (unat ops)"
    using Suc.prems unat_add_lem [of ops 1] by simp
  have "rr_Select ops ctx servers = (ops + 1, sv_ID (servers ! (Suc (unat ops) mod length servers)))"
    using l0 by (simp add: rr_Select_def Let_def unat_mod_distrib l o)
  then show ?case
    using Suc.IH [of "ops + 1"] Suc.prems o by (simp add: upt_conv_Cons del: upt_Suc)
qed simp

text \<open>C31 --- round robin is fair. As long as the 64-bit counter does not overflow, any \<open>l\<close> consecutive
  selections among the same \<open>l\<close> servers choose every server exactly once.\<close>

theorem rr_fair:
  assumes "servers \<noteq> []" "length servers < 2 ^ 32" "unat ops + length servers < 2 ^ 64"
  shows "mset (rr_run (length servers) ops ctx servers) = mset (map sv_ID servers)"
proof -
  let ?l = "length servers"
  have "rr_run ?l ops ctx servers
      = map (\<lambda>k. sv_ID (servers ! k)) (map (\<lambda>k. k mod ?l) [Suc (unat ops)..<Suc (unat ops) + ?l])"
    using rr_run_map [OF assms, of ctx] by (simp add: comp_def)
  then have "mset (rr_run ?l ops ctx servers)
      = image_mset (\<lambda>k. sv_ID (servers ! k)) (mset (map (\<lambda>k. k mod ?l) [Suc (unat ops)..<Suc (unat ops) + ?l]))"
    by (simp only: mset_map)
  also have "mset (map (\<lambda>k. k mod ?l) [Suc (unat ops)..<Suc (unat ops) + ?l]) = mset [0..<?l]"
    using assms(1) by (intro mset_mod_cycle) simp
  also have "image_mset (\<lambda>k. sv_ID (servers ! k)) (mset [0..<?l])
      = mset (map sv_ID (map ((!) servers) [0..<?l]))"
    by (simp only: mset_map [symmetric] map_map comp_def)
  finally show ?thesis by (simp only: map_nth)
qed

definition demo_server :: "uint64 \<Rightarrow> int \<Rightarrow> Server" where
  "demo_server i w = \<lparr>sv_ID = i, sv_Addr = [], sv_Protocol = HTTP, sv_MaxQPS = 0, sv_HeathCheck = None,
     sv_CircuitBreaker = None, sv_Weight = w, sv_RateLimitOption = Wait\<rparr>"

definition demo_req :: ReqCtx where
  "demo_req = \<lparr>rc_Header = (\<lambda>_. []), rc_RemoteIP = ''10.0.0.1''\<rparr>"

theorem rr_fair_witness:
  "mset (rr_run 3 5 demo_req [demo_server 1 1, demo_server 2 1, demo_server 3 1]) = {#1, 2, 3#}"
  using rr_fair [of "[demo_server 1 1, demo_server 2 1, demo_server 3 1]" 5 demo_req]
  by (simp add: demo_server_def numeral_3_eq_3 del: rr_run.simps)

text \<open>Every strategy selects an active server: with at least one server (and fewer than
  \<open>2 ^ 32\<close>), whatever the state of the balancer and the request, the identifier returned belongs to one of
  the servers; with none it is 0, the code's \<open>no server\<close>, and the balancer is unchanged.\<close>

theorem lb_Select_active:
  "length servers < 2 ^ 32 \<Longrightarrow>
   (if servers = [] then lb_Select b ctx servers = (b, 0)
    else snd (lb_Select b ctx servers) \<in> sv_ID ` set servers)"
  by (simp add: lb.select_none lb.select_some)

theorem lb_Select_active_witness:
  "snd (lb_Select (NewLoadBalance 1 IPHash) demo_req [demo_server 4 1, demo_server 5 1]) \<in> {4, 5}"
  using lb_Select_active [of "[demo_server 4 1, demo_server 5 1]" "NewLoadBalance 1 IPHash" demo_req]
  by (simp add: demo_server_def)

subsection \<open>Smooth weighted round robin is fair\<close>

text \<open>\<open>wr_rel w svs opts c\<close>: for the servers \<open>svs\<close> the map holds the weight \<open>w\<close> and the current weight
  \<open>c\<close>; a server not seen yet counts as current weight zero.\<close>

definition wr_rel :: "(uint64 \<Rightarrow> int) \<Rightarrow> Server list \<Rightarrow> wr_opts \<Rightarrow> (uint64 \<Rightarrow> int) \<Rightarrow> bool" where
  "wr_rel w svs opts c \<longleftrightarrow> (\<forall>s\<in>set svs. sv_ID s \<noteq> 0 \<and> sv_Weight s = w (sv_ID s) \<and> 0 \<le> w (sv_ID s) \<and>
     \<bar>c (sv_ID s) + w (sv_ID s)\<bar> < 2 ^ 63 \<and>
     (opts (sv_ID s) = None \<and> c (sv_ID s) = 0
      \<or> opts (sv_ID s) = Some \<lparr>effectiveWeight = w (sv_ID s), currentWeight = c (sv_ID s)\<rparr>))"

abbreviation cur_of :: "wr_opts \<Rightarrow> uint64 \<Rightarrow> int" where
  "cur_of opts i \<equiv> currentWeight (the (opts i))"

lemma wr_step_eq:
  assumes "wr_rel w [svr] opts c" "0 \<le> tot" "tot + w (sv_ID svr) < 2 ^ 63" "best \<noteq> sv_ID svr"
    "best \<noteq> 0 \<Longrightarrow> opts best \<noteq> None"
  shows "wr_step svr (opts, tot, best)
    = (opts(sv_ID svr \<mapsto> \<lparr>effectiveWeight = w (sv_ID svr), currentWeight = c (sv_ID svr) + w (sv_ID svr)\<rparr>),
       tot + w (sv_ID svr),
       if best = 0 \<or> cur_of opts best < c (sv_ID svr) + w (sv_ID svr) then sv_ID svr else best)"
proof -
  have "i64 (c (sv_ID svr) + w (sv_ID svr)) = c (sv_ID svr) + w (sv_ID svr)"
    "i64 (tot + w (sv_ID svr)) = tot + w (sv_ID svr)"
    using assms(1-3) by (auto simp: wr_rel_def intro!: i64_small)
  moreover have "sv_Weight svr = w (sv_ID svr)" using assms(1) by (simp add: wr_rel_def)
  moreover have "opts best \<noteq> None \<or> best = 0" using assms(5) by blast
  ultimately show ?thesis
    using assms(1,4)
    by (cases "opts (sv_ID svr)"; cases "best = 0"; cases "opts best") (simp_all add: wr_step_def wr_rel_def Let_def)
qed

lemma wr_fold_eq:
  assumes "wr_rel w svs opts c" "distinct (map sv_ID svs)" "0 \<le> tot"
    "tot + (\<Sum>s\<leftarrow>svs. w (sv_ID s)) < 2 ^ 63" "best \<notin> sv_ID ` set svs" "best \<noteq> 0 \<Longrightarrow> opts best \<noteq> None"
  shows "\<exists>opts' best'. fold wr_step svs (opts, tot, best)
      = (opts', tot + (\<Sum>s\<leftarrow>svs. w (sv_ID s)), best') \<and>
    (\<forall>s\<in>set svs. opts' (sv_ID s)
       = Some \<lparr>effectiveWeight = w (sv_ID s), currentWeight = c (sv_ID s) + w (sv_ID s)\<rparr>) \<and>
    (\<forall>i. i \<notin> sv_ID ` set svs \<longrightarrow> opts' i = opts i) \<and>
    (if svs = [] then best' = best
     else best' \<in> insert best (sv_ID ` set svs) \<and> best' \<noteq> 0 \<and> (best \<noteq> 0 \<longrightarrow> cur_of opts best \<le> cur_of opts' best')
       \<and> (\<forall>s\<in>set svs. cur_of opts' (sv_ID s) \<le> cur_of opts' best'))"
  using assms
proof (induction svs arbitrary: opts tot best)
  case (Cons s svs)
  let ?i = "sv_ID s" let ?e = "\<lparr>effectiveWeight = w ?i, currentWeight = c ?i + w ?i\<rparr>"
  let ?o = "opts(?i \<mapsto> ?e)"
  let ?b = "if best = 0 \<or> cur_of opts best < c ?i + w ?i then ?i else best"
  have nn: "0 \<le> (\<Sum>s\<leftarrow>svs. w (sv_ID s))" "0 \<le> w ?i" "?i \<noteq> 0"
    using Cons.prems(1) by (auto simp: wr_rel_def intro!: sum_list_nonneg)
  have t: "0 \<le> tot + w ?i" "tot + w ?i < 2 ^ 63" "tot + w ?i + (\<Sum>s\<leftarrow>svs. w (sv_ID s)) < 2 ^ 63"
    using Cons.prems(3,4) nn by simp_all
  have rel1: "wr_rel w [s] opts c" and rel: "wr_rel w svs ?o c"
    using Cons.prems(1,2) by (auto simp: wr_rel_def image_iff)
  have step: "wr_step s (opts, tot, best) = (?o, tot + w ?i, ?b)"
    using rel1 Cons.prems(3,5,6) t(2) by (intro wr_step_eq) auto
  have d: "distinct (map sv_ID svs)" and b: "?b \<notin> sv_ID ` set svs" "?b \<noteq> 0 \<Longrightarrow> ?o ?b \<noteq> None"
    using Cons.prems(2,5,6) by auto
  obtain opts' best' where IH: "fold wr_step svs (?o, tot + w ?i, ?b)
        = (opts', tot + w ?i + (\<Sum>s\<leftarrow>svs. w (sv_ID s)), best')"
      "\<forall>s\<in>set svs. opts' (sv_ID s)
         = Some \<lparr>effectiveWeight = w (sv_ID s), currentWeight = c (sv_ID s) + w (sv_ID s)\<rparr>"
      "\<forall>i. i \<notin> sv_ID ` set svs \<longrightarrow> opts' i = ?o i"
      "if svs = [] then best' = ?b
       else best' \<in> insert ?b (sv_ID ` set svs) \<and> best' \<noteq> 0 \<and> (?b \<noteq> 0 \<longrightarrow> cur_of ?o ?b \<le> cur_of opts' best')
         \<and> (\<forall>s\<in>set svs. cur_of opts' (sv_ID s) \<le> cur_of opts' best')"
    using Cons.IH [OF rel d t(1,3) b] by blast
  have oi: "opts' ?i = Some ?e" using IH(3) Cons.prems(2) by auto
  have ob: "opts' ?b = ?o ?b" using IH(3) b(1) by blast
  have b0: "?b \<noteq> 0" "cur_of ?o ?i \<le> cur_of ?o ?b" "best \<noteq> 0 \<Longrightarrow> cur_of opts best \<le> cur_of ?o ?b"
    "?b \<in> {best, ?i}"
    using nn(3) Cons.prems(5) by auto
  have max: "best' \<in> insert ?b (sv_ID ` set svs) \<and> best' \<noteq> 0 \<and> cur_of ?o ?b \<le> cur_of opts' best'
      \<and> (\<forall>s\<in>set svs. cur_of opts' (sv_ID s) \<le> cur_of opts' best')"
    using IH(4) ob b0(1) by (cases "svs = []") simp_all
  then have "\<forall>t\<in>set (s # svs). cur_of opts' (sv_ID t) \<le> cur_of opts' best'"
    using b0(2) oi by auto
  moreover have "best' \<in> insert best (sv_ID ` set (s # svs))" using max b0(4) by auto
  moreover have "best \<noteq> 0 \<longrightarrow> cur_of opts best \<le> cur_of opts' best'" using max b0(3) by linarith
  ultimately show ?case
    using step IH(1-3) oi max
    by (intro exI [of _ opts'] exI [of _ best']) (simp add: add.assoc)
qed simp

text \<open>The servers of a fair run: distinct non-zero identifiers, weights that are not all zero and small
  enough that no sum of them overflows.\<close>

definition wr_ok :: "(uint64 \<Rightarrow> int) \<Rightarrow> Server list \<Rightarrow> bool" where
  "wr_ok w svs \<longleftrightarrow> distinct (map sv_ID svs) \<and>
     (\<forall>s\<in>set svs. sv_ID s \<noteq> 0 \<and> sv_Weight s = w (sv_ID s) \<and> 0 \<le> w (sv_ID s)) \<and>
     0 < (\<Sum>s\<leftarrow>svs. w (sv_ID s)) \<and>
     (int (length svs) + 1) * (\<Sum>s\<leftarrow>svs. w (sv_ID s)) < 2 ^ 63"

abbreviation wsum :: "(uint64 \<Rightarrow> int) \<Rightarrow> Server list \<Rightarrow> int" where
  "wsum w svs \<equiv> (\<Sum>s\<leftarrow>svs. w (sv_ID s))"

lemma wsum_rev [simp]: "wsum w (rev svs) = wsum w svs"
  by (simp add: rev_map [symmetric] sum_list_rev)

lemma wr_Select_eq:
  assumes ok: "wr_ok w svs" and rel: "wr_rel w svs opts c"
  shows "\<exists>opts' b. wr_Select opts ctx svs = (opts', b) \<and> b \<in> sv_ID ` set svs \<and>
    (\<forall>s\<in>set svs. c (sv_ID s) + w (sv_ID s) \<le> c b + w b) \<and>
    (\<forall>s\<in>set svs. opts' (sv_ID s) = Some \<lparr>effectiveWeight = w (sv_ID s),
       currentWeight = (if sv_ID s = b then i64 (c b + w b - wsum w svs) else c (sv_ID s) + w (sv_ID s))\<rparr>)"
proof -
  let ?W = "wsum w svs"
  have ne: "svs \<noteq> []" and d: "distinct (map sv_ID (rev svs))" using ok by (auto simp: wr_ok_def rev_map [symmetric])
  have "?W \<le> (int (length svs) + 1) * ?W"
    using ok mult_right_mono [of 1 "int (length svs) + 1" ?W] by (simp add: wr_ok_def)
  then have W: "0 + wsum w (rev svs) < 2 ^ 63" using ok unfolding wr_ok_def wsum_rev by linarith
  have rel': "wr_rel w (rev svs) opts c" using rel by (simp add: wr_rel_def)
  have z: "0 \<notin> sv_ID ` set (rev svs)" using ok by (auto simp: wr_ok_def)
  obtain o1 b where f: "fold wr_step (rev svs) (opts, 0, 0) = (o1, 0 + wsum w (rev svs), b)"
    and o1: "\<forall>s\<in>set (rev svs). o1 (sv_ID s)
        = Some \<lparr>effectiveWeight = w (sv_ID s), currentWeight = c (sv_ID s) + w (sv_ID s)\<rparr>"
    and b: "if rev svs = [] then b = 0 else b \<in> insert 0 (sv_ID ` set (rev svs)) \<and> b \<noteq> 0
        \<and> ((0::uint64) \<noteq> 0 \<longrightarrow> cur_of opts 0 \<le> cur_of o1 b) \<and> (\<forall>s\<in>set (rev svs). cur_of o1 (sv_ID s) \<le> cur_of o1 b)"
    using wr_fold_eq [OF rel' d order_refl W z] by blast
  have bb: "b \<in> sv_ID ` set svs" "b \<noteq> 0" using b ne by auto
  then have ob: "o1 b = Some \<lparr>effectiveWeight = w b, currentWeight = c b + w b\<rparr>" using o1 by auto
  have max: "\<forall>s\<in>set svs. c (sv_ID s) + w (sv_ID s) \<le> c b + w b" using b ne o1 ob by auto
  have "wr_Select opts ctx svs = (o1(b \<mapsto> (the (o1 b))\<lparr>currentWeight := i64 (cur_of o1 b - ?W)\<rparr>), b)"
    using f ne bb by (simp add: wr_Select_def)
  then show ?thesis using bb max o1 ob by auto
qed

fun wr_run :: "nat \<Rightarrow> wr_opts \<Rightarrow> ReqCtx \<Rightarrow> Server list \<Rightarrow> uint64 list" where
  "wr_run 0 opts ctx svs = []"
| "wr_run (Suc n) opts ctx svs = (let (opts', i) = wr_Select opts ctx svs in i # wr_run n opts' ctx svs)"

text \<open>The invariant of a run after \<open>k\<close> selections, \<open>n i\<close> of them of server \<open>i\<close>.\<close>

definition wr_inv :: "(uint64 \<Rightarrow> int) \<Rightarrow> Server list \<Rightarrow> int \<Rightarrow> (uint64 \<Rightarrow> int) \<Rightarrow> (uint64 \<Rightarrow> int) \<Rightarrow> bool" where
  "wr_inv w svs k n c \<longleftrightarrow> (\<Sum>s\<leftarrow>svs. n (sv_ID s)) = k \<and>
     (\<forall>s\<in>set svs. c (sv_ID s) = k * w (sv_ID s) - wsum w svs * n (sv_ID s) \<and> - wsum w svs < c (sv_ID s))"

lemma sum_list_lin: "(\<Sum>x\<leftarrow>xs. a * f x - b * g x) = a * (\<Sum>x\<leftarrow>xs. f x) - b * (\<Sum>x\<leftarrow>xs. g x)" for a b :: int
  by (induction xs) (auto simp: algebra_simps)

lemma wr_inv_sum: "wr_inv w svs k n c \<Longrightarrow> (\<Sum>s\<leftarrow>svs. c (sv_ID s)) = 0"
proof -
  assume i: "wr_inv w svs k n c"
  then have "map (\<lambda>s. c (sv_ID s)) svs = map (\<lambda>s. k * w (sv_ID s) - wsum w svs * n (sv_ID s)) svs"
    by (auto simp: wr_inv_def)
  then have "(\<Sum>s\<leftarrow>svs. c (sv_ID s)) = k * wsum w svs - wsum w svs * (\<Sum>s\<leftarrow>svs. n (sv_ID s))"
    by (simp only: sum_list_lin)
  then show ?thesis using i by (simp add: wr_inv_def)
qed

text \<open>A list of integers with sum zero, all above \<open>- W\<close>: each is below \<open>length * W\<close>.\<close>

lemma sum_bound:
  fixes f :: "'a \<Rightarrow> int"
  assumes "\<forall>x\<in>set xs. - W < f x" "0 \<le> W"
  shows "x \<in> set xs \<Longrightarrow> f x \<le> (\<Sum>x\<leftarrow>xs. f x) + int (length xs) * W"
  using assms
proof (induction xs)
  case (Cons y ys)
  have lb: "- (int (length ys) * W) \<le> (\<Sum>x\<leftarrow>ys. f x)"
    using Cons.prems(2) by (induction ys) (auto simp: algebra_simps)
  then show ?case using Cons by (auto simp: algebra_simps)
qed simp

definition wr_held :: "(uint64 \<Rightarrow> int) \<Rightarrow> Server list \<Rightarrow> wr_opts \<Rightarrow> (uint64 \<Rightarrow> int) \<Rightarrow> bool" where
  "wr_held w svs opts c \<longleftrightarrow> (\<forall>s\<in>set svs. opts (sv_ID s) = None \<and> c (sv_ID s) = 0
     \<or> opts (sv_ID s) = Some \<lparr>effectiveWeight = w (sv_ID s), currentWeight = c (sv_ID s)\<rparr>)"

lemma wr_bounds:
  assumes "wr_ok w svs" "wr_inv w svs k n c" "s \<in> set svs"
  shows "c (sv_ID s) + w (sv_ID s) < 2 ^ 63" "- wsum w svs < c (sv_ID s)" "w (sv_ID s) \<le> wsum w svs"
    "- (2 ^ 63) < - wsum w svs" "0 \<le> w (sv_ID s)"
proof -
  let ?W = "wsum w svs"
  show i: "- ?W < c (sv_ID s)" and w0: "0 \<le> w (sv_ID s)"
    using assms by (auto simp: wr_inv_def wr_ok_def)
  have "\<forall>s\<in>set svs. - ?W < c (sv_ID s)" "0 < ?W" using assms by (auto simp: wr_inv_def wr_ok_def)
  then have c: "c (sv_ID s) \<le> int (length svs) * ?W"
    using sum_bound [of svs ?W "\<lambda>s. c (sv_ID s)" s] wr_inv_sum [OF assms(2)] assms(3) by simp
  show w: "w (sv_ID s) \<le> ?W"
    using assms(1,3) by (intro member_le_sum_list) (auto simp: wr_ok_def)
  have b: "int (length svs) * ?W + ?W < 2 ^ 63" "0 \<le> int (length svs) * ?W"
    using assms(1) by (auto simp: wr_ok_def algebra_simps)
  show "c (sv_ID s) + w (sv_ID s) < 2 ^ 63" using b c w by linarith
  show "- (2 ^ 63) < - ?W" using b by linarith
qed

lemma wr_rel_intro:
  assumes "wr_ok w svs" "wr_inv w svs k n c" "wr_held w svs opts c"
  shows "wr_rel w svs opts c"
  unfolding wr_rel_def
proof
  fix s
  assume s: "s \<in> set svs"
  have "- (2 ^ 63) < c (sv_ID s) + w (sv_ID s)" using wr_bounds [OF assms(1,2) s] by linarith
  then show "sv_ID s \<noteq> 0 \<and> sv_Weight s = w (sv_ID s) \<and> 0 \<le> w (sv_ID s) \<and>
     \<bar>c (sv_ID s) + w (sv_ID s)\<bar> < 2 ^ 63 \<and>
     (opts (sv_ID s) = None \<and> c (sv_ID s) = 0
      \<or> opts (sv_ID s) = Some \<lparr>effectiveWeight = w (sv_ID s), currentWeight = c (sv_ID s)\<rparr>)"
    using assms s wr_bounds(1) [OF assms(1,2) s] by (auto simp: wr_ok_def wr_held_def abs_less_iff)
qed

lemma wr_sum_upd:
  assumes "wr_ok w svs" "b \<in> sv_ID ` set svs"
  shows "(\<Sum>s\<leftarrow>svs. (n(b := n b + 1)) (sv_ID s)) = (\<Sum>s\<leftarrow>svs. n (sv_ID s)) + (1::int)"
proof -
  have s: "(\<Sum>s\<leftarrow>svs. f (sv_ID s)) = sum f (sv_ID ` set svs)" for f :: "uint64 \<Rightarrow> int"
    using assms(1) sum_list_distinct_conv_sum_set [of "map sv_ID svs" f] by (simp add: wr_ok_def comp_def)
  have "sum (n(b := n b + 1)) (sv_ID ` set svs) = n b + 1 + sum n (sv_ID ` set svs - {b})"
    using assms(2) by (subst sum.remove [of _ b]) (auto intro!: sum.cong)
  also have "\<dots> = sum n (sv_ID ` set svs) + 1"
    using assms(2) by (subst (2) sum.remove [of _ b]) auto
  finally show ?thesis using s [of n] s [of "n(b := n b + 1)"] by simp
qed

lemma wr_round:
  assumes ok: "wr_ok w svs" and inv: "wr_inv w svs k n c" and held: "wr_held w svs opts c"
  shows "\<exists>opts' b c'. wr_Select opts ctx svs = (opts', b) \<and> b \<in> sv_ID ` set svs \<and>
    wr_inv w svs (k + 1) (n(b := n b + 1)) c' \<and> wr_held w svs opts' c'"
proof -
  let ?W = "wsum w svs"
  obtain opts' b where sel: "wr_Select opts ctx svs = (opts', b)" "b \<in> sv_ID ` set svs"
    and max: "\<forall>s\<in>set svs. c (sv_ID s) + w (sv_ID s) \<le> c b + w b"
    and o': "\<forall>s\<in>set svs. opts' (sv_ID s) = Some \<lparr>effectiveWeight = w (sv_ID s),
       currentWeight = (if sv_ID s = b then i64 (c b + w b - ?W) else c (sv_ID s) + w (sv_ID s))\<rparr>"
    using wr_Select_eq [OF ok wr_rel_intro [OF assms], of ctx] by blast
  have "(\<Sum>s\<leftarrow>svs. c (sv_ID s) + w (sv_ID s)) = ?W"
    using wr_inv_sum [OF inv] by (simp add: sum_list_addf)
  then have pos: "0 < c b + w b"
    using max ok sum_list_nonpos [of "map (\<lambda>s. c (sv_ID s) + w (sv_ID s)) svs"]
    by (force simp: wr_ok_def)
  obtain sb where sb: "sb \<in> set svs" "sv_ID sb = b" using sel(2) by auto
  have "i64 (c b + w b - ?W) = c b + w b - ?W"
    using wr_bounds [OF ok inv sb(1)] sb(2) pos ok by (intro i64_id) (auto simp: wr_ok_def)
  moreover define c' where "c' = (\<lambda>i. c i + w i - (if i = b then ?W else 0))"
  ultimately have "wr_held w svs opts' c'" using o' by (simp add: wr_held_def)
  moreover have "wr_inv w svs (k + 1) (n(b := n b + 1)) c'"
    unfolding wr_inv_def
  proof (intro conjI ballI)
    show "(\<Sum>s\<leftarrow>svs. (n(b := n b + 1)) (sv_ID s)) = k + 1"
      using wr_sum_upd [OF ok sel(2)] inv by (simp add: wr_inv_def)
    fix s
    assume s: "s \<in> set svs"
    show "c' (sv_ID s) = (k + 1) * w (sv_ID s) - ?W * (n(b := n b + 1)) (sv_ID s)"
      using inv s by (cases "sv_ID s = b") (auto simp: wr_inv_def c'_def algebra_simps)
    show "- ?W < c' (sv_ID s)"
      using pos wr_bounds [OF ok inv s] by (simp add: c'_def)
  qed
  ultimately show ?thesis using sel by blast
qed

lemma wr_run_inv:
  assumes "wr_ok w svs" "wr_inv w svs k n c" "wr_held w svs opts c"
  shows "\<exists>c'. wr_inv w svs (k + int m) (\<lambda>i. n i + int (count_list (wr_run m opts ctx svs) i)) c'"
  using assms(2,3)
proof (induction m arbitrary: k n c opts)
  case (Suc m)
  obtain opts' b c' where r: "wr_Select opts ctx svs = (opts', b)"
    "wr_inv w svs (k + 1) (n(b := n b + 1)) c'" "wr_held w svs opts' c'"
    using wr_round [OF assms(1) Suc.prems, of ctx] by blast
  have "(\<lambda>i. (n(b := n b + 1)) i + int (count_list (wr_run m opts' ctx svs) i))
      = (\<lambda>i. n i + int (count_list (wr_run (Suc m) opts ctx svs) i))"
    using r(1) by auto
  then show ?case using Suc.IH [OF r(2,3)] by (simp add: add.assoc)
qed auto

text \<open>C22 --- smooth weighted round robin is exactly proportional. For servers with distinct non-zero
  identifiers and non-negative weights of sum \<open>W > 0\<close> (small enough that no 64-bit sum overflows),
  a fresh balancer asked \<open>W\<close> times selects every server exactly as often as its weight says.\<close>

theorem wr_fair:
  assumes "wr_ok w svs" "s \<in> set svs"
  shows "int (count_list (wr_run (nat (wsum w svs)) Map.empty ctx svs) (sv_ID s)) = sv_Weight s"
proof -
  let ?W = "wsum w svs" and ?run = "wr_run (nat (wsum w svs)) Map.empty ctx svs"
  let ?n = "\<lambda>i. int (count_list ?run i)"
  have W: "0 < ?W" using assms by (simp add: wr_ok_def)
  have "wr_inv w svs 0 (\<lambda>_. 0) (\<lambda>_. 0)" "wr_held w svs Map.empty (\<lambda>_. 0)"
    using W by (auto simp: wr_inv_def wr_held_def)
  then obtain c' where inv: "wr_inv w svs ?W ?n c'"
    using wr_run_inv [OF assms(1), of 0 "\<lambda>_. 0" "\<lambda>_. 0" Map.empty "nat ?W" ctx] W by auto
  have le: "?n (sv_ID t) \<le> w (sv_ID t)" if "t \<in> set svs" for t
  proof -
    have "c' (sv_ID t) = ?W * w (sv_ID t) - ?W * ?n (sv_ID t)" "- ?W < c' (sv_ID t)"
      using inv that by (auto simp: wr_inv_def)
    then have "- ?W < ?W * w (sv_ID t) - ?W * ?n (sv_ID t)" by simp
    then have "0 < ?W * (w (sv_ID t) - ?n (sv_ID t) + 1)" by (simp add: algebra_simps)
    then show ?thesis using W by (simp add: zero_less_mult_iff)
  qed
  have "(\<Sum>t\<leftarrow>svs. w (sv_ID t) - ?n (sv_ID t)) = 0"
    using inv by (simp add: wr_inv_def sum_list_subtractf)
  moreover have "0 \<le> x" if "x \<in> set (map (\<lambda>t. w (sv_ID t) - ?n (sv_ID t)) svs)" for x
    using that le by auto
  ultimately have "\<forall>x\<in>set (map (\<lambda>t. w (sv_ID t) - ?n (sv_ID t)) svs). x = 0"
    using sum_list_nonneg_eq_0_iff by blast
  then have "w (sv_ID s) - ?n (sv_ID s) = 0" using assms(2) by simp
  then show ?thesis using assms by (simp add: wr_ok_def)
qed

theorem wr_fair_witness:
  "count_list (wr_run 4 Map.empty demo_req [demo_server 1 3, demo_server 2 1]) 1 = 3"
  using wr_fair [of "\<lambda>i. if i = 1 then 3 else 1" "[demo_server 1 3, demo_server 2 1]" "demo_server 1 3" demo_req]
  by (simp add: wr_ok_def demo_server_def)

end
