(* ===== verification/Mem_Pool.thy ===== *)
theory Mem_Pool
  imports Vx_Prelude
begin

text \<open>
  The slab memory pool behind the byte buffers (\<^verbatim>\<open>goetty/pool.go\<close>). Of a slice only its capacity
  matters here: \<^verbatim>\<open>Alloc\<close> reslices a pooled slice to the requested length, which panics when the
  capacity is smaller. A \<^verbatim>\<open>sync.Pool\<close> returns some slice that was put, or makes a new one; which, is
  the argument \<open>choice\<close> (\<open>None\<close>: a new one).
\<close>

record SyncPool =
  classes :: "nat list list"
  classesSize :: "nat list"
  minSize :: nat
  maxSize :: nat

text \<open>The loop \<^verbatim>\<open>for chunkSize := minSize; chunkSize <= maxSize; chunkSize *= factor\<close>, which does not
  end for a factor below two or a minimum of zero.\<close>

partial_function (option) chunk_sizes :: "nat \<Rightarrow> nat \<Rightarrow> nat \<Rightarrow> nat list option" where
  "chunk_sizes maxs factor chunk =
     (if chunk \<le> maxs
      then Option.bind (chunk_sizes maxs factor (chunk * factor)) (\<lambda>cs. Some (chunk # cs))
      else Some [])"

declare chunk_sizes.simps [code]

definition NewSyncPool :: "nat \<Rightarrow> nat \<Rightarrow> nat \<Rightarrow> SyncPool option" where
  "NewSyncPool mins maxs factor =
     map_option (\<lambda>cs. \<lparr>classes = map (\<lambda>_. []) cs, classesSize = cs, minSize = mins, maxSize = maxs\<rparr>)
       (chunk_sizes maxs factor mins)"

text \<open>The index of the first class that is large enough.\<close>

fun class_for :: "nat \<Rightarrow> nat list \<Rightarrow> nat option" where
  "class_for sz [] = None"
| "class_for sz (c # cs) = (if sz \<le> c then Some 0 else map_option Suc (class_for sz cs))"

text \<open>\<^verbatim>\<open>Alloc\<close> returns the capacity of the slice it hands out; \<open>choice\<close> picks an entry of the class.\<close>

definition Alloc :: "nat option \<Rightarrow> nat \<Rightarrow> SyncPool \<Rightarrow> (unit, SyncPool \<times> nat) outcome" where
  "Alloc choice sz p =
     (if sz \<le> maxSize p then
        (case class_for sz (classesSize p) of
           Some i \<Rightarrow>
             (case choice of
                Some j \<Rightarrow>
                  if j < length (classes p ! i) then
                    (let mem = classes p ! i ! j
                     in if sz \<le> mem
                        then Ok (p\<lparr>classes := (classes p)[i := take j (classes p ! i) @ drop (Suc j) (classes p ! i)]\<rparr>, mem)
                        else Panic)
                  else Ok (p, classesSize p ! i)
              | None \<Rightarrow> Ok (p, classesSize p ! i))
         | None \<Rightarrow> Ok (p, sz))
      else Ok (p, sz))"

definition Free :: "nat \<Rightarrow> SyncPool \<Rightarrow> SyncPool" where
  "Free mem p =
     (if mem \<le> maxSize p then
        (case class_for mem (classesSize p) of
           Some i \<Rightarrow> p\<lparr>classes := (classes p)[i := classes p ! i @ [mem]]\<rparr>
         | None \<Rightarrow> p)
      else p)"

text \<open>Every pooled slice fits its class.\<close>

definition pool_ok :: "SyncPool \<Rightarrow> bool" where
  "pool_ok p \<longleftrightarrow> length (classes p) = length (classesSize p) \<and>
     (\<forall>i < length (classes p). \<forall>mem\<in>set (classes p ! i). classesSize p ! i \<le> mem)"

lemma pool_ok_upd:
  assumes "pool_ok p" "\<forall>mem\<in>set xs. i < length (classes p) \<longrightarrow> classesSize p ! i \<le> mem"
  shows "pool_ok (p\<lparr>classes := (classes p)[i := xs]\<rparr>)"
proof (cases "i < length (classes p)")
  case True
  then show ?thesis using assms by (simp add: pool_ok_def nth_list_update)
next
  case False
  then show ?thesis using assms(1) by (simp add: list_update_beyond)
qed

lemma class_for_Some: "class_for sz cs = Some i \<Longrightarrow> i < length cs \<and> sz \<le> cs ! i"
  by (induction cs arbitrary: i) (auto split: if_splits)

lemma class_for_self: "sz \<in> set cs \<Longrightarrow> sorted cs \<Longrightarrow> class_for sz cs = Some i \<Longrightarrow> cs ! i = sz"
proof (induction cs arbitrary: i)
  case (Cons c cs)
  show ?case
  proof (cases "sz \<le> c")
    case True
    then have "c = sz" using Cons.prems by auto
    then show ?thesis using True Cons.prems by simp
  next
    case False
    then show ?thesis using Cons by (auto split: if_splits)
  qed
qed simp

lemma chunk_sizes_total:
  assumes "0 < chunk" "2 \<le> factor"
  shows "\<exists>cs. chunk_sizes maxs factor chunk = Some cs \<and> sorted cs \<and> (\<forall>c\<in>set cs. chunk \<le> c)"
  using assms(1)
proof (induction "Suc maxs - chunk" arbitrary: chunk rule: less_induct)
  case less
  show ?case
  proof (cases "chunk \<le> maxs")
    case True
    have m: "chunk < chunk * factor" using less.prems assms(2) by simp
    then have "Suc maxs - chunk * factor < Suc maxs - chunk" "0 < chunk * factor" using True less.prems by linarith+
    then obtain cs where cs: "chunk_sizes maxs factor (chunk * factor) = Some cs" "sorted cs" "\<forall>c\<in>set cs. chunk * factor \<le> c"
      using less.hyps by blast
    have "chunk_sizes maxs factor chunk = Some (chunk # cs)"
      using True cs(1) by (subst chunk_sizes.simps) simp
    moreover have "\<forall>c\<in>set cs. chunk \<le> c" using cs(3) m by (meson less_imp_le_nat order_trans)
    ultimately show ?thesis using cs(2) by simp
  next
    case False
    then show ?thesis by (subst chunk_sizes.simps) simp
  qed
qed

text \<open>The pool is made for every sensible configuration: for a positive minimum and a factor of
  at least two the construction loop ends, the class sizes are ascending and nothing is pooled yet.\<close>

theorem NewSyncPool_total:
  assumes "0 < mins" "2 \<le> factor"
  shows "\<exists>p. NewSyncPool mins maxs factor = Some p \<and> pool_ok p \<and> sorted (classesSize p) \<and> maxSize p = maxs"
  using chunk_sizes_total [OF assms, of maxs] by (auto simp: NewSyncPool_def pool_ok_def)

theorem NewSyncPool_total_witness:
  "\<exists>p. NewSyncPool 256 67108864 2 = Some p \<and> pool_ok p \<and> sorted (classesSize p) \<and> maxSize p = 67108864"
  by (rule NewSyncPool_total) simp_all


definition demo_pool :: SyncPool where
  "demo_pool = \<lparr>classes = [[], [512]], classesSize = [256, 512], minSize = 256, maxSize = 512\<rparr>"


text \<open>A foreign slice poisons the pool: after \<^verbatim>\<open>Free\<close> of a slice whose capacity lies strictly
  between two class sizes (as \<^verbatim>\<open>Clear\<close> and \<^verbatim>\<open>Release\<close> of a wrapped buffer do), an allocation of a
  size that needs the larger class can be handed that slice, and reslicing it panics.\<close>

theorem Free_foreign_panics:
  assumes "sorted (classesSize p)" "length (classes p) = length (classesSize p)"
    and "class_for mem (classesSize p) = Some i" "mem < sz" "sz \<le> classesSize p ! i" "classesSize p ! i \<le> maxSize p"
  shows "Alloc (Some (length (classes p ! i))) sz (Free mem p) = Panic"
proof -
  have i: "i < length (classesSize p)" using class_for_Some [OF assms(3)] by simp
  have "class_for sz cs = Some i" if "class_for mem cs = Some i" "sz \<le> cs ! i" for cs i
    using that assms(4)
  proof (induction cs arbitrary: i)
    case (Cons c cs)
    then show ?case by (auto split: if_splits)
  qed simp
  then have "class_for sz (classesSize p) = Some i" using assms(3,5) by blast
  moreover have "mem \<le> maxSize p" "sz \<le> maxSize p" using assms(4-6) by simp_all
  ultimately show ?thesis
    using i assms(2,3,4) by (simp add: Alloc_def Free_def Let_def)
qed

theorem Free_foreign_panics_witness:
  "Alloc (Some 1) 400 (Free 300 demo_pool) = Panic"
  using Free_foreign_panics [of demo_pool 300 1 400] by (simp add: demo_pool_def)

end
