(* ===== verification/Byte_Buf.thy ===== *)
theory Byte_Buf
  imports Vx_Prelude
begin

text \<open>
  The byte buffer of the network library (\<^verbatim>\<open>goetty/buf.go\<close>): big-endian conversions and the
  growing buffer with a read and a write position that the response cache stores.

  The memory pool is the argument \<open>alloc\<close>: what \<^verbatim>\<open>pool.Alloc(n)\<close> returns, a slice of length \<open>n\<close>
  with arbitrary (recycled) bytes; the locale \<open>mem_alloc\<close> is that contract. Slicing is bounded by the
  length, which is what the invariant keeps; the panics of the slice expressions are explicit.
\<close>

unbundle bit_operations_syntax

subsection \<open>Big-endian conversions\<close>

definition byte_of :: "int \<Rightarrow> byte" where
  "byte_of v = word_of_int v"

definition Int2Bytes :: "int \<Rightarrow> byte list" where
  "Int2Bytes v = [byte_of (drop_bit 24 v), byte_of (drop_bit 16 v), byte_of (drop_bit 8 v), byte_of v]"

text \<open>Indexing panics on fewer than four bytes.\<close>

fun Byte2Int :: "byte list \<Rightarrow> int option" where
  "Byte2Int (a # b # c # d # _) =
     Some (push_bit 24 (uint a) OR push_bit 16 (uint b) OR push_bit 8 (uint c) OR uint d)"
| "Byte2Int _ = None"

definition Int64ToBytes :: "int \<Rightarrow> byte list" where
  "Int64ToBytes v = [byte_of (drop_bit 56 v), byte_of (drop_bit 48 v), byte_of (drop_bit 40 v),
     byte_of (drop_bit 32 v), byte_of (drop_bit 24 v), byte_of (drop_bit 16 v), byte_of (drop_bit 8 v),
     byte_of v]"

text \<open>The shift by 56 reaches the sign bit of \<^verbatim>\<open>int64\<close>.\<close>

fun Byte2Int64 :: "byte list \<Rightarrow> int option" where
  "Byte2Int64 (a # b # c # d # e # f # g # h # _) =
     Some (i64 (push_bit 56 (uint a) OR push_bit 48 (uint b) OR push_bit 40 (uint c) OR push_bit 32 (uint d)
       OR push_bit 24 (uint e) OR push_bit 16 (uint f) OR push_bit 8 (uint g) OR uint h))"
| "Byte2Int64 _ = None"

text \<open>\<^verbatim>\<open>binary.BigEndian\<close> for the unsigned widths.\<close>

definition UInt16ToBytes :: "16 word \<Rightarrow> byte list" where
  "UInt16ToBytes v = [ucast (drop_bit 8 v), ucast v]"

fun Byte2UInt16 :: "byte list \<Rightarrow> 16 word option" where
  "Byte2UInt16 (a # b # _) = Some (push_bit 8 (ucast a) OR ucast b)"
| "Byte2UInt16 _ = None"

definition UInt32ToBytes :: "uint32 \<Rightarrow> byte list" where
  "UInt32ToBytes v = [ucast (drop_bit 24 v), ucast (drop_bit 16 v), ucast (drop_bit 8 v), ucast v]"

fun Byte2UInt32 :: "byte list \<Rightarrow> uint32 option" where
  "Byte2UInt32 (a # b # c # d # _) =
     Some (push_bit 24 (ucast a) OR push_bit 16 (ucast b) OR push_bit 8 (ucast c) OR ucast d)"
| "Byte2UInt32 _ = None"

definition Uint64ToBytes :: "uint64 \<Rightarrow> byte list" where
  "Uint64ToBytes v = [ucast (drop_bit 56 v), ucast (drop_bit 48 v), ucast (drop_bit 40 v),
     ucast (drop_bit 32 v), ucast (drop_bit 24 v), ucast (drop_bit 16 v), ucast (drop_bit 8 v), ucast v]"

fun Byte2UInt64 :: "byte list \<Rightarrow> uint64 option" where
  "Byte2UInt64 (a # b # c # d # e # f # g # h # _) =
     Some (push_bit 56 (ucast a) OR push_bit 48 (ucast b) OR push_bit 40 (ucast c) OR push_bit 32 (ucast d)
       OR push_bit 24 (ucast e) OR push_bit 16 (ucast f) OR push_bit 8 (ucast g) OR ucast h)"
| "Byte2UInt64 _ = None"

lemma Int2Bytes_inverse: "Byte2Int (Int2Bytes v) = Some (take_bit 32 v)"
proof -
  have "push_bit 24 (uint (byte_of (drop_bit 24 v))) OR push_bit 16 (uint (byte_of (drop_bit 16 v)))
      OR push_bit 8 (uint (byte_of (drop_bit 8 v))) OR uint (byte_of v) = take_bit 32 v"
  proof (rule bit_eqI)
    fix n :: nat
    consider "n < 8" | "8 \<le> n" "n < 16" | "16 \<le> n" "n < 24" | "24 \<le> n" "n < 32" | "32 \<le> n" by linarith
    then show "bit (push_bit 24 (uint (byte_of (drop_bit 24 v))) OR push_bit 16 (uint (byte_of (drop_bit 16 v)))
      OR push_bit 8 (uint (byte_of (drop_bit 8 v))) OR uint (byte_of v)) n = bit (take_bit 32 v) n"
      by cases (auto simp: byte_of_def bit_simps)
  qed
  then show ?thesis by (simp add: Int2Bytes_def)
qed

lemma Int64ToBytes_inverse: "Byte2Int64 (Int64ToBytes v) = Some (i64 v)"
proof -
  have "push_bit 56 (uint (byte_of (drop_bit 56 v))) OR push_bit 48 (uint (byte_of (drop_bit 48 v)))
      OR push_bit 40 (uint (byte_of (drop_bit 40 v))) OR push_bit 32 (uint (byte_of (drop_bit 32 v)))
      OR push_bit 24 (uint (byte_of (drop_bit 24 v))) OR push_bit 16 (uint (byte_of (drop_bit 16 v)))
      OR push_bit 8 (uint (byte_of (drop_bit 8 v))) OR uint (byte_of v) = take_bit 64 v" (is "?w = _")
  proof (rule bit_eqI)
    fix n :: nat
    consider "n < 8" | "8 \<le> n" "n < 16" | "16 \<le> n" "n < 24" | "24 \<le> n" "n < 32" | "32 \<le> n" "n < 40"
      | "40 \<le> n" "n < 48" | "48 \<le> n" "n < 56" | "56 \<le> n" "n < 64" | "64 \<le> n" by linarith
    then show "bit ?w n = bit (take_bit 64 v) n"
      by cases (auto simp: byte_of_def bit_simps)
  qed
  moreover have "i64 (take_bit 64 v) = i64 v"
    by (simp add: i64_def signed_take_bit_take_bit)
  ultimately show ?thesis by (simp add: Int64ToBytes_def)
qed

lemma UInt16_inverse: "Byte2UInt16 (UInt16ToBytes v) = Some v"
proof -
  have "push_bit 8 (ucast (ucast (drop_bit 8 v) :: byte)) OR ucast (ucast v :: byte) = v" (is "?w = _")
  proof (rule bit_eqI)
    fix n :: nat
    assume "possible_bit TYPE(16 word) n"
    then consider "n < 8" | "8 \<le> n" "n < 16" by force
    then show "bit ?w n = bit v n" by cases (auto simp: bit_simps)
  qed
  then show ?thesis by (simp add: UInt16ToBytes_def)
qed

lemma UInt32_inverse: "Byte2UInt32 (UInt32ToBytes v) = Some v"
proof -
  have "push_bit 24 (ucast (ucast (drop_bit 24 v) :: byte)) OR push_bit 16 (ucast (ucast (drop_bit 16 v) :: byte))
      OR push_bit 8 (ucast (ucast (drop_bit 8 v) :: byte)) OR ucast (ucast v :: byte) = v" (is "?w = _")
  proof (rule bit_eqI)
    fix n :: nat
    assume "possible_bit TYPE(32 word) n"
    then consider "n < 8" | "8 \<le> n" "n < 16" | "16 \<le> n" "n < 24" | "24 \<le> n" "n < 32" by force
    then show "bit ?w n = bit v n" by cases (auto simp: bit_simps)
  qed
  then show ?thesis by (simp add: UInt32ToBytes_def)
qed

lemma Uint64_inverse: "Byte2UInt64 (Uint64ToBytes v) = Some v"
proof -
  have "push_bit 56 (ucast (ucast (drop_bit 56 v) :: byte)) OR push_bit 48 (ucast (ucast (drop_bit 48 v) :: byte))
      OR push_bit 40 (ucast (ucast (drop_bit 40 v) :: byte)) OR push_bit 32 (ucast (ucast (drop_bit 32 v) :: byte))
      OR push_bit 24 (ucast (ucast (drop_bit 24 v) :: byte)) OR push_bit 16 (ucast (ucast (drop_bit 16 v) :: byte))
      OR push_bit 8 (ucast (ucast (drop_bit 8 v) :: byte)) OR ucast (ucast v :: byte) = v" (is "?w = _")
  proof (rule bit_eqI)
    fix n :: nat
    assume "possible_bit TYPE(64 word) n"
    then consider "n < 8" | "8 \<le> n" "n < 16" | "16 \<le> n" "n < 24" | "24 \<le> n" "n < 32" | "32 \<le> n" "n < 40"
      | "40 \<le> n" "n < 48" | "48 \<le> n" "n < 56" | "56 \<le> n" "n < 64" by force
    then show "bit ?w n = bit v n" by cases (auto simp: bit_simps)
  qed
  then show ?thesis by (simp add: Uint64ToBytes_def)
qed

subsection \<open>The buffer\<close>

record ByteBuf =
  bb_capacity :: nat
  bb_buf :: "byte list"
  readerIndex :: int
  writerIndex :: int
  markedIndex :: int

datatype buf_error = ErrShortBuffer

type_synonym alloc_fn = "nat \<Rightarrow> byte list"

definition minScale :: nat where
  "minScale = 128"

text \<open>\<^verbatim>\<open>copy(dst, src)\<close>.\<close>

definition go_copy :: "'a list \<Rightarrow> 'a list \<Rightarrow> 'a list" where
  "go_copy dst src = take (length dst) src @ drop (length src) dst"

definition NewByteBufPool :: "alloc_fn \<Rightarrow> nat \<Rightarrow> ByteBuf" where
  "NewByteBufPool alloc cap =
     \<lparr>bb_capacity = cap, bb_buf = alloc cap, readerIndex = 0, writerIndex = 0, markedIndex = 0\<rparr>"

text \<open>\<open>cap\<close> is the capacity of the wrapped slice.\<close>

definition WrapBytes :: "nat \<Rightarrow> byte list \<Rightarrow> ByteBuf" where
  "WrapBytes cap data =
     \<lparr>bb_capacity = cap, bb_buf = data, readerIndex = 0, writerIndex = int (length data), markedIndex = 0\<rparr>"

definition bb_Clear :: "alloc_fn \<Rightarrow> ByteBuf \<Rightarrow> ByteBuf" where
  "bb_Clear alloc b =
     b\<lparr>readerIndex := 0, writerIndex := 0, markedIndex := 0, bb_buf := alloc (bb_capacity b)\<rparr>"

definition bb_Release :: "ByteBuf \<Rightarrow> ByteBuf" where
  "bb_Release b = b\<lparr>bb_buf := []\<rparr>"

definition bb_Wrap :: "alloc_fn \<Rightarrow> byte list \<Rightarrow> ByteBuf \<Rightarrow> ByteBuf" where
  "bb_Wrap alloc data b =
     (bb_Release (bb_Clear alloc b))\<lparr>bb_buf := data, writerIndex := int (length data)\<rparr>"

definition bb_Resume :: "alloc_fn \<Rightarrow> ByteBuf \<Rightarrow> ByteBuf" where
  "bb_Resume alloc b = b\<lparr>bb_buf := alloc (bb_capacity b)\<rparr>"

definition Capacity :: "ByteBuf \<Rightarrow> int" where
  "Capacity b = int (length (bb_buf b))"

definition SetReaderIndex :: "int \<Rightarrow> ByteBuf \<Rightarrow> (buf_error, ByteBuf) outcome" where
  "SetReaderIndex i b =
     (if i < 0 \<or> writerIndex b < i then Err ErrShortBuffer else Ok (b\<lparr>readerIndex := i\<rparr>))"

definition SetWriterIndex :: "int \<Rightarrow> ByteBuf \<Rightarrow> (buf_error, ByteBuf) outcome" where
  "SetWriterIndex i b =
     (if i < readerIndex b \<or> Capacity b < i then Err ErrShortBuffer else Ok (b\<lparr>writerIndex := i\<rparr>))"

definition GetMarkedRemind :: "ByteBuf \<Rightarrow> int" where
  "GetMarkedRemind b = markedIndex b - readerIndex b"

definition GetMarkedRemindData :: "ByteBuf \<Rightarrow> byte list option" where
  "GetMarkedRemindData b = go_slice (bb_buf b) (readerIndex b) (markedIndex b)"

definition MarkWrite :: "ByteBuf \<Rightarrow> ByteBuf" where
  "MarkWrite b = b\<lparr>markedIndex := writerIndex b\<rparr>"

text \<open>\<^verbatim>\<open>WrittenDataAfterMark().Data()\<close>.\<close>

definition WrittenDataAfterMark :: "ByteBuf \<Rightarrow> byte list option" where
  "WrittenDataAfterMark b = go_slice (bb_buf b) (markedIndex b) (writerIndex b)"

definition MarkIndex :: "int \<Rightarrow> ByteBuf \<Rightarrow> (buf_error, ByteBuf) outcome" where
  "MarkIndex i b =
     (if Capacity b < i \<or> i \<le> readerIndex b then Err ErrShortBuffer else Ok (b\<lparr>markedIndex := i\<rparr>))"

definition MarkN :: "int \<Rightarrow> ByteBuf \<Rightarrow> (buf_error, ByteBuf) outcome" where
  "MarkN n b = MarkIndex (readerIndex b + n) b"

definition Readable :: "ByteBuf \<Rightarrow> int" where
  "Readable b = writerIndex b - readerIndex b"

definition Skip :: "int \<Rightarrow> ByteBuf \<Rightarrow> (buf_error, ByteBuf) outcome" where
  "Skip n b =
     (if Readable b < n then Err ErrShortBuffer else Ok (b\<lparr>readerIndex := readerIndex b + n\<rparr>))"

definition ReadByte :: "ByteBuf \<Rightarrow> (buf_error, ByteBuf \<times> byte) outcome" where
  "ReadByte b =
     (if Readable b = 0 then Ok (b, 0)
      else case go_index (bb_buf b) (readerIndex b) of
             None \<Rightarrow> Panic
           | Some v \<Rightarrow> Ok (b\<lparr>readerIndex := readerIndex b + 1\<rparr>, v))"

definition ReadRawBytes :: "int \<Rightarrow> ByteBuf \<Rightarrow> (buf_error, int \<times> byte list) outcome" where
  "ReadRawBytes n b =
     (if Readable b < n then Ok (0, [])
      else case go_slice (bb_buf b) (readerIndex b) (readerIndex b + n) of
             None \<Rightarrow> Panic
           | Some v \<Rightarrow> Ok (n, v))"

text \<open>\<^verbatim>\<open>Read(p)\<close>: the buffer, the count and \<open>p\<close> after the copy.\<close>

definition bb_Read :: "byte list \<Rightarrow> ByteBuf \<Rightarrow> (buf_error, ByteBuf \<times> int \<times> byte list) outcome" where
  "bb_Read p b =
     (if length p = 0 then Ok (b, 0, p)
      else let sz = min (int (length p)) (Readable b)
           in case go_slice (bb_buf b) (readerIndex b) (readerIndex b + sz) of
                None \<Rightarrow> Panic
              | Some src \<Rightarrow>
                  let n = int (min (length p) (length src))
                  in Ok (b\<lparr>readerIndex := readerIndex b + n\<rparr>, n, go_copy p src))"

text \<open>\<^verbatim>\<open>make([]byte, n)\<close> panics for a negative \<open>n\<close>.\<close>

definition ReadBytes :: "int \<Rightarrow> ByteBuf \<Rightarrow> (buf_error, ByteBuf \<times> int \<times> byte list) outcome" where
  "ReadBytes n b = (if n < 0 then Panic else bb_Read (replicate (nat n) 0) b)"

definition ReadAll :: "ByteBuf \<Rightarrow> (buf_error, ByteBuf \<times> int \<times> byte list) outcome" where
  "ReadAll b = ReadBytes (Readable b) b"

definition ReadMarkedBytes :: "ByteBuf \<Rightarrow> (buf_error, ByteBuf \<times> int \<times> byte list) outcome" where
  "ReadMarkedBytes b = ReadBytes (GetMarkedRemind b) b"

definition MarkedBytesReaded :: "ByteBuf \<Rightarrow> ByteBuf" where
  "MarkedBytesReaded b = b\<lparr>readerIndex := markedIndex b\<rparr>"

text \<open>The fixed-width readers differ in the width and the conversion.\<close>

definition read_fixed :: "nat \<Rightarrow> (byte list \<Rightarrow> 'v option) \<Rightarrow> ByteBuf \<Rightarrow> (buf_error, ByteBuf \<times> 'v) outcome" where
  "read_fixed k conv b =
     (if Readable b < int k then Err ErrShortBuffer
      else let b = b\<lparr>readerIndex := readerIndex b + int k\<rparr>
           in case Option.bind (go_slice (bb_buf b) (readerIndex b - int k) (readerIndex b)) conv of
                None \<Rightarrow> Panic
              | Some v \<Rightarrow> Ok (b, v))"

definition ReadInt :: "ByteBuf \<Rightarrow> (buf_error, ByteBuf \<times> int) outcome" where
  "ReadInt b = read_fixed 4 Byte2Int b"

definition ReadUInt16 :: "ByteBuf \<Rightarrow> (buf_error, ByteBuf \<times> 16 word) outcome" where
  "ReadUInt16 b = read_fixed 2 Byte2UInt16 b"

definition ReadUInt32 :: "ByteBuf \<Rightarrow> (buf_error, ByteBuf \<times> uint32) outcome" where
  "ReadUInt32 b = read_fixed 4 Byte2UInt32 b"

definition ReadInt64 :: "ByteBuf \<Rightarrow> (buf_error, ByteBuf \<times> int) outcome" where
  "ReadInt64 b = read_fixed 8 Byte2Int64 b"

definition ReadUInt64 :: "ByteBuf \<Rightarrow> (buf_error, ByteBuf \<times> uint64) outcome" where
  "ReadUInt64 b = read_fixed 8 Byte2UInt64 b"

definition PeekInt :: "int \<Rightarrow> ByteBuf \<Rightarrow> (buf_error, int) outcome" where
  "PeekInt offset b =
     (if Readable b < 4 + offset then Err ErrShortBuffer
      else let start = readerIndex b + offset
           in case Option.bind (go_slice (bb_buf b) start (start + 4)) Byte2Int of
                None \<Rightarrow> Panic
              | Some v \<Rightarrow> Ok v)"

definition PeekByte :: "int \<Rightarrow> ByteBuf \<Rightarrow> (buf_error, byte) outcome" where
  "PeekByte offset b =
     (if Readable b < offset \<or> offset < 0 then Err ErrShortBuffer
      else case go_index (bb_buf b) (readerIndex b + offset) of None \<Rightarrow> Panic | Some v \<Rightarrow> Ok v)"

definition PeekN :: "int \<Rightarrow> int \<Rightarrow> ByteBuf \<Rightarrow> (buf_error, byte list) outcome" where
  "PeekN offset n b =
     (if Readable b < n + offset then Err ErrShortBuffer
      else let start = readerIndex b + offset
           in case go_slice (bb_buf b) start (start + n) of None \<Rightarrow> Panic | Some v \<Rightarrow> Ok v)"

definition Writeable :: "ByteBuf \<Rightarrow> int" where
  "Writeable b = Capacity b - writerIndex b"

text \<open>The loop of \<^verbatim>\<open>Expansion\<close>: add the step until the target is above the size. The step is at least
  \<open>minScale\<close>, so the loop ends.\<close>

function grow :: "int \<Rightarrow> int \<Rightarrow> int \<Rightarrow> int" where
  "grow step sz target =
     (if sz < target \<or> step \<le> 0 then target else grow step sz (target + step))"
  by pat_completeness auto

termination grow
  by (relation "measure (\<lambda>(step, sz, target). nat (sz + 1 - target))") auto

declare grow.simps [simp del]

definition Expansion :: "alloc_fn \<Rightarrow> int \<Rightarrow> ByteBuf \<Rightarrow> (buf_error, ByteBuf) outcome" where
  "Expansion alloc n b =
     (let free = Writeable b
      in if free < n then
           let current = Capacity b;
               step = max (int minScale) (current div 2);
               sz = current + (n - free);
               target = grow step sz current;
               newBuf = alloc (nat target);
               offset = writerIndex b - readerIndex b
           in (case go_slice (bb_buf b) (readerIndex b) (writerIndex b) of
                 None \<Rightarrow> Panic
               | Some src \<Rightarrow>
                   Ok (b\<lparr>readerIndex := 0, writerIndex := offset, bb_buf := go_copy newBuf src\<rparr>))
         else Ok b)"

text \<open>\<^verbatim>\<open>copy(b.buf[b.writerIndex:], p)\<close>, then the write index moves by the full length of \<open>p\<close>.\<close>

definition bb_Write :: "alloc_fn \<Rightarrow> byte list \<Rightarrow> ByteBuf \<Rightarrow> (buf_error, ByteBuf) outcome" where
  "bb_Write alloc p b =
     obind (Expansion alloc (int (length p)) b) (\<lambda>b.
       let w = writerIndex b
       in if 0 \<le> w \<and> w \<le> int (length (bb_buf b))
          then Ok (b\<lparr>bb_buf := take (nat w) (bb_buf b) @ go_copy (drop (nat w) (bb_buf b)) p,
                     writerIndex := w + int (length p)\<rparr>)
          else Panic)"

text \<open>The fixed-width writers store into \<^verbatim>\<open>b.buf[w : w+k]\<close>.\<close>

definition write_fixed :: "alloc_fn \<Rightarrow> byte list \<Rightarrow> ByteBuf \<Rightarrow> (buf_error, ByteBuf) outcome" where
  "write_fixed alloc bs b =
     obind (Expansion alloc (int (length bs)) b) (\<lambda>b.
       let w = writerIndex b
       in if 0 \<le> w \<and> w + int (length bs) \<le> int (length (bb_buf b))
          then Ok (b\<lparr>bb_buf := take (nat w) (bb_buf b) @ bs @ drop (nat w + length bs) (bb_buf b),
                     writerIndex := w + int (length bs)\<rparr>)
          else Panic)"

definition WriteInt :: "alloc_fn \<Rightarrow> int \<Rightarrow> ByteBuf \<Rightarrow> (buf_error, ByteBuf) outcome" where
  "WriteInt alloc v b = write_fixed alloc (Int2Bytes v) b"

definition WriteUInt16 :: "alloc_fn \<Rightarrow> 16 word \<Rightarrow> ByteBuf \<Rightarrow> (buf_error, ByteBuf) outcome" where
  "WriteUInt16 alloc v b = write_fixed alloc (UInt16ToBytes v) b"

definition WriteUInt32 :: "alloc_fn \<Rightarrow> uint32 \<Rightarrow> ByteBuf \<Rightarrow> (buf_error, ByteBuf) outcome" where
  "WriteUInt32 alloc v b = write_fixed alloc (UInt32ToBytes v) b"

definition WriteUInt64 :: "alloc_fn \<Rightarrow> uint64 \<Rightarrow> ByteBuf \<Rightarrow> (buf_error, ByteBuf) outcome" where
  "WriteUInt64 alloc v b = write_fixed alloc (Uint64ToBytes v) b"

definition WriteInt64 :: "alloc_fn \<Rightarrow> int \<Rightarrow> ByteBuf \<Rightarrow> (buf_error, ByteBuf) outcome" where
  "WriteInt64 alloc v b = write_fixed alloc (Int64ToBytes v) b"

definition WriteByte :: "alloc_fn \<Rightarrow> byte \<Rightarrow> ByteBuf \<Rightarrow> (buf_error, ByteBuf) outcome" where
  "WriteByte alloc v b = write_fixed alloc [v] b"

definition WriteByteBuf :: "alloc_fn \<Rightarrow> ByteBuf \<Rightarrow> ByteBuf \<Rightarrow> (buf_error, ByteBuf \<times> ByteBuf) outcome" where
  "WriteByteBuf alloc src b =
     obind (Expansion alloc (Readable src) b) (\<lambda>b.
       let w = writerIndex b; sz = Readable src
       in case go_slice (bb_buf src) (readerIndex src) (writerIndex src) of
            None \<Rightarrow> Panic
          | Some data \<Rightarrow>
              if 0 \<le> w \<and> w + sz \<le> int (length (bb_buf b))
              then Ok (b\<lparr>bb_buf := take (nat w) (bb_buf b) @ data @ drop (nat (w + sz)) (bb_buf b),
                         writerIndex := w + sz\<rparr>,
                       src\<lparr>readerIndex := writerIndex src\<rparr>)
              else Panic)"

subsection \<open>The buffer is a queue of bytes\<close>

definition buf_inv :: "ByteBuf \<Rightarrow> bool" where
  "buf_inv b \<longleftrightarrow> 0 \<le> readerIndex b \<and> readerIndex b \<le> writerIndex b \<and> writerIndex b \<le> int (length (bb_buf b))"

definition content :: "ByteBuf \<Rightarrow> byte list" where
  "content b = take (nat (writerIndex b - readerIndex b)) (drop (nat (readerIndex b)) (bb_buf b))"

lemma content_length: "buf_inv b \<Longrightarrow> int (length (content b)) = Readable b"
  by (simp add: content_def buf_inv_def Readable_def min_def) linarith

lemma content_slice: "buf_inv b \<Longrightarrow> go_slice (bb_buf b) (readerIndex b) (writerIndex b) = Some (content b)"
  by (simp add: go_slice_def content_def buf_inv_def)

lemma content_prefix:
  assumes "buf_inv b" "0 \<le> n" "n \<le> Readable b"
  shows "go_slice (bb_buf b) (readerIndex b) (readerIndex b + n) = Some (take (nat n) (content b))"
  using assms by (auto simp: go_slice_def content_def buf_inv_def Readable_def min_def)

lemma content_advance:
  assumes "buf_inv b" "0 \<le> n" "n \<le> Readable b"
  shows "buf_inv (b\<lparr>readerIndex := readerIndex b + n\<rparr>)"
    and "content (b\<lparr>readerIndex := readerIndex b + n\<rparr>) = drop (nat n) (content b)"
  using assms
  by (auto simp: buf_inv_def content_def Readable_def nat_add_distrib drop_take nat_diff_distrib' add.commute diff_diff_eq)

lemma content_front:
  "readerIndex b = 0 \<Longrightarrow> bb_buf b = c @ rest \<Longrightarrow> writerIndex b = int (length c) \<Longrightarrow> content b = c"
  by (simp add: content_def)

lemma grow_above: "0 < step \<Longrightarrow> sz < grow step sz target"
  by (induction step sz target rule: grow.induct) (subst grow.simps, auto)

locale mem_alloc =
  fixes alloc :: alloc_fn
  assumes alloc_length: "length (alloc n) = n"
begin

lemma New_ok: "buf_inv (NewByteBufPool alloc n) \<and> content (NewByteBufPool alloc n) = []"
  by (simp add: NewByteBufPool_def buf_inv_def content_def)

lemma Clear_ok: "buf_inv (bb_Clear alloc b) \<and> content (bb_Clear alloc b) = []"
  by (simp add: bb_Clear_def buf_inv_def content_def)

lemma Expansion_ok:
  assumes "buf_inv b" "0 \<le> n"
  shows "\<exists>b'. Expansion alloc n b = Ok b' \<and> buf_inv b' \<and> content b' = content b \<and> n \<le> Writeable b'"
proof (cases "Writeable b < n")
  case True
  let ?target = "grow (max (int minScale) (Capacity b div 2)) (Capacity b + (n - Writeable b)) (Capacity b)"
  let ?b = "b\<lparr>readerIndex := 0, writerIndex := writerIndex b - readerIndex b,
    bb_buf := go_copy (alloc (nat ?target)) (content b)\<rparr>"
  have t: "Capacity b + (n - Writeable b) < ?target" by (rule grow_above) (simp add: minScale_def)
  have l: "int (length (content b)) = writerIndex b - readerIndex b" "writerIndex b + n \<le> ?target"
    using content_length [OF assms(1)] t by (simp_all add: Readable_def Writeable_def)
  then have lt: "length (content b) \<le> nat ?target" "0 \<le> ?target" using assms unfolding buf_inv_def by linarith+
  then have buf: "bb_buf ?b = content b @ drop (length (content b)) (alloc (nat ?target))"
    by (simp add: go_copy_def alloc_length)
  have len: "length (bb_buf ?b) = nat ?target" using buf lt by (simp add: alloc_length)
  have "Expansion alloc n b = Ok ?b"
    using True content_slice [OF assms(1)] by (simp add: Expansion_def Let_def)
  moreover have "buf_inv ?b" using assms l len lt by (simp add: buf_inv_def)
  moreover have "content ?b = content b"
    using l buf by (intro content_front) simp_all
  moreover have "n \<le> Writeable ?b" using l len lt assms by (simp add: Writeable_def Capacity_def buf_inv_def)
  ultimately show ?thesis by blast
next
  case False
  then show ?thesis using assms by (simp add: Expansion_def Let_def)
qed

lemma splice_ok:
  assumes "buf_inv b" "int (length bs) \<le> Writeable b"
  defines "b' \<equiv> b\<lparr>bb_buf := take (nat (writerIndex b)) (bb_buf b) @ bs
                    @ drop (nat (writerIndex b) + length bs) (bb_buf b),
                  writerIndex := writerIndex b + int (length bs)\<rparr>"
  shows "buf_inv b' \<and> content b' = content b @ bs"
proof -
  obtain r w where rw: "readerIndex b = int r" "writerIndex b = int w" "r \<le> w" "w + length bs \<le> length (bb_buf b)"
    using assms(1,2) by (auto simp: buf_inv_def Writeable_def Capacity_def elim!: nonneg_int_cases
        intro: that [of "nat (readerIndex b)" "nat (writerIndex b)"])
  moreover have "nat (int w - int r) = w - r" "nat (int w + int (length bs) - int r) = w + length bs - r" by arith+
  ultimately show ?thesis
    by (simp add: b'_def buf_inv_def content_def drop_take)
qed

lemma write_fixed_ok:
  assumes "buf_inv b"
  shows "\<exists>b'. write_fixed alloc bs b = Ok b' \<and> buf_inv b' \<and> content b' = content b @ bs"
proof -
  obtain b1 where e: "Expansion alloc (int (length bs)) b = Ok b1" "buf_inv b1" "content b1 = content b"
    "int (length bs) \<le> Writeable b1"
    using Expansion_ok [OF assms, of "int (length bs)"] by auto
  then have "0 \<le> writerIndex b1" "writerIndex b1 + int (length bs) \<le> int (length (bb_buf b1))"
    by (auto simp: buf_inv_def Writeable_def Capacity_def)
  then show ?thesis
    using e splice_ok [OF e(2,4)] by (simp add: write_fixed_def Let_def)
qed

lemma Write_ok:
  assumes "buf_inv b"
  shows "\<exists>b'. bb_Write alloc p b = Ok b' \<and> buf_inv b' \<and> content b' = content b @ p"
proof -
  obtain b1 where e: "Expansion alloc (int (length p)) b = Ok b1" "buf_inv b1" "content b1 = content b"
    "int (length p) \<le> Writeable b1"
    using Expansion_ok [OF assms, of "int (length p)"] by auto
  then have w: "0 \<le> writerIndex b1" "nat (writerIndex b1) + length p \<le> length (bb_buf b1)"
    "writerIndex b1 \<le> int (length (bb_buf b1))"
    by (auto simp: buf_inv_def Writeable_def Capacity_def)
  then have "go_copy (drop (nat (writerIndex b1)) (bb_buf b1)) p
      = p @ drop (nat (writerIndex b1) + length p) (bb_buf b1)"
    by (simp add: go_copy_def add.commute)
  then show ?thesis
    using e w splice_ok [OF e(2,4)] by (simp add: bb_Write_def Let_def)
qed

end

interpretation fresh: mem_alloc "\<lambda>n. replicate n 0"
  by unfold_locales simp

lemma read_fixed_ok:
  assumes "buf_inv b" "content b = bs @ rest" "length bs = k" "conv bs = Some v"
  shows "\<exists>b'. read_fixed k conv b = Ok (b', v) \<and> buf_inv b' \<and> content b' = rest"
proof -
  have r: "int k \<le> Readable b" using content_length [OF assms(1)] assms(2,3) by simp
  then have "go_slice (bb_buf b) (readerIndex b) (readerIndex b + int k) = Some bs"
    using content_prefix [OF assms(1), of "int k"] assms(2,3) by simp
  then show ?thesis
    using r content_advance [OF assms(1), of "int k"] assms by (simp add: read_fixed_def Let_def)
qed

lemma read_fixed_short:
  "buf_inv b \<Longrightarrow> length (content b) < k \<Longrightarrow> read_fixed k conv b = Err ErrShortBuffer"
  using content_length [of b] by (simp add: read_fixed_def)

lemma ReadBytes_ok:
  assumes "buf_inv b" "content b = bs @ rest" "length bs = n"
  shows "\<exists>b'. ReadBytes (int n) b = Ok (b', int n, bs) \<and> buf_inv b' \<and> content b' = rest"
proof (cases "n = 0")
  case True
  then show ?thesis using assms by (simp add: ReadBytes_def bb_Read_def)
next
  case False
  have r: "int n \<le> Readable b" using content_length [OF assms(1)] assms(2,3) by simp
  then have "go_slice (bb_buf b) (readerIndex b) (readerIndex b + int n) = Some bs"
    using content_prefix [OF assms(1), of "int n"] assms(2,3) by simp
  then show ?thesis
    using r False content_advance [OF assms(1), of "int n"] assms
    by (simp add: ReadBytes_def bb_Read_def Let_def min_def go_copy_def)
qed

subsection \<open>What is written is read back\<close>

datatype item =
    IInt int
  | IU16 "16 word"
  | IU32 uint32
  | IU64 uint64
  | II64 int
  | IBytes "byte list"

fun write_item :: "alloc_fn \<Rightarrow> item \<Rightarrow> ByteBuf \<Rightarrow> (buf_error, ByteBuf) outcome" where
  "write_item alloc (IInt v) b = WriteInt alloc v b"
| "write_item alloc (IU16 v) b = WriteUInt16 alloc v b"
| "write_item alloc (IU32 v) b = WriteUInt32 alloc v b"
| "write_item alloc (IU64 v) b = WriteUInt64 alloc v b"
| "write_item alloc (II64 v) b = WriteInt64 alloc v b"
| "write_item alloc (IBytes bs) b = bb_Write alloc bs b"

text \<open>Reading takes the kind (and for bytes the length) of the item that is expected.\<close>

fun read_item :: "item \<Rightarrow> ByteBuf \<Rightarrow> (buf_error, ByteBuf \<times> item) outcome" where
  "read_item (IInt _) b = obind (ReadInt b) (\<lambda>(b, v). Ok (b, IInt v))"
| "read_item (IU16 _) b = obind (ReadUInt16 b) (\<lambda>(b, v). Ok (b, IU16 v))"
| "read_item (IU32 _) b = obind (ReadUInt32 b) (\<lambda>(b, v). Ok (b, IU32 v))"
| "read_item (IU64 _) b = obind (ReadUInt64 b) (\<lambda>(b, v). Ok (b, IU64 v))"
| "read_item (II64 _) b = obind (ReadInt64 b) (\<lambda>(b, v). Ok (b, II64 v))"
| "read_item (IBytes bs) b = obind (ReadBytes (int (length bs)) b) (\<lambda>(b, _, v). Ok (b, IBytes v))"

fun item_bytes :: "item \<Rightarrow> byte list" where
  "item_bytes (IInt v) = Int2Bytes v"
| "item_bytes (IU16 v) = UInt16ToBytes v"
| "item_bytes (IU32 v) = UInt32ToBytes v"
| "item_bytes (IU64 v) = Uint64ToBytes v"
| "item_bytes (II64 v) = Int64ToBytes v"
| "item_bytes (IBytes bs) = bs"

fun item_ok :: "item \<Rightarrow> bool" where
  "item_ok (IInt v) \<longleftrightarrow> 0 \<le> v \<and> v < 2 ^ 32"
| "item_ok (II64 v) \<longleftrightarrow> - (2 ^ 63) \<le> v \<and> v < 2 ^ 63"
| "item_ok _ \<longleftrightarrow> True"

fun write_items :: "alloc_fn \<Rightarrow> item list \<Rightarrow> ByteBuf \<Rightarrow> (buf_error, ByteBuf) outcome" where
  "write_items alloc [] b = Ok b"
| "write_items alloc (x # xs) b = obind (write_item alloc x b) (write_items alloc xs)"

fun read_items :: "item list \<Rightarrow> ByteBuf \<Rightarrow> (buf_error, ByteBuf \<times> item list) outcome" where
  "read_items [] b = Ok (b, [])"
| "read_items (x # xs) b =
     obind (read_item x b) (\<lambda>(b, y). obind (read_items xs b) (\<lambda>(b, ys). Ok (b, y # ys)))"

lemmas item_defs = WriteInt_def WriteUInt16_def WriteUInt32_def WriteUInt64_def WriteInt64_def
  ReadInt_def ReadUInt16_def ReadUInt32_def ReadUInt64_def ReadInt64_def

lemmas conversion_lengths = Int2Bytes_def UInt16ToBytes_def UInt32ToBytes_def Uint64ToBytes_def Int64ToBytes_def

context mem_alloc
begin

lemma write_item_ok:
  "buf_inv b \<Longrightarrow> \<exists>b'. write_item alloc x b = Ok b' \<and> buf_inv b' \<and> content b' = content b @ item_bytes x"
  using write_fixed_ok Write_ok by (cases x) (simp_all add: item_defs)

lemma write_items_ok:
  "buf_inv b \<Longrightarrow> \<exists>b'. write_items alloc xs b = Ok b' \<and> buf_inv b' \<and>
     content b' = content b @ concat (map item_bytes xs)"
proof (induction xs arbitrary: b)
  case (Cons x xs)
  obtain b1 where b1: "write_item alloc x b = Ok b1" "buf_inv b1" "content b1 = content b @ item_bytes x"
    using write_item_ok [OF Cons.prems] by blast
  then show ?case using Cons.IH [OF b1(2)] by auto
qed simp

end

lemma read_item_ok:
  assumes "buf_inv b" "content b = item_bytes x @ rest" "item_ok x"
  shows "\<exists>b'. read_item x b = Ok (b', x) \<and> buf_inv b' \<and> content b' = rest"
proof (cases x)
  case (IInt v)
  have "Byte2Int (Int2Bytes v) = Some v" using IInt assms(3) by (simp add: Int2Bytes_inverse take_bit_int_eq_self)
  then show ?thesis
    using IInt read_fixed_ok [of b "Int2Bytes v" rest 4 Byte2Int v] assms by (auto simp: item_defs conversion_lengths)
next
  case (IU16 v)
  then show ?thesis
    using read_fixed_ok [OF assms(1), of "UInt16ToBytes v" rest 2 Byte2UInt16 v] assms UInt16_inverse
    by (auto simp: item_defs conversion_lengths)
next
  case (IU32 v)
  then show ?thesis
    using read_fixed_ok [OF assms(1), of "UInt32ToBytes v" rest 4 Byte2UInt32 v] assms UInt32_inverse
    by (auto simp: item_defs conversion_lengths)
next
  case (IU64 v)
  then show ?thesis
    using read_fixed_ok [OF assms(1), of "Uint64ToBytes v" rest 8 Byte2UInt64 v] assms Uint64_inverse
    by (auto simp: item_defs conversion_lengths)
next
  case (II64 v)
  have "Byte2Int64 (Int64ToBytes v) = Some v" using II64 assms(3) by (simp add: Int64ToBytes_inverse)
  then show ?thesis
    using II64 read_fixed_ok [of b "Int64ToBytes v" rest 8 Byte2Int64 v] assms by (auto simp: item_defs conversion_lengths)
next
  case (IBytes bs)
  then show ?thesis using ReadBytes_ok [OF assms(1), of bs rest "length bs"] assms by auto
qed

lemma read_items_ok:
  assumes "buf_inv b" "content b = concat (map item_bytes xs) @ rest" "list_all item_ok xs"
  shows "\<exists>b'. read_items xs b = Ok (b', xs) \<and> buf_inv b' \<and> content b' = rest"
  using assms
proof (induction xs arbitrary: b)
  case (Cons x xs)
  obtain b1 where "read_item x b = Ok (b1, x)" "buf_inv b1" "content b1 = concat (map item_bytes xs) @ rest"
    using read_item_ok [OF Cons.prems(1), of x "concat (map item_bytes xs) @ rest"] Cons.prems by auto
  then show ?case using Cons.IH [of b1] Cons.prems by auto
qed simp



text \<open>\<^verbatim>\<open>PeekByte\<close> accepts one offset too many: at the offset just after the last readable byte
  it does not report a short buffer but returns whatever byte is stored there, or panics at the end of the
  storage.\<close>

theorem PeekByte_past_end:
  assumes "buf_inv b"
  shows "PeekByte (Readable b) b
    = (if writerIndex b < int (length (bb_buf b)) then Ok (bb_buf b ! nat (writerIndex b)) else Panic)"
  using assms by (auto simp: PeekByte_def go_index_def Readable_def buf_inv_def)

theorem PeekByte_past_end_witness:
  "PeekByte 0 (WrapBytes 0 []) = Panic"
  using PeekByte_past_end [of "WrapBytes 0 []"] by (simp add: WrapBytes_def buf_inv_def Readable_def)

text \<open>Growing the buffer invalidates the write mark: when some bytes have been read and a write
  does not fit, the data reported as written after the mark is not what was written, since the bytes move
  to the front and the mark does not.\<close>

theorem mark_lost_on_growth:
  assumes "mem_alloc alloc" "buf_inv b" "0 < readerIndex b" "Writeable b < int (length p)"
    and "bb_Write alloc p (MarkWrite b) = Ok b'"
  shows "WrittenDataAfterMark b' \<noteq> Some p"
proof
  assume a: "WrittenDataAfterMark b' = Some p"
  obtain b1 where e: "Expansion alloc (int (length p)) (MarkWrite b) = Ok b1"
    "b' = b1\<lparr>bb_buf := bb_buf b', writerIndex := writerIndex b1 + int (length p)\<rparr>"
    using assms(5) by (auto simp: bb_Write_def outcome_simps Let_def split: if_splits)
  have "markedIndex b1 = writerIndex b" "writerIndex b1 = writerIndex b - readerIndex b"
    using e(1) assms(4)
    by (auto simp: Expansion_def MarkWrite_def Writeable_def Capacity_def Let_def split: option.splits)
  then have "markedIndex b' = writerIndex b" "writerIndex b' = writerIndex b - readerIndex b + int (length p)"
    using e(2) by (metis ByteBuf.select_convs(4,5) ByteBuf.surjective ByteBuf.update_convs(2,4))+
  then have "int (length p) = int (length p) - readerIndex b"
    using go_slice_length [OF a [unfolded WrittenDataAfterMark_def]] by simp
  then show False using assms(3) by simp
qed

definition demo_buf :: ByteBuf where
  "demo_buf = \<lparr>bb_capacity = 4, bb_buf = [1, 2, 3, 4], readerIndex = 2, writerIndex = 4, markedIndex = 0\<rparr>"

theorem mark_lost_on_growth_witness:
  "\<exists>b'. bb_Write (\<lambda>n. replicate n 0) [5, 6, 7] (MarkWrite demo_buf) = Ok b' \<and> WrittenDataAfterMark b' \<noteq> Some [5, 6, 7]"
proof -
  have inv: "buf_inv demo_buf" "buf_inv (MarkWrite demo_buf)" by (simp_all add: buf_inv_def demo_buf_def MarkWrite_def)
  obtain b' where b': "bb_Write (\<lambda>n. replicate n 0) [5, 6, 7] (MarkWrite demo_buf) = Ok b'"
    using fresh.Write_ok [OF inv(2)] by blast
  then show ?thesis
    using mark_lost_on_growth [OF fresh.mem_alloc_axioms inv(1) _ _ b']
    by (simp add: demo_buf_def Writeable_def Capacity_def)
qed

end
