(* ===== verification/Response_Cache.thy ===== *)
theory Response_Cache
  imports Byte_Buf
begin

text \<open>
  Cached responses (\<^verbatim>\<open>filter/cache_utils.go\<close>): a response is stored as one byte buffer with the number
  of headers, the headers as length-prefixed pairs and the body. A response is the list of header pairs that
  \<^verbatim>\<open>Header.VisitAll\<close> visits and the body; reading produces the \<^verbatim>\<open>SetBytesKV\<close> calls and the body set.
\<close>

record Response =
  rp_headers :: "(byte list \<times> byte list) list"
  rp_body :: "byte list"

definition write_block :: "alloc_fn \<Rightarrow> byte list \<Rightarrow> ByteBuf \<Rightarrow> (buf_error, ByteBuf) outcome" where
  "write_block alloc p b = obind (WriteInt alloc (int (length p)) b) (bb_Write alloc p)"

fun write_headers :: "alloc_fn \<Rightarrow> (byte list \<times> byte list) list \<Rightarrow> ByteBuf \<Rightarrow> (buf_error, ByteBuf) outcome" where
  "write_headers alloc [] b = Ok b"
| "write_headers alloc ((k, v) # hs) b =
     obind (obind (write_block alloc k b) (write_block alloc v)) (write_headers alloc hs)"

text \<open>\<^verbatim>\<open>Int2BytesTo(n, buf.RawBuf())\<close> overwrites the first four bytes of the storage.\<close>

definition patch_count :: "int \<Rightarrow> ByteBuf \<Rightarrow> (buf_error, ByteBuf) outcome" where
  "patch_count n b =
     (if 4 \<le> length (bb_buf b) then Ok (b\<lparr>bb_buf := Int2Bytes n @ drop 4 (bb_buf b)\<rparr>) else Panic)"

definition NewCachedValue :: "alloc_fn \<Rightarrow> Response \<Rightarrow> (buf_error, ByteBuf) outcome" where
  "NewCachedValue alloc resp =
     obind (WriteInt alloc 0 (NewByteBufPool alloc 128)) (\<lambda>b.
     obind (write_headers alloc (rp_headers resp) b) (\<lambda>b.
     obind (write_block alloc (rp_body resp) b) (patch_count (int (length (rp_headers resp))))))"

text \<open>Both reads ignore the error results: a short buffer reads as zero.\<close>

definition ReadInt0 :: "ByteBuf \<Rightarrow> (buf_error, ByteBuf \<times> int) outcome" where
  "ReadInt0 b = (case ReadInt b of Ok r \<Rightarrow> Ok r | Err e \<Rightarrow> Ok (b, 0) | Panic \<Rightarrow> Panic)"

definition readBytes :: "ByteBuf \<Rightarrow> (buf_error, ByteBuf \<times> byte list) outcome" where
  "readBytes b = obind (ReadInt0 b) (\<lambda>(b, n). obind (ReadBytes n b) (\<lambda>(b, _, v). Ok (b, v)))"

fun read_headers :: "nat \<Rightarrow> ByteBuf \<Rightarrow> (buf_error, ByteBuf \<times> (byte list \<times> byte list) list) outcome" where
  "read_headers 0 b = Ok (b, [])"
| "read_headers (Suc n) b =
     obind (readBytes b) (\<lambda>(b, k). obind (readBytes b) (\<lambda>(b, v).
     obind (read_headers n b) (\<lambda>(b, hs). Ok (b, (k, v) # hs))))"

definition ReadCachedValueTo :: "ByteBuf \<Rightarrow> (buf_error, ByteBuf \<times> Response) outcome" where
  "ReadCachedValueTo b =
     obind (ReadInt0 b) (\<lambda>(b, n). obind (read_headers (nat n) b) (\<lambda>(b, hs).
     obind (readBytes b) (\<lambda>(b, body). Ok (b, \<lparr>rp_headers = hs, rp_body = body\<rparr>))))"

subsection \<open>The format\<close>

definition block :: "byte list \<Rightarrow> byte list" where
  "block p = Int2Bytes (int (length p)) @ p"

definition header_bytes :: "(byte list \<times> byte list) list \<Rightarrow> byte list" where
  "header_bytes hs = concat (map (\<lambda>(k, v). block k @ block v) hs)"

context mem_alloc
begin

lemma write_block_ok:
  "buf_inv b \<Longrightarrow> \<exists>b'. write_block alloc p b = Ok b' \<and> buf_inv b' \<and> content b' = content b @ block p"
proof -
  assume b: "buf_inv b"
  obtain b1 where b1: "WriteInt alloc (int (length p)) b = Ok b1" "buf_inv b1"
    "content b1 = content b @ Int2Bytes (int (length p))"
    using write_fixed_ok [OF b] by (auto simp: WriteInt_def)
  then show ?thesis using Write_ok [OF b1(2), of p] by (auto simp: write_block_def block_def)
qed

lemma write_headers_ok:
  "buf_inv b \<Longrightarrow> \<exists>b'. write_headers alloc hs b = Ok b' \<and> buf_inv b' \<and> content b' = content b @ header_bytes hs"
proof (induction hs arbitrary: b)
  case (Cons h hs)
  obtain k v where h: "h = (k, v)" by (cases h)
  obtain b1 where b1: "write_block alloc k b = Ok b1" "buf_inv b1" "content b1 = content b @ block k"
    using write_block_ok [OF Cons.prems] by blast
  obtain b2 where b2: "write_block alloc v b1 = Ok b2" "buf_inv b2" "content b2 = content b1 @ block v"
    using write_block_ok [OF b1(2)] by blast
  show ?case using Cons.IH [OF b2(2)] b1 b2 h by (auto simp: header_bytes_def)
qed (simp add: header_bytes_def)

text \<open>No operation of the writer moves the read position away from zero.\<close>

lemma Expansion_reader: "Expansion alloc n b = Ok b' \<Longrightarrow> readerIndex b = 0 \<Longrightarrow> readerIndex b' = 0"
  by (auto simp: Expansion_def Let_def split: if_splits option.splits)

lemma write_reader:
  "write_fixed alloc bs b = Ok b' \<Longrightarrow> readerIndex b = 0 \<Longrightarrow> readerIndex b' = 0"
  "bb_Write alloc bs b = Ok b' \<Longrightarrow> readerIndex b = 0 \<Longrightarrow> readerIndex b' = 0"
  by (auto simp: write_fixed_def bb_Write_def outcome_simps Let_def dest!: Expansion_reader split: if_splits)

lemma write_block_reader: "write_block alloc p b = Ok b' \<Longrightarrow> readerIndex b = 0 \<Longrightarrow> readerIndex b' = 0"
  by (auto simp: write_block_def WriteInt_def outcome_simps dest!: write_reader)

lemma write_headers_reader: "write_headers alloc hs b = Ok b' \<Longrightarrow> readerIndex b = 0 \<Longrightarrow> readerIndex b' = 0"
proof (induction hs arbitrary: b)
  case (Cons h hs)
  then show ?case
    using write_block_reader by (cases h) (auto simp: outcome_simps)
qed simp

lemma NewCachedValue_ok:
  "\<exists>b. NewCachedValue alloc resp = Ok b \<and> buf_inv b \<and>
     content b = Int2Bytes (int (length (rp_headers resp))) @ header_bytes (rp_headers resp) @ block (rp_body resp)"
proof -
  note new = New_ok [of 128]
  obtain b0 where b0: "WriteInt alloc 0 (NewByteBufPool alloc 128) = Ok b0" "buf_inv b0" "content b0 = Int2Bytes 0"
    using write_fixed_ok [of "NewByteBufPool alloc 128" "Int2Bytes 0"] new by (auto simp: WriteInt_def)
  obtain b1 where b1: "write_headers alloc (rp_headers resp) b0 = Ok b1" "buf_inv b1"
    "content b1 = content b0 @ header_bytes (rp_headers resp)" using write_headers_ok [OF b0(2)] by blast
  obtain b2 where b2: "write_block alloc (rp_body resp) b1 = Ok b2" "buf_inv b2"
    "content b2 = content b1 @ block (rp_body resp)" using write_block_ok [OF b1(2)] by blast
  have r: "readerIndex b2 = 0"
    using b0(1) b1(1) b2(1) write_block_reader write_headers_reader write_reader(1)
    by (metis ByteBuf.select_convs(3) NewByteBufPool_def WriteInt_def)
  let ?n = "int (length (rp_headers resp))" and ?rest = "header_bytes (rp_headers resp) @ block (rp_body resp)"
  have c2: "take (nat (writerIndex b2)) (bb_buf b2) = Int2Bytes 0 @ ?rest"
    using b0(3) b1(3) b2(3) r by (simp add: content_def)
  have w: "0 \<le> writerIndex b2" "nat (writerIndex b2) \<le> length (bb_buf b2)" using b2(2) by (auto simp: buf_inv_def)
  have "length (take (nat (writerIndex b2)) (bb_buf b2)) = 4 + length ?rest" unfolding c2 by (simp add: Int2Bytes_def)
  then have l: "nat (writerIndex b2) = 4 + length ?rest" using w by simp
  let ?b = "b2\<lparr>bb_buf := Int2Bytes ?n @ drop 4 (bb_buf b2)\<rparr>"
  have "take (length ?rest) (drop 4 (bb_buf b2)) = drop 4 (take (nat (writerIndex b2)) (bb_buf b2))"
    using l by (simp add: drop_take)
  also have "\<dots> = ?rest" unfolding c2 by (simp add: Int2Bytes_def)
  finally have "take (length ?rest) (drop 4 (bb_buf b2)) = ?rest" .
  moreover have "length (Int2Bytes ?n) = 4" by (simp add: Int2Bytes_def)
  ultimately have "content ?b = Int2Bytes ?n @ ?rest" using r l by (simp add: content_def)
  moreover have "buf_inv ?b" using b2(2) l w r by (simp add: buf_inv_def Int2Bytes_def) 
  moreover have "NewCachedValue alloc resp = Ok ?b"
    using b0 b1 b2 l w by (simp add: NewCachedValue_def patch_count_def)
  ultimately show ?thesis by blast
qed

end

lemma ReadInt0_ok:
  assumes "buf_inv b" "content b = Int2Bytes v @ rest" "0 \<le> v" "v < 2 ^ 32"
  shows "\<exists>b'. ReadInt0 b = Ok (b', v) \<and> buf_inv b' \<and> content b' = rest"
  using read_item_ok [OF assms(1), of "IInt v" rest] assms by (auto simp: ReadInt0_def outcome_simps)

lemma readBytes_ok:
  assumes "buf_inv b" "content b = block p @ rest" "length p < 2 ^ 32"
  shows "\<exists>b'. readBytes b = Ok (b', p) \<and> buf_inv b' \<and> content b' = rest"
proof -
  obtain b1 where b1: "ReadInt0 b = Ok (b1, int (length p))" "buf_inv b1" "content b1 = p @ rest"
    using ReadInt0_ok [OF assms(1), of "int (length p)" "p @ rest"] assms by (auto simp: block_def)
  then show ?thesis using ReadBytes_ok [OF b1(2,3) refl] by (auto simp: readBytes_def)
qed

lemma read_headers_ok:
  assumes "buf_inv b" "content b = header_bytes hs @ rest" "\<forall>(k, v)\<in>set hs. length k < 2 ^ 32 \<and> length v < 2 ^ 32"
  shows "\<exists>b'. read_headers (length hs) b = Ok (b', hs) \<and> buf_inv b' \<and> content b' = rest"
  using assms
proof (induction hs arbitrary: b)
  case (Cons h hs)
  obtain k v where h: "h = (k, v)" by (cases h)
  obtain b1 where b1: "readBytes b = Ok (b1, k)" "buf_inv b1" "content b1 = block v @ header_bytes hs @ rest"
    using readBytes_ok [OF Cons.prems(1), of k "block v @ header_bytes hs @ rest"] Cons.prems h
    by (auto simp: header_bytes_def)
  obtain b2 where b2: "readBytes b1 = Ok (b2, v)" "buf_inv b2" "content b2 = header_bytes hs @ rest"
    using readBytes_ok [OF b1(2,3)] Cons.prems h by auto
  show ?case using Cons.IH [OF b2(2,3)] Cons.prems b1 b2 h by auto
qed (simp add: header_bytes_def)

definition resp_ok :: "Response \<Rightarrow> bool" where
  "resp_ok r \<longleftrightarrow> length (rp_headers r) < 2 ^ 32 \<and> length (rp_body r) < 2 ^ 32 \<and>
     list_all (\<lambda>(k, v). length k < 2 ^ 32 \<and> length v < 2 ^ 32) (rp_headers r)"

lemma cached_value_run:
  assumes "mem_alloc alloc" "resp_ok r"
  shows "\<exists>b b'. NewCachedValue alloc r = Ok b \<and> ReadCachedValueTo b = Ok (b', r) \<and> buf_inv b' \<and> content b' = []"
proof -
  let ?n = "int (length (rp_headers r))"
  obtain b where b: "NewCachedValue alloc r = Ok b" "buf_inv b"
    "content b = Int2Bytes ?n @ header_bytes (rp_headers r) @ block (rp_body r)"
    using mem_alloc.NewCachedValue_ok [OF assms(1)] by blast
  have lens: "\<forall>(k, v)\<in>set (rp_headers r). length k < 2 ^ 32 \<and> length v < 2 ^ 32" "?n < 2 ^ 32" "length (rp_body r) < 2 ^ 32"
    using assms(2) by (auto simp: resp_ok_def list_all_iff)
  obtain b1 where b1: "ReadInt0 b = Ok (b1, ?n)" "buf_inv b1"
    "content b1 = header_bytes (rp_headers r) @ block (rp_body r)"
    using ReadInt0_ok [OF b(2,3)] lens by auto
  obtain b2 where b2: "read_headers (length (rp_headers r)) b1 = Ok (b2, rp_headers r)" "buf_inv b2"
    "content b2 = block (rp_body r) @ []" using read_headers_ok [OF b1(2,3) lens(1)] by auto
  obtain b3 where b3: "readBytes b2 = Ok (b3, rp_body r)" "buf_inv b3" "content b3 = []"
    using readBytes_ok [OF b2(2,3) lens(3)] by auto
  have "ReadCachedValueTo b = Ok (b3, r)" using b1 b2 b3 by (simp add: ReadCachedValueTo_def)
  then show ?thesis using b b3 by blast
qed


definition demo_resp :: Response where
  "demo_resp = \<lparr>rp_headers = [([65], [66, 67])], rp_body = [1, 2]\<rparr>"


lemma read_empty:
  assumes "buf_inv b" "content b = []"
  shows "ReadCachedValueTo b = Ok (b, \<lparr>rp_headers = [], rp_body = []\<rparr>)"
proof -
  have "ReadInt b = Err ErrShortBuffer" using read_fixed_short [OF assms(1), of 4] assms(2) by (simp add: ReadInt_def)
  then have z: "ReadInt0 b = Ok (b, 0)" by (simp add: ReadInt0_def)
  have "ReadBytes 0 b = Ok (b, 0, [])" by (simp add: ReadBytes_def bb_Read_def)
  then have "readBytes b = Ok (b, [])" using z by (simp add: readBytes_def)
  then show ?thesis using z by (simp add: ReadCachedValueTo_def)
qed

text \<open>A cached buffer can be read once: the read moves the position of the buffer that stays
  in the cache, and reading an emptied buffer again, as a second request that has found the same buffer does, yields
  no header and an empty body, without any error.\<close>

theorem cached_value_second_read:
  assumes "buf_inv b" "content b = []"
  shows "ReadCachedValueTo b = Ok (b, \<lparr>rp_headers = [], rp_body = []\<rparr>)"
  using assms by (rule read_empty)

theorem cached_value_second_read_witness:
  "\<exists>b b'. NewCachedValue (\<lambda>n. replicate n 0) demo_resp = Ok b \<and> ReadCachedValueTo b = Ok (b', demo_resp) \<and>
     ReadCachedValueTo b' = Ok (b', \<lparr>rp_headers = [], rp_body = []\<rparr>)"
proof -
  have "resp_ok demo_resp" by (simp add: resp_ok_def demo_resp_def)
  obtain b b' where "NewCachedValue (\<lambda>n. replicate n 0) demo_resp = Ok b" "ReadCachedValueTo b = Ok (b', demo_resp)"
    "buf_inv b'" "content b' = []"
    using cached_value_run [OF fresh.mem_alloc_axioms] \<open>resp_ok demo_resp\<close> by blast
  then show ?thesis using cached_value_second_read by blast
qed

end
