(* ===== verification/Lru_Cache.thy ===== *)
theory Lru_Cache
  imports Vx_Prelude
begin

text \<open>
  The LRU cache of responses (\<^verbatim>\<open>utils/lru.go\<close>): a doubly linked list of entries, most recent first, and a map
  from keys to list elements. An element is its identity and its entry; \<^verbatim>\<open>container/list\<close> is a list of elements
  with distinct identities. A value is a reference to a byte buffer; \<open>rd v\<close> is what
  \<^verbatim>\<open>uint64(value.Readable())\<close> returns at the time of the call, so a buffer that changes while it is cached is
  a different \<open>rd\<close>. \<open>fresh_el\<close> is the allocator of the elements. Operations return the calls of
  \<^verbatim>\<open>OnEvicted\<close> next to the new state; the lock makes each of them one step.
\<close>

type_synonym ('k, 'v) element = "nat \<times> 'k \<times> 'v"

record ('k, 'v) LRUCache =
  MaxBytes :: uint64
  current :: uint64
  OnEvicted :: bool
  ll :: "('k, 'v) element list"
  cache_map :: "('k \<rightharpoonup> nat) option"
  fresh_el :: nat

definition NewLRUCache :: "uint64 \<Rightarrow> bool \<Rightarrow> ('k, 'v) LRUCache" where
  "NewLRUCache maxBytes evictedFunc =
     \<lparr>MaxBytes = maxBytes, current = 0, OnEvicted = evictedFunc, ll = [], cache_map = Some Map.empty, fresh_el = 0\<rparr>"

text \<open>\<^verbatim>\<open>list.MoveToFront\<close>, and the entry an element pointer refers to.\<close>

definition MoveToFront :: "nat \<Rightarrow> ('k, 'v) element list \<Rightarrow> ('k, 'v) element list" where
  "MoveToFront e xs = filter (\<lambda>x. fst x = e) xs @ filter (\<lambda>x. fst x \<noteq> e) xs"

definition entry_of :: "nat \<Rightarrow> ('k, 'v) element list \<Rightarrow> ('k \<times> 'v) option" where
  "entry_of e xs = map_of xs e"

definition removeElement :: "('v \<Rightarrow> uint64) \<Rightarrow> ('k, 'v) element \<Rightarrow> ('k, 'v) LRUCache
    \<Rightarrow> ('k, 'v) LRUCache \<times> ('k \<times> 'v) list" where
  "removeElement rd el c =
     (case el of (e, k, v) \<Rightarrow>
        (c\<lparr>ll := filter (\<lambda>x. fst x \<noteq> e) (ll c), cache_map := map_option (\<lambda>m. m(k := None)) (cache_map c),
           current := current c - rd v\<rparr>,
         if OnEvicted c then [(k, v)] else []))"

definition removeOldest :: "('v \<Rightarrow> uint64) \<Rightarrow> ('k, 'v) LRUCache \<Rightarrow> ('k, 'v) LRUCache \<times> ('k \<times> 'v) list" where
  "removeOldest rd c =
     (if cache_map c = None \<or> ll c = [] then (c, []) else removeElement rd (last (ll c)) c)"

definition lru_Add :: "('v \<Rightarrow> uint64) \<Rightarrow> 'k \<Rightarrow> 'v \<Rightarrow> ('k, 'v) LRUCache \<Rightarrow> ('k, 'v) LRUCache \<times> ('k \<times> 'v) list" where
  "lru_Add rd k v c0 =
     (let c = (case cache_map c0 of None \<Rightarrow> c0\<lparr>cache_map := Some Map.empty, ll := []\<rparr> | Some _ \<Rightarrow> c0);
          m = (case cache_map c of None \<Rightarrow> Map.empty | Some m \<Rightarrow> m)
      in case m k of
           Some e \<Rightarrow>
             (c\<lparr>ll := map (\<lambda>x. if fst x = e then (e, fst (snd x), v) else x) (MoveToFront e (ll c)),
                current := current c - rd v + rd v\<rparr>, [])
         | None \<Rightarrow>
             let c1 = c\<lparr>current := current c + rd v, ll := (fresh_el c, k, v) # ll c,
                        cache_map := Some (m(k \<mapsto> fresh_el c)), fresh_el := Suc (fresh_el c)\<rparr>
             in if MaxBytes c1 \<noteq> 0 \<and> MaxBytes c1 < current c1 then removeOldest rd c1 else (c1, []))"

definition lru_Get :: "'k \<Rightarrow> ('k, 'v) LRUCache \<Rightarrow> ('k, 'v) LRUCache \<times> 'v option" where
  "lru_Get k c =
     (case cache_map c of
        None \<Rightarrow> (c, None)
      | Some m \<Rightarrow>
          (case m k of
             None \<Rightarrow> (c, None)
           | Some e \<Rightarrow> (c\<lparr>ll := MoveToFront e (ll c)\<rparr>, map_option snd (entry_of e (ll c)))))"

definition lru_Remove :: "('v \<Rightarrow> uint64) \<Rightarrow> 'k \<Rightarrow> ('k, 'v) LRUCache \<Rightarrow> ('k, 'v) LRUCache \<times> ('k \<times> 'v) list" where
  "lru_Remove rd k c =
     (case cache_map c of
        None \<Rightarrow> (c, [])
      | Some m \<Rightarrow>
          (case m k of
             None \<Rightarrow> (c, [])
           | Some e \<Rightarrow>
               (case entry_of e (ll c) of None \<Rightarrow> (c, []) | Some (k', v) \<Rightarrow> removeElement rd (e, k', v) c)))"

definition lru_Len :: "('k, 'v) LRUCache \<Rightarrow> nat" where
  "lru_Len c = (if cache_map c = None then 0 else length (ll c))"

text \<open>\<^verbatim>\<open>Clear\<close> ranges over the map in some order \<open>ks\<close> of its keys.\<close>

definition lru_Clear :: "'k list \<Rightarrow> ('k, 'v) LRUCache \<Rightarrow> ('k, 'v) LRUCache \<times> ('k \<times> 'v) list" where
  "lru_Clear ks c =
     (c\<lparr>ll := [], cache_map := None, current := 0\<rparr>,
      if OnEvicted c
      then List.map_filter (\<lambda>k. Option.bind (Option.bind (cache_map c) (\<lambda>m. m k)) (\<lambda>e. entry_of e (ll c))) ks
      else [])"

subsection \<open>List and map agree\<close>

definition key_index :: "('k, 'v) element list \<Rightarrow> 'k \<rightharpoonup> nat" where
  "key_index xs = map_of (map (\<lambda>(e, k, v). (k, e)) xs)"

definition lru_inv :: "('k, 'v) LRUCache \<Rightarrow> bool" where
  "lru_inv c \<longleftrightarrow>
     (case cache_map c of
        None \<Rightarrow> ll c = []
      | Some m \<Rightarrow> distinct (map fst (ll c)) \<and> distinct (map (fst \<circ> snd) (ll c)) \<and>
          (\<forall>x\<in>set (ll c). fst x < fresh_el c) \<and> m = key_index (ll c))"

text \<open>What a client sees: the entries, most recent first.\<close>

definition entries :: "('k, 'v) LRUCache \<Rightarrow> ('k \<times> 'v) list" where
  "entries c = map snd (ll c)"

text \<open>The reference cache is a list of entries with a byte counter.\<close>

definition spec_Add :: "('v \<Rightarrow> uint64) \<Rightarrow> uint64 \<Rightarrow> 'k \<Rightarrow> 'v \<Rightarrow> uint64 \<times> ('k \<times> 'v) list \<Rightarrow> uint64 \<times> ('k \<times> 'v) list" where
  "spec_Add rd mx k v s =
     (case s of (cur, es) \<Rightarrow>
        if k \<in> fst ` set es then (cur, (k, v) # filter (\<lambda>x. fst x \<noteq> k) es)
        else if mx \<noteq> 0 \<and> mx < cur + rd v
        then (cur + rd v - rd (snd (last ((k, v) # es))), butlast ((k, v) # es))
        else (cur + rd v, (k, v) # es))"

definition spec_Get :: "'k \<Rightarrow> ('k \<times> 'v) list \<Rightarrow> ('k \<times> 'v) list" where
  "spec_Get k es = filter (\<lambda>x. fst x = k) es @ filter (\<lambda>x. fst x \<noteq> k) es"

definition spec_Remove :: "('v \<Rightarrow> uint64) \<Rightarrow> 'k \<Rightarrow> uint64 \<times> ('k \<times> 'v) list \<Rightarrow> uint64 \<times> ('k \<times> 'v) list" where
  "spec_Remove rd k s =
     (case s of (cur, es) \<Rightarrow>
        (case map_of es k of None \<Rightarrow> cur | Some v \<Rightarrow> cur - rd v, filter (\<lambda>x. fst x \<noteq> k) es))"

lemma map_eq_by_Some: "(\<And>k e. m k = Some e \<longleftrightarrow> m' k = Some e) \<Longrightarrow> m = m'"
  by (rule ext) (metis not_Some_eq)

lemma key_index_pair:
  assumes "distinct (map (fst \<circ> snd) xs)"
  shows "key_index xs k = Some e \<longleftrightarrow> (k, e) \<in> (\<lambda>x. (fst (snd x), fst x)) ` set xs"
proof -
  have "distinct (map fst (map (\<lambda>(e, k, v). (k, e)) xs))" using assms by (simp add: comp_def case_prod_unfold)
  then have "key_index xs k = Some e \<longleftrightarrow> (k, e) \<in> set (map (\<lambda>(e, k, v). (k, e)) xs)"
    unfolding key_index_def by (rule map_of_eq_Some_iff)
  then show ?thesis by (simp add: case_prod_unfold)
qed

lemma key_index_Some:
  "distinct (map (fst \<circ> snd) xs) \<Longrightarrow> key_index xs k = Some e \<longleftrightarrow> (\<exists>v. (e, k, v) \<in> set xs)"
  unfolding key_index_pair by force

lemma same_element:
  "distinct (map fst xs) \<Longrightarrow> distinct (map (fst \<circ> snd) xs) \<Longrightarrow> (e, k, v) \<in> set xs \<Longrightarrow> x \<in> set xs \<Longrightarrow>
     fst x = e \<longleftrightarrow> fst (snd x) = k"
  by (metis comp_apply distinct_map fst_conv inj_onD snd_conv)

lemma key_index_None: "key_index xs k = None \<longleftrightarrow> k \<notin> (fst \<circ> snd) ` set xs"
  by (force simp: key_index_def map_of_eq_None_iff image_iff)

lemma entry_of_in: "distinct (map fst xs) \<Longrightarrow> (e, k, v) \<in> set xs \<Longrightarrow> entry_of e xs = Some (k, v)"
  by (simp add: entry_of_def)

lemma key_index_remove:
  assumes d: "distinct (map fst xs)" "distinct (map (fst \<circ> snd) xs)" and x: "(e, k, v) \<in> set xs"
  shows "(key_index xs)(k := None) = key_index (filter (\<lambda>x. fst x \<noteq> e) xs)"
proof (rule map_eq_by_Some)
  fix k' e'
  let ?f = "filter (\<lambda>x. fst x \<noteq> e) xs"
  have df: "distinct (map fst ?f)" "distinct (map (fst \<circ> snd) ?f)" using d by (auto simp: distinct_map_filter)
  have "(e', k', v') \<in> set xs \<Longrightarrow> e' = e \<longleftrightarrow> k' = k" for v' using same_element [OF d x] by fastforce
  then show "((key_index xs)(k := None)) k' = Some e' \<longleftrightarrow> key_index ?f k' = Some e'"
    using key_index_Some [OF d(2)] key_index_Some [OF df(2)] by auto
qed

lemma removeElement_inv:
  assumes "lru_inv c" "(e, k, v) \<in> set (ll c)" "removeElement rd (e, k, v) c = (c', ev)"
  shows "lru_inv c' \<and> entries c' = filter (\<lambda>x. fst x \<noteq> k) (entries c) \<and> current c' = current c - rd v \<and>
    MaxBytes c' = MaxBytes c \<and> OnEvicted c' = OnEvicted c \<and> ev = (if OnEvicted c then [(k, v)] else [])"
proof -
  obtain m where m: "cache_map c = Some m" using assms(1,2) by (cases "cache_map c") (auto simp: lru_inv_def)
  have d: "distinct (map fst (ll c))" "distinct (map (fst \<circ> snd) (ll c))" using assms(1) m by (auto simp: lru_inv_def)
  have "map snd (filter (\<lambda>x. fst x \<noteq> e) (ll c)) = filter (\<lambda>x. fst x \<noteq> k) (map snd (ll c))"
    unfolding filter_map comp_def using same_element [OF d assms(2)] by (auto intro!: arg_cong [where f = "map snd"] filter_cong)
  moreover have "lru_inv c'"
    using assms m key_index_remove [OF d assms(2)]
    by (auto simp: lru_inv_def removeElement_def distinct_map_filter)
  ultimately show ?thesis using assms(3) by (auto simp: removeElement_def entries_def)
qed

lemma only_element:
  assumes "distinct (map fst xs)" "(e, y) \<in> set xs"
  shows "filter (\<lambda>x. fst x = e) xs = [(e, y)]"
  using assms
proof (induction xs)
  case (Cons x xs)
  show ?case
  proof (cases "fst x = e")
    case True
    then have "filter (\<lambda>x. fst x = e) xs = []" using Cons.prems by (auto simp: filter_empty_conv) (metis fst_conv image_eqI)+
    moreover have "x = (e, y)" using Cons.prems True by (cases x) force
    ultimately show ?thesis using True by simp
  qed (use Cons in auto)
qed simp

lemma filter_not_last:
  assumes "distinct (map f xs)" "xs \<noteq> []"
  shows "filter (\<lambda>x. f x \<noteq> f (last xs)) xs = butlast xs"
  using assms by (cases xs rule: rev_cases) (simp_all add: filter_id_conv image_iff, metis)

lemma MoveToFront_mset: "mset (MoveToFront e xs) = mset xs"
  by (simp add: MoveToFront_def)

lemma MoveToFront_distinct: "distinct (map f (MoveToFront e xs)) = distinct (map f xs)"
proof -
  have "mset (map f (MoveToFront e xs)) = mset (map f xs)" by (simp add: MoveToFront_mset)
  then show ?thesis by (rule mset_eq_imp_distinct_iff)
qed

lemma MoveToFront_set [simp]: "set (MoveToFront e xs) = set xs"
  by (auto simp: MoveToFront_def)

lemma key_index_cong:
  assumes "distinct (map (fst \<circ> snd) xs)" "distinct (map (fst \<circ> snd) ys)"
    and "(\<lambda>x. (fst (snd x), fst x)) ` set xs = (\<lambda>x. (fst (snd x), fst x)) ` set ys"
  shows "key_index xs = key_index ys"
  by (rule map_eq_by_Some) (simp add: key_index_pair assms)

text \<open>Facts of a sound cache at a key.\<close>

lemma lru_hit:
  assumes "lru_inv c" "cache_map c = Some m" "m k = Some e"
  obtains v where "(e, k, v) \<in> set (ll c)" "entry_of e (ll c) = Some (k, v)" "map_of (entries c) k = Some v"
    "filter (\<lambda>x. fst x = e) (ll c) = [(e, k, v)]"
    "map snd (filter (\<lambda>x. fst x \<noteq> e) (ll c)) = filter (\<lambda>x. fst x \<noteq> k) (entries c)"
proof -
  have d: "distinct (map fst (ll c))" "distinct (map (fst \<circ> snd) (ll c))" "m = key_index (ll c)"
    using assms by (auto simp: lru_inv_def)
  obtain v where v: "(e, k, v) \<in> set (ll c)" using assms(3) key_index_Some [OF d(2)] d(3) by auto
  have "distinct (map fst (entries c))" using d(2) by (simp add: entries_def comp_def)
  then have "map_of (entries c) k = Some v" using v by (force simp: entries_def)
  moreover have "map snd (filter (\<lambda>x. fst x \<noteq> e) (ll c)) = filter (\<lambda>x. fst x \<noteq> k) (entries c)"
    unfolding entries_def filter_map comp_def using same_element [OF d(1,2) v]
    by (auto intro!: arg_cong [where f = "map snd"] filter_cong)
  ultimately show thesis using that v entry_of_in [OF d(1) v] only_element [OF d(1) v] by blast
qed

lemma lru_miss: "lru_inv c \<Longrightarrow> cache_map c = Some m \<Longrightarrow> m k = None \<longleftrightarrow> k \<notin> fst ` set (entries c)"
  by (auto simp: lru_inv_def key_index_None entries_def image_image comp_def)

lemma lru_absent:
  assumes "lru_inv c" "Option.bind (cache_map c) (\<lambda>m. m k) = None"
  shows "k \<notin> fst ` set (entries c)"
  using assms lru_miss [OF assms(1), of _ k] by (cases "cache_map c") (auto simp: lru_inv_def entries_def)

definition lru_state :: "('k, 'v) LRUCache \<Rightarrow> uint64 \<times> ('k \<times> 'v) list" where
  "lru_state c = (current c, entries c)"

lemma lru_Add_fresh:
  assumes "lru_inv c" "cache_map c = Some m" "m k = None"
  shows "lru_inv (c\<lparr>current := u, ll := (fresh_el c, k, v) # ll c, cache_map := Some (m(k \<mapsto> fresh_el c)),
    fresh_el := Suc (fresh_el c)\<rparr>)"
proof -
  have inv: "distinct (map fst (ll c))" "distinct (map (fst \<circ> snd) (ll c))" "\<forall>x\<in>set (ll c). fst x < fresh_el c"
    "m = key_index (ll c)" using assms by (simp_all add: lru_inv_def)
  have "fresh_el c \<notin> fst ` set (ll c)" using inv(3) by fastforce
  moreover have "k \<notin> (fst \<circ> snd) ` set (ll c)" using assms(3) inv(4) by (simp add: key_index_None)
  moreover have "key_index ((fresh_el c, k, v) # ll c) = m(k \<mapsto> fresh_el c)" using inv(4) by (simp add: key_index_def)
  ultimately show ?thesis using inv by (simp add: lru_inv_def less_Suc_eq)
qed

lemma lru_Add_replace:
  fixes v :: 'v and u :: uint64 and c :: "('k, 'v) LRUCache"
  assumes inv: "lru_inv c" "cache_map c = Some m" "m k = Some e"
  defines "c' \<equiv> c\<lparr>ll := map (\<lambda>x. if fst x = e then (e, fst (snd x), v) else x) (MoveToFront e (ll c)), current := u\<rparr>"
  shows "lru_inv c' \<and> entries c' = (k, v) # filter (\<lambda>x. fst x \<noteq> k) (entries c)"
proof -
  let ?g = "\<lambda>x. if fst x = e then (e, fst (snd x), v) else x"
  obtain v0 where v0: "filter (\<lambda>x. fst x = e) (ll c) = [(e, k, v0)]"
    "map snd (filter (\<lambda>x. fst x \<noteq> e) (ll c)) = filter (\<lambda>x. fst x \<noteq> k) (entries c)" using lru_hit [OF inv] by metis
  have "map ?g (filter (\<lambda>x. fst x \<noteq> e) (ll c)) = filter (\<lambda>x. fst x \<noteq> e) (ll c)" by (intro map_idI) auto
  then have ll: "ll c' = (e, k, v) # filter (\<lambda>x. fst x \<noteq> e) (ll c)" by (simp add: c'_def MoveToFront_def v0(1))
  have d: "distinct (map fst (ll c))" "distinct (map (fst \<circ> snd) (ll c))" "m = key_index (ll c)"
    "\<forall>x\<in>set (ll c). fst x < fresh_el c" using inv by (auto simp: lru_inv_def)
  have d': "distinct (map fst (ll c'))" "distinct (map (fst \<circ> snd) (ll c'))"
    using d MoveToFront_distinct [of fst e "ll c"] MoveToFront_distinct [of "fst \<circ> snd" e "ll c"]
    by (simp_all add: c'_def comp_def if_distrib cong: if_cong)
  have gs: "set (ll c') = ?g ` set (ll c)" by (simp add: c'_def)
  have "(\<lambda>x. (fst (snd x), fst x)) ` set (ll c') = (\<lambda>x. (fst (snd x), fst x)) ` set (ll c)"
    unfolding gs image_image by (rule image_cong) simp_all
  then have "key_index (ll c') = key_index (ll c)" by (rule key_index_cong [OF d'(2) d(2)])
  then have "lru_inv c'" using d d' inv(2) by (auto simp: lru_inv_def c'_def)
  then show ?thesis using ll v0(2) by (simp add: entries_def)
qed

lemma lru_Add_inv:
  assumes inv: "lru_inv c" and add: "lru_Add rd k v c = (c', ev)"
  shows "lru_inv c' \<and> MaxBytes c' = MaxBytes c \<and> lru_state c' = spec_Add rd (MaxBytes c) k v (lru_state c)"
proof -
  define d where "d = (case cache_map c of None \<Rightarrow> c\<lparr>cache_map := Some Map.empty, ll := []\<rparr> | Some _ \<Rightarrow> c)"
  have d: "lru_inv d" "lru_state d = lru_state c" "MaxBytes d = MaxBytes c" and "cache_map d \<noteq> None"
    using inv by (auto simp: d_def lru_inv_def lru_state_def entries_def key_index_def split: option.splits)
  then obtain m where m: "cache_map d = Some m" by blast
  show ?thesis
  proof (cases "m k")
    case (Some e)
    have "k \<in> fst ` set (entries d)" using lru_miss [OF d(1) m, of k] Some by simp
    then show ?thesis using lru_Add_replace [OF d(1) m Some, of "current d" v] add d Some m
      unfolding lru_Add_def d_def [symmetric] by (auto simp: lru_state_def spec_Add_def)
  next
    case None
    let ?c1 = "d\<lparr>current := current d + rd v, ll := (fresh_el d, k, v) # ll d,
      cache_map := Some (m(k \<mapsto> fresh_el d)), fresh_el := Suc (fresh_el d)\<rparr>"
    have i1: "lru_inv ?c1" by (rule lru_Add_fresh [OF d(1) m None])
    have k: "k \<notin> fst ` set (entries d)" using lru_miss [OF d(1) m, of k] None by simp
    show ?thesis
    proof (cases "MaxBytes d \<noteq> 0 \<and> MaxBytes d < current d + rd v")
      case True
      obtain e kl vl where l: "last (ll ?c1) = (e, kl, vl)" by (cases "last (ll ?c1)")
      have "ll ?c1 \<noteq> []" by simp
      then have in1: "(e, kl, vl) \<in> set (ll ?c1)" unfolding l [symmetric] by (rule last_in_set)
      have rm: "removeElement rd (e, kl, vl) ?c1 = (c', ev)"
        using add True m None l unfolding lru_Add_def d_def [symmetric] by (simp add: Let_def removeOldest_def)
      have es: "entries ?c1 = (k, v) # entries d" by (simp add: entries_def)
      have dist: "distinct (map fst (entries ?c1))" using i1 by (auto simp: lru_inv_def entries_def comp_def)
      have "last (entries ?c1) = (kl, vl)" using l by (simp add: entries_def last_map split: if_splits)
      then show ?thesis
        using removeElement_inv [OF i1 in1 rm] filter_not_last [OF dist] es d k True
        by (auto simp: lru_state_def spec_Add_def split: if_splits)
    next
      case False
      then show ?thesis using i1 add d k m None unfolding lru_Add_def d_def [symmetric]
        by (auto simp: Let_def lru_state_def spec_Add_def entries_def)
    qed
  qed
qed

lemma lru_Get_inv:
  assumes inv: "lru_inv c" and get: "lru_Get k c = (c', r)"
  shows "lru_inv c' \<and> MaxBytes c' = MaxBytes c \<and> r = map_of (entries c) k \<and>
    lru_state c' = (current c, spec_Get k (entries c))"
proof (cases "Option.bind (cache_map c) (\<lambda>m. m k)")
  case None
  have k: "k \<notin> fst ` set (entries c)" by (rule lru_absent [OF inv None])
  moreover have "c' = c" "r = None" using get None by (auto simp: lru_Get_def split: option.splits)
  moreover have "map_of (entries c) k = None" using k by (simp add: map_of_eq_None_iff)
  moreover have "filter (\<lambda>x. fst x = k) (entries c) = []" "filter (\<lambda>x. fst x \<noteq> k) (entries c) = entries c"
    using k by (auto simp: filter_empty_conv filter_id_conv)
  ultimately show ?thesis using inv by (simp add: lru_state_def spec_Get_def)
next
  case (Some e)
  then obtain m where m: "cache_map c = Some m" "m k = Some e" by (auto simp: bind_eq_Some_conv)
  obtain v where v: "(e, k, v) \<in> set (ll c)" "entry_of e (ll c) = Some (k, v)" "map_of (entries c) k = Some v"
    "filter (\<lambda>x. fst x = e) (ll c) = [(e, k, v)]"
    "map snd (filter (\<lambda>x. fst x \<noteq> e) (ll c)) = filter (\<lambda>x. fst x \<noteq> k) (entries c)" using lru_hit [OF inv m] by metis
  have d: "distinct (map fst (ll c))" "distinct (map (fst \<circ> snd) (ll c))" using inv m by (auto simp: lru_inv_def)
  have "key_index (MoveToFront e (ll c)) = key_index (ll c)" by (rule key_index_cong) (use d in \<open>simp_all add: MoveToFront_distinct\<close>)
  then have "lru_inv c'" using inv get m d by (auto simp: lru_Get_def lru_inv_def MoveToFront_distinct)
  moreover have "filter (\<lambda>x. fst x = k) (entries c) = [(k, v)]"
    using v(3) d(2) by (intro only_element) (auto simp: entries_def comp_def dest!: map_of_SomeD)
  ultimately show ?thesis using get m v by (auto simp: lru_Get_def lru_state_def spec_Get_def entries_def MoveToFront_def)
qed

lemma lru_Remove_inv:
  assumes inv: "lru_inv c" and rem: "lru_Remove rd k c = (c', ev)"
  shows "lru_inv c' \<and> MaxBytes c' = MaxBytes c \<and> lru_state c' = spec_Remove rd k (lru_state c)"
proof (cases "Option.bind (cache_map c) (\<lambda>m. m k)")
  case None
  have k: "k \<notin> fst ` set (entries c)" by (rule lru_absent [OF inv None])
  moreover have "c' = c" using rem None by (auto simp: lru_Remove_def split: option.splits)
  moreover have "map_of (entries c) k = None" using k by (simp add: map_of_eq_None_iff)
  moreover have "filter (\<lambda>x. fst x \<noteq> k) (entries c) = entries c" using k by (auto simp: filter_id_conv)
  ultimately show ?thesis using inv by (simp add: lru_state_def spec_Remove_def)
next
  case (Some e)
  then obtain m where m: "cache_map c = Some m" "m k = Some e" by (auto simp: bind_eq_Some_conv)
  obtain v where v: "(e, k, v) \<in> set (ll c)" "entry_of e (ll c) = Some (k, v)" "map_of (entries c) k = Some v"
    using lru_hit [OF inv m] by metis
  have "removeElement rd (e, k, v) c = (c', ev)" using rem m v(2) by (simp add: lru_Remove_def)
  from removeElement_inv [OF inv v(1) this] show ?thesis using v(3) by (simp add: lru_state_def spec_Remove_def)
qed

subsection \<open>Properties\<close>

datatype ('k, 'v) lru_op = OpAdd 'k 'v | OpGet 'k | OpRemove 'k | OpClear "'k list"

text \<open>Each call comes with the buffer sizes at its time.\<close>

fun lru_step :: "('v \<Rightarrow> uint64) \<times> ('k, 'v) lru_op \<Rightarrow> ('k, 'v) LRUCache \<Rightarrow> ('k, 'v) LRUCache" where
  "lru_step (rd, OpAdd k v) c = fst (lru_Add rd k v c)"
| "lru_step (rd, OpGet k) c = fst (lru_Get k c)"
| "lru_step (rd, OpRemove k) c = fst (lru_Remove rd k c)"
| "lru_step (rd, OpClear ks) c = fst (lru_Clear ks c)"

fun spec_step :: "uint64 \<Rightarrow> ('v \<Rightarrow> uint64) \<times> ('k, 'v) lru_op \<Rightarrow> uint64 \<times> ('k \<times> 'v) list \<Rightarrow> uint64 \<times> ('k \<times> 'v) list" where
  "spec_step mx (rd, OpAdd k v) s = spec_Add rd mx k v s"
| "spec_step mx (rd, OpGet k) s = (fst s, spec_Get k (snd s))"
| "spec_step mx (rd, OpRemove k) s = spec_Remove rd k s"
| "spec_step mx (rd, OpClear ks) s = (0, [])"

lemma lru_step_inv:
  assumes "lru_inv c"
  shows "lru_inv (lru_step x c) \<and> MaxBytes (lru_step x c) = MaxBytes c \<and>
    lru_state (lru_step x c) = spec_step (MaxBytes c) x (lru_state c)"
proof (cases x)
  case (Pair rd op)
  show ?thesis
  proof (cases op)
    case (OpAdd k v)
    then show ?thesis using lru_Add_inv [OF assms, of rd k v] Pair by (cases "lru_Add rd k v c") simp
  next
    case (OpGet k)
    then show ?thesis using lru_Get_inv [OF assms, of k] Pair by (cases "lru_Get k c") (simp add: lru_state_def)
  next
    case (OpRemove k)
    then show ?thesis using lru_Remove_inv [OF assms, of rd k] Pair by (cases "lru_Remove rd k c") simp
  next
    case (OpClear ks)
    then show ?thesis using Pair by (simp add: lru_Clear_def lru_inv_def lru_state_def entries_def)
  qed
qed

lemma NewLRUCache_inv: "lru_inv (NewLRUCache mx ev)"
  by (simp add: NewLRUCache_def lru_inv_def key_index_def)

lemma lru_run_inv:
  "lru_inv c \<Longrightarrow> lru_inv (fold lru_step xs c) \<and> lru_state (fold lru_step xs c) = fold (spec_step (MaxBytes c)) xs (lru_state c)"
proof (induction xs arbitrary: c)
  case (Cons x xs)
  then show ?case using lru_step_inv [OF Cons.prems, of x] by (auto dest: Cons.IH)
qed simp

text \<open>C23 --- the linked list and the key map always agree, and the cache is a recency list: after any sequence of
  calls on a new cache the entries are those of the reference cache, in the same order. A hit or an update
  moves the entry to the front, an insertion above the limit drops exactly the entry used least recently.\<close>

theorem lru_refines:
  "lru_inv (fold lru_step xs (NewLRUCache mx ev)) \<and>
   lru_state (fold lru_step xs (NewLRUCache mx ev)) = fold (spec_step mx) xs (0, [])"
  using lru_run_inv [OF NewLRUCache_inv, of xs mx ev] by (simp add: NewLRUCache_def lru_state_def entries_def)

text \<open>The bytes accounted for but not held.\<close>

definition byte_drift :: "('v \<Rightarrow> uint64) \<Rightarrow> ('k, 'v) LRUCache \<Rightarrow> uint64" where
  "byte_drift rd c = current c - (\<Sum>x\<leftarrow>entries c. rd (snd x))"

lemma lru_distinct: "lru_inv c \<Longrightarrow> distinct (map fst (entries c))"
  by (auto simp: lru_inv_def entries_def comp_def split: option.splits)

lemma sum_remove_key:
  fixes f :: "'k \<times> 'v \<Rightarrow> uint64"
  assumes "distinct (map fst es)" "map_of es k = Some v"
  shows "(\<Sum>x\<leftarrow>es. f x) = f (k, v) + (\<Sum>x\<leftarrow>filter (\<lambda>x. fst x \<noteq> k) es. f x)"
  using assms
proof (induction es)
  case (Cons e es)
  show ?case
  proof (cases "fst e = k")
    case True
    then have "filter (\<lambda>x. fst x \<noteq> k) es = es" using Cons.prems(1) by (intro filter_True) (auto, metis fst_conv image_eqI)
    then show ?thesis using True Cons.prems(2) by auto
  qed (use Cons in \<open>auto simp: algebra_simps\<close>)
qed simp

lemma sum_butlast: "xs \<noteq> [] \<Longrightarrow> (\<Sum>x\<leftarrow>xs. f x) = (\<Sum>x\<leftarrow>butlast xs. f x) + (f (last xs) :: uint64)"
  by (cases xs rule: rev_cases) simp_all

lemma drift_Add:
  assumes "lru_inv c"
  shows "byte_drift rd (fst (lru_Add rd k v c)) =
    byte_drift rd c + (case map_of (entries c) k of None \<Rightarrow> 0 | Some old \<Rightarrow> rd old - rd v)"
proof -
  have st: "lru_state (fst (lru_Add rd k v c)) = spec_Add rd (MaxBytes c) k v (current c, entries c)"
    using lru_Add_inv [OF assms, of rd k v] by (cases "lru_Add rd k v c") (simp add: lru_state_def)
  show ?thesis
  proof (cases "map_of (entries c) k")
    case None
    then have "k \<notin> fst ` set (entries c)" by (simp add: map_of_eq_None_iff)
    then show ?thesis
      using st None sum_butlast [of "(k, v) # entries c" "\<lambda>x. rd (snd x)"]
      by (cases "MaxBytes c \<noteq> 0 \<and> MaxBytes c < current c + rd v")
        (auto simp: spec_Add_def lru_state_def byte_drift_def algebra_simps split: if_splits)
  next
    case (Some old)
    then have "k \<in> fst ` set (entries c)" using map_of_SomeD by force
    then show ?thesis
      using st Some sum_remove_key [OF lru_distinct [OF assms] Some, of "\<lambda>x. rd (snd x)"]
      by (simp add: spec_Add_def lru_state_def byte_drift_def algebra_simps)
  qed
qed

lemma drift_Get: "lru_inv c \<Longrightarrow> byte_drift rd (fst (lru_Get k c)) = byte_drift rd c"
proof -
  assume "lru_inv c"
  then have "lru_state (fst (lru_Get k c)) = (current c, spec_Get k (entries c))"
    using lru_Get_inv [of c k] by (cases "lru_Get k c") simp
  moreover have "(\<Sum>x\<leftarrow>spec_Get k es. f x) = (\<Sum>x\<leftarrow>es. (f x :: uint64))" for es :: "('a \<times> 'b) list" and f
    by (induction es) (simp_all add: spec_Get_def algebra_simps)
  ultimately show ?thesis by (simp add: byte_drift_def lru_state_def)
qed

lemma drift_Remove:
  assumes "lru_inv c"
  shows "byte_drift rd (fst (lru_Remove rd k c)) = byte_drift rd c"
proof -
  have st: "lru_state (fst (lru_Remove rd k c)) = spec_Remove rd k (current c, entries c)"
    using lru_Remove_inv [OF assms, of rd k] by (cases "lru_Remove rd k c") (simp add: lru_state_def)
  show ?thesis
  proof (cases "map_of (entries c) k")
    case None
    then have "filter (\<lambda>x. fst x \<noteq> k) (entries c) = entries c" by (force simp: filter_id_conv map_of_eq_None_iff)
    then show ?thesis using st None by (simp add: spec_Remove_def lru_state_def byte_drift_def)
  next
    case (Some v)
    then show ?thesis
      using st sum_remove_key [OF lru_distinct [OF assms] Some, of "\<lambda>x. rd (snd x)"]
      by (simp add: spec_Remove_def lru_state_def byte_drift_def algebra_simps)
  qed
qed


text \<open>A cache of three entries whose values are their own sizes.\<close>

definition demo_cache :: "(nat, uint64) LRUCache" where
  "demo_cache = fold lru_step [(id, OpAdd 1 4), (id, OpAdd 2 3), (id, OpAdd 3 3)] (NewLRUCache 10 True)"

lemma demo_cache_inv: "lru_inv demo_cache"
  unfolding demo_cache_def by (rule lru_run_inv [OF NewLRUCache_inv, THEN conjunct1])

lemma demo_cache_state: "MaxBytes demo_cache = 10" "current demo_cache = 10" "entries demo_cache = [(3, 3), (2, 3), (1, 4)]"
proof -
  have "lru_state demo_cache = (10, [(3, 3), (2, 3), (1, 4)])"
    unfolding demo_cache_def lru_run_inv [OF NewLRUCache_inv, THEN conjunct2]
    by (simp add: NewLRUCache_def lru_state_def entries_def spec_Add_def)
  then show "current demo_cache = 10" "entries demo_cache = [(3, 3), (2, 3), (1, 4)]" by (simp_all add: lru_state_def)
  show "MaxBytes demo_cache = 10"
    unfolding demo_cache_def by (simp add: lru_Add_def Let_def NewLRUCache_def)
qed


text \<open>The limit: inserting a new key into a full cache evicts one entry only. The cache ends
  within its limit exactly when the new value fits, or fits once the entry used least recently is gone; a
  larger value leaves the cache above \<^verbatim>\<open>MaxBytes\<close>.\<close>

theorem lru_limit:
  assumes "lru_inv c" "k \<notin> fst ` set (entries c)" "entries c \<noteq> []" "MaxBytes c \<noteq> 0"
    and "unat (current c) + unat (rd v) < 2 ^ 64" "rd (snd (last (entries c))) \<le> current c"
  shows "current (fst (lru_Add rd k v c)) \<le> MaxBytes c \<longleftrightarrow>
    unat (current c) + unat (rd v) \<le> unat (MaxBytes c) + unat (rd (snd (last (entries c)))) \<or>
    unat (current c) + unat (rd v) \<le> unat (MaxBytes c)"
proof -
  let ?l = "rd (snd (last (entries c)))"
  have st: "lru_state (fst (lru_Add rd k v c)) = spec_Add rd (MaxBytes c) k v (current c, entries c)"
    using lru_Add_inv [OF assms(1), of rd k v] by (cases "lru_Add rd k v c") (simp add: lru_state_def)
  have s: "unat (current c + rd v) = unat (current c) + unat (rd v)" using assms(5) by (simp add: unat_plus_if')
  have "?l \<le> current c + rd v" using s assms(6) by (simp add: word_le_nat_alt)
  then have d: "unat (current c + rd v - ?l) = unat (current c) + unat (rd v) - unat ?l"
    using s by (simp add: unat_sub word_le_nat_alt)
  show ?thesis
  proof (cases "MaxBytes c < current c + rd v")
    case True
    then have "current (fst (lru_Add rd k v c)) = current c + rd v - ?l"
      using st assms by (simp add: spec_Add_def lru_state_def)
    then show ?thesis using d s True by (auto simp: word_le_nat_alt word_less_nat_alt)
  next
    case False
    then have "current (fst (lru_Add rd k v c)) = current c + rd v"
      using st assms by (simp add: spec_Add_def lru_state_def)
    then show ?thesis using s False by (auto simp: word_le_nat_alt word_less_nat_alt)
  qed
qed

theorem lru_limit_witness: "\<not> current (fst (lru_Add id 4 9 demo_cache)) \<le> 10"
  using lru_limit [OF demo_cache_inv, of 4 id 9] by (simp add: demo_cache_state)

end
