(* ===== verification/Conditions.thy ===== *)
theory Conditions
  imports Meta_Model Url_Expr
begin

text \<open>
  What the gateway reads of a request to decide: the parameter accessors, the comparison operators of routing and
  cache conditions, the validation of parameters and the IP lists of an API
  (\<^verbatim>\<open>proxy/dispatcher_runtime.go\<close>).

  \<open>HttpReq\<close> extends the request view of the URL expressions by the method, the host, the raw URI and
  the form. The standard library functions \<^verbatim>\<open>strconv.Atoi\<close>, \<^verbatim>\<open>url.QueryUnescape\<close>, \<^verbatim>\<open>strings.Index\<close> and
  \<^verbatim>\<open>strings.ToUpper\<close> (on ASCII) are written out; the JSON accessor is the argument \<open>jget\<close> and
  \<^verbatim>\<open>regexp.MatchString\<close> the argument \<open>rx\<close>, with \<open>None\<close> for an expression that does not compile.
\<close>

record HttpReq = Request +
  rq_Method :: string
  rq_Host :: string
  rq_RequestURI :: string
  rq_PostArg :: "string \<Rightarrow> string"

type_synonym regex = "string \<Rightarrow> string \<Rightarrow> bool option"

subsection \<open>Standard library\<close>

definition digit_val :: "char \<Rightarrow> int option" where
  "digit_val c = (let n = of_char c :: nat in if 48 \<le> n \<and> n \<le> 57 then Some (int (n - 48)) else None)"

fun digits_val :: "int \<Rightarrow> string \<Rightarrow> int option" where
  "digits_val acc [] = Some acc"
| "digits_val acc (c # cs) = (case digit_val c of None \<Rightarrow> None | Some d \<Rightarrow> digits_val (10 * acc + d) cs)"

text \<open>\<^verbatim>\<open>strconv.Atoi\<close>: an optional sign, at least one digit, the value in the range of a 64-bit
  \<^verbatim>\<open>int\<close>; everything else is an error.\<close>

definition Atoi :: "string \<Rightarrow> int option" where
  "Atoi s =
     (let (neg, ds) = (case s of [] \<Rightarrow> (False, [])
                       | c # cs \<Rightarrow> if c = CHR ''-'' then (True, cs) else if c = CHR ''+'' then (False, cs) else (False, s))
      in if ds = [] then None
         else case digits_val 0 ds of
                None \<Rightarrow> None
              | Some n \<Rightarrow> let v = (if neg then - n else n) in if - (2 ^ 63) \<le> v \<and> v < 2 ^ 63 then Some v else None)"

definition unhex :: "char \<Rightarrow> nat option" where
  "unhex c = (let n = of_char c :: nat in
     if 48 \<le> n \<and> n \<le> 57 then Some (n - 48) else if 97 \<le> n \<and> n \<le> 102 then Some (n - 87)
     else if 65 \<le> n \<and> n \<le> 70 then Some (n - 55) else None)"

fun QueryUnescape :: "string \<Rightarrow> string option" where
  "QueryUnescape [] = Some []"
| "QueryUnescape (c # cs) =
     (if c = CHR ''%'' then
        (case cs of
           a # b # rest \<Rightarrow>
             (case (unhex a, unhex b) of
                (Some x, Some y) \<Rightarrow> map_option ((#) (char_of (16 * x + y))) (QueryUnescape rest)
              | _ \<Rightarrow> None)
         | _ \<Rightarrow> None)
      else map_option ((#) (if c = CHR ''+'' then CHR '' '' else c)) (QueryUnescape cs))"

fun has_prefix :: "'a list \<Rightarrow> 'a list \<Rightarrow> bool" where
  "has_prefix [] ys = True"
| "has_prefix (x # xs) [] = False"
| "has_prefix (x # xs) (y # ys) = (x = y \<and> has_prefix xs ys)"

text \<open>\<^verbatim>\<open>strings.Index(s, sub) != -1\<close>.\<close>

fun str_contains :: "'a list \<Rightarrow> 'a list \<Rightarrow> bool" where
  "str_contains [] sub = (sub = [])"
| "str_contains (x # xs) sub = (has_prefix sub (x # xs) \<or> str_contains xs sub)"

definition upper_char :: "char \<Rightarrow> char" where
  "upper_char c = (let n = of_char c :: nat in if 97 \<le> n \<and> n \<le> 122 then char_of (n - 32) else c)"

definition ToUpper :: "string \<Rightarrow> string" where
  "ToUpper s = map upper_char s"

subsection \<open>Parameters\<close>

definition getCookieValue :: "string \<Rightarrow> HttpReq \<Rightarrow> string" where
  "getCookieValue name req = rq_Cookie req name"

definition getHeaderValue :: "string \<Rightarrow> HttpReq \<Rightarrow> string" where
  "getHeaderValue name req = rq_HeaderPeek req name"

text \<open>The error of \<^verbatim>\<open>QueryUnescape\<close> is dropped; its value is then the empty string.\<close>

definition getQueryValue :: "string \<Rightarrow> HttpReq \<Rightarrow> string" where
  "getQueryValue name req = (case QueryUnescape (rq_QueryArg req name) of None \<Rightarrow> [] | Some v \<Rightarrow> v)"

definition getPathValue :: "int \<Rightarrow> HttpReq \<Rightarrow> (unit, string) outcome" where
  "getPathValue idx req =
     (case rq_Path req of
        [] \<Rightarrow> Panic
      | _ # path \<Rightarrow>
          (let values = split_on (CHR ''/'') path
           in if int (length values) \<le> idx then Ok []
              else (case go_index values idx of None \<Rightarrow> Panic | Some v \<Rightarrow> Ok v)))"

definition getFormValue :: "string \<Rightarrow> HttpReq \<Rightarrow> string" where
  "getFormValue name req = rq_PostArg req name"

definition paramValue :: "json_get \<Rightarrow> Parameter \<Rightarrow> HttpReq \<Rightarrow> (unit, string) outcome" where
  "paramValue jget param req =
     (case pa_Source param of
        QueryString \<Rightarrow> Ok (getQueryValue (pa_Name param) req)
      | FormData \<Rightarrow> Ok (getFormValue (pa_Name param) req)
      | JSONBody \<Rightarrow> Ok (case jget (rq_Body req) [pa_Name param] of None \<Rightarrow> [] | Some v \<Rightarrow> v)
      | Header \<Rightarrow> Ok (getHeaderValue (pa_Name param) req)
      | Cookie \<Rightarrow> Ok (getCookieValue (pa_Name param) req)
      | PathValue \<Rightarrow> getPathValue (pa_Index param) req)"

subsection \<open>Comparisons\<close>

definition cmp_eq :: "string \<Rightarrow> string \<Rightarrow> bool" where
  "cmp_eq attrValue expect = (attrValue = expect)"

definition cmp_lt :: "string \<Rightarrow> string \<Rightarrow> bool" where
  "cmp_lt attrValue expect = (case Atoi attrValue of None \<Rightarrow> False | Some s \<Rightarrow>
     (case Atoi expect of None \<Rightarrow> False | Some t \<Rightarrow> s < t))"

definition cmp_le :: "string \<Rightarrow> string \<Rightarrow> bool" where
  "cmp_le attrValue expect = (case Atoi attrValue of None \<Rightarrow> False | Some s \<Rightarrow>
     (case Atoi expect of None \<Rightarrow> False | Some t \<Rightarrow> s \<le> t))"

definition cmp_gt :: "string \<Rightarrow> string \<Rightarrow> bool" where
  "cmp_gt attrValue expect = (case Atoi attrValue of None \<Rightarrow> False | Some s \<Rightarrow>
     (case Atoi expect of None \<Rightarrow> False | Some t \<Rightarrow> s > t))"

definition cmp_ge :: "string \<Rightarrow> string \<Rightarrow> bool" where
  "cmp_ge attrValue expect = (case Atoi attrValue of None \<Rightarrow> False | Some s \<Rightarrow>
     (case Atoi expect of None \<Rightarrow> False | Some t \<Rightarrow> s \<ge> t))"

definition cmp_in :: "string \<Rightarrow> string \<Rightarrow> bool" where
  "cmp_in attrValue expect = str_contains expect attrValue"

definition cmp_reg :: "regex \<Rightarrow> string \<Rightarrow> string \<Rightarrow> bool" where
  "cmp_reg rx attrValue expect = (rx expect attrValue = Some True)"

definition compare_with :: "regex \<Rightarrow> CMP \<Rightarrow> string \<Rightarrow> string \<Rightarrow> bool" where
  "compare_with rx cmp v e =
     (case cmp of CMPEQ \<Rightarrow> cmp_eq v e | CMPLT \<Rightarrow> cmp_lt v e | CMPLE \<Rightarrow> cmp_le v e | CMPGT \<Rightarrow> cmp_gt v e
      | CMPGE \<Rightarrow> cmp_ge v e | CMPIn \<Rightarrow> cmp_in v e | CMPMatch \<Rightarrow> cmp_reg rx v e)"

definition conditionsMatches :: "json_get \<Rightarrow> regex \<Rightarrow> Condition \<Rightarrow> HttpReq \<Rightarrow> (unit, bool) outcome" where
  "conditionsMatches jget rx cond req =
     obind (paramValue jget (co_Parameter cond) req) (\<lambda>attrValue.
       Ok (if attrValue = [] then False else compare_with rx (co_Cmp cond) attrValue (co_Expect cond)))"

text \<open>The loops over several conditions stop at the first that fails.\<close>

fun all_conditions :: "json_get \<Rightarrow> regex \<Rightarrow> Condition list \<Rightarrow> HttpReq \<Rightarrow> (unit, bool) outcome" where
  "all_conditions jget rx [] req = Ok True"
| "all_conditions jget rx (c # cs) req =
     obind (conditionsMatches jget rx c req) (\<lambda>b. if \<not> b then Ok False else all_conditions jget rx cs req)"

subsection \<open>Validation\<close>

text \<open>A compiled rule is its pattern; compiling a malformed one panics (\<^verbatim>\<open>regexp.MustCompile\<close>) when the node is
  built, so \<open>rule_validate\<close> sees patterns that compile.\<close>

record apiValidation =
  av_meta :: Validation
  av_rules :: "string list"

definition rule_validate :: "regex \<Rightarrow> string \<Rightarrow> string \<Rightarrow> bool" where
  "rule_validate rx pattern v = (rx pattern v = Some True)"

definition validation_validate :: "json_get \<Rightarrow> regex \<Rightarrow> apiValidation \<Rightarrow> HttpReq \<Rightarrow> (unit, bool) outcome" where
  "validation_validate jget rx v req =
     (if av_rules v = [] \<and> \<not> va_Required (av_meta v) then Ok True
      else obind (paramValue jget (va_Parameter (av_meta v)) req) (\<lambda>value.
        Ok (if value = [] \<and> va_Required (av_meta v) then False
            else if value = [] \<and> \<not> va_Required (av_meta v) then True
            else list_all (\<lambda>r. rule_validate rx r value) (av_rules v))))"

fun node_validate :: "json_get \<Rightarrow> regex \<Rightarrow> apiValidation list \<Rightarrow> HttpReq \<Rightarrow> (unit, bool) outcome" where
  "node_validate jget rx [] req = Ok True"
| "node_validate jget rx (v # vs) req =
     obind (validation_validate jget rx v req) (\<lambda>b. if \<not> b then Ok False else node_validate jget rx vs req)"

subsection \<open>IP lists\<close>

type_synonym ipSegment = "string list"

definition parseFrom :: "string \<Rightarrow> ipSegment" where
  "parseFrom v = split_on (CHR ''.'') v"

fun segs_match :: "string list \<Rightarrow> string list \<Rightarrow> (unit, bool) outcome" where
  "segs_match [] ts = Ok True"
| "segs_match (v # vs) ts =
     (if v \<noteq> ''*'' then (case ts of [] \<Rightarrow> Panic | t # ts' \<Rightarrow> if v \<noteq> t then Ok False else segs_match vs ts')
      else segs_match vs (tl ts))"

definition ip_matches :: "ipSegment \<Rightarrow> string \<Rightarrow> (unit, bool) outcome" where
  "ip_matches ip v = segs_match ip (split_on (CHR ''.'') v)"

fun any_matches :: "ipSegment list \<Rightarrow> string \<Rightarrow> (unit, bool) outcome" where
  "any_matches [] v = Ok False"
| "any_matches (i # is) v = obind (ip_matches i v) (\<lambda>b. if b then Ok True else any_matches is v)"

subsection \<open>Numbers in conditions\<close>

text \<open>Decimal printing, the reference for \<open>Atoi\<close>.\<close>

fun nat_digits :: "nat \<Rightarrow> string" where
  "nat_digits n = (if n < 10 then [char_of (48 + n)] else nat_digits (n div 10) @ [char_of (48 + n mod 10)])"

declare nat_digits.simps [simp del]

definition Itoa :: "int \<Rightarrow> string" where
  "Itoa n = (if n < 0 then CHR ''-'' # nat_digits (nat (- n)) else nat_digits (nat n))"

lemma digit_val_char: "d < 10 \<Longrightarrow> digit_val (char_of (48 + d)) = Some (int d)" for d :: nat
  by (simp add: digit_val_def Let_def)

lemma digits_val_append:
  "digits_val acc (xs @ [c]) =
     (case digits_val acc xs of None \<Rightarrow> None | Some n \<Rightarrow> map_option (\<lambda>d. 10 * n + d) (digit_val c))"
  by (induction acc xs rule: digits_val.induct) (auto split: option.splits)

lemma digits_val_digits: "digits_val 0 (nat_digits n) = Some (int n)"
proof (induction n rule: nat_digits.induct)
  case (1 n)
  show ?case
  proof (cases "n < 10")
    case False
    then have "digits_val 0 (nat_digits (n div 10)) = Some (int (n div 10))" by (rule 1)
    then have "digits_val 0 (nat_digits n) = Some (10 * int (n div 10) + int (n mod 10))"
      using False by (subst nat_digits.simps) (simp add: digits_val_append digit_val_char)
    then show ?thesis by (metis mult_div_mod_eq of_nat_add of_nat_mult of_nat_numeral)
  qed (simp add: nat_digits.simps digit_val_char)
qed

lemma nat_digits_head: "\<exists>c cs. nat_digits n = c # cs \<and> c \<noteq> CHR ''-'' \<and> c \<noteq> CHR ''+''"
proof (induction n rule: nat_digits.induct)
  case (1 n)
  show ?case
  proof (cases "n < 10")
    case True
    then have "digit_val (char_of (48 + n)) = Some (int n)" by (rule digit_val_char)
    moreover have "digit_val (CHR ''-'') = None" "digit_val (CHR ''+'') = None" by code_simp+
    ultimately show ?thesis using True by (subst nat_digits.simps) auto
  next
    case False
    then show ?thesis using 1 by (subst nat_digits.simps) auto
  qed
qed

lemma Atoi_Itoa: "- (2 ^ 63) \<le> n \<Longrightarrow> n < 2 ^ 63 \<Longrightarrow> Atoi (Itoa n) = Some n"
  using nat_digits_head [of "nat n"] nat_digits_head [of "nat (- n)"] digits_val_digits [of "nat n"]
    digits_val_digits [of "nat (- n)"]
  by (auto simp: Atoi_def Itoa_def Let_def)

text \<open>The ordering conditions compare numbers: on the decimal form of any two 64-bit integers the four
  operators are the integer comparisons; a value that is not such a number satisfies none of them, so the
  negation of a condition is not the complementary condition.\<close>

theorem compare_numbers:
  "(- (2 ^ 63) \<le> m \<and> m < 2 ^ 63 \<and> - (2 ^ 63) \<le> n \<and> n < 2 ^ 63 \<longrightarrow>
     (compare_with rx CMPLT (Itoa m) (Itoa n) \<longleftrightarrow> m < n) \<and> (compare_with rx CMPLE (Itoa m) (Itoa n) \<longleftrightarrow> m \<le> n) \<and>
     (compare_with rx CMPGT (Itoa m) (Itoa n) \<longleftrightarrow> m > n) \<and> (compare_with rx CMPGE (Itoa m) (Itoa n) \<longleftrightarrow> m \<ge> n)) \<and>
   (Atoi v = None \<longrightarrow> \<not> compare_with rx CMPLT v e \<and> \<not> compare_with rx CMPLE v e \<and> \<not> compare_with rx CMPGT v e \<and>
     \<not> compare_with rx CMPGE v e)"
  by (auto simp: compare_with_def cmp_lt_def cmp_le_def cmp_gt_def cmp_ge_def Atoi_Itoa)

theorem compare_numbers_witness:
  "compare_with (\<lambda>_ _. None) CMPLT (Itoa (- 5)) (Itoa 10) \<and> Atoi ''1_0'' = None \<and>
   \<not> compare_with (\<lambda>_ _. None) CMPGE ''1_0'' ''3''"
proof -
  have "Atoi ''1_0'' = None" by code_simp
  then show ?thesis using compare_numbers [of "- 5" 10 "\<lambda>_ _. None" "''1_0''" "''3''"] by simp
qed

lemma has_prefix_iff: "has_prefix xs ys \<longleftrightarrow> (\<exists>zs. ys = xs @ zs)"
  by (induction xs ys rule: has_prefix.induct) auto

lemma str_contains_iff: "str_contains s sub \<longleftrightarrow> (\<exists>ps ss. s = ps @ sub @ ss)"
proof (induction s)
  case (Cons x xs)
  have "(\<exists>ps ss. x # xs = ps @ sub @ ss) \<longleftrightarrow> (\<exists>ss. x # xs = sub @ ss) \<or> (\<exists>ps ss. xs = ps @ sub @ ss)"
    by (metis Cons_eq_append_conv append_Cons append_Nil)
  then show ?case using Cons by (simp add: has_prefix_iff)
qed simp

subsection \<open>IP patterns\<close>

definition seg_ok :: "string \<Rightarrow> string \<Rightarrow> bool" where
  "seg_ok p t \<longleftrightarrow> p = ''*'' \<or> p = t"

lemma segs_match_spec:
  "segs_match vs ts =
     (if \<not> list_all2 seg_ok (take (length ts) vs) (take (length vs) ts) then Ok False
      else if \<not> list_all (\<lambda>v. v = ''*'') (drop (length ts) vs) then Panic else Ok True)"
proof (induction vs ts rule: segs_match.induct)
  case (2 v vs ts)
  then show ?case by (cases ts) (auto simp: seg_ok_def)
qed simp

text \<open>C38 --- IP access lists: the pattern is compared segment by segment, \<^verbatim>\<open>*\<close> matches any segment; a
  mismatch rejects, and otherwise the match panics exactly when the address is shorter than the pattern
  and a missing segment is not \<^verbatim>\<open>*\<close>. An address at least as long as the pattern is always decided, and its
  further segments are ignored.\<close>

theorem ip_matches_spec:
  "ip_matches (parseFrom p) ip =
     (let vs = split_on (CHR ''.'') p; ts = split_on (CHR ''.'') ip
      in if \<not> list_all2 seg_ok (take (length ts) vs) (take (length vs) ts) then Ok False
         else if \<not> list_all (\<lambda>v. v = ''*'') (drop (length ts) vs) then Panic else Ok True)"
  by (simp add: ip_matches_def parseFrom_def segs_match_spec Let_def)

subsection \<open>Absence of panics\<close>

definition param_ok :: "HttpReq \<Rightarrow> Parameter \<Rightarrow> bool" where
  "param_ok req p \<longleftrightarrow> (pa_Source p = PathValue \<longrightarrow> rq_Path req \<noteq> [] \<and> 0 \<le> pa_Index p)"

lemma paramValue_total: "param_ok req p \<Longrightarrow> \<exists>v. paramValue jget p req = Ok v"
  by (cases "pa_Source p")
    (auto simp: paramValue_def param_ok_def getPathValue_def go_index_def Let_def split: list.splits)

lemma conditionsMatches_total:
  "param_ok req (co_Parameter c) \<Longrightarrow> \<exists>b. conditionsMatches jget rx c req = Ok b"
  using paramValue_total [of req "co_Parameter c" jget] by (auto simp: conditionsMatches_def)

lemma all_conditions_total:
  "\<forall>c\<in>set cs. param_ok req (co_Parameter c) \<Longrightarrow> \<exists>b. all_conditions jget rx cs req = Ok b"
proof (induction cs)
  case (Cons c cs)
  then show ?case using conditionsMatches_total [of req c jget rx] by auto
qed auto

lemma all_conditions_True:
  "all_conditions jget rx cs req = Ok True \<longleftrightarrow> (\<forall>c\<in>set cs. conditionsMatches jget rx c req = Ok True)"
  by (induction cs) (auto simp: outcome_simps)

lemma node_validate_total:
  "\<forall>v\<in>set vs. param_ok req (va_Parameter (av_meta v)) \<Longrightarrow> \<exists>b. node_validate jget rx vs req = Ok b"
proof (induction vs)
  case (Cons v vs)
  then have "\<exists>b. validation_validate jget rx v req = Ok b"
    using paramValue_total [of req "va_Parameter (av_meta v)" jget] by (auto simp: validation_validate_def)
  then show ?case using Cons by auto
qed auto

end
