(* ===== verification/Rate_Barrier.thy ===== *)
theory Rate_Barrier
  imports Vx_Prelude
begin

text \<open>
  The rate barrier (\<^verbatim>\<open>utils/barrier.go\<close>): a shared shuffled list of the numbers below the base and a
  counter; a call passes when the number at the counter's position is below the rate. It decides which
  share of the traffic a routing rule or a half-open circuit lets through.

  \<^verbatim>\<open>rand.Shuffle\<close> is the argument \<open>shuf\<close>; its contract is the locale \<open>shuffler\<close>.
\<close>

type_synonym rand_sources = "int \<rightharpoonup> int list"

text \<open>The mutex makes the function atomic. \<^verbatim>\<open>make([]int, base)\<close> panics for a negative base.\<close>

definition createRandSourceByBase ::
  "(int list \<Rightarrow> int list) \<Rightarrow> int \<Rightarrow> rand_sources \<Rightarrow> (unit, int list \<times> rand_sources) outcome" where
  "createRandSourceByBase shuf base srcs =
     (case srcs base of
        Some v \<Rightarrow> Ok (v, srcs)
      | None \<Rightarrow>
          if base < 0 then Panic
          else let v = shuf (map int [0..<nat base]) in Ok (v, srcs(base \<mapsto> v)))"

record RateBarrier =
  rb_source :: "int list"
  rb_op :: uint64
  rb_rate :: int
  rb_base :: int

definition NewRateBarrierBase ::
  "(int list \<Rightarrow> int list) \<Rightarrow> int \<Rightarrow> int \<Rightarrow> rand_sources \<Rightarrow> (unit, RateBarrier \<times> rand_sources) outcome" where
  "NewRateBarrierBase shuf rate base srcs =
     obind (createRandSourceByBase shuf base srcs)
       (\<lambda>(v, srcs). Ok (\<lparr>rb_source = v, rb_op = 0, rb_rate = rate, rb_base = base\<rparr>, srcs))"

definition NewRateBarrier ::
  "(int list \<Rightarrow> int list) \<Rightarrow> int \<Rightarrow> rand_sources \<Rightarrow> (unit, RateBarrier \<times> rand_sources) outcome" where
  "NewRateBarrier shuf rate srcs = NewRateBarrierBase shuf rate 100 srcs"

text \<open>\<^verbatim>\<open>int(op) % base\<close>: the counter is read as a signed number, the remainder has its sign.\<close>

definition Allow :: "RateBarrier \<Rightarrow> (unit, RateBarrier \<times> bool) outcome" where
  "Allow b =
     (let op = rb_op b + 1
      in if rb_base b = 0 then Panic
         else case go_index (rb_source b) (sint op smod rb_base b) of
                None \<Rightarrow> Panic
              | Some v \<Rightarrow> Ok (b\<lparr>rb_op := op\<rparr>, v < rb_rate b))"

subsection \<open>The contract of the shuffle\<close>

locale shuffler =
  fixes shuf :: "int list \<Rightarrow> int list"
  assumes shuf_perm: "mset (shuf xs) = mset xs"
begin

text \<open>Every cached list is a permutation of the numbers below its base, and stays one.\<close>

lemma create_perm:
  assumes "\<forall>bs v. srcs bs = Some v \<longrightarrow> 0 \<le> bs \<and> mset v = mset (map int [0..<nat bs])"
    and "createRandSourceByBase shuf base srcs = Ok (v, srcs')"
  shows "0 \<le> base \<and> mset v = mset (map int [0..<nat base]) \<and>
    (\<forall>bs v. srcs' bs = Some v \<longrightarrow> 0 \<le> bs \<and> mset v = mset (map int [0..<nat bs]))"
  using assms
  by (auto simp: createRandSourceByBase_def Let_def shuf_perm split: option.splits if_splits)

end

interpretation revs: shuffler rev
  by unfold_locales simp

definition barrier_ok :: "RateBarrier \<Rightarrow> bool" where
  "barrier_ok b \<longleftrightarrow> 0 < rb_base b \<and> rb_base b < 2 ^ 63 \<and> mset (rb_source b) = mset (map int [0..<nat (rb_base b)])"

fun allow_run :: "nat \<Rightarrow> RateBarrier \<Rightarrow> (unit, RateBarrier \<times> bool list) outcome" where
  "allow_run 0 b = Ok (b, [])"
| "allow_run (Suc n) b =
     obind (Allow b) (\<lambda>(b', a). obind (allow_run n b') (\<lambda>(b'', as). Ok (b'', a # as)))"

lemma barrier_length: "barrier_ok b \<Longrightarrow> length (rb_source b) = nat (rb_base b)"
  unfolding barrier_ok_def by (metis diff_zero length_map length_upt size_mset)

lemma Allow_eq:
  assumes "barrier_ok b" "unat (rb_op b) + 1 < 2 ^ 63"
  shows "Allow b = Ok (b\<lparr>rb_op := rb_op b + 1\<rparr>,
    rb_source b ! (Suc (unat (rb_op b)) mod nat (rb_base b)) < rb_rate b)"
proof -
  have o: "unat (rb_op b + 1) = Suc (unat (rb_op b))"
    using assms(2) unat_add_lem [of "rb_op b" 1] by simp
  then have s: "sint (rb_op b + 1) = int (Suc (unat (rb_op b)))"
    using sint_small [of "rb_op b + 1"] assms(2) by simp
  have b: "rb_base b = int (nat (rb_base b))" "0 < nat (rb_base b)" using assms(1) by (auto simp: barrier_ok_def)
  have "int (Suc (unat (rb_op b))) smod rb_base b = int (Suc (unat (rb_op b)) mod nat (rb_base b))"
    using b int_smod_int by metis
  moreover have "int (Suc (unat (rb_op b)) mod nat (rb_base b)) < rb_base b"
    using b by (metis mod_less_divisor of_nat_less_iff)
  ultimately show ?thesis
    using b(2) barrier_length [OF assms(1)] assms(1)
    by (simp add: Allow_def Let_def s go_index_def barrier_ok_def del: of_nat_Suc)
qed

lemma allow_run_eq:
  assumes "barrier_ok b" "unat (rb_op b) + n < 2 ^ 63"
  shows "allow_run n b = Ok (b\<lparr>rb_op := rb_op b + of_nat n\<rparr>,
    map (\<lambda>k. rb_source b ! (k mod nat (rb_base b)) < rb_rate b) [Suc (unat (rb_op b))..<Suc (unat (rb_op b) + n)])"
  using assms
proof (induction n arbitrary: b)
  case (Suc n)
  let ?b = "b\<lparr>rb_op := rb_op b + 1\<rparr>"
  have o: "unat (rb_op b + 1) = Suc (unat (rb_op b))"
    using Suc.prems(2) unat_add_lem [of "rb_op b" 1] by simp
  have "barrier_ok ?b" using Suc.prems by (simp add: barrier_ok_def)
  then show ?case
    using Suc.IH [of ?b] Suc.prems Allow_eq [OF Suc.prems(1)] o
    by (simp add: upt_conv_Cons add.assoc del: upt_Suc)
qed simp

lemma count_below: "length (filter (\<lambda>v. v < r) (map int [0..<n])) = nat (min (max r 0) (int n))"
  by (induction n) auto

text \<open>C29 --- the barrier passes exactly its rate. Any \<open>base\<close> consecutive calls (before the counter
  passes \<open>2 ^ 63\<close>) let exactly \<open>rate\<close> calls through, cut to the range from 0 to \<open>base\<close>, and none of
  them panics, whatever permutation the shuffle produced.\<close>

theorem barrier_exact:
  assumes "barrier_ok b" "unat (rb_op b) + nat (rb_base b) < 2 ^ 63"
  shows "\<exists>b' as. allow_run (nat (rb_base b)) b = Ok (b', as) \<and> barrier_ok b' \<and>
    int (length (filter (\<lambda>a. a) as)) = min (max (rb_rate b) 0) (rb_base b)"
proof -
  let ?l = "nat (rb_base b)" and ?s = "rb_source b" and ?a = "Suc (unat (rb_op b))"
  have l: "0 < ?l" "length ?s = ?l" using assms(1) barrier_length by (auto simp: barrier_ok_def)
  let ?as = "map (\<lambda>k. ?s ! (k mod ?l) < rb_rate b) [?a..<?a + ?l]"
  have "?as = map (\<lambda>v. v < rb_rate b) (map ((!) ?s) (map (\<lambda>k. k mod ?l) [?a..<?a + ?l]))" by simp
  then have "mset ?as = image_mset (\<lambda>v. v < rb_rate b)
      (image_mset ((!) ?s) (mset (map (\<lambda>k. k mod ?l) [?a..<?a + ?l])))"
    by (simp only: mset_map)
  also have "mset (map (\<lambda>k. k mod ?l) [?a..<?a + ?l]) = mset [0..<?l]" by (rule mset_mod_cycle [OF l(1)])
  also have "image_mset ((!) ?s) (mset [0..<?l]) = mset ?s" using l(2) by (metis map_nth mset_map)
  also have "mset ?s = mset (map int [0..<?l])" using assms(1) by (simp only: barrier_ok_def)
  finally have "mset ?as = mset (map (\<lambda>v. v < rb_rate b) (map int [0..<?l]))" by (simp only: mset_map)
  then have "length (filter (\<lambda>a. a) ?as) = length (filter (\<lambda>a. a) (map (\<lambda>v. v < rb_rate b) (map int [0..<?l])))"
    by (metis mset_filter size_mset)
  also have "\<dots> = nat (min (max (rb_rate b) 0) (int ?l))"
    using count_below [of "rb_rate b" ?l] by (simp add: filter_map comp_def)
  finally have "int (length (filter (\<lambda>a. a) ?as)) = min (max (rb_rate b) 0) (rb_base b)"
    using assms(1) by (simp add: barrier_ok_def)
  then show ?thesis
    using allow_run_eq [OF assms] assms(1) by (auto simp: barrier_ok_def)
qed

text \<open>A new barrier is ready: with the cache of shuffled lists empty, \<^verbatim>\<open>NewRateBarrier\<close>
  succeeds and yields a barrier with base 100 that meets the hypothesis of the exactness property,
  for every shuffle that permutes.\<close>

theorem NewRateBarrier_ok:
  assumes "shuffler shuf"
  shows "\<exists>b srcs. NewRateBarrier shuf rate Map.empty = Ok (b, srcs) \<and> barrier_ok b \<and> rb_op b = 0
    \<and> rb_rate b = rate \<and> rb_base b = 100"
proof -
  have "\<forall>xs. mset (shuf xs) = mset xs"
    using assms shuffler.shuf_perm by blast
  then show ?thesis
    by (simp add: NewRateBarrier_def NewRateBarrierBase_def createRandSourceByBase_def barrier_ok_def Let_def)
qed

theorem NewRateBarrier_ok_witness:
  "\<exists>b srcs. NewRateBarrier rev 30 Map.empty = Ok (b, srcs) \<and> barrier_ok b \<and> rb_op b = 0
    \<and> rb_rate b = 30 \<and> rb_base b = 100"
  by (rule NewRateBarrier_ok [OF revs.shuffler_axioms])

definition demo_barrier :: RateBarrier where
  "demo_barrier = \<lparr>rb_source = [2, 0, 3, 1], rb_op = 9, rb_rate = 3, rb_base = 4\<rparr>"

theorem barrier_exact_witness:
  "\<exists>b' as. allow_run 4 demo_barrier = Ok (b', as) \<and> length (filter (\<lambda>a. a) as) = 3"
proof -
  have "barrier_ok demo_barrier" by (simp add: barrier_ok_def demo_barrier_def upt_rec)
  then show ?thesis using barrier_exact [of demo_barrier] by (auto simp: demo_barrier_def)
qed

end
