(* ===== verification/Token_Bucket.thy ===== *)
theory Token_Bucket
  imports Meta_Model
begin

text \<open>
  The token bucket (\<^verbatim>\<open>utils/ratelimit\<close>) and the rate limiter of the proxy built on it
  (\<^verbatim>\<open>proxy/rate_limit.go\<close>). Times are nanoseconds as integers, the clock reading of an operation is
  its argument \<open>now\<close>, and a \<^verbatim>\<open>Sleep\<close> is reported as the duration slept. The arithmetic is
  \<^verbatim>\<open>int64\<close>: every sum and product goes through \<open>i64\<close>, and \<^verbatim>\<open>Time.Sub\<close> saturates.
\<close>

record Bucket =
  startTime :: int
  capacity :: int
  quantum :: int
  fillInterval :: int
  availableTokens :: int
  latestTick :: int

definition time_Sub :: "int \<Rightarrow> int \<Rightarrow> int" where
  "time_Sub a b = max (- (2 ^ 63)) (min (2 ^ 63 - 1) (a - b))"

definition NewBucketWithQuantumAndClock :: "int \<Rightarrow> int \<Rightarrow> int \<Rightarrow> int \<Rightarrow> (unit, Bucket) outcome" where
  "NewBucketWithQuantumAndClock fill cap q now =
     (if fill \<le> 0 then Panic
      else if cap \<le> 0 then Panic
      else if q \<le> 0 then Panic
      else Ok \<lparr>startTime = now, capacity = cap, quantum = q, fillInterval = fill,
               availableTokens = cap, latestTick = 0\<rparr>)"

definition NewBucket :: "int \<Rightarrow> int \<Rightarrow> int \<Rightarrow> (unit, Bucket) outcome" where
  "NewBucket fill cap now = NewBucketWithQuantumAndClock fill cap 1 now"

definition nextQuantum :: "int \<Rightarrow> int" where
  "nextQuantum q = (let q1 = i64 (q * 11) sdiv 10 in if q1 = q then i64 (q1 + 1) else q1)"

definition currentTick :: "Bucket \<Rightarrow> int \<Rightarrow> int" where
  "currentTick tb now = time_Sub now (startTime tb) sdiv fillInterval tb"

definition adjustavailableTokens :: "int \<Rightarrow> Bucket \<Rightarrow> Bucket" where
  "adjustavailableTokens tick tb =
     (let lastTick = latestTick tb; tb = tb\<lparr>latestTick := tick\<rparr>
      in if capacity tb \<le> availableTokens tb then tb
         else let a = i64 (availableTokens tb + i64 (i64 (tick - lastTick) * quantum tb))
              in tb\<lparr>availableTokens := (if capacity tb < a then capacity tb else a)\<rparr>)"

definition takeAvailable :: "int \<Rightarrow> int \<Rightarrow> Bucket \<Rightarrow> Bucket \<times> int" where
  "takeAvailable now cnt tb =
     (if cnt \<le> 0 then (tb, 0)
      else let tb = adjustavailableTokens (currentTick tb now) tb
           in if availableTokens tb \<le> 0 then (tb, 0)
              else let c = (if availableTokens tb < cnt then availableTokens tb else cnt)
                   in (tb\<lparr>availableTokens := i64 (availableTokens tb - c)\<rparr>, c))"

definition available :: "int \<Rightarrow> Bucket \<Rightarrow> Bucket \<times> int" where
  "available now tb =
     (let tb = adjustavailableTokens (currentTick tb now) tb in (tb, availableTokens tb))"

definition bucket_take :: "int \<Rightarrow> int \<Rightarrow> int \<Rightarrow> Bucket \<Rightarrow> Bucket \<times> int \<times> bool" where
  "bucket_take now cnt maxWait tb =
     (if cnt \<le> 0 then (tb, 0, True)
      else let tick = currentTick tb now;
               tb = adjustavailableTokens tick tb;
               avail = i64 (availableTokens tb - cnt)
           in if 0 \<le> avail then (tb\<lparr>availableTokens := avail\<rparr>, 0, True)
              else let endTick = i64 (tick + i64 (i64 (- avail + quantum tb) - 1) sdiv quantum tb);
                       endTime = startTime tb + i64 (endTick * fillInterval tb);
                       waitTime = time_Sub endTime now
                   in if maxWait < waitTime then (tb, 0, False)
                      else (tb\<lparr>availableTokens := avail\<rparr>, waitTime, True))"

definition infinityDuration :: int where
  "infinityDuration = 0x7fffffffffffffff"

definition Take :: "int \<Rightarrow> int \<Rightarrow> Bucket \<Rightarrow> Bucket \<times> int" where
  "Take now cnt tb = (let (tb', d, _) = bucket_take now cnt infinityDuration tb in (tb', d))"

definition TakeMaxDuration :: "int \<Rightarrow> int \<Rightarrow> int \<Rightarrow> Bucket \<Rightarrow> Bucket \<times> int \<times> bool" where
  "TakeMaxDuration now cnt maxWait tb = bucket_take now cnt maxWait tb"

definition TakeAvailable :: "int \<Rightarrow> int \<Rightarrow> Bucket \<Rightarrow> Bucket \<times> int" where
  "TakeAvailable now cnt tb = takeAvailable now cnt tb"

text \<open>The second component is the time slept.\<close>

definition bucket_Wait :: "int \<Rightarrow> int \<Rightarrow> Bucket \<Rightarrow> Bucket \<times> int" where
  "bucket_Wait now cnt tb = (let (tb', d) = Take now cnt tb in (tb', if 0 < d then d else 0))"

definition WaitMaxDuration :: "int \<Rightarrow> int \<Rightarrow> int \<Rightarrow> Bucket \<Rightarrow> Bucket \<times> int \<times> bool" where
  "WaitMaxDuration now cnt maxWait tb =
     (let (tb', d, ok) = TakeMaxDuration now cnt maxWait tb in (tb', if 0 < d then d else 0, ok))"

subsection \<open>The proxy's rate limiter\<close>

record rateLimiter =
  rl_limiter :: Bucket
  rl_option :: RateLimitOption

text \<open>\<^verbatim>\<open>time.Second/time.Duration(max)\<close>: division by zero panics.\<close>

definition newRateLimiter :: "int \<Rightarrow> RateLimitOption \<Rightarrow> int \<Rightarrow> (unit, rateLimiter) outcome" where
  "newRateLimiter maxq opt now =
     (if maxq = 0 then Panic
      else obind (NewBucket (1000000000 sdiv maxq) maxq now)
             (\<lambda>b. Ok \<lparr>rl_limiter = b, rl_option = opt\<rparr>))"

definition rl_do :: "int \<Rightarrow> int \<Rightarrow> rateLimiter \<Rightarrow> rateLimiter \<times> bool" where
  "rl_do now cnt l =
     (case rl_option l of
        Wait \<Rightarrow> (l\<lparr>rl_limiter := fst (bucket_Wait now cnt (rl_limiter l))\<rparr>, True)
      | Reject \<Rightarrow>
          (let (b, n) = TakeAvailable now cnt (rl_limiter l) in (l\<lparr>rl_limiter := b\<rparr>, 0 < n)))"

subsection \<open>The bucket without overflow\<close>

text \<open>\<open>calm tb now cnt\<close>: the clock is at or after the last tick and no intermediate result leaves the
  64-bit range at this reading.\<close>

definition bucket_ok :: "Bucket \<Rightarrow> bool" where
  "bucket_ok tb \<longleftrightarrow> 0 < fillInterval tb \<and> 0 < capacity tb \<and> capacity tb < 2 ^ 61 \<and> 0 < quantum tb \<and>
     0 \<le> latestTick tb \<and> availableTokens tb \<le> capacity tb \<and> - (2 ^ 61) < availableTokens tb"

definition calm :: "Bucket \<Rightarrow> int \<Rightarrow> bool" where
  "calm tb now \<longleftrightarrow> startTime tb \<le> now \<and> now - startTime tb < 2 ^ 61 \<and>
     latestTick tb \<le> (now - startTime tb) div fillInterval tb \<and>
     ((now - startTime tb) div fillInterval tb) * quantum tb < 2 ^ 61"

lemma sdiv_pos: "0 \<le> a \<Longrightarrow> 0 < b \<Longrightarrow> a sdiv b = a div b" for a b :: int
  by (simp add: signed_divide_int_def sgn_if)

lemma time_Sub_small: "\<bar>a - b\<bar> < 2 ^ 62 \<Longrightarrow> time_Sub a b = a - b"
  by (auto simp: time_Sub_def)

lemma currentTick_eq:
  assumes "bucket_ok tb" "calm tb now"
  shows "currentTick tb now = (now - startTime tb) div fillInterval tb"
  using assms by (simp add: currentTick_def calm_def bucket_ok_def time_Sub_small sdiv_pos)

abbreviation tick_at :: "Bucket \<Rightarrow> int \<Rightarrow> int" where
  "tick_at tb now \<equiv> (now - startTime tb) div fillInterval tb"

lemma adjust_eq:
  assumes "bucket_ok tb" "calm tb now"
  shows "adjustavailableTokens (currentTick tb now) tb
    = tb\<lparr>latestTick := tick_at tb now,
         availableTokens := min (capacity tb) (availableTokens tb + (tick_at tb now - latestTick tb) * quantum tb)\<rparr>"
proof -
  let ?t = "tick_at tb now" and ?d = "(tick_at tb now - latestTick tb) * quantum tb"
  have b: "0 \<le> latestTick tb" "latestTick tb \<le> ?t" "0 < quantum tb" "?t * quantum tb < 2 ^ 61"
    using assms by (auto simp: bucket_ok_def calm_def)
  have "0 \<le> latestTick tb * quantum tb" "0 \<le> ?d" using b by simp_all
  then have d: "0 \<le> ?d" "?d < 2 ^ 61" using b(4) by (simp_all add: left_diff_distrib)
  have "?t * 1 \<le> ?t * quantum tb" using b by (intro mult_left_mono) auto
  then have t: "i64 (?t - latestTick tb) = ?t - latestTick tb" using b by (intro i64_small) simp
  have "i64 ?d = ?d" "i64 (availableTokens tb + ?d) = availableTokens tb + ?d"
    using d assms(1) by (auto simp: bucket_ok_def intro!: i64_small)
  then show ?thesis
    using currentTick_eq [OF assms] t d assms(1)
    by (auto simp: adjustavailableTokens_def Let_def bucket_ok_def min_def)
qed

subsection \<open>What is granted without waiting\<close>

lemma i64_diff: "0 \<le> c \<Longrightarrow> c \<le> x \<Longrightarrow> x < 2 ^ 61 \<Longrightarrow> i64 (x - c) = x - c"
  by (intro i64_small) simp

lemma takeAvailable_step:
  assumes "bucket_ok tb" "calm tb now" "takeAvailable now cnt tb = (tb', g)"
  shows "bucket_ok tb' \<and> 0 \<le> g \<and> g \<le> max cnt 0
    \<and> startTime tb' = startTime tb \<and> fillInterval tb' = fillInterval tb \<and> quantum tb' = quantum tb
    \<and> capacity tb' = capacity tb
    \<and> latestTick tb \<le> latestTick tb' \<and> latestTick tb' \<le> tick_at tb now
    \<and> (0 \<le> availableTokens tb \<longrightarrow> 0 \<le> availableTokens tb')
    \<and> availableTokens tb' + g \<le> availableTokens tb + (latestTick tb' - latestTick tb) * quantum tb"
proof (cases "cnt \<le> 0")
  case True
  then show ?thesis using assms by (auto simp: takeAvailable_def calm_def)
next
  case False
  define d where "d = (tick_at tb now - latestTick tb) * quantum tb"
  let ?a = "min (capacity tb) (availableTokens tb + d)"
  have b: "0 \<le> d" "0 \<le> tick_at tb now" "latestTick tb \<le> tick_at tb now"
    using assms(1,2) by (auto simp: bucket_ok_def calm_def d_def)
  have low: "- (2 ^ 61) < availableTokens tb + d" using b(1) assms(1) unfolding bucket_ok_def by linarith
  then have a: "- (2 ^ 61) < ?a" "?a < 2 ^ 61" using assms(1) by (auto simp: bucket_ok_def)
  have a0: "0 \<le> availableTokens tb \<longrightarrow> 0 \<le> ?a" using b(1) assms(1) unfolding bucket_ok_def by linarith
  have "i64 (?a - c) = ?a - c" if "0 \<le> c" "c \<le> ?a" for c
    by (rule i64_diff [OF that a(2)])
  then show ?thesis
    using assms(3) False a a0 b low assms(1)
    by (auto simp: takeAvailable_def adjust_eq [OF assms(1,2), folded d_def] Let_def bucket_ok_def d_def [symmetric]
        split: if_splits)
qed

fun take_run :: "(int \<times> int) list \<Rightarrow> Bucket \<Rightarrow> Bucket \<times> int" where
  "take_run [] tb = (tb, 0)"
| "take_run ((now, cnt) # reqs) tb =
     (let (tb1, g) = takeAvailable now cnt tb; (tb2, gs) = take_run reqs tb1 in (tb2, g + gs))"

lemma calm_later:
  assumes "calm tb t" "startTime tb' = startTime tb" "fillInterval tb' = fillInterval tb"
    "quantum tb' = quantum tb" "latestTick tb' \<le> tick_at tb now" "now \<le> t" "0 < fillInterval tb"
  shows "calm tb' t"
proof -
  have "tick_at tb now \<le> tick_at tb t" using assms(6,7) by (intro zdiv_mono1) auto
  then show ?thesis using assms by (simp add: calm_def)
qed

lemma take_run_bound:
  assumes "bucket_ok tb" "sorted (map fst reqs)" "\<forall>r\<in>set reqs. calm tb (fst r)" "take_run reqs tb = (tb', g)"
  shows "bucket_ok tb' \<and> 0 \<le> g \<and> latestTick tb \<le> latestTick tb'
    \<and> (reqs \<noteq> [] \<longrightarrow> latestTick tb' \<le> tick_at tb (fst (last reqs)))
    \<and> (0 \<le> availableTokens tb \<longrightarrow> 0 \<le> availableTokens tb')
    \<and> availableTokens tb' + g \<le> availableTokens tb + (latestTick tb' - latestTick tb) * quantum tb"
  using assms
proof (induction reqs arbitrary: tb g)
  case (Cons r reqs)
  obtain now cnt where r: "r = (now, cnt)" by (cases r)
  obtain tb1 g1 where s1: "takeAvailable now cnt tb = (tb1, g1)" by fastforce
  obtain g2 where s2: "take_run reqs tb1 = (tb', g2)" "g = g1 + g2"
    using Cons.prems(4) r s1 by (auto split: prod.splits)
  have "calm tb now" using Cons.prems(3) r by simp
  note st = takeAvailable_step [OF Cons.prems(1) this s1]
  have f: "0 < fillInterval tb" using Cons.prems(1) by (simp add: bucket_ok_def)
  have c: "\<forall>r\<in>set reqs. calm tb1 (fst r)"
  proof
    fix q
    assume "q \<in> set reqs"
    then show "calm tb1 (fst q)"
      using Cons.prems(2,3) r st f by (intro calm_later [of tb _ tb1 now]) auto
  qed
  have "sorted (map fst reqs)" using Cons.prems(2) by simp
  with st s2 c have IH: "bucket_ok tb'" "0 \<le> g2" "latestTick tb1 \<le> latestTick tb'"
    "reqs \<noteq> [] \<longrightarrow> latestTick tb' \<le> tick_at tb1 (fst (last reqs))"
    "0 \<le> availableTokens tb1 \<longrightarrow> 0 \<le> availableTokens tb'"
    "availableTokens tb' + g2 \<le> availableTokens tb1 + (latestTick tb' - latestTick tb1) * quantum tb1"
    using Cons.IH [of tb1 g2] by blast+
  have "latestTick tb' \<le> tick_at tb (fst (last (r # reqs)))"
    using IH(4) st s2 r by (cases "reqs = []") auto
  then show ?case using IH st s2 by (simp add: algebra_simps)
qed simp

text \<open>C26 --- the rate is never exceeded. For requests at non-decreasing times, the tokens granted
  without waiting are at most the tokens in the bucket at the start plus \<open>quantum\<close> for each tick up to
  the last request; the bucket never holds more than its capacity nor, without waiting takers, less than
  nothing.\<close>

theorem take_run_rate:
  assumes "bucket_ok tb" "0 \<le> availableTokens tb" "sorted (map fst reqs)" "\<forall>r\<in>set reqs. calm tb (fst r)"
    and "reqs \<noteq> []" "take_run reqs tb = (tb', granted)"
  shows "granted \<le> availableTokens tb + (tick_at tb (fst (last reqs)) - latestTick tb) * quantum tb
    \<and> 0 \<le> availableTokens tb' \<and> availableTokens tb' \<le> capacity tb'"
proof -
  note bd = take_run_bound [OF assms(1,3,4,6)]
  have "(latestTick tb' - latestTick tb) * quantum tb \<le> (tick_at tb (fst (last reqs)) - latestTick tb) * quantum tb"
    using assms(1,5) bd by (intro mult_right_mono) (auto simp: bucket_ok_def)
  then show ?thesis using bd assms(2) by (simp add: bucket_ok_def)
qed

definition demo_bucket :: Bucket where
  "demo_bucket = \<lparr>startTime = 0, capacity = 5, quantum = 1, fillInterval = 10, availableTokens = 5, latestTick = 0\<rparr>"

theorem take_run_rate_witness:
  "\<exists>tb' granted. take_run [(3, 4), (25, 4), (25, 9)] demo_bucket = (tb', granted) \<and> granted \<le> 7"
proof -
  obtain tb' granted where r: "take_run [(3, 4), (25, 4), (25, 9)] demo_bucket = (tb', granted)" by fastforce
  then show ?thesis
    using take_run_rate [OF _ _ _ _ _ r]
    by (simp add: bucket_ok_def calm_def demo_bucket_def)
qed

subsection \<open>What is granted with a wait\<close>

lemma div_ceil:
  fixes x q :: int
  assumes "0 < q" "0 < x"
  shows "x \<le> ((x + q - 1) div q) * q" "((x + q - 1) div q - 1) * q < x" "0 < (x + q - 1) div q" "(x + q - 1) div q \<le> x"
proof -
  let ?m = "(x + q - 1) div q"
  have e: "?m * q + (x + q - 1) mod q = x + q - 1" by simp
  have b: "0 \<le> (x + q - 1) mod q" "(x + q - 1) mod q < q" using assms(1) by simp_all
  show l: "x \<le> ?m * q" using e b by linarith
  have "(?m - 1) * q = ?m * q - q" by (simp add: left_diff_distrib)
  then show "(?m - 1) * q < x" using e b by linarith
  show p: "0 < ?m" using l assms by (metis less_le_trans zero_less_mult_pos2)
  have "x * 1 \<le> x * q" using assms by (intro mult_left_mono) auto
  then have "x + q - 1 \<le> x * q + q - 1" by (simp only: mult_1_right)
  then have "?m \<le> (x * q + q - 1) div q" using assms(1) by (intro zdiv_mono1) auto
  also have "\<dots> = x + (q - 1) div q" using assms(1) by (metis add_diff_eq div_mult_self4 less_irrefl mult.commute)
  finally show "?m \<le> x" using assms(1) by simp
qed

text \<open>The reading and the request stay far from the 64-bit limits.\<close>

definition modest :: "Bucket \<Rightarrow> int \<Rightarrow> int \<Rightarrow> bool" where
  "modest tb now cnt \<longleftrightarrow> cnt - availableTokens tb < 2 ^ 60 \<and> cnt < 2 ^ 60 \<and> quantum tb < 2 ^ 60 \<and>
     \<bar>(tick_at tb now + (cnt + \<bar>availableTokens tb\<bar>)) * fillInterval tb\<bar> < 2 ^ 60 \<and> fillInterval tb < 2 ^ 60"

lemma take_wait_eq:
  assumes ok: "bucket_ok tb" and cl: "calm tb now" and md: "modest tb now cnt" and c: "0 < cnt"
  defines "a \<equiv> min (capacity tb) (availableTokens tb + (tick_at tb now - latestTick tb) * quantum tb) - cnt"
  defines "endTick \<equiv> tick_at tb now + (- a + quantum tb - 1) div quantum tb"
  shows "bucket_take now cnt infinityDuration tb
    = (tb\<lparr>latestTick := tick_at tb now, availableTokens := a\<rparr>,
       if 0 \<le> a then 0 else startTime tb + endTick * fillInterval tb - now, True)"
    and "- (2 ^ 61) < a" "a < 0 \<Longrightarrow> now < startTime tb + endTick * fillInterval tb"
proof -
  let ?t = "tick_at tb now" and ?f = "fillInterval tb" and ?q = "quantum tb"
  have f: "0 < ?f" "0 < ?q" "0 \<le> ?t" using ok cl by (auto simp: bucket_ok_def calm_def)
  have d: "0 \<le> (?t - latestTick tb) * ?q" using ok cl by (auto simp: bucket_ok_def calm_def)
  then have lo: "- (2 ^ 60) < a" "- a \<le> cnt + \<bar>availableTokens tb\<bar>" and hi: "a < 2 ^ 61"
    using md ok c unfolding a_def modest_def bucket_ok_def by linarith+
  show "- (2 ^ 61) < a" using lo by simp
  have ia: "i64 a = a" using lo hi by (intro i64_small) simp
  show later: "now < startTime tb + endTick * ?f" if "a < 0"
  proof -
    have "?t + 1 \<le> endTick" using div_ceil(3) [of ?q "- a"] that f by (simp add: endTick_def)
    then have "(?t + 1) * ?f \<le> endTick * ?f" using f by (intro mult_right_mono) auto
    moreover have "now - startTime tb < (?t + 1) * ?f"
      using pos_mod_bound [OF f(1), of "now - startTime tb"] div_mult_mod_eq [of "now - startTime tb" ?f]
      unfolding distrib_right mult_1 by linarith
    ultimately show ?thesis by linarith
  qed
  have wait: "i64 (?t + i64 (i64 (- a + ?q) - 1) sdiv ?q) = endTick"
    "i64 (endTick * ?f) = endTick * ?f" "time_Sub (startTime tb + endTick * ?f) now = startTime tb + endTick * ?f - now"
    "startTime tb + endTick * ?f - now \<le> infinityDuration" if neg: "a < 0"
  proof -
    note ce = div_ceil [of ?q "- a"]
    have et: "0 \<le> endTick" "endTick \<le> ?t + (cnt + \<bar>availableTokens tb\<bar>)"
      using ce f neg lo by (auto simp: endTick_def)
    then have "endTick * ?f \<le> (?t + (cnt + \<bar>availableTokens tb\<bar>)) * ?f" using f by (intro mult_right_mono) auto
    moreover have "0 \<le> endTick * ?f" using et f by simp
    ultimately have ef: "0 \<le> endTick * ?f" "endTick * ?f < 2 ^ 60" using md unfolding modest_def by linarith+
    then show "i64 (endTick * ?f) = endTick * ?f" by (intro i64_small) simp
    have "endTick * 1 \<le> endTick * ?f" using et f by (intro mult_left_mono) auto
    then have e60: "endTick < 2 ^ 60" using ef by simp
    have "i64 (- a + ?q) = - a + ?q" "i64 (- a + ?q - 1) = - a + ?q - 1"
      using lo neg md f by (auto simp: modest_def intro!: i64_small)
    moreover have "(- a + ?q - 1) sdiv ?q = (- a + ?q - 1) div ?q" using neg f by (intro sdiv_pos) auto
    ultimately show "i64 (?t + i64 (i64 (- a + ?q) - 1) sdiv ?q) = endTick"
      using et e60 by (simp add: endTick_def)
    have "\<bar>startTime tb + endTick * ?f - now\<bar> < 2 ^ 62" using ef cl by (auto simp: calm_def abs_less_iff)
    then show "time_Sub (startTime tb + endTick * ?f) now = startTime tb + endTick * ?f - now"
      "startTime tb + endTick * ?f - now \<le> infinityDuration"
      by (auto simp: time_Sub_small infinityDuration_def)
  qed
  show "bucket_take now cnt infinityDuration tb = (tb\<lparr>latestTick := ?t, availableTokens := a\<rparr>,
      if 0 \<le> a then 0 else startTime tb + endTick * ?f - now, True)"
    using c ia wait adjust_eq [OF ok cl] currentTick_eq [OF ok cl]
    by (cases "a < 0") (simp_all add: bucket_take_def Let_def a_def [symmetric])
qed

lemma available_eq:
  assumes "bucket_ok tb" "calm tb t"
  shows "snd (available t tb)
    = min (capacity tb) (availableTokens tb + (tick_at tb t - latestTick tb) * quantum tb)"
  by (simp add: available_def Let_def adjust_eq [OF assms])

text \<open>C34 --- the wait is exact. When \<^verbatim>\<open>Take\<close> asks the caller to wait, then after that time the bucket
  is no longer in debt (the tokens are really there), and at every earlier reading of the clock it still
  is; when it asks for no wait the tokens were there.\<close>

theorem Take_wait_exact:
  assumes "bucket_ok tb" "calm tb now" "modest tb now cnt" "0 < cnt" "Take now cnt tb = (tb', d)"
    and "calm tb (now + d)"
  shows "0 \<le> d \<and> 0 \<le> snd (available (now + d) tb') \<and>
    (\<forall>t. now \<le> t \<and> t < now + d \<longrightarrow> snd (available t tb') < 0)"
proof -
  let ?t = "tick_at tb now" and ?f = "fillInterval tb" and ?q = "quantum tb"
  define a where "a = min (capacity tb) (availableTokens tb + (?t - latestTick tb) * ?q) - cnt"
  define m where "m = (- a + ?q - 1) div ?q"
  note tk = take_wait_eq [OF assms(1-4), folded a_def, folded m_def]
  have tb': "tb' = tb\<lparr>latestTick := ?t, availableTokens := a\<rparr>"
    and d: "d = (if 0 \<le> a then 0 else startTime tb + (?t + m) * ?f - now)"
    using assms(5) tk(1) by (auto simp: Take_def split: if_splits)
  have f: "0 < ?f" "0 < ?q" using assms(1) by (auto simp: bucket_ok_def)
  have "a \<le> capacity tb" using assms(4) by (simp add: a_def)
  then have ok': "bucket_ok tb'" using assms(1,2) tk(2) by (simp add: tb' bucket_ok_def calm_def)
  have cl: "calm tb' t" if "now \<le> t" "t \<le> now + d" for t
  proof -
    have "?t \<le> tick_at tb t" "tick_at tb t \<le> tick_at tb (now + d)"
      using that f(1) by (auto intro!: zdiv_mono1)
    then have "tick_at tb t * ?q \<le> tick_at tb (now + d) * ?q" using f by (intro mult_right_mono) auto
    then show ?thesis using assms(2,6) that \<open>?t \<le> tick_at tb t\<close> by (simp add: calm_def tb')
  qed
  show ?thesis
  proof (cases "0 \<le> a")
    case True
    then show ?thesis using d available_eq [OF ok' cl, of now] assms(1) by (simp add: tb' bucket_ok_def)
  next
    case False
    then have pos: "0 < d" using tk(3) d by simp
    have tick: "tick_at tb (now + d) = ?t + m" using False d f by simp
    have ce: "- a \<le> m * ?q" "(m - 1) * ?q < - a" using div_ceil [of ?q "- a"] f False by (auto simp: m_def)
    have "snd (available t tb') < 0" if t: "now \<le> t" "t < now + d" for t
    proof -
      have "t - startTime tb < (?t + m) * ?f" using t d False by simp
      moreover have "tick_at tb t * ?f \<le> t - startTime tb"
        using pos_mod_sign [OF f(1), of "t - startTime tb"] div_mult_mod_eq [of "t - startTime tb" ?f] by linarith
      ultimately have "tick_at tb t * ?f < (?t + m) * ?f" by linarith
      then have "tick_at tb t < ?t + m" using f(1) by simp
      then have "(tick_at tb t - ?t) * ?q \<le> (m - 1) * ?q" using f by (intro mult_right_mono) auto
      then have "a + (tick_at tb t - ?t) * ?q < 0" using ce(2) by linarith
      then show ?thesis using available_eq [OF ok' cl [OF t(1)]] t by (simp add: tb')
    qed
    moreover have "0 \<le> snd (available (now + d) tb')"
      using available_eq [OF ok' cl, of "now + d"] pos ce(1) tick assms(1) by (simp add: tb' bucket_ok_def)
    ultimately show ?thesis using pos by auto
  qed
qed

theorem Take_wait_exact_witness:
  "0 \<le> snd (available 60 (fst (Take 3 11 demo_bucket))) \<and> snd (available 59 (fst (Take 3 11 demo_bucket))) < 0"
proof -
  have t: "Take 3 11 demo_bucket = (demo_bucket\<lparr>availableTokens := - 6\<rparr>, 57)"
    by code_simp
  show ?thesis
    using Take_wait_exact [OF _ _ _ _ t] t
    by (simp add: bucket_ok_def calm_def modest_def demo_bucket_def)
qed

lemma newRateLimiter_defined:
  "newRateLimiter maxq opt now \<noteq> Panic \<longleftrightarrow> 0 < maxq \<and> maxq \<le> 1000000000"
proof -
  have "0 < 1000000000 sdiv maxq \<longleftrightarrow> maxq \<le> 1000000000" if "0 < maxq"
    using that by (simp add: sdiv_pos pos_imp_zdiv_pos_iff)
  then show ?thesis
    by (auto simp: newRateLimiter_def NewBucket_def NewBucketWithQuantumAndClock_def outcome_simps)
qed

text \<open>The limiter of a configured rate. \<^verbatim>\<open>newRateLimiter\<close> succeeds exactly for rates from 1
  to one thousand million per second; zero, negative and larger rates make it panic (a division by zero
  or a fill interval that is not positive).\<close>

theorem newRateLimiter_ok:
  "newRateLimiter maxq opt now \<noteq> Panic \<longleftrightarrow> 0 < maxq \<and> maxq \<le> 1000000000"
  by (rule newRateLimiter_defined)

end
