(* ===== verification/Analysis_Stats.thy ===== *)
theory Analysis_Stats
  imports Vx_Prelude
begin

text \<open>
  Traffic statistics (\<^verbatim>\<open>utils/analysis.go\<close>): a point of running counters per protected resource, and per
  resource and interval a \<^verbatim>\<open>Recently\<close> that a timer fills from the counters. The maps of the analysis are maps on
  keys; a pointer to a point is the point in the map, a \<^verbatim>\<open>Recently\<close> owns its two points. The timer wheel is the
  list of pending timeouts: \<^verbatim>\<open>Schedule\<close> of \<^verbatim>\<open>recentlyTimeout\<close> sets \<open>rc_timeout\<close>, \<^verbatim>\<open>Stop\<close> clears it, and a
  call of \<open>recentlyTimeout\<close> is the timer firing. Counters are \<^verbatim>\<open>int64\<close> and wrap; durations are in
  nanoseconds. Atomic operations make each call one step.
\<close>

record point =
  pt_requests :: int
  pt_rejects :: int
  pt_failure :: int
  pt_successed :: int
  pt_continuousFailure :: int
  pt_costs :: int
  pt_max :: int
  pt_min :: int

definition newPoint :: point where
  "newPoint = \<lparr>pt_requests = 0, pt_rejects = 0, pt_failure = 0, pt_successed = 0, pt_continuousFailure = 0,
     pt_costs = 0, pt_max = 0, pt_min = 0\<rparr>"

text \<open>\<^verbatim>\<open>p.dump(target)\<close>: the copy in the target and the point with its extremes reset. The number of
  consecutive failures is not copied.\<close>

definition point_dump :: "point \<Rightarrow> point \<Rightarrow> point \<times> point" where
  "point_dump p target =
     (p\<lparr>pt_min := 0, pt_max := 0\<rparr>,
      target\<lparr>pt_requests := pt_requests p, pt_rejects := pt_rejects p, pt_failure := pt_failure p,
        pt_successed := pt_successed p, pt_max := pt_max p, pt_min := pt_min p, pt_costs := pt_costs p\<rparr>)"

record Recently =
  rc_key :: uint64
  rc_timeout :: bool
  rc_period :: int
  rc_prev :: point
  rc_current :: point
  rc_dumpPrev :: bool
  rc_qps :: int
  rc_requests :: int
  rc_successed :: int
  rc_failure :: int
  rc_rejects :: int
  rc_max :: int
  rc_min :: int
  rc_avg :: int

definition newRecently :: "uint64 \<Rightarrow> int \<Rightarrow> Recently" where
  "newRecently key period = \<lparr>rc_key = key, rc_timeout = False, rc_period = period, rc_prev = newPoint,
     rc_current = newPoint, rc_dumpPrev = False, rc_qps = 0, rc_requests = 0, rc_successed = 0, rc_failure = 0,
     rc_rejects = 0, rc_max = 0, rc_min = 0, rc_avg = 0\<rparr>"

record Analysis =
  an_points :: "uint64 \<rightharpoonup> point"
  an_recently :: "uint64 \<rightharpoonup> (int \<rightharpoonup> Recently)"

definition NewAnalysis :: Analysis where
  "NewAnalysis = \<lparr>an_points = Map.empty, an_recently = Map.empty\<rparr>"

definition RemoveTarget :: "uint64 \<Rightarrow> Analysis \<Rightarrow> Analysis" where
  "RemoveTarget key a = a\<lparr>an_points := (an_points a)(key := None), an_recently := (an_recently a)(key := None)\<rparr>"

definition AddTarget :: "uint64 \<Rightarrow> int \<Rightarrow> Analysis \<Rightarrow> Analysis" where
  "AddTarget key interval a =
     (if interval = 0 then a
      else let pts = (case an_points a key of None \<Rightarrow> (an_points a)(key \<mapsto> newPoint) | Some _ \<Rightarrow> an_points a);
               vm = (case an_recently a key of None \<Rightarrow> Map.empty | Some m \<Rightarrow> m)
           in case vm interval of
                Some _ \<Rightarrow> a\<lparr>an_points := pts, an_recently := (an_recently a)(key \<mapsto> vm)\<rparr>
              | None \<Rightarrow> a\<lparr>an_points := pts,
                  an_recently := (an_recently a)(key \<mapsto> vm(interval \<mapsto> (newRecently key interval)\<lparr>rc_timeout := True\<rparr>))\<rparr>)"

subsection \<open>Readers\<close>

definition getPoint :: "uint64 \<Rightarrow> int \<Rightarrow> Analysis \<Rightarrow> Recently option" where
  "getPoint key interval a = Option.bind (an_recently a key) (\<lambda>m. m interval)"

definition recently_field :: "(Recently \<Rightarrow> int) \<Rightarrow> uint64 \<Rightarrow> int \<Rightarrow> Analysis \<Rightarrow> int" where
  "recently_field f server interval a = (case getPoint server interval a of None \<Rightarrow> 0 | Some r \<Rightarrow> f r)"

definition GetRecentlyRequestCount :: "uint64 \<Rightarrow> int \<Rightarrow> Analysis \<Rightarrow> int" where
  "GetRecentlyRequestCount = recently_field rc_requests"

definition GetRecentlyMax :: "uint64 \<Rightarrow> int \<Rightarrow> Analysis \<Rightarrow> int" where
  "GetRecentlyMax = recently_field rc_max"

definition GetRecentlyMin :: "uint64 \<Rightarrow> int \<Rightarrow> Analysis \<Rightarrow> int" where
  "GetRecentlyMin = recently_field rc_min"

definition GetRecentlyAvg :: "uint64 \<Rightarrow> int \<Rightarrow> Analysis \<Rightarrow> int" where
  "GetRecentlyAvg = recently_field rc_avg"

definition GetQPS :: "uint64 \<Rightarrow> int \<Rightarrow> Analysis \<Rightarrow> int" where
  "GetQPS = recently_field rc_qps"

definition GetRecentlyRejectCount :: "uint64 \<Rightarrow> int \<Rightarrow> Analysis \<Rightarrow> int" where
  "GetRecentlyRejectCount = recently_field rc_rejects"

definition GetRecentlyRequestSuccessedCount :: "uint64 \<Rightarrow> int \<Rightarrow> Analysis \<Rightarrow> int" where
  "GetRecentlyRequestSuccessedCount = recently_field rc_successed"

definition GetRecentlyRequestFailureCount :: "uint64 \<Rightarrow> int \<Rightarrow> Analysis \<Rightarrow> int" where
  "GetRecentlyRequestFailureCount = recently_field rc_failure"

text \<open>Go's integer division truncates.\<close>

definition GetRecentlyRequestSuccessedRate :: "uint64 \<Rightarrow> int \<Rightarrow> Analysis \<Rightarrow> int" where
  "GetRecentlyRequestSuccessedRate server interval a =
     (case getPoint server interval a of
        None \<Rightarrow> 0
      | Some r \<Rightarrow> let n = i64 (rc_requests r - rc_rejects r)
          in if n \<le> 0 then 100 else i64 (rc_successed r * 100) sdiv n)"

definition GetRecentlyRequestFailureRate :: "uint64 \<Rightarrow> int \<Rightarrow> Analysis \<Rightarrow> int" where
  "GetRecentlyRequestFailureRate server interval a =
     (case getPoint server interval a of
        None \<Rightarrow> 100
      | Some r \<Rightarrow> let n = i64 (rc_requests r - rc_rejects r)
          in if n \<le> 0 then - 1 else i64 (rc_failure r * 100) sdiv n)"

definition GetContinuousFailureCount :: "uint64 \<Rightarrow> Analysis \<Rightarrow> int" where
  "GetContinuousFailureCount key a = (case an_points a key of None \<Rightarrow> 0 | Some p \<Rightarrow> pt_continuousFailure p)"

subsection \<open>Recording\<close>

definition on_point :: "uint64 \<Rightarrow> (point \<Rightarrow> point) \<Rightarrow> Analysis \<Rightarrow> Analysis" where
  "on_point key f a =
     (case an_points a key of None \<Rightarrow> a | Some p \<Rightarrow> a\<lparr>an_points := (an_points a)(key \<mapsto> f p)\<rparr>)"

definition an_Reject :: "uint64 \<Rightarrow> Analysis \<Rightarrow> Analysis" where
  "an_Reject key = on_point key (\<lambda>p. p\<lparr>pt_rejects := i64 (pt_rejects p + 1)\<rparr>)"

definition an_Failure :: "uint64 \<Rightarrow> Analysis \<Rightarrow> Analysis" where
  "an_Failure key = on_point key (\<lambda>p. p\<lparr>pt_failure := i64 (pt_failure p + 1),
     pt_continuousFailure := i64 (pt_continuousFailure p + 1)\<rparr>)"

definition an_Request :: "uint64 \<Rightarrow> Analysis \<Rightarrow> Analysis" where
  "an_Request key = on_point key (\<lambda>p. p\<lparr>pt_requests := i64 (pt_requests p + 1)\<rparr>)"

definition an_Response :: "uint64 \<Rightarrow> int \<Rightarrow> Analysis \<Rightarrow> Analysis" where
  "an_Response key cost = on_point key (\<lambda>p.
     let p = p\<lparr>pt_successed := i64 (pt_successed p + 1), pt_costs := i64 (pt_costs p + cost),
               pt_continuousFailure := 0\<rparr>;
         p = (if pt_max p < cost then p\<lparr>pt_max := cost\<rparr> else p)
     in if pt_min p = 0 \<or> cost < pt_min p then p\<lparr>pt_min := cost\<rparr> else p)"

definition at_least_0 :: "int \<Rightarrow> int" where
  "at_least_0 x = (if x < 0 then 0 else x)"

text \<open>\<^verbatim>\<open>calc\<close>; the division by \<^verbatim>\<open>period/time.Second\<close> panics for a period below one second.\<close>

definition second :: int where
  "second = 1000000000"

definition recently_calc :: "Recently \<Rightarrow> (unit, Recently) outcome" where
  "recently_calc r =
     (let cur = rc_current r; prev = rc_prev r
      in if pt_requests cur = pt_requests prev then Ok r
         else let reqs = at_least_0 (i64 (pt_requests cur - pt_requests prev));
                  succ = at_least_0 (i64 (pt_successed cur - pt_successed prev));
                  fl = at_least_0 (i64 (pt_failure cur - pt_failure prev));
                  rej = at_least_0 (i64 (pt_rejects cur - pt_rejects prev));
                  mx = (if pt_max cur < 0 then 0 else pt_max cur sdiv 1000 sdiv 1000);
                  mn = (if pt_min cur < 0 then 0 else pt_min cur sdiv 1000 sdiv 1000);
                  costs = i64 (pt_costs cur - pt_costs prev);
                  avg = (if reqs = 0 then 0 else costs sdiv 1000 sdiv 1000 sdiv reqs);
                  secs = rc_period r sdiv second
              in if secs = 0 then Panic
                 else Ok (r\<lparr>rc_requests := reqs, rc_successed := succ, rc_failure := fl, rc_rejects := rej,
                        rc_max := mx, rc_min := mn, rc_avg := avg,
                        rc_qps := (if reqs < succ then reqs sdiv secs else succ sdiv secs)\<rparr>))"

definition recently_record :: "point \<Rightarrow> Recently \<Rightarrow> (unit, point \<times> Recently) outcome" where
  "recently_record p r =
     (if \<not> rc_dumpPrev r
      then let (p', cur) = point_dump p (rc_current r)
           in obind (recently_calc (r\<lparr>rc_current := cur\<rparr>)) (\<lambda>r. Ok (p', r\<lparr>rc_dumpPrev := True\<rparr>))
      else let (p', prev) = point_dump p (rc_prev r)
           in Ok (p', r\<lparr>rc_prev := prev, rc_dumpPrev := False\<rparr>))"

text \<open>The timer of a resource and an interval fires; it is set again as long as the resource is known.\<close>

definition recentlyTimeout :: "uint64 \<Rightarrow> int \<Rightarrow> Analysis \<Rightarrow> (unit, Analysis) outcome" where
  "recentlyTimeout key interval a =
     (case getPoint key interval a of
        None \<Rightarrow> Ok a
      | Some r \<Rightarrow>
          (case an_points a (rc_key r) of
             None \<Rightarrow> Ok a
           | Some p \<Rightarrow>
               obind (recently_record p r) (\<lambda>(p', r').
                 Ok (a\<lparr>an_points := (an_points a)(rc_key r \<mapsto> p'),
                       an_recently := (an_recently a)(key := map_option (\<lambda>m. m(interval \<mapsto> r'\<lparr>rc_timeout := True\<rparr>))
                         (an_recently a key))\<rparr>))))"

subsection \<open>One window of traffic\<close>

datatype an_event = EvRequest | EvReject | EvFailure | EvResponse int

fun apply_ev :: "uint64 \<Rightarrow> an_event \<Rightarrow> Analysis \<Rightarrow> Analysis" where
  "apply_ev key EvRequest a = an_Request key a"
| "apply_ev key EvReject a = an_Reject key a"
| "apply_ev key EvFailure a = an_Failure key a"
| "apply_ev key (EvResponse cost) a = an_Response key cost a"

definition n_requests :: "an_event list \<Rightarrow> int" where
  "n_requests evs = int (length (filter (\<lambda>e. e = EvRequest) evs))"

definition n_rejects :: "an_event list \<Rightarrow> int" where
  "n_rejects evs = int (length (filter (\<lambda>e. e = EvReject) evs))"

definition n_failures :: "an_event list \<Rightarrow> int" where
  "n_failures evs = int (length (filter (\<lambda>e. e = EvFailure) evs))"

definition n_responses :: "an_event list \<Rightarrow> int" where
  "n_responses evs = int (length (filter (\<lambda>e. case e of EvResponse _ \<Rightarrow> True | _ \<Rightarrow> False) evs))"

lemmas n_defs = n_requests_def n_rejects_def n_failures_def n_responses_def

text \<open>Counters that cannot overflow within the next \<open>n\<close> events.\<close>

definition counters_room :: "nat \<Rightarrow> point \<Rightarrow> bool" where
  "counters_room n p \<longleftrightarrow> (\<forall>x \<in> {pt_requests p, pt_rejects p, pt_failure p, pt_successed p}. 0 \<le> x \<and> x + int n < 2 ^ 63)"

lemma apply_ev_point:
  assumes "an_points a key = Some p" "counters_room (Suc n) p"
  shows "\<exists>p'. an_points (apply_ev key e a) key = Some p' \<and> an_recently (apply_ev key e a) = an_recently a \<and>
    counters_room n p' \<and> pt_requests p' = pt_requests p + n_requests [e] \<and> pt_rejects p' = pt_rejects p + n_rejects [e] \<and>
    pt_failure p' = pt_failure p + n_failures [e] \<and> pt_successed p' = pt_successed p + n_responses [e]"
  using assms
  by (cases e) (auto simp: an_Request_def an_Reject_def an_Failure_def an_Response_def on_point_def n_defs
      counters_room_def Let_def)

lemma apply_evs_point:
  assumes "an_points a key = Some p" "counters_room (length evs) p"
  shows "\<exists>p'. an_points (fold (apply_ev key) evs a) key = Some p' \<and>
    an_recently (fold (apply_ev key) evs a) = an_recently a \<and>
    pt_requests p' = pt_requests p + n_requests evs \<and> pt_rejects p' = pt_rejects p + n_rejects evs \<and>
    pt_failure p' = pt_failure p + n_failures evs \<and> pt_successed p' = pt_successed p + n_responses evs"
  using assms
proof (induction evs arbitrary: a p)
  case (Cons e evs)
  obtain p1 where p1: "an_points (apply_ev key e a) key = Some p1" "an_recently (apply_ev key e a) = an_recently a"
    "counters_room (length evs) p1" "pt_requests p1 = pt_requests p + n_requests [e]"
    "pt_rejects p1 = pt_rejects p + n_rejects [e]" "pt_failure p1 = pt_failure p + n_failures [e]"
    "pt_successed p1 = pt_successed p + n_responses [e]"
    using apply_ev_point [OF Cons.prems(1), of "length evs" e] Cons.prems(2) by auto
  have split: "n_requests (e # evs) = n_requests [e] + n_requests evs" "n_rejects (e # evs) = n_rejects [e] + n_rejects evs"
    "n_failures (e # evs) = n_failures [e] + n_failures evs" "n_responses (e # evs) = n_responses [e] + n_responses evs"
    by (simp_all add: n_defs)
  show ?case using Cons.IH [OF p1(1,3)] p1 split by auto
qed (simp add: n_defs)

definition same_stats :: "Recently \<Rightarrow> Recently \<Rightarrow> bool" where
  "same_stats r r' \<longleftrightarrow> rc_requests r' = rc_requests r \<and> rc_rejects r' = rc_rejects r \<and> rc_failure r' = rc_failure r \<and>
     rc_successed r' = rc_successed r \<and> rc_qps r' = rc_qps r \<and> rc_max r' = rc_max r \<and> rc_min r' = rc_min r \<and> rc_avg r' = rc_avg r"

lemma sdiv_second: "second \<le> x \<Longrightarrow> x sdiv second \<noteq> 0"
  by (simp add: second_def signed_divide_int_def sgn_if)

lemma n_nonneg: "0 \<le> n_requests evs" "0 \<le> n_rejects evs" "0 \<le> n_failures evs" "0 \<le> n_responses evs"
  by (simp_all add: n_defs)

lemma n_le: "n_requests evs \<le> int (length evs)" "n_rejects evs \<le> int (length evs)"
  "n_failures evs \<le> int (length evs)" "n_responses evs \<le> int (length evs)"
  by (simp_all add: n_defs)

text \<open>C25 --- the statistics of a window: when the timer has taken the first reading of a window and fires again
  after the events \<open>evs\<close>, it does not panic, and the reported numbers of requests, rejects, failures and
  successes are exactly those of \<open>evs\<close>; a window without any request leaves the previous numbers in
  place. The interval is at least one second and the counters have room for the events.\<close>

theorem window_exact:
  assumes r: "getPoint key iv a = Some r" "rc_key r = key" "rc_dumpPrev r" "second \<le> rc_period r"
    and p: "an_points a key = Some p" "counters_room (length evs) p"
  shows "\<exists>a1 a2 r2. recentlyTimeout key iv a = Ok a1 \<and>
    recentlyTimeout key iv (fold (apply_ev key) evs a1) = Ok a2 \<and> getPoint key iv a2 = Some r2 \<and>
    (if n_requests evs = 0 then same_stats r r2
     else rc_requests r2 = n_requests evs \<and> rc_rejects r2 = n_rejects evs \<and>
       rc_failure r2 = n_failures evs \<and> rc_successed r2 = n_responses evs)"
proof -
  obtain m where m: "an_recently a key = Some m" "m iv = Some r" using r(1) by (auto simp: getPoint_def bind_eq_Some_conv)
  define p1 where "p1 = p\<lparr>pt_min := 0, pt_max := 0\<rparr>"
  define r1 where "r1 = r\<lparr>rc_prev := snd (point_dump p (rc_prev r)), rc_dumpPrev := False, rc_timeout := True\<rparr>"
  define a1 where "a1 = a\<lparr>an_points := (an_points a)(key \<mapsto> p1), an_recently := (an_recently a)(key \<mapsto> m(iv \<mapsto> r1))\<rparr>"
  have t1: "recentlyTimeout key iv a = Ok a1"
    using r p m by (simp add: recentlyTimeout_def recently_record_def point_dump_def a1_def p1_def r1_def)
  have "an_points a1 key = Some p1" "counters_room (length evs) p1" using p by (simp_all add: a1_def p1_def counters_room_def)
  then obtain p2 where p2: "an_points (fold (apply_ev key) evs a1) key = Some p2"
    "an_recently (fold (apply_ev key) evs a1) = an_recently a1"
    "pt_requests p2 = pt_requests p1 + n_requests evs" "pt_rejects p2 = pt_rejects p1 + n_rejects evs"
    "pt_failure p2 = pt_failure p1 + n_failures evs" "pt_successed p2 = pt_successed p1 + n_responses evs"
    using apply_evs_point by blast
  have g: "getPoint key iv (fold (apply_ev key) evs a1) = Some r1"
    using p2(2) by (simp add: getPoint_def a1_def)
  define r1' where "r1' = r1\<lparr>rc_current := snd (point_dump p2 (rc_current r1))\<rparr>"
  have flags: "rc_key r1 = key" "\<not> rc_dumpPrev r1" "rc_period r1' = rc_period r" "same_stats r r1'"
    using r by (simp_all add: r1_def r1'_def same_stats_def)
  have diffs: "i64 (pt_requests (rc_current r1') - pt_requests (rc_prev r1')) = n_requests evs"
    "i64 (pt_rejects (rc_current r1') - pt_rejects (rc_prev r1')) = n_rejects evs"
    "i64 (pt_failure (rc_current r1') - pt_failure (rc_prev r1')) = n_failures evs"
    "i64 (pt_successed (rc_current r1') - pt_successed (rc_prev r1')) = n_responses evs"
    "pt_requests (rc_current r1') - pt_requests (rc_prev r1') = n_requests evs"
    using p2 p(2) n_nonneg [of evs] n_le [of evs]
    by (auto simp: r1'_def r1_def point_dump_def p1_def counters_room_def)
  have "\<exists>r2. recently_calc r1' = Ok r2 \<and> (if n_requests evs = 0 then same_stats r r2
     else rc_requests r2 = n_requests evs \<and> rc_rejects r2 = n_rejects evs \<and>
       rc_failure r2 = n_failures evs \<and> rc_successed r2 = n_responses evs)"
    using diffs flags n_nonneg [of evs] sdiv_second [OF r(4)]
    by (simp add: recently_calc_def Let_def at_least_0_def)
  then obtain r2 where r2: "recently_calc r1' = Ok r2" "if n_requests evs = 0 then same_stats r r2
     else rc_requests r2 = n_requests evs \<and> rc_rejects r2 = n_rejects evs \<and>
       rc_failure r2 = n_failures evs \<and> rc_successed r2 = n_responses evs" by blast
  let ?r3 = "r2\<lparr>rc_dumpPrev := True, rc_timeout := True\<rparr>"
  have "\<exists>a2. recentlyTimeout key iv (fold (apply_ev key) evs a1) = Ok a2 \<and> getPoint key iv a2 = Some ?r3"
    using g flags p2 r2(1)
    by (simp add: recentlyTimeout_def recently_record_def point_dump_def r1'_def getPoint_def a1_def)
  then show ?thesis using t1 r2(2) by (auto simp: same_stats_def split: if_splits)
qed

text \<open>A resource watched every second, after the first reading.\<close>

definition demo_analysis :: Analysis where
  "demo_analysis = (case recentlyTimeout 1 second (AddTarget 1 second NewAnalysis) of Ok a \<Rightarrow> a | _ \<Rightarrow> NewAnalysis)"

definition demo_recently :: Recently where
  "demo_recently = (newRecently 1 second)\<lparr>rc_dumpPrev := True, rc_timeout := True\<rparr>"

lemma demo_analysis_simps:
  "getPoint 1 second demo_analysis = Some demo_recently" "an_points demo_analysis 1 = Some newPoint"
  by (simp_all add: demo_analysis_def demo_recently_def recentlyTimeout_def AddTarget_def NewAnalysis_def getPoint_def
      recently_record_def point_dump_def newRecently_def recently_calc_def newPoint_def second_def Let_def)

theorem window_exact_witness:
  "\<exists>a1 a2 r2. recentlyTimeout 1 second demo_analysis = Ok a1 \<and>
     recentlyTimeout 1 second (fold (apply_ev 1) [EvRequest, EvFailure, EvRequest, EvReject] a1) = Ok a2 \<and>
     getPoint 1 second a2 = Some r2 \<and> rc_requests r2 = 2 \<and> rc_rejects r2 = 1 \<and> rc_failure r2 = 1 \<and> rc_successed r2 = 0"
  using window_exact [OF demo_analysis_simps(1), of newPoint "[EvRequest, EvFailure, EvRequest, EvReject]"]
  by (simp add: demo_analysis_simps demo_recently_def newRecently_def second_def counters_room_def newPoint_def n_defs)

text \<open>The statistics timer panics exactly when traffic has been seen since the last reading and the
  interval is shorter than one second.\<close>

theorem calc_panics_iff:
  "recently_calc r = Panic \<longleftrightarrow>
     pt_requests (rc_current r) \<noteq> pt_requests (rc_prev r) \<and> \<bar>rc_period r\<bar> < second"
proof -
  have "rc_period r sdiv second = 0 \<longleftrightarrow> \<bar>rc_period r\<bar> < second"
    by (auto simp: second_def signed_divide_int_def sgn_if div_eq_0_iff split: if_splits)
  then show ?thesis by (auto simp: recently_calc_def Let_def)
qed

lemma sdiv_ge_iff:
  fixes x n t :: int
  assumes "0 \<le> x" "0 < n"
  shows "t \<le> x sdiv n \<longleftrightarrow> t * n \<le> x"
proof -
  have "x sdiv n = x div n" using assms by (simp add: signed_divide_int_def sgn_if)
  moreover have "t \<le> x div n \<longleftrightarrow> t * n \<le> x"
  proof
    assume "t \<le> x div n"
    then have "t * n \<le> (x div n) * n" using assms(2) by (simp add: mult_right_mono)
    also have "\<dots> \<le> x" using assms(2) by (simp add: minus_mod_eq_div_mult [symmetric])
    finally show "t * n \<le> x" .
  next
    assume "t * n \<le> x"
    from zdiv_mono1 [OF this assms(2)] show "t \<le> x div n" using assms(2) by simp
  qed
  ultimately show ?thesis by simp
qed

text \<open>Both rates compare as fractions.\<close>

lemma failure_rate_ge:
  assumes "getPoint key iv a = Some r" "0 \<le> rc_failure r" "rc_failure r < 2 ^ 56"
    and "rc_rejects r < rc_requests r" "0 \<le> rc_rejects r" "rc_requests r < 2 ^ 63"
  shows "t \<le> GetRecentlyRequestFailureRate key iv a \<longleftrightarrow> t * (rc_requests r - rc_rejects r) \<le> 100 * rc_failure r"
proof -
  have "i64 (rc_requests r - rc_rejects r) = rc_requests r - rc_rejects r" "i64 (rc_failure r * 100) = rc_failure r * 100"
    using assms by (simp_all add: i64_small)
  then show ?thesis using assms by (simp add: GetRecentlyRequestFailureRate_def sdiv_ge_iff mult.commute)
qed

lemma success_rate_ge:
  assumes "getPoint key iv a = Some r" "0 \<le> rc_successed r" "rc_successed r < 2 ^ 56"
    and "rc_rejects r < rc_requests r" "0 \<le> rc_rejects r" "rc_requests r < 2 ^ 63"
  shows "t \<le> GetRecentlyRequestSuccessedRate key iv a \<longleftrightarrow> t * (rc_requests r - rc_rejects r) \<le> 100 * rc_successed r"
proof -
  have "i64 (rc_requests r - rc_rejects r) = rc_requests r - rc_rejects r" "i64 (rc_successed r * 100) = rc_successed r * 100"
    using assms by (simp_all add: i64_small)
  then show ?thesis using assms by (simp add: GetRecentlyRequestSuccessedRate_def sdiv_ge_iff mult.commute)
qed

end
