(* ===== verification/Circuit.thy ===== *)
theory Circuit
  imports Meta_Model Rate_Barrier Token_Bucket Analysis_Stats
begin

text \<open>
  Protected resources and the circuit breaker: the part of a server or API runtime that carries a circuit
  (\<^verbatim>\<open>abstractSupportProtectedRuntime\<close> of \<^verbatim>\<open>proxy/dispatcher_runtime.go\<close>), the choice between the circuit of the
  API and that of the server (\<^verbatim>\<open>proxyContext\<close> of \<^verbatim>\<open>proxy/filters.go\<close>) and the filter
  (\<^verbatim>\<open>proxy/filter_circuit_breake.go\<close>).

  The name of a state is the code's: an \<open>Open\<close> circuit lets traffic pass, a \<open>Close\<close>d one rejects it.
  \<open>pr_half_timers\<close> counts the timeouts of \<^verbatim>\<open>circuitToHalf\<close> that are pending in the timer wheel.
\<close>

record protectedRuntime =
  pr_id :: uint64
  pr_activeQPS :: int
  pr_limiter :: "rateLimiter option"
  pr_circuit :: CircuitStatus
  pr_cb :: "CircuitBreaker option"
  pr_barrier :: "RateBarrier option"
  pr_half_timers :: nat

definition getCircuitStatus :: "'a protectedRuntime_scheme \<Rightarrow> CircuitStatus" where
  "getCircuitStatus s = pr_circuit s"

definition circuitToClose :: "'a protectedRuntime_scheme \<Rightarrow> 'a protectedRuntime_scheme" where
  "circuitToClose s =
     (if pr_cb s = None \<or> pr_circuit s = Close then s
      else s\<lparr>pr_circuit := Close, pr_half_timers := Suc (pr_half_timers s)\<rparr>)"

definition circuitToOpen :: "'a protectedRuntime_scheme \<Rightarrow> 'a protectedRuntime_scheme" where
  "circuitToOpen s =
     (if pr_cb s = None \<or> pr_circuit s = Open \<or> pr_circuit s \<noteq> Half then s else s\<lparr>pr_circuit := Open\<rparr>)"

definition circuitToHalf :: "'a protectedRuntime_scheme \<Rightarrow> 'a protectedRuntime_scheme" where
  "circuitToHalf s = (if pr_cb s \<noteq> None then s\<lparr>pr_circuit := Half\<rparr> else s)"

text \<open>A pending timeout fires.\<close>

definition half_timer_fires :: "'a protectedRuntime_scheme \<Rightarrow> 'a protectedRuntime_scheme" where
  "half_timer_fires s = circuitToHalf (s\<lparr>pr_half_timers := pr_half_timers s - 1\<rparr>)"

subsection \<open>The context of a request\<close>

text \<open>What the filter sees of a request: the runtimes of the matched API and of the chosen server, and the
  shared statistics.\<close>

record cbState =
  cs_api :: protectedRuntime
  cs_dest :: protectedRuntime
  cs_analysis :: Analysis

definition circuitResourceID :: "cbState \<Rightarrow> uint64" where
  "circuitResourceID c = (if pr_cb (cs_api c) \<noteq> None then pr_id (cs_api c) else pr_id (cs_dest c))"

definition circuitBreaker :: "cbState \<Rightarrow> CircuitBreaker option \<times> RateBarrier option" where
  "circuitBreaker c =
     (if pr_cb (cs_api c) \<noteq> None then (pr_cb (cs_api c), pr_barrier (cs_api c))
      else (pr_cb (cs_dest c), pr_barrier (cs_dest c)))"

text \<open>The barrier is used through its pointer.\<close>

definition set_barrier :: "RateBarrier \<Rightarrow> cbState \<Rightarrow> cbState" where
  "set_barrier b c =
     (if pr_cb (cs_api c) \<noteq> None then c\<lparr>cs_api := (cs_api c)\<lparr>pr_barrier := Some b\<rparr>\<rparr>
      else c\<lparr>cs_dest := (cs_dest c)\<lparr>pr_barrier := Some b\<rparr>\<rparr>)"

definition circuitStatus :: "cbState \<Rightarrow> CircuitStatus" where
  "circuitStatus c =
     (if pr_cb (cs_api c) \<noteq> None then getCircuitStatus (cs_api c) else getCircuitStatus (cs_dest c))"

definition changeCircuitStatusToClose :: "cbState \<Rightarrow> cbState" where
  "changeCircuitStatusToClose c =
     (let c = (if pr_cb (cs_api c) \<noteq> None then c\<lparr>cs_api := circuitToClose (cs_api c)\<rparr> else c)
      in c\<lparr>cs_dest := circuitToClose (cs_dest c)\<rparr>)"

definition changeCircuitStatusToOpen :: "cbState \<Rightarrow> cbState" where
  "changeCircuitStatusToOpen c =
     (let c = (if pr_cb (cs_api c) \<noteq> None then c\<lparr>cs_api := circuitToOpen (cs_api c)\<rparr> else c)
      in c\<lparr>cs_dest := circuitToOpen (cs_dest c)\<rparr>)"

definition rateLimiter_of :: "cbState \<Rightarrow> rateLimiter option" where
  "rateLimiter_of c = (if pr_limiter (cs_api c) \<noteq> None then pr_limiter (cs_api c) else pr_limiter (cs_dest c))"

subsection \<open>The filter\<close>

datatype cb_error = ErrCircuitClose | ErrCircuitHalfLimited

definition cb_reject :: "cbState \<Rightarrow> cbState" where
  "cb_reject c = c\<lparr>cs_analysis := an_Reject (circuitResourceID c) (cs_analysis c)\<rparr>"

text \<open>\<^verbatim>\<open>Pre\<close>: the new state, the status code and the error.\<close>

definition cb_Pre :: "cbState \<Rightarrow> (unit, cbState \<times> int \<times> cb_error option) outcome" where
  "cb_Pre c =
     (case circuitBreaker c of
        (None, _) \<Rightarrow> Ok (c, 200, None)
      | (Some cb, barrier) \<Rightarrow>
          (case circuitStatus c of
             Open \<Rightarrow>
               if cb_FailureRateToClose cb
                    \<le> GetRecentlyRequestFailureRate (circuitResourceID c) (cb_RateCheckPeriod cb) (cs_analysis c)
               then Ok (cb_reject (changeCircuitStatusToClose c), 503, Some ErrCircuitClose)
               else Ok (c, 200, None)
           | Half \<Rightarrow>
               (case barrier of
                  None \<Rightarrow> Panic
                | Some b \<Rightarrow> obind (Allow b) (\<lambda>(b', ok).
                    if ok then Ok (set_barrier b' c, 200, None)
                    else Ok (cb_reject (set_barrier b' c), 503, Some ErrCircuitHalfLimited)))
           | Close \<Rightarrow> Ok (cb_reject c, 503, Some ErrCircuitClose)))"

definition cb_Post :: "cbState \<Rightarrow> cbState" where
  "cb_Post c =
     (case circuitBreaker c of
        (None, _) \<Rightarrow> c
      | (Some cb, _) \<Rightarrow>
          if circuitStatus c = Half \<and> cb_SucceedRateToOpen cb
               \<le> GetRecentlyRequestSuccessedRate (circuitResourceID c) (cb_RateCheckPeriod cb) (cs_analysis c)
          then changeCircuitStatusToOpen c else c)"

text \<open>The error of the failed call is its message; a call the user canceled is ignored.\<close>

definition cb_PostErr :: "string option \<Rightarrow> cbState \<Rightarrow> cbState" where
  "cb_PostErr err c =
     (if (case err of None \<Rightarrow> False | Some e \<Rightarrow> take 16 e = ''request canceled'') then c
      else case circuitBreaker c of
        (None, _) \<Rightarrow> c
      | (Some cb, _) \<Rightarrow>
          if circuitStatus c = Half \<and> cb_FailureRateToClose cb
               \<le> GetRecentlyRequestFailureRate (circuitResourceID c) (cb_RateCheckPeriod cb) (cs_analysis c)
          then changeCircuitStatusToClose c else c)"

text \<open>The analysis filter, with the latency of the call.\<close>

definition af_Pre :: "cbState \<Rightarrow> cbState" where
  "af_Pre c = c\<lparr>cs_analysis := an_Request (circuitResourceID c) (cs_analysis c)\<rparr>"

definition af_Post :: "int \<Rightarrow> cbState \<Rightarrow> cbState" where
  "af_Post cost c = c\<lparr>cs_analysis := an_Response (circuitResourceID c) cost (cs_analysis c)\<rparr>"

definition af_PostErr :: "cbState \<Rightarrow> cbState" where
  "af_PostErr c = c\<lparr>cs_analysis := an_Failure (circuitResourceID c) (cs_analysis c)\<rparr>"

subsection \<open>The state machine\<close>

text \<open>The steps that touch the circuits of one API and one server: the filters of a request in any
  interleaving, the timers, and a change of the statistics by other requests or timers.\<close>

inductive cb_step :: "cbState \<Rightarrow> cbState \<Rightarrow> bool" where
  pre: "cb_Pre c = Ok (c', code, err) \<Longrightarrow> cb_step c c'"
| post: "cb_step c (cb_Post c)"
| post_err: "cb_step c (cb_PostErr err c)"
| half_api: "0 < pr_half_timers (cs_api c) \<Longrightarrow> cb_step c (c\<lparr>cs_api := half_timer_fires (cs_api c)\<rparr>)"
| half_dest: "0 < pr_half_timers (cs_dest c) \<Longrightarrow> cb_step c (c\<lparr>cs_dest := half_timer_fires (cs_dest c)\<rparr>)"
| stats: "cb_step c (c\<lparr>cs_analysis := a\<rparr>)"

inductive_cases cb_stepE: "cb_step c c'"

text \<open>The transitions of one circuit: only a pending timer leads to half, closing sets a timer, and opening
  is possible from half only.\<close>

definition circuit_move :: "protectedRuntime \<Rightarrow> protectedRuntime \<Rightarrow> bool" where
  "circuit_move s t \<longleftrightarrow>
     pr_circuit t = pr_circuit s \<or>
     pr_circuit t = Half \<and> Suc (pr_half_timers t) = pr_half_timers s \<or>
     pr_circuit s \<noteq> Close \<and> pr_circuit t = Close \<and> pr_half_timers t = Suc (pr_half_timers s) \<or>
     pr_circuit s = Half \<and> pr_circuit t = Open \<and> pr_half_timers t = pr_half_timers s"

definition circuit_ok :: "protectedRuntime \<Rightarrow> bool" where
  "circuit_ok s \<longleftrightarrow>
     (pr_cb s = None \<longrightarrow> pr_circuit s = Open) \<and> (pr_circuit s = Close \<longrightarrow> 0 < pr_half_timers s)"

lemma circuit_ops:
  "circuit_ok s \<Longrightarrow> circuit_ok (circuitToClose s) \<and> circuit_move s (circuitToClose s)"
  "circuit_ok s \<Longrightarrow> circuit_ok (circuitToOpen s) \<and> circuit_move s (circuitToOpen s)"
  "circuit_ok s \<Longrightarrow> 0 < pr_half_timers s \<Longrightarrow> circuit_ok (half_timer_fires s) \<and> circuit_move s (half_timer_fires s)"
  "circuit_move s s"
  by (auto simp: circuit_ok_def circuit_move_def circuitToClose_def circuitToOpen_def half_timer_fires_def circuitToHalf_def)

definition cb_inv :: "cbState \<Rightarrow> bool" where
  "cb_inv c \<longleftrightarrow> circuit_ok (cs_api c) \<and> circuit_ok (cs_dest c)"

definition cb_moves :: "cbState \<Rightarrow> cbState \<Rightarrow> bool" where
  "cb_moves c c' \<longleftrightarrow> circuit_move (cs_api c) (cs_api c') \<and> circuit_move (cs_dest c) (cs_dest c')"

lemma cb_change_ok:
  "cb_inv c \<Longrightarrow> cb_inv (changeCircuitStatusToClose c) \<and> cb_moves c (changeCircuitStatusToClose c)"
  "cb_inv c \<Longrightarrow> cb_inv (changeCircuitStatusToOpen c) \<and> cb_moves c (changeCircuitStatusToOpen c)"
  using circuit_ops
  by (auto simp: cb_inv_def cb_moves_def changeCircuitStatusToClose_def changeCircuitStatusToOpen_def Let_def)

lemma cb_frame:
  "cb_inv (cb_reject c) = cb_inv c" "cb_moves c' (cb_reject c) = cb_moves c' c"
  "cb_inv (set_barrier b c) = cb_inv c" "cb_moves c' (set_barrier b c) = cb_moves c' c" "cb_moves c c"
  by (auto simp: cb_inv_def cb_moves_def cb_reject_def set_barrier_def circuit_ok_def circuit_move_def)

lemma cb_step_ok: "cb_step c c' \<Longrightarrow> cb_inv c \<Longrightarrow> cb_inv c' \<and> cb_moves c c'"
proof (induction rule: cb_step.induct)
  case (pre c c' code err)
  then show ?case
    using cb_change_ok [of c]
    by (auto simp: cb_Pre_def cb_frame outcome_simps split: prod.splits option.splits CircuitStatus.splits if_splits)
next
  case (post c)
  then show ?case using cb_change_ok [of c] by (auto simp: cb_Post_def cb_frame split: prod.splits option.splits)
next
  case (post_err c err)
  then show ?case using cb_change_ok [of c] by (auto simp: cb_PostErr_def cb_frame split: prod.splits option.splits)
next
  case (half_api c)
  then show ?case using circuit_ops(3) [of "cs_api c"] by (auto simp: cb_inv_def cb_moves_def circuit_ops(4))
next
  case (half_dest c)
  then show ?case using circuit_ops(3) [of "cs_dest c"] by (auto simp: cb_inv_def cb_moves_def circuit_ops(4))
next
  case (stats c a)
  then show ?case by (simp add: cb_inv_def cb_moves_def circuit_ops(4))
qed

lemma cb_reach: "cb_step\<^sup>*\<^sup>* c c' \<Longrightarrow> cb_inv c \<Longrightarrow> cb_inv c'"
  by (induction rule: rtranclp_induct) (auto dest: cb_step_ok)


definition demo_cb :: CircuitBreaker where
  "demo_cb = \<lparr>cb_CloseTimeout = 5 * second, cb_HalfTrafficRate = 50, cb_RateCheckPeriod = second,
     cb_FailureRateToClose = 20, cb_SucceedRateToOpen = 80\<rparr>"

definition demo_runtime :: "uint64 \<Rightarrow> protectedRuntime" where
  "demo_runtime i = \<lparr>pr_id = i, pr_activeQPS = 1, pr_limiter = None, pr_circuit = Open, pr_cb = Some demo_cb,
     pr_barrier = None, pr_half_timers = 0\<rparr>"

text \<open>An API and a server with a breaker each; of the API's ten last requests two failed.\<close>

definition demo_stats :: Analysis where
  "demo_stats = \<lparr>an_points = [1 \<mapsto> newPoint], an_recently = [1 \<mapsto> [second \<mapsto>
     (newRecently 1 second)\<lparr>rc_requests := 10, rc_failure := 2\<rparr>]]\<rparr>"

definition demo_cbState :: cbState where
  "demo_cbState = \<lparr>cs_api = demo_runtime 1, cs_dest = demo_runtime 2, cs_analysis = demo_stats\<rparr>"

definition demo_tripped :: cbState where
  "demo_tripped = (case cb_Pre demo_cbState of Ok (c, _) \<Rightarrow> c | _ \<Rightarrow> demo_cbState)"

lemma demo_rate: "GetRecentlyRequestFailureRate 1 second demo_stats = 20"
  by (simp add: GetRecentlyRequestFailureRate_def getPoint_def demo_stats_def newRecently_def signed_divide_int_def)

lemma demo_trip: "cb_Pre demo_cbState = Ok (demo_tripped, 503, Some ErrCircuitClose)"
  "pr_circuit (cs_dest demo_tripped) = Close" "pr_circuit (cs_api demo_tripped) = Close"
proof -
  have "cb_Pre demo_cbState = Ok (cb_reject (changeCircuitStatusToClose demo_cbState), 503, Some ErrCircuitClose)"
    using demo_rate by (simp add: cb_Pre_def demo_cbState_def demo_runtime_def demo_cb_def circuitBreaker_def
        circuitStatus_def getCircuitStatus_def circuitResourceID_def)
  moreover from this have t: "demo_tripped = cb_reject (changeCircuitStatusToClose demo_cbState)"
    by (simp add: demo_tripped_def)
  ultimately show "cb_Pre demo_cbState = Ok (demo_tripped, 503, Some ErrCircuitClose)" by simp
  show "pr_circuit (cs_dest demo_tripped) = Close" "pr_circuit (cs_api demo_tripped) = Close"
    unfolding t
    by (simp_all add: cb_reject_def changeCircuitStatusToClose_def circuitToClose_def demo_cbState_def demo_runtime_def)
qed




text \<open>While a circuit is closed every request is rejected and no circuit changes.\<close>

lemma closed_rejects:
  assumes "circuitBreaker c = (Some cb, bar)" "circuitStatus c = Close"
  shows "\<exists>c'. cb_Pre c = Ok (c', 503, Some ErrCircuitClose) \<and> cs_api c' = cs_api c \<and> cs_dest c' = cs_dest c"
  using assms by (simp add: cb_Pre_def cb_reject_def)

end
