(* ===== verification/Route_Parser.thy ===== *)
theory Route_Parser
  imports Scan
begin

text \<open>
  The parser of URL patterns and of request paths (\<^verbatim>\<open>route/const.go\<close>, \<^verbatim>\<open>route/parser.go\<close>).
  A pattern is \<^verbatim>\<open>/conststring/(number|string|enum:m1|m2|m3)[:argname]/...\<close>; the same parser
  reads the path of every request.
\<close>

subsection \<open>Tokens and nodes\<close>

datatype route_token =
  tokenEOF | tokenUnknown | tokenSlash | tokenLParen | tokenRParen | tokenVertical | tokenColon

datatype nodeType = numberType | enumType | constType | stringType | slashType

fun nt_val :: "nodeType \<Rightarrow> int" where
  "nt_val slashType = 5"
| "nt_val stringType = 4"
| "nt_val constType = 3"
| "nt_val enumType = 2"
| "nt_val numberType = 1"

instantiation nodeType :: linorder
begin

definition less_eq_nodeType :: "nodeType \<Rightarrow> nodeType \<Rightarrow> bool" where
  "less_eq_nodeType a b \<longleftrightarrow> nt_val a \<le> nt_val b"

definition less_nodeType :: "nodeType \<Rightarrow> nodeType \<Rightarrow> bool" where
  "less_nodeType a b \<longleftrightarrow> nt_val a < nt_val b"

instance
proof
  fix a b :: nodeType
  show "a \<le> b \<Longrightarrow> b \<le> a \<Longrightarrow> a = b"
    by (cases a; cases b) (simp_all add: less_eq_nodeType_def)
qed (auto simp: less_eq_nodeType_def less_nodeType_def)

end

record node =
  nt :: nodeType
  nvalue :: string
  enums :: "string list"
  argName :: string
  hasArg :: bool

definition mk_node :: "nodeType \<Rightarrow> string \<Rightarrow> node" where
  "mk_node t v = \<lparr>nt = t, nvalue = v, enums = [], argName = [], hasArg = False\<rparr>"

definition isEnum :: "node \<Rightarrow> bool" where
  "isEnum n \<longleftrightarrow> nt n = enumType"

definition isConst :: "node \<Rightarrow> bool" where
  "isConst n \<longleftrightarrow> nt n = constType"

definition addEnum :: "string \<Rightarrow> node \<Rightarrow> node" where
  "addEnum v n = n\<lparr>enums := enums n @ [v]\<rparr>"

definition setArgName :: "string \<Rightarrow> node \<Rightarrow> node" where
  "setArgName v n = n\<lparr>argName := v, hasArg := True\<rparr>"

definition isNumberValue :: "node \<Rightarrow> bool" where
  "isNumberValue n \<longleftrightarrow> list_all (\<lambda>c. CHR ''0'' \<le> c \<and> c \<le> CHR ''9'') (nvalue n)"

definition isMatchAllConstString :: "node \<Rightarrow> bool" where
  "isMatchAllConstString n \<longleftrightarrow> nvalue n = ''*''"

definition inEnumValue :: "node \<Rightarrow> string \<Rightarrow> bool" where
  "inEnumValue n v \<longleftrightarrow> list_ex (\<lambda>e. e = v) (enums n)"

lemmas node_defs = mk_node_def isEnum_def isConst_def addEnum_def setArgName_def

subsection \<open>The parser\<close>

fun route_tbl :: "char \<Rightarrow> route_token option" where
  "route_tbl c =
     (if c = CHR ''/'' then Some tokenSlash
      else if c = CHR ''('' then Some tokenLParen
      else if c = CHR ''|'' then Some tokenVertical
      else if c = CHR '':'' then Some tokenColon
      else if c = CHR '')'' then Some tokenRParen
      else None)"

type_synonym rscanner = "route_token scanner"

abbreviation route_NextToken :: "rscanner \<Rightarrow> rscanner" where
  "route_NextToken \<equiv> scan_NextToken route_tbl tokenEOF"

record parser =
  p_input :: string
  p_lexer :: rscanner

definition newParser :: "string \<Rightarrow> parser" where
  "newParser inp =
     (let i = (if 1 < length inp \<and> last inp = CHR ''/'' then butlast inp else inp)
      in \<lparr>p_input = i, p_lexer = newScanner tokenEOF i\<rparr>)"

datatype parse_error =
    DoubleSlash | NamedConst | LParenNotAfterSlash | NotEnumType | UnexpectedColon
  | MissingColonEnum | UnknownType string | MissingEnum | MissingLParen | MustStartSlash

definition prevNode :: "node list \<Rightarrow> node option" where
  "prevNode ns = (if ns = [] then None else Some (last ns))"

text \<open>Update of the last node through the pointer that \<^verbatim>\<open>prevNode()\<close> returns.\<close>

definition upd_prev :: "(node \<Rightarrow> node) \<Rightarrow> node list \<Rightarrow> node list" where
  "upd_prev f ns = butlast ns @ [f (last ns)]"

text \<open>\<^verbatim>\<open>p.lexer.ScanString()\<close> in the middle of a branch: the continuation gets the text.\<close>

definition with_scan ::
  "rscanner \<Rightarrow> (string \<Rightarrow> (parse_error, node list) outcome)
     \<Rightarrow> (parse_error, node list \<times> rscanner) outcome" where
  "with_scan lx k =
     (case scan_ScanString lx of
        None \<Rightarrow> Panic
      | Some (v, lx') \<Rightarrow> obind (k v) (\<lambda>ns. Ok (ns, lx')))"

abbreviation slash_node :: node where
  "slash_node \<equiv> mk_node slashType ''/''"

text \<open>The body of the \<^verbatim>\<open>switch token\<close>, one equation per \<^verbatim>\<open>case\<close>; \<^verbatim>\<open>tokenEOF\<close>, which leaves the
  loop, is \<open>parse_EOF\<close>.\<close>

fun parse_token ::
  "route_token \<Rightarrow> route_token \<Rightarrow> int \<Rightarrow> node list \<Rightarrow> rscanner
     \<Rightarrow> (parse_error, node list \<times> rscanner) outcome" where
  "parse_token tokenSlash prev prevIndex ns lx =
     (if prev = tokenSlash then
        if scan_TokenIndex lx = prevIndex + 1 then Err DoubleSlash
        else with_scan lx (\<lambda>v. Ok (ns @ [mk_node constType v] @ [slash_node]))
      else if prev = tokenColon then
        (case prevNode ns of
           Some p \<Rightarrow>
             if \<not> isConst p
             then with_scan lx (\<lambda>v. Ok (upd_prev (setArgName v) ns @ [slash_node]))
             else Err NamedConst
         | None \<Rightarrow> Err NamedConst)
      else if prev = tokenUnknown then with_scan lx (\<lambda>_. Ok (ns @ [slash_node]))
      else Ok (ns @ [slash_node], lx))"
| "parse_token tokenLParen prev prevIndex ns lx =
     (if prev \<noteq> tokenSlash then Err LParenNotAfterSlash else with_scan lx (\<lambda>_. Ok ns))"
| "parse_token tokenColon prev prevIndex ns lx =
     (if prev = tokenLParen then
        with_scan lx (\<lambda>v. if v \<noteq> ''enum'' then Err NotEnumType
                         else Ok (ns @ [mk_node enumType []]))
      else if prev \<noteq> tokenRParen then Err UnexpectedColon
      else with_scan lx (\<lambda>_. Ok ns))"
| "parse_token tokenVertical prev prevIndex ns lx =
     (case prevNode ns of
        Some p \<Rightarrow>
          if (prev = tokenColon \<or> prev = tokenVertical) \<and> isEnum p
          then with_scan lx (\<lambda>v. Ok (upd_prev (addEnum v) ns))
          else Err MissingColonEnum
      | None \<Rightarrow> Err MissingColonEnum)"
| "parse_token tokenRParen prev prevIndex ns lx =
     (if prev = tokenLParen then
        with_scan lx (\<lambda>v. if v = ''string'' then Ok (ns @ [mk_node stringType []])
                         else if v = ''number'' then Ok (ns @ [mk_node numberType []])
                         else Err (UnknownType v))
      else if prev = tokenVertical then
        (case prevNode ns of
           Some p \<Rightarrow> if \<not> isEnum p then Err MissingEnum
                     else with_scan lx (\<lambda>v. Ok (upd_prev (addEnum v) ns))
         | None \<Rightarrow> Err MissingEnum)
      else Err MissingLParen)"
| "parse_token tokenEOF prev prevIndex ns lx = Ok (ns, lx)"
| "parse_token tokenUnknown prev prevIndex ns lx = Ok (ns, lx)"

definition parse_EOF ::
  "route_token \<Rightarrow> node list \<Rightarrow> rscanner \<Rightarrow> (parse_error, node list) outcome" where
  "parse_EOF prev ns lx =
     (if prev = tokenSlash then
        obind (with_scan lx (\<lambda>v. Ok (ns @ [mk_node constType v]))) (\<lambda>(ns', _). Ok ns')
      else if prev = tokenColon then
        (case prevNode ns of
           Some p \<Rightarrow>
             if \<not> isConst p
             then obind (with_scan lx (\<lambda>v. Ok (upd_prev (setArgName v) ns))) (\<lambda>(ns', _). Ok ns')
             else Err NamedConst
         | None \<Rightarrow> Err NamedConst)
      else if prev = tokenUnknown then Err MustStartSlash
      else Ok ns)"

function parse_loop ::
  "route_token \<Rightarrow> int \<Rightarrow> node list \<Rightarrow> rscanner \<Rightarrow> (parse_error, node list) outcome" where
  "parse_loop prev prevIndex ns lx0 =
     (let lx = route_NextToken lx0; tok = token lx
      in if tok = tokenEOF then parse_EOF prev ns lx
         else case parse_token tok prev prevIndex ns lx of
                Ok (ns', lx') \<Rightarrow> parse_loop tok (scan_TokenIndex lx') ns' lx'
              | Err e \<Rightarrow> Err e
              | Panic \<Rightarrow> Panic)"
  by pat_completeness auto

definition parse :: "parser \<Rightarrow> (parse_error, node list) outcome" where
  "parse p =
     (if p_input p = ''/'' then Ok [slash_node]
      else parse_loop tokenUnknown (-1) [] (p_lexer p))"

lemma with_scan_measure: "with_scan lx k = Ok (ns, lx') \<Longrightarrow> scan_measure lx' = scan_measure lx"
  by (auto simp: with_scan_def scan_ScanString_def outcome_simps split: option.splits)

lemma parse_token_measure:
  "parse_token tok prev pidx ns lx = Ok (ns', lx') \<Longrightarrow> scan_measure lx' = scan_measure lx"
  by (cases tok) (auto split: if_splits option.splits dest: with_scan_measure)

termination parse_loop
  by (relation "measure (\<lambda>(prev, pidx, ns, lx). scan_measure lx)")
    (auto dest!: parse_token_measure intro!: scan_NextToken_measure simp: eoi_def)

declare parse_loop.simps [simp del]

subsection \<open>Runs of the parser over a text\<close>

interpretation rl: lexer route_tbl tokenEOF scan_live scan_ended route_NextToken token
  scan_TokenIndex scan_ScanString
  by (rule scan_lexer) (simp add: eoi_def)

lemma route_tbl_not_EOF: "lex1 route_tbl rest = (w, Some (c, t, rest')) \<Longrightarrow> t \<noteq> tokenEOF \<and> t \<noteq> tokenUnknown"
  by (induction rest arbitrary: w) (auto split: if_splits option.splits prod.splits)

lemma with_scan_live:
  "scan_live lx (w @ [c]) rest \<Longrightarrow>
   with_scan lx k = obind (k w) (\<lambda>ns. Ok (ns, lx\<lparr>sp := bp lx\<rparr>))"
  by (simp add: with_scan_def scan_ScanString_live)

text \<open>\<open>parses prev ns pend rest r\<close>: the loop, entered after token \<open>prev\<close> with the nodes \<open>ns\<close>, the
  text \<open>pend\<close> not yet scanned and \<open>rest\<close> still to be read, returns \<open>r\<close>.\<close>

definition parses ::
  "route_token \<Rightarrow> node list \<Rightarrow> string \<Rightarrow> string \<Rightarrow> (parse_error, node list) outcome \<Rightarrow> bool" where
  "parses prev ns pend rest r \<longleftrightarrow>
     (\<forall>lx. scan_live lx pend rest \<longrightarrow> parse_loop prev (scan_TokenIndex lx) ns lx = r)"

lemma parses_scan:
  assumes l: "lex1 route_tbl rest0 = (w, Some (c, t, rest))" and nxt: "parses t ns' [] rest r"
    and tok: "\<And>lx pidx. scan_TokenIndex lx = pidx + 1 + int (length w) \<Longrightarrow>
      scan_ScanString lx = Some (pend @ w, lx\<lparr>sp := bp lx\<rparr>) \<Longrightarrow>
      parse_token t prev pidx ns lx = Ok (ns', lx\<lparr>sp := bp lx\<rparr>)"
  shows "parses prev ns pend rest0 r"
  unfolding parses_def
proof (intro allI impI)
  fix lx :: rscanner
  assume "scan_live lx pend rest0"
  note n = rl.next_token [OF this l]
  let ?lx = "route_NextToken lx"
  have s: "scan_ScanString ?lx = Some (pend @ w, ?lx\<lparr>sp := bp ?lx\<rparr>)"
    "scan_live (?lx\<lparr>sp := bp ?lx\<rparr>) [] rest"
    "scan_TokenIndex (?lx\<lparr>sp := bp ?lx\<rparr>) = scan_TokenIndex ?lx"
    using n scan_ScanString_live [of ?lx "pend @ w" c rest] by auto
  then have "parse_loop t (scan_TokenIndex ?lx) ns' (?lx\<lparr>sp := bp ?lx\<rparr>) = r"
    using nxt unfolding parses_def by metis
  then show "parse_loop prev (scan_TokenIndex lx) ns lx = r"
    using n s tok [of ?lx "scan_TokenIndex lx"] route_tbl_not_EOF [OF l]
    by (subst parse_loop.simps) (simp add: Let_def)
qed

lemma parses_skip:
  assumes l: "lex1 route_tbl rest0 = (w, Some (c, t, rest))"
    and nxt: "parses t ns' (pend @ w @ [c]) rest r"
    and tok: "\<And>lx pidx. parse_token t prev pidx ns lx = Ok (ns', lx)"
  shows "parses prev ns pend rest0 r"
  unfolding parses_def
proof (intro allI impI)
  fix lx :: rscanner
  assume "scan_live lx pend rest0"
  note n = rl.next_token [OF this l]
  then have "parse_loop t (scan_TokenIndex (route_NextToken lx)) ns' (route_NextToken lx) = r"
    using nxt unfolding parses_def by metis
  then show "parse_loop prev (scan_TokenIndex lx) ns lx = r"
    using n tok route_tbl_not_EOF [OF l] by (subst parse_loop.simps) (simp add: Let_def)
qed

lemma parses_EOF:
  assumes l: "lex1 route_tbl rest = (w, None)"
    and eof: "\<And>lx. scan_ScanString lx = Some (pend @ w, lx\<lparr>sp := bp lx\<rparr>) \<Longrightarrow> parse_EOF prev ns lx = r"
  shows "parses prev ns pend rest r"
  unfolding parses_def
proof (intro allI impI)
  fix lx :: rscanner
  assume "scan_live lx pend rest"
  then have "scan_ended (route_NextToken lx) (pend @ w)" "token (route_NextToken lx) = tokenEOF"
    using rl.next_eof [OF _ l] by blast+
  then show "parse_loop prev (scan_TokenIndex lx) ns lx = r"
    using eof by (subst parse_loop.simps) (auto simp: Let_def scan_ended_def scan_ScanString_def)
qed

subsection \<open>The grammar of patterns\<close>

datatype seg =
    CSeg string
  | NSeg "string option"
  | SSeg "string option"
  | ESeg "string list" "string option"

fun print_arg :: "string option \<Rightarrow> string" where
  "print_arg None = []"
| "print_arg (Some a) = CHR '':'' # a"

fun print_seg :: "seg \<Rightarrow> string" where
  "print_seg (CSeg w) = w"
| "print_seg (NSeg a) = ''(number)'' @ print_arg a"
| "print_seg (SSeg a) = ''(string)'' @ print_arg a"
| "print_seg (ESeg vs a) = ''(enum:'' @ join_with (CHR ''|'') vs @ '')'' @ print_arg a"

definition print_pat :: "seg list \<Rightarrow> string" where
  "print_pat segs = concat (map (\<lambda>s. CHR ''/'' # print_seg s) segs)"

fun arg_of :: "string option \<Rightarrow> node \<Rightarrow> node" where
  "arg_of None n = n"
| "arg_of (Some a) n = setArgName a n"

fun seg_node :: "seg \<Rightarrow> node" where
  "seg_node (CSeg w) = mk_node constType w"
| "seg_node (NSeg a) = arg_of a (mk_node numberType [])"
| "seg_node (SSeg a) = arg_of a (mk_node stringType [])"
| "seg_node (ESeg vs a) = arg_of a ((mk_node enumType [])\<lparr>enums := vs\<rparr>)"

abbreviation wordy :: "string \<Rightarrow> bool" where
  "wordy \<equiv> clean route_tbl"

fun seg_ok :: "seg \<Rightarrow> bool" where
  "seg_ok (CSeg w) \<longleftrightarrow> w \<noteq> [] \<and> wordy w"
| "seg_ok (NSeg a) \<longleftrightarrow> pred_option wordy a"
| "seg_ok (SSeg a) \<longleftrightarrow> pred_option wordy a"
| "seg_ok (ESeg vs a) \<longleftrightarrow> 2 \<le> length vs \<and> list_all wordy vs \<and> pred_option wordy a"

fun unnamed :: "seg \<Rightarrow> bool" where
  "unnamed (CSeg w) \<longleftrightarrow> False"
| "unnamed (NSeg a) \<longleftrightarrow> a = None"
| "unnamed (SSeg a) \<longleftrightarrow> a = None"
| "unnamed (ESeg vs a) \<longleftrightarrow> a = None"

fun is_cseg :: "seg \<Rightarrow> bool" where
  "is_cseg (CSeg w) \<longleftrightarrow> True"
| "is_cseg _ \<longleftrightarrow> False"

text \<open>A constant segment may not directly follow an unnamed typed one.\<close>

fun pat_ok :: "seg list \<Rightarrow> bool" where
  "pat_ok [] \<longleftrightarrow> False"
| "pat_ok [s] \<longleftrightarrow> seg_ok s"
| "pat_ok (s # s' # ss) \<longleftrightarrow> seg_ok s \<and> \<not> (unnamed s \<and> is_cseg s') \<and> pat_ok (s' # ss)"

definition pat_nodes :: "seg list \<Rightarrow> node list" where
  "pat_nodes segs = concat (map (\<lambda>s. [slash_node, seg_node s]) segs)"

subsection \<open>Every printed pattern parses back\<close>

lemma upd_prev_simps [simp]:
  "upd_prev f (ns @ [n]) = ns @ [f n]" "prevNode (ns @ [n]) = Some n"
  by (simp_all add: upd_prev_def prevNode_def)

lemma node_kind_simps [simp]:
  "isEnum (mk_node t v) \<longleftrightarrow> t = enumType" "isConst (mk_node t v) \<longleftrightarrow> t = constType"
  "isEnum (n\<lparr>enums := vs\<rparr>) \<longleftrightarrow> isEnum n" "isConst (n\<lparr>enums := vs\<rparr>) \<longleftrightarrow> isConst n"
  "isEnum n \<Longrightarrow> \<not> isConst n"
  by (auto simp: node_defs)

lemma lex_piece:
  "wordy w \<Longrightarrow> route_tbl c = Some t \<Longrightarrow> lex1 route_tbl (w @ c # rest) = (w, Some (c, t, rest))"
  by (rule lex1_clean)

lemma lex_here: "route_tbl c = Some t \<Longrightarrow> lex1 route_tbl (c # rest) = ([], Some (c, t, rest))"
  using lex_piece [of "[]"] by simp

text \<open>One rule per production: the reading of a word up to the byte that ends it.\<close>

lemma parses_const_slash:
  assumes "w \<noteq> []" "wordy w" "parses tokenSlash (ns @ [mk_node constType w, slash_node]) [] rest r"
  shows "parses tokenSlash ns [] (w @ CHR ''/'' # rest) r"
  using assms by (intro parses_scan [OF lex_piece assms(3)]) (auto simp: with_scan_def)

lemma parses_const_EOF:
  "wordy w \<Longrightarrow> parses tokenSlash ns [] w (Ok (ns @ [mk_node constType w]))"
  by (rule parses_EOF [OF lex1_clean(1)]) (auto simp: parse_EOF_def with_scan_def)

lemma parses_lparen:
  assumes "parses tokenLParen ns [] rest r"
  shows "parses tokenSlash ns pend (CHR ''('' # rest) r"
  using assms by (intro parses_scan [OF lex_here assms])
    (auto simp: with_scan_def)

lemma parses_number:
  assumes "parses tokenRParen (ns @ [mk_node numberType []]) [] rest r"
  shows "parses tokenSlash ns pend (''(number)'' @ rest) r"
proof -
  have "parses tokenLParen ns [] (''number'' @ CHR '')'' # rest) r"
    by (intro parses_scan [OF lex_piece assms]) (auto simp: with_scan_def eoi_def)
  then show ?thesis using parses_lparen by simp
qed

lemma parses_string:
  assumes "parses tokenRParen (ns @ [mk_node stringType []]) [] rest r"
  shows "parses tokenSlash ns pend (''(string)'' @ rest) r"
proof -
  have "parses tokenLParen ns [] (''string'' @ CHR '')'' # rest) r"
    by (intro parses_scan [OF lex_piece assms]) (auto simp: with_scan_def eoi_def)
  then show ?thesis using parses_lparen by simp
qed

lemma parses_enums:
  assumes "vs \<noteq> []" "prev = tokenVertical \<or> prev = tokenColon \<and> 2 \<le> length vs"
    and "list_all wordy vs" "isEnum n"
    and "parses tokenRParen (ns @ [n\<lparr>enums := enums n @ vs\<rparr>]) [] rest r"
  shows "parses prev (ns @ [n]) [] (join_with (CHR ''|'') vs @ CHR '')'' # rest) r"
  using assms
proof (induction "CHR ''|''" vs arbitrary: prev n rule: join_with.induct)
  case (2 v)
  have "parses tokenRParen (ns @ [addEnum v n]) [] rest r"
    using "2.prems" by (simp add: addEnum_def)
  from parses_scan [OF lex_piece this] "2.prems" show ?case
    by (auto simp: with_scan_def)
next
  case (3 v v' vs)
  have "parses tokenVertical (ns @ [addEnum v n]) [] (join_with (CHR ''|'') (v' # vs) @ CHR '')'' # rest) r"
    using "3.prems" by (intro "3.hyps") (auto simp: addEnum_def isEnum_def)
  from parses_scan [OF lex_piece this] "3.prems" show ?case
    by (auto simp: with_scan_def)
qed simp

lemma parses_enum:
  assumes "2 \<le> length vs" "list_all wordy vs"
    and e: "parses tokenRParen (ns @ [(mk_node enumType [])\<lparr>enums := vs\<rparr>]) [] rest r"
  shows "parses tokenSlash ns pend (''(enum:'' @ join_with (CHR ''|'') vs @ '')'' @ rest) r"
proof -
  have c: "parses tokenColon (ns @ [mk_node enumType []]) []
      (join_with (CHR ''|'') vs @ CHR '')'' # rest) r"
    using assms by (intro parses_enums) (auto simp: mk_node_def isEnum_def)
  have "parses tokenLParen ns [] (''enum'' @ CHR '':'' # (join_with (CHR ''|'') vs @ CHR '')'' # rest)) r"
    by (intro parses_scan [OF lex_piece c]) (auto simp: with_scan_def eoi_def)
  then show ?thesis using parses_lparen by simp
qed

text \<open>After a typed segment: the optional argument name, then the next segment or the end.\<close>

definition ends_seg :: "string \<Rightarrow> bool" where
  "ends_seg rest \<longleftrightarrow> rest = [] \<or> hd rest = CHR ''/''"

lemma parses_arg_name:
  assumes "\<not> isConst n" "wordy a" "ends_seg rest"
    and e: "rest = [] \<Longrightarrow> r = Ok (ns @ [setArgName a n])"
    and nxt: "rest \<noteq> [] \<Longrightarrow> parses tokenSlash (ns @ [setArgName a n, slash_node]) [] (tl rest) r"
  shows "parses tokenColon (ns @ [n]) [] (a @ rest) r"
proof (cases rest)
  case Nil
  then show ?thesis
    using assms
    by (auto simp: parse_EOF_def with_scan_def scan_simps intro!: parses_EOF [where w = a])
next
  case (Cons c cs)
  then have "c = CHR ''/''" "parses tokenSlash (ns @ [setArgName a n, slash_node]) [] cs r"
    using assms by (auto simp: ends_seg_def)
  then show ?thesis
    using assms Cons by (auto simp: with_scan_def intro!: parses_scan [OF lex_piece])
qed

lemma parses_arg:
  assumes "\<not> isConst n" "pred_option wordy a" "ends_seg rest"
    and e: "rest = [] \<Longrightarrow> r = Ok (ns @ [arg_of a n])"
    and nxt: "rest \<noteq> [] \<Longrightarrow>
      parses tokenSlash (ns @ [arg_of a n, slash_node]) (if a = None then ''/'' else []) (tl rest) r"
  shows "parses tokenRParen (ns @ [n]) [] (print_arg a @ rest) r"
proof (cases a)
  case (Some x)
  then have "parses tokenColon (ns @ [n]) [] (x @ rest) r"
    using assms by (intro parses_arg_name) auto
  then show ?thesis
    using Some parses_scan [OF lex_here, where ns' = "ns @ [n]"]
    by (auto simp: with_scan_def)
next
  case None
  show ?thesis
  proof (cases rest)
    case Nil
    then show ?thesis using None e by (auto simp: parse_EOF_def intro!: parses_EOF)
  next
    case (Cons c cs)
    then have "c = CHR ''/''" "parses tokenSlash ((ns @ [n]) @ [slash_node]) ([] @ [] @ [c]) cs r"
      using assms None by (auto simp: ends_seg_def)
    then show ?thesis
      using None Cons by (auto intro!: parses_skip [OF lex_here])
  qed
qed

lemma print_pat_simps [simp]:
  "print_pat [] = []" "print_pat (s # ss) = CHR ''/'' # print_seg s @ print_pat ss"
  "pat_nodes [] = []" "pat_nodes (s # ss) = slash_node # seg_node s # pat_nodes ss"
  by (simp_all add: print_pat_def pat_nodes_def)

lemma ends_seg_print [simp]: "ends_seg (print_pat ss)"
  by (cases ss) (auto simp: ends_seg_def)

lemma print_pat_Nil [simp]: "print_pat ss = [] \<longleftrightarrow> ss = []"
  by (cases ss) auto

lemma parses_pat:
  "pat_ok (s # ss) \<Longrightarrow> (is_cseg s \<Longrightarrow> pend = []) \<Longrightarrow>
   parses tokenSlash ns pend (print_seg s @ print_pat ss) (Ok (ns @ seg_node s # pat_nodes ss))"
proof (induction ss arbitrary: s ns pend)
  case Nil
  then show ?case
    by (cases s) (auto simp: parses_const_EOF intro!: parses_number [simplified]
        parses_string [simplified] parses_enum [simplified] parses_arg [where rest = "[]", simplified]
        simp: ends_seg_def)
next
  case (Cons s' ss)
  let ?r = "Ok (ns @ seg_node s # pat_nodes (s' # ss))"
  have nxt: "parses tokenSlash (ns @ [seg_node s, slash_node]) pend' (print_seg s' @ print_pat ss) ?r"
    if "is_cseg s' \<Longrightarrow> pend' = []" for pend'
    using Cons.IH [of s' pend' "ns @ [seg_node s, slash_node]"] Cons.prems that by simp
  show ?case
  proof (cases s)
    case (CSeg w)
    then show ?thesis
      using Cons.prems nxt [of "[]"] by (auto intro!: parses_const_slash)
  next
    case (NSeg a)
    then show ?thesis
      using Cons.prems nxt [of "if a = None then ''/'' else []"]
      by (auto intro!: parses_number [simplified] parses_arg simp: ends_seg_def)
  next
    case (SSeg a)
    then show ?thesis
      using Cons.prems nxt [of "if a = None then ''/'' else []"]
      by (auto intro!: parses_string [simplified] parses_arg simp: ends_seg_def)
  next
    case (ESeg vs a)
    then show ?thesis
      using Cons.prems nxt [of "if a = None then ''/'' else []"]
      by (auto intro!: parses_enum [simplified] parses_arg simp: ends_seg_def)
  qed
qed

lemma parse_newParser:
  assumes "parses tokenUnknown [] [] inp r" "inp \<noteq> ''/''" "inp \<noteq> []" "last inp \<noteq> CHR ''/''"
  shows "parse (newParser inp) = r \<and> parse (newParser (inp @ ''/'')) = r"
proof -
  have "scan_TokenIndex (newScanner tokenEOF inp) = -1"
    by (simp add: scan_TokenIndex_def newScanner_def)
  then show ?thesis
    using assms newScanner_live [of tokenEOF inp]
    by (auto simp: parse_def newParser_def Let_def parses_def)
qed

lemma print_arg_no_slash: "pred_option wordy a \<Longrightarrow> CHR ''/'' \<notin> set (print_arg a)"
  by (cases a) (auto simp: clean_def)

lemma seg_last: "seg_ok s \<Longrightarrow> print_seg s \<noteq> [] \<and> last (print_seg s) \<noteq> CHR ''/''"
  by (cases s rule: seg_ok.cases)
    (auto simp: clean_def dest: print_arg_no_slash dest!: last_in_set)

lemma pat_last: "pat_ok segs \<Longrightarrow> last (print_pat segs) \<noteq> CHR ''/'' \<and> print_pat segs \<noteq> ''/''"
  by (induction segs rule: pat_ok.induct) (auto simp: seg_last)



subsection \<open>The parser is total and its result starts with a slash\<close>

definition typed :: "node \<Rightarrow> bool" where
  "typed n \<longleftrightarrow> nt n \<noteq> slashType \<and> nt n \<noteq> constType"

definition node_wf :: "node \<Rightarrow> bool" where
  "node_wf n \<longleftrightarrow> (nt n = slashType \<longrightarrow> n = slash_node) \<and> (hasArg n \<longrightarrow> typed n)
     \<and> (enums n \<noteq> [] \<longrightarrow> nt n = enumType) \<and> (nvalue n \<noteq> [] \<longrightarrow> \<not> typed n)"

definition nodes_wf :: "node list \<Rightarrow> bool" where
  "nodes_wf ns \<longleftrightarrow> ns \<noteq> [] \<and> hd ns = slash_node \<and> list_all node_wf ns"

fun parse_inv :: "route_token \<Rightarrow> node list \<Rightarrow> bool" where
  "parse_inv tokenEOF ns \<longleftrightarrow> False"
| "parse_inv tokenUnknown ns \<longleftrightarrow> ns = []"
| "parse_inv tokenSlash ns \<longleftrightarrow> nodes_wf ns"
| "parse_inv tokenLParen ns \<longleftrightarrow> nodes_wf ns"
| "parse_inv t ns \<longleftrightarrow> nodes_wf ns \<and> typed (last ns)"

lemma nodes_wf_snoc: "ns = [] \<or> nodes_wf ns \<Longrightarrow> node_wf n \<Longrightarrow> ns = [] \<longrightarrow> n = slash_node \<Longrightarrow> nodes_wf (ns @ [n])"
  by (auto simp: nodes_wf_def)

lemma nodes_wf_simps [simp]:
  "nodes_wf [slash_node]" "nodes_wf ns \<Longrightarrow> node_wf n \<Longrightarrow> nodes_wf (ns @ [n, slash_node])"
  by (auto simp: nodes_wf_def node_wf_def typed_def mk_node_def)

lemma nodes_wf_upd:
  assumes "nodes_wf ns" "typed (last ns)" "node_wf (f (last ns))"
  shows "nodes_wf (upd_prev f ns)"
proof -
  have "butlast ns \<noteq> []"
    using assms by (cases ns rule: rev_cases) (auto simp: nodes_wf_def typed_def mk_node_def)
  then show ?thesis
    using assms by (cases ns rule: rev_cases) (auto simp: nodes_wf_def)
qed

lemma last_upd_prev [simp]: "last (upd_prev f ns) = f (last ns)"
  by (simp add: upd_prev_def)

lemma node_wf_intros [simp]:
  "node_wf slash_node" "node_wf (mk_node constType v)" "typed (mk_node t v) \<longleftrightarrow> t \<noteq> slashType \<and> t \<noteq> constType"
  "t \<noteq> slashType \<Longrightarrow> node_wf (mk_node t [])"
  "node_wf n \<Longrightarrow> typed n \<Longrightarrow> node_wf (setArgName v n)" "typed (setArgName v n) = typed n"
  "node_wf n \<Longrightarrow> isEnum n \<Longrightarrow> node_wf (addEnum v n)" "typed (addEnum v n) = typed n"
  by (auto simp: node_wf_def typed_def node_defs)

lemma nodes_wf_last: "nodes_wf ns \<Longrightarrow> node_wf (last ns) \<and> prevNode ns = Some (last ns) \<and> ns \<noteq> []"
  by (auto simp: nodes_wf_def prevNode_def list_all_iff)

lemma isEnum_typed: "isEnum n \<Longrightarrow> typed n"
  by (simp add: isEnum_def typed_def)

lemma parse_token_inv:
  assumes "scan_live lx (w @ [c]) rest" "parse_inv prev ns" "tok \<noteq> tokenEOF" "tok \<noteq> tokenUnknown"
  shows "parse_token tok prev pidx ns lx \<noteq> Panic \<and>
    (\<forall>ns' lx'. parse_token tok prev pidx ns lx = Ok (ns', lx') \<longrightarrow>
       parse_inv tok ns' \<and> (\<exists>pend. scan_live lx' pend rest))"
proof -
  note scan = scan_ScanString_live [OF assms(1)]
  show ?thesis
    using assms(2-) scan nodes_wf_last [of ns] assms(1)
    by (cases tok; cases prev)
      (auto simp: with_scan_def nodes_wf_snoc nodes_wf_upd isEnum_typed prevNode_def
        dest: isEnum_typed split: if_splits option.splits)
qed

lemma parse_EOF_inv:
  assumes "scan_ScanString lx = Some (w, lx')" "parse_inv prev ns"
  shows "parse_EOF prev ns lx \<noteq> Panic \<and> (\<forall>ns'. parse_EOF prev ns lx = Ok ns' \<longrightarrow> nodes_wf ns')"
  using assms nodes_wf_last [of ns]
  by (cases prev) (auto simp: parse_EOF_def with_scan_def nodes_wf_snoc nodes_wf_upd prevNode_def)

lemma parse_loop_token:
  "token (route_NextToken lx) \<noteq> tokenEOF \<Longrightarrow>
   parse_loop prev pidx ns lx =
     obind (parse_token (token (route_NextToken lx)) prev pidx ns (route_NextToken lx))
       (\<lambda>(ns', lx'). parse_loop (token (route_NextToken lx)) (scan_TokenIndex lx') ns' lx')"
  by (subst parse_loop.simps) (auto simp: Let_def split: outcome.splits)

lemma parse_loop_EOF:
  "token (route_NextToken lx) = tokenEOF \<Longrightarrow> parse_loop prev pidx ns lx = parse_EOF prev ns (route_NextToken lx)"
  by (subst parse_loop.simps) (simp add: Let_def)

lemma parse_loop_inv:
  "scan_live lx pend rest \<Longrightarrow> parse_inv prev ns \<Longrightarrow>
   parse_loop prev pidx ns lx \<noteq> Panic \<and> (\<forall>ns'. parse_loop prev pidx ns lx = Ok ns' \<longrightarrow> nodes_wf ns')"
proof (induction prev pidx ns lx arbitrary: pend rest rule: parse_loop.induct)
  case (1 prev pidx ns lx)
  let ?lx = "route_NextToken lx"
  show ?case
  proof (cases "lex1 route_tbl rest")
    case (Pair w r)
    show ?thesis
    proof (cases r)
      case None
      then have "scan_ended ?lx (pend @ w) \<and> token ?lx = tokenEOF"
        using Pair rl.next_eof "1.prems" by blast
      then show ?thesis
        using parse_EOF_inv "1.prems" by (auto simp: parse_loop_EOF scan_ended_def)
    next
      case (Some ctr)
      then obtain c t rest' where l: "lex1 route_tbl rest = (w, Some (c, t, rest'))"
        using Pair by (cases ctr) auto
      note n = rl.next_token [OF "1.prems"(1) l] and t = route_tbl_not_EOF [OF l]
      have eq: "parse_loop prev pidx ns lx =
          obind (parse_token t prev pidx ns ?lx) (\<lambda>(ns', lx'). parse_loop t (scan_TokenIndex lx') ns' lx')"
        using parse_loop_token [of lx prev pidx ns] n t by simp
      have st: "parse_token t prev pidx ns ?lx \<noteq> Panic" "\<And>ns' lx'. parse_token t prev pidx ns ?lx = Ok (ns', lx')
         \<Longrightarrow> parse_inv t ns' \<and> (\<exists>pend. scan_live lx' pend rest')"
        using parse_token_inv [of ?lx "pend @ w" c rest' prev ns t pidx] n t "1.prems" by auto
      show ?thesis
      proof (cases "parse_token t prev pidx ns ?lx")
        case (Ok p)
        obtain ns' lx' where p: "p = (ns', lx')" by (cases p)
        then obtain pend' where "parse_inv t ns'" "scan_live lx' pend' rest'"
          using st Ok by blast
        moreover have "t = token ?lx" using n by simp
        ultimately show ?thesis
          using "1.IH" [OF refl, of t p ns' lx' pend' rest'] t Ok p unfolding eq by fastforce
      qed (use n t st eq in simp_all)
    qed
  qed
qed

text \<open>C33 --- the parser is total: on every byte string it terminates without a slice or nil panic, and
  a successful result is a non-empty list of well-formed nodes whose first node is the slash node, the
  shape \<^verbatim>\<open>Route.Add\<close> and \<^verbatim>\<open>Route.Find\<close> rely on (their first node always matches the root).\<close>

theorem parse_total:
  "parse (newParser inp) \<noteq> Panic \<and>
   (case parse (newParser inp) of Ok ns \<Rightarrow> nodes_wf ns | Err e \<Rightarrow> True | Panic \<Rightarrow> False)"
proof -
  show ?thesis
    using parse_loop_inv [OF newScanner_live, of tokenUnknown "[]"]
    by (auto simp: parse_def newParser_def Let_def split: outcome.splits)
qed

text \<open>The restriction of the round trip is needed: after an unnamed typed segment the slash is
  not scanned, so the constant that follows keeps it, and \<^verbatim>\<open>/(number)/w\<close> becomes the constant
  \<^verbatim>\<open>/w\<close>, which no path segment equals.\<close>

theorem parse_unnamed_then_const:
  assumes "wordy w" "w \<noteq> []"
  shows "parse (newParser (''/(number)/'' @ w))
    = Ok [slash_node, mk_node numberType [], slash_node, mk_node constType (CHR ''/'' # w)]"
proof -
  let ?num = "mk_node numberType []"
  let ?r = "Ok [slash_node, ?num, slash_node, mk_node constType (CHR ''/'' # w)]"
  have "parses tokenSlash ([slash_node, ?num] @ [slash_node]) ([] @ [] @ ''/'') w ?r"
    using assms by (intro parses_EOF [OF lex1_clean(1)]) (auto simp: parse_EOF_def with_scan_def)
  from parses_skip [OF lex_here this] have "parses tokenRParen ([slash_node] @ [?num]) [] (CHR ''/'' # w) ?r"
    by simp
  from parses_number [OF this, of "[]"] have "parses tokenSlash [slash_node] [] (''(number)/'' @ w) ?r"
    by simp
  from parses_scan [OF lex_here this, where pend = "[]" and prev = tokenUnknown and ns = "[]"]
  have "parses tokenUnknown [] [] (''/(number)/'' @ w) ?r" by (auto simp: with_scan_def)
  moreover have "last w \<noteq> CHR ''/''" using seg_last [of "CSeg w"] assms by simp
  ultimately show ?thesis using parse_newParser [of "''/(number)/'' @ w" ?r] assms by auto
qed

theorem parse_unnamed_then_const_witness:
  "parse (newParser ''/(number)/abc'')
    = Ok [slash_node, mk_node numberType [], slash_node, mk_node constType ''/abc'']"
  using parse_unnamed_then_const [of "''abc''"] by (simp add: eoi_def)

end
