(* ===== verification/Route_Tree.thy ===== *)
theory Route_Tree
  imports Route_Parser Meta_Model "HOL-Library.Multiset"
begin

text \<open>
  The route table (\<^verbatim>\<open>route/route.go\<close>): a tree of pattern nodes with, at each node, the APIs bound
  there per HTTP method. \<^verbatim>\<open>Add\<close> inserts an API under its URL pattern or reports a conflict,
  \<^verbatim>\<open>Find\<close> resolves a request path.

  Two things of the Go run time leave the result open and are arguments of the model: which
  permutation \<^verbatim>\<open>sort.Slice\<close> chooses (\<open>srt\<close>, a function of the keys, as the comparison sees nothing
  else; the locale \<open>sort_slice\<close> states its contract) and the first entry a \<^verbatim>\<open>range\<close> over a map
  visits (\<open>pick\<close>, used in an error message only).
\<close>

datatype routeItem =
  RouteItem (rnode: node) (children: "routeItem list") (apis: "(string \<times> uint64) list option")

type_synonym sort_fn = "nodeType list \<Rightarrow> nat list"

definition sort_Slice :: "sort_fn \<Rightarrow> routeItem list \<Rightarrow> routeItem list" where
  "sort_Slice srt items = map ((!) items) (srt (map (nt \<circ> rnode) items))"

text \<open>A map read that yields the zero value for a missing key.\<close>

definition get0 :: "(string \<times> uint64) list \<Rightarrow> string \<Rightarrow> uint64" where
  "get0 m k = (case map_of m k of Some v \<Rightarrow> v | None \<Rightarrow> 0)"

definition bind_method :: "uint64 \<Rightarrow> string \<Rightarrow> routeItem \<Rightarrow> routeItem" where
  "bind_method aid method item =
     RouteItem (rnode item) (children item)
       (Some (AList.update method aid (case apis item of None \<Rightarrow> [] | Some m \<Rightarrow> m)))"

fun addChildren :: "sort_fn \<Rightarrow> uint64 \<Rightarrow> string \<Rightarrow> node list \<Rightarrow> routeItem \<Rightarrow> routeItem" where
  "addChildren srt aid method [] item = bind_method aid method item"
| "addChildren srt aid method (n # ns) item =
     (let p = addChildren srt aid method ns (RouteItem n [] None)
      in RouteItem (rnode item) (sort_Slice srt (children item @ [p])) (apis item))"

text \<open>The buffer \<^verbatim>\<open>matchAllParam\<close> is threaded through.\<close>

definition urlMatches :: "routeItem \<Rightarrow> node \<Rightarrow> string \<Rightarrow> bool \<times> string" where
  "urlMatches item n buf =
     (case nt (rnode item) of
        slashType \<Rightarrow> (nt n = slashType, buf)
      | numberType \<Rightarrow> (isNumberValue n, buf)
      | enumType \<Rightarrow> (inEnumValue (rnode item) (nvalue n), buf)
      | constType \<Rightarrow>
          if isMatchAllConstString (rnode item) then (True, buf @ CHR ''/'' # nvalue n)
          else (nvalue (rnode item) = nvalue n, buf)
      | stringType \<Rightarrow> (True, buf))"

definition matches :: "routeItem \<Rightarrow> node \<Rightarrow> bool" where
  "matches item n =
     (if nt (rnode item) \<noteq> nt n then False
      else case nt (rnode item) of
             slashType \<Rightarrow> True
           | numberType \<Rightarrow> True
           | stringType \<Rightarrow> True
           | constType \<Rightarrow> nvalue (rnode item) = nvalue n
           | enumType \<Rightarrow> True)"

type_synonym Route = routeItem

definition NewRoute :: Route where
  "NewRoute = RouteItem (mk_node slashType []) [] None"

datatype route_error = ErrParse parse_error | ErrConflict uint64

definition removeSlash :: "node list \<Rightarrow> node list" where
  "removeSlash nodes =
     map snd (filter (\<lambda>(idx, n). nt n \<noteq> slashType \<or> nt n = slashType \<and> idx = 0)
                (enumerate 0 nodes))"

text \<open>The branch \<^verbatim>\<open>matchedIdx == len(nodes)-1\<close> of \<^verbatim>\<open>Add\<close>, at the item the pattern ends in.\<close>

definition add_here ::
  "((string \<times> uint64) list \<Rightarrow> uint64) \<Rightarrow> API \<Rightarrow> routeItem \<Rightarrow> (route_error, routeItem) outcome" where
  "add_here pick api item =
     (case apis item of
        Some m \<Rightarrow>
          if api_Method api = ''*'' \<and> 0 < length m then Err (ErrConflict (pick m))
          else if get0 m ''*'' \<noteq> 0 then Err (ErrConflict (get0 m ''*''))
          else if get0 m (api_Method api) \<noteq> 0 then Err (ErrConflict (get0 m (api_Method api)))
          else Ok (bind_method (api_ID api) (api_Method api) item)
      | None \<Rightarrow> Ok (bind_method (api_ID api) (api_Method api) item))"

text \<open>The loop of \<^verbatim>\<open>Add\<close> below an item that matched: descend into the first matching child, rebuild
  the path on the way back; without one, hang the rest of the pattern below.\<close>

fun add_at ::
  "sort_fn \<Rightarrow> ((string \<times> uint64) list \<Rightarrow> uint64) \<Rightarrow> API \<Rightarrow> node list \<Rightarrow> routeItem
     \<Rightarrow> (route_error, routeItem) outcome"
and add_in ::
  "sort_fn \<Rightarrow> ((string \<times> uint64) list \<Rightarrow> uint64) \<Rightarrow> API \<Rightarrow> node \<Rightarrow> node list \<Rightarrow> routeItem list
     \<Rightarrow> (route_error, routeItem list) outcome option" where
  "add_at srt pick api [] item = add_here pick api item"
| "add_at srt pick api (n # ns) item =
     (case add_in srt pick api n ns (children item) of
        Some r \<Rightarrow> obind r (\<lambda>cs. Ok (RouteItem (rnode item) cs (apis item)))
      | None \<Rightarrow> Ok (addChildren srt (api_ID api) (api_Method api) (n # ns) item))"
| "add_in srt pick api n ns [] = None"
| "add_in srt pick api n ns (c # cs) =
     (if matches c n then Some (obind (add_at srt pick api ns c) (\<lambda>c'. Ok (c' # cs)))
      else map_option (\<lambda>r. obind r (\<lambda>cs'. Ok (c # cs'))) (add_in srt pick api n ns cs))"

definition Add ::
  "sort_fn \<Rightarrow> ((string \<times> uint64) list \<Rightarrow> uint64) \<Rightarrow> API \<Rightarrow> Route \<Rightarrow> (route_error, Route) outcome" where
  "Add srt pick api r =
     (case parse (newParser (api_URLPattern api)) of
        Panic \<Rightarrow> Panic
      | Err e \<Rightarrow> Err (ErrParse e)
      | Ok nodes \<Rightarrow>
          (case removeSlash nodes of
             [] \<Rightarrow> Panic
           | n # ns \<Rightarrow>
               if matches r n then add_at srt pick api ns r
               else (case add_in srt pick api n ns (children r) of
                       Some x \<Rightarrow> obind x (\<lambda>cs. Ok (RouteItem (rnode r) cs (apis r)))
                     | None \<Rightarrow> if ns = [] then add_here pick api r
                               else Ok (addChildren srt (api_ID api) (api_Method api) ns r))))"

text \<open>\<^verbatim>\<open>Find\<close>: \<open>find_item\<close> is the inner loop over \<^verbatim>\<open>target\<close>, \<open>find_loop\<close> the outer one over the
  URL's nodes. The calls of \<^verbatim>\<open>paramsFunc\<close> are collected in order; \<open>params\<close> is whether the callback is
  non-nil.\<close>

record find_state =
  matchAllParams :: string
  target :: "routeItem list"
  matchesItem :: "routeItem option"
  matchedIdx :: nat
  calls :: "(string \<times> string) list"

fun find_item :: "bool \<Rightarrow> nat \<Rightarrow> node \<Rightarrow> routeItem list \<Rightarrow> find_state \<Rightarrow> find_state" where
  "find_item params idx n [] st = st"
| "find_item params idx n (item # items) st =
     (let (m, buf) = urlMatches item n (matchAllParams st); st = st\<lparr>matchAllParams := buf\<rparr>
      in if m then
           st\<lparr>matchedIdx := idx, matchesItem := Some item,
              calls := calls st @
                (if hasArg (rnode item) \<and> params then [(argName (rnode item), nvalue n)] else []),
              target := (if \<not> isMatchAllConstString (rnode item) then children item else target st)\<rparr>
         else find_item params idx n items st)"

fun find_loop :: "bool \<Rightarrow> nat \<Rightarrow> node list \<Rightarrow> find_state \<Rightarrow> find_state" where
  "find_loop params idx [] st = st"
| "find_loop params idx (n # ns) st =
     find_loop params (Suc idx) ns (find_item params idx n (target st) st)"

definition find_result :: "bool \<Rightarrow> string \<Rightarrow> nat \<Rightarrow> find_state
    \<Rightarrow> (unit, (uint64 \<times> bool) \<times> (string \<times> string) list) outcome" where
  "find_result params method len st =
     (if Suc (matchedIdx st) = len then
        (case matchesItem st of
           None \<Rightarrow> Panic
         | Some item \<Rightarrow>
             (case apis item of
                None \<Rightarrow> Ok ((0, False), calls st)
              | Some m \<Rightarrow>
                  (let cs = calls st @ (if params \<and> 0 < length (matchAllParams st)
                                        then [(''*'', tl (matchAllParams st))] else [])
                   in (case map_of m method of
                         Some aid \<Rightarrow> Ok ((aid, True), cs)
                       | None \<Rightarrow> (case map_of m ''*'' of
                                    Some aid \<Rightarrow> Ok ((aid, True), cs)
                                  | None \<Rightarrow> Ok ((0, False), cs))))))
      else Ok ((0, False), calls st))"

definition Find :: "bool \<Rightarrow> Route \<Rightarrow> string \<Rightarrow> string
    \<Rightarrow> (unit, (uint64 \<times> bool) \<times> (string \<times> string) list) outcome" where
  "Find params r url method =
     (case parse (newParser url) of
        Panic \<Rightarrow> Panic
      | Err e \<Rightarrow> Ok ((0, False), [])
      | Ok nodes \<Rightarrow>
          (let nodes = removeSlash nodes
           in find_result params method (length nodes)
                (find_loop params 0 nodes
                   \<lparr>matchAllParams = [], target = [r], matchesItem = None, matchedIdx = 0, calls = []\<rparr>)))"

subsection \<open>The contract of \<^verbatim>\<open>sort.Slice\<close>\<close>

locale sort_slice =
  fixes srt :: "'k::linorder list \<Rightarrow> nat list"
  assumes srt_perm: "mset (srt ks) = mset [0..<length ks]"
    and srt_sorted: "sorted (map ((!) ks) (srt ks))"
begin

lemma mset_permuted: "length ks = length xs \<Longrightarrow> mset (map ((!) xs) (srt ks)) = mset xs"
  by (metis map_nth mset_map srt_perm)

end

definition stable_srt :: "'k::linorder list \<Rightarrow> nat list" where
  "stable_srt ks = sort_key ((!) ks) [0..<length ks]"

interpretation st: sort_slice stable_srt
  by unfold_locales (simp_all add: stable_srt_def)

subsection \<open>The abstract table\<close>

text \<open>What \<^verbatim>\<open>matches\<close> distinguishes of a node is its key; a table maps the keys of a pattern and a
  method to an API.\<close>

datatype key = KSlash | KNumber | KString | KEnum | KConst string

fun key_of :: "nodeType \<Rightarrow> string \<Rightarrow> key" where
  "key_of slashType v = KSlash"
| "key_of numberType v = KNumber"
| "key_of stringType v = KString"
| "key_of enumType v = KEnum"
| "key_of constType v = KConst v"

definition node_key :: "node \<Rightarrow> key" where
  "node_key n = key_of (nt n) (nvalue n)"

abbreviation ikey :: "routeItem \<Rightarrow> key" where
  "ikey c \<equiv> node_key (rnode c)"

lemma matches_key: "matches item n \<longleftrightarrow> ikey item = node_key n"
  by (cases "nt (rnode item)"; cases "nt n") (auto simp: matches_def node_key_def)

type_synonym table = "key list \<Rightarrow> string \<Rightarrow> uint64 option"

definition child :: "routeItem list \<Rightarrow> key \<Rightarrow> routeItem option" where
  "child cs k = map_of (map (\<lambda>c. (ikey c, c)) cs) k"

fun lookup :: "routeItem \<Rightarrow> table" where
  "lookup item [] m = (case apis item of None \<Rightarrow> None | Some a \<Rightarrow> map_of a m)"
| "lookup item (k # ks) m = (case child (children item) k of None \<Rightarrow> None | Some c \<Rightarrow> lookup c ks m)"

definition table_upd :: "table \<Rightarrow> key list \<Rightarrow> string \<Rightarrow> uint64 \<Rightarrow> table" where
  "table_upd T ks m i = (\<lambda>ks' m'. if ks' = ks \<and> m' = m then Some i else T ks' m')"

text \<open>A binding with identifier zero is not seen as a binding by the conflict test.\<close>

definition occupied :: "uint64 option \<Rightarrow> bool" where
  "occupied v \<longleftrightarrow> v \<noteq> None \<and> v \<noteq> Some 0"

definition conflict :: "table \<Rightarrow> key list \<Rightarrow> string \<Rightarrow> bool" where
  "conflict T ks m \<longleftrightarrow> m = ''*'' \<and> (\<exists>m'. T ks m' \<noteq> None) \<or> occupied (T ks ''*'') \<or> occupied (T ks m)"

text \<open>The invariant of the tree: the children of an item have different keys and are ordered by node
  type.\<close>

fun tree_inv :: "routeItem \<Rightarrow> bool" where
  "tree_inv (RouteItem n cs a) \<longleftrightarrow>
     distinct (map ikey cs) \<and> sorted (map (nt \<circ> rnode) cs) \<and> list_all tree_inv cs"

lemma tree_inv_iff: "tree_inv item \<longleftrightarrow> distinct (map ikey (children item)) \<and>
    sorted (map (nt \<circ> rnode) (children item)) \<and> (\<forall>c\<in>set (children item). tree_inv c)"
  by (cases item) (simp add: list_all_iff)

lemma child_append: "child (cs @ ds) k = (case child cs k of Some c \<Rightarrow> Some c | None \<Rightarrow> child ds k)"
  by (simp add: child_def map_add_def split: option.splits)

lemma child_Cons [simp]:
  "child [] k = None" "child (c # cs) k = (if k = ikey c then Some c else child cs k)"
  by (simp_all add: child_def)

lemma child_None: "child cs k = None \<longleftrightarrow> k \<notin> ikey ` set cs"
  by (induction cs) auto

lemma child_SomeD: "child cs k = Some c \<Longrightarrow> c \<in> set cs \<and> ikey c = k"
  by (induction cs) (auto split: if_splits)

lemma child_perm:
  assumes "mset cs = mset ds" "distinct (map ikey ds)"
  shows "child cs = child ds"
proof -
  have "mset (map ikey cs) = mset (map ikey ds)" using assms(1) by simp
  then have "distinct (map ikey cs)" using assms(2) mset_eq_imp_distinct_iff by blast
  then have "map_of (map (\<lambda>c. (ikey c, c)) cs) = map_of (map (\<lambda>c. (ikey c, c)) ds)"
    using assms mset_eq_setD [OF assms(1)] by (subst map_of_inject_set) (simp_all add: comp_def)
  then show ?thesis by (simp add: child_def fun_eq_iff)
qed

lemma get0_occupied: "get0 m k \<noteq> 0 \<longleftrightarrow> occupied (map_of m k)"
  by (auto simp: get0_def occupied_def split: option.splits)

lemma bind_method_simps [simp]:
  "rnode (bind_method i m item) = rnode item" "children (bind_method i m item) = children item"
  "tree_inv (bind_method i m item) = tree_inv item"
  by (cases item; simp add: bind_method_def)+

lemma lookup_bind_method: "lookup (bind_method i m item) = table_upd (lookup item) [] m i"
proof (intro ext)
  fix ks m'
  show "lookup (bind_method i m item) ks m' = table_upd (lookup item) [] m i ks m'"
    by (cases ks) (auto simp: table_upd_def bind_method_def update_conv' split: option.splits)
qed

lemma lookup_below:
  assumes "children item' = children item @ [c]" "child (children item) (ikey c) = None" "apis item' = apis item"
    and "lookup c = table_upd (\<lambda>_ _. None) ks m i"
  shows "lookup item' = table_upd (lookup item) (ikey c # ks) m i"
proof (intro ext)
  fix ks' m'
  show "lookup item' ks' m' = table_upd (lookup item) (ikey c # ks) m i ks' m'"
    using assms by (cases ks') (auto simp: table_upd_def child_append split: option.splits)
qed

lemma lookup_child_cong:
  "child (children a) = child (children b) \<Longrightarrow> apis a = apis b \<Longrightarrow> lookup a = lookup b"
proof (intro ext)
  fix ks m
  assume "child (children a) = child (children b)" "apis a = apis b"
  then show "lookup a ks m = lookup b ks m" by (cases ks) simp_all
qed

lemma lookup_fresh: "lookup (RouteItem n [] None) = (\<lambda>_ _. None)"
proof (intro ext)
  fix ks m
  show "lookup (RouteItem n [] None) ks m = None" by (cases ks) simp_all
qed

lemma lookup_replace:
  assumes "children item = pre @ c # post" "distinct (map ikey (children item))" "ikey c' = ikey c"
    and "lookup c' = table_upd (lookup c) ks m i"
  shows "lookup (RouteItem n (pre @ c' # post) (apis item)) = table_upd (lookup item) (ikey c # ks) m i"
proof (intro ext)
  fix ks' m'
  have "ikey c \<notin> ikey ` set pre" using assms by auto
  then have "child pre (ikey c) = None" by (simp add: child_None)
  then show "lookup (RouteItem n (pre @ c' # post) (apis item)) ks' m'
      = table_upd (lookup item) (ikey c # ks) m i ks' m'"
    using assms by (cases ks') (auto simp: table_upd_def child_append split: option.splits)
qed

text \<open>The children loop of \<^verbatim>\<open>Add\<close> either finds no child with the key or descends into the only one.\<close>

lemma add_in_cases:
  "(case child cs (node_key n) of
      None \<Rightarrow> add_in srt pick api n ns cs = None
    | Some c \<Rightarrow> \<exists>pre post. cs = pre @ c # post \<and> ikey c = node_key n \<and>
        add_in srt pick api n ns cs
          = Some (obind (add_at srt pick api ns c) (\<lambda>c'. Ok (pre @ c' # post))))"
proof (induction cs)
  case (Cons d cs)
  show ?case
  proof (cases "ikey d = node_key n")
    case True
    then show ?thesis by (auto simp: matches_key intro: exI [of _ "[]"])
  next
    case False
    show ?thesis
    proof (cases "child cs (node_key n)")
      case (Some c)
      then obtain pre post where *: "cs = pre @ c # post" "ikey c = node_key n"
        "add_in srt pick api n ns cs
          = Some (obind (add_at srt pick api ns c) (\<lambda>c'. Ok (pre @ c' # post)))"
        using Cons.IH by auto
      then have "d # cs = (d # pre) @ c # post"
        "add_in srt pick api n ns (d # cs)
          = Some (obind (add_at srt pick api ns c) (\<lambda>c'. Ok ((d # pre) @ c' # post)))"
        using False by (cases "add_at srt pick api ns c"; auto simp: matches_key)+
      moreover have "child (d # cs) (node_key n) = Some c" using Some False by simp
      ultimately show ?thesis using *(2) by (simp only: option.case) blast
    qed (use Cons.IH False in \<open>auto simp: matches_key\<close>)
  qed
qed simp

text \<open>What \<^verbatim>\<open>Add\<close> may answer, against the abstract table.\<close>

fun add_spec :: "table \<Rightarrow> key list \<Rightarrow> API \<Rightarrow> node \<Rightarrow> (route_error, routeItem) outcome \<Rightarrow> bool" where
  "add_spec T ks api n (Ok item) \<longleftrightarrow>
     \<not> conflict T ks (api_Method api) \<and> tree_inv item \<and> rnode item = n
     \<and> lookup item = table_upd T ks (api_Method api) (api_ID api)"
| "add_spec T ks api n (Err (ErrConflict c)) \<longleftrightarrow> conflict T ks (api_Method api)"
| "add_spec T ks api n (Err (ErrParse e)) \<longleftrightarrow> False"
| "add_spec T ks api n Panic \<longleftrightarrow> False"

locale route_sorter = sort_slice srt for srt :: "nodeType list \<Rightarrow> nat list"
begin

lemma sort_Slice_mset: "mset (sort_Slice srt cs) = mset cs"
  using mset_permuted [of "map (nt \<circ> rnode) cs" cs] by (simp add: sort_Slice_def)

lemma sort_Slice_sorted: "sorted (map (nt \<circ> rnode) (sort_Slice srt cs))"
proof -
  have "set (srt (map (nt \<circ> rnode) cs)) = {0..<length cs}"
    using srt_perm [of "map (nt \<circ> rnode) cs"] by (metis length_map mset_eq_setD set_upt)
  then have "map (nt \<circ> rnode) (sort_Slice srt cs)
      = map ((!) (map (nt \<circ> rnode) cs)) (srt (map (nt \<circ> rnode) cs))"
    by (auto simp: sort_Slice_def)
  then show ?thesis using srt_sorted by simp
qed

lemma sort_child:
  assumes "distinct (map ikey cs)" "child cs (ikey c) = None"
  shows "child (sort_Slice srt (cs @ [c])) = child (cs @ [c])"
    and "distinct (map ikey (sort_Slice srt (cs @ [c])))"
proof -
  have d: "distinct (map ikey (cs @ [c]))" using assms by (auto simp: child_None)
  then show "child (sort_Slice srt (cs @ [c])) = child (cs @ [c])"
    by (intro child_perm sort_Slice_mset)
  have "mset (map ikey (sort_Slice srt (cs @ [c]))) = mset (map ikey (cs @ [c]))"
    by (simp only: mset_map sort_Slice_mset)
  with d show "distinct (map ikey (sort_Slice srt (cs @ [c])))"
    using mset_eq_imp_distinct_iff by blast
qed

lemma sort_Slice_set: "set (sort_Slice srt cs) = set cs"
  using mset_eq_setD [OF sort_Slice_mset] .

lemma addChildren_refines:
  assumes "tree_inv item" "ns \<noteq> [] \<Longrightarrow> child (children item) (node_key (hd ns)) = None"
  shows "tree_inv (addChildren srt i m ns item)
    \<and> rnode (addChildren srt i m ns item) = rnode item
    \<and> lookup (addChildren srt i m ns item) = table_upd (lookup item) (map node_key ns) m i"
  using assms
proof (induction ns arbitrary: item)
  case Nil
  then show ?case by (simp add: lookup_bind_method)
next
  case (Cons n ns)
  let ?p = "addChildren srt i m ns (RouteItem n [] None)"
  let ?new = "RouteItem (rnode item) (children item @ [?p]) (apis item)"
  have p: "tree_inv ?p" "rnode ?p = n" "lookup ?p = table_upd (\<lambda>_ _. None) (map node_key ns) m i"
    using Cons.IH [of "RouteItem n [] None"] by (simp_all add: lookup_fresh)
  have d: "distinct (map ikey (children item))" "child (children item) (ikey ?p) = None"
    using Cons.prems p by (simp_all add: tree_inv_iff [of item])
  have "lookup (addChildren srt i m (n # ns) item) = lookup ?new"
    using sort_child [OF d] by (intro lookup_child_cong) (simp_all add: Let_def)
  also have "\<dots> = table_upd (lookup item) (ikey ?p # map node_key ns) m i"
    using d p by (intro lookup_below) simp_all
  finally show ?case
    using Cons.prems(1) p sort_child(2) [OF d] sort_Slice_sorted [of "children item @ [?p]"]
    by (auto simp: tree_inv_iff [of item] Let_def sort_Slice_set list_all_iff)
qed

lemma conflict_here:
  "apis item = Some a \<Longrightarrow> conflict (lookup item) [] m
     \<longleftrightarrow> m = ''*'' \<and> 0 < length a \<or> get0 a ''*'' \<noteq> 0 \<or> get0 a m \<noteq> 0"
  by (cases a) (auto simp: conflict_def get0_occupied map_of_eq_None_iff)

lemma add_here_refines:
  assumes "tree_inv item"
  shows "add_spec (lookup item) [] api (rnode item) (add_here pick api item)"
proof (cases "apis item")
  case None
  then show ?thesis
    using assms by (simp add: add_here_def lookup_bind_method conflict_def occupied_def)
next
  case (Some a)
  then show ?thesis
    using assms conflict_here [OF Some, of "api_Method api"]
    by (auto simp: add_here_def lookup_bind_method)
qed

lemma conflict_child:
  "child (children item) k = Some c \<Longrightarrow> conflict (lookup item) (k # ks) m = conflict (lookup c) ks m"
  by (simp add: conflict_def)

lemma tree_inv_replace:
  assumes "tree_inv item" "children item = pre @ c # post" "rnode c' = rnode c" "tree_inv c'"
  shows "tree_inv (RouteItem (rnode item) (pre @ c' # post) a)"
  using assms by (auto simp: tree_inv_iff [of item] list_all_iff)

lemma add_at_refines:
  assumes "tree_inv item"
  shows "add_spec (lookup item) (map node_key ns) api (rnode item) (add_at srt pick api ns item)"
  using assms
proof (induction ns arbitrary: item)
  case Nil
  then show ?case using add_here_refines [of item api pick] by simp
next
  case (Cons n ns)
  show ?case
  proof (cases "child (children item) (node_key n)")
    case None
    then have "\<not> conflict (lookup item) (map node_key (n # ns)) (api_Method api)"
      by (simp add: conflict_def occupied_def)
    then show ?thesis
      using None add_in_cases [where cs = "children item" and n = n and srt = srt and pick = pick and api = api and ns = ns]
        addChildren_refines [OF Cons.prems, of "n # ns" "api_ID api" "api_Method api"]
      by simp
  next
    case (Some c)
    then obtain pre post where *: "children item = pre @ c # post" "ikey c = node_key n"
      "add_in srt pick api n ns (children item)
          = Some (obind (add_at srt pick api ns c) (\<lambda>c'. Ok (pre @ c' # post)))"
      using add_in_cases [where cs = "children item" and n = n and srt = srt and pick = pick and api = api and ns = ns] by auto
    have c: "tree_inv c" "distinct (map ikey (children item))"
      using Cons.prems * by (auto simp: tree_inv_iff [of item])
    note IH = Cons.IH [OF c(1)]
    show ?thesis
    proof (cases "add_at srt pick api ns c")
      case (Ok c')
      then have "lookup (RouteItem (rnode item) (pre @ c' # post) (apis item))
          = table_upd (lookup item) (ikey c # map node_key ns) (api_Method api) (api_ID api)"
        using IH c * by (intro lookup_replace) auto
      then show ?thesis
        using IH Ok * c Some tree_inv_replace [OF Cons.prems *(1), of c' "apis item"]
        by (simp add: conflict_child)
    next
      case (Err e)
      then show ?thesis using IH * Some by (cases e) (simp_all add: conflict_child)
    qed (use IH * Some in simp)
  qed
qed

end

interpretation rs: route_sorter stable_srt ..

subsection \<open>\<^verbatim>\<open>Add\<close> implements the abstract table\<close>

definition route_ok :: "Route \<Rightarrow> bool" where
  "route_ok r \<longleftrightarrow> tree_inv r \<and> rnode r = mk_node slashType []"

definition pattern_keys :: "node list \<Rightarrow> key list" where
  "pattern_keys nodes = map node_key (tl (removeSlash nodes))"

lemma filter_enumerate_pos:
  "0 < k \<Longrightarrow> map snd (filter (\<lambda>(i, n). nt n = slashType \<longrightarrow> i = 0) (enumerate k xs))
     = filter (\<lambda>n. nt n \<noteq> slashType) xs"
  by (induction xs arbitrary: k) auto

lemma removeSlash_Cons:
  "removeSlash (n # ns) = n # filter (\<lambda>n. nt n \<noteq> slashType) ns"
  by (auto simp: removeSlash_def filter_enumerate_pos)

lemma parse_slash: "parse (newParser inp) = Ok nodes \<Longrightarrow>
    \<exists>ns. nodes = slash_node # ns \<and> removeSlash nodes = slash_node # filter (\<lambda>n. nt n \<noteq> slashType) ns"
proof -
  assume "parse (newParser inp) = Ok nodes"
  then have "nodes_wf nodes"
    using parse_loop_inv [OF newScanner_live, of tokenUnknown "[]"]
    by (auto simp: parse_def newParser_def Let_def split: if_splits)
  then show ?thesis by (cases nodes) (auto simp: nodes_wf_def removeSlash_Cons)
qed

lemma Add_spec:
  assumes "route_sorter srt" "route_ok r" "parse (newParser (api_URLPattern api)) = Ok nodes"
  shows "add_spec (lookup r) (pattern_keys nodes) api (rnode r) (Add srt pick api r)"
proof -
  obtain ns where ns: "removeSlash nodes = slash_node # ns"
    using parse_slash [OF assms(3)] by auto
  moreover have "matches r slash_node"
    using assms(2) by (simp add: matches_def route_ok_def mk_node_def)
  ultimately show ?thesis
    using route_sorter.add_at_refines [OF assms(1), where item = r and api = api and ns = ns and pick = pick] assms
    by (simp add: Add_def pattern_keys_def route_ok_def)
qed

lemma Add_outcome:
  assumes "route_sorter srt" "route_ok r"
  shows "case Add srt pick api r of
      Ok r' \<Rightarrow> route_ok r' \<and> (\<exists>nodes. parse (newParser (api_URLPattern api)) = Ok nodes \<and>
        \<not> conflict (lookup r) (pattern_keys nodes) (api_Method api) \<and>
        lookup r' = table_upd (lookup r) (pattern_keys nodes) (api_Method api) (api_ID api))
    | Err (ErrConflict c) \<Rightarrow> (\<exists>nodes. parse (newParser (api_URLPattern api)) = Ok nodes \<and>
        conflict (lookup r) (pattern_keys nodes) (api_Method api))
    | Err (ErrParse e) \<Rightarrow> parse (newParser (api_URLPattern api)) = Err e
    | Panic \<Rightarrow> False"
proof (cases "parse (newParser (api_URLPattern api))")
  case (Ok nodes)
  then show ?thesis
    using Add_spec [OF assms Ok, of pick] assms(2)
    by (cases "Add srt pick api r" rule: add_spec.cases [of "(T, ks, a, n, x)" for T ks a n x, simplified])
      (auto simp: route_ok_def split: outcome.splits route_error.splits)
next
  case Panic
  then show ?thesis
    using parse_loop_inv [OF newScanner_live, of tokenUnknown "[]"]
    by (auto simp: parse_def newParser_def Let_def split: if_splits)
qed (simp add: Add_def)

text \<open>C19 --- refinement of the route table. On a well-formed table, whatever order \<^verbatim>\<open>sort.Slice\<close>
  gives to equal keys, \<^verbatim>\<open>Add\<close> of an API whose pattern parses either reports a conflict exactly when
  the abstract table has one for this pattern and method, or returns a well-formed table that maps the
  pattern and method to the API's identifier and agrees with the old table everywhere else; a pattern
  that does not parse is reported and nothing else can happen.\<close>

theorem Add_refines:
  assumes "route_sorter srt" "route_ok r"
  shows "case Add srt pick api r of
      Ok r' \<Rightarrow> route_ok r' \<and> (\<exists>nodes. parse (newParser (api_URLPattern api)) = Ok nodes \<and>
        \<not> conflict (lookup r) (pattern_keys nodes) (api_Method api) \<and>
        lookup r' = table_upd (lookup r) (pattern_keys nodes) (api_Method api) (api_ID api))
    | Err (ErrConflict c) \<Rightarrow> (\<exists>nodes. parse (newParser (api_URLPattern api)) = Ok nodes \<and>
        conflict (lookup r) (pattern_keys nodes) (api_Method api))
    | Err (ErrParse e) \<Rightarrow> parse (newParser (api_URLPattern api)) = Err e
    | Panic \<Rightarrow> False"
  using assms by (rule Add_outcome)

definition demo_api :: "uint64 \<Rightarrow> string \<Rightarrow> string \<Rightarrow> API" where
  "demo_api i pat m = zero_api\<lparr>api_ID := i, api_URLPattern := pat, api_Method := m\<rparr>"

lemma demo_api_simps [simp]:
  "api_ID (demo_api i pat m) = i" "api_URLPattern (demo_api i pat m) = pat" "api_Method (demo_api i pat m) = m"
  by (simp_all add: demo_api_def)

definition demo_pick :: "(string \<times> uint64) list \<Rightarrow> uint64" where
  "demo_pick m = snd (hd m)"

theorem Add_refines_witness:
  "case Add stable_srt demo_pick (demo_api 7 ''/users/(number):id'' ''GET'') NewRoute of
     Ok r \<Rightarrow> route_ok r | _ \<Rightarrow> True"
  using Add_refines [of stable_srt NewRoute "demo_api 7 ''/users/(number):id'' ''GET''" demo_pick]
    rs.route_sorter_axioms
  by (auto simp: route_ok_def NewRoute_def mk_node_def split: outcome.splits)

subsection \<open>\<^verbatim>\<open>Find\<close>\<close>

fun item_at :: "routeItem \<Rightarrow> key list \<Rightarrow> routeItem option" where
  "item_at item [] = Some item"
| "item_at item (k # ks) = (case child (children item) k of None \<Rightarrow> None | Some c \<Rightarrow> item_at c ks)"

lemma lookup_item_at:
  "lookup item ks m = (case item_at item ks of None \<Rightarrow> None | Some t \<Rightarrow> lookup t [] m)"
  by (induction item ks rule: item_at.induct) (auto split: option.splits)

lemma item_at_snoc:
  "item_at item ks = Some t \<Longrightarrow> item_at item (ks @ [k]) = child (children t) k"
  by (induction item ks rule: item_at.induct) (auto split: option.splits)

lemma item_at_inv: "item_at item ks = Some t \<Longrightarrow> tree_inv item \<Longrightarrow> tree_inv t"
proof (induction item ks rule: item_at.induct)
  case (2 item k ks)
  then show ?case
    by (auto simp: tree_inv_iff [of item] split: option.splits dest!: child_SomeD)
qed simp

lemma child_self: "distinct (map ikey cs) \<Longrightarrow> c \<in> set cs \<Longrightarrow> child cs (ikey c) = Some c"
proof (induction cs)
  case (Cons a cs)
  show ?case
  proof (cases "c = a")
    case False
    then have "ikey c \<in> ikey ` set cs" using Cons.prems by simp
    then have "ikey c \<noteq> ikey a" using Cons.prems by (metis distinct.simps(2) image_set list.simps(9))
    then show ?thesis using Cons False by simp
  qed simp
qed simp

definition in_tree :: "routeItem \<Rightarrow> routeItem \<Rightarrow> bool" where
  "in_tree r t \<longleftrightarrow> (\<exists>ks. item_at r ks = Some t)"

lemma in_tree_child:
  assumes "tree_inv r" "in_tree r t" "c \<in> set (children t)"
  shows "in_tree r c"
proof -
  obtain ks where ks: "item_at r ks = Some t" using assms(2) by (auto simp: in_tree_def)
  then have "distinct (map ikey (children t))"
    using item_at_inv assms(1) tree_inv_iff [of t] by blast
  then show ?thesis
    using item_at_snoc [OF ks, of "ikey c"] child_self assms(3) by (auto simp: in_tree_def)
qed

text \<open>What the search keeps: its targets and its last match are items of the tree.\<close>

definition find_inv :: "routeItem \<Rightarrow> find_state \<Rightarrow> bool" where
  "find_inv r st \<longleftrightarrow> (\<forall>t\<in>set (target st). in_tree r t) \<and> pred_option (in_tree r) (matchesItem st)"

lemma find_item_inv:
  "tree_inv r \<Longrightarrow> find_inv r st \<Longrightarrow> \<forall>t\<in>set items. in_tree r t \<Longrightarrow> find_inv r (find_item params idx n items st)"
proof (induction items arbitrary: st)
  case (Cons item items)
  obtain m b where u: "urlMatches item n (matchAllParams st) = (m, b)" by fastforce
  have st: "find_inv r (st\<lparr>matchAllParams := b\<rparr>)"
    using Cons.prems by (simp add: find_inv_def)
  show ?case
  proof (cases m)
    case True
    have "\<forall>t\<in>set (children item). in_tree r t"
      using in_tree_child [of r item] Cons.prems by simp
    then show ?thesis using True u st Cons.prems by (simp add: find_inv_def Let_def)
  next
    case False
    then show ?thesis using Cons.IH [OF Cons.prems(1) st] Cons.prems u by simp
  qed
qed simp

lemma find_loop_inv:
  "tree_inv r \<Longrightarrow> find_inv r st \<Longrightarrow> find_inv r (find_loop params idx ns st)"
proof (induction ns arbitrary: idx st)
  case (Cons n ns)
  then have "find_inv r (find_item params idx n (target st) st)"
    by (intro find_item_inv) (simp_all add: find_inv_def)
  then show ?case using Cons by simp
qed simp

lemma find_item_Some:
  "matchesItem st \<noteq> None \<Longrightarrow> matchesItem (find_item params idx n items st) \<noteq> None"
  by (induction items arbitrary: st) (auto simp: Let_def split: prod.splits)

lemma find_loop_Some:
  "matchesItem st \<noteq> None \<Longrightarrow> matchesItem (find_loop params idx ns st) \<noteq> None"
  using find_item_Some by (induction ns arbitrary: idx st) auto

lemma find_root:
  assumes "rnode r = mk_node slashType []"
  shows "find_loop params 0 (slash_node # ns)
      \<lparr>matchAllParams = [], target = [r], matchesItem = None, matchedIdx = 0, calls = []\<rparr>
    = find_loop params 1 ns
      \<lparr>matchAllParams = [], target = children r, matchesItem = Some r, matchedIdx = 0, calls = []\<rparr>"
  using assms by (simp add: urlMatches_def mk_node_def isMatchAllConstString_def)

lemma Find_cases:
  assumes "route_ok r"
  obtains (no_parse) "Find params r url meth = Ok ((0, False), [])"
  | (search) ns st where "parse (newParser url) = Ok (slash_node # ns)"
      "st = find_loop params 1 (filter (\<lambda>n. nt n \<noteq> slashType) ns)
         \<lparr>matchAllParams = [], target = children r, matchesItem = Some r, matchedIdx = 0, calls = []\<rparr>"
      "Find params r url meth
         = find_result params meth (Suc (length (filter (\<lambda>n. nt n \<noteq> slashType) ns))) st"
proof (cases "parse (newParser url)")
  case (Ok nodes)
  then obtain ns where ns: "nodes = slash_node # ns"
    "removeSlash nodes = slash_node # filter (\<lambda>n. nt n \<noteq> slashType) ns"
    using parse_slash by blast
  show ?thesis
    by (rule search [of ns]) (use Ok ns assms find_root [of r] in \<open>simp_all add: Find_def route_ok_def\<close>)
next
  case (Err e)
  then show ?thesis by (intro no_parse) (simp add: Find_def)
next
  case Panic
  then show ?thesis
    using parse_loop_inv [OF newScanner_live, of tokenUnknown "[]"]
    by (auto simp: parse_def newParser_def Let_def split: if_splits)
qed

lemma find_result_found:
  assumes "find_result params method len st = Ok ((i, True), cs)"
  obtains item m where "matchesItem st = Some item" "lookup item [] m = Some i"
    "m = method \<or> m = ''*'' \<and> lookup item [] method = None"
  using assms by (auto simp: find_result_def Let_def split: if_splits option.splits)

lemma Find_outcome:
  assumes "route_ok r"
  shows "case Find params r url method of
      Ok ((i, found), cs) \<Rightarrow> found \<longrightarrow>
        (\<exists>ks. lookup r ks method = Some i \<or> lookup r ks method = None \<and> lookup r ks ''*'' = Some i)
    | Err e \<Rightarrow> False | Panic \<Rightarrow> False"
  using assms
proof (cases rule: Find_cases [where params = params and url = url and meth = "method"])
  case no_parse
  then show ?thesis by simp
next
  case (search ns st)
  let ?st0 = "\<lparr>matchAllParams = [], target = children r, matchesItem = Some r, matchedIdx = 0, calls = []\<rparr>"
  have r: "tree_inv r" "in_tree r r"
    using assms by (auto simp: route_ok_def in_tree_def intro: exI [of _ "[]"])
  then have "find_inv r ?st0" using in_tree_child [OF r] by (simp add: find_inv_def)
  then have inv: "find_inv r st" using find_loop_inv [OF r(1)] search by simp
  have some: "matchesItem st \<noteq> None" using find_loop_Some search by simp
  show ?thesis
  proof (cases "Find params r url method")
    case (Ok res)
    obtain i found cs where res: "res = ((i, found), cs)" by (metis surj_pair)
    have "\<exists>ks. lookup r ks method = Some i \<or> lookup r ks method = None \<and> lookup r ks ''*'' = Some i"
      if "found"
    proof -
      have fr: "find_result params method (Suc (length (filter (\<lambda>n. nt n \<noteq> slashType) ns))) st
          = Ok ((i, True), cs)"
        using Ok res search(3) that by simp
      obtain item m where *: "matchesItem st = Some item" "lookup item [] m = Some i"
        "m = method \<or> m = ''*'' \<and> lookup item [] method = None"
        by (rule find_result_found [OF fr])
      then obtain ks where "item_at r ks = Some item"
        using inv by (auto simp: find_inv_def in_tree_def)
      then have "lookup r ks m' = lookup item [] m'" for m' by (subst lookup_item_at) simp
      then show ?thesis using * by metis
    qed
    then show ?thesis using Ok res by simp
  next
    case (Err e)
    then show ?thesis using search(3) by (auto simp: find_result_def Let_def split: if_splits option.splits)
  next
    case Panic
    then show ?thesis using some search(3)
      by (auto simp: find_result_def Let_def split: if_splits option.splits)
  qed
qed



subsection \<open>Added constant patterns are found\<close>

text \<open>A property of every node below the root.\<close>

fun all_nodes :: "(node \<Rightarrow> bool) \<Rightarrow> routeItem \<Rightarrow> bool" where
  "all_nodes P (RouteItem n cs a) \<longleftrightarrow> list_all (\<lambda>c. P (rnode c) \<and> all_nodes P c) cs"

lemma all_nodes_iff: "all_nodes P item \<longleftrightarrow> (\<forall>c\<in>set (children item). P (rnode c) \<and> all_nodes P c)"
  by (cases item) (simp add: list_all_iff)

lemma all_nodes_bind [simp]: "all_nodes P (bind_method i m item) = all_nodes P item"
  by (cases item) (simp add: bind_method_def)

lemma all_nodes_children: "all_nodes P (RouteItem n (children item) a) = all_nodes P item"
  by (cases item) simp

context route_sorter
begin

lemma addChildren_nodes:
  "list_all P ns \<Longrightarrow> all_nodes P item \<Longrightarrow>
   all_nodes P (addChildren srt i m ns item) \<and> rnode (addChildren srt i m ns item) = rnode item"
proof (induction ns arbitrary: item)
  case (Cons n ns)
  let ?p = "addChildren srt i m ns (RouteItem n [] None)"
  have "all_nodes P ?p \<and> rnode ?p = n" using Cons.IH [of "RouteItem n [] None"] Cons.prems by simp
  then show ?case
    using Cons.prems by (simp add: all_nodes_iff [of P item] Let_def list_all_iff sort_Slice_set)
qed simp

lemma add_at_nodes:
  "list_all P ns \<Longrightarrow> all_nodes P item \<Longrightarrow> add_at srt pick api ns item = Ok item' \<Longrightarrow>
   all_nodes P item' \<and> rnode item' = rnode item"
proof (induction ns arbitrary: item item')
  case Nil
  then show ?case by (auto simp: add_here_def split: option.splits if_splits)
next
  case (Cons n ns)
  show ?case
  proof (cases "child (children item) (node_key n)")
    case None
    then show ?thesis
      using Cons.prems addChildren_nodes [of P "n # ns" item]
        add_in_cases [where cs = "children item" and n = n and srt = srt and pick = pick and api = api and ns = ns]
      by auto
  next
    case (Some c)
    then obtain pre post where *: "children item = pre @ c # post"
      "add_in srt pick api n ns (children item)
          = Some (obind (add_at srt pick api ns c) (\<lambda>c'. Ok (pre @ c' # post)))"
      using add_in_cases [where cs = "children item" and n = n and srt = srt and pick = pick and api = api and ns = ns]
      by auto
    then obtain c' where c': "add_at srt pick api ns c = Ok c'"
        "item' = RouteItem (rnode item) (pre @ c' # post) (apis item)"
      using Cons.prems by (auto simp: outcome_simps)
    have "P (rnode c) \<and> all_nodes P c" using Cons.prems(2) * by (simp add: all_nodes_iff [of P item])
    then have "P (rnode c') \<and> all_nodes P c'" using Cons.IH [OF _ _ c'(1)] Cons.prems(1) by simp
    then show ?thesis using c' Cons.prems(2) * by (simp add: all_nodes_iff [of P item] list_all_iff)
  qed
qed

end

definition plain :: "node \<Rightarrow> bool" where
  "plain n \<longleftrightarrow> nt n = constType \<and> nvalue n \<noteq> ''*''"

definition const_only :: "Route \<Rightarrow> bool" where
  "const_only r \<longleftrightarrow> route_ok r \<and> all_nodes plain r"

definition hits :: "routeItem \<Rightarrow> string \<Rightarrow> bool" where
  "hits c w \<longleftrightarrow> fst (urlMatches c (mk_node constType w) [])"

text \<open>Along the path of the words, no sibling of another kind accepts a word.\<close>

fun clear_path :: "routeItem \<Rightarrow> string list \<Rightarrow> bool" where
  "clear_path item [] \<longleftrightarrow> True"
| "clear_path item (w # ws) \<longleftrightarrow> w \<noteq> ''*'' \<and>
     list_all (\<lambda>c. hits c w \<longrightarrow> ikey c = KConst w) (children item) \<and>
     (case child (children item) (KConst w) of None \<Rightarrow> False | Some c \<Rightarrow> clear_path c ws)"

abbreviation words :: "string list \<Rightarrow> node list" where
  "words ws \<equiv> map (mk_node constType) ws"

lemma urlMatches_hits: "\<not> hits c w \<Longrightarrow> urlMatches c (mk_node constType w) buf = (False, buf)"
  by (auto simp: hits_def urlMatches_def split: nodeType.splits if_splits)

lemma node_key_const: "node_key n = KConst w \<longleftrightarrow> nt n = constType \<and> nvalue n = w"
  by (cases "nt n") (auto simp: node_key_def)

lemma find_item_clear:
  assumes "list_all (\<lambda>c. hits c w \<longrightarrow> ikey c = KConst w) cs" "child cs (KConst w) = Some c" "w \<noteq> ''*''"
  shows "find_item params idx (mk_node constType w) cs st
    = st\<lparr>matchedIdx := idx, matchesItem := Some c, target := children c,
        calls := calls st @ (if hasArg (rnode c) \<and> params then [(argName (rnode c), w)] else [])\<rparr>"
  using assms
proof (induction cs arbitrary: st)
  case (Cons d cs)
  show ?case
  proof (cases "ikey d = KConst w")
    case True
    then have "urlMatches d (mk_node constType w) b = (True, b)" for b
      using Cons.prems by (simp add: node_key_const urlMatches_def isMatchAllConstString_def mk_node_def)
    then show ?thesis
      using Cons.prems True by (auto simp: node_key_const isMatchAllConstString_def Let_def mk_node_def)
  next
    case False
    then have "urlMatches d (mk_node constType w) b = (False, b)" for b
      using Cons.prems by (simp add: urlMatches_hits)
    then show ?thesis using Cons False by simp
  qed
qed simp

lemma find_loop_clear:
  assumes "clear_path item ws" "item_at item (map KConst ws) = Some t" "target st = children item"
    "matchesItem st = Some item" "Suc (matchedIdx st) = idx"
  shows "\<exists>st'. find_loop params idx (words ws) st = st' \<and> matchesItem st' = Some t
    \<and> Suc (matchedIdx st') = idx + length ws \<and> matchAllParams st' = matchAllParams st"
  using assms
proof (induction ws arbitrary: item st idx)
  case (Cons w ws)
  then obtain c where c: "child (children item) (KConst w) = Some c" "clear_path c ws"
    "item_at c (map KConst ws) = Some t" by (auto split: option.splits)
  have "find_item params idx (mk_node constType w) (target st) st
    = st\<lparr>matchedIdx := idx, matchesItem := Some c, target := children c,
        calls := calls st @ (if hasArg (rnode c) \<and> params then [(argName (rnode c), w)] else [])\<rparr>"
    (is "_ = ?st")
    using Cons.prems c find_item_clear [of w "children item" c params idx st] by simp
  then show ?case
    using Cons.IH [OF c(2,3), of ?st "Suc idx"] by simp
qed simp

lemma pat_ok_words:
  "ws \<noteq> [] \<Longrightarrow> list_all (\<lambda>w. w \<noteq> [] \<and> wordy w) ws \<Longrightarrow> pat_ok (map CSeg ws)"
  by (induction ws rule: induct_list012) auto

lemma filter_pat_nodes:
  "filter (\<lambda>n. nt n \<noteq> slashType) (pat_nodes (map CSeg ws)) = words ws"
  by (induction ws) (auto simp: mk_node_def)

lemma parse_words:
  assumes "ws \<noteq> []" "list_all (\<lambda>w. w \<noteq> [] \<and> wordy w) ws"
  shows "parse (newParser (print_pat (map CSeg ws))) = Ok (pat_nodes (map CSeg ws))"
    and "removeSlash (pat_nodes (map CSeg ws)) = slash_node # words ws"
proof -
  obtain w ws' where ws: "ws = w # ws'" using assms by (cases ws) auto
  have "parses tokenSlash [slash_node] [] (print_seg (CSeg w) @ print_pat (map CSeg ws'))
      (Ok (pat_nodes (map CSeg ws)))"
    using parses_pat [of "CSeg w" "map CSeg ws'" "[]" "[slash_node]"] pat_ok_words [OF assms] ws by simp
  from parses_scan [OF lex_here this, where pend = "[]" and prev = tokenUnknown and ns = "[]"]
  have "parses tokenUnknown [] [] (print_pat (map CSeg ws)) (Ok (pat_nodes (map CSeg ws)))"
    using ws by (auto simp: with_scan_def)
  then show "parse (newParser (print_pat (map CSeg ws))) = Ok (pat_nodes (map CSeg ws))"
    using parse_newParser pat_last [OF pat_ok_words [OF assms]] ws by auto
  show "removeSlash (pat_nodes (map CSeg ws)) = slash_node # words ws"
    using filter_pat_nodes [of ws'] ws by (simp add: removeSlash_Cons) (simp add: mk_node_def)
qed

lemma Find_words_run:
  assumes "rnode r = mk_node slashType []" "ws \<noteq> []" "list_all (\<lambda>w. w \<noteq> [] \<and> wordy w) ws"
  shows "Find params r (print_pat (map CSeg ws)) method
    = find_result params method (Suc (length ws)) (find_loop params 1 (words ws)
        \<lparr>matchAllParams = [], target = children r, matchesItem = Some r, matchedIdx = 0, calls = []\<rparr>)"
  using parse_words [OF assms(2,3)] find_root [OF assms(1), of params "words ws"]
  by (simp add: Find_def del: find_loop.simps)

lemma Find_words:
  assumes r: "route_ok r" and ws: "ws \<noteq> []" "list_all (\<lambda>w. w \<noteq> [] \<and> wordy w) ws"
    and clear: "clear_path r ws" and l: "lookup r (map KConst ws) method = Some i"
  shows "\<exists>cs. Find params r (print_pat (map CSeg ws)) method = Ok ((i, True), cs)"
proof -
  obtain t where t: "item_at r (map KConst ws) = Some t" "lookup t [] method = Some i"
    using l by (subst (asm) lookup_item_at) (auto split: option.splits)
  let ?st = "\<lparr>matchAllParams = [], target = children r, matchesItem = Some r, matchedIdx = 0, calls = []\<rparr>"
  obtain st' where st': "find_loop params 1 (words ws) ?st = st'" "matchesItem st' = Some t"
    "Suc (matchedIdx st') = 1 + length ws" "matchAllParams st' = []"
    using find_loop_clear [OF clear t(1), of ?st 1 params] by auto
  have "Find params r (print_pat (map CSeg ws)) method = find_result params method (Suc (length ws)) st'"
    using Find_words_run [OF _ ws] st' r by (simp add: route_ok_def)
  then show ?thesis using st' t by (auto simp: find_result_def split: option.splits)
qed

lemma const_clear:
  "tree_inv item \<Longrightarrow> all_nodes plain item \<Longrightarrow> list_all (\<lambda>w. w \<noteq> ''*'') ws \<Longrightarrow>
   item_at item (map KConst ws) \<noteq> None \<Longrightarrow> clear_path item ws"
proof (induction ws arbitrary: item)
  case (Cons w ws)
  then obtain c where c: "child (children item) (KConst w) = Some c" "item_at c (map KConst ws) \<noteq> None"
    by (auto split: option.splits)
  then have "tree_inv c" "all_nodes plain c"
    using Cons.prems child_SomeD [OF c(1)] by (auto simp: tree_inv_iff [of item] all_nodes_iff [of plain item])
  moreover have "hits d w \<longrightarrow> ikey d = KConst w" if "d \<in> set (children item)" for d
  proof -
    have "plain (rnode d)" using Cons.prems(2) that all_nodes_iff [of plain item] by blast
    then show ?thesis
      by (simp add: plain_def hits_def urlMatches_def node_key_const isMatchAllConstString_def mk_node_def)
  qed
  ultimately show ?case using Cons c by (simp add: list_all_iff)
qed simp

text \<open>C20 --- what is added is found. In a table of constant patterns (no typed segment, no \<^verbatim>\<open>*\<close>),
  after \<^verbatim>\<open>Add\<close> of an API with a constant pattern succeeded, a request for exactly that path with the
  API's method is resolved to that API, the table stays such a table, and every other constant path and
  method that was bound before is still resolved to what it was bound to.\<close>

theorem Add_then_Find:
  assumes "route_sorter srt" "const_only r" "Add srt pick api r = Ok r'"
    and "api_URLPattern api = print_pat (map CSeg ws)" "ws \<noteq> []"
    and "list_all (\<lambda>w. w \<noteq> [] \<and> wordy w \<and> w \<noteq> ''*'') ws"
  shows "const_only r' \<and>
    (\<exists>cs. Find params r' (api_URLPattern api) (api_Method api) = Ok ((api_ID api, True), cs)) \<and>
    (\<forall>us m i. us \<noteq> [] \<longrightarrow> list_all (\<lambda>w. w \<noteq> [] \<and> wordy w \<and> w \<noteq> ''*'') us \<longrightarrow>
       lookup r (map KConst us) m = Some i \<longrightarrow> (us, m) \<noteq> (ws, api_Method api) \<longrightarrow>
       (\<exists>cs. Find params r' (print_pat (map CSeg us)) m = Ok ((i, True), cs)))"
proof -
  have ws: "list_all (\<lambda>w. w \<noteq> [] \<and> wordy w) ws" using assms(6) by (simp add: list_all_iff)
  note p = parse_words [OF assms(5) ws]
  have keys: "pattern_keys (pat_nodes (map CSeg ws)) = map KConst ws"
    using p by (simp add: pattern_keys_def node_key_def mk_node_def)
  have r: "route_ok r" "all_nodes plain r" using assms(2) by (auto simp: const_only_def)
  have spec: "add_spec (lookup r) (map KConst ws) api (rnode r) (Ok r')"
    using Add_spec [OF assms(1) r(1), of api _ pick] p keys assms by metis
  have "matches r slash_node" using r by (simp add: matches_def route_ok_def mk_node_def)
  then have "add_at srt pick api (words ws) r = Ok r'"
    using assms p by (simp add: Add_def)
  moreover have "list_all plain (words ws)" using assms(6) by (simp add: list_all_iff plain_def mk_node_def)
  ultimately have "all_nodes plain r'" using route_sorter.add_at_nodes [OF assms(1) _ r(2)] by blast
  then have c: "const_only r'" using spec r by (simp add: const_only_def route_ok_def)
  have find: "\<exists>cs. Find params r' (print_pat (map CSeg us)) m = Ok ((i, True), cs)"
    if "us \<noteq> []" "list_all (\<lambda>w. w \<noteq> [] \<and> wordy w \<and> w \<noteq> ''*'') us" "lookup r' (map KConst us) m = Some i"
    for us m i
  proof -
    have "item_at r' (map KConst us) \<noteq> None" using that(3) by (subst (asm) lookup_item_at) (auto split: option.splits)
    then have "clear_path r' us"
      using const_clear [of r' us] c that by (simp add: const_only_def route_ok_def list_all_iff)
    then show ?thesis using Find_words c that by (simp add: const_only_def list_all_iff)
  qed
  have l: "lookup r' (map KConst us) m
      = (if us = ws \<and> m = api_Method api then Some (api_ID api) else lookup r (map KConst us) m)" for us m
    using spec by (simp add: table_upd_def inj_map_eq_map inj_on_def)
  show ?thesis
    using c find [of ws "api_Method api"] find [of us for us] l assms by auto
qed

definition demo_table :: Route where
  "demo_table = RouteItem (mk_node slashType [])
     [RouteItem (mk_node constType ''a'') [RouteItem (mk_node constType ''b'') [] (Some [(''GET'', 7)])] None] None"

lemma demo_table_Add:
  "Add stable_srt demo_pick (demo_api 7 ''/a/b'' ''GET'') NewRoute = Ok demo_table"
  by code_simp

lemma const_only_NewRoute: "const_only NewRoute"
  by (simp add: const_only_def route_ok_def NewRoute_def)

theorem Add_then_Find_witness:
  "\<exists>cs. Find True demo_table ''/a/b'' ''GET'' = Ok ((7, True), cs)"
  using Add_then_Find [OF rs.route_sorter_axioms const_only_NewRoute demo_table_Add, of "[''a'', ''b'']" True]
  by (simp add: eoi_def)

subsection \<open>Where the search departs from the documented patterns\<close>

text \<open>A segment no child accepts is skipped instead of ending the search: with the single API
  \<^verbatim>\<open>GET /a/b\<close>, every request \<^verbatim>\<open>GET /a/w/b\<close> with an extra word \<^verbatim>\<open>w\<close> is resolved to it. The loop of
  \<^verbatim>\<open>Find\<close> has no \<^verbatim>\<open>break\<close> for an unmatched node, and only the index of the last match is compared.\<close>

theorem Find_skips_segment:
  assumes "wordy w" "w \<noteq> []" "w \<noteq> ''b''"
  shows "\<exists>cs. Find params demo_table (print_pat [CSeg ''a'', CSeg w, CSeg ''b'']) ''GET'' = Ok ((7, True), cs)"
proof -
  have "Find params demo_table (print_pat (map CSeg [''a'', w, ''b''])) ''GET''
      = find_result params ''GET'' (Suc (length [''a'', w, ''b''])) (find_loop params 1 (words [''a'', w, ''b''])
          \<lparr>matchAllParams = [], target = children demo_table, matchesItem = Some demo_table,
             matchedIdx = 0, calls = []\<rparr>)"
    using assms by (intro Find_words_run) (simp_all add: demo_table_def eoi_def)
  also have "\<dots> = Ok ((7, True), [])"
    using assms
    by (simp add: demo_table_def urlMatches_def isMatchAllConstString_def mk_node_def find_result_def)
  finally show ?thesis by simp
qed

theorem Find_skips_segment_witness:
  "\<exists>cs. Find True demo_table ''/a/zzz/b'' ''GET'' = Ok ((7, True), cs)"
  using Find_skips_segment [of "''zzz''" True] by (simp add: eoi_def)

definition demo_enums :: "(string \<times> uint64) list \<Rightarrow> Route" where
  "demo_enums a = RouteItem (mk_node slashType [])
     [RouteItem ((mk_node enumType [])\<lparr>enums := [''a'', ''b'']\<rparr>) [] (Some a)] None"

text \<open>Two enumeration segments are the same key whatever their values: in a table that has
  \<^verbatim>\<open>GET /(enum:a|b)\<close>, an API with \<^verbatim>\<open>/(enum:c|d)\<close> and another method is accepted, but it is bound to
  the item with the first API's values, so its own values \<^verbatim>\<open>c\<close> and \<^verbatim>\<open>d\<close> are not found.\<close>

theorem enum_values_merged:
  assumes "m \<noteq> ''GET''" "m \<noteq> ''*''"
  shows "Add stable_srt demo_pick (demo_api 8 ''/(enum:c|d)'' m) (demo_enums [(''GET'', 7)])
      = Ok (demo_enums [(''GET'', 7), (m, 8)])
    \<and> Find params (demo_enums [(''GET'', 7), (m, 8)]) (print_pat (map CSeg [''c''])) m = Ok ((0, False), [])
    \<and> Find params (demo_enums [(''GET'', 7), (m, 8)]) (print_pat (map CSeg [''d''])) m = Ok ((0, False), [])"
proof -
  have "parse (newParser ''/(enum:c|d)'') = Ok (pat_nodes [ESeg [''c'', ''d''] None])"
    by code_simp
  then have "Add stable_srt demo_pick (demo_api 8 ''/(enum:c|d)'' m) (demo_enums [(''GET'', 7)])
      = Ok (demo_enums [(''GET'', 7), (m, 8)])"
    using assms
    by (simp add: Add_def removeSlash_Cons matches_def mk_node_def add_here_def get0_def bind_method_def
        demo_enums_def)
  moreover have "Find params (demo_enums [(''GET'', 7), (m, 8)]) (print_pat (map CSeg [v])) m = Ok ((0, False), [])"
    if "v \<noteq> []" "wordy v" "v \<noteq> ''a''" "v \<noteq> ''b''" for v
    using that by (subst Find_words_run)
      (simp_all add: demo_enums_def urlMatches_def inEnumValue_def mk_node_def find_result_def)
  ultimately show ?thesis by (simp add: eoi_def)
qed

theorem enum_values_merged_witness:
  "Find True (demo_enums [(''GET'', 7), (''POST'', 8)]) ''/c'' ''POST'' = Ok ((0, False), [])"
  using enum_values_merged [of "''POST''" True] by simp

end
