(* ===== verification/Runtime.thy ===== *)
theory Runtime
  imports Conditions Circuit Balance Route_Tree
begin

text \<open>
  The runtime objects the dispatcher builds from the metadata (\<^verbatim>\<open>proxy/dispatcher_runtime.go\<close>): clusters, servers,
  APIs with their dispatch nodes, and routings.

  What the constructors take from outside the metadata is the record \<open>env\<close>: the clock, the shuffled list
  that \<^verbatim>\<open>utils.NewRateBarrier\<close> shares between all barriers once the first has been created, the state of the
  random generator, the regular expressions, the two uses of \<^verbatim>\<open>sort.Slice\<close>, the global HTTP options and whether
  the script engine accepts a plugin. A copy of
  a message through \<^verbatim>\<open>MustUnmarshal(MustMarshal(m))\<close> is the message itself; \<^verbatim>\<open>log.Fatalf\<close>, which ends the
  process, is \<open>Panic\<close>. Pending timers are the flags and counters of the records.
\<close>

record HTTPOption =
  ho_MaxConns :: int
  ho_MaxConnDuration :: int
  ho_MaxIdleConnDuration :: int
  ho_ReadBufferSize :: int
  ho_WriteBufferSize :: int
  ho_ReadTimeout :: int
  ho_WriteTimeout :: int
  ho_MaxResponseBodySize :: int
  ho_DisableHeaderNamesNormalizing :: bool

record apiNode =
  nd_httpOption :: HTTPOption
  nd_meta :: DispatchNode
  nd_validations :: "apiValidation list"
  nd_defaultCookies :: "(string \<times> string) list"
  nd_parsedExprs :: "Expr list"

record env =
  en_now :: int
  en_src :: "int list"
  en_rng :: uint32
  en_rx :: regex
  en_jget :: json_get
  en_sortNodes :: "(apiNode \<Rightarrow> apiNode \<Rightarrow> bool) \<Rightarrow> apiNode list \<Rightarrow> apiNode list"
  en_srt :: sort_fn
  en_pick :: "(string \<times> uint64) list \<Rightarrow> uint64"
  en_http :: HTTPOption
  en_newPlugin :: "Plugin \<Rightarrow> bool"

definition new_barrier :: "env \<Rightarrow> int \<Rightarrow> RateBarrier" where
  "new_barrier en rate = \<lparr>rb_source = en_src en, rb_op = 0, rb_rate = rate, rb_base = 100\<rparr>"

lemma new_barrier_eq:
  "srcs 100 = Some (en_src en) \<Longrightarrow> NewRateBarrier shuf rate srcs = Ok (new_barrier en rate, srcs)"
  by (simp add: NewRateBarrier_def NewRateBarrierBase_def createRandSourceByBase_def new_barrier_def)

subsection \<open>Clusters\<close>

record bindInfo =
  bi_svrID :: uint64
  bi_status :: Status

record binds =
  bs_servers :: "bindInfo list"
  bs_actives :: "Server list"

record clusterRuntime =
  cr_meta :: Cluster
  cr_lb :: balancer

definition newClusterRuntime :: "env \<Rightarrow> Cluster \<Rightarrow> clusterRuntime" where
  "newClusterRuntime en meta = \<lparr>cr_meta = meta, cr_lb = NewLoadBalance (en_rng en) (cl_LoadBalance meta)\<rparr>"

definition cluster_clone :: "env \<Rightarrow> clusterRuntime \<Rightarrow> clusterRuntime" where
  "cluster_clone en c = newClusterRuntime en (cr_meta c)"

definition cluster_updateMeta :: "env \<Rightarrow> Cluster \<Rightarrow> clusterRuntime \<Rightarrow> clusterRuntime" where
  "cluster_updateMeta en meta c = c\<lparr>cr_meta := meta, cr_lb := NewLoadBalance (en_rng en) (cl_LoadBalance meta)\<rparr>"

definition cluster_selectServer :: "ReqCtx \<Rightarrow> Server list \<Rightarrow> clusterRuntime \<Rightarrow> clusterRuntime \<times> uint64" where
  "cluster_selectServer req svrs c = (let (lb, i) = lb_Select (cr_lb c) req svrs in (c\<lparr>cr_lb := lb\<rparr>, i))"

subsection \<open>Servers\<close>

record serverRuntime = protectedRuntime +
  sr_meta :: Server
  sr_heathTimeout :: bool
  sr_checkFailCount :: int
  sr_useCheckDuration :: int

text \<open>\<^verbatim>\<open>updateMeta\<close> rebuilds the runtime in place; a pending \<^verbatim>\<open>circuitToHalf\<close> keeps its pointer.\<close>

definition server_updateMeta :: "env \<Rightarrow> Server \<Rightarrow> int \<Rightarrow> nat \<Rightarrow> (unit, serverRuntime) outcome" where
  "server_updateMeta en meta activeQPS timers =
     obind (newRateLimiter activeQPS (sv_RateLimitOption meta) (en_now en)) (\<lambda>lim.
       Ok \<lparr>pr_id = sv_ID meta, pr_activeQPS = activeQPS, pr_limiter = Some lim, pr_circuit = Open,
           pr_cb = sv_CircuitBreaker meta,
           pr_barrier = map_option (\<lambda>cb. new_barrier en (cb_HalfTrafficRate cb)) (sv_CircuitBreaker meta),
           pr_half_timers = timers, sr_meta = meta, sr_heathTimeout = False, sr_checkFailCount = 0,
           sr_useCheckDuration = 0\<rparr>)"

definition newServerRuntime :: "env \<Rightarrow> Server \<Rightarrow> int \<Rightarrow> (unit, serverRuntime) outcome" where
  "newServerRuntime en meta activeQPS = server_updateMeta en meta activeQPS 0"

definition server_clone :: "env \<Rightarrow> serverRuntime \<Rightarrow> (unit, serverRuntime) outcome" where
  "server_clone en s = newServerRuntime en (sr_meta s) (pr_activeQPS s)"

definition server_fail :: "serverRuntime \<Rightarrow> serverRuntime" where
  "server_fail s = s\<lparr>sr_checkFailCount := i64 (sr_checkFailCount s + 1),
     sr_useCheckDuration := i64 (sr_useCheckDuration s + sr_useCheckDuration s sdiv 2)\<rparr>"

text \<open>\<^verbatim>\<open>reset\<close> reads the interval through the health check pointer.\<close>

definition server_reset :: "serverRuntime \<Rightarrow> (unit, serverRuntime) outcome" where
  "server_reset s =
     (case sv_HeathCheck (sr_meta s) of
        None \<Rightarrow> Panic
      | Some hc \<Rightarrow> Ok (s\<lparr>sr_checkFailCount := 0, sr_useCheckDuration := hc_CheckInterval hc\<rparr>))"

fun protocol_name :: "Protocol \<Rightarrow> string" where
  "protocol_name HTTP = ''http''"
| "protocol_name Grpc = ''grpc''"
| "protocol_name Dubbo = ''dubbo''"
| "protocol_name SpringCloud = ''springcloud''"

definition getCheckURL :: "serverRuntime \<Rightarrow> (unit, string) outcome" where
  "getCheckURL s =
     (case sv_HeathCheck (sr_meta s) of
        None \<Rightarrow> Panic
      | Some hc \<Rightarrow> Ok (protocol_name (sv_Protocol (sr_meta s)) @ ''://'' @ sv_Addr (sr_meta s) @ hc_Path hc))"

subsection \<open>Dispatch nodes\<close>

definition cookies_of :: "HTTPResult option \<Rightarrow> (string \<times> string) list" where
  "cookies_of dv = (case dv of None \<Rightarrow> [] | Some r \<Rightarrow> map (\<lambda>c. (pv_Name c, pv_Value c)) (hr_Cookies r))"

definition compiles :: "regex \<Rightarrow> string \<Rightarrow> bool" where
  "compiles rx p \<longleftrightarrow> rx p [] \<noteq> None"

fun newValidations :: "regex \<Rightarrow> Validation list \<Rightarrow> (unit, apiValidation list) outcome" where
  "newValidations rx [] = Ok []"
| "newValidations rx (v # vs) =
     (if list_all (\<lambda>r. compiles rx (vr_Expression r)) (va_Rules v)
      then obind (newValidations rx vs) (\<lambda>rvs. Ok (\<lparr>av_meta = v, av_rules = map vr_Expression (va_Rules v)\<rparr> # rvs))
      else Panic)"

definition newAPINode :: "env \<Rightarrow> DispatchNode \<Rightarrow> (unit, apiNode) outcome" where
  "newAPINode en meta =
     obind (if dn_URLRewrite meta \<noteq> []
            then (case Parse (TrimSpace (dn_URLRewrite meta)) of Ok es \<Rightarrow> Ok es | Err e \<Rightarrow> Panic | Panic \<Rightarrow> Panic)
            else Ok []) (\<lambda>exprs.
     obind (newValidations (en_rx en) (dn_Validations meta)) (\<lambda>vs.
     let opt = en_http en;
         opt = (if 0 < dn_ReadTimeout meta then opt\<lparr>ho_ReadTimeout := dn_ReadTimeout meta\<rparr> else opt);
         opt = (if 0 < dn_WriteTimeout meta then opt\<lparr>ho_WriteTimeout := dn_WriteTimeout meta\<rparr> else opt)
     in Ok \<lparr>nd_httpOption = opt, nd_meta = meta, nd_validations = vs,
            nd_defaultCookies = cookies_of (dn_DefaultValue meta), nd_parsedExprs = exprs\<rparr>))"

definition node_clone :: "env \<Rightarrow> apiNode \<Rightarrow> (unit, apiNode) outcome" where
  "node_clone en n = newAPINode en (nd_meta n)"

subsection \<open>APIs\<close>

record renderAttr =
  rd_attrMeta :: RenderAttr
  rd_extracts :: "string list list"

record renderObject =
  rd_objMeta :: RenderObject
  rd_attrs :: "renderAttr list"

record apiRuntime = protectedRuntime +
  ar_meta :: API
  ar_nodes :: "apiNode list"
  ar_defaultCookies :: "(string \<times> string) list"
  ar_parsedWhitelist :: "ipSegment list"
  ar_parsedBlacklist :: "ipSegment list"
  ar_parsedRenderObjects :: "renderObject list"

text \<open>\<^verbatim>\<open>compare\<close>: the difference of two 32-bit indices, as a 32-bit number.\<close>

definition node_compare :: "apiNode \<Rightarrow> apiNode \<Rightarrow> bool" where
  "node_compare a b \<longleftrightarrow> signed_take_bit 31 (dn_BatchIndex (nd_meta a) - dn_BatchIndex (nd_meta b)) < 0"

fun newAPINodes :: "env \<Rightarrow> DispatchNode list \<Rightarrow> (unit, apiNode list) outcome" where
  "newAPINodes en [] = Ok []"
| "newAPINodes en (n # ns) = obind (newAPINode en n) (\<lambda>x. obind (newAPINodes en ns) (\<lambda>xs. Ok (x # xs)))"

definition parse_attr :: "RenderAttr \<Rightarrow> renderAttr" where
  "parse_attr attr = \<lparr>rd_attrMeta = attr,
     rd_extracts = map (split_on (CHR ''.'')) (split_on (CHR '','') (ra_ExtractExp attr))\<rparr>"

definition parse_object :: "RenderObject \<Rightarrow> renderObject" where
  "parse_object obj = \<lparr>rd_objMeta = obj, rd_attrs = map parse_attr (ro_Attrs obj)\<rparr>"

definition api_init :: "env \<Rightarrow> API \<Rightarrow> int \<Rightarrow> nat \<Rightarrow> (unit, apiRuntime) outcome" where
  "api_init en meta activeQPS timers =
     obind (newAPINodes en (api_Nodes meta)) (\<lambda>nodes.
     obind (if 0 < api_MaxQPS meta
            then obind (newRateLimiter activeQPS (api_RateLimitOption meta) (en_now en)) (\<lambda>l. Ok (Some l))
            else Ok None) (\<lambda>lim.
     Ok \<lparr>pr_id = api_ID meta, pr_activeQPS = activeQPS, pr_limiter = lim, pr_circuit = Open,
         pr_cb = api_CircuitBreaker meta,
         pr_barrier = map_option (\<lambda>cb. new_barrier en (cb_HalfTrafficRate cb)) (api_CircuitBreaker meta),
         pr_half_timers = timers, ar_meta = meta, ar_nodes = en_sortNodes en node_compare nodes,
         ar_defaultCookies = cookies_of (api_DefaultValue meta),
         ar_parsedWhitelist = (case api_IPAccessControl meta of None \<Rightarrow> [] | Some a \<Rightarrow> map parseFrom (ac_Whitelist a)),
         ar_parsedBlacklist = (case api_IPAccessControl meta of None \<Rightarrow> [] | Some a \<Rightarrow> map parseFrom (ac_Blacklist a)),
         ar_parsedRenderObjects = (case api_RenderTemplate meta of None \<Rightarrow> [] | Some t \<Rightarrow> map parse_object (rt_Objects t))\<rparr>))"

definition newAPIRuntime :: "env \<Rightarrow> API \<Rightarrow> int \<Rightarrow> (unit, apiRuntime) outcome" where
  "newAPIRuntime en meta activeQPS = api_init en meta activeQPS 0"

definition api_clone :: "env \<Rightarrow> apiRuntime \<Rightarrow> (unit, apiRuntime) outcome" where
  "api_clone en a = newAPIRuntime en (ar_meta a) (pr_activeQPS a)"

definition api_updateMeta :: "env \<Rightarrow> API \<Rightarrow> apiRuntime \<Rightarrow> (unit, apiRuntime) outcome" where
  "api_updateMeta en meta a = api_init en meta (pr_activeQPS a) (pr_half_timers a)"

definition api_isUp :: "apiRuntime \<Rightarrow> bool" where
  "api_isUp a \<longleftrightarrow> api_Status (ar_meta a) = Up"

definition isWebSocket :: "apiRuntime \<Rightarrow> bool" where
  "isWebSocket a \<longleftrightarrow> api_WebSocketOptions (ar_meta a) \<noteq> None"

definition hasRenderTemplate :: "apiRuntime \<Rightarrow> bool" where
  "hasRenderTemplate a \<longleftrightarrow> api_RenderTemplate (ar_meta a) \<noteq> None"

definition isMethodMatches :: "HttpReq \<Rightarrow> apiRuntime \<Rightarrow> bool" where
  "isMethodMatches req a \<longleftrightarrow> api_Method (ar_meta a) = ''*'' \<or> ToUpper (rq_Method req) = api_Method (ar_meta a)"

definition isDomainMatches :: "HttpReq \<Rightarrow> apiRuntime \<Rightarrow> bool" where
  "isDomainMatches req a \<longleftrightarrow> api_Domain (ar_meta a) \<noteq> [] \<and> rq_Host req = api_Domain (ar_meta a)"

definition api_matches :: "HttpReq \<Rightarrow> apiRuntime \<Rightarrow> bool" where
  "api_matches req a =
     (if \<not> api_isUp a then False
      else case api_MatchRule (ar_meta a) of
             MatchAll \<Rightarrow> isDomainMatches req a \<and> isMethodMatches req a
           | MatchAny \<Rightarrow> isDomainMatches req a \<or> isMethodMatches req a
           | MatchDefault \<Rightarrow> isDomainMatches req a \<or> isMethodMatches req a)"

text \<open>The lists of the runtime; the pointer to the access control decides whether they apply.\<close>

definition api_allowWithBlacklist :: "string \<Rightarrow> apiRuntime \<Rightarrow> (unit, bool) outcome" where
  "api_allowWithBlacklist ip a =
     (if api_IPAccessControl (ar_meta a) = None then Ok True
      else obind (any_matches (ar_parsedBlacklist a) ip) (\<lambda>b. Ok (\<not> b)))"

definition api_allowWithWhitelist :: "string \<Rightarrow> apiRuntime \<Rightarrow> (unit, bool) outcome" where
  "api_allowWithWhitelist ip a =
     (case api_IPAccessControl (ar_meta a) of
        None \<Rightarrow> Ok True
      | Some ac \<Rightarrow> if ac_Whitelist ac = [] then Ok True else any_matches (ar_parsedWhitelist a) ip)"

subsection \<open>Routings\<close>

record routingRuntime =
  rr_meta :: Routing
  rr_barrier :: RateBarrier

definition newRoutingRuntime :: "env \<Rightarrow> Routing \<Rightarrow> routingRuntime" where
  "newRoutingRuntime en meta = \<lparr>rr_meta = meta, rr_barrier = new_barrier en (rg_TrafficRate meta)\<rparr>"

definition routing_clone :: "env \<Rightarrow> routingRuntime \<Rightarrow> routingRuntime" where
  "routing_clone en r = newRoutingRuntime en (rr_meta r)"

definition routing_isUp :: "routingRuntime \<Rightarrow> bool" where
  "routing_isUp r \<longleftrightarrow> rg_Status (rr_meta r) = Up"

definition routing_matches :: "env \<Rightarrow> uint64 \<Rightarrow> HttpReq \<Rightarrow> routingRuntime \<Rightarrow> (unit, routingRuntime \<times> bool) outcome" where
  "routing_matches en apiID req r =
     (if 0 < rg_API (rr_meta r) \<and> apiID \<noteq> rg_API (rr_meta r) then Ok (r, False)
      else obind (all_conditions (en_jget en) (en_rx en) (rg_Conditions (rr_meta r)) req) (\<lambda>ok.
        if \<not> ok then Ok (r, False)
        else obind (Allow (rr_barrier r)) (\<lambda>(b, v). Ok (r\<lparr>rr_barrier := b\<rparr>, v))))"

end
