(* ===== verification/Dispatch_Meta.thy ===== *)
theory Dispatch_Meta
  imports Runtime
begin

text \<open>
  The metadata of a running gateway: the state of the dispatcher and every operation that changes it
  (\<^verbatim>\<open>proxy/dispatcher.go\<close>, \<^verbatim>\<open>dispatcher_meta.go\<close>, \<^verbatim>\<open>dispatcher_copy_on_write.go\<close>, \<^verbatim>\<open>dispatcher_event.go\<close>,
  \<^verbatim>\<open>checker.go\<close>).

  A Go map is an association list; its order is the order in which a \<^verbatim>\<open>range\<close> visits it, so a statement about all
  lists covers every order. The channel of servers to check is the list \<open>d_checkerC\<close>. One goroutine applies the
  events one after the other, so an operation is one step. An operation returns its error next to the state,
  because some change the state before they fail; \<open>Panic\<close> is a run-time panic or \<^verbatim>\<open>log.Fatalf\<close>.
\<close>

record dispatcher =
  d_routings :: "(uint64 \<times> routingRuntime) list"
  d_route :: Route
  d_apis :: "(uint64 \<times> apiRuntime) list"
  d_clusters :: "(uint64 \<times> clusterRuntime) list"
  d_servers :: "(uint64 \<times> serverRuntime) list"
  d_binds :: "(uint64 \<times> binds) list"
  d_proxies :: "(string \<times> Proxy) list"
  d_plugins :: "(uint64 \<times> Plugin) list"
  d_applied :: "uint64 list option"
  d_engine :: "Plugin list"
  d_checkerC :: "uint64 list"
  d_analysis :: Analysis

definition newDispatcher :: dispatcher where
  "newDispatcher = \<lparr>d_routings = [], d_route = NewRoute, d_apis = [], d_clusters = [], d_servers = [], d_binds = [],
     d_proxies = [], d_plugins = [], d_applied = None, d_engine = [], d_checkerC = [], d_analysis = NewAnalysis\<rparr>"

datatype meta_error =
    errServerExists | errClusterExists | errAPIExists | errProxyExists | errPluginExists | errRoutingExists
  | errServerNotFound | errClusterNotFound | errProxyNotFound | errAPINotFound | errRoutingNotFound
  | errPluginNotFound | errRoute route_error | errPluginRuntime

type_synonym meta_result = "(unit, meta_error option \<times> dispatcher) outcome"

subsection \<open>Copy on write\<close>

fun copy_values :: "('v \<Rightarrow> (unit, 'v) outcome) \<Rightarrow> uint64 \<Rightarrow> (uint64 \<times> 'v) list \<Rightarrow> (unit, (uint64 \<times> 'v) list) outcome" where
  "copy_values clone exclude [] = Ok []"
| "copy_values clone exclude ((k, v) # xs) =
     (if k \<noteq> exclude then obind (clone v) (\<lambda>v'. obind (copy_values clone exclude xs) (\<lambda>ys. Ok ((k, v') # ys)))
      else copy_values clone exclude xs)"

definition copyServers :: "env \<Rightarrow> uint64 \<Rightarrow> dispatcher \<Rightarrow> (unit, (uint64 \<times> serverRuntime) list) outcome" where
  "copyServers en exclude d = copy_values (server_clone en) exclude (d_servers d)"

definition copyClusters :: "env \<Rightarrow> uint64 \<Rightarrow> dispatcher \<Rightarrow> (unit, (uint64 \<times> clusterRuntime) list) outcome" where
  "copyClusters en exclude d = copy_values (\<lambda>c. Ok (cluster_clone en c)) exclude (d_clusters d)"

definition copyRoutings :: "env \<Rightarrow> uint64 \<Rightarrow> dispatcher \<Rightarrow> (unit, (uint64 \<times> routingRuntime) list) outcome" where
  "copyRoutings en exclude d = copy_values (\<lambda>r. Ok (routing_clone en r)) exclude (d_routings d)"

text \<open>The error of \<^verbatim>\<open>route.Add\<close> is dropped: an API that conflicts is left out of the new table.\<close>

fun copy_apis :: "env \<Rightarrow> uint64 \<Rightarrow> uint64 \<Rightarrow> (uint64 \<times> apiRuntime) list \<Rightarrow> Route
    \<Rightarrow> (unit, Route \<times> (uint64 \<times> apiRuntime) list) outcome" where
  "copy_apis en exclude excludeToRoute [] rt = Ok (rt, [])"
| "copy_apis en exclude excludeToRoute ((k, v) # xs) rt =
     (if k \<noteq> exclude then
        obind (api_clone en v) (\<lambda>v'.
        obind (if k \<noteq> excludeToRoute \<and> api_isUp v
               then (case Add (en_srt en) (en_pick en) (ar_meta v') rt of Ok rt' \<Rightarrow> Ok rt' | Err e \<Rightarrow> Ok rt | Panic \<Rightarrow> Panic)
               else Ok rt) (\<lambda>rt.
        obind (copy_apis en exclude excludeToRoute xs rt) (\<lambda>(rt, ys). Ok (rt, (k, v') # ys))))
      else copy_apis en exclude excludeToRoute xs rt)"

definition copyAPIs :: "env \<Rightarrow> uint64 \<Rightarrow> uint64 \<Rightarrow> dispatcher \<Rightarrow> (unit, Route \<times> (uint64 \<times> apiRuntime) list) outcome" where
  "copyAPIs en exclude excludeToRoute d = copy_apis en exclude excludeToRoute (d_apis d) NewRoute"

text \<open>With cluster 0 the server is excluded from every cluster.\<close>

definition copyBinds :: "Bind \<Rightarrow> dispatcher \<Rightarrow> (uint64 \<times> binds) list" where
  "copyBinds exclude d =
     (let removedServer = (bd_ClusterID exclude = 0)
      in map (\<lambda>(key, b).
           let keep = (\<lambda>sid. sid \<noteq> bd_ServerID exclude \<or> (if removedServer then key else bd_ClusterID exclude) \<noteq> key)
           in (key, \<lparr>bs_servers = filter (\<lambda>i. keep (bi_svrID i)) (bs_servers b),
                     bs_actives = filter (\<lambda>s. keep (sv_ID s)) (bs_actives b)\<rparr>)) (d_binds d))"

subsection \<open>Shared parts\<close>

definition refreshQPS :: "int \<Rightarrow> dispatcher \<Rightarrow> int" where
  "refreshQPS v d =
     (let q = (if 0 < length (d_proxies d) then v sdiv int (length (d_proxies d)) else v) in if q \<le> 0 then 1 else q)"

definition addAnalysis :: "uint64 \<Rightarrow> CircuitBreaker option \<Rightarrow> dispatcher \<Rightarrow> dispatcher" where
  "addAnalysis i cb d =
     (let a = AddTarget i second (RemoveTarget i (d_analysis d))
      in d\<lparr>d_analysis := (case cb of None \<Rightarrow> a | Some c \<Rightarrow> AddTarget i (cb_RateCheckPeriod c) a)\<rparr>)"

text \<open>\<^verbatim>\<open>addToCheck\<close> changes the runtime and queues the identifier.\<close>

definition check_prepare :: "serverRuntime \<Rightarrow> serverRuntime" where
  "check_prepare svr = svr\<lparr>pr_circuit := Open, sr_heathTimeout := False,
     sr_useCheckDuration := (case sv_HeathCheck (sr_meta svr) of None \<Rightarrow> sr_useCheckDuration svr | Some hc \<Rightarrow> hc_CheckInterval hc)\<rparr>"

definition queue_check :: "serverRuntime \<Rightarrow> dispatcher \<Rightarrow> dispatcher" where
  "queue_check svr d = d\<lparr>d_checkerC := d_checkerC d @ [sv_ID (sr_meta svr)]\<rparr>"

fun refresh_servers :: "env \<Rightarrow> (uint64 \<times> serverRuntime) list \<Rightarrow> dispatcher
    \<Rightarrow> (unit, (uint64 \<times> serverRuntime) list \<times> dispatcher) outcome" where
  "refresh_servers en [] d = Ok ([], d)"
| "refresh_servers en ((k, s) # xs) d =
     obind (server_updateMeta en (sr_meta s) (refreshQPS (sv_MaxQPS (sr_meta s)) d) (pr_half_timers s)) (\<lambda>s'.
     obind (refresh_servers en xs (queue_check s' d)) (\<lambda>(ys, d). Ok ((k, check_prepare s') # ys, d)))"

fun refresh_apis :: "env \<Rightarrow> (uint64 \<times> apiRuntime) list \<Rightarrow> dispatcher \<Rightarrow> (unit, (uint64 \<times> apiRuntime) list) outcome" where
  "refresh_apis en [] d = Ok []"
| "refresh_apis en ((k, a) # xs) d =
     obind (api_updateMeta en (ar_meta a) (a\<lparr>pr_activeQPS := refreshQPS (api_MaxQPS (ar_meta a)) d\<rparr>)) (\<lambda>a'.
     obind (refresh_apis en xs d) (\<lambda>ys. Ok ((k, a') # ys)))"

definition refreshAllQPS :: "env \<Rightarrow> dispatcher \<Rightarrow> (unit, dispatcher) outcome" where
  "refreshAllQPS en d =
     obind (refresh_servers en (d_servers d) d) (\<lambda>(svs, d).
     obind (refresh_apis en (d_apis d) d) (\<lambda>as. Ok (d\<lparr>d_servers := svs, d_apis := as\<rparr>)))"

subsection \<open>Routings and proxies\<close>

definition addRouting :: "env \<Rightarrow> Routing \<Rightarrow> dispatcher \<Rightarrow> meta_result" where
  "addRouting en meta d =
     (if map_of (d_routings d) (rg_ID meta) \<noteq> None then Ok (Some errRoutingExists, d)
      else obind (copyRoutings en 0 d) (\<lambda>vs.
        Ok (None, d\<lparr>d_routings := AList.update (rg_ID meta) (newRoutingRuntime en meta) vs\<rparr>)))"

definition updateRouting :: "env \<Rightarrow> Routing \<Rightarrow> dispatcher \<Rightarrow> meta_result" where
  "updateRouting en meta d =
     (if map_of (d_routings d) (rg_ID meta) = None then Ok (Some errRoutingNotFound, d)
      else obind (copyRoutings en 0 d) (\<lambda>vs.
        case map_of vs (rg_ID meta) of
          None \<Rightarrow> Panic
        | Some _ \<Rightarrow> Ok (None, d\<lparr>d_routings := AList.update (rg_ID meta) (newRoutingRuntime en meta) vs\<rparr>)))"

definition removeRouting :: "env \<Rightarrow> uint64 \<Rightarrow> dispatcher \<Rightarrow> meta_result" where
  "removeRouting en i d =
     (if map_of (d_routings d) i = None then Ok (Some errRoutingNotFound, d)
      else obind (copyRoutings en i d) (\<lambda>vs. Ok (None, d\<lparr>d_routings := vs\<rparr>)))"

text \<open>\<^verbatim>\<open>Sprintf("%021s", addr)\<close>.\<close>

definition GetAddrFormat :: "string \<Rightarrow> string" where
  "GetAddrFormat addr = replicate (21 - length addr) (CHR ''0'') @ addr"

definition addProxy :: "env \<Rightarrow> Proxy \<Rightarrow> dispatcher \<Rightarrow> meta_result" where
  "addProxy en meta d =
     (let key = GetAddrFormat (px_Addr meta)
      in if map_of (d_proxies d) key \<noteq> None then Ok (Some errProxyExists, d)
         else obind (refreshAllQPS en (d\<lparr>d_proxies := AList.update key meta (d_proxies d)\<rparr>)) (\<lambda>d. Ok (None, d)))"

definition removeProxy :: "env \<Rightarrow> string \<Rightarrow> dispatcher \<Rightarrow> meta_result" where
  "removeProxy en addr d =
     (if map_of (d_proxies d) addr = None then Ok (Some errProxyNotFound, d)
      else obind (refreshAllQPS en (d\<lparr>d_proxies := AList.delete addr (d_proxies d)\<rparr>)) (\<lambda>d. Ok (None, d)))"

subsection \<open>APIs\<close>

text \<open>On a route conflict the new maps are dropped.\<close>

definition addAPI :: "env \<Rightarrow> API \<Rightarrow> dispatcher \<Rightarrow> meta_result" where
  "addAPI en api d =
     (if map_of (d_apis d) (api_ID api) \<noteq> None then Ok (Some errAPIExists, d)
      else obind (newAPIRuntime en api (refreshQPS (api_MaxQPS api) d)) (\<lambda>a.
      obind (copyAPIs en 0 0 d) (\<lambda>(newRoute, newValues).
      let newValues = AList.update (api_ID api) a newValues
      in case (if api_isUp a then Add (en_srt en) (en_pick en) (ar_meta a) newRoute else Ok newRoute) of
           Panic \<Rightarrow> Panic
         | Err e \<Rightarrow> Ok (Some (errRoute e), d)
         | Ok newRoute \<Rightarrow>
             let d = (if pr_cb a \<noteq> None then addAnalysis (api_ID api) (pr_cb a) d else d)
             in Ok (None, d\<lparr>d_apis := newValues, d_route := newRoute\<rparr>))))"

definition updateAPI :: "env \<Rightarrow> API \<Rightarrow> dispatcher \<Rightarrow> meta_result" where
  "updateAPI en api d =
     (if map_of (d_apis d) (api_ID api) = None then Ok (Some errAPINotFound, d)
      else obind (copyAPIs en 0 (api_ID api) d) (\<lambda>(newRoute, newValues).
      case map_of newValues (api_ID api) of
        None \<Rightarrow> Panic
      | Some rt \<Rightarrow>
          obind (api_updateMeta en api (rt\<lparr>pr_activeQPS := refreshQPS (api_MaxQPS api) d\<rparr>)) (\<lambda>rt.
          case Add (en_srt en) (en_pick en) (ar_meta rt) newRoute of
            Panic \<Rightarrow> Panic
          | Err e \<Rightarrow> Ok (Some (errRoute e), d)
          | Ok newRoute \<Rightarrow>
              let d = (if pr_cb rt \<noteq> None then addAnalysis (api_ID (ar_meta rt)) (api_CircuitBreaker (ar_meta rt)) d else d)
              in Ok (None, d\<lparr>d_apis := AList.update (api_ID api) rt newValues, d_route := newRoute\<rparr>))))"

definition removeAPI :: "env \<Rightarrow> uint64 \<Rightarrow> dispatcher \<Rightarrow> meta_result" where
  "removeAPI en i d =
     (if map_of (d_apis d) i = None then Ok (Some errAPINotFound, d)
      else obind (copyAPIs en i 0 d) (\<lambda>(newRoute, newValues). Ok (None, d\<lparr>d_route := newRoute, d_apis := newValues\<rparr>)))"

subsection \<open>Servers\<close>

definition addServer :: "env \<Rightarrow> Server \<Rightarrow> dispatcher \<Rightarrow> meta_result" where
  "addServer en svr d =
     (if map_of (d_servers d) (sv_ID svr) \<noteq> None then Ok (Some errServerExists, d)
      else obind (copyServers en 0 d) (\<lambda>newValues.
      obind (newServerRuntime en svr (refreshQPS (sv_MaxQPS svr) d)) (\<lambda>rt.
      let d = queue_check rt (addAnalysis (sv_ID (sr_meta rt)) (sv_CircuitBreaker (sr_meta rt)) d)
      in Ok (None, d\<lparr>d_servers := AList.update (sv_ID svr) (check_prepare rt) newValues\<rparr>))))"

text \<open>The old runtime is dropped with its timers, so stopping its timeout leaves no trace.\<close>

definition updateServer :: "env \<Rightarrow> Server \<Rightarrow> dispatcher \<Rightarrow> meta_result" where
  "updateServer en meta d =
     (if map_of (d_servers d) (sv_ID meta) = None then Ok (Some errServerNotFound, d)
      else obind (copyServers en 0 d) (\<lambda>newValues.
      case map_of newValues (sv_ID meta) of
        None \<Rightarrow> Panic
      | Some rt \<Rightarrow>
          obind (server_updateMeta en meta (refreshQPS (sv_MaxQPS meta) d) (pr_half_timers rt)) (\<lambda>rt.
          let d = queue_check rt (addAnalysis (sv_ID (sr_meta rt)) (sv_CircuitBreaker (sr_meta rt)) d)
          in Ok (None, d\<lparr>d_servers := AList.update (sv_ID meta) (check_prepare rt) newValues\<rparr>))))"

definition removeServer :: "env \<Rightarrow> uint64 \<Rightarrow> dispatcher \<Rightarrow> meta_result" where
  "removeServer en i d =
     (if map_of (d_servers d) i = None then Ok (Some errServerNotFound, d)
      else obind (copyServers en i d) (\<lambda>newValues.
        Ok (None, d\<lparr>d_servers := newValues, d_binds := copyBinds \<lparr>bd_ClusterID = 0, bd_ServerID = i\<rparr> d\<rparr>)))"

subsection \<open>Clusters and binds\<close>

definition addCluster :: "env \<Rightarrow> Cluster \<Rightarrow> dispatcher \<Rightarrow> meta_result" where
  "addCluster en cluster d =
     (if map_of (d_clusters d) (cl_ID cluster) \<noteq> None then Ok (Some errClusterExists, d)
      else obind (copyClusters en 0 d) (\<lambda>vs.
        Ok (None, d\<lparr>d_clusters := AList.update (cl_ID cluster) (newClusterRuntime en cluster) vs\<rparr>)))"

definition updateCluster :: "env \<Rightarrow> Cluster \<Rightarrow> dispatcher \<Rightarrow> meta_result" where
  "updateCluster en meta d =
     (if map_of (d_clusters d) (cl_ID meta) = None then Ok (Some errClusterNotFound, d)
      else obind (copyClusters en 0 d) (\<lambda>vs.
        case map_of vs (cl_ID meta) of
          None \<Rightarrow> Panic
        | Some rt \<Rightarrow> Ok (None, d\<lparr>d_clusters := AList.update (cl_ID meta) (cluster_updateMeta en meta rt) vs\<rparr>)))"

definition removeCluster :: "env \<Rightarrow> uint64 \<Rightarrow> dispatcher \<Rightarrow> meta_result" where
  "removeCluster en i d =
     (if map_of (d_clusters d) i = None then Ok (Some errClusterNotFound, d)
      else obind (copyClusters en i d) (\<lambda>vs.
        Ok (None, d\<lparr>d_binds := copyBinds \<lparr>bd_ClusterID = i, bd_ServerID = 0\<rparr> d, d_clusters := vs\<rparr>)))"

definition addBind :: "Bind \<Rightarrow> dispatcher \<Rightarrow> meta_result" where
  "addBind b d =
     (case map_of (d_servers d) (bd_ServerID b) of
        None \<Rightarrow> Ok (Some errServerNotFound, d)
      | Some server \<Rightarrow>
          if map_of (d_clusters d) (bd_ClusterID b) = None then Ok (Some errClusterNotFound, d)
          else let status = (if sv_HeathCheck (sr_meta server) = None then Up else Unknown);
                   newValues = copyBinds \<lparr>bd_ClusterID = 0, bd_ServerID = 0\<rparr> d;
                   infos = (case map_of newValues (bd_ClusterID b) of None \<Rightarrow> \<lparr>bs_servers = [], bs_actives = []\<rparr> | Some x \<Rightarrow> x);
                   infos = infos\<lparr>bs_servers := bs_servers infos @ [\<lparr>bi_svrID = bd_ServerID b, bi_status = status\<rparr>]\<rparr>;
                   infos = (if status = Up then infos\<lparr>bs_actives := bs_actives infos @ [sr_meta server]\<rparr> else infos)
               in Ok (None, d\<lparr>d_binds := AList.update (bd_ClusterID b) infos newValues\<rparr>))"

definition removeBind :: "Bind \<Rightarrow> dispatcher \<Rightarrow> meta_result" where
  "removeBind b d =
     (if map_of (d_servers d) (bd_ServerID b) = None then Ok (Some errServerNotFound, d)
      else if map_of (d_clusters d) (bd_ClusterID b) = None then Ok (Some errClusterNotFound, d)
      else Ok (None, d\<lparr>d_binds := copyBinds b d\<rparr>))"

definition getServerStatus :: "uint64 \<Rightarrow> dispatcher \<Rightarrow> Status" where
  "getServerStatus i d =
     (case find (\<lambda>info. bi_svrID info = i) (concat (map (bs_servers \<circ> snd) (d_binds d))) of
        Some info \<Rightarrow> bi_status info
      | None \<Rightarrow> Unknown)"

text \<open>The event a health check sends when it saw another status.\<close>

definition change_binds :: "Server \<Rightarrow> Status \<Rightarrow> binds \<Rightarrow> binds" where
  "change_binds meta status b =
     (if list_ex (\<lambda>i. bi_svrID i = sv_ID meta) (bs_servers b)
      then \<lparr>bs_servers = map (\<lambda>i. if bi_svrID i = sv_ID meta then i\<lparr>bi_status := status\<rparr> else i) (bs_servers b),
            bs_actives = filter (\<lambda>a. sv_ID a \<noteq> sv_ID meta \<or> status = Up) (bs_actives b @ [meta])\<rparr>
      else b)"

definition doStatusChangedEvent :: "Server \<Rightarrow> Status \<Rightarrow> dispatcher \<Rightarrow> dispatcher" where
  "doStatusChangedEvent meta status d =
     (if getServerStatus (sv_ID meta) d = status then d
      else d\<lparr>d_binds := map (\<lambda>(k, b). (k, change_binds meta status b)) (copyBinds \<lparr>bd_ClusterID = 0, bd_ServerID = 0\<rparr> d)\<rparr>)"

end
