(* ===== verification/Dispatch_Events.thy ===== *)
theory Dispatch_Events
  imports Dispatch_Meta
begin

text \<open>
  The rest of the dispatcher's operations: plugins, health checks and the events that drive it
  (\<^verbatim>\<open>dispatcher_meta.go\<close>, \<^verbatim>\<open>checker.go\<close>, \<^verbatim>\<open>dispatcher_event.go\<close>), then the invariant of the dispatcher's state and the
  refinement of an abstract configuration. The answer of a probed server is an argument of the health check.
\<close>

subsection \<open>Plugins\<close>

text \<open>\<^verbatim>\<open>inAppliedPlugins\<close> reads through \<^verbatim>\<open>r.appliedPlugins\<close>, which is nil until the applied plugins have been
  loaded.\<close>

definition inAppliedPlugins :: "uint64 \<Rightarrow> dispatcher \<Rightarrow> (unit, bool) outcome" where
  "inAppliedPlugins i d = (case d_applied d of None \<Rightarrow> Panic | Some ids \<Rightarrow> Ok (i \<in> set ids))"

text \<open>The new engine holds the plugins of the map at this moment; a missing one is a nil pointer.\<close>

fun collect_plugins :: "(uint64 \<times> Plugin) list \<Rightarrow> uint64 list \<Rightarrow> Plugin list option" where
  "collect_plugins ps [] = Some []"
| "collect_plugins ps (i # is) = (case map_of ps i of None \<Rightarrow> None | Some p \<Rightarrow> map_option ((#) p) (collect_plugins ps is))"

definition updateJSEngine :: "env \<Rightarrow> dispatcher \<Rightarrow> meta_result" where
  "updateJSEngine en d =
     (case d_applied d of
        None \<Rightarrow> Panic
      | Some ids \<Rightarrow>
          (case collect_plugins (d_plugins d) ids of
             None \<Rightarrow> Panic
           | Some ps \<Rightarrow> if list_all (en_newPlugin en) ps then Ok (None, d\<lparr>d_engine := ps\<rparr>) else Ok (Some errPluginRuntime, d)))"

definition maybeUpdateJSEngine :: "env \<Rightarrow> uint64 \<Rightarrow> dispatcher \<Rightarrow> meta_result" where
  "maybeUpdateJSEngine en i d =
     obind (inAppliedPlugins i d) (\<lambda>b. if b then updateJSEngine en d else Ok (None, d))"

definition addPlugin :: "Plugin \<Rightarrow> dispatcher \<Rightarrow> meta_result" where
  "addPlugin v d =
     (if map_of (d_plugins d) (pl_ID v) \<noteq> None then Ok (Some errPluginExists, d)
      else Ok (None, d\<lparr>d_plugins := AList.update (pl_ID v) v (d_plugins d)\<rparr>))"

definition updatePlugin :: "env \<Rightarrow> Plugin \<Rightarrow> dispatcher \<Rightarrow> meta_result" where
  "updatePlugin en v d =
     (if map_of (d_plugins d) (pl_ID v) = None then Ok (Some errPluginNotFound, d)
      else obind (maybeUpdateJSEngine en (pl_ID v) d) (\<lambda>(err, d).
        if err \<noteq> None then Ok (err, d)
        else Ok (None, d\<lparr>d_plugins := AList.update (pl_ID v) v (d_plugins d)\<rparr>)))"

definition removePlugin :: "uint64 \<Rightarrow> dispatcher \<Rightarrow> meta_result" where
  "removePlugin i d =
     (if map_of (d_plugins d) i = None then Ok (Some errPluginNotFound, d)
      else obind (inAppliedPlugins i d) (\<lambda>b.
        if b then Panic else Ok (None, d\<lparr>d_plugins := AList.delete i (d_plugins d)\<rparr>)))"

definition updateAppliedPlugin :: "env \<Rightarrow> uint64 list \<Rightarrow> dispatcher \<Rightarrow> meta_result" where
  "updateAppliedPlugin en ids d =
     (if collect_plugins (d_plugins d) ids = None then Ok (Some errPluginNotFound, d)
      else updateJSEngine en (d\<lparr>d_applied := Some ids\<rparr>))"

definition removeAppliedPlugin :: "env \<Rightarrow> dispatcher \<Rightarrow> meta_result" where
  "removeAppliedPlugin en d = updateJSEngine en (d\<lparr>d_applied := Some []\<rparr>)"

subsection \<open>Health checks\<close>

text \<open>\<open>resp\<close> is the answer of the probe, \<open>None\<close> for a failed call.\<close>

definition doCheck :: "(int \<times> string) option \<Rightarrow> serverRuntime \<Rightarrow> (unit, serverRuntime \<times> bool) outcome" where
  "doCheck resp svr =
     (case sv_HeathCheck (sr_meta svr) of
        None \<Rightarrow> Panic
      | Some hc \<Rightarrow>
          (case resp of
             None \<Rightarrow> Ok (server_fail svr, False)
           | Some (code, body) \<Rightarrow>
               if code \<noteq> 200 then Ok (server_fail svr, False)
               else if hc_Body hc \<noteq> [] \<and> hc_Body hc \<noteq> body then Ok (server_fail svr, False)
               else obind (server_reset svr) (\<lambda>s. Ok (s, True))))"

text \<open>The deferred function: the next check is scheduled.\<close>

definition check_schedule :: "int \<Rightarrow> serverRuntime \<Rightarrow> serverRuntime" where
  "check_schedule limit svr =
     (case sv_HeathCheck (sr_meta svr) of
        None \<Rightarrow> svr
      | Some hc \<Rightarrow>
          let u = (if limit < sr_useCheckDuration svr then limit else sr_useCheckDuration svr);
              u = (if u = 0 then hc_CheckInterval hc else u)
          in svr\<lparr>sr_useCheckDuration := u, sr_heathTimeout := True\<rparr>)"

text \<open>\<open>check\<close> returns the status event it sends, if any.\<close>

definition check :: "int \<Rightarrow> (int \<times> string) option \<Rightarrow> uint64 \<Rightarrow> dispatcher
    \<Rightarrow> (unit, (Server \<times> Status) option \<times> dispatcher) outcome" where
  "check limit resp i d =
     (case map_of (d_servers d) i of
        None \<Rightarrow> Ok (None, d)
      | Some svr \<Rightarrow>
          if sv_HeathCheck (sr_meta svr) = None then Ok (Some (sr_meta svr, Up), d)
          else obind (doCheck resp svr) (\<lambda>(svr, ok).
            let prev = getServerStatus (sv_ID (sr_meta svr)) d; status = (if ok then Up else Down)
            in Ok (if prev \<noteq> status then Some (sr_meta svr, status) else None,
                   d\<lparr>d_servers := AList.update i (check_schedule limit svr) (d_servers d)\<rparr>)))"

definition heathCheckTimeout :: "uint64 \<Rightarrow> dispatcher \<Rightarrow> dispatcher" where
  "heathCheckTimeout i d = (if map_of (d_servers d) i \<noteq> None then d\<lparr>d_checkerC := d_checkerC d @ [i]\<rparr> else d)"

subsection \<open>Events\<close>

datatype EvtType = EventTypeNew | EventTypeUpdate | EventTypeDelete

datatype Evt =
    ClusterEvt EvtType string Cluster
  | ServerEvt EvtType string Server
  | BindEvt EvtType Bind
  | APIEvt EvtType string API
  | RoutingEvt EvtType string Routing
  | ProxyEvt EvtType string Proxy
  | PluginEvt EvtType string Plugin
  | ApplyPluginEvt EvtType "uint64 list"
  | StatusEvt Server Status

text \<open>\<^verbatim>\<open>strconv.ParseUint(s, 10, 64)\<close>, fatal on an error.\<close>

definition MustParseStrUInt64 :: "string \<Rightarrow> (unit, uint64) outcome" where
  "MustParseStrUInt64 s =
     (if s = [] then Panic
      else case digits_val 0 s of None \<Rightarrow> Panic | Some n \<Rightarrow> if n < 2 ^ 64 then Ok (word_of_int n) else Panic)"

definition drop_err :: "meta_result \<Rightarrow> (unit, dispatcher) outcome" where
  "drop_err r = obind r (\<lambda>(err, d). Ok d)"

definition with_key :: "string \<Rightarrow> (uint64 \<Rightarrow> meta_result) \<Rightarrow> (unit, dispatcher) outcome" where
  "with_key key f = obind (MustParseStrUInt64 key) (\<lambda>i. drop_err (f i))"

fun doEvent :: "env \<Rightarrow> Evt \<Rightarrow> dispatcher \<Rightarrow> (unit, dispatcher) outcome" where
  "doEvent en (ClusterEvt t key c) d =
     (case t of EventTypeNew \<Rightarrow> drop_err (addCluster en c d)
      | EventTypeDelete \<Rightarrow> with_key key (\<lambda>i. removeCluster en i d)
      | EventTypeUpdate \<Rightarrow> drop_err (updateCluster en c d))"
| "doEvent en (ServerEvt t key s) d =
     (case t of EventTypeNew \<Rightarrow> drop_err (addServer en s d)
      | EventTypeDelete \<Rightarrow> with_key key (\<lambda>i. removeServer en i d)
      | EventTypeUpdate \<Rightarrow> drop_err (updateServer en s d))"
| "doEvent en (BindEvt t b) d =
     (case t of EventTypeNew \<Rightarrow> drop_err (addBind b d)
      | EventTypeDelete \<Rightarrow> drop_err (removeBind b d)
      | EventTypeUpdate \<Rightarrow> Ok d)"
| "doEvent en (APIEvt t key a) d =
     (case t of EventTypeNew \<Rightarrow> drop_err (addAPI en a d)
      | EventTypeDelete \<Rightarrow> with_key key (\<lambda>i. removeAPI en i d)
      | EventTypeUpdate \<Rightarrow> drop_err (updateAPI en a d))"
| "doEvent en (RoutingEvt t key r) d =
     (case t of EventTypeNew \<Rightarrow> drop_err (addRouting en r d)
      | EventTypeDelete \<Rightarrow> with_key key (\<lambda>i. removeRouting en i d)
      | EventTypeUpdate \<Rightarrow> drop_err (updateRouting en r d))"
| "doEvent en (ProxyEvt t key p) d =
     (case t of EventTypeNew \<Rightarrow> drop_err (addProxy en p d)
      | EventTypeDelete \<Rightarrow> drop_err (removeProxy en key d)
      | EventTypeUpdate \<Rightarrow> Ok d)"
| "doEvent en (PluginEvt t key p) d =
     (case t of EventTypeNew \<Rightarrow> drop_err (addPlugin p d)
      | EventTypeDelete \<Rightarrow> with_key key (\<lambda>i. removePlugin i d)
      | EventTypeUpdate \<Rightarrow> drop_err (updatePlugin en p d))"
| "doEvent en (ApplyPluginEvt t ids) d =
     (case t of EventTypeDelete \<Rightarrow> drop_err (removeAppliedPlugin en d)
      | _ \<Rightarrow> drop_err (updateAppliedPlugin en ids d))"
| "doEvent en (StatusEvt meta status) d = Ok (doStatusChangedEvent meta status d)"

end
