(* ===== verification/Dispatch_Inv.thy ===== *)
theory Dispatch_Inv
  imports Dispatch_Events
begin

text \<open>
  Correctness of the dispatcher's state: the invariant that every event keeps, absence of panics for valid
  metadata, and the refinement of an abstract configuration (one map of metadata per kind and the set of binds) by
  the copy-on-write operations.
\<close>

subsection \<open>Tables\<close>

definition metas :: "('v \<Rightarrow> 'm) \<Rightarrow> (uint64 \<times> 'v) list \<Rightarrow> (uint64 \<times> 'm) list" where
  "metas f xs = map (\<lambda>(k, v). (k, f v)) xs"

lemma metas_simps [simp]: "metas f [] = []" "metas f ((k, v) # xs) = (k, f v) # metas f xs"
  by (simp_all add: metas_def)

lemma metas_keys [simp]: "map fst (metas f xs) = map fst xs"
  by (simp add: metas_def comp_def case_prod_unfold)

lemma metas_key_set [simp]: "fst ` set (metas f xs) = fst ` set xs"
  by (metis metas_keys set_map)

lemma map_of_metas: "map_of (metas f xs) k = map_option f (map_of xs k)"
  by (induction xs) auto

lemma metas_update: "metas f (AList.update k v xs) = AList.update k (f v) (metas f xs)"
  by (induction xs) auto

text \<open>A table is keyed by the identifiers in its metadata, none of them zero.\<close>

definition keyed :: "('m \<Rightarrow> uint64) \<Rightarrow> (uint64 \<times> 'm) list \<Rightarrow> bool" where
  "keyed idf ms \<longleftrightarrow> distinct (map fst ms) \<and> map_of ms 0 = None \<and> (\<forall>k m. map_of ms k = Some m \<longrightarrow> idf m = k)"

lemma keyed_update: "keyed idf ms \<Longrightarrow> idf m \<noteq> 0 \<Longrightarrow> keyed idf (AList.update (idf m) m ms)"
  by (auto simp: keyed_def AList.distinct_update AList.update_conv')

lemma map_of_without: "map_of (filter (\<lambda>x. fst x \<noteq> i) ms) = (map_of ms)(i := None)"
  by (rule ext) (induction ms, auto)

lemma keyed_without: "keyed idf ms \<Longrightarrow> keyed idf (filter (\<lambda>x. fst x \<noteq> i) ms)"
  by (auto simp: keyed_def distinct_map_filter map_of_without split: if_splits)

lemma keyed_filter0: "keyed idf ms \<Longrightarrow> filter (\<lambda>x. fst x \<noteq> 0) ms = ms"
  by (auto simp: keyed_def filter_id_conv map_of_eq_None_iff)

lemma filter_metas: "metas f (filter (\<lambda>x. fst x \<noteq> i) xs) = filter (\<lambda>x. fst x \<noteq> i) (metas f xs)"
  by (induction xs) auto

lemma copy_values_metas:
  assumes "copy_values clone i xs = Ok ys" "\<And>v v'. clone v = Ok v' \<Longrightarrow> f v' = f v"
  shows "metas f ys = filter (\<lambda>x. fst x \<noteq> i) (metas f xs)"
  using assms(1)
proof (induction xs arbitrary: ys)
  case (Cons x xs)
  then show ?case using assms(2) by (cases x) (auto simp: outcome_simps split: if_splits)
qed simp

lemma copy_values_total:
  assumes "\<And>k v. (k, v) \<in> set xs \<Longrightarrow> \<exists>v'. clone v = Ok v'"
  shows "\<exists>ys. copy_values clone i xs = Ok ys"
  using assms
proof (induction xs)
  case (Cons x xs)
  obtain k v where x: "x = (k, v)" by (cases x)
  obtain v' where "clone v = Ok v'" using Cons.prems [of k v] x by auto
  moreover obtain ys where "copy_values clone i xs = Ok ys" using Cons by fastforce
  ultimately show ?case using x by auto
qed simp

lemma copy_values_all:
  assumes "copy_values clone i xs = Ok ys" "(k, v') \<in> set ys"
  shows "\<exists>v. (k, v) \<in> set xs \<and> clone v = Ok v'"
  using assms
proof (induction xs arbitrary: ys)
  case (Cons x xs)
  then show ?case by (cases x) (fastforce simp: outcome_simps split: if_splits)
qed simp

subsection \<open>What the constructors keep\<close>

lemma server_updateMeta_Ok:
  "server_updateMeta en meta q t = Ok s \<Longrightarrow> sr_meta s = meta \<and> pr_activeQPS s = q"
  by (auto simp: server_updateMeta_def outcome_simps)

lemma server_clone_Ok: "server_clone en s = Ok s' \<Longrightarrow> sr_meta s' = sr_meta s \<and> pr_activeQPS s' = pr_activeQPS s"
  by (auto simp: server_clone_def newServerRuntime_def dest: server_updateMeta_Ok)

lemma api_init_Ok: "api_init en meta q t = Ok a \<Longrightarrow> ar_meta a = meta \<and> pr_activeQPS a = q"
  by (auto simp: api_init_def outcome_simps)

lemma api_clone_Ok: "api_clone en a = Ok a' \<Longrightarrow> ar_meta a' = ar_meta a \<and> pr_activeQPS a' = pr_activeQPS a"
  by (auto simp: api_clone_def newAPIRuntime_def dest: api_init_Ok)

lemma cluster_meta [simp]:
  "cr_meta (newClusterRuntime en m) = m" "cr_meta (cluster_clone en c) = cr_meta c" "cr_meta (cluster_updateMeta en m c) = m"
  by (simp_all add: newClusterRuntime_def cluster_clone_def cluster_updateMeta_def)

lemma routing_meta [simp]: "rr_meta (newRoutingRuntime en m) = m" "rr_meta (routing_clone en r) = rr_meta r"
  by (simp_all add: newRoutingRuntime_def routing_clone_def)

lemma check_prepare_simps [simp]: "sr_meta (check_prepare s) = sr_meta s" "pr_activeQPS (check_prepare s) = pr_activeQPS s"
  by (simp_all add: check_prepare_def)

lemma copyServers_metas: "copyServers en i d = Ok ys \<Longrightarrow> metas sr_meta ys = filter (\<lambda>x. fst x \<noteq> i) (metas sr_meta (d_servers d))"
  unfolding copyServers_def by (erule copy_values_metas) (auto dest: server_clone_Ok)

lemma copyClusters_metas: "copyClusters en i d = Ok ys \<Longrightarrow> metas cr_meta ys = filter (\<lambda>x. fst x \<noteq> i) (metas cr_meta (d_clusters d))"
  unfolding copyClusters_def by (erule copy_values_metas) auto

lemma copyRoutings_metas: "copyRoutings en i d = Ok ys \<Longrightarrow> metas rr_meta ys = filter (\<lambda>x. fst x \<noteq> i) (metas rr_meta (d_routings d))"
  unfolding copyRoutings_def by (erule copy_values_metas) auto

lemma copy_apis_metas:
  "copy_apis en i j xs rt = Ok (rt', ys) \<Longrightarrow> metas ar_meta ys = filter (\<lambda>x. fst x \<noteq> i) (metas ar_meta xs)"
proof (induction xs arbitrary: rt ys)
  case (Cons x xs)
  then show ?case
    by (cases x) (auto simp: outcome_simps dest: api_clone_Ok split: if_splits outcome.splits)
qed simp

lemma copyAPIs_metas:
  "copyAPIs en i j d = Ok (rt, ys) \<Longrightarrow> metas ar_meta ys = filter (\<lambda>x. fst x \<noteq> i) (metas ar_meta (d_apis d))"
  unfolding copyAPIs_def by (rule copy_apis_metas)

lemma refresh_servers_metas:
  "refresh_servers en xs d = Ok (ys, d') \<Longrightarrow> metas sr_meta ys = metas sr_meta xs \<and> d' = d\<lparr>d_checkerC := d_checkerC d'\<rparr>"
proof (induction xs arbitrary: ys d)
  case (Cons x xs)
  obtain k s where x: "x = (k, s)" by (cases x)
  obtain s' ys' where s': "server_updateMeta en (sr_meta s) (refreshQPS (sv_MaxQPS (sr_meta s)) d) (pr_half_timers s) = Ok s'"
    "refresh_servers en xs (queue_check s' d) = Ok (ys', d')" "ys = (k, check_prepare s') # ys'"
    using Cons.prems x by (auto simp: outcome_simps)
  then show ?case using Cons.IH [OF s'(2)] x server_updateMeta_Ok [OF s'(1)] by (simp add: queue_check_def)
qed simp

lemma refresh_apis_metas: "refresh_apis en xs d = Ok ys \<Longrightarrow> metas ar_meta ys = metas ar_meta xs"
proof (induction xs arbitrary: ys)
  case (Cons x xs)
  then show ?case by (cases x) (auto simp: outcome_simps api_updateMeta_def dest: api_init_Ok)
qed simp

subsection \<open>The invariant\<close>

text \<open>Every bound server exists, and an active server has a bind of the same cluster with status \<open>Up\<close>.\<close>

definition binds_ok :: "uint64 set \<Rightarrow> binds \<Rightarrow> bool" where
  "binds_ok S b \<longleftrightarrow> (\<forall>i\<in>set (bs_servers b). bi_svrID i \<in> S) \<and>
     (\<forall>a\<in>set (bs_actives b). \<exists>i\<in>set (bs_servers b). bi_svrID i = sv_ID a \<and> bi_status i = Up)"

definition binds_inv :: "uint64 set \<Rightarrow> (uint64 \<times> binds) list \<Rightarrow> bool" where
  "binds_inv S bs \<longleftrightarrow> distinct (map fst bs) \<and> (\<forall>(k, b)\<in>set bs. binds_ok S b)"

text \<open>The identifiers in the route table are those of known APIs.\<close>

definition route_inv :: "uint64 set \<Rightarrow> Route \<Rightarrow> bool" where
  "route_inv A r \<longleftrightarrow> route_ok r \<and> (\<forall>ks m i. lookup r ks m = Some i \<longrightarrow> i \<in> A)"

definition plugins_inv :: "dispatcher \<Rightarrow> bool" where
  "plugins_inv d \<longleftrightarrow> (\<forall>ids. d_applied d = Some ids \<longrightarrow> (\<forall>i\<in>set ids. map_of (d_plugins d) i \<noteq> None))"

definition disp_inv :: "dispatcher \<Rightarrow> bool" where
  "disp_inv d \<longleftrightarrow> keyed sv_ID (metas sr_meta (d_servers d)) \<and> keyed cl_ID (metas cr_meta (d_clusters d)) \<and>
     keyed rg_ID (metas rr_meta (d_routings d)) \<and> keyed api_ID (metas ar_meta (d_apis d)) \<and>
     binds_inv (fst ` set (d_servers d)) (d_binds d) \<and> route_inv (fst ` set (d_apis d)) (d_route d) \<and> plugins_inv d"

lemma keyed_0: "keyed idf (metas f xs) \<Longrightarrow> 0 \<notin> fst ` set xs"
  by (simp add: keyed_def map_of_metas map_of_eq_None_iff)

lemma binds_ok_mono: "binds_ok S b \<Longrightarrow> S \<subseteq> T \<Longrightarrow> binds_ok T b"
  by (auto simp: binds_ok_def)

lemma binds_inv_mono: "binds_inv S bs \<Longrightarrow> S \<subseteq> T \<Longrightarrow> binds_inv T bs"
  using binds_ok_mono by (fastforce simp: binds_inv_def)

lemma binds_inv_map:
  assumes "binds_inv S bs" "\<And>k b. binds_ok S b \<Longrightarrow> binds_ok T (f k b)"
  shows "binds_inv T (map (\<lambda>(k, b). (k, f k b)) bs)"
  using assms by (auto simp: binds_inv_def comp_def case_prod_unfold)

definition keep_binds :: "(uint64 \<Rightarrow> bool) \<Rightarrow> binds \<Rightarrow> binds" where
  "keep_binds P b = \<lparr>bs_servers = filter (\<lambda>i. P (bi_svrID i)) (bs_servers b), bs_actives = filter (\<lambda>s. P (sv_ID s)) (bs_actives b)\<rparr>"

lemma keep_binds_ok: "binds_ok S b \<Longrightarrow> binds_ok {i \<in> S. P i} (keep_binds P b)"
  by (auto simp: binds_ok_def keep_binds_def) metis

lemma keep_binds_id: "binds_ok S b \<Longrightarrow> (\<And>i. i \<in> S \<Longrightarrow> P i) \<Longrightarrow> keep_binds P b = b"
  by (cases b) (auto simp: binds_ok_def keep_binds_def filter_id_conv, metis)

lemma copyBinds_eq:
  "copyBinds ex d = map (\<lambda>(k, b). (k, keep_binds (\<lambda>i. i \<noteq> bd_ServerID ex \<or> bd_ClusterID ex \<noteq> 0 \<and> bd_ClusterID ex \<noteq> k) b)) (d_binds d)"
  by (auto simp: copyBinds_def keep_binds_def Let_def intro!: map_cong filter_cong)

lemma copyBinds_server0:
  assumes "binds_inv S (d_binds d)" "0 \<notin> S" "bd_ServerID ex = 0"
  shows "copyBinds ex d = d_binds d"
  unfolding copyBinds_eq
proof (rule map_idI)
  fix x
  assume "x \<in> set (d_binds d)"
  moreover obtain k b where x: "x = (k, b)" by (cases x)
  ultimately have "binds_ok S b" using assms(1) by (auto simp: binds_inv_def)
  moreover have "\<And>i. i \<in> S \<Longrightarrow> i \<noteq> bd_ServerID ex \<or> bd_ClusterID ex \<noteq> 0 \<and> bd_ClusterID ex \<noteq> k" using assms(2,3) by metis
  ultimately show "(case x of (k, b) \<Rightarrow> (k, keep_binds (\<lambda>i. i \<noteq> bd_ServerID ex \<or> bd_ClusterID ex \<noteq> 0 \<and> bd_ClusterID ex \<noteq> k) b)) = x"
    using x by (simp add: keep_binds_id)
qed

lemma copyBinds_inv: "binds_inv S (d_binds d) \<Longrightarrow> binds_inv S (copyBinds ex d)"
  unfolding copyBinds_eq by (erule binds_inv_map) (rule binds_ok_mono [OF keep_binds_ok], auto)

lemma copyBinds_removed: "binds_inv S (d_binds d) \<Longrightarrow> binds_inv (S - {i}) (copyBinds \<lparr>bd_ClusterID = 0, bd_ServerID = i\<rparr> d)"
  unfolding copyBinds_eq by (erule binds_inv_map) (rule binds_ok_mono [OF keep_binds_ok], auto)

lemma change_binds_ok:
  assumes b: "binds_ok S b"
  shows "binds_ok S (change_binds meta status b)"
proof (cases "list_ex (\<lambda>i. bi_svrID i = sv_ID meta) (bs_servers b)")
  case True
  define f where "f = (\<lambda>i::bindInfo. if bi_svrID i = sv_ID meta then i\<lparr>bi_status := status\<rparr> else i)"
  have f: "bi_svrID (f i) = bi_svrID i" "bi_status (f i) = (if bi_svrID i = sv_ID meta then status else bi_status i)" for i
    by (simp_all add: f_def)
  have eq: "bs_servers (change_binds meta status b) = map f (bs_servers b)"
    "bs_actives (change_binds meta status b) = filter (\<lambda>a. sv_ID a \<noteq> sv_ID meta \<or> status = Up) (bs_actives b @ [meta])"
    using True by (simp_all add: change_binds_def f_def)
  have "\<exists>i\<in>set (bs_servers b). bi_svrID (f i) = sv_ID a \<and> bi_status (f i) = Up"
    if "a \<in> set (bs_actives b) \<or> a = meta" "sv_ID a \<noteq> sv_ID meta \<or> status = Up" for a
  proof (cases "sv_ID a = sv_ID meta")
    case same: True
    then show ?thesis using that True by (auto simp: list_ex_iff f)
  next
    case False
    then have "a \<in> set (bs_actives b)" using that(1) by auto
    then obtain i where "i \<in> set (bs_servers b)" "bi_svrID i = sv_ID a" "bi_status i = Up"
      using b unfolding binds_ok_def by blast
    then show ?thesis using False by (intro bexI [of _ i]) (auto simp: f)
  qed
  then show ?thesis using b unfolding binds_ok_def eq by (auto simp: f)
qed (simp add: change_binds_def b)

lemma doStatusChanged_inv:
  "binds_inv S (d_binds d) \<Longrightarrow> binds_inv S (d_binds (doStatusChangedEvent meta status d))"
  using copyBinds_inv [of S d "\<lparr>bd_ClusterID = 0, bd_ServerID = 0\<rparr>"]
  by (auto simp: doStatusChangedEvent_def intro!: binds_inv_map change_binds_ok)

lemma binds_inv_update:
  assumes "binds_inv S bs" "binds_ok S b"
  shows "binds_inv S (AList.update k b bs)"
proof -
  have "distinct (map fst bs)" using assms(1) by (simp add: binds_inv_def)
  then have "set (AList.update k b bs) \<subseteq> insert (k, b) (set bs)"
    by (induction bs) auto
  then show ?thesis using assms by (auto simp: binds_inv_def AList.distinct_update)
qed

lemma addBind_inv:
  assumes "binds_inv (fst ` set (d_servers d)) (d_binds d)" "keyed sv_ID (metas sr_meta (d_servers d))"
    and "addBind b d = Ok (err, d')"
  shows "binds_inv (fst ` set (d_servers d)) (d_binds d') \<and> d' = d\<lparr>d_binds := d_binds d'\<rparr>"
proof (cases "map_of (d_servers d) (bd_ServerID b) = None \<or> map_of (d_clusters d) (bd_ClusterID b) = None")
  case True
  then show ?thesis using assms by (auto simp: addBind_def split: option.splits if_splits)
next
  case False
  then obtain server where server: "map_of (d_servers d) (bd_ServerID b) = Some server" by auto
  let ?S = "fst ` set (d_servers d)" and ?new = "copyBinds \<lparr>bd_ClusterID = 0, bd_ServerID = 0\<rparr> d"
  have s: "sv_ID (sr_meta server) = bd_ServerID b" "bd_ServerID b \<in> ?S"
  proof -
    have "map_of (metas sr_meta (d_servers d)) (bd_ServerID b) = Some (sr_meta server)" by (simp add: map_of_metas server)
    then show "sv_ID (sr_meta server) = bd_ServerID b" using assms(2) unfolding keyed_def by blast
    show "bd_ServerID b \<in> ?S" using map_of_SomeD [OF server] by (metis fst_conv image_eqI)
  qed
  define st where "st = (if sv_HeathCheck (sr_meta server) = None then Up else Unknown)"
  define inf where "inf = (case map_of ?new (bd_ClusterID b) of None \<Rightarrow> \<lparr>bs_servers = [], bs_actives = []\<rparr> | Some x \<Rightarrow> x)"
  define inf' where "inf' = inf\<lparr>bs_servers := bs_servers inf @ [\<lparr>bi_svrID = bd_ServerID b, bi_status = st\<rparr>],
    bs_actives := bs_actives inf @ (if st = Up then [sr_meta server] else [])\<rparr>"
  have new: "binds_inv ?S ?new" using copyBinds_inv [OF assms(1)] .
  have "binds_ok ?S inf"
  proof (cases "map_of ?new (bd_ClusterID b)")
    case (Some x)
    have "binds_ok ?S x" using new map_of_SomeD [OF Some] unfolding binds_inv_def by blast
    then show ?thesis by (simp add: inf_def Some)
  qed (simp add: inf_def binds_ok_def)
  then have "binds_ok ?S inf'" using s by (auto simp: inf'_def binds_ok_def)
  moreover have "d' = d\<lparr>d_binds := AList.update (bd_ClusterID b) inf' ?new\<rparr>"
    using assms(3) False server by (auto simp: addBind_def Let_def inf'_def inf_def st_def split: if_splits)
  ultimately show ?thesis using binds_inv_update [OF new] by simp
qed

subsection \<open>The route table follows the APIs\<close>

lemma Add_ids:
  assumes "route_sorter srt" "route_inv A r"
  shows "case Add srt pick api r of Ok r' \<Rightarrow> route_inv (insert (api_ID api) A) r' | Err e \<Rightarrow> True | Panic \<Rightarrow> False"
  using Add_outcome [OF assms(1), of r api pick] assms(2)
  by (auto simp: route_inv_def table_upd_def split: outcome.splits if_splits)

lemma NewRoute_inv: "route_inv A NewRoute"
  by (simp add: route_inv_def NewRoute_def lookup_fresh route_ok_def)

lemma route_inv_mono: "route_inv A r \<Longrightarrow> A \<subseteq> B \<Longrightarrow> route_inv B r"
  by (auto simp: route_inv_def)

text \<open>One entry of the copy loop.\<close>

definition route_or_keep :: "env \<Rightarrow> bool \<Rightarrow> API \<Rightarrow> Route \<Rightarrow> (unit, Route) outcome" where
  "route_or_keep en up api rt =
     (if up then (case Add (en_srt en) (en_pick en) api rt of Ok rt' \<Rightarrow> Ok rt' | Err e \<Rightarrow> Ok rt | Panic \<Rightarrow> Panic) else Ok rt)"

lemma route_or_keep_ok:
  assumes "route_sorter (en_srt en)" "route_inv A rt"
  shows "\<exists>rt'. route_or_keep en up api rt = Ok rt' \<and> route_inv (insert (api_ID api) A) rt'"
  using Add_ids [OF assms, of api "en_pick en"] route_inv_mono [OF assms(2), of "insert (api_ID api) A"]
  by (auto simp: route_or_keep_def split: outcome.splits)

lemma copy_apis_run:
  assumes "route_sorter (en_srt en)" "\<And>k v. (k, v) \<in> set xs \<Longrightarrow> api_ID (ar_meta v) = k" "route_inv A rt"
    and "\<And>k v. (k, v) \<in> set xs \<Longrightarrow> \<exists>v'. api_clone en v = Ok v'"
  shows "\<exists>rt' ys. copy_apis en i j xs rt = Ok (rt', ys) \<and> route_inv (A \<union> fst ` set ys) rt' \<and>
    (\<forall>(k, v') \<in> set ys. \<exists>v. (k, v) \<in> set xs \<and> api_clone en v = Ok v')"
  using assms(2-)
proof (induction xs arbitrary: rt A)
  case (Cons x xs)
  obtain k v where x: "x = (k, v)" by (cases x)
  show ?case
  proof (cases "k = i")
    case True
    then show ?thesis using Cons.IH [OF _ Cons.prems(2)] Cons.prems x by fastforce
  next
    case False
    obtain v' where v': "api_clone en v = Ok v'" using Cons.prems(3) x by auto
    have id: "api_ID (ar_meta v') = k" using api_clone_Ok [OF v'] Cons.prems(1) x by simp
    obtain rt1 where rt1: "route_or_keep en (k \<noteq> j \<and> api_isUp v) (ar_meta v') rt = Ok rt1" "route_inv (insert k A) rt1"
      using route_or_keep_ok [OF assms(1) Cons.prems(2)] id by metis
    obtain rt2 ys where rt2: "copy_apis en i j xs rt1 = Ok (rt2, ys)" "route_inv (insert k A \<union> fst ` set ys) rt2"
      "\<forall>(k, v') \<in> set ys. \<exists>v. (k, v) \<in> set xs \<and> api_clone en v = Ok v'"
      using Cons.IH [OF _ rt1(2)] Cons.prems by fastforce
    have "copy_apis en i j (x # xs) rt = Ok (rt2, (k, v') # ys)"
      using False v' rt1(1) rt2(1) x unfolding route_or_keep_def by (auto split: if_splits outcome.splits)
    moreover have "route_inv (A \<union> fst ` set ((k, v') # ys)) rt2" using rt2(2) by simp
    moreover have "\<forall>(k', w) \<in> set ((k, v') # ys). \<exists>v. (k', v) \<in> set (x # xs) \<and> api_clone en v = Ok w"
      using rt2(3) v' x by fastforce
    ultimately show ?thesis by blast
  qed
qed simp

subsection \<open>Valid metadata\<close>

text \<open>What the constructors need not to panic: rewrite templates that parse, rules that compile, and rates of at
  most a thousand million per second.\<close>

definition max_rate :: int where
  "max_rate = 1000000000"

definition valid_node :: "regex \<Rightarrow> DispatchNode \<Rightarrow> bool" where
  "valid_node rx n \<longleftrightarrow> (dn_URLRewrite n \<noteq> [] \<longrightarrow> (\<exists>es. Parse (TrimSpace (dn_URLRewrite n)) = Ok es)) \<and>
     (\<forall>v\<in>set (dn_Validations n). \<forall>r\<in>set (va_Rules v). compiles rx (vr_Expression r))"

definition valid_api :: "regex \<Rightarrow> API \<Rightarrow> bool" where
  "valid_api rx a \<longleftrightarrow> (\<forall>n\<in>set (api_Nodes a). valid_node rx n) \<and> api_MaxQPS a \<le> max_rate"

definition valid_server :: "Server \<Rightarrow> bool" where
  "valid_server s \<longleftrightarrow> sv_MaxQPS s \<le> max_rate"

definition rate_ok :: "int \<Rightarrow> bool" where
  "rate_ok q \<longleftrightarrow> 0 < q \<and> q \<le> max_rate"

definition server_ok :: "serverRuntime \<Rightarrow> bool" where
  "server_ok s \<longleftrightarrow> valid_server (sr_meta s) \<and> rate_ok (pr_activeQPS s)"

definition api_ok :: "regex \<Rightarrow> apiRuntime \<Rightarrow> bool" where
  "api_ok rx a \<longleftrightarrow> valid_api rx (ar_meta a) \<and> rate_ok (pr_activeQPS a)"

definition runtimes_ok :: "regex \<Rightarrow> dispatcher \<Rightarrow> bool" where
  "runtimes_ok rx d \<longleftrightarrow> (\<forall>x\<in>set (d_servers d). server_ok (snd x)) \<and> (\<forall>x\<in>set (d_apis d). api_ok rx (snd x))"

definition env_ok :: "regex \<Rightarrow> env \<Rightarrow> bool" where
  "env_ok rx en \<longleftrightarrow> route_sorter (en_srt en) \<and> en_rx en = rx"

lemma refreshQPS_ok: "v \<le> max_rate \<Longrightarrow> rate_ok (refreshQPS v d)"
proof -
  assume v: "v \<le> max_rate"
  have "v sdiv int n \<le> max_rate" if "0 < n" for n
  proof (cases "0 \<le> v")
    case True
    then have "v sdiv int n = v div int n" using that by (simp add: signed_divide_int_def sgn_if)
    also have "\<dots> \<le> v" using True that zdiv_mono2 [of v 1 "int n"] by simp
    finally show ?thesis using v by simp
  next
    case False
    then have "v sdiv int n \<le> 0" using that by (simp add: signed_divide_int_def sgn_if pos_imp_zdiv_nonneg_iff)
    then show ?thesis by (simp add: max_rate_def)
  qed
  then show ?thesis using v by (auto simp: refreshQPS_def rate_ok_def Let_def max_rate_def)
qed

lemma newRateLimiter_run: "rate_ok q \<Longrightarrow> \<exists>l. newRateLimiter q opt now = Ok l"
  using newRateLimiter_defined [of q opt now]
  by (cases "newRateLimiter q opt now")
    (auto simp: rate_ok_def max_rate_def newRateLimiter_def NewBucket_def NewBucketWithQuantumAndClock_def split: if_splits)

lemma server_updateMeta_run:
  "valid_server m \<Longrightarrow> rate_ok q \<Longrightarrow> \<exists>s. server_updateMeta en m q t = Ok s \<and> server_ok s \<and> sr_meta s = m"
  using newRateLimiter_run [of q "sv_RateLimitOption m" "en_now en"]
  by (auto simp: server_updateMeta_def server_ok_def)

lemma server_clone_run: "server_ok s \<Longrightarrow> \<exists>s'. server_clone en s = Ok s' \<and> server_ok s'"
  using server_updateMeta_run [of "sr_meta s" "pr_activeQPS s" en 0]
  by (auto simp: server_clone_def newServerRuntime_def server_ok_def)

lemma newValidations_run:
  "(\<forall>v\<in>set vs. \<forall>r\<in>set (va_Rules v). compiles rx (vr_Expression r)) \<Longrightarrow> \<exists>rvs. newValidations rx vs = Ok rvs"
  by (induction vs) (auto simp: list_all_iff)

lemma newAPINode_run: "valid_node (en_rx en) n \<Longrightarrow> \<exists>x. newAPINode en n = Ok x"
  using newValidations_run [of "dn_Validations n" "en_rx en"]
  by (auto simp: newAPINode_def valid_node_def Let_def)

lemma newAPINodes_run: "\<forall>n\<in>set ns. valid_node (en_rx en) n \<Longrightarrow> \<exists>xs. newAPINodes en ns = Ok xs"
proof (induction ns)
  case (Cons n ns)
  then show ?case using newAPINode_run [of en n] by auto
qed simp

lemma api_init_run:
  assumes "valid_api (en_rx en) m" "rate_ok q"
  shows "\<exists>a. api_init en m q t = Ok a \<and> api_ok (en_rx en) a \<and> ar_meta a = m"
  using newAPINodes_run [of "api_Nodes m" en] newRateLimiter_run [OF assms(2), of "api_RateLimitOption m" "en_now en"] assms
  by (auto simp: api_init_def api_ok_def valid_api_def)

lemma api_clone_run: "api_ok (en_rx en) a \<Longrightarrow> \<exists>a'. api_clone en a = Ok a' \<and> api_ok (en_rx en) a'"
  using api_init_run [of en "ar_meta a" "pr_activeQPS a" 0] by (auto simp: api_clone_def newAPIRuntime_def api_ok_def)

subsection \<open>The copies\<close>

text \<open>A good dispatcher: the invariant, and runtimes that can be rebuilt.\<close>

definition good :: "regex \<Rightarrow> dispatcher \<Rightarrow> bool" where
  "good rx d \<longleftrightarrow> disp_inv d \<and> runtimes_ok rx d"

lemma copyServers_run:
  assumes "runtimes_ok rx d"
  obtains ys where "copyServers en i d = Ok ys" "\<forall>x\<in>set ys. server_ok (snd x)"
    "metas sr_meta ys = filter (\<lambda>x. fst x \<noteq> i) (metas sr_meta (d_servers d))"
proof -
  have ok: "\<exists>v'. server_clone en v = Ok v'" if "(k, v) \<in> set (d_servers d)" for k v
    using that assms server_clone_run by (fastforce simp: runtimes_ok_def)
  then obtain ys where ys: "copyServers en i d = Ok ys" unfolding copyServers_def using copy_values_total by blast
  have "\<forall>x\<in>set ys. server_ok (snd x)"
  proof
    fix x assume "x \<in> set ys"
    then obtain v where "(fst x, v) \<in> set (d_servers d)" "server_clone en v = Ok (snd x)"
      using copy_values_all [OF ys [unfolded copyServers_def], of "fst x" "snd x"] by auto
    then show "server_ok (snd x)" using assms server_clone_run [of v en] by (fastforce simp: runtimes_ok_def)
  qed
  then show thesis using that [OF ys] copyServers_metas [OF ys] by blast
qed

lemma copyClusters_run: obtains ys where "copyClusters en i d = Ok ys"
    "metas cr_meta ys = filter (\<lambda>x. fst x \<noteq> i) (metas cr_meta (d_clusters d))"
proof -
  obtain ys where "copyClusters en i d = Ok ys"
    using copy_values_total [of "d_clusters d" "\<lambda>c. Ok (cluster_clone en c)" i] by (auto simp: copyClusters_def)
  then show thesis using that copyClusters_metas by blast
qed

lemma copyRoutings_run: obtains ys where "copyRoutings en i d = Ok ys"
    "metas rr_meta ys = filter (\<lambda>x. fst x \<noteq> i) (metas rr_meta (d_routings d))"
proof -
  obtain ys where "copyRoutings en i d = Ok ys"
    using copy_values_total [of "d_routings d" "\<lambda>c. Ok (routing_clone en c)" i] by (auto simp: copyRoutings_def)
  then show thesis using that copyRoutings_metas by blast
qed

lemma keyed_ids: "keyed idf (metas f xs) \<Longrightarrow> (k, v) \<in> set xs \<Longrightarrow> idf (f v) = k"
proof -
  assume k: "keyed idf (metas f xs)" and "(k, v) \<in> set xs"
  then have "map_of xs k = Some v" by (simp add: keyed_def)
  then show "idf (f v) = k" using k by (auto simp: keyed_def map_of_metas)
qed

lemma copyAPIs_run:
  assumes "good rx d" "env_ok rx en"
  obtains rt ys where "copyAPIs en i j d = Ok (rt, ys)" "\<forall>x\<in>set ys. api_ok rx (snd x)" "route_inv (fst ` set ys) rt"
    "metas ar_meta ys = filter (\<lambda>x. fst x \<noteq> i) (metas ar_meta (d_apis d))"
proof -
  have rx: "en_rx en = rx" "route_sorter (en_srt en)" using assms(2) by (auto simp: env_ok_def)
  have ok: "api_ok rx v" "api_ID (ar_meta v) = k" if "(k, v) \<in> set (d_apis d)" for k v
    using that assms(1) keyed_ids [of api_ID ar_meta "d_apis d" k v] by (auto simp: good_def runtimes_ok_def disp_inv_def)
  have cl: "\<exists>v'. api_clone en v = Ok v'" if "(k, v) \<in> set (d_apis d)" for k v
    using ok(1) [OF that] api_clone_run [of en v] rx by auto
  obtain rt ys where ys: "copyAPIs en i j d = Ok (rt, ys)" "route_inv (fst ` set ys) rt"
    "\<forall>(k, v') \<in> set ys. \<exists>v. (k, v) \<in> set (d_apis d) \<and> api_clone en v = Ok v'"
  proof -
    have "\<exists>rt ys. copy_apis en i j (d_apis d) NewRoute = Ok (rt, ys) \<and> route_inv ({} \<union> fst ` set ys) rt \<and>
      (\<forall>(k, v') \<in> set ys. \<exists>v. (k, v) \<in> set (d_apis d) \<and> api_clone en v = Ok v')"
      by (rule copy_apis_run [OF rx(2)]) (use ok(2) cl NewRoute_inv in blast)+
    then show ?thesis using that by (auto simp: copyAPIs_def)
  qed
  have "\<forall>x\<in>set ys. api_ok rx (snd x)"
  proof
    fix x assume "x \<in> set ys"
    then obtain v where "(fst x, v) \<in> set (d_apis d)" "api_clone en v = Ok (snd x)" using ys(3) by force
    then show "api_ok rx (snd x)" using ok(1) api_clone_run [of en v] rx by fastforce
  qed
  then show thesis using that ys copyAPIs_metas by blast
qed

subsection \<open>The abstract configuration\<close>

record config =
  cf_servers :: "uint64 \<rightharpoonup> Server"
  cf_clusters :: "uint64 \<rightharpoonup> Cluster"
  cf_routings :: "uint64 \<rightharpoonup> Routing"
  cf_apis :: "uint64 \<rightharpoonup> API"
  cf_binds :: "(uint64 \<times> uint64) set"
  cf_proxies :: "string \<rightharpoonup> Proxy"
  cf_plugins :: "uint64 \<rightharpoonup> Plugin"
  cf_applied :: "uint64 list option"

definition bind_set :: "(uint64 \<times> binds) list \<Rightarrow> (uint64 \<times> uint64) set" where
  "bind_set bs = {(k, i). \<exists>b. (k, b) \<in> set bs \<and> i \<in> bi_svrID ` set (bs_servers b)}"

definition abs_config :: "dispatcher \<Rightarrow> config" where
  "abs_config d = \<lparr>cf_servers = map_of (metas sr_meta (d_servers d)), cf_clusters = map_of (metas cr_meta (d_clusters d)),
     cf_routings = map_of (metas rr_meta (d_routings d)), cf_apis = map_of (metas ar_meta (d_apis d)),
     cf_binds = bind_set (d_binds d), cf_proxies = map_of (d_proxies d), cf_plugins = map_of (d_plugins d),
     cf_applied = d_applied d\<rparr>"

text \<open>A new entry must be new, an update must find one, a delete removes the key.\<close>

definition spec_put :: "('m \<Rightarrow> uint64) \<Rightarrow> EvtType \<Rightarrow> string \<Rightarrow> 'm \<Rightarrow> (uint64 \<rightharpoonup> 'm) \<Rightarrow> (uint64 \<rightharpoonup> 'm)" where
  "spec_put idf t key m mp =
     (case t of
        EventTypeNew \<Rightarrow> if mp (idf m) = None then mp(idf m \<mapsto> m) else mp
      | EventTypeUpdate \<Rightarrow> if mp (idf m) = None then mp else mp(idf m \<mapsto> m)
      | EventTypeDelete \<Rightarrow> (case MustParseStrUInt64 key of Ok i \<Rightarrow> mp(i := None) | _ \<Rightarrow> mp))"

text \<open>The configurations an event may lead to: an API whose pattern conflicts is refused, so is a plugin the script
  engine does not accept, everything else is determined. Deleting a server also deletes its binds; deleting a cluster
  does not.\<close>

fun spec_event :: "Evt \<Rightarrow> config \<Rightarrow> config set" where
  "spec_event (ClusterEvt t key c) cf = {cf\<lparr>cf_clusters := spec_put cl_ID t key c (cf_clusters cf)\<rparr>}"
| "spec_event (ServerEvt t key s) cf =
     {cf\<lparr>cf_servers := spec_put sv_ID t key s (cf_servers cf),
         cf_binds := {x \<in> cf_binds cf. t = EventTypeDelete \<longrightarrow> MustParseStrUInt64 key \<noteq> Ok (snd x)}\<rparr>}"
| "spec_event (RoutingEvt t key r) cf = {cf\<lparr>cf_routings := spec_put rg_ID t key r (cf_routings cf)\<rparr>}"
| "spec_event (APIEvt t key a) cf =
     {cf\<lparr>cf_apis := spec_put api_ID t key a (cf_apis cf)\<rparr>} \<union> (if t = EventTypeDelete then {} else {cf})"
| "spec_event (BindEvt t b) cf =
     {if cf_servers cf (bd_ServerID b) = None \<or> cf_clusters cf (bd_ClusterID b) = None then cf
      else case t of
        EventTypeNew \<Rightarrow> cf\<lparr>cf_binds := insert (bd_ClusterID b, bd_ServerID b) (cf_binds cf)\<rparr>
      | EventTypeDelete \<Rightarrow> cf\<lparr>cf_binds := cf_binds cf - {(bd_ClusterID b, bd_ServerID b)}\<rparr>
      | EventTypeUpdate \<Rightarrow> cf}"
| "spec_event (ProxyEvt t key p) cf =
     {case t of
        EventTypeNew \<Rightarrow>
          if cf_proxies cf (GetAddrFormat (px_Addr p)) = None
          then cf\<lparr>cf_proxies := (cf_proxies cf)(GetAddrFormat (px_Addr p) \<mapsto> p)\<rparr> else cf
      | EventTypeDelete \<Rightarrow> cf\<lparr>cf_proxies := (cf_proxies cf)(key := None)\<rparr>
      | EventTypeUpdate \<Rightarrow> cf}"
| "spec_event (PluginEvt t key p) cf =
     {cf\<lparr>cf_plugins := spec_put pl_ID t key p (cf_plugins cf)\<rparr>} \<union> (if t = EventTypeUpdate then {cf} else {})"
| "spec_event (ApplyPluginEvt t ids) cf =
     {if t = EventTypeDelete then cf\<lparr>cf_applied := Some []\<rparr>
      else if \<forall>i\<in>set ids. cf_plugins cf i \<noteq> None then cf\<lparr>cf_applied := Some ids\<rparr> else cf}"
| "spec_event (StatusEvt m st) cf = {cf}"

lemma bind_set_keep:
  "bind_set (copyBinds ex d) =
     {(k, i) \<in> bind_set (d_binds d). i \<noteq> bd_ServerID ex \<or> bd_ClusterID ex \<noteq> 0 \<and> bd_ClusterID ex \<noteq> k}"
  by (force simp: copyBinds_eq bind_set_def keep_binds_def)

lemma change_binds_servers: "bi_svrID ` set (bs_servers (change_binds m st b)) = bi_svrID ` set (bs_servers b)"
proof -
  have "map bi_svrID (bs_servers (change_binds m st b)) = map bi_svrID (bs_servers b)"
    by (simp add: change_binds_def comp_def if_distrib cong: if_cong)
  then show ?thesis by (metis set_map)
qed

lemma bind_set_Union: "bind_set bs = (\<Union>x\<in>set bs. Pair (fst x) ` bi_svrID ` set (bs_servers (snd x)))"
  by (auto simp: bind_set_def)

lemma bind_set_change: "bind_set (map (\<lambda>(k, b). (k, change_binds m st b)) bs) = bind_set bs"
  by (simp add: bind_set_Union case_prod_unfold change_binds_servers)

lemma bind_set_bound: "binds_inv S bs \<Longrightarrow> (k, i) \<in> bind_set bs \<Longrightarrow> i \<in> S"
  by (auto simp: bind_set_def binds_inv_def binds_ok_def)

lemma update_in_distinct:
  "distinct (map fst bs) \<Longrightarrow> (x, y) \<in> set (AList.update k v bs) \<longleftrightarrow> (if x = k then y = v else (x, y) \<in> set bs)"
proof -
  assume d: "distinct (map fst bs)"
  then have "distinct (map fst (AList.update k v bs))" by (rule AList.distinct_update)
  then have "(x, y) \<in> set (AList.update k v bs) \<longleftrightarrow> map_of (AList.update k v bs) x = Some y" by (rule map_of_eq_Some_iff [symmetric])
  also have "\<dots> \<longleftrightarrow> (if x = k then v = y else map_of bs x = Some y)" by (simp add: AList.update_conv')
  finally show ?thesis using map_of_eq_Some_iff [OF d] by auto
qed

lemma bind_set_map_of:
  "distinct (map fst bs) \<Longrightarrow> (k, i) \<in> bind_set bs \<longleftrightarrow> (\<exists>b. map_of bs k = Some b \<and> i \<in> bi_svrID ` set (bs_servers b))"
  by (simp add: bind_set_def)

lemma addBind_set:
  assumes "binds_inv (fst ` set (d_servers d)) (d_binds d)" "0 \<notin> fst ` set (d_servers d)" "addBind b d = Ok (err, d')"
  shows "bind_set (d_binds d') =
    (if map_of (d_servers d) (bd_ServerID b) = None \<or> map_of (d_clusters d) (bd_ClusterID b) = None then bind_set (d_binds d)
     else insert (bd_ClusterID b, bd_ServerID b) (bind_set (d_binds d)))"
proof -
  let ?k = "bd_ClusterID b"
  have c: "copyBinds \<lparr>bd_ClusterID = 0, bd_ServerID = 0\<rparr> d = d_binds d" by (rule copyBinds_server0 [OF assms(1,2)]) simp
  have dist: "distinct (map fst (d_binds d))" using assms(1) by (simp add: binds_inv_def)
  define inf where "inf = (case map_of (d_binds d) ?k of None \<Rightarrow> \<lparr>bs_servers = [], bs_actives = []\<rparr> | Some x \<Rightarrow> x)"
  have inf: "i \<in> bi_svrID ` set (bs_servers inf) \<longleftrightarrow> (?k, i) \<in> bind_set (d_binds d)" for i
    unfolding bind_set_map_of [OF dist] by (cases "map_of (d_binds d) ?k") (simp_all add: inf_def del: map_of_eq_Some_iff)
  have upd: "bind_set (AList.update ?k x (d_binds d)) = {y \<in> bind_set (d_binds d). fst y \<noteq> ?k} \<union> Pair ?k ` bi_svrID ` set (bs_servers x)" for x
    by (auto simp: bind_set_def update_in_distinct [OF dist] split: if_splits)
  have "{y \<in> bind_set (d_binds d). fst y \<noteq> ?k} \<union> Pair ?k ` insert (bd_ServerID b) (bi_svrID ` set (bs_servers inf)) =
      insert (?k, bd_ServerID b) (bind_set (d_binds d))" using inf by auto
  moreover have "\<exists>x. d_binds d' = AList.update ?k x (d_binds d) \<and>
      bi_svrID ` set (bs_servers x) = insert (bd_ServerID b) (bi_svrID ` set (bs_servers inf))"
    if "map_of (d_servers d) (bd_ServerID b) = Some server" "map_of (d_clusters d) ?k \<noteq> None" for server
  proof -
    define st where "st = (if sv_HeathCheck (sr_meta server) = None then Up else Unknown)"
    define x where "x = inf\<lparr>bs_servers := bs_servers inf @ [\<lparr>bi_svrID = bd_ServerID b, bi_status = st\<rparr>],
      bs_actives := bs_actives inf @ (if st = Up then [sr_meta server] else [])\<rparr>"
    have "d_binds d' = AList.update ?k x (d_binds d)"
      using assms(3) that by (auto simp: addBind_def c Let_def x_def inf_def st_def split: if_splits)
    then show ?thesis by (intro exI [of _ x]) (simp add: x_def)
  qed
  moreover have "d' = d" if "map_of (d_servers d) (bd_ServerID b) = None \<or> map_of (d_clusters d) ?k = None"
    using assms(3) that by (auto simp: addBind_def split: option.splits)
  ultimately show ?thesis using upd by (cases "map_of (d_servers d) (bd_ServerID b)") auto
qed

end
