(* ===== verification/Dispatch_Refine.thy ===== *)
theory Dispatch_Refine
  imports Dispatch_Inv
begin

text \<open>
  Every operation of the dispatcher (\<^verbatim>\<open>proxy/dispatcher_meta.go\<close>, \<^verbatim>\<open>proxy/dispatcher_event.go\<close>) runs without a panic on
  valid metadata, keeps the invariant of \<^verbatim>\<open>Dispatch_Inv\<close> and has the effect of its event on the abstract configuration.
\<close>

subsection \<open>Every operation keeps the invariant and meets its specification\<close>

lemma table_put:
  assumes "keyed idf (metas f xs)" "metas f ys = filter (\<lambda>x. fst x \<noteq> 0) (metas f xs)" "f v = m" "idf m \<noteq> 0"
  shows "keyed idf (metas f (AList.update (idf m) v ys))"
    and "map_of (metas f (AList.update (idf m) v ys)) = (map_of (metas f xs))(idf m \<mapsto> m)"
    and "fst ` set (AList.update (idf m) v ys) = insert (idf m) (fst ` set xs)"
proof -
  have ys: "metas f ys = metas f xs" using assms(1,2) keyed_filter0 by metis
  then have "fst ` set ys = fst ` set xs" by (metis metas_key_set)
  then show "fst ` set (AList.update (idf m) v ys) = insert (idf m) (fst ` set xs)" by (simp add: AList.dom_update)
  show "keyed idf (metas f (AList.update (idf m) v ys))" using assms(1,3,4) by (simp add: metas_update ys keyed_update)
  show "map_of (metas f (AList.update (idf m) v ys)) = (map_of (metas f xs))(idf m \<mapsto> m)"
    using assms(3) by (simp add: metas_update ys AList.update_conv')
qed

lemma keys_without: "fst ` set (filter (\<lambda>x. fst x \<noteq> i) ms) = fst ` set ms - {i}"
  by auto

lemma table_del:
  assumes "keyed idf (metas f xs)" "metas f ys = filter (\<lambda>x. fst x \<noteq> i) (metas f xs)"
  shows "keyed idf (metas f ys)" and "map_of (metas f ys) = (map_of (metas f xs))(i := None)"
    and "fst ` set ys = fst ` set xs - {i}"
proof -
  show "keyed idf (metas f ys)" using assms keyed_without by metis
  show "map_of (metas f ys) = (map_of (metas f xs))(i := None)" using assms(2) map_of_without by metis
  have "fst ` set (metas f ys) = fst ` set (metas f xs) - {i}" unfolding assms(2) by (rule keys_without)
  then show "fst ` set ys = fst ` set xs - {i}" by simp
qed

lemma table_same:
  "keyed idf (metas f xs) \<Longrightarrow> metas f ys = filter (\<lambda>x. fst x \<noteq> 0) (metas f xs) \<Longrightarrow> metas f ys = metas f xs"
  by (simp add: keyed_filter0)

lemma table_found:
  assumes "keyed idf (metas f xs)" "metas f ys = filter (\<lambda>x. fst x \<noteq> 0) (metas f xs)" "map_of xs k = Some old"
  obtains v where "map_of ys k = Some v" "f v = f old"
proof -
  have "map_option f (map_of ys k) = Some (f old)" using table_same [OF assms(1,2)] assms(3) map_of_metas [of f] by (metis option.simps(9))
  then show thesis using that by auto
qed

lemma update_all: "\<forall>x\<in>set ys. P (snd x) \<Longrightarrow> P v \<Longrightarrow> \<forall>x\<in>set (AList.update k v ys). P (snd x)"
  by (induction ys) auto

text \<open>An operation runs, keeps a good state good, and its effect on the configuration is \<open>F\<close>.\<close>

definition runs :: "regex \<Rightarrow> dispatcher \<Rightarrow> (config \<Rightarrow> config set) \<Rightarrow> meta_result \<Rightarrow> bool" where
  "runs rx d F r \<longleftrightarrow> (\<exists>err d'. r = Ok (err, d') \<and> good rx d' \<and> abs_config d' \<in> F (abs_config d))"

lemma runsI: "r = Ok (err, d') \<Longrightarrow> good rx d' \<Longrightarrow> abs_config d' \<in> F (abs_config d) \<Longrightarrow> runs rx d F r"
  by (auto simp: runs_def)

lemma addCluster_run:
  assumes "good rx d" "cl_ID c \<noteq> 0"
  shows "runs rx d (spec_event (ClusterEvt EventTypeNew key c)) (addCluster en c d)"
proof (cases "map_of (d_clusters d) (cl_ID c)")
  case None
  obtain ys where ys: "copyClusters en 0 d = Ok ys" "metas cr_meta ys = filter (\<lambda>x. fst x \<noteq> 0) (metas cr_meta (d_clusters d))"
    by (rule copyClusters_run)
  have k: "keyed cl_ID (metas cr_meta (d_clusters d))" using assms(1) by (simp add: good_def disp_inv_def)
  note t = table_put [OF k ys(2) cluster_meta(1) assms(2), of en]
  show ?thesis
    by (rule runsI [of _ None "d\<lparr>d_clusters := AList.update (cl_ID c) (newClusterRuntime en c) ys\<rparr>"])
      (use None ys assms t in \<open>simp_all add: addCluster_def good_def disp_inv_def runtimes_ok_def plugins_inv_def
         abs_config_def spec_put_def map_of_metas\<close>)
qed (use assms in \<open>auto simp: runs_def addCluster_def abs_config_def spec_put_def map_of_metas\<close>)

lemma updateCluster_run:
  assumes "good rx d" "cl_ID c \<noteq> 0"
  shows "runs rx d (spec_event (ClusterEvt EventTypeUpdate key c)) (updateCluster en c d)"
proof (cases "map_of (d_clusters d) (cl_ID c)")
  case (Some old)
  obtain ys where ys: "copyClusters en 0 d = Ok ys" "metas cr_meta ys = filter (\<lambda>x. fst x \<noteq> 0) (metas cr_meta (d_clusters d))"
    by (rule copyClusters_run)
  have k: "keyed cl_ID (metas cr_meta (d_clusters d))" using assms(1) by (simp add: good_def disp_inv_def)
  obtain rt where rt: "map_of ys (cl_ID c) = Some rt" by (rule table_found [OF k ys(2) Some])
  note t = table_put [OF k ys(2) cluster_meta(3) assms(2), of en rt]
  show ?thesis
    by (rule runsI [of _ None "d\<lparr>d_clusters := AList.update (cl_ID c) (cluster_updateMeta en c rt) ys\<rparr>"])
      (use Some rt ys assms t in \<open>simp_all add: updateCluster_def good_def disp_inv_def runtimes_ok_def plugins_inv_def
         abs_config_def spec_put_def map_of_metas\<close>)
qed (use assms in \<open>auto simp: runs_def updateCluster_def abs_config_def spec_put_def map_of_metas\<close>)

lemma removeCluster_run:
  assumes "good rx d" "MustParseStrUInt64 key = Ok i"
  shows "runs rx d (spec_event (ClusterEvt EventTypeDelete key c)) (removeCluster en i d)"
proof (cases "map_of (d_clusters d) i")
  case (Some old)
  obtain ys where ys: "copyClusters en i d = Ok ys" "metas cr_meta ys = filter (\<lambda>x. fst x \<noteq> i) (metas cr_meta (d_clusters d))"
    by (rule copyClusters_run)
  have k: "keyed cl_ID (metas cr_meta (d_clusters d))" "keyed sv_ID (metas sr_meta (d_servers d))"
    and b: "binds_inv (fst ` set (d_servers d)) (d_binds d)" using assms(1) by (simp_all add: good_def disp_inv_def)
  note t = table_del [OF k(1) ys(2)]
  have c: "copyBinds \<lparr>bd_ClusterID = i, bd_ServerID = 0\<rparr> d = d_binds d"
    using copyBinds_server0 [OF b keyed_0 [OF k(2)]] by simp
  show ?thesis
    by (rule runsI [of _ None "d\<lparr>d_clusters := ys\<rparr>"])
      (use Some ys assms t c in \<open>simp_all add: removeCluster_def good_def disp_inv_def runtimes_ok_def plugins_inv_def
         abs_config_def spec_put_def map_of_metas\<close>)
qed (use assms in \<open>auto simp: runs_def removeCluster_def abs_config_def spec_put_def map_of_metas fun_upd_idem\<close>)

lemma addRouting_run:
  assumes "good rx d" "rg_ID c \<noteq> 0"
  shows "runs rx d (spec_event (RoutingEvt EventTypeNew key c)) (addRouting en c d)"
proof (cases "map_of (d_routings d) (rg_ID c)")
  case None
  obtain ys where ys: "copyRoutings en 0 d = Ok ys" "metas rr_meta ys = filter (\<lambda>x. fst x \<noteq> 0) (metas rr_meta (d_routings d))"
    by (rule copyRoutings_run)
  have k: "keyed rg_ID (metas rr_meta (d_routings d))" using assms(1) by (simp add: good_def disp_inv_def)
  note t = table_put [OF k ys(2) routing_meta(1) assms(2), of en]
  show ?thesis
    by (rule runsI [of _ None "d\<lparr>d_routings := AList.update (rg_ID c) (newRoutingRuntime en c) ys\<rparr>"])
      (use None ys assms t in \<open>simp_all add: addRouting_def good_def disp_inv_def runtimes_ok_def plugins_inv_def
         abs_config_def spec_put_def map_of_metas\<close>)
qed (use assms in \<open>auto simp: runs_def addRouting_def abs_config_def spec_put_def map_of_metas\<close>)

lemma updateRouting_run:
  assumes "good rx d" "rg_ID c \<noteq> 0"
  shows "runs rx d (spec_event (RoutingEvt EventTypeUpdate key c)) (updateRouting en c d)"
proof (cases "map_of (d_routings d) (rg_ID c)")
  case (Some old)
  obtain ys where ys: "copyRoutings en 0 d = Ok ys" "metas rr_meta ys = filter (\<lambda>x. fst x \<noteq> 0) (metas rr_meta (d_routings d))"
    by (rule copyRoutings_run)
  have k: "keyed rg_ID (metas rr_meta (d_routings d))" using assms(1) by (simp add: good_def disp_inv_def)
  obtain rt where rt: "map_of ys (rg_ID c) = Some rt" by (rule table_found [OF k ys(2) Some])
  note t = table_put [OF k ys(2) routing_meta(1) assms(2), of en]
  show ?thesis
    by (rule runsI [of _ None "d\<lparr>d_routings := AList.update (rg_ID c) (newRoutingRuntime en c) ys\<rparr>"])
      (use Some rt ys assms t in \<open>simp_all add: updateRouting_def good_def disp_inv_def runtimes_ok_def plugins_inv_def
         abs_config_def spec_put_def map_of_metas\<close>)
qed (use assms in \<open>auto simp: runs_def updateRouting_def abs_config_def spec_put_def map_of_metas\<close>)

lemma removeRouting_run:
  assumes "good rx d" "MustParseStrUInt64 key = Ok i"
  shows "runs rx d (spec_event (RoutingEvt EventTypeDelete key c)) (removeRouting en i d)"
proof (cases "map_of (d_routings d) i")
  case (Some old)
  obtain ys where ys: "copyRoutings en i d = Ok ys" "metas rr_meta ys = filter (\<lambda>x. fst x \<noteq> i) (metas rr_meta (d_routings d))"
    by (rule copyRoutings_run)
  have k: "keyed rg_ID (metas rr_meta (d_routings d))" using assms(1) by (simp_all add: good_def disp_inv_def)
  note t = table_del [OF k ys(2)]
  show ?thesis
    by (rule runsI [of _ None "d\<lparr>d_routings := ys\<rparr>"])
      (use Some ys assms t in \<open>simp_all add: removeRouting_def good_def disp_inv_def runtimes_ok_def plugins_inv_def
         abs_config_def spec_put_def map_of_metas\<close>)
qed (use assms in \<open>auto simp: runs_def removeRouting_def abs_config_def spec_put_def map_of_metas fun_upd_idem\<close>)

subsection \<open>Servers\<close>

lemmas good_defs = good_def disp_inv_def runtimes_ok_def plugins_inv_def
lemmas spec_defs = abs_config_def spec_put_def map_of_metas

lemma queue_analysis_simps [simp]:
  "d_servers (queue_check s d) = d_servers d" "d_clusters (queue_check s d) = d_clusters d"
  "d_routings (queue_check s d) = d_routings d" "d_apis (queue_check s d) = d_apis d" "d_route (queue_check s d) = d_route d"
  "d_binds (queue_check s d) = d_binds d" "d_proxies (queue_check s d) = d_proxies d"
  "d_plugins (queue_check s d) = d_plugins d" "d_applied (queue_check s d) = d_applied d"
  "d_servers (addAnalysis i c d) = d_servers d" "d_clusters (addAnalysis i c d) = d_clusters d"
  "d_routings (addAnalysis i c d) = d_routings d" "d_apis (addAnalysis i c d) = d_apis d" "d_route (addAnalysis i c d) = d_route d"
  "d_binds (addAnalysis i c d) = d_binds d" "d_proxies (addAnalysis i c d) = d_proxies d"
  "d_plugins (addAnalysis i c d) = d_plugins d" "d_applied (addAnalysis i c d) = d_applied d"
  by (simp_all add: queue_check_def addAnalysis_def Let_def)

lemma server_ok_prepare [simp]: "server_ok (check_prepare s) = server_ok s"
  by (simp add: server_ok_def)

text \<open>Storing a checked runtime for a server of a good state.\<close>

lemma store_server:
  fixes cb :: "CircuitBreaker option"
  assumes "good rx d" "metas sr_meta ys = filter (\<lambda>x. fst x \<noteq> 0) (metas sr_meta (d_servers d))"
    and "\<forall>x\<in>set ys. server_ok (snd x)" "server_ok rt" "sr_meta rt = m" "sv_ID m \<noteq> 0"
  defines "d' \<equiv> (queue_check rt (addAnalysis (sv_ID m) cb d))\<lparr>d_servers := AList.update (sv_ID m) (check_prepare rt) ys\<rparr>"
  shows "good rx d'" and "abs_config d' = (abs_config d)\<lparr>cf_servers := (cf_servers (abs_config d))(sv_ID m \<mapsto> m)\<rparr>"
proof -
  have k: "keyed sv_ID (metas sr_meta (d_servers d))" and b: "binds_inv (fst ` set (d_servers d)) (d_binds d)"
    using assms(1) by (simp_all add: good_defs)
  have m: "sr_meta (check_prepare rt) = m" using assms(5) by simp
  note t = table_put [OF k assms(2) m assms(6)]
  have "binds_inv (insert (sv_ID m) (fst ` set (d_servers d))) (d_binds d)" by (rule binds_inv_mono [OF b]) auto
  moreover have "\<forall>x\<in>set (AList.update (sv_ID m) (check_prepare rt) ys). server_ok (snd x)"
    by (rule update_all [OF assms(3)]) (simp add: assms(4))
  ultimately show "good rx d'" using assms(1) t by (simp add: d'_def good_defs)
  show "abs_config d' = (abs_config d)\<lparr>cf_servers := (cf_servers (abs_config d))(sv_ID m \<mapsto> m)\<rparr>"
    using t(2) by (simp add: d'_def abs_config_def)
qed

lemma addServer_run:
  assumes "good rx d" "sv_ID s \<noteq> 0" "valid_server s"
  shows "runs rx d (spec_event (ServerEvt EventTypeNew key s)) (addServer en s d)"
proof (cases "map_of (d_servers d) (sv_ID s)")
  case None
  obtain ys where ys: "copyServers en 0 d = Ok ys" "\<forall>x\<in>set ys. server_ok (snd x)"
    "metas sr_meta ys = filter (\<lambda>x. fst x \<noteq> 0) (metas sr_meta (d_servers d))"
    using copyServers_run [of rx d en 0] assms(1) by (auto simp: good_def)
  obtain rt where rt: "newServerRuntime en s (refreshQPS (sv_MaxQPS s) d) = Ok rt" "server_ok rt" "sr_meta rt = s"
    using server_updateMeta_run [OF assms(3) refreshQPS_ok, of "sv_MaxQPS s" en d 0] assms(3)
    by (auto simp: newServerRuntime_def valid_server_def)
  note st = store_server [OF assms(1) ys(3,2) rt(2,3) assms(2), of "sv_CircuitBreaker s"]
  show ?thesis
    by (rule runsI [OF _ st(1)]) (use None ys rt st(2) in \<open>simp_all add: addServer_def Let_def spec_put_def, simp add: abs_config_def map_of_metas\<close>)
qed (use assms in \<open>auto simp: runs_def addServer_def spec_defs\<close>)

lemma updateServer_run:
  assumes "good rx d" "sv_ID s \<noteq> 0" "valid_server s"
  shows "runs rx d (spec_event (ServerEvt EventTypeUpdate key s)) (updateServer en s d)"
proof (cases "map_of (d_servers d) (sv_ID s)")
  case (Some old)
  obtain ys where ys: "copyServers en 0 d = Ok ys" "\<forall>x\<in>set ys. server_ok (snd x)"
    "metas sr_meta ys = filter (\<lambda>x. fst x \<noteq> 0) (metas sr_meta (d_servers d))"
    using copyServers_run [of rx d en 0] assms(1) by (auto simp: good_def)
  have k: "keyed sv_ID (metas sr_meta (d_servers d))" using assms(1) by (simp add: good_defs)
  obtain o' where o': "map_of ys (sv_ID s) = Some o'" by (rule table_found [OF k ys(3) Some])
  obtain rt where rt: "server_updateMeta en s (refreshQPS (sv_MaxQPS s) d) (pr_half_timers o') = Ok rt" "server_ok rt" "sr_meta rt = s"
    using server_updateMeta_run [OF assms(3) refreshQPS_ok, of "sv_MaxQPS s" en d "pr_half_timers o'"] assms(3)
    by (auto simp: valid_server_def)
  note st = store_server [OF assms(1) ys(3,2) rt(2,3) assms(2), of "sv_CircuitBreaker s"]
  show ?thesis
    by (rule runsI [OF _ st(1)]) (use Some ys o' rt st(2) in \<open>simp_all add: updateServer_def Let_def spec_put_def, simp add: abs_config_def map_of_metas\<close>)
qed (use assms in \<open>auto simp: runs_def updateServer_def spec_defs\<close>)

lemma removeServer_run:
  assumes "good rx d" "MustParseStrUInt64 key = Ok i"
  shows "runs rx d (spec_event (ServerEvt EventTypeDelete key s)) (removeServer en i d)"
proof (cases "map_of (d_servers d) i")
  case None
  have "binds_inv (fst ` set (d_servers d)) (d_binds d)" "i \<notin> fst ` set (d_servers d)"
    using assms(1) None by (simp_all add: good_defs map_of_eq_None_iff)
  then have "{x \<in> bind_set (d_binds d). i \<noteq> snd x} = bind_set (d_binds d)" using bind_set_bound by fastforce
  then show ?thesis using None assms by (auto simp: runs_def removeServer_def spec_defs fun_upd_idem)
next
  case (Some old)
  obtain ys where ys: "copyServers en i d = Ok ys" "\<forall>x\<in>set ys. server_ok (snd x)"
    "metas sr_meta ys = filter (\<lambda>x. fst x \<noteq> i) (metas sr_meta (d_servers d))"
    using copyServers_run [of rx d en i] assms(1) by (auto simp: good_def)
  have k: "keyed sv_ID (metas sr_meta (d_servers d))" and b: "binds_inv (fst ` set (d_servers d)) (d_binds d)"
    using assms(1) by (simp_all add: good_defs)
  note t = table_del [OF k ys(3)]
  let ?ex = "\<lparr>bd_ClusterID = 0, bd_ServerID = i\<rparr>"
  have "bind_set (copyBinds ?ex d) = {x \<in> bind_set (d_binds d). i \<noteq> snd x}" by (auto simp: bind_set_keep)
  then show ?thesis
    by (intro runsI [of _ None "d\<lparr>d_servers := ys, d_binds := copyBinds ?ex d\<rparr>"])
      (use Some ys assms t copyBinds_removed [OF b, of i] in \<open>simp_all add: removeServer_def good_defs spec_defs\<close>)
qed

subsection \<open>APIs\<close>

lemma keep_api_run: "good rx d \<Longrightarrow> t \<noteq> EventTypeDelete \<Longrightarrow> runs rx d (spec_event (APIEvt t key a)) (Ok (err, d))"
  by (simp add: runs_def)

text \<open>Storing an API whose route has been added to a table of the other APIs.\<close>

lemma store_api:
  assumes "good rx d" "metas ar_meta ys = filter (\<lambda>x. fst x \<noteq> 0) (metas ar_meta (d_apis d))"
    and "\<forall>x\<in>set ys. api_ok rx (snd x)" "api_ok rx rt" "ar_meta rt = a" "api_ID a \<noteq> 0"
    and "route_inv (insert (api_ID a) (fst ` set ys)) r"
    and "d1 = d \<or> d1 = addAnalysis i cb d"
  shows "good rx (d1\<lparr>d_apis := AList.update (api_ID a) rt ys, d_route := r\<rparr>)"
    and "abs_config (d1\<lparr>d_apis := AList.update (api_ID a) rt ys, d_route := r\<rparr>) =
      (abs_config d)\<lparr>cf_apis := (cf_apis (abs_config d))(api_ID a \<mapsto> a)\<rparr>"
proof -
  have k: "keyed api_ID (metas ar_meta (d_apis d))" using assms(1) by (simp add: good_defs)
  note t = table_put [OF k assms(2,5,6)]
  have "fst ` set (metas ar_meta ys) = fst ` set (metas ar_meta (d_apis d))" unfolding table_same [OF k assms(2)] ..
  then have r: "route_inv (insert (api_ID a) (fst ` set (d_apis d))) r" using assms(7) by simp
  have "\<forall>x\<in>set (AList.update (api_ID a) rt ys). api_ok rx (snd x)" by (rule update_all [OF assms(3,4)])
  then show "good rx (d1\<lparr>d_apis := AList.update (api_ID a) rt ys, d_route := r\<rparr>)"
    using assms(1,8) t r by (auto simp: good_defs)
  show "abs_config (d1\<lparr>d_apis := AList.update (api_ID a) rt ys, d_route := r\<rparr>) =
      (abs_config d)\<lparr>cf_apis := (cf_apis (abs_config d))(api_ID a \<mapsto> a)\<rparr>"
    using t(2) assms(8) by (auto simp: abs_config_def)
qed

lemma addAPI_run:
  assumes "good rx d" "env_ok rx en" "api_ID a \<noteq> 0" "valid_api rx a"
  shows "runs rx d (spec_event (APIEvt EventTypeNew key a)) (addAPI en a d)"
proof (cases "map_of (d_apis d) (api_ID a)")
  case None
  have rx: "en_rx en = rx" "route_sorter (en_srt en)" using assms(2) by (simp_all add: env_ok_def)
  obtain r ys where ys: "copyAPIs en 0 0 d = Ok (r, ys)" "\<forall>x\<in>set ys. api_ok rx (snd x)" "route_inv (fst ` set ys) r"
    "metas ar_meta ys = filter (\<lambda>x. fst x \<noteq> 0) (metas ar_meta (d_apis d))" by (rule copyAPIs_run [OF assms(1,2)])
  obtain rt where rt: "newAPIRuntime en a (refreshQPS (api_MaxQPS a) d) = Ok rt" "api_ok rx rt" "ar_meta rt = a"
    using api_init_run [of en a "refreshQPS (api_MaxQPS a) d" 0] assms(4) refreshQPS_ok [of "api_MaxQPS a" d] rx(1)
    by (auto simp: newAPIRuntime_def valid_api_def)
  define upd where "upd = (if api_isUp rt then Add (en_srt en) (en_pick en) a r else Ok r)"
  have upd: "case upd of Ok r' \<Rightarrow> route_inv (insert (api_ID a) (fst ` set ys)) r' | Err e \<Rightarrow> True | Panic \<Rightarrow> False"
    using Add_ids [OF rx(2) ys(3), of a "en_pick en"] route_inv_mono [OF ys(3) subset_insertI, of "api_ID a"] by (auto simp: upd_def)
  show ?thesis
  proof (cases upd)
    case (Ok r')
    then have r': "route_inv (insert (api_ID a) (fst ` set ys)) r'" using upd by simp
    let ?d = "if pr_cb rt \<noteq> None then addAnalysis (api_ID a) (pr_cb rt) d else d"
    have "?d = d \<or> ?d = addAnalysis (api_ID a) (pr_cb rt) d" by simp
    note st = store_api [OF assms(1) ys(4,2) rt(2,3) assms(3) r' this]
    have "addAPI en a d = Ok (None, ?d\<lparr>d_apis := AList.update (api_ID a) rt ys, d_route := r'\<rparr>)"
      using None ys(1) rt Ok by (cases "api_isUp rt") (simp_all add: addAPI_def upd_def)
    moreover have "cf_apis (abs_config d) (api_ID a) = None" using None by (simp add: abs_config_def map_of_metas)
    ultimately show ?thesis using st by (intro runsI) (assumption, assumption, simp add: spec_put_def)
  next
    case (Err e)
    then have "addAPI en a d = Ok (Some (errRoute e), d)"
      using None ys(1) rt by (cases "api_isUp rt") (simp_all add: addAPI_def upd_def)
    then show ?thesis using assms(1) by (simp add: keep_api_run)
  qed (use upd in simp)
qed (use assms keep_api_run in \<open>auto simp: addAPI_def\<close>)

lemma updateAPI_run:
  assumes "good rx d" "env_ok rx en" "api_ID a \<noteq> 0" "valid_api rx a"
  shows "runs rx d (spec_event (APIEvt EventTypeUpdate key a)) (updateAPI en a d)"
proof (cases "map_of (d_apis d) (api_ID a)")
  case (Some old)
  have rx: "en_rx en = rx" "route_sorter (en_srt en)" using assms(2) by (simp_all add: env_ok_def)
  have k: "keyed api_ID (metas ar_meta (d_apis d))" using assms(1) by (simp add: good_defs)
  obtain r ys where ys: "copyAPIs en 0 (api_ID a) d = Ok (r, ys)" "\<forall>x\<in>set ys. api_ok rx (snd x)" "route_inv (fst ` set ys) r"
    "metas ar_meta ys = filter (\<lambda>x. fst x \<noteq> 0) (metas ar_meta (d_apis d))" by (rule copyAPIs_run [OF assms(1,2)])
  obtain o' where o': "map_of ys (api_ID a) = Some o'" by (rule table_found [OF k ys(4) Some])
  obtain rt where rt: "api_updateMeta en a (o'\<lparr>pr_activeQPS := refreshQPS (api_MaxQPS a) d\<rparr>) = Ok rt" "api_ok rx rt" "ar_meta rt = a"
    using api_init_run [of en a "refreshQPS (api_MaxQPS a) d" "pr_half_timers o'"] assms(4) refreshQPS_ok [of "api_MaxQPS a" d] rx(1)
    by (auto simp: api_updateMeta_def valid_api_def)
  have upd: "case Add (en_srt en) (en_pick en) a r of Ok r' \<Rightarrow> route_inv (insert (api_ID a) (fst ` set ys)) r' | Err e \<Rightarrow> True | Panic \<Rightarrow> False"
    by (rule Add_ids [OF rx(2) ys(3)])
  show ?thesis
  proof (cases "Add (en_srt en) (en_pick en) a r")
    case (Ok r')
    then have r': "route_inv (insert (api_ID a) (fst ` set ys)) r'" using upd by simp
    let ?d = "if pr_cb rt \<noteq> None then addAnalysis (api_ID a) (api_CircuitBreaker a) d else d"
    have "?d = d \<or> ?d = addAnalysis (api_ID a) (api_CircuitBreaker a) d" by simp
    note st = store_api [OF assms(1) ys(4,2) rt(2,3) assms(3) r' this]
    have "updateAPI en a d = Ok (None, ?d\<lparr>d_apis := AList.update (api_ID a) rt ys, d_route := r'\<rparr>)"
      using Some o' ys(1) rt Ok by (simp add: updateAPI_def Let_def)
    moreover have "cf_apis (abs_config d) (api_ID a) = Some (ar_meta old)" using Some by (simp add: abs_config_def map_of_metas)
    ultimately show ?thesis using st by (intro runsI) (assumption, assumption, simp add: spec_put_def)
  next
    case (Err e)
    then show ?thesis using Some o' ys(1) rt assms(1) keep_api_run by (simp add: updateAPI_def)
  qed (use upd in simp)
qed (use assms keep_api_run in \<open>auto simp: updateAPI_def\<close>)

lemma removeAPI_run:
  assumes "good rx d" "env_ok rx en" "MustParseStrUInt64 key = Ok i"
  shows "runs rx d (spec_event (APIEvt EventTypeDelete key a)) (removeAPI en i d)"
proof (cases "map_of (d_apis d) i")
  case (Some old)
  obtain r ys where ys: "copyAPIs en i 0 d = Ok (r, ys)" "\<forall>x\<in>set ys. api_ok rx (snd x)" "route_inv (fst ` set ys) r"
    "metas ar_meta ys = filter (\<lambda>x. fst x \<noteq> i) (metas ar_meta (d_apis d))" by (rule copyAPIs_run [OF assms(1,2)])
  have k: "keyed api_ID (metas ar_meta (d_apis d))" using assms(1) by (simp add: good_defs)
  note t = table_del [OF k ys(4)]
  show ?thesis
    by (rule runsI [of _ None "d\<lparr>d_route := r, d_apis := ys\<rparr>"])
      (use Some ys assms t in \<open>simp_all add: removeAPI_def good_defs spec_defs\<close>)
qed (use assms in \<open>auto simp: runs_def removeAPI_def spec_defs fun_upd_idem\<close>)

subsection \<open>Binds and server status\<close>

lemma good_binds: "good rx d \<Longrightarrow> binds_inv (fst ` set (d_servers d)) bs \<Longrightarrow> good rx (d\<lparr>d_binds := bs\<rparr>)"
  by (simp add: good_defs)

lemma addBind_run:
  assumes "good rx d"
  shows "runs rx d (spec_event (BindEvt EventTypeNew b)) (addBind b d)"
proof -
  obtain err d' where d': "addBind b d = Ok (err, d')"
    by (cases "addBind b d") (auto simp: addBind_def Let_def split: option.splits if_splits)
  have k: "keyed sv_ID (metas sr_meta (d_servers d))" and bi: "binds_inv (fst ` set (d_servers d)) (d_binds d)"
    using assms by (simp_all add: good_defs)
  note i = addBind_inv [OF bi k d'] and st = addBind_set [OF bi keyed_0 [OF k] d']
  show ?thesis
  proof (rule runsI [OF d'])
    show "good rx d'" using good_binds [OF assms, of "d_binds d'"] i by simp
    have "abs_config d' = (abs_config d)\<lparr>cf_binds := bind_set (d_binds d')\<rparr>"
      by (subst conjunct2 [OF i]) (simp add: abs_config_def)
    then show "abs_config d' \<in> spec_event (BindEvt EventTypeNew b) (abs_config d)"
      using st by (auto simp: abs_config_def map_of_metas)
  qed
qed

lemma removeBind_run:
  assumes "good rx d" "bd_ClusterID b \<noteq> 0"
  shows "runs rx d (spec_event (BindEvt EventTypeDelete b)) (removeBind b d)"
proof -
  have bi: "binds_inv (fst ` set (d_servers d)) (d_binds d)" using assms by (simp add: good_defs)
  have eq: "bind_set (copyBinds b d) = bind_set (d_binds d) - {(bd_ClusterID b, bd_ServerID b)}"
    using assms(2) by (auto simp: bind_set_keep)
  then show ?thesis
    using good_binds [OF assms(1) copyBinds_inv [OF bi]] assms(1) by (auto simp: removeBind_def runs_def abs_config_def map_of_metas)
qed

lemma status_run:
  assumes "good rx d"
  shows "good rx (doStatusChangedEvent m st d)" and "abs_config (doStatusChangedEvent m st d) = abs_config d"
proof -
  have k: "keyed sv_ID (metas sr_meta (d_servers d))" and bi: "binds_inv (fst ` set (d_servers d)) (d_binds d)"
    using assms by (simp_all add: good_defs)
  have c: "copyBinds \<lparr>bd_ClusterID = 0, bd_ServerID = 0\<rparr> d = d_binds d"
    using copyBinds_server0 [OF bi keyed_0 [OF k]] by simp
  show "abs_config (doStatusChangedEvent m st d) = abs_config d"
    by (simp add: doStatusChangedEvent_def c abs_config_def bind_set_change)
  show "good rx (doStatusChangedEvent m st d)"
    using good_binds [OF assms doStatusChanged_inv [OF bi, of m st]] assms by (auto simp: doStatusChangedEvent_def)
qed

subsection \<open>Proxies and plugins\<close>

lemma refresh_servers_run:
  "\<forall>x\<in>set xs. server_ok (snd x) \<Longrightarrow> \<exists>ys d'. refresh_servers en xs d = Ok (ys, d') \<and> (\<forall>x\<in>set ys. server_ok (snd x))"
proof (induction xs arbitrary: d)
  case (Cons x xs)
  obtain k s where x: "x = (k, s)" by (cases x)
  have v: "valid_server (sr_meta s)" using Cons.prems x by (simp add: server_ok_def)
  obtain s' where s': "server_updateMeta en (sr_meta s) (refreshQPS (sv_MaxQPS (sr_meta s)) d) (pr_half_timers s) = Ok s'" "server_ok s'"
    using server_updateMeta_run [OF v refreshQPS_ok] v by (metis valid_server_def)
  obtain ys d' where "refresh_servers en xs (queue_check s' d) = Ok (ys, d')" "\<forall>x\<in>set ys. server_ok (snd x)"
    using Cons.IH [of "queue_check s' d"] Cons.prems by auto
  then show ?case using x s' by simp
qed simp

lemma refresh_apis_run:
  "\<forall>x\<in>set xs. api_ok (en_rx en) (snd x) \<Longrightarrow> \<exists>ys. refresh_apis en xs d = Ok ys \<and> (\<forall>x\<in>set ys. api_ok (en_rx en) (snd x))"
proof (induction xs)
  case (Cons x xs)
  obtain k a where x: "x = (k, a)" by (cases x)
  have v: "valid_api (en_rx en) (ar_meta a)" using Cons.prems x by (simp add: api_ok_def)
  then have "rate_ok (refreshQPS (api_MaxQPS (ar_meta a)) d)" by (intro refreshQPS_ok) (simp add: valid_api_def)
  then obtain a' where "api_updateMeta en (ar_meta a) (a\<lparr>pr_activeQPS := refreshQPS (api_MaxQPS (ar_meta a)) d\<rparr>) = Ok a'" "api_ok (en_rx en) a'"
    using api_init_run [OF v, of _ "pr_half_timers a"] by (auto simp: api_updateMeta_def)
  then show ?case using x Cons by auto
qed simp

lemma refreshAllQPS_run:
  assumes "good rx d" "env_ok rx en"
  shows "\<exists>d'. refreshAllQPS en d = Ok d' \<and> good rx d' \<and> abs_config d' = abs_config d"
proof -
  have rx: "en_rx en = rx" using assms(2) by (simp add: env_ok_def)
  obtain ss d1 where s: "refresh_servers en (d_servers d) d = Ok (ss, d1)" "\<forall>x\<in>set ss. server_ok (snd x)"
    using refresh_servers_run [of "d_servers d" en d] assms(1) by (auto simp: good_defs)
  note m = refresh_servers_metas [OF s(1)]
  obtain c where d1: "d1 = d\<lparr>d_checkerC := c\<rparr>" using m by blast
  obtain as where a: "refresh_apis en (d_apis d1) d1 = Ok as" "\<forall>x\<in>set as. api_ok rx (snd x)"
    using refresh_apis_run [of "d_apis d1" en d1] assms(1) rx d1 by (auto simp: good_defs)
  have ma: "metas ar_meta as = metas ar_meta (d_apis d)" using refresh_apis_metas [OF a(1)] d1 by simp
  have ks: "fst ` set ss = fst ` set (d_servers d)" "fst ` set as = fst ` set (d_apis d)"
    using metas_key_set [of sr_meta ss] metas_key_set [of ar_meta as] m ma by simp_all
  have "refreshAllQPS en d = Ok (d1\<lparr>d_servers := ss, d_apis := as\<rparr>)" using s a by (simp add: refreshAllQPS_def)
  moreover have "good rx (d1\<lparr>d_servers := ss, d_apis := as\<rparr>)"
    using assms(1) m ma ks s(2) a(2) d1 by (simp add: good_defs)
  moreover have "abs_config (d1\<lparr>d_servers := ss, d_apis := as\<rparr>) = abs_config d" using m ma d1 by (simp add: abs_config_def)
  ultimately show ?thesis by blast
qed

lemma proxies_run:
  assumes "good rx d" "env_ok rx en"
  shows "runs rx d (\<lambda>cf. {cf\<lparr>cf_proxies := map_of ps\<rparr>}) (obind (refreshAllQPS en (d\<lparr>d_proxies := ps\<rparr>)) (\<lambda>d. Ok (None, d)))"
proof -
  have "good rx (d\<lparr>d_proxies := ps\<rparr>)" using assms(1) by (simp add: good_defs)
  from refreshAllQPS_run [OF this assms(2)] show ?thesis by (auto simp: runs_def abs_config_def)
qed

lemma addProxy_run:
  assumes "good rx d" "env_ok rx en"
  shows "runs rx d (spec_event (ProxyEvt EventTypeNew key p)) (addProxy en p d)"
  using assms(1) proxies_run [OF assms, of "AList.update (GetAddrFormat (px_Addr p)) p (d_proxies d)"]
  by (auto simp: addProxy_def Let_def runs_def abs_config_def AList.update_conv')

lemma removeProxy_run:
  assumes "good rx d" "env_ok rx en"
  shows "runs rx d (spec_event (ProxyEvt EventTypeDelete key p)) (removeProxy en key d)"
  using assms(1) proxies_run [OF assms, of "AList.delete key (d_proxies d)"]
  by (auto simp: removeProxy_def runs_def abs_config_def AList.delete_conv' fun_upd_idem)

lemma collect_plugins_None: "collect_plugins ps is = None \<longleftrightarrow> (\<exists>i\<in>set is. map_of ps i = None)"
  by (induction "is") (auto split: option.splits)

lemma same_engine: "\<exists>es. d = d\<lparr>d_engine := es\<rparr>"
  by (rule exI [of _ "d_engine d"]) simp

lemma updateJSEngine_run:
  assumes "good rx d" "d_applied d \<noteq> None"
  shows "\<exists>err es. updateJSEngine en d = Ok (err, d\<lparr>d_engine := es\<rparr>)"
proof -
  obtain ids where ids: "d_applied d = Some ids" using assms(2) by auto
  then have "\<forall>i\<in>set ids. map_of (d_plugins d) i \<noteq> None" using assms(1) by (simp add: good_defs)
  then obtain ps where ps: "collect_plugins (d_plugins d) ids = Some ps" using collect_plugins_None by (metis not_None_eq)
  then show ?thesis using ids ps same_engine [of d] by (auto simp: updateJSEngine_def)
qed

lemma maybeUpdate_run:
  assumes "good rx d" "d_applied d \<noteq> None"
  shows "\<exists>err es. maybeUpdateJSEngine en i d = Ok (err, d\<lparr>d_engine := es\<rparr>)"
  using updateJSEngine_run [OF assms, of en] same_engine [of d] assms(2)
  by (auto simp: maybeUpdateJSEngine_def inAppliedPlugins_def)

lemma addPlugin_run: "good rx d \<Longrightarrow> runs rx d (spec_event (PluginEvt EventTypeNew key p)) (addPlugin p d)"
  by (auto simp: runs_def addPlugin_def good_defs spec_defs AList.update_conv')

lemma updatePlugin_run:
  assumes "good rx d" "map_of (d_plugins d) (pl_ID p) = None \<or> d_applied d \<noteq> None"
  shows "runs rx d (spec_event (PluginEvt EventTypeUpdate key p)) (updatePlugin en p d)"
proof (cases "map_of (d_plugins d) (pl_ID p)")
  case (Some old)
  then have ap: "d_applied d \<noteq> None" using assms(2) by simp
  obtain err es where "maybeUpdateJSEngine en (pl_ID p) d = Ok (err, d\<lparr>d_engine := es\<rparr>)"
    using maybeUpdate_run [OF assms(1) ap] by blast
  then show ?thesis using Some assms(1) by (auto simp: runs_def updatePlugin_def good_defs spec_defs AList.update_conv')
qed (use assms in \<open>auto simp: runs_def updatePlugin_def\<close>)

lemma removePlugin_run:
  assumes "good rx d" "MustParseStrUInt64 key = Ok i"
    and "map_of (d_plugins d) i = None \<or> (\<exists>ids. d_applied d = Some ids \<and> i \<notin> set ids)"
  shows "runs rx d (spec_event (PluginEvt EventTypeDelete key p)) (removePlugin i d)"
  using assms by (auto simp: runs_def removePlugin_def inAppliedPlugins_def good_defs spec_defs AList.delete_conv' fun_upd_idem)

lemma apply_run:
  assumes "good rx d" "\<forall>i\<in>set ids. map_of (d_plugins d) i \<noteq> None"
  shows "runs rx d (\<lambda>cf. {cf\<lparr>cf_applied := Some ids\<rparr>}) (updateJSEngine en (d\<lparr>d_applied := Some ids\<rparr>))"
proof -
  have g: "good rx (d\<lparr>d_applied := Some ids\<rparr>)" using assms by (simp add: good_defs)
  obtain err es where "updateJSEngine en (d\<lparr>d_applied := Some ids\<rparr>) = Ok (err, d\<lparr>d_applied := Some ids, d_engine := es\<rparr>)"
    using updateJSEngine_run [OF g, of en] by auto
  then show ?thesis using g by (auto simp: runs_def good_defs abs_config_def)
qed

lemma applied_run:
  assumes "good rx d"
  shows "runs rx d (spec_event (ApplyPluginEvt EventTypeDelete ids)) (removeAppliedPlugin en d)"
    and "t \<noteq> EventTypeDelete \<Longrightarrow> runs rx d (spec_event (ApplyPluginEvt t ids)) (updateAppliedPlugin en ids d)"
  using apply_run [OF assms, of "[]" en] apply_run [OF assms, of ids en] assms collect_plugins_None [of "d_plugins d" ids]
  by (auto simp: removeAppliedPlugin_def updateAppliedPlugin_def runs_def abs_config_def)

subsection \<open>Events\<close>

text \<open>A valid event: identifiers are not zero (zero stands for ``none'' in the code), metadata is valid, the key of a
  delete is a number, and plugins are not updated or deleted before the applied plugins are known, nor deleted while
  applied.\<close>

definition key_ok :: "EvtType \<Rightarrow> string \<Rightarrow> bool \<Rightarrow> bool" where
  "key_ok t key ok \<longleftrightarrow> (if t = EventTypeDelete then (\<exists>i. MustParseStrUInt64 key = Ok i) else ok)"

fun evt_ok :: "regex \<Rightarrow> dispatcher \<Rightarrow> Evt \<Rightarrow> bool" where
  "evt_ok rx d (ClusterEvt t key c) = key_ok t key (cl_ID c \<noteq> 0)"
| "evt_ok rx d (ServerEvt t key s) = key_ok t key (sv_ID s \<noteq> 0 \<and> valid_server s)"
| "evt_ok rx d (APIEvt t key a) = key_ok t key (api_ID a \<noteq> 0 \<and> valid_api rx a)"
| "evt_ok rx d (RoutingEvt t key r) = key_ok t key (rg_ID r \<noteq> 0)"
| "evt_ok rx d (BindEvt t b) = (t = EventTypeDelete \<longrightarrow> bd_ClusterID b \<noteq> 0)"
| "evt_ok rx d (PluginEvt t key p) =
     (case t of
        EventTypeNew \<Rightarrow> True
      | EventTypeUpdate \<Rightarrow> map_of (d_plugins d) (pl_ID p) = None \<or> d_applied d \<noteq> None
      | EventTypeDelete \<Rightarrow> \<exists>i. MustParseStrUInt64 key = Ok i \<and>
          (map_of (d_plugins d) i = None \<or> (\<exists>ids. d_applied d = Some ids \<and> i \<notin> set ids)))"
| "evt_ok rx d _ = True"

lemma drop_runs:
  "runs rx d F r \<Longrightarrow> \<exists>d'. drop_err r = Ok d' \<and> good rx d' \<and> abs_config d' \<in> F (abs_config d)"
  by (auto simp: runs_def drop_err_def)

text \<open>The shape of an event handler: a branch per type of event.\<close>

lemma handler_runs:
  assumes "key_ok t key ok" "ok \<Longrightarrow> runs rx d (F EventTypeNew) add" "ok \<Longrightarrow> runs rx d (F EventTypeUpdate) upd"
    and "\<And>i. MustParseStrUInt64 key = Ok i \<Longrightarrow> runs rx d (F EventTypeDelete) (del i)"
  shows "\<exists>d'. (case t of EventTypeNew \<Rightarrow> drop_err add | EventTypeDelete \<Rightarrow> with_key key del | EventTypeUpdate \<Rightarrow> drop_err upd) = Ok d' \<and>
    good rx d' \<and> abs_config d' \<in> F t (abs_config d)"
proof (cases t)
  case EventTypeDelete
  then obtain i where "MustParseStrUInt64 key = Ok i" using assms(1) by (auto simp: key_ok_def)
  then show ?thesis using drop_runs [OF assms(4)] EventTypeDelete by (simp add: with_key_def)
qed (use assms drop_runs in \<open>auto simp: key_ok_def\<close>)

lemma event_run:
  assumes "good rx d" "env_ok rx en" "evt_ok rx d ev"
  shows "\<exists>d'. doEvent en ev d = Ok d' \<and> good rx d' \<and> abs_config d' \<in> spec_event ev (abs_config d)"
proof (cases ev)
  case (ClusterEvt t key c)
  show ?thesis unfolding ClusterEvt doEvent.simps
    by (rule handler_runs [where F = "\<lambda>t. spec_event (ClusterEvt t key c)", OF assms(3) [unfolded ClusterEvt evt_ok.simps]])
      (simp_all add: addCluster_run updateCluster_run removeCluster_run assms(1))
next
  case (ServerEvt t key c)
  show ?thesis unfolding ServerEvt doEvent.simps
    by (rule handler_runs [where F = "\<lambda>t. spec_event (ServerEvt t key c)", OF assms(3) [unfolded ServerEvt evt_ok.simps]])
      (simp_all add: addServer_run updateServer_run removeServer_run assms(1))
next
  case (APIEvt t key c)
  show ?thesis unfolding APIEvt doEvent.simps
    by (rule handler_runs [where F = "\<lambda>t. spec_event (APIEvt t key c)", OF assms(3) [unfolded APIEvt evt_ok.simps]])
      (simp_all add: addAPI_run updateAPI_run removeAPI_run assms(1,2))
next
  case (RoutingEvt t key c)
  show ?thesis unfolding RoutingEvt doEvent.simps
    by (rule handler_runs [where F = "\<lambda>t. spec_event (RoutingEvt t key c)", OF assms(3) [unfolded RoutingEvt evt_ok.simps]])
      (simp_all add: addRouting_run updateRouting_run removeRouting_run assms(1))
next
  case (BindEvt t b)
  then show ?thesis
    using assms drop_runs [OF addBind_run [of rx d b]] drop_runs [OF removeBind_run [of rx d b]] by (cases t) auto
next
  case (ProxyEvt t key p)
  then show ?thesis
    using assms drop_runs [OF addProxy_run [of rx d en key p]] drop_runs [OF removeProxy_run [of rx d en key p]] by (cases t) auto
next
  case (PluginEvt t key p)
  show ?thesis
  proof (cases t)
    case EventTypeDelete
    then obtain i where i: "MustParseStrUInt64 key = Ok i" "runs rx d (spec_event ev) (removePlugin i d)"
      using assms PluginEvt removePlugin_run [of rx d key _ p] by auto
    then show ?thesis using drop_runs [OF i(2)] EventTypeDelete PluginEvt by (simp add: with_key_def)
  qed (use assms PluginEvt drop_runs [OF addPlugin_run [of rx d key p]] drop_runs [OF updatePlugin_run [of rx d p key en]] in auto)
next
  case (ApplyPluginEvt t ids)
  then show ?thesis
    using drop_runs [OF applied_run(1) [OF assms(1), of ids en]] drop_runs [OF applied_run(2) [OF assms(1), of t ids en]]
    by (cases t) (auto simp only: doEvent.simps EvtType.case EvtType.distinct)
next
  case (StatusEvt m st)
  then show ?thesis using status_run [OF assms(1), of m st] by simp
qed

subsection \<open>Reachable states\<close>

text \<open>A health check changes the runtime of its server only.\<close>

lemma doCheck_run:
  "sv_HeathCheck (sr_meta svr) = Some hc \<Longrightarrow>
    \<exists>s' ok. doCheck resp svr = Ok (s', ok) \<and> sr_meta s' = sr_meta svr \<and> pr_activeQPS s' = pr_activeQPS svr"
  by (auto simp: doCheck_def server_fail_def server_reset_def split: option.splits)

lemma check_run:
  assumes "good rx d"
  shows "\<exists>sent d'. check limit resp i d = Ok (sent, d') \<and> good rx d' \<and> abs_config d' = abs_config d"
proof (cases "\<exists>svr hc. map_of (d_servers d) i = Some svr \<and> sv_HeathCheck (sr_meta svr) = Some hc")
  case True
  then obtain svr hc where svr: "map_of (d_servers d) i = Some svr" "sv_HeathCheck (sr_meta svr) = Some hc" by blast
  obtain s' ok where s': "doCheck resp svr = Ok (s', ok)" "sr_meta s' = sr_meta svr" "pr_activeQPS s' = pr_activeQPS svr"
    using doCheck_run [OF svr(2)] by blast
  have k: "keyed sv_ID (metas sr_meta (d_servers d))" using assms by (simp add: good_defs)
  have iv: "(i, svr) \<in> set (d_servers d)" using map_of_SomeD [OF svr(1)] .
  have ki: "sv_ID (sr_meta svr) = i" by (rule keyed_ids [OF k iv])
  let ?new = "check_schedule limit s'" and ?ss = "AList.update i (check_schedule limit s') (d_servers d)"
  have new: "sr_meta ?new = sr_meta svr" "pr_activeQPS ?new = pr_activeQPS svr"
    using s' by (auto simp: check_schedule_def Let_def split: option.splits)
  have m: "metas sr_meta (d_servers d) = filter (\<lambda>x. fst x \<noteq> 0) (metas sr_meta (d_servers d))"
    using keyed_filter0 [OF k] by simp
  have "i \<noteq> 0" using keyed_0 [OF k] iv by force
  then have t: "keyed sv_ID (metas sr_meta ?ss)" "map_of (metas sr_meta ?ss) = map_of (metas sr_meta (d_servers d))"
      "fst ` set ?ss = fst ` set (d_servers d)"
    using table_put [OF k m new(1)] ki svr(1) iv by (auto simp: map_of_metas fun_upd_idem insert_absorb rev_image_eqI)
  have "server_ok svr" using assms iv by (auto simp: good_defs)
  then have "server_ok ?new" using new by (simp add: server_ok_def)
  then have "\<forall>x\<in>set ?ss. server_ok (snd x)" using assms by (intro update_all) (simp_all add: good_defs)
  then have "good rx (d\<lparr>d_servers := ?ss\<rparr>)" "abs_config (d\<lparr>d_servers := ?ss\<rparr>) = abs_config d"
    using assms t by (simp_all add: good_defs abs_config_def)
  then show ?thesis using svr s' by (simp add: check_def Let_def)
qed (use assms in \<open>auto simp: check_def split: option.splits\<close>)

lemma good_init: "good rx newDispatcher"
  by (simp add: good_defs newDispatcher_def keyed_def binds_inv_def NewRoute_inv)

lemma timeout_run: "good rx d \<Longrightarrow> good rx (heathCheckTimeout i d)"
  by (simp add: heathCheckTimeout_def good_defs)

text \<open>Events, health checks and expired check timers, in any order.\<close>

inductive reach :: "regex \<Rightarrow> dispatcher \<Rightarrow> bool" for rx where
  reach_init: "reach rx newDispatcher"
| reach_event: "reach rx d \<Longrightarrow> env_ok rx en \<Longrightarrow> evt_ok rx d ev \<Longrightarrow> doEvent en ev d = Ok d' \<Longrightarrow> reach rx d'"
| reach_check: "reach rx d \<Longrightarrow> check limit resp i d = Ok (sent, d') \<Longrightarrow> reach rx d'"
| reach_timeout: "reach rx d \<Longrightarrow> reach rx (heathCheckTimeout i d)"

lemma reach_good: "reach rx d \<Longrightarrow> good rx d"
proof (induction rule: reach.induct)
  case (reach_event d en ev d')
  then show ?case using event_run [of rx d en ev] by auto
next
  case (reach_check d limit resp i sent d')
  then show ?case using check_run [of rx d limit resp i] by auto
qed (simp_all add: good_init timeout_run)

text \<open>C5 --- the configuration events of the gateway. In every reachable state, every valid event is handled
  without a panic and its effect on the configuration (servers, clusters, routings, APIs, binds, proxies, plugins) is
  the one the abstract specification allows.\<close>

theorem events_refine:
  assumes "reach rx d" "env_ok rx en" "evt_ok rx d ev"
  shows "\<exists>d'. doEvent en ev d = Ok d' \<and> reach rx d' \<and> abs_config d' \<in> spec_event ev (abs_config d)"
  using event_run [OF reach_good [OF assms(1)] assms(2,3)] reach_event [OF assms] by blast

definition demo_env :: env where
  "demo_env = \<lparr>en_now = 0, en_src = replicate 100 0, en_rng = 1, en_rx = (\<lambda>p s. Some True), en_jget = (\<lambda>b ps. None),
     en_sortNodes = (\<lambda>lt xs. xs), en_srt = stable_srt, en_pick = (\<lambda>ms. 0),
     en_http = \<lparr>ho_MaxConns = 0, ho_MaxConnDuration = 0, ho_MaxIdleConnDuration = 0, ho_ReadBufferSize = 0,
       ho_WriteBufferSize = 0, ho_ReadTimeout = 0, ho_WriteTimeout = 0, ho_MaxResponseBodySize = 0,
       ho_DisableHeaderNamesNormalizing = False\<rparr>, en_newPlugin = (\<lambda>p. True)\<rparr>"

lemma demo_env_ok: "env_ok (\<lambda>p s. Some True) demo_env"
  by (simp add: env_ok_def demo_env_def rs.route_sorter_axioms)

definition demo_svr :: "uint64 \<Rightarrow> HeathCheck option \<Rightarrow> Server" where
  "demo_svr i hc = \<lparr>sv_ID = i, sv_Addr = ''h:80'', sv_Protocol = HTTP, sv_MaxQPS = 100, sv_HeathCheck = hc,
     sv_CircuitBreaker = None, sv_Weight = 1, sv_RateLimitOption = Wait\<rparr>"

definition demo_cluster :: "uint64 \<Rightarrow> Cluster" where
  "demo_cluster i = \<lparr>cl_ID = i, cl_Name = ''c'', cl_LoadBalance = RoundRobin\<rparr>"

theorem events_refine_witness:
  "\<exists>d'. doEvent demo_env (ServerEvt EventTypeNew ''7'' (demo_svr 7 None)) newDispatcher = Ok d' \<and>
     cf_servers (abs_config d') = [7 \<mapsto> demo_svr 7 None]"
proof -
  have "evt_ok (\<lambda>p s. Some True) newDispatcher (ServerEvt EventTypeNew ''7'' (demo_svr 7 None))"
    by (simp add: key_ok_def demo_svr_def valid_server_def max_rate_def)
  from events_refine [OF reach_init demo_env_ok this] show ?thesis
    by (auto simp: spec_put_def abs_config_def newDispatcher_def demo_svr_def)
qed

fun run_events :: "env \<Rightarrow> Evt list \<Rightarrow> dispatcher \<Rightarrow> (unit, dispatcher) outcome" where
  "run_events en [] d = Ok d"
| "run_events en (ev # evs) d = obind (doEvent en ev d) (run_events en evs)"

lemma run_events_reach:
  assumes "reach rx d" "env_ok rx en" "\<And>ev d. ev \<in> set evs \<Longrightarrow> evt_ok rx d ev"
  shows "\<exists>d'. run_events en evs d = Ok d' \<and> reach rx d'"
  using assms(1,3)
proof (induction evs arbitrary: d)
  case (Cons ev evs)
  obtain d1 where d1: "doEvent en ev d = Ok d1"
    using event_run [OF reach_good [OF Cons.prems(1)] assms(2)] Cons.prems(2) by (meson list.set_intros(1))
  have "reach rx d1" by (rule reach_event [OF Cons.prems(1) assms(2) _ d1]) (simp add: Cons.prems(2))
  then show ?case using Cons.IH [of d1] Cons.prems(2) d1 by simp
qed simp

definition state_after :: "Evt list \<Rightarrow> dispatcher" where
  "state_after evs = (case run_events demo_env evs newDispatcher of Ok d \<Rightarrow> d | _ \<Rightarrow> newDispatcher)"

lemma state_after_reach:
  assumes "\<And>ev d. ev \<in> set evs \<Longrightarrow> evt_ok (\<lambda>p s. Some True) d ev"
  shows "reach (\<lambda>p s. Some True) (state_after evs)"
proof -
  obtain d where "run_events demo_env evs newDispatcher = Ok d" "reach (\<lambda>p s. Some True) d"
    using run_events_reach [OF reach_init demo_env_ok, of evs] assms by blast
  then show ?thesis by (simp add: state_after_def)
qed

definition demo_state :: dispatcher where
  "demo_state = state_after [ClusterEvt EventTypeNew [] (demo_cluster 1), ServerEvt EventTypeNew [] (demo_svr 7 None),
      BindEvt EventTypeNew \<lparr>bd_ClusterID = 1, bd_ServerID = 7\<rparr>]"

lemma demo_evt_ok [simp]:
  "i \<noteq> 0 \<Longrightarrow> evt_ok rx d (ClusterEvt EventTypeNew key (demo_cluster i))"
  "i \<noteq> 0 \<Longrightarrow> evt_ok rx d (ServerEvt EventTypeNew key (demo_svr i hc))"
  by (simp_all add: key_ok_def demo_cluster_def demo_svr_def valid_server_def max_rate_def)

lemma demo_state_reach: "reach (\<lambda>p s. Some True) demo_state"
  unfolding demo_state_def by (rule state_after_reach) (auto simp del: evt_ok.simps(1,2))

lemma demo_state_bind:
  "map_of (d_binds demo_state) 1 = Some \<lparr>bs_servers = [\<lparr>bi_svrID = 7, bi_status = Up\<rparr>], bs_actives = [demo_svr 7 None]\<rparr>"
  by code_simp

lemma active_bound:
  assumes "disp_inv d" "map_of (d_binds d) k = Some b" "a \<in> set (bs_actives b)"
  shows "(\<exists>s. map_of (d_servers d) (sv_ID a) = Some s) \<and> \<lparr>bi_svrID = sv_ID a, bi_status = Up\<rparr> \<in> set (bs_servers b)"
proof -
  have "(k, b) \<in> set (d_binds d)" using map_of_SomeD [OF assms(2)] .
  then have b: "binds_ok (fst ` set (d_servers d)) b" using assms(1) unfolding disp_inv_def binds_inv_def by blast
  then obtain i where i: "i \<in> set (bs_servers b)" "bi_svrID i = sv_ID a" "bi_status i = Up"
    using assms(3) unfolding binds_ok_def by blast
  then have "i = \<lparr>bi_svrID = sv_ID a, bi_status = Up\<rparr>" by simp
  moreover have "map_of (d_servers d) (sv_ID a) \<noteq> None" using b i unfolding binds_ok_def map_of_eq_None_iff by metis
  ultimately show ?thesis using i(1) by auto
qed

lemma found_known:
  assumes "disp_inv d" "Find params (d_route d) url meth = Ok ((i, True), cs)"
  shows "\<exists>a. map_of (d_apis d) i = Some a"
proof -
  have r: "route_ok (d_route d)" "\<And>ks m i. lookup (d_route d) ks m = Some i \<Longrightarrow> i \<in> fst ` set (d_apis d)"
    using assms(1) by (auto simp: disp_inv_def route_inv_def)
  have "i \<in> fst ` set (d_apis d)" using Find_outcome [OF r(1), of meth params url] r(2) assms(2) by auto
  then have "map_of (d_apis d) i \<noteq> None" by (simp add: map_of_eq_None_iff)
  then show ?thesis by simp
qed

text \<open>C15 --- the invariant of the gateway's configuration. In every reachable state a server that a cluster may send
  requests to exists and is bound to the cluster with status \<open>Up\<close>, an API the route table finds exists, and every
  applied plugin exists.\<close>

theorem gateway_invariant:
  assumes "reach rx d"
  shows "(\<forall>k b a. map_of (d_binds d) k = Some b \<longrightarrow> a \<in> set (bs_actives b) \<longrightarrow>
      (\<exists>s. map_of (d_servers d) (sv_ID a) = Some s) \<and> \<lparr>bi_svrID = sv_ID a, bi_status = Up\<rparr> \<in> set (bs_servers b)) \<and>
    (\<forall>params url meth i cs. Find params (d_route d) url meth = Ok ((i, True), cs) \<longrightarrow> (\<exists>a. map_of (d_apis d) i = Some a)) \<and>
    (\<forall>ids i. d_applied d = Some ids \<longrightarrow> i \<in> set ids \<longrightarrow> (\<exists>p. map_of (d_plugins d) i = Some p))"
proof -
  have g: "disp_inv d" using reach_good [OF assms] by (simp add: good_def)
  then have "plugins_inv d" by (simp add: disp_inv_def)
  then show ?thesis using active_bound [OF g] found_known [OF g] unfolding plugins_inv_def by blast
qed

theorem gateway_invariant_witness:
  "demo_svr 7 None \<in> set (bs_actives (the (map_of (d_binds demo_state) 1))) \<and> (\<exists>s. map_of (d_servers demo_state) 7 = Some s)"
proof -
  have a: "demo_svr 7 None \<in> set (bs_actives (the (map_of (d_binds demo_state) 1)))" by (simp add: demo_state_bind)
  have "\<exists>s. map_of (d_servers demo_state) (sv_ID (demo_svr 7 None)) = Some s"
    using gateway_invariant [OF demo_state_reach] demo_state_bind a by (metis option.sel)
  then show ?thesis using a by (simp add: demo_svr_def)
qed

end
