(* ===== verification/Dispatch_Effects.thy ===== *)
theory Dispatch_Effects
  imports Dispatch_Refine
begin

text \<open>
  What three of the dispatcher's operations really do (\<^verbatim>\<open>proxy/dispatcher_meta.go\<close>, \<^verbatim>\<open>proxy/dispatcher_event.go\<close>), where
  their comments and names promise something else.
\<close>

lemma copyBinds_same:
  assumes "reach rx d" "bd_ServerID ex = 0"
  shows "copyBinds ex d = d_binds d"
proof -
  have "disp_inv d" using reach_good [OF assms(1)] by (simp add: good_def)
  then have "keyed sv_ID (metas sr_meta (d_servers d))" "binds_inv (fst ` set (d_servers d)) (d_binds d)"
    by (simp_all add: disp_inv_def)
  then show ?thesis using copyBinds_server0 keyed_0 assms(2) by blast
qed

text \<open>Removing a cluster. \<^verbatim>\<open>removeCluster\<close> copies the binds without those of server 0 in the cluster, so in every
  reachable state it leaves the binds as they are: a cluster added later under the same identifier inherits them.\<close>

theorem removed_cluster_keeps_binds:
  assumes "reach rx d" "removeCluster en i d = Ok (err, d')"
  shows "d_binds d' = d_binds d"
proof -
  have "copyBinds \<lparr>bd_ClusterID = i, bd_ServerID = 0\<rparr> d = d_binds d" using copyBinds_same [OF assms(1)] by simp
  then show ?thesis using assms(2) by (auto simp: removeCluster_def outcome_simps split: if_splits)
qed

theorem removed_cluster_keeps_binds_witness:
  "\<exists>d'. removeCluster demo_env 1 demo_state = Ok (None, d') \<and> map_of (d_clusters d') 1 = None \<and>
     bs_actives (the (map_of (d_binds d') 1)) = [demo_svr 7 None]"
proof -
  have "case removeCluster demo_env 1 demo_state of Ok (None, d') \<Rightarrow> map_of (d_clusters d') 1 = None | _ \<Rightarrow> False"
    by code_simp
  then obtain d' where "removeCluster demo_env 1 demo_state = Ok (None, d')" "map_of (d_clusters d') 1 = None"
    by (auto split: outcome.splits prod.splits option.splits)
  then show ?thesis using removed_cluster_keeps_binds [OF demo_state_reach] demo_state_bind by simp
qed

text \<open>Updating an applied plugin. The script engine is rebuilt before the new plugin is stored, so after a
  successful update it runs the old version.\<close>

theorem updated_plugin_is_stale:
  assumes "d_applied d = Some ids" "pl_ID v \<in> set ids" "updatePlugin en v d = Ok (None, d')"
  shows "collect_plugins (d_plugins d) ids = Some (d_engine d') \<and> map_of (d_plugins d') (pl_ID v) = Some v"
proof -
  obtain old where old: "map_of (d_plugins d) (pl_ID v) = Some old"
    using assms(3) by (cases "map_of (d_plugins d) (pl_ID v)") (simp_all add: updatePlugin_def)
  have upd: "maybeUpdateJSEngine en (pl_ID v) d = updateJSEngine en d"
    using assms(1,2) by (simp add: maybeUpdateJSEngine_def inAppliedPlugins_def)
  obtain ps where ps: "collect_plugins (d_plugins d) ids = Some ps"
    using assms(1,3) old upd by (cases "collect_plugins (d_plugins d) ids") (simp_all add: updatePlugin_def updateJSEngine_def)
  have "list_all (en_newPlugin en) ps"
    using assms(1,3) old upd ps by (cases "list_all (en_newPlugin en) ps") (simp_all add: updatePlugin_def updateJSEngine_def)
  then show ?thesis using assms(1,3) old upd ps by (auto simp: updatePlugin_def updateJSEngine_def AList.update_conv')
qed

definition demo_plugin :: "int \<Rightarrow> Plugin" where
  "demo_plugin v = \<lparr>pl_ID = 3, pl_Name = ''p'', pl_Author = [], pl_Email = [], pl_Status = Up, pl_UpdateAt = 0, pl_Version = v,
     pl_Content = [], pl_Cfg = []\<rparr>"

definition demo_plugged :: dispatcher where
  "demo_plugged = state_after [PluginEvt EventTypeNew [] (demo_plugin 1), ApplyPluginEvt EventTypeNew [3]]"

theorem updated_plugin_is_stale_witness:
  "\<exists>d'. updatePlugin demo_env (demo_plugin 2) demo_plugged = Ok (None, d') \<and> d_engine d' = [demo_plugin 1] \<and>
     map_of (d_plugins d') 3 = Some (demo_plugin 2)"
proof -
  have ap: "d_applied demo_plugged = Some [3]" by code_simp
  have c: "collect_plugins (d_plugins demo_plugged) [3] = Some [demo_plugin 1]" by code_simp
  have "case updatePlugin demo_env (demo_plugin 2) demo_plugged of Ok (None, d') \<Rightarrow> True | _ \<Rightarrow> False" by code_simp
  then obtain d' where d': "updatePlugin demo_env (demo_plugin 2) demo_plugged = Ok (None, d')"
    by (auto split: outcome.splits prod.splits option.splits)
  have i: "pl_ID (demo_plugin 2) = 3" by (simp add: demo_plugin_def)
  then show ?thesis using updated_plugin_is_stale [OF ap _ d'] c d' by simp
qed

text \<open>A server that comes up. The status event adds the server to the active servers of every cluster it is bound
  to without looking for it there: where it was active already it is then active once more.\<close>

theorem up_adds_again:
  assumes "reach rx d" "getServerStatus (sv_ID m) d \<noteq> Up" "map_of (d_binds d) k = Some b" "a \<in> set (bs_actives b)" "sv_ID a = sv_ID m"
  shows "\<exists>b'. map_of (d_binds (doStatusChangedEvent m Up d)) k = Some b' \<and> bs_actives b' = bs_actives b @ [m]"
proof -
  have d: "disp_inv d" using reach_good [OF assms(1)] by (simp add: good_def)
  have c: "copyBinds \<lparr>bd_ClusterID = 0, bd_ServerID = 0\<rparr> d = d_binds d" using copyBinds_same [OF assms(1)] by simp
  have "list_ex (\<lambda>i. bi_svrID i = sv_ID m) (bs_servers b)"
    using active_bound [OF d assms(3,4)] assms(5) by (force simp: list_ex_iff)
  then have "bs_actives (change_binds m Up b) = bs_actives b @ [m]" by (simp add: change_binds_def)
  moreover have "map_of (d_binds (doStatusChangedEvent m Up d)) k = Some (change_binds m Up b)"
    using assms(2,3) by (simp add: doStatusChangedEvent_def c map_of_map)
  ultimately show ?thesis by blast
qed

definition demo_checked :: Server where
  "demo_checked = demo_svr 7 (Some \<lparr>hc_Path = ''/'', hc_Body = [], hc_CheckInterval = 1, hc_Timeout = 1\<rparr>)"

text \<open>The server is up in cluster 1 and new in cluster 2, which the map of binds happens to list first.\<close>

definition demo_twice :: dispatcher where
  "demo_twice = state_after [ClusterEvt EventTypeNew [] (demo_cluster 1), ClusterEvt EventTypeNew [] (demo_cluster 2),
     ServerEvt EventTypeNew [] demo_checked, BindEvt EventTypeNew \<lparr>bd_ClusterID = 2, bd_ServerID = 7\<rparr>,
     BindEvt EventTypeDelete \<lparr>bd_ClusterID = 2, bd_ServerID = 7\<rparr>, BindEvt EventTypeNew \<lparr>bd_ClusterID = 1, bd_ServerID = 7\<rparr>,
     StatusEvt demo_checked Up, BindEvt EventTypeNew \<lparr>bd_ClusterID = 2, bd_ServerID = 7\<rparr>]"

theorem up_adds_again_witness:
  "bs_actives (the (map_of (d_binds (doStatusChangedEvent demo_checked Up demo_twice)) 1)) = [demo_checked, demo_checked]"
proof -
  have r: "reach (\<lambda>p s. Some True) demo_twice"
    unfolding demo_twice_def by (rule state_after_reach) (auto simp: demo_checked_def simp del: evt_ok.simps(1,2))
  have st: "getServerStatus (sv_ID demo_checked) demo_twice \<noteq> Up" by code_simp
  have b: "map_of (d_binds demo_twice) 1 = Some \<lparr>bs_servers = [\<lparr>bi_svrID = 7, bi_status = Up\<rparr>], bs_actives = [demo_checked]\<rparr>"
    by code_simp
  show ?thesis using up_adds_again [OF r st b] by auto
qed

end
