(* ===== verification/Store_Keys.thy ===== *)
theory Store_Keys
  imports Dispatch_Events "HOL-Library.List_Lexorder"
begin

text \<open>
  The keys of the metadata store (\<^verbatim>\<open>store/store.go\<close>, \<^verbatim>\<open>store/store_etcd.go\<close>): the directories of a namespace, the key of
  an identifier, the key of a bind, and the eight bytes of the identifier counter (\<^verbatim>\<open>utils/format\<close>). etcd orders its keys byte by
  byte; here that is the lexicographic order on strings.
\<close>

subsection \<open>Keys\<close>

text \<open>\<^verbatim>\<open>fmt.Sprintf("%020d", id)\<close>.\<close>

definition fmt020d :: "uint64 \<Rightarrow> string" where
  "fmt020d i = (let ds = nat_digits (unat i) in replicate (20 - length ds) (CHR ''0'') @ ds)"

definition getKey :: "string \<Rightarrow> uint64 \<Rightarrow> string" where
  "getKey prefix i = prefix @ ''/'' @ fmt020d i"

definition getAddrKey :: "string \<Rightarrow> string \<Rightarrow> string" where
  "getAddrKey prefix addr = prefix @ ''/'' @ GetAddrFormat addr"

definition endID :: uint64 where
  "endID = - 1"

text \<open>The store of one process: the directories of its namespace and the identifiers it has reserved.\<close>

record EtcdStore =
  es_prefix :: string
  es_clustersDir :: string
  es_serversDir :: string
  es_bindsDir :: string
  es_apisDir :: string
  es_proxiesDir :: string
  es_routingsDir :: string
  es_pluginsDir :: string
  es_appliedPluginDir :: string
  es_idPath :: string
  es_base :: uint64
  es_end :: uint64

definition NewEtcdStore :: "string \<Rightarrow> EtcdStore" where
  "NewEtcdStore prefix = \<lparr>es_prefix = prefix, es_clustersDir = prefix @ ''/clusters'', es_serversDir = prefix @ ''/servers'',
     es_bindsDir = prefix @ ''/binds'', es_apisDir = prefix @ ''/apis'', es_proxiesDir = prefix @ ''/proxies'',
     es_routingsDir = prefix @ ''/routings'', es_pluginsDir = prefix @ ''/plugins'',
     es_appliedPluginDir = prefix @ ''/applied/plugins'', es_idPath = prefix @ ''/id'', es_base = 100, es_end = 100\<rparr>"

definition getClusterBindPrefix :: "EtcdStore \<Rightarrow> uint64 \<Rightarrow> string" where
  "getClusterBindPrefix e i = getKey (es_bindsDir e) i"

definition getBindKey :: "EtcdStore \<Rightarrow> Bind \<Rightarrow> string" where
  "getBindKey e b = getKey (getClusterBindPrefix e (bd_ClusterID b)) (bd_ServerID b)"

subsection \<open>The bytes of a number\<close>

definition fmt_Uint64ToBytes :: "uint64 \<Rightarrow> string" where
  "fmt_Uint64ToBytes v = map (\<lambda>k. char_of (unat (drop_bit (8 * k) v))) [7, 6, 5, 4, 3, 2, 1, 0]"

definition fmt_BytesToUint64 :: "string \<Rightarrow> uint64 option" where
  "fmt_BytesToUint64 b = (if length b \<noteq> 8 then None else Some (foldl (\<lambda>a c. push_bit 8 a OR of_char c) 0 b))"

subsection \<open>Lemmas on decimal strings\<close>

lemma nat_digits_length: "n < 10 ^ k \<Longrightarrow> 0 < k \<Longrightarrow> length (nat_digits n) \<le> k"
proof (induction k arbitrary: n)
  case (Suc k)
  show ?case
  proof (cases "n < 10")
    case False
    then have "k \<noteq> 0" "n div 10 < 10 ^ k" using Suc.prems by (auto intro: ccontr simp: less_mult_imp_div_less mult.commute)
    then have "length (nat_digits (n div 10)) \<le> k" by (intro Suc.IH) auto
    then show ?thesis using False by (subst nat_digits.simps) simp
  qed (subst nat_digits.simps, simp)
qed simp

lemma unat_digits: "unat (i::uint64) < 10 ^ 20"
  using unsigned_less [of i, where 'a = nat] by (rule less_le_trans) simp

lemma fmt020d_length [simp]: "length (fmt020d i) = 20"
  using nat_digits_length [OF unat_digits [of i]] by (simp add: fmt020d_def Let_def)

lemma digits_val_zeros: "digits_val 0 (replicate k (CHR ''0'') @ s) = digits_val 0 s"
  by (induction k) (simp_all add: digit_val_def)

lemma fmt020d_val: "digits_val 0 (fmt020d i) = Some (int (unat i))"
  by (simp add: fmt020d_def Let_def digits_val_zeros digits_val_digits)

lemma fmt020d_parse [simp]: "MustParseStrUInt64 (fmt020d i) = Ok i"
proof -
  have "fmt020d i \<noteq> []" using fmt020d_length [of i] by (metis list.size(3) zero_neq_numeral)
  moreover have "uint i < 2 ^ 64" using uint_lt2p [of i] by simp
  ultimately show ?thesis by (simp add: MustParseStrUInt64_def fmt020d_val)
qed

lemma fmt020d_inj [simp]: "fmt020d i = fmt020d j \<longleftrightarrow> i = j"
  by (metis fmt020d_parse outcome.inject(1))

lemma digit_val_bounds: "digit_val c = Some d \<Longrightarrow> 0 \<le> d \<and> d < 10 \<and> int (of_char c) = 48 + d"
  by (auto simp: digit_val_def Let_def split: if_splits)

lemma digits_val_bounds:
  "digits_val a xs = Some m \<Longrightarrow> a * 10 ^ length xs \<le> m \<and> m < (a + 1) * 10 ^ length xs"
proof (induction a xs rule: digits_val.induct)
  case (2 acc c cs)
  then obtain d where d: "digit_val c = Some d" "digits_val (10 * acc + d) cs = Some m" by (auto split: option.splits)
  have b: "(10 * acc + d) * 10 ^ length cs \<le> m" "m < (10 * acc + d + 1) * 10 ^ length cs" using "2.IH" [OF d] by auto
  have "(10 * acc) * 10 ^ length cs \<le> (10 * acc + d) * 10 ^ length cs"
    "(10 * acc + d + 1) * 10 ^ length cs \<le> (10 * acc + 10) * 10 ^ length cs"
    using digit_val_bounds [OF d(1)] by (auto intro!: mult_right_mono)
  then have "10 * acc * 10 ^ length cs \<le> m \<and> m < (10 * acc + 10) * 10 ^ length cs" using b by linarith
  moreover have "(10 * acc + 10) * 10 ^ length cs = (acc + 1) * 10 ^ length (c # cs)" by (simp add: algebra_simps)
  ultimately show ?case by simp
qed simp

text \<open>On decimal strings of one length the order of bytes is the order of numbers.\<close>

lemma digits_less:
  "length xs = length ys \<Longrightarrow> digits_val a xs = Some m \<Longrightarrow> digits_val a ys = Some n \<Longrightarrow> xs < ys \<longleftrightarrow> m < n"
proof (induction xs ys arbitrary: a rule: list_induct2)
  case (Cons x xs y ys)
  obtain c where c: "digit_val x = Some c" "digits_val (10 * a + c) xs = Some m" using Cons.prems(1) by (auto split: option.splits)
  obtain d where d: "digit_val y = Some d" "digits_val (10 * a + d) ys = Some n" using Cons.prems(2) by (auto split: option.splits)
  have cd: "x < y \<longleftrightarrow> c < d" "x = y \<longleftrightarrow> c = d"
    using digit_val_bounds [OF c(1)] digit_val_bounds [OF d(1)] of_char_eq_iff [of x y, where 'a = nat]
    by (auto simp: less_char_def simp del: of_char_eq_iff)
  have step: "u < v" if "p < q" "digits_val (10 * a + p) us = Some u" "digits_val (10 * a + q) vs = Some v"
    "length us = length vs" for p q us vs u v
  proof -
    have "u < (10 * a + p + 1) * 10 ^ length us" "(10 * a + q) * 10 ^ length us \<le> v"
      using digits_val_bounds [OF that(2)] digits_val_bounds [OF that(3)] that(4) by auto
    moreover have "(10 * a + p + 1) * 10 ^ length us \<le> (10 * a + q) * 10 ^ length us" using that(1) by (intro mult_right_mono) auto
    ultimately show "u < v" by linarith
  qed
  show ?case
  proof (cases "c = d")
    case True
    then show ?thesis using Cons.IH [of "10 * a + c"] c d cd by simp
  next
    case False
    then show ?thesis using step [OF _ c(2) d(2) Cons.hyps] step [OF _ d(2) c(2) Cons.hyps [symmetric]] cd
      by (metis Cons_less_Cons less_irrefl linorder_neqE not_less_iff_gr_or_eq)
  qed
qed simp

lemma fmt020d_less [simp]: "fmt020d i < fmt020d j \<longleftrightarrow> i < j"
  using digits_less [OF _ fmt020d_val fmt020d_val, of i j] by (simp add: word_less_def)

subsection \<open>The order of keys\<close>

lemma append_less [simp]: "p @ xs < p @ ys \<longleftrightarrow> xs < (ys :: 'a::order list)"
  by (induction p) simp_all

lemma append_le [simp]: "p @ xs \<le> p @ ys \<longleftrightarrow> xs \<le> (ys :: 'a::order list)"
  by (induction p) simp_all

lemma getKey_less [simp]: "getKey p i < getKey p j \<longleftrightarrow> i < j"
  by (simp add: getKey_def)

lemma getKey_inj [simp]: "getKey p i = getKey p j \<longleftrightarrow> i = j"
  by (simp add: getKey_def)

lemma getKey_le [simp]: "getKey p i \<le> getKey p j \<longleftrightarrow> i \<le> j"
  by (simp add: le_less)

text \<open>Between two keys of a directory there are only keys of the directory.\<close>

lemma between_prefix:
  "p @ xs \<le> k \<Longrightarrow> k < p @ ys \<Longrightarrow> \<exists>z. k = p @ (z :: 'a::linorder list)"
proof (induction p arbitrary: k)
  case (Cons c p)
  then obtain k' where "k = c # k'" by (cases k) auto
  then show ?case using Cons by auto
qed simp

subsection \<open>Prefixes\<close>

lemma has_prefix_append [simp]: "has_prefix (p @ xs) (p @ ys) = has_prefix xs ys"
  by (induction p) simp_all

lemma has_prefix_self [simp]: "has_prefix xs (xs @ ys)"
  by (simp add: has_prefix_iff)

lemma has_prefix_getKey [simp]: "has_prefix p (getKey p i)"
  by (simp add: getKey_def)

lemma bind_prefix [simp]:
  "has_prefix (getClusterBindPrefix e c) (getBindKey e b) \<longleftrightarrow> bd_ClusterID b = c"
proof -
  have "has_prefix (fmt020d c) (fmt020d i @ zs) \<longleftrightarrow> i = c" for i zs
  proof -
    have "fmt020d i @ zs = fmt020d c @ ys \<longleftrightarrow> i = c \<and> zs = ys" for ys by (simp add: append_eq_append_conv)
    then show ?thesis by (auto simp: has_prefix_iff)
  qed
  then show ?thesis by (simp add: getBindKey_def getClusterBindPrefix_def getKey_def)
qed

lemma getBindKey_inj: "getBindKey e b = getBindKey e b' \<Longrightarrow> bd_ClusterID b = bd_ClusterID b' \<and> bd_ServerID b = bd_ServerID b'"
  by (auto simp: getBindKey_def getClusterBindPrefix_def getKey_def append_eq_append_conv)

subsection \<open>The counter's bytes\<close>

lemma Uint64ToBytes_length [simp]: "length (fmt_Uint64ToBytes v) = 8"
  by (simp add: fmt_Uint64ToBytes_def)

lemma byte_word: "(of_char (char_of (unat w)) :: uint64) = take_bit 8 w"
proof -
  have "(of_char (char_of (unat w)) :: nat) = unat w mod 256" by simp
  then have "(of_char (char_of (unat w)) :: uint64) = of_nat (unat w mod 256)" by (metis of_nat_of_char)
  also have "\<dots> = of_nat (unat (w mod 256))" by (simp add: unat_mod_distrib)
  finally show ?thesis by (simp add: take_bit_eq_mod)
qed

lemma push_take: "push_bit 8 (drop_bit (n + 8) v) OR take_bit 8 (drop_bit n v) = drop_bit n (v :: uint64)"
  by (rule bit_word_eqI) (auto simp: bit_simps)

lemma Uint64_bytes [simp]: "fmt_BytesToUint64 (fmt_Uint64ToBytes v) = Some v"
proof -
  have p: "push_bit 8 (drop_bit m v) OR take_bit 8 (drop_bit n v) = drop_bit n v" if "m = n + 8" for m n
    using push_take [of n v] that by simp
  have z: "take_bit 8 (drop_bit 56 v) = drop_bit 56 v" by (rule bit_word_eqI) (auto simp: bit_simps dest: bit_imp_le_length)
  show ?thesis
    by (simp add: fmt_BytesToUint64_def fmt_Uint64ToBytes_def byte_word z p [of 56 48] p [of 48 40] p [of 40 32] p [of 32 24] p [of 24 16] p [of 16 8]
        p [of 8 0, simplified])
qed

lemma Uint64ToBytes_inj [simp]: "fmt_Uint64ToBytes v = fmt_Uint64ToBytes w \<longleftrightarrow> v = w"
  by (metis Uint64_bytes option.inject)

end
