(* ===== verification/Etcd.thy ===== *)
theory Etcd
  imports Store_Keys
begin

text \<open>
  The layer between the store and etcd (\<^verbatim>\<open>store/txn.go\<close> and the lower half of \<^verbatim>\<open>store/store_etcd.go\<close>): single reads,
  transactions, protocol buffers under a key, and listing a directory page by page.

  etcd itself and the generated protocol buffer code are parameters: \<open>etcd\<close> has the client calls the store makes, over an
  unknown state \<open>'db\<close>; \<open>codec\<close> the two conversions of a message. What the store relies on are the predicates
  \<open>etcd_ok\<close> (the documented meaning of the calls, through the map of keys \<open>kv\<close> a state stands for) and \<open>codec_ok\<close>. An
  operation is a function of the store and the state of etcd; \<open>None\<close> is an operation that never returns.
\<close>

subsection \<open>The client\<close>

datatype store_error =
    ErrStaleOP
  | ErrClient string
  | ErrCodec string
  | ErrData nat
  | ErrMissing string
  | ErrTrafficRate int
  | ErrExpr expr_error
  | ErrRegexp string
  | ErrPluginRuntime
  | ErrRouteAdd route_error
  | ErrNotFound string
  | ErrPluginApplied uint64

datatype get_opt = GetKey | WithPrefix | WithRangeLimit string int

datatype etcd_op = OpPut string string "int option" | OpDelete string | OpDeletePrefix string

datatype etcd_cmp = CreateRevisionZero string | ValueEq string string

record 'db etcd =
  et_Get :: "string \<Rightarrow> get_opt \<Rightarrow> 'db \<Rightarrow> (store_error, (string \<times> string) list) outcome"
  et_Count :: "string \<Rightarrow> 'db \<Rightarrow> (store_error, int) outcome"
  et_Commit :: "etcd_cmp list \<Rightarrow> etcd_op list \<Rightarrow> 'db \<Rightarrow> (store_error, bool) outcome \<times> 'db"
  et_Grant :: "int \<Rightarrow> 'db \<Rightarrow> (store_error, int) outcome \<times> 'db"
  et_KeepAlive :: "int \<Rightarrow> 'db \<Rightarrow> (store_error, unit) outcome \<times> 'db"

record 'v codec =
  cd_Marshal :: "'v \<Rightarrow> (store_error, string) outcome"
  cd_Unmarshal :: "string \<Rightarrow> (store_error, 'v) outcome"

text \<open>The interface \<^verbatim>\<open>pb\<close>, with the assignment of the identifier that every caller passes as \<^verbatim>\<open>do\<close>.\<close>

record 'v pb =
  pb_codec :: "'v codec"
  pb_GetID :: "'v \<Rightarrow> uint64"
  pb_SetID :: "uint64 \<Rightarrow> 'v \<Rightarrow> 'v"

subsection \<open>What the store relies on\<close>

definition kv_entries :: "(string \<rightharpoonup> string) \<Rightarrow> (string \<Rightarrow> bool) \<Rightarrow> (string \<times> string) list" where
  "kv_entries m P = map (\<lambda>k. (k, the (m k))) (sorted_list_of_set {k \<in> dom m. P k})"

fun op_effect :: "etcd_op \<Rightarrow> (string \<rightharpoonup> string) \<Rightarrow> (string \<rightharpoonup> string)" where
  "op_effect (OpPut k v lease) m = m(k \<mapsto> v)"
| "op_effect (OpDelete k) m = m(k := None)"
| "op_effect (OpDeletePrefix p) m = (\<lambda>k. if has_prefix p k then None else m k)"

fun cmp_holds :: "(string \<rightharpoonup> string) \<Rightarrow> etcd_cmp \<Rightarrow> bool" where
  "cmp_holds m (CreateRevisionZero k) = (m k = None)"
| "cmp_holds m (ValueEq k v) = (m k = Some v)"

fun put_key :: "etcd_op \<Rightarrow> string list" where
  "put_key (OpPut k v lease) = [k]"
| "put_key _ = []"

text \<open>etcd accepts at most 128 operations in a transaction and no key twice; a transaction of the store either puts or
  deletes.\<close>

definition ops_ok :: "etcd_op list \<Rightarrow> bool" where
  "ops_ok ops \<longleftrightarrow> length ops \<le> 128 \<and> distinct (concat (map put_key ops)) \<and>
     ((\<forall>x\<in>set ops. put_key x = []) \<or> (\<forall>x\<in>set ops. put_key x \<noteq> []))"

definition commit_ok :: "'db etcd \<Rightarrow> ('db \<Rightarrow> (string \<rightharpoonup> string)) \<Rightarrow> bool" where
  "commit_ok E kv \<longleftrightarrow> (\<forall>cs ops db. ops_ok ops \<longrightarrow>
     (\<exists>db'. et_Commit E cs ops db = (Ok (list_all (cmp_holds (kv db)) cs), db') \<and>
            kv db' = (if list_all (cmp_holds (kv db)) cs then fold op_effect ops (kv db) else kv db)))"

definition etcd_ok :: "'db etcd \<Rightarrow> ('db \<Rightarrow> (string \<rightharpoonup> string)) \<Rightarrow> bool" where
  "etcd_ok E kv \<longleftrightarrow>
     (\<forall>db. finite (dom (kv db))) \<and>
     (\<forall>k db. et_Get E k GetKey db = Ok (kv_entries (kv db) (\<lambda>x. x = k))) \<and>
     (\<forall>k db. et_Get E k WithPrefix db = Ok (kv_entries (kv db) (has_prefix k))) \<and>
     (\<forall>k end n db. 0 \<le> n \<longrightarrow> et_Get E k (WithRangeLimit end n) db =
        Ok ((if n = 0 then id else take (nat n)) (kv_entries (kv db) (\<lambda>x. k \<le> x \<and> x < end)))) \<and>
     (\<forall>k db. et_Count E k db = Ok (int (card {x \<in> dom (kv db). has_prefix k x}))) \<and>
     commit_ok E kv"

text \<open>A message read back is the message written.\<close>

definition codec_ok :: "'v codec \<Rightarrow> bool" where
  "codec_ok c \<longleftrightarrow> (\<forall>v. \<exists>s. cd_Marshal c v = Ok s \<and> s \<noteq> [] \<and> cd_Unmarshal c s = Ok v)"

subsection \<open>Operations on the store and etcd\<close>

type_synonym ('db, 'a) sm = "EtcdStore \<times> 'db \<Rightarrow> ((store_error, 'a) outcome \<times> EtcdStore \<times> 'db) option"

definition slift :: "(store_error, 'a) outcome \<Rightarrow> ('db, 'a) sm" where
  "slift r s = Some (r, s)"

definition sread :: "('db \<Rightarrow> (store_error, 'a) outcome) \<Rightarrow> ('db, 'a) sm" where
  "sread f s = Some (f (snd s), s)"

definition sbind :: "('db, 'a) sm \<Rightarrow> ('a \<Rightarrow> ('db, 'b) sm) \<Rightarrow> ('db, 'b) sm" where
  "sbind m f s = (case m s of
      None \<Rightarrow> None
    | Some (r, s') \<Rightarrow> (case r of Ok x \<Rightarrow> f x s' | Err e \<Rightarrow> Some (Err e, s') | Panic \<Rightarrow> Some (Panic, s')))"

definition slift_step :: "('db \<Rightarrow> (store_error, 'a) outcome \<times> 'db) \<Rightarrow> ('db, 'a) sm" where
  "slift_step f s = (case f (snd s) of (r, db) \<Rightarrow> Some (r, fst s, db))"

text \<open>A transaction: the wrapper only logs a slow one.\<close>

definition Commit :: "'db etcd \<Rightarrow> etcd_cmp list \<Rightarrow> etcd_op list \<Rightarrow> ('db, bool) sm" where
  "Commit E cs ops = slift_step (et_Commit E cs ops)"

definition st_put :: "'db etcd \<Rightarrow> string \<Rightarrow> string \<Rightarrow> int option \<Rightarrow> ('db, unit) sm" where
  "st_put E key v lease = sbind (Commit E [] [OpPut key v lease]) (\<lambda>_. slift (Ok ()))"

definition putBatch :: "'db etcd \<Rightarrow> etcd_op list \<Rightarrow> ('db, unit) sm" where
  "putBatch E ops = (if length ops = 0 then slift (Ok ()) else sbind (Commit E [] ops) (\<lambda>_. slift (Ok ())))"

definition putTTL :: "'db etcd \<Rightarrow> string \<Rightarrow> string \<Rightarrow> int \<Rightarrow> ('db, unit) sm" where
  "putTTL E key v ttl =
     sbind (slift_step (et_Grant E ttl)) (\<lambda>lease. sbind (Commit E [] [OpPut key v (Some lease)]) (\<lambda>_. slift (Ok ())))"

definition st_delete :: "'db etcd \<Rightarrow> etcd_op \<Rightarrow> ('db, unit) sm" where
  "st_delete E x = sbind (Commit E [] [x]) (\<lambda>_. slift (Ok ()))"

definition getValue :: "'db etcd \<Rightarrow> string \<Rightarrow> 'db \<Rightarrow> (store_error, string) outcome" where
  "getValue E key db =
     obind (et_Get E key GetKey db) (\<lambda>kvs. case kvs of [] \<Rightarrow> Ok [] | (k, v) # _ \<Rightarrow> Ok v)"

text \<open>\<open>zero\<close> is the empty message the caller passes.\<close>

definition getPBWithKey :: "'db etcd \<Rightarrow> 'v codec \<Rightarrow> string \<Rightarrow> 'v \<Rightarrow> bool \<Rightarrow> 'db \<Rightarrow> (store_error, 'v) outcome" where
  "getPBWithKey E c key zero allowNotFound db =
     obind (getValue E key db) (\<lambda>data.
       if length data = 0 then (if allowNotFound then Ok zero else Err (ErrNotFound key)) else cd_Unmarshal c data)"

definition getPB :: "'db etcd \<Rightarrow> 'v codec \<Rightarrow> string \<Rightarrow> uint64 \<Rightarrow> 'v \<Rightarrow> 'db \<Rightarrow> (store_error, 'v) outcome" where
  "getPB E c prefix i zero db = getPBWithKey E c (getKey prefix i) zero False db"

subsection \<open>Listing a directory\<close>

text \<open>One page: every entry is decoded and handed to the callback, whose error is dropped; the start of the next page
  follows the last entry. The callback sees the values in order, so the model collects them.\<close>

fun visit_page :: "(string \<Rightarrow> (store_error, 'v) outcome) \<Rightarrow> ('v \<Rightarrow> string option) \<Rightarrow> (string \<times> string) list \<Rightarrow> string \<Rightarrow> 'v list
    \<Rightarrow> (store_error, string) outcome \<times> 'v list" where
  "visit_page dec next_start [] start seen = (Ok start, seen)"
| "visit_page dec next_start ((k, data) # kvs) start seen =
     (case dec data of
        Err e \<Rightarrow> (Err e, seen)
      | Panic \<Rightarrow> (Panic, seen)
      | Ok v \<Rightarrow> (case next_start v of None \<Rightarrow> (Panic, seen @ [v])
                 | Some s \<Rightarrow> visit_page dec next_start kvs s (seen @ [v])))"

partial_function (option) page_loop ::
  "(string \<Rightarrow> (store_error, (string \<times> string) list) outcome) \<Rightarrow> (string \<Rightarrow> (store_error, 'v) outcome) \<Rightarrow>
   ('v \<Rightarrow> string option) \<Rightarrow> int \<Rightarrow> string \<Rightarrow> 'v list \<Rightarrow> ((store_error, unit) outcome \<times> 'v list) option" where
  "page_loop get dec next_start limit start seen =
     (case get start of
        Err e \<Rightarrow> Some (Err e, seen)
      | Panic \<Rightarrow> Some (Panic, seen)
      | Ok kvs \<Rightarrow>
          (case visit_page dec next_start kvs start seen of
             (Ok start', seen') \<Rightarrow>
               if int (length kvs) < limit then Some (Ok (), seen') else page_loop get dec next_start limit start' seen'
           | (Err e, seen') \<Rightarrow> Some (Err e, seen')
           | (Panic, seen') \<Rightarrow> Some (Panic, seen')))"

text \<open>The result is the values the callback was called with, next to the error.\<close>

definition getValues :: "'db etcd \<Rightarrow> 'v pb \<Rightarrow> string \<Rightarrow> int \<Rightarrow> 'db \<Rightarrow> ((store_error, unit) outcome \<times> 'v list) option" where
  "getValues E p prefix limit db =
     page_loop (\<lambda>key. et_Get E key (WithRangeLimit (getKey prefix endID) limit) db) (cd_Unmarshal (pb_codec p))
       (\<lambda>v. Some (getKey prefix (pb_GetID p v + 1))) limit (getKey prefix 0) []"

text \<open>\<^verbatim>\<open>utils.GetAddrNextFormat\<close>; the address of a proxy is ASCII, so \<^verbatim>\<open>%c\<close> prints one byte.\<close>

definition GetAddrNextFormat :: "string \<Rightarrow> string option" where
  "GetAddrNextFormat addr = (if addr = [] then None else Some (butlast addr @ [char_of (of_char (last addr) + 1 :: nat)]))"

definition MinAddrFormat :: string where
  "MinAddrFormat = ''000000000000000000000''"

definition MaxAddrFormat :: string where
  "MaxAddrFormat = ''255.255.255.255:99999''"

definition GetProxies :: "'db etcd \<Rightarrow> Proxy codec \<Rightarrow> EtcdStore \<Rightarrow> int \<Rightarrow> 'db \<Rightarrow> ((store_error, unit) outcome \<times> Proxy list) option" where
  "GetProxies E c e limit db =
     page_loop (\<lambda>key. et_Get E key (WithRangeLimit (getAddrKey (es_proxiesDir e) MaxAddrFormat) limit) db) (cd_Unmarshal c)
       (\<lambda>v. map_option (getAddrKey (es_proxiesDir e)) (GetAddrNextFormat (px_Addr v))) limit
       (getAddrKey (es_proxiesDir e) MinAddrFormat) []"

subsection \<open>A listing shows every entry once\<close>

lemma entries_keys: "finite (dom m) \<Longrightarrow> map fst (kv_entries m P) = sorted_list_of_set {k \<in> dom m. P k}"
  by (simp add: kv_entries_def comp_def)

lemma entries_mem: "finite (dom m) \<Longrightarrow> (k, v) \<in> set (kv_entries m P) \<longleftrightarrow> m k = Some v \<and> P k"
  by (force simp: kv_entries_def)

lemma entries_empty: "finite (dom m) \<Longrightarrow> kv_entries m P = [] \<longleftrightarrow> (\<forall>k\<in>dom m. \<not> P k)"
  by (auto simp: kv_entries_def)

lemma entries_key: "finite (dom m) \<Longrightarrow> kv_entries m (\<lambda>x. x = k) = (case m k of None \<Rightarrow> [] | Some v \<Rightarrow> [(k, v)])"
proof (cases "m k")
  case (Some v)
  then have "{x \<in> dom m. x = k} = {k}" by auto
  then show ?thesis using Some by (simp add: kv_entries_def)
qed (auto simp: kv_entries_def)

text \<open>Cutting the ordered list of entries at a start between two keys.\<close>

lemma entries_drop:
  assumes "finite (dom m)" and kvs: "kv_entries m (\<lambda>k. s \<le> k \<and> k < end) = kvs" and "n \<le> length kvs" "0 < n"
    and "fst (kvs ! (n - 1)) < s'" "\<forall>x\<in>set (drop n kvs). s' \<le> fst x"
  shows "kv_entries m (\<lambda>k. s' \<le> k \<and> k < end) = drop n kvs"
proof -
  let ?S = "{k \<in> dom m. s \<le> k \<and> k < end}" and ?S' = "{k \<in> dom m. s' \<le> k \<and> k < end}"
  let ?xs = "sorted_list_of_set ?S"
  have fin: "finite ?S" "finite ?S'" using assms(1) by simp_all
  have len: "length kvs = length ?xs" and nth: "fst (kvs ! (n - 1)) = ?xs ! (n - 1)" and dr: "fst ` set (drop n kvs) = set (drop n ?xs)"
    using assms(3,4) by (auto simp: kvs [symmetric] kv_entries_def drop_map image_image)
  have srt: "sorted ?xs" "distinct ?xs" "set ?xs = ?S" using fin by simp_all
  have n: "n - 1 < length ?xs" using assms(3,4) len by simp
  have sS: "s \<le> s'" using assms(5) nth srt(3) nth_mem [OF n] by (auto intro: order_trans less_imp_le)
  have "k \<in> set (drop n ?xs) \<longleftrightarrow> k \<in> ?S'" for k
  proof
    assume "k \<in> set (drop n ?xs)"
    then show "k \<in> ?S'" using dr assms(6) in_set_dropD [of k n ?xs] srt(3) by fastforce
  next
    assume k: "k \<in> ?S'"
    then have "k \<in> set ?xs" using sS srt(3) by (auto intro: order_trans)
    then obtain j where j: "j < length ?xs" "k = ?xs ! j" by (auto simp: in_set_conv_nth)
    have "\<not> j \<le> n - 1"
    proof
      assume "j \<le> n - 1"
      then have "k \<le> ?xs ! (n - 1)" using j(2) sorted_nth_mono [OF srt(1) _ n] by simp
      then show False using k assms(5) nth by (auto simp del: One_nat_def)
    qed
    then have "k = drop n ?xs ! (j - n)" "j - n < length (drop n ?xs)" using j assms(4) by simp_all
    then show "k \<in> set (drop n ?xs)" by (metis nth_mem)
  qed
  then have "set (drop n ?xs) = ?S'" by blast
  moreover have "sorted (drop n ?xs)" "distinct (drop n ?xs)" using srt by (simp_all add: sorted_wrt_drop)
  ultimately have "sorted_list_of_set ?S' = drop n ?xs" using fin(2) by (simp add: sorted_list_of_set.idem_if_sorted_distinct flip: \<open>set (drop n ?xs) = ?S'\<close>)
  then show ?thesis by (simp add: kvs [symmetric] kv_entries_def drop_map)
qed

definition decoded :: "(string \<Rightarrow> (store_error, 'v) outcome) \<Rightarrow> string \<Rightarrow> 'v" where
  "decoded dec data = (case dec data of Ok v \<Rightarrow> v | _ \<Rightarrow> undefined)"

lemma visit_page_run:
  "\<forall>x\<in>set kvs. \<exists>v s. dec (snd x) = Ok v \<and> next_start v = Some s \<Longrightarrow>
   visit_page dec next_start kvs start seen =
     (Ok (if kvs = [] then start else the (next_start (decoded dec (snd (last kvs))))), seen @ map (decoded dec \<circ> snd) kvs)"
  by (induction dec next_start kvs start seen rule: visit_page.induct) (auto simp: decoded_def)

text \<open>The contract between the keys of a directory and the start of the next page: the start lies behind the last value
  seen, and in front of every other value behind it.\<close>

locale pager =
  fixes key :: "'v \<Rightarrow> string" and next_start :: "'v \<Rightarrow> string option" and member :: "'v \<Rightarrow> bool"
  assumes after: "member v \<Longrightarrow> \<exists>s. next_start v = Some s \<and> key v < s"
    and no_skip: "member v \<Longrightarrow> member w \<Longrightarrow> key v < key w \<Longrightarrow> the (next_start v) \<le> key w"
begin

lemma loop_run:
  assumes "finite (dom m)" "0 < limit"
    and "\<And>s. get s = Ok (take (nat limit) (kv_entries m (\<lambda>k. s \<le> k \<and> k < end)))"
    and "\<forall>k data. m k = Some data \<longrightarrow> start \<le> k \<longrightarrow> k < end \<longrightarrow> (\<exists>v. dec data = Ok v \<and> member v \<and> key v = k)"
  shows "page_loop get dec next_start limit start seen =
    Some (Ok (), seen @ map (decoded dec \<circ> snd) (kv_entries m (\<lambda>k. start \<le> k \<and> k < end)))"
  using assms(4)
proof (induction "length (kv_entries m (\<lambda>k. start \<le> k \<and> k < end))" arbitrary: start seen rule: less_induct)
  case less
  define kvs where "kvs = kv_entries m (\<lambda>k. start \<le> k \<and> k < end)"
  define n where "n = nat limit"
  have n: "0 < n" "int n = limit" using assms(2) by (simp_all add: n_def)
  have val: "\<exists>v. dec (snd x) = Ok v \<and> member v \<and> key v = fst x" if "x \<in> set kvs" for x
    using that less.prems entries_mem [OF assms(1), of "fst x" "snd x" "\<lambda>k. start \<le> k \<and> k < end"] by (auto simp: kvs_def)
  have dk: "dec (snd x) = Ok (decoded dec (snd x))" "member (decoded dec (snd x))" "key (decoded dec (snd x)) = fst x" if "x \<in> set kvs" for x
    using val [OF that] by (auto simp: decoded_def)
  have page: "visit_page dec next_start (take n kvs) start seen =
      (Ok (if take n kvs = [] then start else the (next_start (decoded dec (snd (last (take n kvs)))))),
       seen @ map (decoded dec \<circ> snd) (take n kvs))"
    by (rule visit_page_run) (use dk after in_set_takeD in \<open>metis\<close>)
  show ?case
  proof (cases "length kvs < n")
    case True
    then show ?thesis
      using page n by (subst page_loop.simps) (simp add: assms(3) flip: kvs_def n_def)
  next
    case False
    then have ne: "take n kvs \<noteq> []" "length (take n kvs) = n" using n by auto
    define w where "w = kvs ! (n - 1)"
    have w: "last (take n kvs) = w" "w \<in> set kvs" using ne n False by (simp_all add: w_def last_conv_nth)
    obtain s' where s': "next_start (decoded dec (snd w)) = Some s'" "fst w < s'" using after dk(2,3) [OF w(2)] by metis
    have "s' \<le> fst x" if xd: "x \<in> set (drop n kvs)" for x
    proof -
      have x: "x \<in> set kvs" using xd by (rule in_set_dropD)
      have "sorted_wrt (<) (map fst kvs)" using assms(1) by (simp add: kvs_def entries_keys strict_sorted_list_of_set)
      moreover obtain j where "j < length (drop n kvs)" "x = drop n kvs ! j" using xd by (auto simp: in_set_conv_nth)
      ultimately have "fst w < fst x" using n False by (auto simp: w_def sorted_wrt_iff_nth_less)
      then show ?thesis using no_skip [of "decoded dec (snd w)" "decoded dec (snd x)"] dk [OF w(2)] dk [OF x] s' by simp
    qed
    then have rest: "kv_entries m (\<lambda>k. s' \<le> k \<and> k < end) = drop n kvs"
      using False n s'(2) by (intro entries_drop [OF assms(1) kvs_def [symmetric]]) (simp_all add: w_def)
    have lo: "start \<le> s'"
    proof -
      have "start \<le> fst w" using w(2) entries_mem [OF assms(1), of "fst w" "snd w" "\<lambda>k. start \<le> k \<and> k < end"] by (auto simp: kvs_def)
      then show ?thesis using s'(2) by (rule less_imp_le [OF le_less_trans])
    qed
    have "page_loop get dec next_start limit s' (seen @ map (decoded dec \<circ> snd) (take n kvs)) =
      Some (Ok (), (seen @ map (decoded dec \<circ> snd) (take n kvs)) @ map (decoded dec \<circ> snd) (kv_entries m (\<lambda>k. s' \<le> k \<and> k < end)))"
    proof (rule less.hyps)
      show "length (kv_entries m (\<lambda>k. s' \<le> k \<and> k < end)) < length (kv_entries m (\<lambda>k. start \<le> k \<and> k < end))"
        using rest n False by (simp flip: kvs_def)
      show "\<forall>k data. m k = Some data \<longrightarrow> s' \<le> k \<longrightarrow> k < end \<longrightarrow> (\<exists>v. dec data = Ok v \<and> member v \<and> key v = k)"
        using less.prems lo by (auto intro: order_trans)
    qed
    moreover have "map (decoded dec \<circ> snd) (take n kvs) @ map (decoded dec \<circ> snd) (drop n kvs) = map (decoded dec \<circ> snd) kvs"
      by (simp flip: map_append)
    ultimately show ?thesis
      using page ne n rest s'(1) w(1) by (subst page_loop.simps) (simp add: assms(3) flip: kvs_def n_def)
  qed
qed

end

text \<open>Identifiers and the addresses of proxies both meet it.\<close>

interpretation id_pages: pager "\<lambda>v. getKey p (idf v)" "\<lambda>v. Some (getKey p (idf v + 1))" "\<lambda>v. idf v \<noteq> endID" for p idf
proof unfold_locales
  fix v assume v: "idf v \<noteq> endID"
  then have "idf v + 1 \<noteq> 0" by (simp add: endID_def eq_neg_iff_add_eq_0)
  then have "idf v < idf v + 1" by (simp add: word_less_nat_alt unatSuc add.commute)
  then show "\<exists>s. Some (getKey p (idf v + 1)) = Some s \<and> getKey p (idf v) < s" by simp
next
  fix v w assume "getKey p (idf v) < getKey p (idf w)"
  then show "the (Some (getKey p (idf v + 1))) \<le> getKey p (idf w)" by (simp add: inc_le)
qed

definition addr_ok :: "string \<Rightarrow> bool" where
  "addr_ok a \<longleftrightarrow> a \<noteq> [] \<and> length a \<le> 21 \<and> of_char (last a) < (127 :: nat)"

lemma snoc_less: "length xs = length ys \<Longrightarrow> xs @ [a] < ys @ [b] \<longleftrightarrow> xs < ys \<or> xs = ys \<and> a < (b :: 'a::linorder)"
  by (induction xs ys rule: list_induct2) auto

lemma next_addr_format:
  assumes "addr_ok a"
  obtains s where "GetAddrNextFormat a = Some s" "GetAddrFormat a = butlast (GetAddrFormat a) @ [last a]"
    "GetAddrFormat s = butlast (GetAddrFormat a) @ [char_of (of_char (last a) + 1 :: nat)]"
  using assms
  by (cases a rule: rev_cases) (auto simp: addr_ok_def GetAddrNextFormat_def GetAddrFormat_def butlast_append)

lemma next_char: "of_char c < (127 :: nat) \<Longrightarrow> c < char_of (of_char c + 1 :: nat) \<and> (c < d \<longrightarrow> char_of (of_char c + 1 :: nat) \<le> d)"
  by (auto simp: less_char_def less_eq_char_def)

interpretation addr_pages: pager "\<lambda>v. getAddrKey p (px_Addr v)"
  "\<lambda>v. map_option (getAddrKey p) (GetAddrNextFormat (px_Addr v))" "\<lambda>v. addr_ok (px_Addr v)" for p
proof unfold_locales
  fix v assume "addr_ok (px_Addr v)"
  moreover from this obtain s where "GetAddrNextFormat (px_Addr v) = Some s"
    "GetAddrFormat (px_Addr v) = butlast (GetAddrFormat (px_Addr v)) @ [last (px_Addr v)]"
    "GetAddrFormat s = butlast (GetAddrFormat (px_Addr v)) @ [char_of (of_char (last (px_Addr v)) + 1 :: nat)]"
    by (rule next_addr_format)
  ultimately show "\<exists>s. map_option (getAddrKey p) (GetAddrNextFormat (px_Addr v)) = Some s \<and> getAddrKey p (px_Addr v) < s"
    using next_char [of "last (px_Addr v)"] by (metis addr_ok_def append_less getAddrKey_def option.simps(9) snoc_less)
next
  fix v w assume vw: "addr_ok (px_Addr v)" "addr_ok (px_Addr w)" "getAddrKey p (px_Addr v) < getAddrKey p (px_Addr w)"
  obtain s where s: "GetAddrNextFormat (px_Addr v) = Some s"
    "GetAddrFormat (px_Addr v) = butlast (GetAddrFormat (px_Addr v)) @ [last (px_Addr v)]"
    "GetAddrFormat s = butlast (GetAddrFormat (px_Addr v)) @ [char_of (of_char (last (px_Addr v)) + 1 :: nat)]"
    by (rule next_addr_format [OF vw(1)])
  have w: "GetAddrFormat (px_Addr w) = butlast (GetAddrFormat (px_Addr w)) @ [last (px_Addr w)]"
    by (rule next_addr_format [OF vw(2)])
  have l: "length (butlast (GetAddrFormat (px_Addr v))) = length (butlast (GetAddrFormat (px_Addr w)))"
    using vw(1,2) by (simp add: addr_ok_def GetAddrFormat_def)
  have "GetAddrFormat (px_Addr v) < GetAddrFormat (px_Addr w)" using vw(3) by (simp add: getAddrKey_def)
  then have "butlast (GetAddrFormat (px_Addr v)) < butlast (GetAddrFormat (px_Addr w)) \<or>
      butlast (GetAddrFormat (px_Addr v)) = butlast (GetAddrFormat (px_Addr w)) \<and> last (px_Addr v) < last (px_Addr w)"
    using snoc_less [OF l] s(2) w by metis
  then have "GetAddrFormat s \<le> GetAddrFormat (px_Addr w)"
    using snoc_less [OF l] s(3) w next_char [of "last (px_Addr v)" "last (px_Addr w)"] vw(1)
    by (metis addr_ok_def append_Cons append_le le_less order_refl)
  then show "the (map_option (getAddrKey p) (GetAddrNextFormat (px_Addr v))) \<le> getAddrKey p (px_Addr w)"
    using s(1) by (simp add: getAddrKey_def)
qed

subsection \<open>Reading and writing\<close>

lemma etcd_finite: "etcd_ok E kv \<Longrightarrow> finite (dom (kv db))"
  by (simp add: etcd_ok_def)

lemma get_range: "etcd_ok E kv \<Longrightarrow> 0 < n \<Longrightarrow>
    et_Get E k (WithRangeLimit end n) db = Ok (take (nat n) (kv_entries (kv db) (\<lambda>x. k \<le> x \<and> x < end)))"
  by (simp add: etcd_ok_def)

lemma getValue_run: "etcd_ok E kv \<Longrightarrow> getValue E key db = Ok (case kv db key of None \<Rightarrow> [] | Some v \<Rightarrow> v)"
  by (simp add: getValue_def etcd_ok_def entries_key split: option.split)

lemma Commit_run:
  assumes "etcd_ok E kv" "ops_ok ops"
  obtains db' where "Commit E cs ops (e, db) = Some (Ok (list_all (cmp_holds (kv db)) cs), e, db')"
    "kv db' = (if list_all (cmp_holds (kv db)) cs then fold op_effect ops (kv db) else kv db)"
proof -
  have "commit_ok E kv" using assms(1) by (simp add: etcd_ok_def)
  then obtain db' where "et_Commit E cs ops db = (Ok (list_all (cmp_holds (kv db)) cs), db')"
    "kv db' = (if list_all (cmp_holds (kv db)) cs then fold op_effect ops (kv db) else kv db)"
    using assms(2) unfolding commit_ok_def by blast
  then show thesis by (intro that [of db']) (simp_all add: Commit_def slift_step_def)
qed

lemma sbind_Ok: "m s = Some (Ok x, s') \<Longrightarrow> sbind m f s = f x s'"
  by (simp add: sbind_def)

lemma sbind_Err: "m s = Some (Err x, s') \<Longrightarrow> sbind m f s = Some (Err x, s')"
  by (simp add: sbind_def)

lemma slift_bind [simp]: "sbind (slift (Ok x)) f s = f x s" "sbind (slift (Err er)) f s = Some (Err er, s)"
  by (simp_all add: sbind_def slift_def)

lemma sread_bind: "f (snd s) = Ok x \<Longrightarrow> sbind (sread f) g s = g x s"
  by (simp add: sbind_def sread_def)

lemma one_op [simp]: "ops_ok [x]"
  by (cases x) (simp_all add: ops_ok_def)

lemma st_put_run:
  assumes "etcd_ok E kv"
  obtains db' where "st_put E key v lease (e, db) = Some (Ok (), e, db')" "kv db' = (kv db)(key \<mapsto> v)"
  by (rule Commit_run [OF assms one_op [of "OpPut key v lease"], of "[]" e db], rule that)
    (simp_all add: st_put_def sbind_Ok slift_def)

lemma st_delete_run:
  assumes "etcd_ok E kv"
  obtains db' where "st_delete E x (e, db) = Some (Ok (), e, db')" "kv db' = op_effect x (kv db)"
  by (rule Commit_run [OF assms one_op [of x], of "[]" e db], rule that) (simp_all add: st_delete_def sbind_Ok slift_def)

lemma putBatch_run:
  assumes "etcd_ok E kv" "ops_ok ops"
  obtains db' where "putBatch E ops (e, db) = Some (Ok (), e, db')" "kv db' = fold op_effect ops (kv db)"
proof (cases "ops = []")
  case True
  then show thesis by (intro that [of db]) (simp_all add: putBatch_def slift_def)
next
  case False
  obtain db' where "Commit E [] ops (e, db) = Some (Ok True, e, db')" "kv db' = fold op_effect ops (kv db)"
    by (rule Commit_run [OF assms, of "[]" e db]) simp
  then show thesis using False by (intro that [of db']) (simp_all add: putBatch_def sbind_Ok slift_def)
qed

lemma codec_run:
  assumes "codec_ok c"
  obtains s where "cd_Marshal c v = Ok s" "s \<noteq> []" "cd_Unmarshal c s = Ok v"
  using assms unfolding codec_ok_def by blast

end
