(* ===== verification/Store.thy ===== *)
theory Store
  imports Etcd
begin

text \<open>
  The metadata store (\<^verbatim>\<open>store/store_etcd.go\<close>) and the checks of metadata in front of it (\<^verbatim>\<open>pb/validation.go\<close>). The identifier
  counter is taken apart into \<open>store_getID\<close> and \<open>reserve\<close>, the two steps that several processes interleave (\<^verbatim>\<open>Store_Ids\<close>). The read and write
  locks serialise the operations of one process, so an operation is one function.
\<close>

subsection \<open>Messages\<close>

record codecs =
  c_Cluster :: "Cluster codec"
  c_Server :: "Server codec"
  c_Bind :: "Bind codec"
  c_API :: "API codec"
  c_Routing :: "Routing codec"
  c_Plugin :: "Plugin codec"
  c_Applied :: "uint64 list codec"
  c_Proxy :: "Proxy codec"

definition cluster_pb :: "codecs \<Rightarrow> Cluster pb" where
  "cluster_pb C = \<lparr>pb_codec = c_Cluster C, pb_GetID = cl_ID, pb_SetID = (\<lambda>i v. v\<lparr>cl_ID := i\<rparr>)\<rparr>"

definition server_pb :: "codecs \<Rightarrow> Server pb" where
  "server_pb C = \<lparr>pb_codec = c_Server C, pb_GetID = sv_ID, pb_SetID = (\<lambda>i v. v\<lparr>sv_ID := i\<rparr>)\<rparr>"

definition api_pb :: "codecs \<Rightarrow> API pb" where
  "api_pb C = \<lparr>pb_codec = c_API C, pb_GetID = api_ID, pb_SetID = (\<lambda>i v. v\<lparr>api_ID := i\<rparr>)\<rparr>"

definition routing_pb :: "codecs \<Rightarrow> Routing pb" where
  "routing_pb C = \<lparr>pb_codec = c_Routing C, pb_GetID = rg_ID, pb_SetID = (\<lambda>i v. v\<lparr>rg_ID := i\<rparr>)\<rparr>"

definition plugin_pb :: "codecs \<Rightarrow> Plugin pb" where
  "plugin_pb C = \<lparr>pb_codec = c_Plugin C, pb_GetID = pl_ID, pb_SetID = (\<lambda>i v. v\<lparr>pl_ID := i\<rparr>)\<rparr>"

text \<open>What a store works with: etcd, the codecs, and the environment of the dispatcher's model (clock, regular expressions,
  the sort of the route table, the script engine).\<close>

record 'db world =
  w_etcd :: "'db etcd"
  w_codecs :: codecs
  w_env :: env

subsection \<open>Validation\<close>

definition ValidateRouting :: "Routing \<Rightarrow> (store_error, unit) outcome" where
  "ValidateRouting v =
     (if rg_API v = 0 then Err (ErrMissing ''api'')
      else if rg_ClusterID v = 0 then Err (ErrMissing ''cluster'')
      else if rg_Name v = [] then Err (ErrMissing ''name'')
      else if rg_TrafficRate v \<le> 0 \<or> 100 < rg_TrafficRate v then Err (ErrTrafficRate (rg_TrafficRate v))
      else Ok ())"

definition ValidateCluster :: "Cluster \<Rightarrow> (store_error, unit) outcome" where
  "ValidateCluster v = (if cl_Name v = [] then Err (ErrMissing ''name'') else Ok ())"

definition ValidateServer :: "Server \<Rightarrow> (store_error, unit) outcome" where
  "ValidateServer v =
     (if sv_Addr v = [] then Err (ErrMissing ''server address'')
      else if sv_MaxQPS v = 0 then Err (ErrMissing ''server max qps'') else Ok ())"

fun validate_rules :: "regex \<Rightarrow> ValidationRule list \<Rightarrow> (store_error, unit) outcome" where
  "validate_rules rx [] = Ok ()"
| "validate_rules rx (r # rs) =
     (if vr_RuleType r = RuleRegexp \<and> \<not> compiles rx (vr_Expression r) then Err (ErrRegexp (vr_Expression r))
      else validate_rules rx rs)"

fun validate_validations :: "regex \<Rightarrow> Validation list \<Rightarrow> (store_error, unit) outcome" where
  "validate_validations rx [] = Ok ()"
| "validate_validations rx (v # vs) = obind (validate_rules rx (va_Rules v)) (\<lambda>_. validate_validations rx vs)"

fun validate_nodes :: "regex \<Rightarrow> DispatchNode list \<Rightarrow> (store_error, unit) outcome" where
  "validate_nodes rx [] = Ok ()"
| "validate_nodes rx (n # ns) =
     obind (if dn_URLRewrite n \<noteq> []
            then (case Parse (dn_URLRewrite n) of Ok es \<Rightarrow> Ok () | Err er \<Rightarrow> Err (ErrExpr er) | Panic \<Rightarrow> Panic) else Ok ()) (\<lambda>_.
     obind (validate_validations rx (dn_Validations n)) (\<lambda>_. validate_nodes rx ns))"

definition ValidateAPI :: "regex \<Rightarrow> API \<Rightarrow> (store_error, unit) outcome" where
  "ValidateAPI rx v =
     (if api_Name v = [] then Err (ErrMissing ''api name'')
      else if api_URLPattern v = [] then Err (ErrMissing ''URLPattern'')
      else validate_nodes rx (api_Nodes v))"

definition NewRuntime :: "env \<Rightarrow> Plugin \<Rightarrow> (store_error, unit) outcome" where
  "NewRuntime en v = (if en_newPlugin en v then Ok () else Err ErrPluginRuntime)"

definition ValidatePlugin :: "env \<Rightarrow> Plugin \<Rightarrow> (store_error, unit) outcome" where
  "ValidatePlugin en v =
     (if pl_Name v = [] then Err (ErrMissing ''plugin name'')
      else if pl_Version v = 0 then Err (ErrMissing ''plugin version'')
      else if length (pl_Content v) = 0 then Err (ErrMissing ''plugin content'')
      else NewRuntime en v)"

subsection \<open>Identifiers\<close>

definition id_batch :: uint64 where
  "id_batch = 1000"

definition createID :: "'db etcd \<Rightarrow> uint64 \<Rightarrow> ('db, unit) sm" where
  "createID E v s =
     sbind (Commit E [CreateRevisionZero (es_idPath (fst s))] [OpPut (es_idPath (fst s)) (fmt_Uint64ToBytes v) None])
       (\<lambda>succeeded. slift (if succeeded then Ok () else Err ErrStaleOP)) s"

definition store_getID :: "'db etcd \<Rightarrow> EtcdStore \<Rightarrow> 'db \<Rightarrow> (store_error, uint64) outcome" where
  "store_getID E e db =
     obind (getValue E (es_idPath e) db) (\<lambda>v.
       if length v = 0 then Ok 0
       else case fmt_BytesToUint64 v of None \<Rightarrow> Err (ErrData (length v)) | Some n \<Rightarrow> Ok n)"

definition updateID :: "'db etcd \<Rightarrow> uint64 \<Rightarrow> uint64 \<Rightarrow> ('db, unit) sm" where
  "updateID E old v s =
     sbind (Commit E [ValueEq (es_idPath (fst s)) (fmt_Uint64ToBytes old)] [OpPut (es_idPath (fst s)) (fmt_Uint64ToBytes v) None])
       (\<lambda>succeeded. slift (if succeeded then Ok () else Err ErrStaleOP)) s"

text \<open>One round of the loop in \<^verbatim>\<open>generate\<close>; \<open>None\<close> is the \<^verbatim>\<open>continue\<close> on a stale comparison.\<close>

definition continue_stale :: "uint64 \<Rightarrow> ('db, unit) sm \<Rightarrow> ('db, uint64 option) sm" where
  "continue_stale v m s = (case m s of
      None \<Rightarrow> None
    | Some (r, s') \<Rightarrow>
        Some (case r of Ok _ \<Rightarrow> Ok (Some v) | Err er \<Rightarrow> if er = ErrStaleOP then Ok None else Err er | Panic \<Rightarrow> Panic, s'))"

definition reserve :: "'db etcd \<Rightarrow> uint64 \<Rightarrow> ('db, uint64 option) sm" where
  "reserve E v = continue_stale (v + id_batch) (if v = 0 then createID E (v + id_batch) else updateID E v (v + id_batch))"

definition generate_round :: "'db etcd \<Rightarrow> ('db, uint64 option) sm" where
  "generate_round E s = sbind (sread (store_getID E (fst s))) (reserve E) s"

partial_function (option) generate :: "'db etcd \<Rightarrow> ('db, uint64) sm" where
  "generate E s = Option.bind (generate_round E s) (\<lambda>(r, s').
     case r of
       Ok x \<Rightarrow> (case x of Some v \<Rightarrow> Some (Ok v, s') | None \<Rightarrow> generate E s')
     | Err er \<Rightarrow> Some (Err er, s')
     | Panic \<Rightarrow> Some (Panic, s'))"

definition set_end :: "uint64 \<Rightarrow> ('db, unit) sm" where
  "set_end end s = Some (Ok (), (fst s)\<lparr>es_end := end, es_base := end - id_batch\<rparr>, snd s)"

definition next_id :: "('db, uint64) sm" where
  "next_id s = Some (Ok (es_base (fst s) + 1), (fst s)\<lparr>es_base := es_base (fst s) + 1\<rparr>, snd s)"

definition allocID :: "'db etcd \<Rightarrow> ('db, uint64) sm" where
  "allocID E s =
     (if es_base (fst s) = es_end (fst s) then sbind (generate E) (\<lambda>end. sbind (set_end end) (\<lambda>_. next_id)) s
      else next_id s)"

definition SetID :: "'db etcd \<Rightarrow> uint64 \<Rightarrow> ('db, unit) sm" where
  "SetID E i s =
     sbind (Commit E [] [OpPut (es_idPath (fst s)) (fmt_Uint64ToBytes i) None]) (\<lambda>succeeded s.
       if \<not> succeeded then slift (Err ErrStaleOP) s
       else Some (Ok (), (fst s)\<lparr>es_end := 0, es_base := 0\<rparr>, snd s)) s"

subsection \<open>Putting messages\<close>

text \<open>The value with its identifier.\<close>

definition with_id :: "'db etcd \<Rightarrow> 'v pb \<Rightarrow> 'v \<Rightarrow> ('db, 'v) sm" where
  "with_id E p v = (if pb_GetID p v = 0 then sbind (allocID E) (\<lambda>i. slift (Ok (pb_SetID p i v))) else slift (Ok v))"

definition putPB :: "'db etcd \<Rightarrow> 'v pb \<Rightarrow> string \<Rightarrow> 'v \<Rightarrow> ('db, uint64) sm" where
  "putPB E p prefix v =
     sbind (with_id E p v) (\<lambda>v.
     sbind (slift (cd_Marshal (pb_codec p) v)) (\<lambda>data.
     sbind (st_put E (getKey prefix (pb_GetID p v)) data None) (\<lambda>_. slift (Ok (pb_GetID p v)))))"

definition putPBKeyWithOp :: "'v codec \<Rightarrow> string \<Rightarrow> 'v \<Rightarrow> (store_error, etcd_op) outcome" where
  "putPBKeyWithOp c key v = obind (cd_Marshal c v) (\<lambda>data. Ok (OpPut key data None))"

definition putPBWithOp :: "'db etcd \<Rightarrow> 'v pb \<Rightarrow> string \<Rightarrow> 'v \<Rightarrow> ('db, etcd_op \<times> 'v) sm" where
  "putPBWithOp E p prefix v =
     sbind (with_id E p v) (\<lambda>v.
     sbind (slift (putPBKeyWithOp (pb_codec p) (getKey prefix (pb_GetID p v)) v)) (\<lambda>x. slift (Ok (x, v))))"

subsection \<open>Binds\<close>

definition AddBind :: "'db world \<Rightarrow> Bind \<Rightarrow> ('db, unit) sm" where
  "AddBind W b s =
     sbind (slift (cd_Marshal (c_Bind (w_codecs W)) b)) (\<lambda>data. st_put (w_etcd W) (getBindKey (fst s) b) data None) s"

definition RemoveBind :: "'db world \<Rightarrow> Bind \<Rightarrow> ('db, unit) sm" where
  "RemoveBind W b s = st_delete (w_etcd W) (OpDelete (getBindKey (fst s) b)) s"

definition RemoveClusterBind :: "'db world \<Rightarrow> uint64 \<Rightarrow> ('db, unit) sm" where
  "RemoveClusterBind W i s = st_delete (w_etcd W) (OpDeletePrefix (getClusterBindPrefix (fst s) i)) s"

fun bind_servers :: "Bind codec \<Rightarrow> (string \<times> string) list \<Rightarrow> (store_error, uint64 list) outcome" where
  "bind_servers c [] = Ok []"
| "bind_servers c ((k, data) # kvs) =
     obind (cd_Unmarshal c data) (\<lambda>v. obind (bind_servers c kvs) (\<lambda>vs. Ok (bd_ServerID v # vs)))"

definition doGetBindServers :: "'db world \<Rightarrow> EtcdStore \<Rightarrow> uint64 \<Rightarrow> 'db \<Rightarrow> (store_error, uint64 list) outcome" where
  "doGetBindServers W e i db =
     obind (et_Get (w_etcd W) (getClusterBindPrefix e i) WithPrefix db) (\<lambda>kvs. bind_servers (c_Bind (w_codecs W)) kvs)"

subsection \<open>Clusters, servers, routings\<close>

definition PutCluster :: "'db world \<Rightarrow> Cluster \<Rightarrow> ('db, uint64) sm" where
  "PutCluster W v s =
     sbind (slift (ValidateCluster v)) (\<lambda>_. putPB (w_etcd W) (cluster_pb (w_codecs W)) (es_clustersDir (fst s)) v) s"

definition RemoveCluster :: "'db world \<Rightarrow> uint64 \<Rightarrow> ('db, unit) sm" where
  "RemoveCluster W i s =
     sbind (Commit (w_etcd W) [] [OpDelete (getKey (es_clustersDir (fst s)) i), OpDeletePrefix (getClusterBindPrefix (fst s) i)])
       (\<lambda>_. slift (Ok ())) s"

definition PutServer :: "'db world \<Rightarrow> Server \<Rightarrow> ('db, uint64) sm" where
  "PutServer W v s =
     sbind (slift (ValidateServer v)) (\<lambda>_. putPB (w_etcd W) (server_pb (w_codecs W)) (es_serversDir (fst s)) v) s"

definition RemoveServer :: "'db world \<Rightarrow> uint64 \<Rightarrow> ('db, unit) sm" where
  "RemoveServer W i s = st_delete (w_etcd W) (OpDelete (getKey (es_serversDir (fst s)) i)) s"

definition PutRouting :: "'db world \<Rightarrow> Routing \<Rightarrow> ('db, uint64) sm" where
  "PutRouting W v s =
     sbind (slift (ValidateRouting v)) (\<lambda>_. putPB (w_etcd W) (routing_pb (w_codecs W)) (es_routingsDir (fst s)) v) s"

definition RemoveRouting :: "'db world \<Rightarrow> uint64 \<Rightarrow> ('db, unit) sm" where
  "RemoveRouting W i s = st_delete (w_etcd W) (OpDelete (getKey (es_routingsDir (fst s)) i)) s"

subsection \<open>APIs\<close>

text \<open>The callback of \<^verbatim>\<open>PutAPI\<close>: the other APIs that are up enter the route table, errors are dropped.\<close>

fun add_others :: "env \<Rightarrow> API \<Rightarrow> API list \<Rightarrow> Route \<Rightarrow> (store_error, Route) outcome" where
  "add_others en value [] rt = Ok rt"
| "add_others en value (v # vs) rt =
     (if api_ID v \<noteq> api_ID value \<and> api_Status v = Up
      then (case Add (en_srt en) (en_pick en) v rt of
              Ok rt' \<Rightarrow> add_others en value vs rt' | Err er \<Rightarrow> add_others en value vs rt | Panic \<Rightarrow> Panic)
      else add_others en value vs rt)"

definition check_route :: "env \<Rightarrow> API \<Rightarrow> API list \<Rightarrow> (store_error, unit) outcome" where
  "check_route en value others =
     obind (add_others en value others NewRoute) (\<lambda>rt.
       if api_Status value = Up
       then (case Add (en_srt en) (en_pick en) value rt of Ok _ \<Rightarrow> Ok () | Err er \<Rightarrow> Err (ErrRouteAdd er) | Panic \<Rightarrow> Panic)
       else Ok ())"

definition list_apis :: "'db world \<Rightarrow> int \<Rightarrow> ('db, API list) sm" where
  "list_apis W limit s =
     (case getValues (w_etcd W) (api_pb (w_codecs W)) (es_apisDir (fst s)) limit (snd s) of
        None \<Rightarrow> None
      | Some (r, vs) \<Rightarrow> Some (if r = Panic then Panic else Ok vs, s))"

definition PutAPI :: "'db world \<Rightarrow> API \<Rightarrow> ('db, uint64) sm" where
  "PutAPI W v s =
     sbind (slift (ValidateAPI (en_rx (w_env W)) v)) (\<lambda>_.
     sbind (list_apis W 64) (\<lambda>others.
     sbind (slift (check_route (w_env W) v others)) (\<lambda>_.
       putPB (w_etcd W) (api_pb (w_codecs W)) (es_apisDir (fst s)) v))) s"

definition RemoveAPI :: "'db world \<Rightarrow> uint64 \<Rightarrow> ('db, unit) sm" where
  "RemoveAPI W i s = st_delete (w_etcd W) (OpDelete (getKey (es_apisDir (fst s)) i)) s"

subsection \<open>Plugins\<close>

definition NowWithMillisecond :: "env \<Rightarrow> int" where
  "NowWithMillisecond en = en_now en sdiv 1000000"

definition PutPlugin :: "'db world \<Rightarrow> Plugin \<Rightarrow> ('db, uint64) sm" where
  "PutPlugin W v s =
     sbind (slift (ValidatePlugin (w_env W) v)) (\<lambda>_.
       putPB (w_etcd W) (plugin_pb (w_codecs W)) (es_pluginsDir (fst s)) (v\<lparr>pl_UpdateAt := NowWithMillisecond (w_env W)\<rparr>)) s"

definition doGetAppliedPlugins :: "'db world \<Rightarrow> EtcdStore \<Rightarrow> 'db \<Rightarrow> (store_error, uint64 list) outcome" where
  "doGetAppliedPlugins W e db = getPBWithKey (w_etcd W) (c_Applied (w_codecs W)) (es_appliedPluginDir e) [] True db"

definition RemovePlugin :: "'db world \<Rightarrow> uint64 \<Rightarrow> ('db, unit) sm" where
  "RemovePlugin W i s =
     sbind (sread (doGetAppliedPlugins W (fst s))) (\<lambda>applied.
       if i \<in> set applied then slift (Err (ErrPluginApplied i))
       else st_delete (w_etcd W) (OpDelete (getKey (es_pluginsDir (fst s)) i))) s"

definition ApplyPlugins :: "'db world \<Rightarrow> uint64 list \<Rightarrow> ('db, unit) sm" where
  "ApplyPlugins W v s =
     sbind (slift (cd_Marshal (c_Applied (w_codecs W)) v)) (\<lambda>data. st_put (w_etcd W) (es_appliedPluginDir (fst s)) data None) s"

subsection \<open>Reading\<close>

definition zero_cluster :: Cluster where
  "zero_cluster = \<lparr>cl_ID = 0, cl_Name = [], cl_LoadBalance = RoundRobin\<rparr>"

definition zero_server :: Server where
  "zero_server = \<lparr>sv_ID = 0, sv_Addr = [], sv_Protocol = HTTP, sv_MaxQPS = 0, sv_HeathCheck = None, sv_CircuitBreaker = None,
     sv_Weight = 0, sv_RateLimitOption = Wait\<rparr>"

definition zero_routing :: Routing where
  "zero_routing = \<lparr>rg_ID = 0, rg_ClusterID = 0, rg_Conditions = [], rg_Strategy = Copy, rg_TrafficRate = 0, rg_Status = Down,
     rg_API = 0, rg_Name = []\<rparr>"

definition zero_plugin :: Plugin where
  "zero_plugin = \<lparr>pl_ID = 0, pl_Name = [], pl_Author = [], pl_Email = [], pl_Status = Down, pl_UpdateAt = 0, pl_Version = 0,
     pl_Content = [], pl_Cfg = []\<rparr>"

definition zero_proxy :: Proxy where
  "zero_proxy = \<lparr>px_Addr = [], px_AddrRPC = []\<rparr>"

definition GetCluster :: "'db world \<Rightarrow> EtcdStore \<Rightarrow> uint64 \<Rightarrow> 'db \<Rightarrow> (store_error, Cluster) outcome" where
  "GetCluster W e i db = getPB (w_etcd W) (c_Cluster (w_codecs W)) (es_clustersDir e) i zero_cluster db"

definition GetServer :: "'db world \<Rightarrow> EtcdStore \<Rightarrow> uint64 \<Rightarrow> 'db \<Rightarrow> (store_error, Server) outcome" where
  "GetServer W e i db = getPB (w_etcd W) (c_Server (w_codecs W)) (es_serversDir e) i zero_server db"

definition GetAPI :: "'db world \<Rightarrow> EtcdStore \<Rightarrow> uint64 \<Rightarrow> 'db \<Rightarrow> (store_error, API) outcome" where
  "GetAPI W e i db = getPB (w_etcd W) (c_API (w_codecs W)) (es_apisDir e) i zero_api db"

definition GetRouting :: "'db world \<Rightarrow> EtcdStore \<Rightarrow> uint64 \<Rightarrow> 'db \<Rightarrow> (store_error, Routing) outcome" where
  "GetRouting W e i db = getPB (w_etcd W) (c_Routing (w_codecs W)) (es_routingsDir e) i zero_routing db"

definition GetPlugin :: "'db world \<Rightarrow> EtcdStore \<Rightarrow> uint64 \<Rightarrow> 'db \<Rightarrow> (store_error, Plugin) outcome" where
  "GetPlugin W e i db = getPB (w_etcd W) (c_Plugin (w_codecs W)) (es_pluginsDir e) i zero_plugin db"

definition GetClusters :: "'db world \<Rightarrow> EtcdStore \<Rightarrow> int \<Rightarrow> 'db \<Rightarrow> ((store_error, unit) outcome \<times> Cluster list) option" where
  "GetClusters W e limit db = getValues (w_etcd W) (cluster_pb (w_codecs W)) (es_clustersDir e) limit db"

definition GetServers :: "'db world \<Rightarrow> EtcdStore \<Rightarrow> int \<Rightarrow> 'db \<Rightarrow> ((store_error, unit) outcome \<times> Server list) option" where
  "GetServers W e limit db = getValues (w_etcd W) (server_pb (w_codecs W)) (es_serversDir e) limit db"

definition GetAPIs :: "'db world \<Rightarrow> EtcdStore \<Rightarrow> int \<Rightarrow> 'db \<Rightarrow> ((store_error, unit) outcome \<times> API list) option" where
  "GetAPIs W e limit db = getValues (w_etcd W) (api_pb (w_codecs W)) (es_apisDir e) limit db"

definition GetRoutings :: "'db world \<Rightarrow> EtcdStore \<Rightarrow> int \<Rightarrow> 'db \<Rightarrow> ((store_error, unit) outcome \<times> Routing list) option" where
  "GetRoutings W e limit db = getValues (w_etcd W) (routing_pb (w_codecs W)) (es_routingsDir e) limit db"

definition GetPlugins :: "'db world \<Rightarrow> EtcdStore \<Rightarrow> int \<Rightarrow> 'db \<Rightarrow> ((store_error, unit) outcome \<times> Plugin list) option" where
  "GetPlugins W e limit db = getValues (w_etcd W) (plugin_pb (w_codecs W)) (es_pluginsDir e) limit db"

subsection \<open>Proxies, the whole namespace\<close>

definition RegistryProxy :: "'db world \<Rightarrow> Proxy \<Rightarrow> int \<Rightarrow> ('db, unit) sm" where
  "RegistryProxy W p ttl s =
     sbind (slift (cd_Marshal (c_Proxy (w_codecs W)) p)) (\<lambda>data.
     sbind (slift_step (et_Grant (w_etcd W) ttl)) (\<lambda>lease.
     sbind (slift_step (et_KeepAlive (w_etcd W) lease)) (\<lambda>_.
       st_put (w_etcd W) (getAddrKey (es_proxiesDir (fst s)) (px_Addr p)) data (Some lease)))) s"

definition Clean :: "'db world \<Rightarrow> ('db, unit) sm" where
  "Clean W s = st_delete (w_etcd W) (OpDeletePrefix (es_prefix (fst s))) s"

record SystemCount =
  sc_API :: int
  sc_Cluster :: int
  sc_Server :: int
  sc_Routing :: int
  sc_Plugin :: int
  sc_AppliedPlugin :: int

definition System :: "'db world \<Rightarrow> EtcdStore \<Rightarrow> 'db \<Rightarrow> (store_error, SystemCount) outcome" where
  "System W e db =
     (let cnt = (\<lambda>dir. et_Count (w_etcd W) dir db)
      in obind (cnt (es_apisDir e)) (\<lambda>a. obind (cnt (es_clustersDir e)) (\<lambda>c. obind (cnt (es_serversDir e)) (\<lambda>sv.
         obind (cnt (es_routingsDir e)) (\<lambda>r. obind (cnt (es_pluginsDir e)) (\<lambda>p.
         obind (doGetAppliedPlugins W e db) (\<lambda>applied.
           Ok \<lparr>sc_API = a, sc_Cluster = c, sc_Server = sv, sc_Routing = r, sc_Plugin = p,
               sc_AppliedPlugin = int (length applied)\<rparr>)))))))"

end
