(* ===== verification/Store_Spec.thy ===== *)
theory Store_Spec
  imports Store Dispatch_Inv
begin

text \<open>
  What the store promises: the metadata of a namespace is the configuration \<open>store_config\<close> that its keys decode to, and every
  operation changes exactly the part of it that it names.
\<close>

subsection \<open>The configuration in the store\<close>

definition table_of :: "'v codec \<Rightarrow> string \<Rightarrow> (string \<rightharpoonup> string) \<Rightarrow> (uint64 \<rightharpoonup> 'v)" where
  "table_of c dir m i = (case m (getKey dir i) of
      None \<Rightarrow> None | Some data \<Rightarrow> (case cd_Unmarshal c data of Ok v \<Rightarrow> Some v | _ \<Rightarrow> None))"

definition binds_of :: "EtcdStore \<Rightarrow> (string \<rightharpoonup> string) \<Rightarrow> (uint64 \<times> uint64) set" where
  "binds_of e m = {(c, s). m (getBindKey e \<lparr>bd_ClusterID = c, bd_ServerID = s\<rparr>) \<noteq> None}"

definition proxies_of :: "Proxy codec \<Rightarrow> string \<Rightarrow> (string \<rightharpoonup> string) \<Rightarrow> (string \<rightharpoonup> Proxy)" where
  "proxies_of c dir m a = (case m (dir @ ''/'' @ a) of
      None \<Rightarrow> None | Some data \<Rightarrow> (case cd_Unmarshal c data of Ok v \<Rightarrow> Some v | _ \<Rightarrow> None))"

definition applied_of :: "uint64 list codec \<Rightarrow> string \<Rightarrow> (string \<rightharpoonup> string) \<Rightarrow> uint64 list" where
  "applied_of c key m = (case m key of
      None \<Rightarrow> [] | Some data \<Rightarrow> if data = [] then [] else (case cd_Unmarshal c data of Ok v \<Rightarrow> v | _ \<Rightarrow> []))"

definition store_config :: "codecs \<Rightarrow> EtcdStore \<Rightarrow> (string \<rightharpoonup> string) \<Rightarrow> config" where
  "store_config C e m = \<lparr>cf_servers = table_of (c_Server C) (es_serversDir e) m, cf_clusters = table_of (c_Cluster C) (es_clustersDir e) m,
     cf_routings = table_of (c_Routing C) (es_routingsDir e) m, cf_apis = table_of (c_API C) (es_apisDir e) m,
     cf_binds = binds_of e m, cf_proxies = proxies_of (c_Proxy C) (es_proxiesDir e) m,
     cf_plugins = table_of (c_Plugin C) (es_pluginsDir e) m, cf_applied = Some (applied_of (c_Applied C) (es_appliedPluginDir e) m)\<rparr>"

subsection \<open>Well-formed stores\<close>

text \<open>A store works in the directories of its namespace.\<close>

definition ns_ok :: "EtcdStore \<Rightarrow> bool" where
  "ns_ok e \<longleftrightarrow> e = (NewEtcdStore (es_prefix e))\<lparr>es_base := es_base e, es_end := es_end e\<rparr>"

text \<open>Every key of a directory is the key of the message under it.\<close>

definition dir_ok :: "'v codec \<Rightarrow> ('v \<Rightarrow> uint64) \<Rightarrow> string \<Rightarrow> (string \<rightharpoonup> string) \<Rightarrow> bool" where
  "dir_ok c idf dir m \<longleftrightarrow> (\<forall>k data. m k = Some data \<longrightarrow> has_prefix dir k \<longrightarrow>
     data \<noteq> [] \<and> (\<exists>v. cd_Unmarshal c data = Ok v \<and> k = getKey dir (idf v) \<and> idf v \<noteq> 0))"

definition binds_dir_ok :: "Bind codec \<Rightarrow> EtcdStore \<Rightarrow> (string \<rightharpoonup> string) \<Rightarrow> bool" where
  "binds_dir_ok c e m \<longleftrightarrow> (\<forall>k data. m k = Some data \<longrightarrow> has_prefix (es_bindsDir e) k \<longrightarrow>
     (\<exists>b. cd_Unmarshal c data = Ok b \<and> k = getBindKey e b))"

definition proxies_dir_ok :: "Proxy codec \<Rightarrow> string \<Rightarrow> (string \<rightharpoonup> string) \<Rightarrow> bool" where
  "proxies_dir_ok c dir m \<longleftrightarrow> (\<forall>k data. m k = Some data \<longrightarrow> has_prefix dir k \<longrightarrow>
     data \<noteq> [] \<and> (\<exists>p. cd_Unmarshal c data = Ok p \<and> k = getAddrKey dir (px_Addr p)))"

definition applied_ok :: "uint64 list codec \<Rightarrow> string \<Rightarrow> (string \<rightharpoonup> string) \<Rightarrow> bool" where
  "applied_ok c key m \<longleftrightarrow> (\<forall>data. m key = Some data \<longrightarrow> data \<noteq> [] \<longrightarrow> (\<exists>v. cd_Unmarshal c data = Ok v))"

text \<open>The counter, zero before the first identifier; 0 is never stored, and \<open>n\<close> more blocks fit in 64 bits.\<close>

definition counter :: "EtcdStore \<Rightarrow> (string \<rightharpoonup> string) \<Rightarrow> uint64" where
  "counter e m = (case m (es_idPath e) of None \<Rightarrow> 0 | Some data \<Rightarrow> the (fmt_BytesToUint64 data))"

definition ids_ok :: "EtcdStore \<Rightarrow> (string \<rightharpoonup> string) \<Rightarrow> bool" where
  "ids_ok e m \<longleftrightarrow> (m (es_idPath e) = None \<or> (\<exists>v. m (es_idPath e) = Some (fmt_Uint64ToBytes v) \<and> v \<noteq> 0)) \<and> es_base e \<le> es_end e"

definition id_room :: "nat \<Rightarrow> EtcdStore \<Rightarrow> (string \<rightharpoonup> string) \<Rightarrow> bool" where
  "id_room n e m \<longleftrightarrow> unat (counter e m) + 1000 * n < 2 ^ 64"

definition dirs_ok :: "codecs \<Rightarrow> EtcdStore \<Rightarrow> (string \<rightharpoonup> string) \<Rightarrow> bool" where
  "dirs_ok C e m \<longleftrightarrow>
     dir_ok (c_Cluster C) cl_ID (es_clustersDir e) m \<and> dir_ok (c_Server C) sv_ID (es_serversDir e) m \<and>
     dir_ok (c_API C) api_ID (es_apisDir e) m \<and> dir_ok (c_Routing C) rg_ID (es_routingsDir e) m \<and>
     dir_ok (c_Plugin C) pl_ID (es_pluginsDir e) m \<and> binds_dir_ok (c_Bind C) e m \<and>
     proxies_dir_ok (c_Proxy C) (es_proxiesDir e) m \<and> applied_ok (c_Applied C) (es_appliedPluginDir e) m"

definition store_inv :: "codecs \<Rightarrow> EtcdStore \<Rightarrow> (string \<rightharpoonup> string) \<Rightarrow> bool" where
  "store_inv C e m \<longleftrightarrow> ns_ok e \<and> dirs_ok C e m \<and> ids_ok e m"

text \<open>The applied plugins may be the empty message.\<close>

definition codecs_ok :: "codecs \<Rightarrow> bool" where
  "codecs_ok C \<longleftrightarrow> codec_ok (c_Cluster C) \<and> codec_ok (c_Server C) \<and> codec_ok (c_Bind C) \<and> codec_ok (c_API C) \<and>
     codec_ok (c_Routing C) \<and> codec_ok (c_Plugin C) \<and> codec_ok (c_Proxy C) \<and>
     (\<forall>v. \<exists>s. cd_Marshal (c_Applied C) v = Ok s \<and> (s = [] \<longrightarrow> v = []) \<and> (s \<noteq> [] \<longrightarrow> cd_Unmarshal (c_Applied C) s = Ok v))"

subsection \<open>Requests\<close>

datatype request =
    ReqPutCluster Cluster | ReqRemoveCluster uint64
  | ReqPutServer Server | ReqRemoveServer uint64
  | ReqPutAPI API | ReqRemoveAPI uint64
  | ReqPutRouting Routing | ReqRemoveRouting uint64
  | ReqPutPlugin Plugin | ReqRemovePlugin uint64
  | ReqApplyPlugins "uint64 list"
  | ReqAddBind Bind | ReqRemoveBind Bind | ReqRemoveClusterBind uint64
  | ReqClean

definition no_id :: "('db, unit) sm \<Rightarrow> ('db, uint64) sm" where
  "no_id m = sbind m (\<lambda>_. slift (Ok 0))"

text \<open>The store interface as one function; operations without an identifier return 0.\<close>

fun serve_request :: "'db world \<Rightarrow> request \<Rightarrow> ('db, uint64) sm" where
  "serve_request W (ReqPutCluster v) = PutCluster W v"
| "serve_request W (ReqRemoveCluster i) = no_id (RemoveCluster W i)"
| "serve_request W (ReqPutServer v) = PutServer W v"
| "serve_request W (ReqRemoveServer i) = no_id (RemoveServer W i)"
| "serve_request W (ReqPutAPI v) = PutAPI W v"
| "serve_request W (ReqRemoveAPI i) = no_id (RemoveAPI W i)"
| "serve_request W (ReqPutRouting v) = PutRouting W v"
| "serve_request W (ReqRemoveRouting i) = no_id (RemoveRouting W i)"
| "serve_request W (ReqPutPlugin v) = PutPlugin W v"
| "serve_request W (ReqRemovePlugin i) = no_id (RemovePlugin W i)"
| "serve_request W (ReqApplyPlugins v) = no_id (ApplyPlugins W v)"
| "serve_request W (ReqAddBind b) = no_id (AddBind W b)"
| "serve_request W (ReqRemoveBind b) = no_id (RemoveBind W b)"
| "serve_request W (ReqRemoveClusterBind i) = no_id (RemoveClusterBind W i)"
| "serve_request W ReqClean = no_id (Clean W)"

text \<open>The specification: whether a request is accepted in a configuration, and its effect. A listing shows the APIs in the
  order of their identifiers; the greatest identifier is never listed.\<close>

definition listed :: "(uint64 \<rightharpoonup> 'v) \<Rightarrow> 'v list" where
  "listed t = map (the \<circ> t) (sorted_list_of_set (dom t - {endID}))"

fun request_check :: "env \<Rightarrow> request \<Rightarrow> config \<Rightarrow> (store_error, unit) outcome" where
  "request_check en (ReqPutCluster v) cf = ValidateCluster v"
| "request_check en (ReqPutServer v) cf = ValidateServer v"
| "request_check en (ReqPutRouting v) cf = ValidateRouting v"
| "request_check en (ReqPutPlugin v) cf = ValidatePlugin en v"
| "request_check en (ReqPutAPI v) cf = obind (ValidateAPI (en_rx en) v) (\<lambda>_. check_route en v (listed (cf_apis cf)))"
| "request_check en (ReqRemovePlugin i) cf = (if i \<in> set (the (cf_applied cf)) then Err (ErrPluginApplied i) else Ok ())"
| "request_check en _ cf = Ok ()"

definition empty_config :: config where
  "empty_config = \<lparr>cf_servers = Map.empty, cf_clusters = Map.empty, cf_routings = Map.empty, cf_apis = Map.empty, cf_binds = {},
     cf_proxies = Map.empty, cf_plugins = Map.empty, cf_applied = Some []\<rparr>"

fun request_effect :: "env \<Rightarrow> request \<Rightarrow> uint64 \<Rightarrow> config \<Rightarrow> config" where
  "request_effect en (ReqPutCluster v) i cf = cf\<lparr>cf_clusters := (cf_clusters cf)(i \<mapsto> v\<lparr>cl_ID := i\<rparr>)\<rparr>"
| "request_effect en (ReqPutServer v) i cf = cf\<lparr>cf_servers := (cf_servers cf)(i \<mapsto> v\<lparr>sv_ID := i\<rparr>)\<rparr>"
| "request_effect en (ReqPutRouting v) i cf = cf\<lparr>cf_routings := (cf_routings cf)(i \<mapsto> v\<lparr>rg_ID := i\<rparr>)\<rparr>"
| "request_effect en (ReqPutAPI v) i cf = cf\<lparr>cf_apis := (cf_apis cf)(i \<mapsto> v\<lparr>api_ID := i\<rparr>)\<rparr>"
| "request_effect en (ReqPutPlugin v) i cf =
     cf\<lparr>cf_plugins := (cf_plugins cf)(i \<mapsto> v\<lparr>pl_ID := i, pl_UpdateAt := NowWithMillisecond en\<rparr>)\<rparr>"
| "request_effect en (ReqRemoveCluster j) i cf =
     cf\<lparr>cf_clusters := (cf_clusters cf)(j := None), cf_binds := {x \<in> cf_binds cf. fst x \<noteq> j}\<rparr>"
| "request_effect en (ReqRemoveServer j) i cf = cf\<lparr>cf_servers := (cf_servers cf)(j := None)\<rparr>"
| "request_effect en (ReqRemoveRouting j) i cf = cf\<lparr>cf_routings := (cf_routings cf)(j := None)\<rparr>"
| "request_effect en (ReqRemoveAPI j) i cf = cf\<lparr>cf_apis := (cf_apis cf)(j := None)\<rparr>"
| "request_effect en (ReqRemovePlugin j) i cf = cf\<lparr>cf_plugins := (cf_plugins cf)(j := None)\<rparr>"
| "request_effect en (ReqApplyPlugins v) i cf = cf\<lparr>cf_applied := Some v\<rparr>"
| "request_effect en (ReqAddBind b) i cf = cf\<lparr>cf_binds := insert (bd_ClusterID b, bd_ServerID b) (cf_binds cf)\<rparr>"
| "request_effect en (ReqRemoveBind b) i cf = cf\<lparr>cf_binds := cf_binds cf - {(bd_ClusterID b, bd_ServerID b)}\<rparr>"
| "request_effect en (ReqRemoveClusterBind j) i cf = cf\<lparr>cf_binds := {x \<in> cf_binds cf. fst x \<noteq> j}\<rparr>"
| "request_effect en ReqClean i cf = empty_config"

text \<open>The identifier a put asks for, 0 for a new one; other requests have none.\<close>

fun asked_id :: "request \<Rightarrow> uint64 option" where
  "asked_id (ReqPutCluster v) = Some (cl_ID v)"
| "asked_id (ReqPutServer v) = Some (sv_ID v)"
| "asked_id (ReqPutRouting v) = Some (rg_ID v)"
| "asked_id (ReqPutAPI v) = Some (api_ID v)"
| "asked_id (ReqPutPlugin v) = Some (pl_ID v)"
| "asked_id _ = None"

definition id_given :: "request \<Rightarrow> uint64 \<Rightarrow> bool" where
  "id_given req i \<longleftrightarrow> (case asked_id req of None \<Rightarrow> i = 0 | Some a \<Rightarrow> i \<noteq> 0 \<and> (a \<noteq> 0 \<longrightarrow> i = a))"

end
