(* ===== verification/Store_Refine.thy ===== *)
theory Store_Refine
  imports Store_Spec
begin

text \<open>
  The store implements its specification: every request is served on a well-formed store, keeps it well-formed, is refused
  exactly when the specification refuses it, and otherwise has the specified effect on the configuration.
\<close>

subsection \<open>Directories do not overlap\<close>

lemma ns_dirs:
  assumes "ns_ok e"
  shows "es_clustersDir e = es_prefix e @ ''/clusters''" "es_serversDir e = es_prefix e @ ''/servers''"
    "es_bindsDir e = es_prefix e @ ''/binds''" "es_apisDir e = es_prefix e @ ''/apis''"
    "es_proxiesDir e = es_prefix e @ ''/proxies''" "es_routingsDir e = es_prefix e @ ''/routings''"
    "es_pluginsDir e = es_prefix e @ ''/plugins''" "es_appliedPluginDir e = es_prefix e @ ''/applied/plugins''"
    "es_idPath e = es_prefix e @ ''/id''"
  using assms [unfolded ns_ok_def, THEN arg_cong [where f = es_clustersDir]]
    assms [unfolded ns_ok_def, THEN arg_cong [where f = es_serversDir]]
    assms [unfolded ns_ok_def, THEN arg_cong [where f = es_bindsDir]]
    assms [unfolded ns_ok_def, THEN arg_cong [where f = es_apisDir]]
    assms [unfolded ns_ok_def, THEN arg_cong [where f = es_proxiesDir]]
    assms [unfolded ns_ok_def, THEN arg_cong [where f = es_routingsDir]]
    assms [unfolded ns_ok_def, THEN arg_cong [where f = es_pluginsDir]]
    assms [unfolded ns_ok_def, THEN arg_cong [where f = es_appliedPluginDir]]
    assms [unfolded ns_ok_def, THEN arg_cong [where f = es_idPath]]
  by (simp_all add: NewEtcdStore_def)

lemma ns_ids [simp]: "ns_ok (e\<lparr>es_base := b, es_end := x\<rparr>) \<longleftrightarrow> ns_ok e"
  by (cases e) (simp add: ns_ok_def NewEtcdStore_def)

text \<open>Two states that agree on a directory have the same metadata there.\<close>

definition agree :: "string \<Rightarrow> (string \<rightharpoonup> string) \<Rightarrow> (string \<rightharpoonup> string) \<Rightarrow> bool" where
  "agree dir m m' \<longleftrightarrow> (\<forall>k. has_prefix dir k \<longrightarrow> m' k = m k)"

lemma agree_dir_ok: "agree dir m m' \<Longrightarrow> dir_ok c idf dir m' = dir_ok c idf dir m"
  unfolding agree_def dir_ok_def by metis

lemma agree_proxies_ok: "agree dir m m' \<Longrightarrow> proxies_dir_ok c dir m' = proxies_dir_ok c dir m"
  unfolding agree_def proxies_dir_ok_def by metis

lemma agree_dirs:
  "agree dir m m' \<Longrightarrow> table_of c dir m' = table_of c dir m"
  "agree dir m m' \<Longrightarrow> dir_ok c idf dir m' = dir_ok c idf dir m"
  "agree dir m m' \<Longrightarrow> proxies_of pc dir m' = proxies_of pc dir m"
  "agree dir m m' \<Longrightarrow> proxies_dir_ok pc dir m' = proxies_dir_ok pc dir m"
  "agree dir m m' \<Longrightarrow> applied_of ac dir m' = applied_of ac dir m"
  "agree dir m m' \<Longrightarrow> applied_ok ac dir m' = applied_ok ac dir m"
  using has_prefix_self [of dir "[]"]
  by (auto simp: agree_dir_ok agree_proxies_ok) (auto simp: agree_def table_of_def proxies_of_def applied_of_def applied_ok_def fun_eq_iff)

lemma agree_binds:
  assumes "agree (es_bindsDir e) m m'"
  shows "binds_of e m' = binds_of e m" "binds_dir_ok c e m' = binds_dir_ok c e m"
proof -
  have "has_prefix (es_bindsDir e) (getBindKey e b)" for b
    by (simp add: getBindKey_def getClusterBindPrefix_def getKey_def)
  then show "binds_of e m' = binds_of e m" using assms by (simp add: agree_def binds_of_def)
  show "binds_dir_ok c e m' = binds_dir_ok c e m" using assms by (auto simp: agree_def binds_dir_ok_def)
qed

lemma agree_upd: "\<not> has_prefix dir key \<Longrightarrow> agree dir m (m(key := v))"
  by (auto simp: agree_def)

lemma agree_trans: "agree dir m m' \<Longrightarrow> agree dir m' m'' \<Longrightarrow> agree dir m m''"
  by (simp add: agree_def)

lemma agree_prefix: "\<not> has_prefix dir q \<Longrightarrow> \<not> has_prefix q dir \<Longrightarrow> agree dir m (op_effect (OpDeletePrefix q) m)"
proof -
  have "has_prefix dir q \<or> has_prefix q dir" if "has_prefix dir k" "has_prefix q k" for k
    using that by (auto simp: has_prefix_iff append_eq_append_conv2)
  then show "\<not> has_prefix dir q \<Longrightarrow> \<not> has_prefix q dir \<Longrightarrow> agree dir m (op_effect (OpDeletePrefix q) m)"
    by (auto simp: agree_def)
qed

subsection \<open>The directory that changes\<close>

lemma table_of_put: "cd_Unmarshal c data = Ok v \<Longrightarrow> table_of c dir (m(getKey dir i \<mapsto> data)) = (table_of c dir m)(i \<mapsto> v)"
  by (simp add: table_of_def fun_eq_iff)

lemma table_of_delete: "table_of c dir (m(getKey dir i := None)) = (table_of c dir m)(i := None)"
  by (simp add: table_of_def fun_eq_iff)

lemma dir_put:
  "dir_ok c idf dir m \<Longrightarrow> cd_Unmarshal c data = Ok v \<Longrightarrow> data \<noteq> [] \<Longrightarrow> idf v \<noteq> 0 \<Longrightarrow> dir_ok c idf dir (m(getKey dir (idf v) \<mapsto> data))"
  by (simp add: dir_ok_def)

lemma dir_delete: "dir_ok c idf dir m \<Longrightarrow> dir_ok c idf dir (m(k := None))"
  by (simp add: dir_ok_def)

lemma bind_eta: "\<lparr>bd_ClusterID = bd_ClusterID b, bd_ServerID = bd_ServerID b\<rparr> = (b :: Bind)"
  by (cases b) simp

lemma bind_key_eq [simp]: "getBindKey e b = getBindKey e b' \<longleftrightarrow> b = (b' :: Bind)"
  using getBindKey_inj [of e b b'] by (cases b; cases b') auto

lemma binds_put: "binds_of e (m(getBindKey e b \<mapsto> data)) = insert (bd_ClusterID b, bd_ServerID b) (binds_of e m)"
  by (cases b) (auto simp: binds_of_def)

lemma binds_delete: "binds_of e (m(getBindKey e b := None)) = binds_of e m - {(bd_ClusterID b, bd_ServerID b)}"
  by (cases b) (auto simp: binds_of_def)

lemma binds_delete_cluster:
  "binds_of e (op_effect (OpDeletePrefix (getClusterBindPrefix e i)) m) = {x \<in> binds_of e m. fst x \<noteq> i}"
  by (auto simp: binds_of_def)

lemma binds_dir_put: "binds_dir_ok c e m \<Longrightarrow> cd_Unmarshal c data = Ok b \<Longrightarrow> binds_dir_ok c e (m(getBindKey e b \<mapsto> data))"
  by (auto simp: binds_dir_ok_def)

lemma binds_dir_less: "binds_dir_ok c e m \<Longrightarrow> (\<And>k. m' k = None \<or> m' k = m k) \<Longrightarrow> binds_dir_ok c e m'"
  unfolding binds_dir_ok_def by (metis option.distinct(1))

subsection \<open>Identifiers\<close>

lemma getID_run: "etcd_ok E kv \<Longrightarrow> ids_ok e (kv db) \<Longrightarrow> store_getID E e db = Ok (counter e (kv db))"
proof -
  assume a: "etcd_ok E kv" "ids_ok e (kv db)"
  have "fmt_Uint64ToBytes v \<noteq> []" for v using Uint64ToBytes_length [of v] by (metis list.size(3) zero_neq_numeral)
  then show ?thesis
    using a by (auto simp: store_getID_def getValue_run ids_ok_def counter_def)
qed

lemma reserve_run:
  assumes "etcd_ok E kv" "ids_ok e (kv db)"
  obtains db' where "reserve E (counter e (kv db)) (e, db) = Some (Ok (Some (counter e (kv db) + id_batch)), e, db')"
    "kv db' = (kv db)(es_idPath e \<mapsto> fmt_Uint64ToBytes (counter e (kv db) + id_batch))"
proof (cases "kv db (es_idPath e)")
  case None
  then have c: "counter e (kv db) = 0" by (simp add: counter_def)
  obtain db' where "Commit E [CreateRevisionZero (es_idPath e)] [OpPut (es_idPath e) (fmt_Uint64ToBytes id_batch) None] (e, db) = Some (Ok True, e, db')"
    "kv db' = (kv db)(es_idPath e \<mapsto> fmt_Uint64ToBytes id_batch)"
    by (rule Commit_run [OF assms(1) one_op [of "OpPut (es_idPath e) (fmt_Uint64ToBytes id_batch) None"], of "[CreateRevisionZero (es_idPath e)]" e db])
      (simp add: None)
  then show thesis by (intro that [of db']) (simp_all add: reserve_def c continue_stale_def createID_def sbind_Ok slift_def)
next
  case (Some data)
  then obtain v where v: "kv db (es_idPath e) = Some (fmt_Uint64ToBytes v)" "v \<noteq> 0" using assms(2) by (auto simp: ids_ok_def)
  then have c: "counter e (kv db) = v" by (simp add: counter_def)
  obtain db' where "Commit E [ValueEq (es_idPath e) (fmt_Uint64ToBytes v)] [OpPut (es_idPath e) (fmt_Uint64ToBytes (v + id_batch)) None] (e, db) = Some (Ok True, e, db')"
    "kv db' = (kv db)(es_idPath e \<mapsto> fmt_Uint64ToBytes (v + id_batch))"
    by (rule Commit_run [OF assms(1) one_op [of "OpPut (es_idPath e) (fmt_Uint64ToBytes (v + id_batch)) None"], of "[ValueEq (es_idPath e) (fmt_Uint64ToBytes v)]" e db])
      (simp add: v)
  then show thesis using v(2) by (intro that [of db']) (simp_all add: reserve_def c continue_stale_def updateID_def sbind_Ok slift_def)
qed

lemma generate_run:
  assumes "etcd_ok E kv" "ids_ok e (kv db)"
  obtains db' where "generate E (e, db) = Some (Ok (counter e (kv db) + id_batch), e, db')"
    "kv db' = (kv db)(es_idPath e \<mapsto> fmt_Uint64ToBytes (counter e (kv db) + id_batch))"
proof -
  obtain db' where db': "reserve E (counter e (kv db)) (e, db) = Some (Ok (Some (counter e (kv db) + id_batch)), e, db')"
    "kv db' = (kv db)(es_idPath e \<mapsto> fmt_Uint64ToBytes (counter e (kv db) + id_batch))"
    by (rule reserve_run [OF assms])
  have "generate_round E (e, db) = Some (Ok (Some (counter e (kv db) + id_batch)), e, db')"
    using db'(1) getID_run [OF assms] by (simp add: generate_round_def sread_bind)
  then show thesis by (intro that [OF _ db'(2)]) (subst generate.simps, simp)
qed

lemma room_less: "id_room (Suc n) e m \<Longrightarrow> counter e m < counter e m + id_batch \<and> unat (counter e m + id_batch) = unat (counter e m) + 1000"
proof -
  assume "id_room (Suc n) e m"
  then have "unat (counter e m) + unat id_batch < 2 ^ LENGTH(64)" by (simp add: id_room_def id_batch_def)
  then have "unat (counter e m + id_batch) = unat (counter e m) + unat id_batch" by (rule unat_add_lem [THEN iffD1])
  then show ?thesis by (simp add: word_less_nat_alt id_batch_def)
qed

lemma next_id_ok: "b < x \<Longrightarrow> b + 1 \<noteq> 0 \<and> b + 1 \<le> (x :: uint64)"
  using inc_le [of b x] word_n1_ge [of x] by (metis add_eq_0_iff2 leD)

lemma allocID_run:
  assumes "etcd_ok E kv" "ids_ok e (kv db)" "id_room 1 e (kv db)"
  obtains i b x db' where "allocID E (e, db) = Some (Ok i, e\<lparr>es_base := b, es_end := x\<rparr>, db')" "i \<noteq> 0"
    "ids_ok (e\<lparr>es_base := b, es_end := x\<rparr>) (kv db')" "\<forall>k. k \<noteq> es_idPath e \<longrightarrow> kv db' k = kv db k"
proof (cases "es_base e = es_end e")
  case True
  let ?c = "counter e (kv db)"
  obtain db' where db': "generate E (e, db) = Some (Ok (?c + id_batch), e, db')"
    "kv db' = (kv db)(es_idPath e \<mapsto> fmt_Uint64ToBytes (?c + id_batch))"
    by (rule generate_run [OF assms(1,2)])
  have lt: "?c < ?c + id_batch" using room_less assms(3) by (simp add: numeral_eq_Suc)
  then have "?c + 1 \<noteq> 0" "?c + 1 \<le> ?c + id_batch" "?c + id_batch \<noteq> 0" using next_id_ok [OF lt] by auto
  then show thesis
    using db' True
    by (intro that [of "?c + 1" "?c + id_batch" "?c + 1" db'])
      (simp_all add: allocID_def sbind_Ok set_end_def next_id_def ids_ok_def)
next
  case False
  then have "es_base e < es_end e" using assms(2) by (simp add: ids_ok_def order_le_less)
  then show thesis
    using False assms(2) next_id_ok [of "es_base e" "es_end e"]
    by (intro that [of "es_base e + 1" "es_end e" "es_base e + 1" db]) (simp_all add: allocID_def next_id_def ids_ok_def)
qed

text \<open>A put writes the message with its identifier under its key, and nothing else but the counter.\<close>

definition pb_ok :: "'v pb \<Rightarrow> bool" where
  "pb_ok p \<longleftrightarrow> codec_ok (pb_codec p) \<and> (\<forall>i v. pb_GetID p (pb_SetID p i v) = i) \<and> (\<forall>v. pb_SetID p (pb_GetID p v) v = v)"

lemma putPB_run:
  assumes "etcd_ok E kv" "pb_ok p" "ids_ok e (kv db)" "pb_GetID p v = 0 \<Longrightarrow> id_room 1 e (kv db)"
    and dir: "\<And>i. getKey dir i \<noteq> es_idPath e"
  obtains i data b x db' where "putPB E p dir v (e, db) = Some (Ok i, e\<lparr>es_base := b, es_end := x\<rparr>, db')" "i \<noteq> 0"
    "pb_GetID p v \<noteq> 0 \<longrightarrow> i = pb_GetID p v" "cd_Unmarshal (pb_codec p) data = Ok (pb_SetID p i v)" "data \<noteq> []"
    "ids_ok (e\<lparr>es_base := b, es_end := x\<rparr>) (kv db')"
    "\<forall>k. k \<noteq> es_idPath e \<longrightarrow> kv db' k = ((kv db)(getKey dir i \<mapsto> data)) k"
proof -
  have lens: "pb_GetID p (pb_SetID p i v) = i" "pb_SetID p (pb_GetID p v) v = v" for i v using assms(2) by (auto simp: pb_ok_def)
  obtain i b x db1 where id: "with_id E p v (e, db) = Some (Ok (pb_SetID p i v), e\<lparr>es_base := b, es_end := x\<rparr>, db1)" "i \<noteq> 0"
    "pb_GetID p v \<noteq> 0 \<longrightarrow> i = pb_GetID p v" "ids_ok (e\<lparr>es_base := b, es_end := x\<rparr>) (kv db1)"
    "\<forall>k. k \<noteq> es_idPath e \<longrightarrow> kv db1 k = kv db k"
  proof (cases "pb_GetID p v = 0")
    case True
    obtain i b x db1 where a: "allocID E (e, db) = Some (Ok i, e\<lparr>es_base := b, es_end := x\<rparr>, db1)" "i \<noteq> 0"
      "ids_ok (e\<lparr>es_base := b, es_end := x\<rparr>) (kv db1)" "\<forall>k. k \<noteq> es_idPath e \<longrightarrow> kv db1 k = kv db k"
      by (rule allocID_run [OF assms(1,3) assms(4) [OF True]])
    show thesis
      by (rule that [of i x b db1]) (use True a in \<open>simp_all add: with_id_def sbind_Ok slift_def\<close>)
  next
    case False
    then show thesis
      using assms(3) by (intro that [of "pb_GetID p v" "es_end e" "es_base e" db]) (simp_all add: with_id_def slift_def lens)
  qed
  obtain data where data: "cd_Marshal (pb_codec p) (pb_SetID p i v) = Ok data" "cd_Unmarshal (pb_codec p) data = Ok (pb_SetID p i v)" "data \<noteq> []"
    by (rule codec_run [of "pb_codec p" "pb_SetID p i v"]) (use assms(2) in \<open>simp add: pb_ok_def\<close>)
  let ?e = "e\<lparr>es_base := b, es_end := x\<rparr>"
  obtain db' where db': "st_put E (getKey dir i) data None (?e, db1) = Some (Ok (), ?e, db')" "kv db' = (kv db1)(getKey dir i \<mapsto> data)"
    by (rule st_put_run [OF assms(1)])
  show thesis
  proof (rule that [of i x b db' data])
    show "putPB E p dir v (e, db) = Some (Ok i, ?e, db')"
      using data(1) db'(1) by (simp add: putPB_def sbind_Ok [where m = "with_id E p v", OF id(1)] lens sbind_Ok slift_def)
    show "ids_ok ?e (kv db')" using id(4) dir [of i] by (auto simp: ids_ok_def db'(2))
    show "\<forall>k. k \<noteq> es_idPath e \<longrightarrow> kv db' k = ((kv db)(getKey dir i \<mapsto> data)) k" using id(5) by (simp add: db'(2))
  qed (use id data in auto)
qed

subsection \<open>Listings\<close>

lemma sorted_list_image:
  assumes "finite S" "\<And>x y. x \<in> S \<Longrightarrow> y \<in> S \<Longrightarrow> f x < f y \<longleftrightarrow> x < (y :: 'a::linorder)"
  shows "sorted_list_of_set (f ` S) = map f (sorted_list_of_set S :: 'a list) \<and> inj_on f S"
proof -
  have inj: "inj_on f S" using assms(2) by (metis inj_onI less_irrefl linorder_neqE)
  have "sorted_wrt (<) (sorted_list_of_set S)" by (rule strict_sorted_list_of_set)
  then have "sorted_wrt (\<lambda>x y. f x < f y) (sorted_list_of_set S)"
    by (rule sorted_wrt_mono_rel [rotated]) (use assms in simp)
  then have "sorted_wrt (<) (map f (sorted_list_of_set S))" by (simp add: sorted_wrt_map)
  moreover have "set (map f (sorted_list_of_set S)) = f ` S" using assms(1) by simp
  ultimately show ?thesis using inj assms(1) by (metis finite_imageI sorted_list_of_set.idem_if_sorted_distinct strict_sorted_iff)
qed

lemma dir_range:
  assumes "dir_ok c idf dir m" "m k = Some data" "getKey dir 0 \<le> k" "k < getKey dir endID"
  shows "\<exists>v. cd_Unmarshal c data = Ok v \<and> idf v \<noteq> endID \<and> getKey dir (idf v) = k"
proof -
  have "\<exists>z. k = (dir @ ''/'') @ z"
    by (rule between_prefix [of _ "fmt020d 0" _ "fmt020d endID"]) (use assms(3,4) in \<open>simp_all add: getKey_def\<close>)
  then have "has_prefix dir k" by (auto simp: has_prefix_iff)
  then obtain v where "cd_Unmarshal c data = Ok v" "k = getKey dir (idf v)" using assms(1,2) by (auto simp: dir_ok_def)
  then show ?thesis using assms(4) by auto
qed

lemma table_dom: "dir_ok c idf dir m \<Longrightarrow> table_of c dir m i = Some v \<Longrightarrow> idf v = i \<and> i \<noteq> 0"
  by (force simp: dir_ok_def table_of_def split: option.splits outcome.splits)

lemma dir_some: "dir_ok c idf dir m \<Longrightarrow> m (getKey dir i) = Some data \<Longrightarrow> \<exists>v. cd_Unmarshal c data = Ok v \<and> table_of c dir m i = Some v"
  by (force simp: dir_ok_def table_of_def)

lemma dir_keys: "dir_ok c idf dir m \<Longrightarrow> dom (table_of c dir m) = {i. m (getKey dir i) \<noteq> None}"
  using dir_some by (fastforce simp: table_of_def split: option.splits)

lemma getValues_run:
  assumes "etcd_ok E kv" "dir_ok (pb_codec p) (pb_GetID p) dir (kv db)" "0 < limit"
  shows "getValues E p dir limit db = Some (Ok (), listed (table_of (pb_codec p) dir (kv db)))"
proof -
  let ?m = "kv db" and ?c = "pb_codec p" and ?t = "table_of (pb_codec p) dir (kv db)"
  let ?P = "\<lambda>k. getKey dir 0 \<le> k \<and> k < getKey dir endID" and ?S = "dom ?t - {endID}"
  have fin: "finite (dom ?m)" by (rule etcd_finite [OF assms(1)])
  have run: "getValues E p dir limit db = Some (Ok (), [] @ map (decoded (cd_Unmarshal ?c) \<circ> snd) (kv_entries ?m ?P))"
    unfolding getValues_def
    by (rule id_pages.loop_run [OF fin assms(3) get_range [OF assms(1,3)]]) (use dir_range [OF assms(2)] in blast)
  have max: "i < endID \<longleftrightarrow> i \<noteq> endID" for i using word_n1_ge [of i] by (auto simp: endID_def order_less_le)
  have keys: "{k \<in> dom ?m. ?P k} = getKey dir ` ?S"
  proof (intro set_eqI iffI)
    fix k assume k: "k \<in> {k \<in> dom ?m. ?P k}"
    then obtain data where "?m k = Some data" by auto
    then show "k \<in> getKey dir ` ?S" using k dir_range [OF assms(2), of k data] by (auto simp: dir_keys [OF assms(2)])
  next
    fix k assume "k \<in> getKey dir ` ?S"
    then obtain i where i: "k = getKey dir i" "?m (getKey dir i) \<noteq> None" "i \<noteq> endID" by (auto simp: dir_keys [OF assms(2)])
    then have "i < endID" using max by blast
    then show "k \<in> {k \<in> dom ?m. ?P k}" using i(2) by (simp add: i(1) domIff)
  qed
  have "finite (getKey dir ` ?S)" using fin by (simp flip: keys)
  then have "finite ?S" by (rule finite_imageD) (simp add: inj_on_def)
  then have srt: "sorted_list_of_set (getKey dir ` ?S) = map (getKey dir) (sorted_list_of_set ?S)"
    using sorted_list_image [of ?S "getKey dir"] by simp
  have "decoded (cd_Unmarshal ?c) (the (?m (getKey dir i))) = the (?t i)" if "i \<in> ?S" for i
    using that dir_some [OF assms(2), of i] by (auto simp: table_of_def decoded_def split: option.splits outcome.splits)
  then have "map (decoded (cd_Unmarshal ?c) \<circ> snd) (kv_entries ?m ?P) = listed ?t"
    using \<open>finite ?S\<close> by (simp add: kv_entries_def keys srt listed_def)
  then show ?thesis using run by simp
qed

subsection \<open>Requests\<close>

lemmas request_defs = PutCluster_def RemoveCluster_def PutServer_def RemoveServer_def PutAPI_def RemoveAPI_def PutRouting_def
  RemoveRouting_def PutPlugin_def RemovePlugin_def ApplyPlugins_def AddBind_def RemoveBind_def RemoveClusterBind_def Clean_def

lemmas pb_defs = cluster_pb_def server_pb_def api_pb_def routing_pb_def plugin_pb_def

lemma pbs_ok:
  assumes "codecs_ok C"
  shows "pb_ok (cluster_pb C)" "pb_ok (server_pb C)" "pb_ok (api_pb C)" "pb_ok (routing_pb C)" "pb_ok (plugin_pb C)"
  using assms by (simp_all add: pb_ok_def pb_defs codecs_ok_def)

lemma config_ids [simp]:
  "store_config C (e\<lparr>es_base := b, es_end := x\<rparr>) m = store_config C e m"
  "dirs_ok C (e\<lparr>es_base := b, es_end := x\<rparr>) m = dirs_ok C e m"
proof -
  have k: "getBindKey (e\<lparr>es_base := b, es_end := x\<rparr>) = getBindKey e"
    by (simp add: getBindKey_def getClusterBindPrefix_def fun_eq_iff)
  show "store_config C (e\<lparr>es_base := b, es_end := x\<rparr>) m = store_config C e m" by (simp add: store_config_def binds_of_def k)
  show "dirs_ok C (e\<lparr>es_base := b, es_end := x\<rparr>) m = dirs_ok C e m" by (simp add: dirs_ok_def binds_dir_ok_def k)
qed

text \<open>The directories of a namespace, and that no key is in two of them.\<close>

definition dir_names :: "string list" where
  "dir_names = [''/clusters'', ''/servers'', ''/binds'', ''/apis'', ''/proxies'', ''/routings'', ''/plugins'', ''/applied/plugins'']"

lemma names_apart: "list_all (\<lambda>a. list_all (\<lambda>b. a = b \<or> \<not> has_prefix a b \<and> \<not> has_prefix b a) dir_names \<and> \<not> has_prefix a ''/id'') dir_names"
  by code_simp

lemma prefix_comparable: "has_prefix a (b @ zs) \<Longrightarrow> has_prefix a b \<or> has_prefix b a"
  by (auto simp: has_prefix_iff append_eq_append_conv2)

lemma dirs_apart:
  assumes "a \<in> set dir_names"
  shows "b \<in> set dir_names \<Longrightarrow> a \<noteq> b \<Longrightarrow> \<not> has_prefix (p @ a) (p @ b @ zs)" "\<not> has_prefix (p @ a) (p @ ''/id'')"
  using names_apart assms prefix_comparable [of a b zs] by (auto simp: list_all_iff simp del: append_assoc)

definition others_agree :: "string \<Rightarrow> string \<Rightarrow> (string \<rightharpoonup> string) \<Rightarrow> (string \<rightharpoonup> string) \<Rightarrow> bool" where
  "others_agree p b m m' \<longleftrightarrow> (\<forall>a\<in>set dir_names. a \<noteq> b \<longrightarrow> agree (p @ a) m m')"

lemma others_key:
  assumes "b \<in> set dir_names" "\<forall>k. k \<noteq> p @ ''/id'' \<longrightarrow> m' k = (m((p @ b @ zs) := v)) k"
  shows "others_agree p b m m'"
  unfolding others_agree_def agree_def
proof (intro ballI impI allI)
  fix a k assume a: "a \<in> set dir_names" "a \<noteq> b" "has_prefix (p @ a) k"
  have "k \<noteq> p @ ''/id''" using dirs_apart(2) [OF a(1), of p] a(3) by blast
  moreover have "k \<noteq> p @ b @ zs" using dirs_apart(1) [OF a(1) assms(1) a(2), of p zs] a(3) by blast
  ultimately show "m' k = m k" using assms(2) by simp
qed

lemma others_prefix:
  assumes "b \<in> set dir_names" "m' = op_effect (OpDeletePrefix (p @ b @ zs)) m"
  shows "others_agree p b m m'"
  unfolding others_agree_def agree_def
proof (intro ballI impI allI)
  fix a k assume a: "a \<in> set dir_names" "a \<noteq> b" "has_prefix (p @ a) k"
  have "\<not> has_prefix (p @ b @ zs) k"
  proof
    assume "has_prefix (p @ b @ zs) k"
    then obtain ys where "k = p @ b @ zs @ ys" by (auto simp: has_prefix_iff)
    then show False using dirs_apart(1) [OF a(1) assms(1) a(2), of p "zs @ ys"] a(3) by simp
  qed
  then show "m' k = m k" by (simp add: assms(2))
qed

text \<open>What a write in directory \<open>b\<close> keeps.\<close>

lemma dir_frame:
  assumes "ns_ok e" "others_agree (es_prefix e) b m m'"
  shows "b \<noteq> ''/clusters'' \<Longrightarrow> table_of c (es_clustersDir e) m' = table_of c (es_clustersDir e) m"
    "b \<noteq> ''/servers'' \<Longrightarrow> table_of c (es_serversDir e) m' = table_of c (es_serversDir e) m"
    "b \<noteq> ''/apis'' \<Longrightarrow> table_of c (es_apisDir e) m' = table_of c (es_apisDir e) m"
    "b \<noteq> ''/routings'' \<Longrightarrow> table_of c (es_routingsDir e) m' = table_of c (es_routingsDir e) m"
    "b \<noteq> ''/plugins'' \<Longrightarrow> table_of c (es_pluginsDir e) m' = table_of c (es_pluginsDir e) m"
    "b \<noteq> ''/proxies'' \<Longrightarrow> proxies_of pc (es_proxiesDir e) m' = proxies_of pc (es_proxiesDir e) m"
    "b \<noteq> ''/applied/plugins'' \<Longrightarrow> applied_of ac (es_appliedPluginDir e) m' = applied_of ac (es_appliedPluginDir e) m"
    "b \<noteq> ''/binds'' \<Longrightarrow> binds_of e m' = binds_of e m"
  using assms(2) by (simp_all add: others_agree_def dir_names_def ns_dirs [OF assms(1)] agree_dirs agree_binds)

lemma dir_frame_ok:
  assumes "ns_ok e" "others_agree (es_prefix e) b m m'"
  shows "b \<noteq> ''/clusters'' \<Longrightarrow> dir_ok c f (es_clustersDir e) m' = dir_ok c f (es_clustersDir e) m"
    "b \<noteq> ''/servers'' \<Longrightarrow> dir_ok c f (es_serversDir e) m' = dir_ok c f (es_serversDir e) m"
    "b \<noteq> ''/apis'' \<Longrightarrow> dir_ok c f (es_apisDir e) m' = dir_ok c f (es_apisDir e) m"
    "b \<noteq> ''/routings'' \<Longrightarrow> dir_ok c f (es_routingsDir e) m' = dir_ok c f (es_routingsDir e) m"
    "b \<noteq> ''/plugins'' \<Longrightarrow> dir_ok c f (es_pluginsDir e) m' = dir_ok c f (es_pluginsDir e) m"
    "b \<noteq> ''/proxies'' \<Longrightarrow> proxies_dir_ok pc (es_proxiesDir e) m' = proxies_dir_ok pc (es_proxiesDir e) m"
    "b \<noteq> ''/applied/plugins'' \<Longrightarrow> applied_ok ac (es_appliedPluginDir e) m' = applied_ok ac (es_appliedPluginDir e) m"
    "b \<noteq> ''/binds'' \<Longrightarrow> binds_dir_ok bc e m' = binds_dir_ok bc e m"
  using assms(2) by (simp_all add: others_agree_def dir_names_def ns_dirs [OF assms(1)] agree_dirs agree_binds)

end
