(* ===== verification/Store_Demo.thy ===== *)
theory Store_Demo
  imports Store_Spec Dispatch_Refine "HOL-Library.Countable"
begin

text \<open>
  Instances of the parameters of the store: etcd as a list of pairs, and a codec for every message. A message is a
  finite tree of numbers and strings, so its type is countable; the codec writes the decimal digits of its number.
\<close>

subsection \<open>etcd\<close>

definition demo_entries :: "(string \<Rightarrow> bool) \<Rightarrow> (string \<times> string) list \<Rightarrow> (string \<times> string) list" where
  "demo_entries P db = map (\<lambda>k. (k, the (map_of db k))) (sort (remdups (filter P (map fst db))))"

fun demo_op :: "etcd_op \<Rightarrow> (string \<times> string) list \<Rightarrow> (string \<times> string) list" where
  "demo_op (OpPut k v lease) db = (k, v) # db"
| "demo_op (OpDelete k) db = filter (\<lambda>x. fst x \<noteq> k) db"
| "demo_op (OpDeletePrefix p) db = filter (\<lambda>x. \<not> has_prefix p (fst x)) db"

definition demo_etcd :: "(string \<times> string) list etcd" where
  "demo_etcd = \<lparr>
     et_Get = (\<lambda>k opt db. Ok (case opt of GetKey \<Rightarrow> demo_entries (\<lambda>x. x = k) db | WithPrefix \<Rightarrow> demo_entries (has_prefix k) db
       | WithRangeLimit end n \<Rightarrow> (if n = 0 then id else take (nat n)) (demo_entries (\<lambda>x. k \<le> x \<and> x < end) db))),
     et_Count = (\<lambda>k db. Ok (int (length (demo_entries (has_prefix k) db)))),
     et_Commit = (\<lambda>cs ops db. let b = list_all (cmp_holds (map_of db)) cs in (Ok b, if b then fold demo_op ops db else db)),
     et_Grant = (\<lambda>ttl db. (Ok 1, db)),
     et_KeepAlive = (\<lambda>lease db. (Ok (), db))\<rparr>"

lemma demo_entries_eq: "demo_entries P db = kv_entries (map_of db) P"
proof -
  have "sort (remdups (filter P (map fst db))) = sorted_list_of_set (set (filter P (map fst db)))"
    by (simp only: sorted_list_of_set_sort_remdups)
  moreover have "set (filter P (map fst db)) = {k \<in> dom (map_of db). P k}" by (auto simp: dom_map_of_conv_image_fst)
  ultimately show ?thesis by (simp add: demo_entries_def kv_entries_def)
qed

lemma demo_op_effect: "map_of (demo_op x db) = op_effect x (map_of db)"
proof (cases x)
  case (OpDelete k)
  then show ?thesis by (induction db) (auto simp: fun_eq_iff)
next
  case (OpDeletePrefix p)
  then show ?thesis by (induction db) (auto simp: fun_eq_iff)
qed simp

lemma demo_ops_effect: "map_of (fold demo_op ops db) = fold op_effect ops (map_of db)"
  by (induction ops arbitrary: db) (simp_all add: demo_op_effect)

lemma demo_etcd_ok: "etcd_ok demo_etcd map_of"
proof -
  have "int (length (demo_entries P db)) = int (card {k \<in> dom (map_of db). P k})" for P and db :: "(string \<times> string) list"
    by (simp add: demo_entries_eq kv_entries_def finite_dom_map_of)
  then show ?thesis
    by (simp add: etcd_ok_def commit_ok_def demo_etcd_def demo_entries_eq finite_dom_map_of demo_ops_effect Let_def)
qed

subsection \<open>Countable messages\<close>

instance word :: (len) countable
  by (rule countable_classI [of unat]) (rule word_unat_eq_iff [THEN iffD2])

instance Status :: countable
  by countable_datatype

instance CircuitStatus :: countable
  by countable_datatype

instance LoadBalance :: countable
  by countable_datatype

instance Protocol :: countable
  by countable_datatype

instance Source :: countable
  by countable_datatype

instance RuleType :: countable
  by countable_datatype

instance CMP :: countable
  by countable_datatype

instance RoutingStrategy :: countable
  by countable_datatype

instance MatchRule :: countable
  by countable_datatype

instance HostType :: countable
  by countable_datatype

instance RateLimitOption :: countable
  by countable_datatype

instance Proxy_ext :: (countable) countable
  by (rule countable_classI [of "\<lambda>r. to_nat (px_Addr r, px_AddrRPC r, Proxy.more r)"]) simp

instance Cluster_ext :: (countable) countable
  by (rule countable_classI [of "\<lambda>r. to_nat (cl_ID r, cl_Name r, cl_LoadBalance r, Cluster.more r)"]) simp

instance HeathCheck_ext :: (countable) countable
  by (rule countable_classI [of "\<lambda>r. to_nat (hc_Path r, hc_Body r, hc_CheckInterval r, hc_Timeout r, HeathCheck.more r)"]) simp

instance CircuitBreaker_ext :: (countable) countable
  by (rule countable_classI [of "\<lambda>r. to_nat (cb_CloseTimeout r, cb_HalfTrafficRate r, cb_RateCheckPeriod r, cb_FailureRateToClose r, cb_SucceedRateToOpen r, CircuitBreaker.more r)"]) simp

instance Server_ext :: (countable) countable
  by (rule countable_classI [of "\<lambda>r. to_nat (sv_ID r, sv_Addr r, sv_Protocol r, sv_MaxQPS r, sv_HeathCheck r, sv_CircuitBreaker r, sv_Weight r, sv_RateLimitOption r, Server.more r)"]) simp

instance Bind_ext :: (countable) countable
  by (rule countable_classI [of "\<lambda>r. to_nat (bd_ClusterID r, bd_ServerID r, Bind.more r)"]) simp

instance PairValue_ext :: (countable) countable
  by (rule countable_classI [of "\<lambda>r. to_nat (pv_Name r, pv_Value r, PairValue.more r)"]) simp

instance IPAccessControl_ext :: (countable) countable
  by (rule countable_classI [of "\<lambda>r. to_nat (ac_Whitelist r, ac_Blacklist r, IPAccessControl.more r)"]) simp

instance HTTPResult_ext :: (countable) countable
  by (rule countable_classI [of "\<lambda>r. to_nat (hr_Body r, hr_Headers r, hr_Cookies r, hr_Code r, HTTPResult.more r)"]) simp

instance Parameter_ext :: (countable) countable
  by (rule countable_classI [of "\<lambda>r. to_nat (pa_Name r, pa_Source r, pa_Index r, Parameter.more r)"]) simp

instance ValidationRule_ext :: (countable) countable
  by (rule countable_classI [of "\<lambda>r. to_nat (vr_RuleType r, vr_Expression r, ValidationRule.more r)"]) simp

instance Validation_ext :: (countable) countable
  by (rule countable_classI [of "\<lambda>r. to_nat (va_Parameter r, va_Required r, va_Rules r, Validation.more r)"]) simp

instance RetryStrategy_ext :: (countable) countable
  by (rule countable_classI [of "\<lambda>r. to_nat (rs_Interval r, rs_MaxTimes r, rs_Codes r, RetryStrategy.more r)"]) simp

instance Condition_ext :: (countable) countable
  by (rule countable_classI [of "\<lambda>r. to_nat (co_Parameter r, co_Cmp r, co_Expect r, Condition.more r)"]) simp

instance Cache_ext :: (countable) countable
  by (rule countable_classI [of "\<lambda>r. to_nat (ca_Keys r, ca_Deadline r, ca_Conditions r, Cache.more r)"]) simp

instance DispatchNode_ext :: (countable) countable
  by (rule countable_classI [of "\<lambda>r. to_nat (dn_ClusterID r, dn_URLRewrite r, dn_AttrName r, dn_Validations r, dn_Cache r, dn_DefaultValue r, dn_UseDefault r, dn_BatchIndex r, dn_RetryStrategy r, dn_WriteTimeout r, dn_ReadTimeout r, dn_HostType r, dn_CustemHost r, DispatchNode.more r)"]) simp

instance RenderAttr_ext :: (countable) countable
  by (rule countable_classI [of "\<lambda>r. to_nat (ra_Name r, ra_ExtractExp r, RenderAttr.more r)"]) simp

instance RenderObject_ext :: (countable) countable
  by (rule countable_classI [of "\<lambda>r. to_nat (ro_Name r, ro_Attrs r, ro_FlatAttrs r, RenderObject.more r)"]) simp

instance RenderTemplate_ext :: (countable) countable
  by (rule countable_classI [of "\<lambda>r. to_nat (rt_Objects r, RenderTemplate.more r)"]) simp

instance WebSocketOptions_ext :: (countable) countable
  by (rule countable_classI [of "\<lambda>r. to_nat (ws_Origin r, WebSocketOptions.more r)"]) simp

instance TLSEmbedCert_ext :: (countable) countable
  by (rule countable_classI [of "\<lambda>r. to_nat (tc_CertData r, tc_KeyData r, TLSEmbedCert.more r)"]) simp

instance API_ext :: (countable) countable
  by (rule countable_classI [of "\<lambda>r. to_nat (api_ID r, api_Name r, api_URLPattern r, api_Method r, api_Domain r, api_Status r, api_IPAccessControl r, api_DefaultValue r, api_Nodes r, api_Perms r, api_AuthFilter r, api_RenderTemplate r, api_UseDefault r, api_MatchRule r, api_Position r, api_Tags r, api_WebSocketOptions r, api_MaxQPS r, api_CircuitBreaker r, api_RateLimitOption r, api_UseTLS r, api_TlsEmbedCert r, API.more r)"]) simp

instance Routing_ext :: (countable) countable
  by (rule countable_classI [of "\<lambda>r. to_nat (rg_ID r, rg_ClusterID r, rg_Conditions r, rg_Strategy r, rg_TrafficRate r, rg_Status r, rg_API r, rg_Name r, Routing.more r)"]) simp

instance Plugin_ext :: (countable) countable
  by (rule countable_classI [of "\<lambda>r. to_nat (pl_ID r, pl_Name r, pl_Author r, pl_Email r, pl_Status r, pl_UpdateAt r, pl_Version r, pl_Content r, pl_Cfg r, Plugin.more r)"]) simp

subsection \<open>Codecs\<close>

definition demo_codec :: "'v::countable codec" where
  "demo_codec = \<lparr>cd_Marshal = (\<lambda>v. Ok (nat_digits (to_nat v))),
     cd_Unmarshal = (\<lambda>s. case digits_val 0 s of None \<Rightarrow> Err (ErrCodec s) | Some n \<Rightarrow> Ok (from_nat (nat n)))\<rparr>"

lemma demo_codec_ok: "codec_ok demo_codec"
proof -
  have "nat_digits n \<noteq> []" for n using nat_digits_head [of n] by auto
  then show ?thesis by (simp add: codec_ok_def demo_codec_def digits_val_digits)
qed

definition demo_codecs :: codecs where
  "demo_codecs = \<lparr>c_Cluster = demo_codec, c_Server = demo_codec, c_Bind = demo_codec, c_API = demo_codec, c_Routing = demo_codec,
     c_Plugin = demo_codec, c_Applied = demo_codec, c_Proxy = demo_codec\<rparr>"

lemma demo_codecs_ok: "codecs_ok demo_codecs"
proof -
  have "codec_ok (demo_codec :: uint64 list codec)" by (rule demo_codec_ok)
  then have "\<exists>s. cd_Marshal demo_codec v = Ok s \<and> (s = [] \<longrightarrow> v = []) \<and> (s \<noteq> [] \<longrightarrow> cd_Unmarshal demo_codec s = Ok v)"
    for v :: "uint64 list" unfolding codec_ok_def by blast
  then show ?thesis by (simp add: codecs_ok_def demo_codecs_def demo_codec_ok)
qed

definition demo_world :: "(string \<times> string) list world" where
  "demo_world = \<lparr>w_etcd = demo_etcd, w_codecs = demo_codecs, w_env = demo_env\<rparr>"

lemma demo_world_ok [simp]:
  "etcd_ok (w_etcd demo_world) map_of" "codecs_ok (w_codecs demo_world)" "w_codecs demo_world = demo_codecs"
  by (simp_all add: demo_world_def demo_etcd_ok demo_codecs_ok)

text \<open>A fresh store in an empty etcd.\<close>

definition demo_store :: EtcdStore where
  "demo_store = NewEtcdStore ''/gw''"

lemma demo_store_inv: "store_inv C demo_store (map_of [])"
  by (simp add: store_inv_def demo_store_def NewEtcdStore_def ns_ok_def dirs_ok_def dir_ok_def binds_dir_ok_def proxies_dir_ok_def
      applied_ok_def ids_ok_def)

lemma demo_room: "id_room 1 demo_store (map_of [])"
  by (simp add: id_room_def counter_def)

end
