(* ===== verification/Store_Requests.thy ===== *)
theory Store_Requests
  imports Store_Refine Store_Demo
begin

text \<open>
  Every request to the store against its specification (\<^verbatim>\<open>Store_Spec\<close>), and what the listings return.
\<close>

definition served :: "'db world \<Rightarrow> ('db \<Rightarrow> (string \<rightharpoonup> string)) \<Rightarrow> request \<Rightarrow> EtcdStore \<Rightarrow> 'db \<Rightarrow> bool" where
  "served W kv req e db \<longleftrightarrow>
     (case request_check (w_env W) req (store_config (w_codecs W) e (kv db)) of
        Ok _ \<Rightarrow> \<exists>i e' db'. serve_request W req (e, db) = Some (Ok i, e', db') \<and> id_given req i \<and>
          es_prefix e' = es_prefix e \<and> store_inv (w_codecs W) e' (kv db') \<and>
          store_config (w_codecs W) e' (kv db') = request_effect (w_env W) req i (store_config (w_codecs W) e (kv db))
      | Err er \<Rightarrow> serve_request W req (e, db) = Some (Err er, e, db)
      | Panic \<Rightarrow> serve_request W req (e, db) = Some (Panic, e, db))"

lemma sbind_slift: "sbind (slift r) f s = (case r of Ok x \<Rightarrow> f x s | Err er \<Rightarrow> Some (Err er, s) | Panic \<Rightarrow> Some (Panic, s))"
  by (simp add: sbind_def slift_def)

lemma no_id_Ok: "m s = Some (Ok (), s') \<Longrightarrow> no_id m s = Some (Ok 0, s')"
  by (simp add: no_id_def sbind_Ok slift_def)

lemma servedI:
  assumes "serve_request W req (e, db) = (case request_check (w_env W) req (store_config (w_codecs W) e (kv db)) of
      Ok _ \<Rightarrow> act (e, db) | Err er \<Rightarrow> Some (Err er, e, db) | Panic \<Rightarrow> Some (Panic, e, db))"
    and "act (e, db) = Some (Ok i, e\<lparr>es_base := b, es_end := x\<rparr>, db')" "id_given req i"
    "store_inv (w_codecs W) (e\<lparr>es_base := b, es_end := x\<rparr>) (kv db')"
    "store_config (w_codecs W) e (kv db') = request_effect (w_env W) req i (store_config (w_codecs W) e (kv db))"
  shows "served W kv req e db"
  using assms by (auto simp: served_def split: outcome.splits)

lemma served_same:
  assumes "serve_request W req (e, db) = Some (Ok 0, e, db')" "asked_id req = None"
    "request_check (w_env W) req (store_config (w_codecs W) e (kv db)) = Ok ()"
    "store_inv (w_codecs W) e (kv db')"
    "store_config (w_codecs W) e (kv db') = request_effect (w_env W) req 0 (store_config (w_codecs W) e (kv db))"
  shows "served W kv req e db"
  using assms by (simp add: served_def id_given_def)

lemmas dir_frames = dir_frame dir_frame_ok

text \<open>The five kinds of messages with an identifier. A kind has a directory of its own, and a write there changes one
  table of the configuration.\<close>

locale kind =
  fixes p :: "codecs \<Rightarrow> 'v pb" and dirf :: "EtcdStore \<Rightarrow> string" and name :: string
    and upd :: "((uint64 \<rightharpoonup> 'v) \<Rightarrow> (uint64 \<rightharpoonup> 'v)) \<Rightarrow> config \<Rightarrow> config"
  assumes name: "name \<in> set dir_names"
    and dir: "ns_ok e \<Longrightarrow> dirf e = es_prefix e @ name"
    and messages: "codecs_ok C \<Longrightarrow> pb_ok (p C)"
    and own: "dirs_ok C e m \<Longrightarrow> dir_ok (pb_codec (p C)) (pb_GetID (p C)) (dirf e) m"
    and keeps: "ns_ok e \<Longrightarrow> others_agree (es_prefix e) name m m' \<Longrightarrow> dirs_ok C e m \<Longrightarrow>
      dir_ok (pb_codec (p C)) (pb_GetID (p C)) (dirf e) m' \<Longrightarrow> dirs_ok C e m'"
    and changes: "ns_ok e \<Longrightarrow> others_agree (es_prefix e) name m m' \<Longrightarrow>
      table_of (pb_codec (p C)) (dirf e) m' = f (table_of (pb_codec (p C)) (dirf e) m) \<Longrightarrow>
      store_config C e m' = upd f (store_config C e m)"
begin

lemma no_id_path: "ns_ok e \<Longrightarrow> \<not> has_prefix (dirf e) (es_idPath e)"
  using dirs_apart(2) [OF name] by (simp add: dir ns_dirs)

lemma put_run:
  assumes E: "etcd_ok E kv" "codecs_ok C" "store_inv C e (kv db)" "pb_GetID (p C) v = 0 \<Longrightarrow> id_room 1 e (kv db)"
  obtains i b x db' where "putPB E (p C) (dirf e) v (e, db) = Some (Ok i, e\<lparr>es_base := b, es_end := x\<rparr>, db')"
    "i \<noteq> 0" "pb_GetID (p C) v \<noteq> 0 \<longrightarrow> i = pb_GetID (p C) v" "store_inv C (e\<lparr>es_base := b, es_end := x\<rparr>) (kv db')"
    "store_config C e (kv db') = upd (\<lambda>t. t(i \<mapsto> pb_SetID (p C) i v)) (store_config C e (kv db))"
proof -
  have ns: "ns_ok e" and ids: "ids_ok e (kv db)" and ok: "dirs_ok C e (kv db)" using E(3) by (simp_all add: store_inv_def)
  note pb = messages [OF E(2)]
  have key: "getKey (dirf e) i \<noteq> es_idPath e" for i using no_id_path [OF ns] has_prefix_getKey [of "dirf e" i] by metis
  obtain i data b x db' where run: "putPB E (p C) (dirf e) v (e, db) = Some (Ok i, e\<lparr>es_base := b, es_end := x\<rparr>, db')" "i \<noteq> 0"
    "pb_GetID (p C) v \<noteq> 0 \<longrightarrow> i = pb_GetID (p C) v" "cd_Unmarshal (pb_codec (p C)) data = Ok (pb_SetID (p C) i v)" "data \<noteq> []"
    "ids_ok (e\<lparr>es_base := b, es_end := x\<rparr>) (kv db')"
    "\<forall>k. k \<noteq> es_idPath e \<longrightarrow> kv db' k = ((kv db)(getKey (dirf e) i \<mapsto> data)) k"
    by (rule putPB_run [OF E(1) pb ids E(4) key])
  let ?m = "(kv db)(getKey (dirf e) i \<mapsto> data)"
  have "getKey (dirf e) i = es_prefix e @ name @ ''/'' @ fmt020d i" by (simp add: getKey_def dir [OF ns])
  then have o: "others_agree (es_prefix e) name (kv db) (kv db')"
    using others_key [OF name, where zs = "''/'' @ fmt020d i" and v = "Some data"] run(7) by (simp add: ns_dirs [OF ns])
  have a: "agree (dirf e) ?m (kv db')" using run(7) no_id_path [OF ns] unfolding agree_def by metis
  have "pb_GetID (p C) (pb_SetID (p C) i v) = i" using pb by (simp add: pb_ok_def)
  then have "dirs_ok C e (kv db')"
    using keeps [OF ns o ok] own [OF ok] dir_put [of _ "pb_GetID (p C)", OF _ run(4,5), of "dirf e" "kv db"] run(2)
    by (simp add: agree_dirs(2) [OF a])
  moreover have "store_config C e (kv db') = upd (\<lambda>t. t(i \<mapsto> pb_SetID (p C) i v)) (store_config C e (kv db))"
    by (rule changes [OF ns o]) (simp add: agree_dirs(1) [OF a] table_of_put [OF run(4)])
  ultimately show thesis using run ns by (intro that [of i x b db']) (simp_all add: store_inv_def)
qed

lemma delete_map:
  assumes "store_inv C e m" and m': "m' = m(getKey (dirf e) i := None)"
  shows "store_inv C e m'" "store_config C e m' = upd (\<lambda>t. t(i := None)) (store_config C e m)"
proof -
  have ns: "ns_ok e" and ids: "ids_ok e m" and ok: "dirs_ok C e m" using assms(1) by (simp_all add: store_inv_def)
  have k: "getKey (dirf e) i = es_prefix e @ name @ ''/'' @ fmt020d i" by (simp add: getKey_def dir [OF ns])
  then have o: "others_agree (es_prefix e) name m m'"
    using others_key [OF name, where zs = "''/'' @ fmt020d i" and v = None] by (simp add: m')
  have "es_idPath e \<noteq> getKey (dirf e) i" using no_id_path [OF ns] has_prefix_getKey [of "dirf e" i] by metis
  then have "ids_ok e m'" using ids by (simp add: m' ids_ok_def)
  moreover have "dirs_ok C e m'" by (rule keeps [OF ns o ok]) (simp add: m' dir_delete [OF own [OF ok]])
  ultimately show "store_inv C e m'" using ns by (simp add: store_inv_def)
  show "store_config C e m' = upd (\<lambda>t. t(i := None)) (store_config C e m)"
    by (rule changes [OF ns o]) (simp add: m' table_of_delete)
qed

lemma put_served:
  assumes A: "etcd_ok (w_etcd W) kv" "codecs_ok (w_codecs W)" "store_inv (w_codecs W) e (kv db)"
    and room: "asked_id req = Some 0 \<Longrightarrow> id_room 1 e (kv db)" and asked: "asked_id req = Some (pb_GetID (p (w_codecs W)) v)"
    and serve: "serve_request W req (e, db) = (case request_check (w_env W) req (store_config (w_codecs W) e (kv db)) of
      Ok _ \<Rightarrow> putPB (w_etcd W) (p (w_codecs W)) (dirf e) v (e, db) | Err er \<Rightarrow> Some (Err er, e, db) | Panic \<Rightarrow> Some (Panic, e, db))"
    and eff: "\<And>i cf. request_effect (w_env W) req i cf = upd (\<lambda>t. t(i \<mapsto> pb_SetID (p (w_codecs W)) i v)) cf"
  shows "served W kv req e db"
proof -
  have r: "id_room 1 e (kv db)" if "pb_GetID (p (w_codecs W)) v = 0" using room asked that by simp
  obtain i b x db' where run: "putPB (w_etcd W) (p (w_codecs W)) (dirf e) v (e, db) = Some (Ok i, e\<lparr>es_base := b, es_end := x\<rparr>, db')"
    "i \<noteq> 0" "pb_GetID (p (w_codecs W)) v \<noteq> 0 \<longrightarrow> i = pb_GetID (p (w_codecs W)) v"
    "store_inv (w_codecs W) (e\<lparr>es_base := b, es_end := x\<rparr>) (kv db')"
    "store_config (w_codecs W) e (kv db') = upd (\<lambda>t. t(i \<mapsto> pb_SetID (p (w_codecs W)) i v)) (store_config (w_codecs W) e (kv db))"
    by (rule put_run [OF A r])
  have "id_given req i" using run(2,3) asked by (simp add: id_given_def)
  then show ?thesis
    by (intro servedI [where act = "putPB (w_etcd W) (p (w_codecs W)) (dirf e) v", OF serve run(1) _ run(4)]) (simp_all add: run(5) eff)
qed

lemma delete_served:
  assumes A: "etcd_ok (w_etcd W) kv" "store_inv (w_codecs W) e (kv db)"
    and req: "asked_id req = None" "request_check (w_env W) req (store_config (w_codecs W) e (kv db)) = Ok ()"
    and serve: "serve_request W req (e, db) = no_id (st_delete (w_etcd W) (OpDelete (getKey (dirf e) i))) (e, db)"
    and eff: "\<And>cf. request_effect (w_env W) req 0 cf = upd (\<lambda>t. t(i := None)) cf"
  shows "served W kv req e db"
proof -
  obtain db' where run: "st_delete (w_etcd W) (OpDelete (getKey (dirf e) i)) (e, db) = Some (Ok (), e, db')"
    "kv db' = op_effect (OpDelete (getKey (dirf e) i)) (kv db)" by (rule st_delete_run [OF A(1)])
  note d = delete_map [OF A(2), of "kv db'" i]
  show ?thesis
    by (rule served_same [where kv = kv and db' = db', OF _ req])
      (use serve no_id_Ok [where m = "st_delete (w_etcd W) (OpDelete (getKey (dirf e) i))", OF run(1)] run(2) d eff in simp_all)
qed

end

interpretation clusters: kind cluster_pb es_clustersDir "''/clusters''" cf_clusters_update
  by unfold_locales (erule pbs_ok ns_dirs | simp add: pb_defs dirs_ok_def store_config_def dir_frames | simp add: dir_names_def)+

interpretation servers: kind server_pb es_serversDir "''/servers''" cf_servers_update
  by unfold_locales (erule pbs_ok ns_dirs | simp add: pb_defs dirs_ok_def store_config_def dir_frames | simp add: dir_names_def)+

interpretation apis: kind api_pb es_apisDir "''/apis''" cf_apis_update
  by unfold_locales (erule pbs_ok ns_dirs | simp add: pb_defs dirs_ok_def store_config_def dir_frames | simp add: dir_names_def)+

interpretation routings: kind routing_pb es_routingsDir "''/routings''" cf_routings_update
  by unfold_locales (erule pbs_ok ns_dirs | simp add: pb_defs dirs_ok_def store_config_def dir_frames | simp add: dir_names_def)+

interpretation plugins: kind plugin_pb es_pluginsDir "''/plugins''" cf_plugins_update
  by unfold_locales (erule pbs_ok ns_dirs | simp add: pb_defs dirs_ok_def store_config_def dir_frames | simp add: dir_names_def)+

subsection \<open>Serving requests\<close>

lemma config_updates:
  "cf_clusters_update (\<lambda>t. t(i := x1)) cf = cf\<lparr>cf_clusters := (cf_clusters cf)(i := x1)\<rparr>"
  "cf_servers_update (\<lambda>t. t(i := x2)) cf = cf\<lparr>cf_servers := (cf_servers cf)(i := x2)\<rparr>"
  "cf_apis_update (\<lambda>t. t(i := x3)) cf = cf\<lparr>cf_apis := (cf_apis cf)(i := x3)\<rparr>"
  "cf_routings_update (\<lambda>t. t(i := x4)) cf = cf\<lparr>cf_routings := (cf_routings cf)(i := x4)\<rparr>"
  "cf_plugins_update (\<lambda>t. t(i := x5)) cf = cf\<lparr>cf_plugins := (cf_plugins cf)(i := x5)\<rparr>"
  by (cases cf; simp)+

lemma list_apis_run:
  assumes "etcd_ok (w_etcd W) kv" "dirs_ok (w_codecs W) e (kv db)"
  shows "list_apis W 64 (e, db) = Some (Ok (listed (cf_apis (store_config (w_codecs W) e (kv db)))), e, db)"
  using getValues_run [OF assms(1), of "api_pb (w_codecs W)" "es_apisDir e" db 64] assms(2)
  by (simp add: list_apis_def store_config_def dirs_ok_def pb_defs)

lemma pb_fields:
  "pb_GetID (cluster_pb C) = cl_ID" "pb_GetID (server_pb C) = sv_ID" "pb_GetID (api_pb C) = api_ID" "pb_GetID (routing_pb C) = rg_ID"
  "pb_GetID (plugin_pb C) = pl_ID" "pb_SetID (cluster_pb C) = (\<lambda>i v. v\<lparr>cl_ID := i\<rparr>)" "pb_SetID (server_pb C) = (\<lambda>i v. v\<lparr>sv_ID := i\<rparr>)"
  "pb_SetID (api_pb C) = (\<lambda>i v. v\<lparr>api_ID := i\<rparr>)" "pb_SetID (routing_pb C) = (\<lambda>i v. v\<lparr>rg_ID := i\<rparr>)"
  "pb_SetID (plugin_pb C) = (\<lambda>i v. v\<lparr>pl_ID := i\<rparr>)"
  by (simp_all add: pb_defs)

lemma plugin_commute: "v\<lparr>pl_ID := i, pl_UpdateAt := t\<rparr> = v\<lparr>pl_UpdateAt := t, pl_ID := i\<rparr>"
  by (cases v) simp

lemma puts_served:
  assumes A: "etcd_ok (w_etcd W) kv" "codecs_ok (w_codecs W)" "store_inv (w_codecs W) e (kv db)"
    and room: "asked_id req = Some 0 \<Longrightarrow> id_room 1 e (kv db)" and put: "asked_id req \<noteq> None"
  shows "served W kv req e db"
proof (cases req)
  case (ReqPutCluster v)
  show ?thesis by (rule clusters.put_served [OF A room, where v = v])
    (simp_all add: ReqPutCluster pb_fields config_updates PutCluster_def sbind_slift)
next
  case (ReqPutServer v)
  show ?thesis by (rule servers.put_served [OF A room, where v = v])
    (simp_all add: ReqPutServer pb_fields config_updates PutServer_def sbind_slift)
next
  case (ReqPutRouting v)
  show ?thesis by (rule routings.put_served [OF A room, where v = v])
    (simp_all add: ReqPutRouting pb_fields config_updates PutRouting_def sbind_slift)
next
  case (ReqPutPlugin v)
  show ?thesis by (rule plugins.put_served [OF A room, where v = "v\<lparr>pl_UpdateAt := NowWithMillisecond (w_env W)\<rparr>"])
    (simp_all add: plugin_commute ReqPutPlugin pb_fields config_updates PutPlugin_def sbind_slift)
next
  case (ReqPutAPI v)
  have "dirs_ok (w_codecs W) e (kv db)" using A(3) by (simp add: store_inv_def)
  note l = list_apis_run [OF A(1) this]
  have "serve_request W req (e, db) = (case request_check (w_env W) req (store_config (w_codecs W) e (kv db)) of
      Ok _ \<Rightarrow> putPB (w_etcd W) (api_pb (w_codecs W)) (es_apisDir e) v (e, db) | Err er \<Rightarrow> Some (Err er, e, db) | Panic \<Rightarrow> Some (Panic, e, db))"
    by (simp add: ReqPutAPI PutAPI_def sbind_slift sbind_Ok [where m = "list_apis W 64", OF l] split: outcome.split)
  then show ?thesis by (rule apis.put_served [OF A room, where v = v, rotated 2]) (simp_all add: ReqPutAPI pb_fields config_updates)
qed (use put in auto)

lemma RemovePlugin_served:
  assumes A: "etcd_ok (w_etcd W) kv" "codecs_ok (w_codecs W)" "store_inv (w_codecs W) e (kv db)"
  shows "served W kv (ReqRemovePlugin i) e db"
proof -
  have "applied_ok (c_Applied (w_codecs W)) (es_appliedPluginDir e) (kv db)" using A(3) by (simp add: store_inv_def dirs_ok_def)
  then have "doGetAppliedPlugins W e db = Ok (the (cf_applied (store_config (w_codecs W) e (kv db))))"
    by (auto simp: doGetAppliedPlugins_def getPBWithKey_def getValue_run [OF A(1)] store_config_def applied_of_def applied_ok_def
        split: option.splits)
  then have s: "serve_request W (ReqRemovePlugin i) (e, db) =
      (if i \<in> set (the (cf_applied (store_config (w_codecs W) e (kv db)))) then Some (Err (ErrPluginApplied i), e, db)
       else no_id (st_delete (w_etcd W) (OpDelete (getKey (es_pluginsDir e) i))) (e, db))"
    by (simp add: RemovePlugin_def no_id_def sbind_def sread_def slift_def)
  show ?thesis
  proof (cases "i \<in> set (the (cf_applied (store_config (w_codecs W) e (kv db))))")
    case True
    then show ?thesis using s by (simp add: served_def)
  next
    case False
    then show ?thesis using s by (intro plugins.delete_served [OF A(1,3), where i = i]) (simp_all add: config_updates)
  qed
qed

subsection \<open>Binds, applied plugins, the whole namespace\<close>

lemma binds_key: "ns_ok e \<Longrightarrow> getBindKey e b = es_prefix e @ ''/binds'' @ ''/'' @ fmt020d (bd_ClusterID b) @ ''/'' @ fmt020d (bd_ServerID b)"
  by (simp add: getBindKey_def getClusterBindPrefix_def getKey_def ns_dirs)

lemma binds_map:
  assumes "store_inv C e m" "others_agree (es_prefix e) ''/binds'' m m'" "m' (es_idPath e) = m (es_idPath e)"
    "binds_dir_ok (c_Bind C) e m'"
  shows "store_inv C e m'" "store_config C e m' = (store_config C e m)\<lparr>cf_binds := binds_of e m'\<rparr>"
proof -
  have ns: "ns_ok e" using assms(1) by (simp add: store_inv_def)
  show "store_inv C e m'" using assms by (simp add: store_inv_def dirs_ok_def ids_ok_def dir_frame_ok [OF ns assms(2)])
  show "store_config C e m' = (store_config C e m)\<lparr>cf_binds := binds_of e m'\<rparr>"
    by (simp add: store_config_def dir_frame [OF ns assms(2)])
qed

lemma bind_put_map:
  assumes "store_inv C e m" "m' = m(getBindKey e b := x)" "\<And>data. x = Some data \<Longrightarrow> cd_Unmarshal (c_Bind C) data = Ok b"
  shows "store_inv C e m'" "store_config C e m' = (store_config C e m)\<lparr>cf_binds := binds_of e m'\<rparr>"
proof -
  have ns: "ns_ok e" and ok: "binds_dir_ok (c_Bind C) e m" using assms(1) by (simp_all add: store_inv_def dirs_ok_def)
  have o: "others_agree (es_prefix e) ''/binds'' m m'"
    using others_key [of "''/binds''" "es_prefix e" m' m "''/'' @ fmt020d (bd_ClusterID b) @ ''/'' @ fmt020d (bd_ServerID b)" x]
    by (simp add: dir_names_def assms(2) binds_key [OF ns])
  have i: "m' (es_idPath e) = m (es_idPath e)" by (simp add: assms(2) binds_key [OF ns] ns_dirs [OF ns])
  have d: "binds_dir_ok (c_Bind C) e m'"
  proof (cases x)
    case None
    then show ?thesis using binds_dir_less [OF ok, of m'] by (simp add: assms(2))
  next
    case (Some data)
    then show ?thesis using binds_dir_put [OF ok assms(3)] by (simp add: assms(2))
  qed
  show "store_inv C e m'" "store_config C e m' = (store_config C e m)\<lparr>cf_binds := binds_of e m'\<rparr>"
    using binds_map [OF assms(1) o i d] .
qed

lemma bind_clear_map:
  assumes "store_inv C e m" "m' = op_effect (OpDeletePrefix (getClusterBindPrefix e i)) m"
  shows "store_inv C e m'" "store_config C e m' = (store_config C e m)\<lparr>cf_binds := {x \<in> cf_binds (store_config C e m). fst x \<noteq> i}\<rparr>"
proof -
  have ns: "ns_ok e" and ok: "binds_dir_ok (c_Bind C) e m" using assms(1) by (simp_all add: store_inv_def dirs_ok_def)
  have k: "getClusterBindPrefix e i = es_prefix e @ ''/binds'' @ ''/'' @ fmt020d i" by (simp add: getClusterBindPrefix_def getKey_def ns_dirs [OF ns])
  have o: "others_agree (es_prefix e) ''/binds'' m m'" using others_prefix [of "''/binds''" m' "es_prefix e" "''/'' @ fmt020d i" m]
    by (simp add: dir_names_def assms(2) k)
  have id: "m' (es_idPath e) = m (es_idPath e)" by (simp add: assms(2) k ns_dirs [OF ns])
  have d: "binds_dir_ok (c_Bind C) e m'" by (rule binds_dir_less [OF ok]) (simp add: assms(2))
  show "store_inv C e m'" using binds_map [OF assms(1) o id d] by simp
  show "store_config C e m' = (store_config C e m)\<lparr>cf_binds := {x \<in> cf_binds (store_config C e m). fst x \<noteq> i}\<rparr>"
    using binds_map(2) [OF assms(1) o id d] binds_delete_cluster [of e i m] by (simp add: store_config_def assms(2))
qed

lemma applied_map:
  assumes "store_inv C e m" "m' = m(es_appliedPluginDir e \<mapsto> data)" "applied_ok (c_Applied C) (es_appliedPluginDir e) m'"
  shows "store_inv C e m'" "store_config C e m' = (store_config C e m)\<lparr>cf_applied := Some (applied_of (c_Applied C) (es_appliedPluginDir e) m')\<rparr>"
proof -
  have ns: "ns_ok e" using assms(1) by (simp add: store_inv_def)
  have o: "others_agree (es_prefix e) ''/applied/plugins'' m m'"
    using others_key [of "''/applied/plugins''" "es_prefix e" m' m "[]" "Some data"] by (simp add: dir_names_def assms(2) ns_dirs [OF ns])
  have i: "m' (es_idPath e) = m (es_idPath e)" by (simp add: assms(2) ns_dirs [OF ns])
  show "store_inv C e m'" using assms(1,3) i by (simp add: store_inv_def dirs_ok_def ids_ok_def dir_frame_ok [OF ns o])
  show "store_config C e m' = (store_config C e m)\<lparr>cf_applied := Some (applied_of (c_Applied C) (es_appliedPluginDir e) m')\<rparr>"
    by (simp add: store_config_def dir_frame [OF ns o])
qed

lemma clean_map:
  assumes "store_inv C e m" "m' = op_effect (OpDeletePrefix (es_prefix e)) m"
  shows "store_inv C e m'" "store_config C e m' = empty_config"
proof -
  have ns: "ns_ok e" using assms(1) by (simp add: store_inv_def)
  have none: "m' (es_prefix e @ zs) = None" for zs by (simp add: assms(2))
  have np: "has_prefix (es_prefix e @ zs) k \<longleftrightarrow> (\<exists>ys. k = es_prefix e @ zs @ ys)" for zs k by (auto simp: has_prefix_iff)
  show "store_inv C e m'"
    using assms(1)
    by (auto simp: store_inv_def dirs_ok_def dir_ok_def binds_dir_ok_def proxies_dir_ok_def applied_ok_def ids_ok_def ns_dirs [OF ns] np none)
  show "store_config C e m' = empty_config"
    by (simp add: store_config_def empty_config_def table_of_def binds_of_def proxies_of_def applied_of_def getKey_def binds_key [OF ns]
        ns_dirs [OF ns] none fun_eq_iff)
qed

lemma deletes_served:
  assumes A: "etcd_ok (w_etcd W) kv" "store_inv (w_codecs W) e (kv db)"
  shows "served W kv (ReqRemoveServer i) e db" "served W kv (ReqRemoveAPI i) e db" "served W kv (ReqRemoveRouting i) e db"
proof -
  show "served W kv (ReqRemoveServer i) e db"
    by (rule servers.delete_served [OF A, where i = i]) (simp_all add: config_updates no_id_def sbind_def RemoveServer_def)
  show "served W kv (ReqRemoveAPI i) e db"
    by (rule apis.delete_served [OF A, where i = i]) (simp_all add: config_updates no_id_def sbind_def RemoveAPI_def)
  show "served W kv (ReqRemoveRouting i) e db"
    by (rule routings.delete_served [OF A, where i = i]) (simp_all add: config_updates no_id_def sbind_def RemoveRouting_def)
qed

lemma RemoveCluster_served:
  assumes A: "etcd_ok (w_etcd W) kv" "store_inv (w_codecs W) e (kv db)"
  shows "served W kv (ReqRemoveCluster i) e db"
proof -
  let ?ops = "[OpDelete (getKey (es_clustersDir e) i), OpDeletePrefix (getClusterBindPrefix e i)]"
  let ?m = "(kv db)(getKey (es_clustersDir e) i := None)"
  obtain db' where c: "Commit (w_etcd W) [] ?ops (e, db) = Some (Ok True, e, db')" "kv db' = fold op_effect ?ops (kv db)"
    by (rule Commit_run [OF A(1), of ?ops "[]" e db]) (simp_all add: ops_ok_def)
  have m: "kv db' = op_effect (OpDeletePrefix (getClusterBindPrefix e i)) ?m" using c(2) by simp
  note d = clusters.delete_map [OF A(2), of ?m i]
  note b = bind_clear_map [OF d(1) m]
  have cfg: "store_config (w_codecs W) e (kv db') = request_effect (w_env W) (ReqRemoveCluster i) 0 (store_config (w_codecs W) e (kv db))"
    using b(2) d(2) by (simp add: config_updates)
  have "RemoveCluster W i (e, db) = Some (Ok (), e, db')"
    by (simp add: RemoveCluster_def slift_def sbind_Ok [where m = "Commit (w_etcd W) [] ?ops", OF c(1)])
  then show ?thesis using b(1) by (intro served_same [OF _ _ _ _ cfg]) (simp_all add: no_id_Ok)
qed

lemma binds_served:
  assumes A: "etcd_ok (w_etcd W) kv" "codecs_ok (w_codecs W)" "store_inv (w_codecs W) e (kv db)"
  shows "served W kv (ReqAddBind b) e db" "served W kv (ReqRemoveBind b) e db" "served W kv (ReqRemoveClusterBind i) e db"
proof -
  have "codec_ok (c_Bind (w_codecs W))" using A(2) by (simp add: codecs_ok_def)
  then obtain data where data: "cd_Marshal (c_Bind (w_codecs W)) b = Ok data" "cd_Unmarshal (c_Bind (w_codecs W)) data = Ok b"
    by (rule codec_run)
  obtain db1 where p: "st_put (w_etcd W) (getBindKey e b) data None (e, db) = Some (Ok (), e, db1)" "kv db1 = (kv db)(getBindKey e b \<mapsto> data)"
    by (rule st_put_run [OF A(1)])
  note m = bind_put_map [OF A(3) p(2)]
  have "AddBind W b (e, db) = Some (Ok (), e, db1)" using p(1) by (simp add: AddBind_def sbind_slift data(1))
  then show "served W kv (ReqAddBind b) e db"
    using m data(2) by (intro served_same [where db' = db1]) (simp_all add: no_id_Ok store_config_def p(2) binds_put)
  obtain db2 where d: "st_delete (w_etcd W) (OpDelete (getBindKey e b)) (e, db) = Some (Ok (), e, db2)"
    "kv db2 = op_effect (OpDelete (getBindKey e b)) (kv db)" by (rule st_delete_run [OF A(1)])
  have m: "store_inv (w_codecs W) e (kv db2)" "store_config (w_codecs W) e (kv db2) = (store_config (w_codecs W) e (kv db))\<lparr>cf_binds := binds_of e (kv db2)\<rparr>"
    using bind_put_map [OF A(3), of "kv db2" b None] d(2) by simp_all
  have "RemoveBind W b (e, db) = Some (Ok (), e, db2)" using d(1) by (simp add: RemoveBind_def)
  then show "served W kv (ReqRemoveBind b) e db"
    using m by (intro served_same [where db' = db2]) (simp_all add: no_id_Ok store_config_def d(2) binds_delete)
  obtain db3 where d: "st_delete (w_etcd W) (OpDeletePrefix (getClusterBindPrefix e i)) (e, db) = Some (Ok (), e, db3)"
    "kv db3 = op_effect (OpDeletePrefix (getClusterBindPrefix e i)) (kv db)" by (rule st_delete_run [OF A(1)])
  have "RemoveClusterBind W i (e, db) = Some (Ok (), e, db3)" using d(1) by (simp add: RemoveClusterBind_def)
  then show "served W kv (ReqRemoveClusterBind i) e db"
    using bind_clear_map [OF A(3) d(2)] by (intro served_same [where db' = db3]) (simp_all add: no_id_Ok)
qed

lemma ApplyPlugins_served:
  assumes A: "etcd_ok (w_etcd W) kv" "codecs_ok (w_codecs W)" "store_inv (w_codecs W) e (kv db)"
  shows "served W kv (ReqApplyPlugins v) e db"
proof -
  obtain data where data: "cd_Marshal (c_Applied (w_codecs W)) v = Ok data" "data = [] \<longrightarrow> v = []"
    "data \<noteq> [] \<longrightarrow> cd_Unmarshal (c_Applied (w_codecs W)) data = Ok v" using A(2) unfolding codecs_ok_def by blast
  obtain db1 where p: "st_put (w_etcd W) (es_appliedPluginDir e) data None (e, db) = Some (Ok (), e, db1)"
    "kv db1 = (kv db)(es_appliedPluginDir e \<mapsto> data)" by (rule st_put_run [OF A(1)])
  have ok: "applied_ok (c_Applied (w_codecs W)) (es_appliedPluginDir e) (kv db1)" and v: "applied_of (c_Applied (w_codecs W)) (es_appliedPluginDir e) (kv db1) = v"
    using data(2,3) by (auto simp: applied_ok_def applied_of_def p(2))
  have "ApplyPlugins W v (e, db) = Some (Ok (), e, db1)" using p(1) by (simp add: ApplyPlugins_def sbind_slift data(1))
  then show ?thesis using applied_map [OF A(3) p(2) ok] v by (intro served_same [where db' = db1]) (simp_all add: no_id_Ok)
qed

lemma Clean_served:
  assumes A: "etcd_ok (w_etcd W) kv" "store_inv (w_codecs W) e (kv db)"
  shows "served W kv ReqClean e db"
proof -
  obtain db1 where d: "st_delete (w_etcd W) (OpDeletePrefix (es_prefix e)) (e, db) = Some (Ok (), e, db1)"
    "kv db1 = op_effect (OpDeletePrefix (es_prefix e)) (kv db)" by (rule st_delete_run [OF A(1)])
  have "Clean W (e, db) = Some (Ok (), e, db1)" using d(1) by (simp add: Clean_def)
  then show ?thesis using clean_map [OF A(2) d(2)] by (intro served_same [where db' = db1]) (simp_all add: no_id_Ok)
qed

lemma request_served:
  assumes A: "etcd_ok (w_etcd W) kv" "codecs_ok (w_codecs W)" "store_inv (w_codecs W) e (kv db)"
    and room: "asked_id req = Some 0 \<Longrightarrow> id_room 1 e (kv db)"
  shows "served W kv req e db"
proof (cases "asked_id req")
  case None
  then show ?thesis
    using deletes_served [OF A(1,3)] RemoveCluster_served [OF A(1,3)] binds_served [OF A] ApplyPlugins_served [OF A] Clean_served [OF A(1,3)]
      RemovePlugin_served [OF A] by (cases req) simp_all
next
  case (Some i)
  then show ?thesis by (intro puts_served [OF A room]) simp_all
qed

text \<open>C3 --- the metadata store. On a well-formed store every request (put, remove, bind, apply, clean) returns. A request the
  checks refuse (validation, a route that conflicts with another API, a plugin still applied) returns that error and
  changes nothing; any other one succeeds, keeps the store well-formed, and changes the configuration the store holds exactly as specified,
  under the identifier asked for or a new one that is not zero.\<close>

theorem store_refines:
  assumes "etcd_ok (w_etcd W) kv" "codecs_ok (w_codecs W)" "store_inv (w_codecs W) e (kv db)"
    and "asked_id req = Some 0 \<Longrightarrow> id_room 1 e (kv db)"
  shows "case request_check (w_env W) req (store_config (w_codecs W) e (kv db)) of
      Ok _ \<Rightarrow> \<exists>i e' db'. serve_request W req (e, db) = Some (Ok i, e', db') \<and> id_given req i \<and>
        es_prefix e' = es_prefix e \<and> store_inv (w_codecs W) e' (kv db') \<and>
        store_config (w_codecs W) e' (kv db') = request_effect (w_env W) req i (store_config (w_codecs W) e (kv db))
    | Err er \<Rightarrow> serve_request W req (e, db) = Some (Err er, e, db)
    | Panic \<Rightarrow> serve_request W req (e, db) = Some (Panic, e, db)"
  by (rule request_served [OF assms, unfolded served_def])

definition demo_web :: Cluster where
  "demo_web = \<lparr>cl_ID = 0, cl_Name = ''web'', cl_LoadBalance = RoundRobin\<rparr>"

theorem store_refines_witness:
  "\<exists>i e' db'. serve_request demo_world (ReqPutCluster demo_web) (demo_store, []) = Some (Ok i, e', db') \<and> i \<noteq> 0 \<and>
     cf_clusters (store_config demo_codecs e' (map_of db')) i = Some (demo_web\<lparr>cl_ID := i\<rparr>)"
proof -
  let ?req = "ReqPutCluster demo_web"
  have "request_check (w_env demo_world) ?req (store_config (w_codecs demo_world) demo_store (map_of [])) = Ok ()"
    by (simp add: demo_web_def ValidateCluster_def)
  then obtain i e' db' where "serve_request demo_world ?req (demo_store, []) = Some (Ok i, e', db')" "id_given ?req i"
    "store_config (w_codecs demo_world) e' (map_of db') =
      request_effect (w_env demo_world) ?req i (store_config (w_codecs demo_world) demo_store (map_of []))"
    using store_refines [OF demo_world_ok(1,2) demo_store_inv, of ?req] demo_room by (auto split: outcome.splits)
  then show ?thesis by (auto simp: id_given_def)
qed

end
