(* ===== verification/Store_Ids.thy ===== *)
theory Store_Ids
  imports Store_Requests
begin

text \<open>
  Identifiers handed out by several processes that share one etcd (\<^verbatim>\<open>allocID\<close>, \<^verbatim>\<open>generate\<close>, \<^verbatim>\<open>createID\<close>,
  \<^verbatim>\<open>updateID\<close> of \<^verbatim>\<open>store/store_etcd.go\<close>). A process reads the counter and then tries to move it by one block, comparing
  with what it read; between the two calls every other process may run. The steps are those calls.
\<close>

subsection \<open>Steps\<close>

datatype id_pc = IdIdle | IdRead uint64

record 'db id_state =
  ids_db :: 'db
  ids_store :: "nat \<Rightarrow> EtcdStore"
  ids_pc :: "nat \<Rightarrow> id_pc"
  ids_out :: "(nat \<times> uint64) list"

text \<open>\<open>step_next\<close>: an identifier from the block. \<open>step_read\<close>: the block is used up, the counter is read. \<open>step_reserve\<close>: the
  counter still had that value, a block is reserved and its first identifier handed out. \<open>step_stale\<close>: it had not, the loop
  starts again. \<open>step_other\<close>: anything else that happens in etcd leaves the counter alone.\<close>

inductive id_step :: "'db etcd \<Rightarrow> ('db \<Rightarrow> (string \<rightharpoonup> string)) \<Rightarrow> 'db id_state \<Rightarrow> 'db id_state \<Rightarrow> bool" for E kv where
  step_next: "ids_pc s p = IdIdle \<Longrightarrow> es_base (ids_store s p) \<noteq> es_end (ids_store s p) \<Longrightarrow>
    next_id (ids_store s p, ids_db s) = Some (Ok i, e', db') \<Longrightarrow>
    id_step E kv s (s\<lparr>ids_store := (ids_store s)(p := e'), ids_out := ids_out s @ [(p, i)]\<rparr>)"
| step_read: "ids_pc s p = IdIdle \<Longrightarrow> es_base (ids_store s p) = es_end (ids_store s p) \<Longrightarrow>
    store_getID E (ids_store s p) (ids_db s) = Ok v \<Longrightarrow>
    id_step E kv s (s\<lparr>ids_pc := (ids_pc s)(p := IdRead v)\<rparr>)"
| step_reserve: "ids_pc s p = IdRead v \<Longrightarrow> id_room 1 (ids_store s p) (kv (ids_db s)) \<Longrightarrow>
    reserve E v (ids_store s p, ids_db s) = Some (Ok (Some end), e1, db1) \<Longrightarrow>
    sbind (set_end end) (\<lambda>_. next_id) (e1, db1) = Some (Ok i, e', db') \<Longrightarrow>
    id_step E kv s \<lparr>ids_db = db', ids_store = (ids_store s)(p := e'), ids_pc = (ids_pc s)(p := IdIdle), ids_out = ids_out s @ [(p, i)]\<rparr>"
| step_stale: "ids_pc s p = IdRead v \<Longrightarrow> reserve E v (ids_store s p, ids_db s) = Some (Ok None, e', db') \<Longrightarrow>
    id_step E kv s (s\<lparr>ids_db := db', ids_pc := (ids_pc s)(p := IdIdle)\<rparr>)"
| step_other: "kv db' (es_idPath (ids_store s p)) = kv (ids_db s) (es_idPath (ids_store s p)) \<Longrightarrow> id_step E kv s (s\<lparr>ids_db := db'\<rparr>)"

text \<open>At first every process has a fresh store in the same namespace; the counter may have been used before.\<close>

definition id_init :: "('db \<Rightarrow> (string \<rightharpoonup> string)) \<Rightarrow> string \<Rightarrow> 'db id_state \<Rightarrow> bool" where
  "id_init kv prefix s \<longleftrightarrow> ids_store s = (\<lambda>p. NewEtcdStore prefix) \<and> ids_pc s = (\<lambda>p. IdIdle) \<and> ids_out s = [] \<and>
     ids_ok (NewEtcdStore prefix) (kv (ids_db s))"

inductive id_reach :: "'db etcd \<Rightarrow> ('db \<Rightarrow> (string \<rightharpoonup> string)) \<Rightarrow> string \<Rightarrow> 'db id_state \<Rightarrow> bool" for E kv prefix where
  id_reach_init: "id_init kv prefix s \<Longrightarrow> id_reach E kv prefix s"
| id_reach_step: "id_reach E kv prefix s \<Longrightarrow> id_step E kv s s' \<Longrightarrow> id_reach E kv prefix s'"

subsection \<open>The invariant\<close>

text \<open>Reserved blocks lie below the counter, do not overlap, and hold no identifier already handed out.\<close>

definition block :: "EtcdStore \<Rightarrow> uint64 set" where
  "block e = {i. es_base e < i \<and> i \<le> es_end e}"

definition id_inv :: "('db \<Rightarrow> (string \<rightharpoonup> string)) \<Rightarrow> string \<Rightarrow> 'db id_state \<Rightarrow> bool" where
  "id_inv kv prefix s \<longleftrightarrow>
     (\<forall>p. es_idPath (ids_store s p) = prefix @ ''/id'' \<and> ids_ok (ids_store s p) (kv (ids_db s)) \<and>
          (\<forall>i\<in>block (ids_store s p). i \<le> counter (ids_store s p) (kv (ids_db s)) \<and> i \<notin> snd ` set (ids_out s))) \<and>
     (\<forall>p q. p \<noteq> q \<longrightarrow> block (ids_store s p) \<inter> block (ids_store s q) = {}) \<and>
     distinct (map snd (ids_out s)) \<and>
     (\<forall>i\<in>snd ` set (ids_out s). i \<noteq> 0 \<and> i \<le> counter (NewEtcdStore prefix) (kv (ids_db s)))"

text \<open>A reservation succeeds only if the counter still has the value read.\<close>

lemma reserve_cases:
  assumes "etcd_ok E kv" "ids_ok e (kv db)" "reserve E v (e, db) = Some (r, e', db')"
  shows "e' = e \<and> (if v = counter e (kv db) then r = Ok (Some (v + id_batch)) \<and> kv db' = (kv db)(es_idPath e \<mapsto> fmt_Uint64ToBytes (v + id_batch))
    else r = Ok None \<and> kv db' = kv db)"
proof -
  let ?cs = "if v = 0 then [CreateRevisionZero (es_idPath e)] else [ValueEq (es_idPath e) (fmt_Uint64ToBytes v)]"
  let ?op = "OpPut (es_idPath e) (fmt_Uint64ToBytes (v + id_batch)) None"
  have holds: "list_all (cmp_holds (kv db)) ?cs \<longleftrightarrow> v = counter e (kv db)"
    using assms(2) by (auto simp: ids_ok_def counter_def)
  obtain db1 where c: "Commit E ?cs [?op] (e, db) = Some (Ok (list_all (cmp_holds (kv db)) ?cs), e, db1)"
    "kv db1 = (if list_all (cmp_holds (kv db)) ?cs then fold op_effect [?op] (kv db) else kv db)"
    by (rule Commit_run [OF assms(1) one_op])
  have "reserve E v (e, db) = Some (if v = counter e (kv db) then Ok (Some (v + id_batch)) else Ok None, e, db1)"
    using c(1) [unfolded holds]
    by (cases "v = 0") (auto simp: reserve_def continue_stale_def createID_def updateID_def sbind_Ok slift_def)
  then show ?thesis using assms(3) c(2) [unfolded holds] by auto
qed

lemma counter_path: "es_idPath e = es_idPath e' \<Longrightarrow> m (es_idPath e) = m' (es_idPath e) \<Longrightarrow> counter e m = counter e' m'"
  by (simp add: counter_def)

lemma new_path [simp]: "es_idPath (NewEtcdStore prefix) = prefix @ ''/id''"
  by (simp add: NewEtcdStore_def)

lemma id_invD:
  assumes "id_inv kv prefix s"
  shows "es_idPath (ids_store s p) = prefix @ ''/id''" "ids_ok (ids_store s p) (kv (ids_db s))"
    "i \<in> block (ids_store s p) \<Longrightarrow> i \<le> counter (NewEtcdStore prefix) (kv (ids_db s))"
    "i \<in> block (ids_store s p) \<Longrightarrow> i \<notin> snd ` set (ids_out s)"
    "p \<noteq> q \<Longrightarrow> block (ids_store s p) \<inter> block (ids_store s q) = {}"
    "distinct (map snd (ids_out s))" "i \<in> snd ` set (ids_out s) \<Longrightarrow> i \<noteq> 0 \<and> i \<le> counter (NewEtcdStore prefix) (kv (ids_db s))"
    "counter (ids_store s p) (kv (ids_db s)) = counter (NewEtcdStore prefix) (kv (ids_db s))"
proof -
  show path: "es_idPath (ids_store s p) = prefix @ ''/id''" using assms by (simp add: id_inv_def)
  show c: "counter (ids_store s p) (kv (ids_db s)) = counter (NewEtcdStore prefix) (kv (ids_db s))"
    using path by (intro counter_path) simp_all
  show "i \<in> block (ids_store s p) \<Longrightarrow> i \<le> counter (NewEtcdStore prefix) (kv (ids_db s))"
    using assms c unfolding id_inv_def by metis
qed (use assms in \<open>auto simp: id_inv_def\<close>)

lemma id_invI:
  assumes "\<And>p. es_idPath (ids_store s p) = prefix @ ''/id''" "\<And>p. ids_ok (ids_store s p) (kv (ids_db s))"
    "\<And>p i. i \<in> block (ids_store s p) \<Longrightarrow> i \<le> counter (NewEtcdStore prefix) (kv (ids_db s)) \<and> i \<notin> snd ` set (ids_out s)"
    "\<And>p q. p \<noteq> q \<Longrightarrow> block (ids_store s p) \<inter> block (ids_store s q) = {}"
    "distinct (map snd (ids_out s))" "\<And>i. i \<in> snd ` set (ids_out s) \<Longrightarrow> i \<noteq> 0 \<and> i \<le> counter (NewEtcdStore prefix) (kv (ids_db s))"
  shows "id_inv kv prefix s"
proof -
  have "counter (ids_store s p) (kv (ids_db s)) = counter (NewEtcdStore prefix) (kv (ids_db s))" for p
    using assms(1) by (intro counter_path) simp_all
  then show ?thesis using assms unfolding id_inv_def by simp
qed

text \<open>The state changes only outside the counter and the blocks.\<close>

lemma id_inv_same:
  assumes "id_inv kv prefix s" "ids_store s' = ids_store s" "ids_out s' = ids_out s"
    "kv (ids_db s') (prefix @ ''/id'') = kv (ids_db s) (prefix @ ''/id'')"
  shows "id_inv kv prefix s'"
proof -
  note d = id_invD [OF assms(1)]
  have c: "counter (NewEtcdStore prefix) (kv (ids_db s')) = counter (NewEtcdStore prefix) (kv (ids_db s))"
    using assms(4) by (intro counter_path) simp_all
  have "ids_ok (ids_store s p) (kv (ids_db s'))" for p using d(1,2) [of p] assms(4) by (simp add: ids_ok_def)
  then show ?thesis using d by (intro id_invI) (simp_all add: assms(2,3) c)
qed

lemma block_next:
  assumes "es_base e < es_end e" "e' = e\<lparr>es_base := es_base e + 1\<rparr>"
  shows "es_base e + 1 \<in> block e" "block e' = block e - {es_base e + 1}"
proof -
  have n: "es_base e + 1 \<noteq> 0" "es_base e + 1 \<le> es_end e" using next_id_ok [OF assms(1)] by auto
  have lt: "es_base e < es_base e + 1" using n(1) by (simp add: word_less_nat_alt unatSuc add.commute)
  then show "es_base e + 1 \<in> block e" using n by (simp add: block_def)
  have "es_base e + 1 < i \<longleftrightarrow> es_base e < i \<and> i \<noteq> es_base e + 1" for i
    using inc_le [of "es_base e" i] lt by (auto simp: order_less_le intro: order_trans)
  then show "block e' = block e - {es_base e + 1}" by (auto simp: block_def assms(2))
qed

text \<open>A process hands out the identifier \<open>i\<close>, which no other block holds and nobody has; its own block loses it.\<close>

lemma id_inv_hand_out:
  assumes "id_inv kv prefix s" and s': "ids_store s' = (ids_store s)(p := e')" "ids_out s' = ids_out s @ [(p, i)]"
    and e': "es_idPath e' = prefix @ ''/id''" "\<And>q. ids_ok (ids_store s' q) (kv (ids_db s'))"
    and c: "counter (NewEtcdStore prefix) (kv (ids_db s)) \<le> counter (NewEtcdStore prefix) (kv (ids_db s'))"
    and i: "i \<noteq> 0" "i \<le> counter (NewEtcdStore prefix) (kv (ids_db s'))" "i \<notin> snd ` set (ids_out s)" "i \<notin> block e'"
      "\<And>q. q \<noteq> p \<Longrightarrow> i \<notin> block (ids_store s q)"
    and b: "\<And>j. j \<in> block e' \<Longrightarrow> j \<le> counter (NewEtcdStore prefix) (kv (ids_db s')) \<and> j \<notin> snd ` set (ids_out s)"
      "\<And>q. q \<noteq> p \<Longrightarrow> block e' \<inter> block (ids_store s q) = {}"
  shows "id_inv kv prefix s'"
proof (rule id_invI)
  note d = id_invD [OF assms(1)]
  show "es_idPath (ids_store s' q) = prefix @ ''/id''" for q using d(1) e'(1) by (simp add: s')
  show "ids_ok (ids_store s' q) (kv (ids_db s'))" for q by (rule e'(2))
  show "j \<le> counter (NewEtcdStore prefix) (kv (ids_db s')) \<and> j \<notin> snd ` set (ids_out s')" if "j \<in> block (ids_store s' q)" for q j
    using that d(3,4) [of j q] b(1) [of j] i(4,5) order_trans [OF _ c] by (cases "q = p") (auto simp: s')
  show "block (ids_store s' q) \<inter> block (ids_store s' r) = {}" if "q \<noteq> r" for q r
    using that d(5) [OF that] b(2) [of q] b(2) [of r] by (auto simp: s')
  show "distinct (map snd (ids_out s'))" using d(6) i(3) by (simp add: s')
  show "j \<noteq> 0 \<and> j \<le> counter (NewEtcdStore prefix) (kv (ids_db s'))" if "j \<in> snd ` set (ids_out s')" for j
    using that d(7) [of j] i(1,2) order_trans [OF _ c] by (auto simp: s')
qed

lemma inv_next:
  assumes I: "id_inv kv prefix s" "es_base (ids_store s p) \<noteq> es_end (ids_store s p)"
    and run: "next_id (ids_store s p, ids_db s) = Some (Ok i, e', db')"
  shows "id_inv kv prefix (s\<lparr>ids_store := (ids_store s)(p := e'), ids_out := ids_out s @ [(p, i)]\<rparr>)" (is "id_inv kv prefix ?s'")
proof -
  note d = id_invD [OF I(1)]
  let ?e = "ids_store s p"
  have e': "i = es_base ?e + 1" "e' = ?e\<lparr>es_base := es_base ?e + 1\<rparr>" using run by (auto simp: next_id_def)
  have lt: "es_base ?e < es_end ?e" using I(2) d(2) [of p] by (simp add: ids_ok_def order_less_le)
  note b = block_next [OF lt e'(2)] and n = next_id_ok [OF lt]
  have ok: "ids_ok (ids_store ?s' q) (kv (ids_db ?s'))" for q
    using d(2) [of q] d(2) [of p] n by (simp add: ids_ok_def e'(2))
  show ?thesis
  proof (rule id_inv_hand_out [OF I(1), of ?s' p e' i, OF _ _ _ ok])
    show "i \<notin> block (ids_store s q)" if "q \<noteq> p" for q using d(5) [OF that] b(1) e'(1) by auto
    show "block e' \<inter> block (ids_store s q) = {}" if "q \<noteq> p" for q using d(5) [OF that] b(2) by auto
  qed (use d(1) d(3,4) [of _ p] b n e' in auto)
qed

lemma inv_reserve:
  assumes E: "etcd_ok E kv" and I: "id_inv kv prefix s" and room: "id_room 1 (ids_store s p) (kv (ids_db s))"
    and run: "reserve E v (ids_store s p, ids_db s) = Some (Ok (Some end), e1, db1)"
      "sbind (set_end end) (\<lambda>_. next_id) (e1, db1) = Some (Ok i, e', db')"
    and s': "s' = \<lparr>ids_db = db', ids_store = (ids_store s)(p := e'), ids_pc = pc, ids_out = ids_out s @ [(p, i)]\<rparr>"
  shows "id_inv kv prefix s'"
proof -
  note d = id_invD [OF I]
  let ?e = "ids_store s p" and ?c = "counter (NewEtcdStore prefix) (kv (ids_db s))"
  have v: "v = ?c" "end = ?c + id_batch" "e1 = ?e" "kv db1 = (kv (ids_db s))(prefix @ ''/id'' \<mapsto> fmt_Uint64ToBytes (?c + id_batch))"
    using reserve_cases [OF E d(2) run(1)] d(1,8) [of p] by (auto split: if_splits)
  have out: "i = ?c + 1" "e' = ?e\<lparr>es_end := ?c + id_batch, es_base := ?c + 1\<rparr>" "db' = db1"
    using run(2) v(2,3) by (auto simp: sbind_def set_end_def next_id_def)
  have lt: "?c < ?c + id_batch" using room_less [of 0 ?e "kv (ids_db s)"] room d(8) [of p] by simp
  note n = next_id_ok [OF lt]
  have c1: "?c < ?c + 1" using n by (simp add: word_less_nat_alt unatSuc add.commute)
  have cnt: "counter (NewEtcdStore prefix) (kv (ids_db s')) = ?c + id_batch" by (simp add: counter_def s' out v(4))
  have ne: "?c + id_batch \<noteq> 0" using lt by auto
  have ok: "ids_ok (ids_store s' q) (kv (ids_db s'))" for q
    using d(1,2) [of q] d(1) [of p] n ne by (auto simp: s' out v(4) ids_ok_def)
  have big: "?c < j" if "j \<in> block e' \<or> j = i" for j using that c1 by (auto simp: block_def out intro: order_less_trans)
  show ?thesis
  proof (rule id_inv_hand_out [OF I, of s' p e' i, OF _ _ _ ok])
    show "i \<notin> snd ` set (ids_out s)" using d(7) [of i] big [of i] by (metis leD)
    show "i \<notin> block (ids_store s q)" for q using d(3) [of i q] big [of i] by (metis leD)
    show "j \<le> counter (NewEtcdStore prefix) (kv (ids_db s')) \<and> j \<notin> snd ` set (ids_out s)" if "j \<in> block e'" for j
    proof
      show "j \<le> counter (NewEtcdStore prefix) (kv (ids_db s'))" using that by (simp add: cnt block_def out)
      show "j \<notin> snd ` set (ids_out s)" using that d(7) [of j] big [of j] by (metis leD)
    qed
    show "block e' \<inter> block (ids_store s q) = {}" for q
    proof -
      have "j \<notin> block (ids_store s q)" if "j \<in> block e'" for j using that d(3) [of j q] big [of j] by (metis leD)
      then show ?thesis by blast
    qed
    show "i \<notin> block e'" by (simp add: block_def out)
    show "counter (NewEtcdStore prefix) (kv (ids_db s)) \<le> counter (NewEtcdStore prefix) (kv (ids_db s'))"
      "i \<le> counter (NewEtcdStore prefix) (kv (ids_db s'))" using lt n by (simp_all add: cnt out(1))
  qed (use d(1) n in \<open>simp_all add: s' out\<close>)
qed

lemma id_step_inv:
  assumes "etcd_ok E kv" "id_step E kv s s'" "id_inv kv prefix s"
  shows "id_inv kv prefix s'"
  using assms(2)
proof (cases rule: id_step.cases)
  case (step_next p i e' db')
  then show ?thesis using inv_next [OF assms(3)] by simp
next
  case (step_read p v)
  then show ?thesis by (intro id_inv_same [OF assms(3)]) simp_all
next
  case (step_reserve p v x e1 db1 i e2 db2)
  then show ?thesis using inv_reserve [OF assms(1,3)] by blast
next
  case (step_stale p v e' db')
  have "kv db' = kv (ids_db s)"
    using reserve_cases [OF assms(1) id_invD(2) [OF assms(3)] step_stale(3)] by (auto split: if_splits)
  then show ?thesis using step_stale by (intro id_inv_same [OF assms(3)]) simp_all
next
  case (step_other db' p)
  then show ?thesis using id_invD(1) [OF assms(3), of p] by (intro id_inv_same [OF assms(3)]) simp_all
qed

lemma id_reach_inv: "id_reach E kv prefix s \<Longrightarrow> etcd_ok E kv \<Longrightarrow> id_inv kv prefix s"
proof (induction rule: id_reach.induct)
  case (id_reach_init s)
  then show ?case by (intro id_invI) (auto simp: id_init_def block_def NewEtcdStore_def)
next
  case (id_reach_step s s')
  then show ?case using id_step_inv by blast
qed

text \<open>C11 --- identifiers. However the processes that share an etcd interleave, no identifier is handed out twice and none
  is zero; and in every state that can occur, a process that asks for one while the others pause gets it, one that nobody has.\<close>

theorem ids_unique:
  assumes "etcd_ok E kv" "id_reach E kv prefix s"
  shows "distinct (map snd (ids_out s)) \<and> 0 \<notin> snd ` set (ids_out s) \<and>
    (id_room 1 (ids_store s p) (kv (ids_db s)) \<longrightarrow>
      (\<exists>i e' db'. allocID E (ids_store s p, ids_db s) = Some (Ok i, e', db') \<and> i \<noteq> 0 \<and> i \<notin> snd ` set (ids_out s)))"
proof -
  note d = id_invD [OF id_reach_inv [OF assms(2,1)]]
  let ?e = "ids_store s p" and ?c = "counter (ids_store s p) (kv (ids_db s))"
  have "\<exists>i e' db'. allocID E (?e, ids_db s) = Some (Ok i, e', db') \<and> i \<noteq> 0 \<and> i \<notin> snd ` set (ids_out s)"
    if room: "id_room 1 ?e (kv (ids_db s))"
  proof (cases "es_base ?e = es_end ?e")
    case True
    obtain db' where "generate E (?e, ids_db s) = Some (Ok (?c + id_batch), ?e, db')" by (rule generate_run [OF assms(1) d(2)])
    then have "allocID E (?e, ids_db s) = Some (Ok (?c + 1), ?e\<lparr>es_end := ?c + id_batch, es_base := ?c + 1\<rparr>, db')"
      using True by (simp add: allocID_def sbind_Ok set_end_def next_id_def)
    moreover have n: "?c + 1 \<noteq> 0" using next_id_ok [of ?c "?c + id_batch"] room_less [of 0 ?e "kv (ids_db s)"] room by simp
    then have "?c < ?c + 1" by (simp add: word_less_nat_alt unatSuc add.commute)
    then have "?c + 1 \<notin> snd ` set (ids_out s)" using d(7) [of "?c + 1"] d(8) [of p] by (metis leD)
    ultimately show ?thesis using n by blast
  next
    case False
    then have lt: "es_base ?e < es_end ?e" using d(2) [of p] by (simp add: ids_ok_def order_less_le)
    then show ?thesis
      using False block_next(1) [OF lt refl] d(4) [of "es_base ?e + 1" p] next_id_ok [OF lt] by (simp add: allocID_def next_id_def)
  qed
  then show ?thesis using d(6,7) by auto
qed

text \<open>Two processes read the counter; the first one reserves a block, the second one is late and tries again.\<close>

definition demo_ids :: "nat \<Rightarrow> (string \<times> string) list id_state" where
  "demo_ids n =
     (let e = NewEtcdStore ''/gw''; db1 = [(''/gw/id'', fmt_Uint64ToBytes 1000)]; e1 = e\<lparr>es_end := 1000, es_base := 1\<rparr>
      in [\<lparr>ids_db = [], ids_store = (\<lambda>p. e), ids_pc = (\<lambda>p. IdIdle), ids_out = []\<rparr>,
          \<lparr>ids_db = [], ids_store = (\<lambda>p. e), ids_pc = (\<lambda>p. IdIdle)(0 := IdRead 0), ids_out = []\<rparr>,
          \<lparr>ids_db = [], ids_store = (\<lambda>p. e), ids_pc = (\<lambda>p. IdIdle)(0 := IdRead 0, 1 := IdRead 0), ids_out = []\<rparr>,
          \<lparr>ids_db = db1, ids_store = (\<lambda>p. e)(0 := e1), ids_pc = (\<lambda>p. IdIdle)(1 := IdRead 0), ids_out = [(0, 1)]\<rparr>,
          \<lparr>ids_db = db1, ids_store = (\<lambda>p. e)(0 := e1), ids_pc = (\<lambda>p. IdIdle), ids_out = [(0, 1)]\<rparr>] ! n)"

lemma demo_reserve:
  "reserve demo_etcd 0 (NewEtcdStore ''/gw'', []) = Some (Ok (Some 1000), NewEtcdStore ''/gw'', [(''/gw/id'', fmt_Uint64ToBytes 1000)])"
  "reserve demo_etcd 0 (NewEtcdStore ''/gw'', [(''/gw/id'', fmt_Uint64ToBytes 1000)]) =
     Some (Ok None, NewEtcdStore ''/gw'', [(''/gw/id'', fmt_Uint64ToBytes 1000)])"
  "store_getID demo_etcd (NewEtcdStore ''/gw'') [] = Ok 0"
  by (simp_all add: reserve_def continue_stale_def createID_def sbind_def slift_def Commit_def slift_step_def demo_etcd_def NewEtcdStore_def
      id_batch_def store_getID_def getValue_def demo_entries_def)

lemma demo_steps:
  "id_step demo_etcd map_of (demo_ids 0) (demo_ids 1)" "id_step demo_etcd map_of (demo_ids 1) (demo_ids 2)"
  "id_step demo_etcd map_of (demo_ids 2) (demo_ids 3)" "id_step demo_etcd map_of (demo_ids 3) (demo_ids 4)"
proof -
  have pc: "(\<lambda>p. IdIdle)(0 := IdIdle, Suc 0 := IdRead 0) = (\<lambda>p. IdIdle)(Suc 0 := IdRead 0)"
    "(\<lambda>p. IdIdle)(Suc 0 := IdRead 0, 0 := IdIdle) = (\<lambda>p. IdIdle)(Suc 0 := IdRead 0)"
    "(\<lambda>p. IdIdle)(Suc 0 := IdIdle) = (\<lambda>p. IdIdle)" by (simp_all add: fun_eq_iff)
  have room: "id_room 1 (ids_store (demo_ids 2) 0) (map_of (ids_db (demo_ids 2)))"
    by (simp add: demo_ids_def Let_def id_room_def counter_def)
  have run: "sbind (set_end 1000) (\<lambda>_. next_id) (NewEtcdStore ''/gw'', db) = Some (Ok 1, NewEtcdStore ''/gw''\<lparr>es_end := 1000, es_base := 1\<rparr>, db)"
    for db :: "(string \<times> string) list" by (simp add: sbind_def set_end_def next_id_def id_batch_def)
  have i: "es_base (NewEtcdStore x) = 100" "es_end (NewEtcdStore x) = 100" for x by (simp_all add: NewEtcdStore_def)
  show "id_step demo_etcd map_of (demo_ids 0) (demo_ids 1)"
    using step_read [of "demo_ids 0" 0 demo_etcd 0 map_of] by (simp add: demo_ids_def Let_def i demo_reserve)
  show "id_step demo_etcd map_of (demo_ids 1) (demo_ids 2)"
    using step_read [of "demo_ids 1" 1 demo_etcd 0 map_of] by (simp add: demo_ids_def Let_def i demo_reserve)
  show "id_step demo_etcd map_of (demo_ids 2) (demo_ids 3)"
    using step_reserve [of "demo_ids 2" 0 0 map_of demo_etcd 1000 "NewEtcdStore ''/gw''" "[(''/gw/id'', fmt_Uint64ToBytes 1000)]" 1
        "NewEtcdStore ''/gw''\<lparr>es_end := 1000, es_base := 1\<rparr>" "[(''/gw/id'', fmt_Uint64ToBytes 1000)]", OF _ room]
    by (simp add: demo_ids_def Let_def demo_reserve run pc numeral_2_eq_2 numeral_3_eq_3)
  show "id_step demo_etcd map_of (demo_ids 3) (demo_ids 4)"
    using step_stale [of "demo_ids 3" 1 0 demo_etcd "NewEtcdStore ''/gw''" "[(''/gw/id'', fmt_Uint64ToBytes 1000)]" map_of]
    by (simp add: demo_ids_def Let_def numeral_3_eq_3 pc demo_reserve)
qed

theorem ids_unique_witness:
  "\<exists>i e' db'. allocID demo_etcd (ids_store (demo_ids 4) 1, ids_db (demo_ids 4)) = Some (Ok i, e', db') \<and> i \<noteq> 0 \<and> i \<noteq> 1"
proof -
  have "id_init map_of ''/gw'' (demo_ids 0)"
    by (simp add: id_init_def demo_ids_def Let_def ids_ok_def NewEtcdStore_def)
  then have r: "id_reach demo_etcd map_of ''/gw'' (demo_ids 4)"
    by (rule id_reach_step [OF id_reach_step [OF id_reach_step [OF id_reach_step [OF id_reach_init demo_steps(1)] demo_steps(2)] demo_steps(3)] demo_steps(4)])
  have "id_room 1 (ids_store (demo_ids 4) 1) (map_of (ids_db (demo_ids 4)))" "ids_out (demo_ids 4) = [(0, 1)]"
    by (simp_all add: demo_ids_def Let_def id_room_def counter_def)
  then show ?thesis using ids_unique [OF demo_etcd_ok r, of 1] by auto
qed

subsection \<open>A stored counter of zero\<close>

text \<open>\<^verbatim>\<open>SetID(0)\<close> stores a counter of zero. \<^verbatim>\<open>generate\<close> then tries to create the counter, finds that it exists, and starts
  again: it never returns.\<close>

lemma zero_round:
  assumes "etcd_ok E kv" "kv (snd s) (es_idPath (fst s)) = Some (fmt_Uint64ToBytes 0)"
  obtains db' where "generate_round E s = Some (Ok None, fst s, db')" "kv db' = kv (snd s)"
proof -
  obtain e db where s: "s = (e, db)" by (cases s)
  have "fmt_Uint64ToBytes 0 \<noteq> []" by code_simp
  then have g: "store_getID E e db = Ok 0" using assms(2) by (simp add: store_getID_def getValue_run [OF assms(1)] s)
  obtain db' where c: "Commit E [CreateRevisionZero (es_idPath e)] [OpPut (es_idPath e) (fmt_Uint64ToBytes id_batch) None] (e, db) = Some (Ok False, e, db')"
    "kv db' = kv db"
    by (rule Commit_run [OF assms(1) one_op [of "OpPut (es_idPath e) (fmt_Uint64ToBytes id_batch) None"], of "[CreateRevisionZero (es_idPath e)]" e db])
      (use assms(2) in \<open>simp add: s\<close>)
  then show thesis
    by (intro that [of db']) (simp_all add: s generate_round_def sbind_def sread_def g reserve_def continue_stale_def
        createID_def slift_def)
qed

lemma zero_counter_diverges:
  assumes "etcd_ok E kv" "kv db (es_idPath e) = Some (fmt_Uint64ToBytes 0)"
  shows "generate E (e, db) = None"
proof (rule ccontr)
  assume "generate E (e, db) \<noteq> None"
  then obtain r where "generate E (e, db) = Some r" by auto
  moreover have "E' = E \<longrightarrow> kv (snd s) (es_idPath (fst s)) \<noteq> Some (fmt_Uint64ToBytes 0)" if "generate E' s = Some r" for E' s r
  proof (rule generate.raw_induct [OF _ that, where P = "\<lambda>E' s r. E' = E \<longrightarrow> kv (snd s) (es_idPath (fst s)) \<noteq> Some (fmt_Uint64ToBytes 0)"])
    fix f E' s r
    assume IH: "\<And>E'' s' r'. f E'' s' = Some r' \<Longrightarrow> E'' = E \<longrightarrow> kv (snd s') (es_idPath (fst s')) \<noteq> Some (fmt_Uint64ToBytes 0)"
      and run: "Option.bind (generate_round E' s) (\<lambda>(r, s'). case r of
        Ok x \<Rightarrow> (case x of Some v \<Rightarrow> Some (Ok v, s') | None \<Rightarrow> f E' s') | Err er \<Rightarrow> Some (Err er, s') | Panic \<Rightarrow> Some (Panic, s')) = Some r"
    show "E' = E \<longrightarrow> kv (snd s) (es_idPath (fst s)) \<noteq> Some (fmt_Uint64ToBytes 0)"
    proof (intro impI notI)
      assume z: "E' = E" "kv (snd s) (es_idPath (fst s)) = Some (fmt_Uint64ToBytes 0)"
      obtain db' where "generate_round E s = Some (Ok None, fst s, db')" "kv db' = kv (snd s)" by (rule zero_round [OF assms(1) z(2)])
      then show False using run IH [of E "(fst s, db')" r] z by simp
    qed
  qed
  ultimately have "kv (snd (e, db)) (es_idPath (fst (e, db))) \<noteq> Some (fmt_Uint64ToBytes 0)" by blast
  then show False using assms(2) by simp
qed

end
