(* ===== verification/Store_Listing.thy ===== *)
theory Store_Listing
  imports Store_Requests
begin

text \<open>
  What the reading operations of the store return: one message, a page by page listing, the servers bound to a cluster, the
  applied plugins.
\<close>

lemma getPB_run:
  assumes "etcd_ok E kv" "dir_ok c idf dir (kv db)"
  shows "getPB E c dir i zero db = (case table_of c dir (kv db) i of Some v \<Rightarrow> Ok v | None \<Rightarrow> Err (ErrNotFound (getKey dir i)))"
proof (cases "kv db (getKey dir i)")
  case None
  then show ?thesis by (simp add: getPB_def getPBWithKey_def getValue_run [OF assms(1)] table_of_def)
next
  case (Some data)
  then have "data \<noteq> []" using assms(2) by (simp add: dir_ok_def)
  then show ?thesis
    using Some dir_some [OF assms(2) Some]
    by (auto simp: getPB_def getPBWithKey_def getValue_run [OF assms(1)])
qed

lemma doGetAppliedPlugins_run:
  assumes "etcd_ok (w_etcd W) kv" "applied_ok (c_Applied (w_codecs W)) (es_appliedPluginDir e) (kv db)"
  shows "doGetAppliedPlugins W e db = Ok (applied_of (c_Applied (w_codecs W)) (es_appliedPluginDir e) (kv db))"
  using assms(2) by (auto simp: doGetAppliedPlugins_def getPBWithKey_def getValue_run [OF assms(1)] applied_of_def applied_ok_def
      split: option.splits)

subsection \<open>Binds\<close>

lemma bind_servers_map:
  "(\<And>x. x \<in> set kvs \<Longrightarrow> \<exists>b. cd_Unmarshal c (snd x) = Ok b \<and> bd_ServerID b = f (fst x)) \<Longrightarrow> bind_servers c kvs = Ok (map (f \<circ> fst) kvs)"
proof (induction kvs)
  case (Cons x kvs)
  obtain b where "cd_Unmarshal c (snd x) = Ok b" "bd_ServerID b = f (fst x)" using Cons.prems [of x] by auto
  then show ?case using Cons by (cases x) simp
qed simp

lemma doGetBindServers_run:
  assumes "etcd_ok (w_etcd W) kv" "binds_dir_ok (c_Bind (w_codecs W)) e (kv db)"
  shows "doGetBindServers W e i db = Ok (sorted_list_of_set {s. (i, s) \<in> binds_of e (kv db)})"
proof -
  let ?m = "kv db" and ?S = "{s. (i, s) \<in> binds_of e (kv db)}"
  let ?key = "\<lambda>s. getBindKey e \<lparr>bd_ClusterID = i, bd_ServerID = s\<rparr>" and ?P = "has_prefix (getClusterBindPrefix e i)"
  have get: "et_Get (w_etcd W) (getClusterBindPrefix e i) WithPrefix db = Ok (kv_entries ?m ?P)" using assms(1) by (simp add: etcd_ok_def)
  have fin: "finite (dom ?m)" by (rule etcd_finite [OF assms(1)])
  have found: "\<exists>s. k = ?key s \<and> cd_Unmarshal (c_Bind (w_codecs W)) data = Ok \<lparr>bd_ClusterID = i, bd_ServerID = s\<rparr>" if md: "?m k = Some data" "?P k" for k data
  proof -
    have "has_prefix (es_bindsDir e) k" using md(2) by (auto simp: has_prefix_iff getClusterBindPrefix_def getKey_def)
    then obtain b where b: "cd_Unmarshal (c_Bind (w_codecs W)) data = Ok b" "k = getBindKey e b" using assms(2) md(1) by (auto simp: binds_dir_ok_def)
    then have "bd_ClusterID b = i" using md(2) by simp
    then show ?thesis using b bind_eta [of b] by metis
  qed
  have keys: "{k \<in> dom ?m. ?P k} = ?key ` ?S"
    using found by (fastforce simp: binds_of_def)
  have lt: "?key s < ?key t \<longleftrightarrow> s < t" for s t by (simp add: getBindKey_def)
  have "finite (?key ` ?S)" using fin by (simp flip: keys)
  then have finS: "finite ?S" by (rule finite_imageD) (simp add: inj_on_def)
  have srt: "sorted_list_of_set (?key ` ?S) = map ?key (sorted_list_of_set ?S)"
    using sorted_list_image [OF finS, of ?key] lt by simp
  define f where "f k = (THE s. k = ?key s)" for k
  have f: "f (?key s) = s" for s unfolding f_def by (rule the_equality) simp_all
  have "bind_servers (c_Bind (w_codecs W)) (kv_entries ?m ?P) = Ok (map (f \<circ> fst) (kv_entries ?m ?P))"
  proof (rule bind_servers_map)
    fix x assume "x \<in> set (kv_entries ?m ?P)"
    then have "?m (fst x) = Some (snd x)" "?P (fst x)" using entries_mem [OF fin, of "fst x" "snd x" ?P] by simp_all
    then show "\<exists>b. cd_Unmarshal (c_Bind (w_codecs W)) (snd x) = Ok b \<and> bd_ServerID b = f (fst x)" using found f by fastforce
  qed
  also have "map (f \<circ> fst) (kv_entries ?m ?P) = sorted_list_of_set ?S" by (simp add: kv_entries_def keys srt comp_def f)
  finally show ?thesis by (simp add: doGetBindServers_def get)
qed


lemma put_web:
  obtains i e' db' where "serve_request demo_world (ReqPutCluster demo_web) (demo_store, []) = Some (Ok i, e', db')" "i \<noteq> 0"
    "store_inv demo_codecs e' (map_of db')" "cf_clusters (store_config demo_codecs e' (map_of db')) i = Some (demo_web\<lparr>cl_ID := i\<rparr>)"
proof -
  let ?req = "ReqPutCluster demo_web"
  have "request_check (w_env demo_world) ?req (store_config (w_codecs demo_world) demo_store (map_of [])) = Ok ()"
    by (simp add: demo_web_def ValidateCluster_def)
  then show thesis
    using request_served [OF demo_world_ok(1,2) demo_store_inv, of ?req] demo_room that by (auto simp: served_def id_given_def)
qed


subsection \<open>A page size of zero\<close>

text \<open>With a page size of zero or less a listing cannot end well: no page is short.\<close>

lemma page_loop_no_end:
  assumes "page_loop get dec next_start limit start seen = Some r"
  shows "limit \<le> 0 \<longrightarrow> fst r \<noteq> Ok ()"
  by (rule page_loop.raw_induct [OF _ assms, where P = "\<lambda>get dec next_start limit start seen r. limit \<le> 0 \<longrightarrow> fst r \<noteq> Ok ()"])
    (auto split: outcome.splits prod.splits if_splits)

lemma listing_needs_limit: "limit \<le> 0 \<Longrightarrow> getValues E p dir limit db \<noteq> Some (Ok (), vs)"
  using page_loop_no_end [of _ _ _ limit _ _ "(Ok (), vs)"] by (auto simp: getValues_def)

end
