(* ===== verification/Store_Watch.thy ===== *)
theory Store_Watch
  imports Store_Listing
begin

text \<open>
  The stream of changes from the store to a gateway (\<^verbatim>\<open>store/store_watch.go\<close>): an etcd watch event becomes an event of the
  dispatcher, and a gateway that applies them (\<^verbatim>\<open>proxy/dispatcher_event.go\<close>) follows the store. The events themselves are
  etcd's; \<open>replay\<close> states what a watch promises: in order, without gaps, with the creation of a key marked.
\<close>

subsection \<open>From watch events to events of the dispatcher\<close>

datatype watch_ev = WatchPut bool string string | WatchDelete string

fun ev_key :: "watch_ev \<Rightarrow> string" where
  "ev_key (WatchPut create k v) = k"
| "ev_key (WatchDelete k) = k"

fun ev_value :: "watch_ev \<Rightarrow> string" where
  "ev_value (WatchPut create k v) = v"
| "ev_value (WatchDelete k) = []"

fun ev_type :: "watch_ev \<Rightarrow> EvtType" where
  "ev_type (WatchDelete k) = EventTypeDelete"
| "ev_type (WatchPut create k v) = (if create then EventTypeNew else EventTypeUpdate)"

text \<open>\<^verbatim>\<open>strings.Replace(s, old, "", 1)\<close> and \<^verbatim>\<open>strings.SplitN(s, "/", 2)\<close>.\<close>

fun replace1 :: "string \<Rightarrow> string \<Rightarrow> string" where
  "replace1 old [] = []"
| "replace1 old (c # cs) = (if has_prefix old (c # cs) then drop (length old) (c # cs) else c # replace1 old cs)"

fun split2 :: "string \<Rightarrow> string list" where
  "split2 [] = [[]]"
| "split2 (c # cs) = (if c = CHR ''/'' then [[], cs] else case split2 cs of [] \<Rightarrow> [[c]] | p # ps \<Rightarrow> (c # p) # ps)"

definition watch_value :: "'v codec \<Rightarrow> 'v \<Rightarrow> string \<Rightarrow> (unit, 'v) outcome" where
  "watch_value c zero data =
     (if 0 < length data then (case cd_Unmarshal c data of Ok v \<Rightarrow> Ok v | Err er \<Rightarrow> Panic | Panic \<Rightarrow> Panic) else Ok zero)"

definition doWatchWithCluster :: "codecs \<Rightarrow> EtcdStore \<Rightarrow> EvtType \<Rightarrow> string \<Rightarrow> string \<Rightarrow> (unit, Evt) outcome" where
  "doWatchWithCluster C e t key data =
     obind (watch_value (c_Cluster C) zero_cluster data) (\<lambda>v. Ok (ClusterEvt t (replace1 (es_clustersDir e @ ''/'') key) v))"

definition doWatchWithServer :: "codecs \<Rightarrow> EtcdStore \<Rightarrow> EvtType \<Rightarrow> string \<Rightarrow> string \<Rightarrow> (unit, Evt) outcome" where
  "doWatchWithServer C e t key data =
     obind (watch_value (c_Server C) zero_server data) (\<lambda>v. Ok (ServerEvt t (replace1 (es_serversDir e @ ''/'') key) v))"

definition doWatchWithBind :: "EtcdStore \<Rightarrow> EvtType \<Rightarrow> string \<Rightarrow> (unit, Evt) outcome" where
  "doWatchWithBind e t key =
     (case split2 (replace1 (es_bindsDir e @ ''/'') key) of
        [a, b] \<Rightarrow> obind (MustParseStrUInt64 a) (\<lambda>c. obind (MustParseStrUInt64 b) (\<lambda>s. Ok (BindEvt t \<lparr>bd_ClusterID = c, bd_ServerID = s\<rparr>)))
      | _ \<Rightarrow> Panic)"

definition doWatchWithAPI :: "codecs \<Rightarrow> EtcdStore \<Rightarrow> EvtType \<Rightarrow> string \<Rightarrow> string \<Rightarrow> (unit, Evt) outcome" where
  "doWatchWithAPI C e t key data =
     obind (watch_value (c_API C) zero_api data) (\<lambda>v. Ok (APIEvt t (replace1 (es_apisDir e @ ''/'') key) v))"

definition doWatchWithRouting :: "codecs \<Rightarrow> EtcdStore \<Rightarrow> EvtType \<Rightarrow> string \<Rightarrow> string \<Rightarrow> (unit, Evt) outcome" where
  "doWatchWithRouting C e t key data =
     obind (watch_value (c_Routing C) zero_routing data) (\<lambda>v. Ok (RoutingEvt t (replace1 (es_routingsDir e @ ''/'') key) v))"

definition doWatchWithProxy :: "codecs \<Rightarrow> EtcdStore \<Rightarrow> EvtType \<Rightarrow> string \<Rightarrow> string \<Rightarrow> (unit, Evt) outcome" where
  "doWatchWithProxy C e t key data =
     obind (watch_value (c_Proxy C) zero_proxy data) (\<lambda>v. Ok (ProxyEvt t (replace1 (es_proxiesDir e @ ''/'') key) v))"

definition doWatchWithPlugin :: "codecs \<Rightarrow> EtcdStore \<Rightarrow> EvtType \<Rightarrow> string \<Rightarrow> string \<Rightarrow> (unit, Evt) outcome" where
  "doWatchWithPlugin C e t key data =
     obind (watch_value (c_Plugin C) zero_plugin data) (\<lambda>v. Ok (PluginEvt t (replace1 (es_pluginsDir e @ ''/'') key) v))"

definition doWatchWithApplyPlugin :: "codecs \<Rightarrow> EvtType \<Rightarrow> string \<Rightarrow> (unit, Evt) outcome" where
  "doWatchWithApplyPlugin C t data = obind (watch_value (c_Applied C) [] data) (\<lambda>v. Ok (ApplyPluginEvt t v))"

text \<open>The body of the inner loop of \<^verbatim>\<open>doWatch\<close>: the directory of the key selects the handler, a key outside is skipped.\<close>

definition watch_event :: "codecs \<Rightarrow> EtcdStore \<Rightarrow> watch_ev \<Rightarrow> (unit, Evt option) outcome" where
  "watch_event C e ev =
     (let t = ev_type ev; key = ev_key ev; data = ev_value ev; send = (\<lambda>r. obind r (\<lambda>x. Ok (Some x)))
      in if has_prefix (es_clustersDir e) key then send (doWatchWithCluster C e t key data)
         else if has_prefix (es_serversDir e) key then send (doWatchWithServer C e t key data)
         else if has_prefix (es_bindsDir e) key then send (doWatchWithBind e t key)
         else if has_prefix (es_apisDir e) key then send (doWatchWithAPI C e t key data)
         else if has_prefix (es_routingsDir e) key then send (doWatchWithRouting C e t key data)
         else if has_prefix (es_proxiesDir e) key then send (doWatchWithProxy C e t key data)
         else if has_prefix (es_pluginsDir e) key then send (doWatchWithPlugin C e t key data)
         else if has_prefix (es_appliedPluginDir e) key then send (doWatchWithApplyPlugin C t data)
         else Ok None)"

text \<open>The watcher sends each event over the unbuffered channel and the dispatcher applies it before it takes the next one.\<close>

fun follow :: "codecs \<Rightarrow> EtcdStore \<Rightarrow> env \<Rightarrow> watch_ev list \<Rightarrow> dispatcher \<Rightarrow> (unit, dispatcher) outcome" where
  "follow C e en [] d = Ok d"
| "follow C e en (ev # evs) d =
     obind (watch_event C e ev) (\<lambda>x.
     obind (case x of None \<Rightarrow> Ok d | Some evt \<Rightarrow> doEvent en evt d) (\<lambda>d. follow C e en evs d))"

text \<open>\<^verbatim>\<open>doWatch\<close>: the responses of one watch; a cancelled one ends it.\<close>

record watch_resp =
  wr_Canceled :: bool
  wr_Events :: "watch_ev list"

fun doWatch :: "codecs \<Rightarrow> EtcdStore \<Rightarrow> env \<Rightarrow> watch_resp list \<Rightarrow> dispatcher \<Rightarrow> (unit, dispatcher) outcome" where
  "doWatch C e en [] d = Ok d"
| "doWatch C e en (r # rs) d = (if wr_Canceled r then Ok d else obind (follow C e en (wr_Events r) d) (\<lambda>d. doWatch C e en rs d))"

subsection \<open>What a watch promises\<close>

fun watch_step :: "(string \<rightharpoonup> string) \<Rightarrow> watch_ev \<Rightarrow> (string \<rightharpoonup> string) option" where
  "watch_step m (WatchPut create k v) = (if create = (m k = None) then Some (m(k \<mapsto> v)) else None)"
| "watch_step m (WatchDelete k) = (if m k \<noteq> None then Some (m(k := None)) else None)"

fun replay :: "((string \<rightharpoonup> string) \<Rightarrow> bool) \<Rightarrow> (string \<rightharpoonup> string) \<Rightarrow> watch_ev list \<Rightarrow> (string \<rightharpoonup> string) \<Rightarrow> bool" where
  "replay P m [] m' = (P m \<and> m = m')"
| "replay P m (ev # evs) m' = (P m \<and> (\<exists>m1. watch_step m ev = Some m1 \<and> replay P m1 evs m'))"

text \<open>A store that is referentially intact: binds name a server and a cluster, applied plugins exist, and servers and APIs
  are such that the gateway can build them.\<close>

definition intact :: "regex \<Rightarrow> config \<Rightarrow> bool" where
  "intact rx cf \<longleftrightarrow> (\<forall>(c, s)\<in>cf_binds cf. cf_clusters cf c \<noteq> None \<and> cf_servers cf s \<noteq> None) \<and>
     (\<forall>i\<in>set (the (cf_applied cf)). cf_plugins cf i \<noteq> None) \<and>
     (\<forall>i v. cf_servers cf i = Some v \<longrightarrow> valid_server v) \<and> (\<forall>i v. cf_apis cf i = Some v \<longrightarrow> valid_api rx v)"

definition sound :: "regex \<Rightarrow> codecs \<Rightarrow> EtcdStore \<Rightarrow> (string \<rightharpoonup> string) \<Rightarrow> bool" where
  "sound rx C e m \<longleftrightarrow> dirs_ok C e m \<and> intact rx (store_config C e m) \<and>
     (\<forall>k\<in>dom m. has_prefix (es_appliedPluginDir e) k \<longrightarrow> k = es_appliedPluginDir e)"

text \<open>What the gateway shares with the store. An API it refused (its pattern conflicts) it does not have, a plugin or a
  proxy may be an older version.\<close>

definition mirrors :: "config \<Rightarrow> config \<Rightarrow> bool" where
  "mirrors g f \<longleftrightarrow> cf_servers g = cf_servers f \<and> cf_clusters g = cf_clusters f \<and> cf_routings g = cf_routings f \<and>
     cf_binds g = cf_binds f \<and> dom (cf_proxies g) = dom (cf_proxies f) \<and> dom (cf_plugins g) = dom (cf_plugins f) \<and>
     cf_applied g = cf_applied f \<and> dom (cf_apis g) \<subseteq> dom (cf_apis f)"

subsection \<open>Keys\<close>

lemma replace1_prefix: "old \<noteq> [] \<Longrightarrow> replace1 old (old @ z) = z"
proof (cases old)
  case (Cons c cs)
  then show ?thesis using has_prefix_self [of "c # cs" z] by simp
qed simp

lemma replace1_dir: "replace1 (dir @ ''/'') (getKey dir i) = fmt020d i" "replace1 (dir @ ''/'') (dir @ ''/'' @ z) = z"
  using replace1_prefix [of "dir @ ''/''" "fmt020d i"] replace1_prefix [of "dir @ ''/''" z] by (simp_all add: getKey_def)

lemma digits_val_set: "digits_val a s = Some n \<Longrightarrow> c \<in> set s \<Longrightarrow> digit_val c \<noteq> None"
  by (induction a s rule: digits_val.induct) (auto split: option.splits)

lemma split2_number: "split2 (fmt020d i @ ''/'' @ z) = [fmt020d i, z]"
proof -
  have "split2 (s @ ''/'' @ z) = [s, z]" if "CHR ''/'' \<notin> set s" for s using that by (induction s) auto
  moreover have "digit_val (CHR ''/'') = None" by code_simp
  then have "CHR ''/'' \<notin> set (fmt020d i)" using digits_val_set [OF fmt020d_val] by metis
  ultimately show ?thesis by simp
qed

lemma watch_bind: "doWatchWithBind e t (getBindKey e b) = Ok (BindEvt t b)"
proof -
  have "getBindKey e b = es_bindsDir e @ ''/'' @ fmt020d (bd_ClusterID b) @ ''/'' @ fmt020d (bd_ServerID b)"
    by (simp add: getBindKey_def getClusterBindPrefix_def getKey_def)
  then have "replace1 (es_bindsDir e @ ''/'') (getBindKey e b) = fmt020d (bd_ClusterID b) @ ''/'' @ fmt020d (bd_ServerID b)"
    using replace1_dir(2) by metis
  then show ?thesis by (simp only: doWatchWithBind_def split2_number) (simp add: bind_eta)
qed

text \<open>The directory selects the handler.\<close>

lemma watch_dirs:
  assumes "ns_ok e" "ev_key ev = dir @ zs"
  shows "dir = es_clustersDir e \<Longrightarrow> watch_event C e ev = obind (doWatchWithCluster C e (ev_type ev) (ev_key ev) (ev_value ev)) (\<lambda>x. Ok (Some x))"
    "dir = es_serversDir e \<Longrightarrow> watch_event C e ev = obind (doWatchWithServer C e (ev_type ev) (ev_key ev) (ev_value ev)) (\<lambda>x. Ok (Some x))"
    "dir = es_bindsDir e \<Longrightarrow> watch_event C e ev = obind (doWatchWithBind e (ev_type ev) (ev_key ev)) (\<lambda>x. Ok (Some x))"
    "dir = es_apisDir e \<Longrightarrow> watch_event C e ev = obind (doWatchWithAPI C e (ev_type ev) (ev_key ev) (ev_value ev)) (\<lambda>x. Ok (Some x))"
    "dir = es_routingsDir e \<Longrightarrow> watch_event C e ev = obind (doWatchWithRouting C e (ev_type ev) (ev_key ev) (ev_value ev)) (\<lambda>x. Ok (Some x))"
    "dir = es_proxiesDir e \<Longrightarrow> watch_event C e ev = obind (doWatchWithProxy C e (ev_type ev) (ev_key ev) (ev_value ev)) (\<lambda>x. Ok (Some x))"
    "dir = es_pluginsDir e \<Longrightarrow> watch_event C e ev = obind (doWatchWithPlugin C e (ev_type ev) (ev_key ev) (ev_value ev)) (\<lambda>x. Ok (Some x))"
    "dir = es_appliedPluginDir e \<Longrightarrow> watch_event C e ev = obind (doWatchWithApplyPlugin C (ev_type ev) (ev_value ev)) (\<lambda>x. Ok (Some x))"
  using assms(2) by (simp_all add: watch_event_def Let_def ns_dirs [OF assms(1)])

subsection \<open>One event\<close>

lemma obind_assoc: "obind (obind m f) g = obind m (\<lambda>x. obind (f x) g)"
  by (cases m) simp_all

context kind
begin

lemma watch_put:
  assumes "ns_ok e" "dirs_ok C e m" "dirs_ok C e m'" "m' = m(k \<mapsto> data)" "has_prefix (dirf e) k"
  obtains i v where "k = getKey (dirf e) i" "i \<noteq> 0" "pb_GetID (p C) v = i" "data \<noteq> []" "cd_Unmarshal (pb_codec (p C)) data = Ok v"
    "m k = None \<longleftrightarrow> table_of (pb_codec (p C)) (dirf e) m i = None" "table_of (pb_codec (p C)) (dirf e) m' i = Some v"
    "store_config C e m' = upd (\<lambda>t. t(i \<mapsto> v)) (store_config C e m)"
proof -
  have "m' k = Some data" by (simp add: assms(4))
  then obtain v where v: "data \<noteq> []" "cd_Unmarshal (pb_codec (p C)) data = Ok v" "k = getKey (dirf e) (pb_GetID (p C) v)" "pb_GetID (p C) v \<noteq> 0"
    using own [OF assms(3)] assms(5) unfolding dir_ok_def by blast
  let ?i = "pb_GetID (p C) v"
  have k: "getKey (dirf e) ?i = es_prefix e @ name @ ''/'' @ fmt020d ?i" by (simp add: getKey_def dir [OF assms(1)])
  have m': "m' = m(getKey (dirf e) ?i \<mapsto> data)" using assms(4) v(3) by simp
  have o: "others_agree (es_prefix e) name m m'"
    using others_key [OF name, where zs = "''/'' @ fmt020d ?i" and v = "Some data"] by (simp add: m' k)
  have t: "table_of (pb_codec (p C)) (dirf e) m' = (table_of (pb_codec (p C)) (dirf e) m)(?i \<mapsto> v)" by (simp add: m' table_of_put [OF v(2)])
  have "m k = None \<longleftrightarrow> table_of (pb_codec (p C)) (dirf e) m ?i = None" using dir_keys [OF own [OF assms(2)]] v(3) by (metis (mono_tags, lifting) domIff mem_Collect_eq)
  then show thesis using v t changes [OF assms(1) o, where f = "\<lambda>t. t(?i \<mapsto> v)"] by (intro that [of ?i v]) simp_all
qed

lemma watch_delete:
  assumes "ns_ok e" "dirs_ok C e m" "m' = m(k := None)" "m k \<noteq> None" "has_prefix (dirf e) k"
  obtains i where "k = getKey (dirf e) i" "i \<noteq> 0" "store_config C e m' = upd (\<lambda>t. t(i := None)) (store_config C e m)"
proof -
  obtain data where "m k = Some data" using assms(4) by auto
  then obtain v where v: "k = getKey (dirf e) (pb_GetID (p C) v)" "pb_GetID (p C) v \<noteq> 0"
    using own [OF assms(2)] assms(5) unfolding dir_ok_def by blast
  let ?i = "pb_GetID (p C) v"
  have k: "getKey (dirf e) ?i = es_prefix e @ name @ ''/'' @ fmt020d ?i" by (simp add: getKey_def dir [OF assms(1)])
  have o: "others_agree (es_prefix e) name m m'"
    using others_key [OF name, where zs = "''/'' @ fmt020d ?i" and v = None] by (simp add: assms(3) v(1) k)
  show thesis using v changes [OF assms(1) o, where f = "\<lambda>t. t(?i := None)"] by (intro that [of ?i]) (simp_all add: assms(3) table_of_delete)
qed

end

text \<open>The gateway tracks an event: the watcher turns it into a valid event of the dispatcher, and whatever that event may do,
  the gateway mirrors the store afterwards.\<close>

definition tracks :: "regex \<Rightarrow> codecs \<Rightarrow> EtcdStore \<Rightarrow> dispatcher \<Rightarrow> watch_ev \<Rightarrow> (string \<rightharpoonup> string) \<Rightarrow> bool" where
  "tracks rx C e d ev m' \<longleftrightarrow> (\<exists>x. watch_event C e ev = Ok x \<and>
     (case x of None \<Rightarrow> mirrors (abs_config d) (store_config C e m')
      | Some evt \<Rightarrow> evt_ok rx d evt \<and> (\<forall>cf\<in>spec_event evt (abs_config d). mirrors cf (store_config C e m'))))"

lemma tracksI:
  "watch_event C e ev = Ok (Some evt) \<Longrightarrow> evt_ok rx d evt \<Longrightarrow>
   (\<And>cf. cf \<in> spec_event evt (abs_config d) \<Longrightarrow> mirrors cf (store_config C e m')) \<Longrightarrow> tracks rx C e d ev m'"
  by (simp add: tracks_def)

lemma spec_put_ids:
  "idf v = i \<Longrightarrow> spec_put idf (if mp i = None then EventTypeNew else EventTypeUpdate) key v mp = mp(i \<mapsto> v)"
  "spec_put idf EventTypeDelete (fmt020d i) v mp = mp(i := None)"
  by (auto simp: spec_put_def)

text \<open>A kind of message with its constructor of events.\<close>

locale watched_kind = kind p dirf name upd
  for p :: "codecs \<Rightarrow> 'v pb" and dirf :: "EtcdStore \<Rightarrow> string" and name :: string
    and upd :: "((uint64 \<rightharpoonup> 'v) \<Rightarrow> (uint64 \<rightharpoonup> 'v)) \<Rightarrow> config \<Rightarrow> config" +
  fixes mk :: "EvtType \<Rightarrow> string \<Rightarrow> 'v \<Rightarrow> Evt" and zero :: 'v
  assumes handler: "ns_ok e \<Longrightarrow> ev_key ev = dirf e @ zs \<Longrightarrow>
    watch_event C e ev = obind (watch_value (pb_codec (p C)) zero (ev_value ev))
      (\<lambda>v. Ok (Some (mk (ev_type ev) (replace1 (dirf e @ ''/'') (ev_key ev)) v)))"
begin

lemma tracks_kind:
  assumes ns: "ns_ok e" and m: "dirs_ok C e m" "dirs_ok C e m'" "watch_step m ev = Some m'" and k: "has_prefix (dirf e) (ev_key ev)"
    and put: "\<And>i v t. i \<noteq> 0 \<Longrightarrow> pb_GetID (p C) v = i \<Longrightarrow> table_of (pb_codec (p C)) (dirf e) m' i = Some v \<Longrightarrow>
      t = (if table_of (pb_codec (p C)) (dirf e) m i = None then EventTypeNew else EventTypeUpdate) \<Longrightarrow>
      store_config C e m' = upd (\<lambda>t. t(i \<mapsto> v)) (store_config C e m) \<Longrightarrow>
      evt_ok rx d (mk t (fmt020d i) v) \<and> (\<forall>cf\<in>spec_event (mk t (fmt020d i) v) (abs_config d). mirrors cf (store_config C e m'))"
    and del: "\<And>i. i \<noteq> 0 \<Longrightarrow> store_config C e m' = upd (\<lambda>t. t(i := None)) (store_config C e m) \<Longrightarrow>
      evt_ok rx d (mk EventTypeDelete (fmt020d i) zero) \<and>
      (\<forall>cf\<in>spec_event (mk EventTypeDelete (fmt020d i) zero) (abs_config d). mirrors cf (store_config C e m'))"
  shows "tracks rx C e d ev m'"
proof -
  obtain zs where zs: "ev_key ev = dirf e @ zs" using k by (auto simp: has_prefix_iff)
  note w = handler [OF ns zs]
  show ?thesis
  proof (cases ev)
    case (WatchPut create key data)
    have m': "m' = m(key \<mapsto> data)" and cr: "create = (m key = None)" using m(3) WatchPut by (auto split: if_splits)
    obtain i v where i: "key = getKey (dirf e) i" "i \<noteq> 0" "pb_GetID (p C) v = i" "data \<noteq> []"
      "cd_Unmarshal (pb_codec (p C)) data = Ok v" "m key = None \<longleftrightarrow> table_of (pb_codec (p C)) (dirf e) m i = None"
      "table_of (pb_codec (p C)) (dirf e) m' i = Some v" "store_config C e m' = upd (\<lambda>t. t(i \<mapsto> v)) (store_config C e m)"
      by (rule watch_put [OF ns m(1,2) m']) (use k WatchPut in simp_all)
    have "watch_event C e ev = Ok (Some (mk (ev_type ev) (fmt020d i) v))"
      using i(1,4,5) by (simp add: w, simp add: WatchPut watch_value_def replace1_dir)
    then show ?thesis using put [OF i(2,3,7) _ i(8), of "ev_type ev"] cr i(6) by (auto simp: WatchPut intro: tracksI)
  next
    case (WatchDelete key)
    have m': "m' = m(key := None)" "m key \<noteq> None" using m(3) WatchDelete by (auto split: if_splits)
    obtain i where i: "key = getKey (dirf e) i" "i \<noteq> 0" "store_config C e m' = upd (\<lambda>t. t(i := None)) (store_config C e m)"
      by (rule watch_delete [OF ns m(1) m']) (use k WatchDelete in simp_all)
    have "watch_event C e ev = Ok (Some (mk EventTypeDelete (fmt020d i) zero))"
      using i(1) by (simp add: w, simp add: WatchDelete watch_value_def replace1_dir)
    then show ?thesis using del [OF i(2,3)] by (auto intro: tracksI)
  qed
qed

end

interpretation watched_clusters: watched_kind cluster_pb es_clustersDir "''/clusters''" cf_clusters_update ClusterEvt zero_cluster
  by unfold_locales (simp add: watch_dirs(1) doWatchWithCluster_def pb_defs obind_assoc)

interpretation watched_servers: watched_kind server_pb es_serversDir "''/servers''" cf_servers_update ServerEvt zero_server
  by unfold_locales (simp add: watch_dirs(2) doWatchWithServer_def pb_defs obind_assoc)

interpretation watched_apis: watched_kind api_pb es_apisDir "''/apis''" cf_apis_update APIEvt zero_api
  by unfold_locales (simp add: watch_dirs(4) doWatchWithAPI_def pb_defs obind_assoc)

interpretation watched_routings: watched_kind routing_pb es_routingsDir "''/routings''" cf_routings_update RoutingEvt zero_routing
  by unfold_locales (simp add: watch_dirs(5) doWatchWithRouting_def pb_defs obind_assoc)

interpretation watched_plugins: watched_kind plugin_pb es_pluginsDir "''/plugins''" cf_plugins_update PluginEvt zero_plugin
  by unfold_locales (simp add: watch_dirs(7) doWatchWithPlugin_def pb_defs obind_assoc)

lemma mirrorsD:
  assumes "mirrors (abs_config d) (store_config C e m)"
  shows "cf_clusters (abs_config d) = table_of (c_Cluster C) (es_clustersDir e) m"
    "cf_servers (abs_config d) = table_of (c_Server C) (es_serversDir e) m"
    "cf_routings (abs_config d) = table_of (c_Routing C) (es_routingsDir e) m"
    "cf_binds (abs_config d) = binds_of e m"
    "dom (cf_plugins (abs_config d)) = dom (table_of (c_Plugin C) (es_pluginsDir e) m)"
    "dom (cf_proxies (abs_config d)) = dom (proxies_of (c_Proxy C) (es_proxiesDir e) m)"
    "d_applied d = Some (applied_of (c_Applied C) (es_appliedPluginDir e) m)"
    "dom (cf_apis (abs_config d)) \<subseteq> dom (table_of (c_API C) (es_apisDir e) m)"
  using assms by (simp_all add: mirrors_def store_config_def) (simp add: abs_config_def)

lemma kinds_track:
  assumes ns: "ns_ok e" and m: "sound rx C e m" "sound rx C e m'" "watch_step m ev = Some m'" and M: "mirrors (abs_config d) (store_config C e m)"
  shows "has_prefix (es_clustersDir e) (ev_key ev) \<Longrightarrow> tracks rx C e d ev m'" "has_prefix (es_routingsDir e) (ev_key ev) \<Longrightarrow> tracks rx C e d ev m'"
    "has_prefix (es_serversDir e) (ev_key ev) \<Longrightarrow> tracks rx C e d ev m'" "has_prefix (es_apisDir e) (ev_key ev) \<Longrightarrow> tracks rx C e d ev m'"
    "has_prefix (es_pluginsDir e) (ev_key ev) \<Longrightarrow> tracks rx C e d ev m'"
proof -
  have ok: "dirs_ok C e m" "dirs_ok C e m'" and I: "intact rx (store_config C e m')" using m(1,2) by (simp_all add: sound_def)
  note d = mirrorsD [OF M]
  have sub: "\<exists>w. cf_apis (store_config C e m) x = Some w" if "cf_apis (abs_config d) x = Some y" for x y
    using M that unfolding mirrors_def by blast
  show "has_prefix (es_clustersDir e) (ev_key ev) \<Longrightarrow> tracks rx C e d ev m'"
    by (erule watched_clusters.tracks_kind [OF ns ok m(3)])
      (use M in \<open>simp_all add: pb_defs d key_ok_def spec_put_ids mirrors_def config_updates store_config_def\<close>)
  show "has_prefix (es_routingsDir e) (ev_key ev) \<Longrightarrow> tracks rx C e d ev m'"
    by (erule watched_routings.tracks_kind [OF ns ok m(3)])
      (use M in \<open>simp_all add: pb_defs d key_ok_def spec_put_ids mirrors_def config_updates store_config_def\<close>)
  show "has_prefix (es_serversDir e) (ev_key ev) \<Longrightarrow> tracks rx C e d ev m'"
  proof (erule watched_servers.tracks_kind [OF ns ok m(3)])
    fix i v t assume h: "i \<noteq> 0" "pb_GetID (server_pb C) v = i" "table_of (pb_codec (server_pb C)) (es_serversDir e) m' i = Some v"
      "t = (if table_of (pb_codec (server_pb C)) (es_serversDir e) m i = None then EventTypeNew else EventTypeUpdate)"
      "store_config C e m' = cf_servers_update (\<lambda>t. t(i \<mapsto> v)) (store_config C e m)"
    have "valid_server v" using I h(3) by (simp add: intact_def store_config_def pb_defs)
    then show "evt_ok rx d (ServerEvt t (fmt020d i) v) \<and> (\<forall>cf\<in>spec_event (ServerEvt t (fmt020d i) v) (abs_config d). mirrors cf (store_config C e m'))"
      using h M by (auto simp: pb_defs d key_ok_def spec_put_ids mirrors_def config_updates store_config_def)
  next
    fix i assume h: "i \<noteq> 0" "store_config C e m' = cf_servers_update (\<lambda>t. t(i := None)) (store_config C e m)"
    have "\<forall>x\<in>cf_binds (store_config C e m). snd x \<noteq> i" using I by (auto simp: h(2) intact_def config_updates)
    then have "{x \<in> cf_binds (abs_config d). i \<noteq> snd x} = cf_binds (abs_config d)" using M by (auto simp: mirrors_def)
    then show "evt_ok rx d (ServerEvt EventTypeDelete (fmt020d i) zero_server) \<and>
        (\<forall>cf\<in>spec_event (ServerEvt EventTypeDelete (fmt020d i) zero_server) (abs_config d). mirrors cf (store_config C e m'))"
      using M by (simp add: h(2) key_ok_def spec_put_ids mirrors_def config_updates)
  qed
  show "has_prefix (es_apisDir e) (ev_key ev) \<Longrightarrow> tracks rx C e d ev m'"
  proof (erule watched_apis.tracks_kind [OF ns ok m(3)])
    fix i v t assume h: "i \<noteq> 0" "pb_GetID (api_pb C) v = i" "table_of (pb_codec (api_pb C)) (es_apisDir e) m' i = Some v"
      "t = (if table_of (pb_codec (api_pb C)) (es_apisDir e) m i = None then EventTypeNew else EventTypeUpdate)"
      "store_config C e m' = cf_apis_update (\<lambda>t. t(i \<mapsto> v)) (store_config C e m)"
    have "valid_api rx v" using I h(3) by (simp add: intact_def store_config_def pb_defs)
    moreover have "spec_put api_ID t (fmt020d i) v (cf_apis (abs_config d)) \<in> {cf_apis (abs_config d), (cf_apis (abs_config d))(i \<mapsto> v)}"
      using h(2,4) by (auto simp: spec_put_def pb_defs)
    ultimately show "evt_ok rx d (APIEvt t (fmt020d i) v) \<and> (\<forall>cf\<in>spec_event (APIEvt t (fmt020d i) v) (abs_config d). mirrors cf (store_config C e m'))"
      using h M by (auto simp: pb_defs key_ok_def mirrors_def config_updates dest: sub)
  next
    fix i assume h: "i \<noteq> 0" "store_config C e m' = cf_apis_update (\<lambda>t. t(i := None)) (store_config C e m)"
    then show "evt_ok rx d (APIEvt EventTypeDelete (fmt020d i) zero_api) \<and>
        (\<forall>cf\<in>spec_event (APIEvt EventTypeDelete (fmt020d i) zero_api) (abs_config d). mirrors cf (store_config C e m'))"
      using M by (auto simp: key_ok_def spec_put_ids mirrors_def config_updates)
  qed
  show "has_prefix (es_pluginsDir e) (ev_key ev) \<Longrightarrow> tracks rx C e d ev m'"
  proof (erule watched_plugins.tracks_kind [OF ns ok m(3)])
    fix i v t assume h: "i \<noteq> 0" "pb_GetID (plugin_pb C) v = i" "table_of (pb_codec (plugin_pb C)) (es_pluginsDir e) m' i = Some v"
      "t = (if table_of (pb_codec (plugin_pb C)) (es_pluginsDir e) m i = None then EventTypeNew else EventTypeUpdate)"
      "store_config C e m' = cf_plugins_update (\<lambda>t. t(i \<mapsto> v)) (store_config C e m)"
    have n: "cf_plugins (abs_config d) i = None \<longleftrightarrow> cf_plugins (store_config C e m) i = None" using M unfolding mirrors_def by (metis domIff)
    have t: "t = (if cf_plugins (abs_config d) i = None then EventTypeNew else EventTypeUpdate)" using n h(4) by (simp add: store_config_def pb_defs)
    have "insert i (dom (cf_plugins (abs_config d))) = dom (cf_plugins (abs_config d))" if "t = EventTypeUpdate"
      using that t by (auto simp: insert_absorb domIff split: if_splits)
    then show "evt_ok rx d (PluginEvt t (fmt020d i) v) \<and> (\<forall>cf\<in>spec_event (PluginEvt t (fmt020d i) v) (abs_config d). mirrors cf (store_config C e m'))"
      using h(2,5) M t d(7) by (auto simp: pb_defs spec_put_ids mirrors_def config_updates split: if_splits)
  next
    fix i assume h: "i \<noteq> 0" "store_config C e m' = cf_plugins_update (\<lambda>t. t(i := None)) (store_config C e m)"
    have "i \<notin> set (the (cf_applied (store_config C e m)))" using I by (auto simp: h(2) intact_def config_updates)
    then have "i \<notin> set (applied_of (c_Applied C) (es_appliedPluginDir e) m)" by (simp add: store_config_def)
    then show "evt_ok rx d (PluginEvt EventTypeDelete (fmt020d i) zero_plugin) \<and>
        (\<forall>cf\<in>spec_event (PluginEvt EventTypeDelete (fmt020d i) zero_plugin) (abs_config d). mirrors cf (store_config C e m'))"
      using M d(7) by (auto simp: h(2) spec_put_ids mirrors_def config_updates)
  qed
qed

lemma watch_change:
  assumes "watch_step m ev = Some m'"
  obtains (put) data where "m' = m(ev_key ev \<mapsto> data)" "ev_value ev = data" "ev_type ev = (if m (ev_key ev) = None then EventTypeNew else EventTypeUpdate)"
  | (delete) "m' = m(ev_key ev := None)" "m (ev_key ev) \<noteq> None" "ev_value ev = []" "ev_type ev = EventTypeDelete"
  using assms by (cases ev) (auto split: if_splits)

lemma others_upd:
  assumes "ns_ok e" "ev_key ev = es_prefix e @ b @ zs" "b \<in> set dir_names" "m' = m(ev_key ev := x)"
  shows "others_agree (es_prefix e) b m m'"
  using others_key [OF assms(3), of "es_prefix e" m' m zs x] by (simp add: assms(2,4))

lemma bind_tracks:
  assumes ns: "ns_ok e" and m: "sound rx C e m" "sound rx C e m'" "watch_step m ev = Some m'" and M: "mirrors (abs_config d) (store_config C e m)"
    and k: "has_prefix (es_bindsDir e) (ev_key ev)"
  shows "tracks rx C e d ev m'"
proof -
  have ok: "dirs_ok C e m" "dirs_ok C e m'" and I: "intact rx (store_config C e m)" "intact rx (store_config C e m')"
    using m(1,2) by (simp_all add: sound_def)
  obtain zs where zs: "ev_key ev = es_bindsDir e @ zs" using k by (auto simp: has_prefix_iff)
  obtain x where x: "m' = m(ev_key ev := x)" "x = None \<Longrightarrow> m (ev_key ev) \<noteq> None" "ev_type ev = (if x = None then EventTypeDelete else if m (ev_key ev) = None then EventTypeNew else EventTypeUpdate)"
    by (rule watch_change [OF m(3)]) (auto intro: that)
  have "\<exists>b. ev_key ev = getBindKey e b"
  proof (cases x)
    case None
    then obtain data where "m (ev_key ev) = Some data" using x(2) by auto
    then show ?thesis using ok(1) k unfolding dirs_ok_def binds_dir_ok_def by blast
  next
    case (Some data)
    then have "m' (ev_key ev) = Some data" by (simp add: x(1))
    then show ?thesis using ok(2) k unfolding dirs_ok_def binds_dir_ok_def by blast
  qed
  then obtain b where b: "ev_key ev = getBindKey e b" ..
  have o: "others_agree (es_prefix e) ''/binds'' m m'"
    by (rule others_upd [OF ns _ _ x(1)]) (simp_all add: dir_names_def zs ns_dirs [OF ns])
  have cfg: "store_config C e m' = (store_config C e m)\<lparr>cf_binds := binds_of e m'\<rparr>" by (simp add: store_config_def dir_frame [OF ns o])
  have B: "cf_binds (abs_config d) = binds_of e m" and T: "cf_clusters (abs_config d) = cf_clusters (store_config C e m)"
    "cf_servers (abs_config d) = cf_servers (store_config C e m)" using M by (simp_all add: mirrors_def store_config_def)
  have ev: "watch_event C e ev = Ok (Some (BindEvt (ev_type ev) b))" using watch_dirs(3) [OF ns zs refl] by (simp add: b watch_bind)
  let ?b = "(bd_ClusterID b, bd_ServerID b)"
  have mem: "?b \<in> binds_of e n \<longleftrightarrow> n (ev_key ev) \<noteq> None" for n by (simp add: binds_of_def b bind_eta)
  have there: "cf_clusters (abs_config d) (bd_ClusterID b) \<noteq> None \<and> cf_servers (abs_config d) (bd_ServerID b) \<noteq> None"
  proof (cases x)
    case None
    then have "?b \<in> cf_binds (store_config C e m)" using mem [of m] x(2) by (simp add: store_config_def)
    then show ?thesis using I(1) T by (auto simp: intact_def)
  next
    case (Some data)
    then have "?b \<in> binds_of e m'" using mem [of m'] x(1) by simp
    then show ?thesis using I(2) T by (auto simp: intact_def cfg)
  qed
  then have "bd_ClusterID b \<noteq> 0"
    using table_dom [of "c_Cluster C" cl_ID "es_clustersDir e" m] ok(1) T(1) by (auto simp: dirs_ok_def store_config_def)
  moreover have "binds_of e m' = (if x = None then binds_of e m - {?b} else insert ?b (binds_of e m))"
    by (cases x) (simp_all add: x(1) b binds_put binds_delete)
  moreover have "?b \<in> binds_of e m \<longleftrightarrow> m (ev_key ev) \<noteq> None" by (rule mem)
  ultimately show ?thesis
    using there M B by (intro tracksI [OF ev]) (auto simp: x(3) cfg mirrors_def insert_absorb split: if_splits)
qed

lemma proxies_put: "cd_Unmarshal c data = Ok p \<Longrightarrow> proxies_of c dir (m(dir @ ''/'' @ a \<mapsto> data)) = (proxies_of c dir m)(a \<mapsto> p)"
  by (simp add: proxies_of_def fun_eq_iff)

lemma proxies_delete: "proxies_of c dir (m(dir @ ''/'' @ a := None)) = (proxies_of c dir m)(a := None)"
  by (simp add: proxies_of_def fun_eq_iff)

lemma proxies_keys:
  assumes "proxies_dir_ok c dir m"
  shows "dom (proxies_of c dir m) = {a. m (dir @ ''/'' @ a) \<noteq> None}"
proof (intro set_eqI)
  fix a
  show "a \<in> dom (proxies_of c dir m) \<longleftrightarrow> a \<in> {a. m (dir @ ''/'' @ a) \<noteq> None}"
  proof (cases "m (dir @ ''/'' @ a)")
    case (Some data)
    then have "\<exists>p. cd_Unmarshal c data = Ok p" using assms has_prefix_self [of dir "''/'' @ a"] unfolding proxies_dir_ok_def by blast
    then show ?thesis using Some by (auto simp: proxies_of_def)
  qed (simp add: proxies_of_def domIff)
qed

lemma proxy_tracks:
  assumes ns: "ns_ok e" and m: "sound rx C e m" "sound rx C e m'" "watch_step m ev = Some m'" and M: "mirrors (abs_config d) (store_config C e m)"
    and k: "has_prefix (es_proxiesDir e) (ev_key ev)"
  shows "tracks rx C e d ev m'"
proof -
  have ok: "proxies_dir_ok (c_Proxy C) (es_proxiesDir e) m" "proxies_dir_ok (c_Proxy C) (es_proxiesDir e) m'"
    using m(1,2) by (simp_all add: sound_def dirs_ok_def)
  obtain zs where zs: "ev_key ev = es_proxiesDir e @ zs" using k by (auto simp: has_prefix_iff)
  have zs': "ev_key ev = es_prefix e @ ''/proxies'' @ zs" by (simp add: zs ns_dirs [OF ns])
  have others: "store_config C e m' = (store_config C e m)\<lparr>cf_proxies := proxies_of (c_Proxy C) (es_proxiesDir e) m'\<rparr>" if "m' = m(ev_key ev := x)" for x
    by (simp add: store_config_def dir_frame [OF ns others_upd [OF ns zs' _ that]] dir_names_def)
  note D = mirrorsD(6) [OF M] and w = watch_dirs(6) [OF ns zs refl]
  from m(3) show ?thesis
  proof (cases rule: watch_change)
    case (put data)
    then obtain p where p: "cd_Unmarshal (c_Proxy C) data = Ok p" "ev_key ev = getAddrKey (es_proxiesDir e) (px_Addr p)"
      using ok(2) k unfolding proxies_dir_ok_def by (metis fun_upd_same)
    let ?a = "GetAddrFormat (px_Addr p)"
    have key: "ev_key ev = es_proxiesDir e @ ''/'' @ ?a" using p(2) by (simp add: getAddrKey_def)
    have "data \<noteq> []" using ok(2) k put(1) unfolding proxies_dir_ok_def by (metis fun_upd_same)
    then have ev: "watch_event C e ev = Ok (Some (ProxyEvt (ev_type ev) ?a p))"
      using put(2) p(1) by (simp add: w doWatchWithProxy_def watch_value_def key replace1_dir(2) [simplified])
    have ty: "ev_type ev = (if cf_proxies (abs_config d) ?a = None then EventTypeNew else EventTypeUpdate)"
    proof -
      have "?a \<in> dom (cf_proxies (abs_config d)) \<longleftrightarrow> m (ev_key ev) \<noteq> None" by (simp only: D proxies_keys [OF ok(1)] mem_Collect_eq key)
      then show ?thesis unfolding put(3) domIff by argo
    qed
    have ins: "insert ?a (dom (cf_proxies (abs_config d))) = dom (cf_proxies (store_config C e m'))"
      using D by (simp add: others [OF put(1)]) (simp only: put(1) key proxies_put [OF p(1)] dom_fun_upd option.simps if_False simp_thms)
    show ?thesis
    proof (cases "cf_proxies (abs_config d) ?a")
      case None
      then show ?thesis using M ins by (intro tracksI [OF ev]) (simp_all add: ty others [OF put(1)] mirrors_def)
    next
      case (Some q)
      then have "dom (cf_proxies (abs_config d)) = dom (cf_proxies (store_config C e m'))" using ins insert_absorb [OF domI [of "cf_proxies (abs_config d)" ?a q]] by simp
      then show ?thesis using Some M by (intro tracksI [OF ev]) (simp_all add: ty others [OF put(1)] mirrors_def)
    qed
  next
    case delete
    obtain data where "m (ev_key ev) = Some data" using delete(2) by auto
    then obtain p :: Proxy where p: "ev_key ev = getAddrKey (es_proxiesDir e) (px_Addr p)" using ok(1) k unfolding proxies_dir_ok_def by blast
    let ?a = "GetAddrFormat (px_Addr p)"
    have key: "ev_key ev = es_proxiesDir e @ ''/'' @ ?a" using p by (simp add: getAddrKey_def)
    have ev: "watch_event C e ev = Ok (Some (ProxyEvt EventTypeDelete ?a zero_proxy))"
      using delete(3,4) by (simp add: w doWatchWithProxy_def watch_value_def key replace1_dir(2) [simplified])
    moreover have "dom (cf_proxies (abs_config d)) - {?a} = dom (cf_proxies (store_config C e m'))"
      using D by (simp add: others [OF delete(1)]) (simp only: delete(1) key proxies_delete dom_fun_upd if_True simp_thms)
    ultimately show ?thesis using M by (intro tracksI [OF ev]) (simp_all add: others [OF delete(1)] mirrors_def)
  qed
qed

lemma applied_tracks:
  assumes ns: "ns_ok e" and m: "sound rx C e m" "sound rx C e m'" "watch_step m ev = Some m'" and M: "mirrors (abs_config d) (store_config C e m)"
    and k: "has_prefix (es_appliedPluginDir e) (ev_key ev)"
  shows "tracks rx C e d ev m'"
proof -
  obtain zs where zs: "ev_key ev = es_appliedPluginDir e @ zs" using k by (auto simp: has_prefix_iff)
  have zs': "ev_key ev = es_prefix e @ ''/applied/plugins'' @ zs" by (simp add: zs ns_dirs [OF ns])
  note w = watch_dirs(8) [OF ns zs refl]
  have others: "store_config C e m' = (store_config C e m)\<lparr>cf_applied := Some (applied_of (c_Applied C) (es_appliedPluginDir e) m')\<rparr>"
    if "m' = m(ev_key ev := x)" for x
    by (simp add: store_config_def dir_frame [OF ns others_upd [OF ns zs' _ that]] dir_names_def)
  from m(3) show ?thesis
  proof (cases rule: watch_change)
    case (put data)
    have key: "ev_key ev = es_appliedPluginDir e" using m(2) k put(1) by (auto simp: sound_def)
    let ?ids = "applied_of (c_Applied C) (es_appliedPluginDir e) m'"
    have "applied_ok (c_Applied C) (es_appliedPluginDir e) m'" using m(2) by (simp add: sound_def dirs_ok_def)
    then have ev: "watch_event C e ev = Ok (Some (ApplyPluginEvt (ev_type ev) ?ids))"
      using put(1,2) by (auto simp: w doWatchWithApplyPlugin_def watch_value_def applied_of_def applied_ok_def key)
    moreover have "\<forall>i\<in>set ?ids. cf_plugins (abs_config d) i \<noteq> None"
    proof -
      have "\<forall>i\<in>set ?ids. i \<in> dom (cf_plugins (store_config C e m))" using m(2) by (auto simp: sound_def intact_def others [OF put(1)])
      moreover have "dom (cf_plugins (store_config C e m)) = dom (cf_plugins (abs_config d))" using M by (simp add: mirrors_def)
      ultimately show ?thesis unfolding domIff by blast
    qed
    moreover have "ev_type ev \<noteq> EventTypeDelete" by (simp add: put(3))
    ultimately show ?thesis using M by (intro tracksI [OF ev]) (simp_all add: others [OF put(1)] mirrors_def)
  next
    case delete
    have key: "ev_key ev = es_appliedPluginDir e" using m(1) k delete(2) by (auto simp: sound_def)
    have ev: "watch_event C e ev = Ok (Some (ApplyPluginEvt EventTypeDelete []))"
      using delete(3,4) by (simp add: w doWatchWithApplyPlugin_def watch_value_def)
    moreover have "applied_of (c_Applied C) (es_appliedPluginDir e) m' = []" by (simp add: applied_of_def delete(1) key)
    ultimately show ?thesis using M by (intro tracksI [OF ev]) (simp_all add: others [OF delete(1)] mirrors_def)
  qed
qed

lemma outside_tracks:
  assumes ns: "ns_ok e" and step: "watch_step m ev = Some m'" and M: "mirrors (abs_config d) (store_config C e m)"
    and out: "\<forall>b\<in>set dir_names. \<not> has_prefix (es_prefix e @ b) (ev_key ev)"
  shows "tracks rx C e d ev m'"
proof -
  obtain x where m': "m' = m(ev_key ev := x)" using step by (cases rule: watch_change) auto
  have "others_agree (es_prefix e) [] m m'" using out unfolding m' by (auto simp: others_agree_def intro: agree_upd)
  then have "store_config C e m' = store_config C e m" by (simp add: store_config_def dir_frame [OF ns])
  moreover have "watch_event C e ev = Ok None" using out by (simp add: watch_event_def Let_def ns_dirs [OF ns] dir_names_def)
  ultimately show ?thesis using M by (simp add: tracks_def)
qed

lemma event_tracks:
  assumes A: "ns_ok e" "sound rx C e m" "sound rx C e m'" "watch_step m ev = Some m'" "mirrors (abs_config d) (store_config C e m)"
  shows "tracks rx C e d ev m'"
proof (cases "\<exists>b\<in>set dir_names. has_prefix (es_prefix e @ b) (ev_key ev)")
  case True
  then show ?thesis
    using kinds_track [OF A] bind_tracks [OF A] proxy_tracks [OF A] applied_tracks [OF A] by (auto simp: dir_names_def ns_dirs [OF A(1)])
next
  case False
  then show ?thesis by (intro outside_tracks [OF A(1,4,5)]) blast
qed

subsection \<open>The gateway follows the store\<close>

lemma follow_run:
  assumes "ns_ok e" "env_ok rx en"
  shows "replay (sound rx C e) m evs m' \<Longrightarrow> reach rx d \<Longrightarrow> mirrors (abs_config d) (store_config C e m) \<Longrightarrow>
    \<exists>d'. follow C e en evs d = Ok d' \<and> reach rx d' \<and> mirrors (abs_config d') (store_config C e m')"
proof (induction evs arbitrary: m d)
  case (Cons ev evs)
  then obtain m1 where m1: "watch_step m ev = Some m1" "replay (sound rx C e) m1 evs m'" "sound rx C e m" by auto
  have s1: "sound rx C e m1" using m1(2) by (cases evs) auto
  obtain x where x: "watch_event C e ev = Ok x" "case x of None \<Rightarrow> mirrors (abs_config d) (store_config C e m1)
      | Some evt \<Rightarrow> evt_ok rx d evt \<and> (\<forall>cf\<in>spec_event evt (abs_config d). mirrors cf (store_config C e m1))"
    using event_tracks [OF assms(1) m1(3) s1 m1(1) Cons.prems(3)] by (auto simp: tracks_def)
  obtain d1 where d1: "(case x of None \<Rightarrow> Ok d | Some evt \<Rightarrow> doEvent en evt d) = Ok d1" "reach rx d1" "mirrors (abs_config d1) (store_config C e m1)"
  proof (cases x)
    case None
    then show thesis using x(2) Cons.prems(2) by (intro that [of d]) simp_all
  next
    case (Some evt)
    then have e: "evt_ok rx d evt" "\<forall>cf\<in>spec_event evt (abs_config d). mirrors cf (store_config C e m1)" using x(2) by simp_all
    obtain d1 where "doEvent en evt d = Ok d1" "abs_config d1 \<in> spec_event evt (abs_config d)"
      using event_run [OF reach_good [OF Cons.prems(2)] assms(2) e(1)] by blast
    then show thesis using that Some e(2) reach_event [OF Cons.prems(2) assms(2) e(1)] by simp
  qed
  show ?case using Cons.IH [OF m1(2) d1(2,3)] by (simp add: x(1) d1(1))
qed auto

lemma obind_cong_Ok: "(\<And>x. m = Ok x \<Longrightarrow> f x = g x) \<Longrightarrow> obind m f = obind m g"
  by (cases m) simp_all

lemma follow_append: "follow C e en (xs @ ys) d = obind (follow C e en xs d) (follow C e en ys)"
  by (induction xs arbitrary: d) (auto simp: obind_assoc intro!: obind_cong_Ok)

lemma doWatch_follow: "\<forall>r\<in>set rs. \<not> wr_Canceled r \<Longrightarrow> doWatch C e en rs d = follow C e en (concat (map wr_Events rs)) d"
  by (induction rs arbitrary: d) (auto simp: follow_append intro!: obind_cong_Ok)

lemma watch_run:
  assumes "ns_ok e" "env_ok rx en" "reach rx d" "mirrors (abs_config d) (store_config C e m)"
    and "\<forall>r\<in>set rs. \<not> wr_Canceled r" "replay (sound rx C e) m (concat (map wr_Events rs)) m'"
  shows "\<exists>d'. doWatch C e en rs d = Ok d' \<and> reach rx d' \<and> mirrors (abs_config d') (store_config C e m')"
  using follow_run [OF assms(1,2,6,3,4)] by (simp add: doWatch_follow [OF assms(5)])

text \<open>An empty store, and the first cluster in it.\<close>

definition demo_first :: Cluster where
  "demo_first = demo_web\<lparr>cl_ID := 1\<rparr>"

definition demo_data :: string where
  "demo_data = nat_digits (to_nat demo_first)"

lemma demo_data: "demo_data \<noteq> []" "cd_Unmarshal (c_Cluster demo_codecs) demo_data = Ok demo_first"
  using nat_digits_head [of "to_nat demo_first"] by (auto simp: demo_data_def demo_codecs_def demo_codec_def digits_val_digits)

lemma demo_ns: "ns_ok demo_store"
  using demo_store_inv by (simp add: store_inv_def)

lemma demo_empty: "store_config demo_codecs demo_store Map.empty = empty_config" "sound rx demo_codecs demo_store Map.empty"
proof -
  show c: "store_config demo_codecs demo_store Map.empty = empty_config"
    by (simp add: store_config_def empty_config_def table_of_def binds_of_def proxies_of_def applied_of_def fun_eq_iff)
  have "dirs_ok demo_codecs demo_store Map.empty" using demo_store_inv [of demo_codecs] by (simp add: store_inv_def)
  then show "sound rx demo_codecs demo_store Map.empty" by (simp add: sound_def c intact_def empty_config_def)
qed

lemma demo_one:
  fixes m defines "m \<equiv> Map.empty(getKey (es_clustersDir demo_store) 1 \<mapsto> demo_data)"
  shows "store_config demo_codecs demo_store m = empty_config\<lparr>cf_clusters := [1 \<mapsto> demo_first]\<rparr>" "sound rx demo_codecs demo_store m"
proof -
  let ?e = demo_store and ?C = demo_codecs
  have ok: "dirs_ok ?C ?e Map.empty" using demo_empty(2) by (simp add: sound_def)
  have o: "others_agree (es_prefix ?e) ''/clusters'' Map.empty m"
    using others_key [of "''/clusters''" "es_prefix ?e" m Map.empty "''/'' @ fmt020d 1" "Some demo_data"]
    by (simp add: dir_names_def m_def getKey_def ns_dirs [OF demo_ns])
  have f: "cl_ID demo_first = 1" by (simp add: demo_first_def)
  have "dir_ok (c_Cluster ?C) cl_ID (es_clustersDir ?e) m"
    using dir_put [of "c_Cluster ?C" cl_ID "es_clustersDir ?e" Map.empty, OF _ demo_data(2) demo_data(1)] f by (simp add: m_def dir_ok_def)
  then have d: "dirs_ok ?C ?e m" using clusters.keeps [OF demo_ns o ok] by (simp add: pb_defs)
  have "table_of (c_Cluster ?C) (es_clustersDir ?e) m = (table_of (c_Cluster ?C) (es_clustersDir ?e) Map.empty)(1 \<mapsto> demo_first)"
    by (simp add: m_def table_of_put [OF demo_data(2)])
  then have "store_config ?C ?e m = cf_clusters_update (\<lambda>t. t(1 \<mapsto> demo_first)) (store_config ?C ?e Map.empty)"
    by (intro clusters.changes [OF demo_ns o]) (simp add: pb_defs)
  then show c: "store_config ?C ?e m = empty_config\<lparr>cf_clusters := [1 \<mapsto> demo_first]\<rparr>" by (simp add: demo_empty(1) empty_config_def)
  have "\<not> has_prefix (es_appliedPluginDir ?e) (getKey (es_clustersDir ?e) 1)" by (simp add: ns_dirs [OF demo_ns] getKey_def)
  then have "\<forall>k\<in>dom m. has_prefix (es_appliedPluginDir ?e) k \<longrightarrow> k = es_appliedPluginDir ?e" by (simp add: m_def)
  moreover have "intact rx (store_config ?C ?e m)" by (simp add: c intact_def empty_config_def)
  ultimately show "sound rx ?C ?e m" using d by (simp add: sound_def)
qed

subsection \<open>Removing a cluster\<close>

text \<open>\<^verbatim>\<open>RemoveCluster\<close> deletes the cluster and then its binds in one transaction, so the watch delivers the cluster first. The
  gateway ignores the bind events of a cluster it no longer has: its binds stay.\<close>

lemma late_bind_events:
  assumes "(c, s) \<in> cf_binds cf" "cf1 \<in> spec_event (ClusterEvt EventTypeDelete (fmt020d c) zero_cluster) cf"
    "cf2 \<in> spec_event (BindEvt EventTypeDelete \<lparr>bd_ClusterID = c, bd_ServerID = s\<rparr>) cf1"
  shows "(c, s) \<in> cf_binds cf2"
  using assms by (simp add: spec_put_ids)

end
