(* ===== verification/Store_Load.thy ===== *)
theory Store_Load
  imports Store_Watch
begin

text \<open>
  Starting a gateway (\<^verbatim>\<open>proxy/dispatcher_meta.go\<close>, \<^verbatim>\<open>load\<close>): the dispatcher lists each directory of the store and adds what it
  finds. A failed listing is logged and the gateway goes on with what it has seen; a bind it cannot add is fatal. The watch that
  \<^verbatim>\<open>load\<close> starts runs beside it and is the subject of \<open>Store_Watch\<close>; here nothing changes the store meanwhile.
\<close>

subsection \<open>Loading\<close>

text \<open>A callback of a listing adds one message and its error is dropped. \<open>None\<close> is a listing that does not end.\<close>

fun load_all :: "('v \<Rightarrow> dispatcher \<Rightarrow> meta_result) \<Rightarrow> 'v list \<Rightarrow> dispatcher \<Rightarrow> (unit, dispatcher) outcome" where
  "load_all add [] d = Ok d"
| "load_all add (v # vs) d = obind (drop_err (add v d)) (load_all add vs)"

definition load_listing :: "('v \<Rightarrow> dispatcher \<Rightarrow> meta_result) \<Rightarrow> ((store_error, unit) outcome \<times> 'v list) option \<Rightarrow> dispatcher
    \<Rightarrow> (unit, dispatcher) outcome option" where
  "load_listing add listing d = (case listing of
      None \<Rightarrow> None
    | Some (r, vs) \<Rightarrow> Some (obind (load_all add vs d) (\<lambda>d. if r = Panic then Panic else Ok d)))"

definition load_limit :: int where
  "load_limit = 32"

definition loadProxies :: "'db world \<Rightarrow> EtcdStore \<Rightarrow> 'db \<Rightarrow> dispatcher \<Rightarrow> (unit, dispatcher) outcome option" where
  "loadProxies W e db = load_listing (addProxy (w_env W)) (GetProxies (w_etcd W) (c_Proxy (w_codecs W)) e load_limit db)"

definition loadClusters :: "'db world \<Rightarrow> EtcdStore \<Rightarrow> 'db \<Rightarrow> dispatcher \<Rightarrow> (unit, dispatcher) outcome option" where
  "loadClusters W e db = load_listing (addCluster (w_env W)) (GetClusters W e load_limit db)"

definition loadServers :: "'db world \<Rightarrow> EtcdStore \<Rightarrow> 'db \<Rightarrow> dispatcher \<Rightarrow> (unit, dispatcher) outcome option" where
  "loadServers W e db = load_listing (addServer (w_env W)) (GetServers W e load_limit db)"

definition loadRoutings :: "'db world \<Rightarrow> EtcdStore \<Rightarrow> 'db \<Rightarrow> dispatcher \<Rightarrow> (unit, dispatcher) outcome option" where
  "loadRoutings W e db = load_listing (addRouting (w_env W)) (GetRoutings W e load_limit db)"

definition loadAPIs :: "'db world \<Rightarrow> EtcdStore \<Rightarrow> 'db \<Rightarrow> dispatcher \<Rightarrow> (unit, dispatcher) outcome option" where
  "loadAPIs W e db = load_listing (addAPI (w_env W)) (GetAPIs W e load_limit db)"

definition loadPlugins :: "'db world \<Rightarrow> EtcdStore \<Rightarrow> 'db \<Rightarrow> dispatcher \<Rightarrow> (unit, dispatcher) outcome option" where
  "loadPlugins W e db = load_listing addPlugin (GetPlugins W e load_limit db)"

text \<open>The clusters are visited in the order of the map; a read error ends the loop, a bind that is refused the process.\<close>

fun bind_all :: "uint64 \<Rightarrow> uint64 list \<Rightarrow> dispatcher \<Rightarrow> (unit, dispatcher) outcome" where
  "bind_all c [] d = Ok d"
| "bind_all c (s # ss) d =
     obind (addBind \<lparr>bd_ClusterID = c, bd_ServerID = s\<rparr> d) (\<lambda>(err, d). if err \<noteq> None then Panic else bind_all c ss d)"

fun bind_clusters :: "'db world \<Rightarrow> EtcdStore \<Rightarrow> 'db \<Rightarrow> uint64 list \<Rightarrow> dispatcher \<Rightarrow> (unit, dispatcher) outcome" where
  "bind_clusters W e db [] d = Ok d"
| "bind_clusters W e db (c # cs) d =
     (case doGetBindServers W e c db of
        Err er \<Rightarrow> Ok d
      | Panic \<Rightarrow> Panic
      | Ok servers \<Rightarrow> obind (bind_all c servers d) (bind_clusters W e db cs))"

definition loadBinds :: "'db world \<Rightarrow> EtcdStore \<Rightarrow> 'db \<Rightarrow> dispatcher \<Rightarrow> (unit, dispatcher) outcome option" where
  "loadBinds W e db d = Some (bind_clusters W e db (map fst (d_clusters d)) d)"

definition loadAppliedPlugins :: "'db world \<Rightarrow> EtcdStore \<Rightarrow> 'db \<Rightarrow> dispatcher \<Rightarrow> (unit, dispatcher) outcome option" where
  "loadAppliedPlugins W e db d = Some (case doGetAppliedPlugins W e db of
      Err er \<Rightarrow> Ok d
    | Panic \<Rightarrow> Panic
    | Ok applied \<Rightarrow> drop_err (updateAppliedPlugin (w_env W) applied d))"

definition then_load :: "(unit, dispatcher) outcome option \<Rightarrow> (dispatcher \<Rightarrow> (unit, dispatcher) outcome option)
    \<Rightarrow> (unit, dispatcher) outcome option" where
  "then_load r f = (case r of None \<Rightarrow> None | Some x \<Rightarrow> (case x of Ok d \<Rightarrow> f d | Err er \<Rightarrow> Some (Err er) | Panic \<Rightarrow> Some Panic))"

definition load :: "'db world \<Rightarrow> EtcdStore \<Rightarrow> 'db \<Rightarrow> dispatcher \<Rightarrow> (unit, dispatcher) outcome option" where
  "load W e db d = fold (\<lambda>f r. then_load r f)
     [loadProxies W e db, loadClusters W e db, loadServers W e db, loadBinds W e db, loadAPIs W e db, loadRoutings W e db,
      loadPlugins W e db, loadAppliedPlugins W e db] (Some (Ok d))"

subsection \<open>The values a listing visits\<close>

definition by_id :: "('v \<Rightarrow> uint64) \<Rightarrow> 'v list \<Rightarrow> (uint64 \<rightharpoonup> 'v)" where
  "by_id idf vs = map_of (map (\<lambda>v. (idf v, v)) vs)"

lemma by_id_snoc: "by_id idf (vs @ [v]) = spec_put idf EventTypeNew key v (by_id idf vs)"
  by (auto simp: by_id_def spec_put_def map_add_def fun_eq_iff split: option.split)

lemma by_id_listed:
  assumes "finite (dom t)" "endID \<notin> dom t" "\<And>i v. t i = Some v \<Longrightarrow> idf v = i"
  shows "by_id idf (listed t) = t"
proof -
  have "map (\<lambda>v. (idf v, v)) (listed t) = map (\<lambda>i. (i, the (t i))) (sorted_list_of_set (dom t))"
    using assms by (auto simp: listed_def)
  then show ?thesis using assms(1) by (auto simp: by_id_def map_of_map_restrict restrict_map_def fun_eq_iff, metis option.exhaust)
qed

lemma listed_mem: "finite (dom t) \<Longrightarrow> v \<in> set (listed t) \<Longrightarrow> \<exists>i. t i = Some v"
  by (auto simp: listed_def)

text \<open>Adding the values one after the other: every step is an event of the dispatcher, and what the values seen so far have in
  common with the configuration is kept.\<close>

lemma load_all_run:
  assumes "env_ok rx en" and J: "\<And>xs v cf cf'. J xs cf \<Longrightarrow> v \<in> set vs \<Longrightarrow> cf' \<in> spec_event (mk v) cf \<Longrightarrow> J (xs @ [v]) cf'"
    and "\<And>v d. drop_err (add v d) = doEvent en (mk v) d" "\<And>v d. v \<in> set vs \<Longrightarrow> evt_ok rx d (mk v)"
  shows "reach rx d \<Longrightarrow> J xs (abs_config d) \<Longrightarrow> \<exists>d'. load_all add vs d = Ok d' \<and> reach rx d' \<and> J (xs @ vs) (abs_config d')"
  using J assms(4)
proof (induction vs arbitrary: d xs)
  case (Cons v vs)
  have e: "evt_ok rx d (mk v)" using Cons.prems(4) by simp
  obtain d1 where d1: "doEvent en (mk v) d = Ok d1" "abs_config d1 \<in> spec_event (mk v) (abs_config d)"
    using event_run [OF reach_good [OF Cons.prems(1)] assms(1) e] by blast
  have r: "reach rx d1" by (rule reach_event [OF Cons.prems(1) assms(1) e d1(1)])
  have j: "J (xs @ [v]) (abs_config d1)" using Cons.prems(3) [OF Cons.prems(2) _ d1(2)] by simp
  have "\<exists>d'. load_all add vs d1 = Ok d' \<and> reach rx d' \<and> J ((xs @ [v]) @ vs) (abs_config d')"
    by (rule Cons.IH [OF r j]) (use Cons.prems(3,4) in simp_all)
  then show ?case by (simp add: assms(3) d1(1))
qed auto

text \<open>A kind of message that is always accepted ends up as the table of the store.\<close>

lemma load_table_run:
  assumes "env_ok rx en" "reach rx d" "\<And>v d. drop_err (add v d) = doEvent en (mk v) d" "\<And>v d. v \<in> set (listed t) \<Longrightarrow> evt_ok rx d (mk v)"
    and spec: "\<And>v tb. spec_event (mk v) (upd (\<lambda>_. tb) cf) = {upd (\<lambda>_. spec_put idf EventTypeNew [] v tb) cf}"
    and t: "finite (dom t)" "endID \<notin> dom t" "\<And>i v. t i = Some v \<Longrightarrow> idf v = i" and cf: "abs_config d = upd (\<lambda>_. Map.empty) cf"
  obtains d' where "load_listing add (Some (Ok (), listed t)) d = Some (Ok d')" "reach rx d'" "abs_config d' = upd (\<lambda>_. t) cf"
proof -
  have "\<exists>d'. load_all add (listed t) d = Ok d' \<and> reach rx d' \<and> abs_config d' = upd (\<lambda>_. by_id idf ([] @ listed t)) cf"
    by (rule load_all_run [where J = "\<lambda>xs c. c = upd (\<lambda>_. by_id idf xs) cf" and mk = mk, OF assms(1) _ assms(3,4,2)])
      (auto simp: spec by_id_snoc [where key = "[]"] cf, simp add: by_id_def)
  then show thesis using that by (auto simp: load_listing_def by_id_listed [OF t])
qed

lemma table_finite:
  assumes "finite (dom m)" "dir_ok c idf dir m"
  shows "finite (dom (table_of c dir m))"
proof -
  have "getKey dir ` dom (table_of c dir m) \<subseteq> dom m" using dir_keys [OF assms(2)] by auto
  then show ?thesis using assms(1) by (meson finite_imageD finite_subset getKey_inj inj_onI)
qed

subsection \<open>The proxies\<close>

text \<open>The addresses a listing of the proxies reaches.\<close>

definition listable :: "string \<Rightarrow> bool" where
  "listable a \<longleftrightarrow> addr_ok a \<and> MinAddrFormat \<le> GetAddrFormat a \<and> GetAddrFormat a < MaxAddrFormat"

lemma proxy_entry:
  assumes "proxies_dir_ok c dir m" "m (dir @ ''/'' @ a) = Some data"
  shows "\<exists>p. cd_Unmarshal c data = Ok p \<and> a = GetAddrFormat (px_Addr p) \<and> proxies_of c dir m a = Some p"
  using assms by (force simp: proxies_dir_ok_def getAddrKey_def proxies_of_def)

lemma addr_format_min: "GetAddrFormat MinAddrFormat = MinAddrFormat" "GetAddrFormat MaxAddrFormat = MaxAddrFormat"
  by (simp_all add: GetAddrFormat_def MinAddrFormat_def MaxAddrFormat_def)

lemma proxies_range:
  assumes "proxies_dir_ok c dir m" "m k = Some data" "getAddrKey dir MinAddrFormat \<le> k" "k < getAddrKey dir MaxAddrFormat"
  shows "\<exists>p. k = getAddrKey dir (px_Addr p) \<and> cd_Unmarshal c data = Ok p \<and> proxies_of c dir m (GetAddrFormat (px_Addr p)) = Some p"
proof -
  have "\<exists>z. k = (dir @ ''/'') @ z"
    by (rule between_prefix [of _ MinAddrFormat _ MaxAddrFormat]) (use assms(3,4) in \<open>simp_all add: getAddrKey_def addr_format_min\<close>)
  then obtain z where "k = dir @ ''/'' @ z" by auto
  then show ?thesis using proxy_entry [OF assms(1), of z data] assms(2) by (auto simp: getAddrKey_def)
qed

lemma GetProxies_run:
  assumes "etcd_ok E kv" "proxies_dir_ok c (es_proxiesDir e) (kv db)" "0 < limit"
    and lst: "\<And>a p. proxies_of c (es_proxiesDir e) (kv db) a = Some p \<Longrightarrow> listable (px_Addr p)"
  obtains ps where "GetProxies E c e limit db = Some (Ok (), ps)"
    "(\<lambda>p. GetAddrFormat (px_Addr p)) ` set ps = dom (proxies_of c (es_proxiesDir e) (kv db))"
proof -
  let ?m = "kv db" and ?d = "es_proxiesDir e" and ?f = "\<lambda>p. GetAddrFormat (px_Addr p)"
  let ?P = "\<lambda>k. getAddrKey ?d MinAddrFormat \<le> k \<and> k < getAddrKey ?d MaxAddrFormat"
  define ps where "ps = map (decoded (cd_Unmarshal c) \<circ> snd) (kv_entries ?m ?P)"
  have fin: "finite (dom ?m)" by (rule etcd_finite [OF assms(1)])
  have run: "GetProxies E c e limit db = Some (Ok (), [] @ ps)"
    unfolding GetProxies_def ps_def
  proof (rule addr_pages.loop_run [OF fin assms(3) get_range [OF assms(1,3)]], intro allI impI)
    fix k data assume "?m k = Some data" "getAddrKey ?d MinAddrFormat \<le> k" "k < getAddrKey ?d MaxAddrFormat"
    from proxies_range [OF assms(2) this] lst show "\<exists>v. cd_Unmarshal c data = Ok v \<and> addr_ok (px_Addr v) \<and> getAddrKey ?d (px_Addr v) = k"
      by (auto simp: listable_def)
  qed
  have "?f ` set ps \<subseteq> dom (proxies_of c ?d ?m)"
  proof (clarsimp simp: ps_def)
    fix k data assume "(k, data) \<in> set (kv_entries ?m ?P)"
    then have "?m k = Some data" "?P k" using entries_mem [OF fin, of k data ?P] by simp_all
    then show "\<exists>y. proxies_of c ?d ?m (?f (decoded (cd_Unmarshal c) data)) = Some y"
      using proxies_range [OF assms(2), of k data] by (auto simp: decoded_def)
  qed
  moreover have "a \<in> ?f ` set ps" if pa: "proxies_of c ?d ?m a = Some p" for a p
  proof -
    obtain data where data: "?m (?d @ ''/'' @ a) = Some data" using pa by (auto simp: proxies_of_def split: option.splits)
    obtain q where q: "cd_Unmarshal c data = Ok q" "a = ?f q" "proxies_of c ?d ?m a = Some q" using proxy_entry [OF assms(2) data] by blast
    have "?P (?d @ ''/'' @ a)" using lst [OF q(3)] q(2) by (simp add: listable_def getAddrKey_def addr_format_min)
    then have "(?d @ ''/'' @ a, data) \<in> set (kv_entries ?m ?P)" using data by (simp add: entries_mem [OF fin])
    then show ?thesis using q(1,2) by (force simp: ps_def decoded_def)
  qed
  ultimately have "?f ` set ps = dom (proxies_of c ?d ?m)" by auto
  then show thesis using that run by simp
qed

subsection \<open>Every stage\<close>

lemma drop_add:
  "drop_err (addProxy en p d) = doEvent en (ProxyEvt EventTypeNew [] p) d" "drop_err (addCluster en c d) = doEvent en (ClusterEvt EventTypeNew [] c) d"
  "drop_err (addServer en s d) = doEvent en (ServerEvt EventTypeNew [] s) d" "drop_err (addAPI en a d) = doEvent en (APIEvt EventTypeNew [] a) d"
  "drop_err (addRouting en r d) = doEvent en (RoutingEvt EventTypeNew [] r) d" "drop_err (addPlugin v d) = doEvent en (PluginEvt EventTypeNew [] v) d"
  by simp_all

lemma loadProxies_run:
  assumes "env_ok rx (w_env W)" "etcd_ok (w_etcd W) kv" "proxies_dir_ok (c_Proxy (w_codecs W)) (es_proxiesDir e) (kv db)"
    and "\<And>a p. proxies_of (c_Proxy (w_codecs W)) (es_proxiesDir e) (kv db) a = Some p \<Longrightarrow> listable (px_Addr p)"
    and "reach rx d" "cf_proxies (abs_config d) = Map.empty"
  obtains d' t where "loadProxies W e db d = Some (Ok d')" "reach rx d'" "abs_config d' = (abs_config d)\<lparr>cf_proxies := t\<rparr>"
    "dom t = dom (proxies_of (c_Proxy (w_codecs W)) (es_proxiesDir e) (kv db))"
proof -
  let ?f = "\<lambda>p. GetAddrFormat (px_Addr p)"
  have "0 < load_limit" by (simp add: load_limit_def)
  then obtain ps where ps: "GetProxies (w_etcd W) (c_Proxy (w_codecs W)) e load_limit db = Some (Ok (), ps)"
    "?f ` set ps = dom (proxies_of (c_Proxy (w_codecs W)) (es_proxiesDir e) (kv db))"
    by (rule GetProxies_run [OF assms(2,3)]) (use assms(4) in simp_all)
  have "\<exists>d'. load_all (addProxy (w_env W)) ps d = Ok d' \<and> reach rx d' \<and>
      abs_config d' = (abs_config d)\<lparr>cf_proxies := cf_proxies (abs_config d')\<rparr> \<and> dom (cf_proxies (abs_config d')) = ?f ` set ([] @ ps)"
  proof (rule load_all_run [where J = "\<lambda>xs cf. cf = (abs_config d)\<lparr>cf_proxies := cf_proxies cf\<rparr> \<and> dom (cf_proxies cf) = ?f ` set xs"
        and mk = "ProxyEvt EventTypeNew []", OF assms(1) _ drop_add(1) _ assms(5)])
    show "abs_config d = (abs_config d)\<lparr>cf_proxies := cf_proxies (abs_config d)\<rparr> \<and> dom (cf_proxies (abs_config d)) = ?f ` set []"
      using assms(6) by simp
  next
    fix xs :: "Proxy list" and v cf cf'
    assume cf: "cf = (abs_config d)\<lparr>cf_proxies := cf_proxies cf\<rparr> \<and> dom (cf_proxies cf) = ?f ` set xs" and "cf' \<in> spec_event (ProxyEvt EventTypeNew [] v) cf"
    then have cf': "cf' = (if cf_proxies cf (?f v) = None then cf\<lparr>cf_proxies := (cf_proxies cf)(?f v \<mapsto> v)\<rparr> else cf)" by simp
    have "cf' = (abs_config d)\<lparr>cf_proxies := cf_proxies cf'\<rparr>" unfolding cf' using cf by (cases cf, cases "abs_config d") auto
    moreover have "dom (cf_proxies cf') = ?f ` set (xs @ [v])" unfolding cf' using cf by auto
    ultimately show "cf' = (abs_config d)\<lparr>cf_proxies := cf_proxies cf'\<rparr> \<and> dom (cf_proxies cf') = ?f ` set (xs @ [v])" by simp
  qed simp
  then show thesis using that ps by (auto simp: loadProxies_def load_listing_def)
qed

lemma loadAPIs_run:
  assumes "env_ok rx (w_env W)" "etcd_ok (w_etcd W) kv" "dir_ok (c_API (w_codecs W)) api_ID (es_apisDir e) (kv db)"
    and valid: "\<And>i v. table_of (c_API (w_codecs W)) (es_apisDir e) (kv db) i = Some v \<Longrightarrow> valid_api rx v"
    and "reach rx d" "cf_apis (abs_config d) = Map.empty"
  obtains d' t where "loadAPIs W e db d = Some (Ok d')" "reach rx d'" "abs_config d' = (abs_config d)\<lparr>cf_apis := t\<rparr>"
    "t \<subseteq>\<^sub>m table_of (c_API (w_codecs W)) (es_apisDir e) (kv db)"
proof -
  let ?t = "table_of (c_API (w_codecs W)) (es_apisDir e) (kv db)"
  have fin: "finite (dom ?t)" by (rule table_finite [OF etcd_finite [OF assms(2)] assms(3)])
  have mem: "\<exists>i. ?t i = Some v \<and> api_ID v = i \<and> i \<noteq> 0" if "v \<in> set (listed ?t)" for v
    using listed_mem [OF fin that] table_dom [OF assms(3)] by blast
  have "GetAPIs W e load_limit db = Some (Ok (), listed ?t)"
    using getValues_run [OF assms(2), of "api_pb (w_codecs W)"] assms(3) by (simp add: GetAPIs_def pb_defs load_limit_def)
  moreover have "\<exists>d'. load_all (addAPI (w_env W)) (listed ?t) d = Ok d' \<and> reach rx d' \<and>
      abs_config d' = (abs_config d)\<lparr>cf_apis := cf_apis (abs_config d')\<rparr> \<and> cf_apis (abs_config d') \<subseteq>\<^sub>m ?t"
  proof (rule load_all_run [where J = "\<lambda>xs cf. cf = (abs_config d)\<lparr>cf_apis := cf_apis cf\<rparr> \<and> cf_apis cf \<subseteq>\<^sub>m ?t" and xs = "[]"
        and mk = "APIEvt EventTypeNew []", OF assms(1) _ drop_add(4) _ assms(5)])
    show "abs_config d = (abs_config d)\<lparr>cf_apis := cf_apis (abs_config d)\<rparr> \<and> cf_apis (abs_config d) \<subseteq>\<^sub>m ?t"
      using assms(6) by simp
  next
    fix v d assume "v \<in> set (listed ?t)"
    then show "evt_ok rx d (APIEvt EventTypeNew [] v)" using mem valid by (auto simp: key_ok_def)
  next
    fix xs v cf cf'
    assume cf: "cf = (abs_config d)\<lparr>cf_apis := cf_apis cf\<rparr> \<and> cf_apis cf \<subseteq>\<^sub>m ?t" and v: "v \<in> set (listed ?t)"
      and "cf' \<in> spec_event (APIEvt EventTypeNew [] v) cf"
    then have cf': "cf' = cf\<lparr>cf_apis := (cf_apis cf)(api_ID v \<mapsto> v)\<rparr> \<or> cf' = cf" by (auto simp: spec_put_def)
    have "cf' = (abs_config d)\<lparr>cf_apis := cf_apis cf'\<rparr>" using cf' cf by (cases cf, cases "abs_config d") auto
    moreover have "cf_apis cf' \<subseteq>\<^sub>m ?t" using cf' cf mem [OF v] by (auto simp: map_le_def split: if_splits) (metis domI)
    ultimately show "cf' = (abs_config d)\<lparr>cf_apis := cf_apis cf'\<rparr> \<and> cf_apis cf' \<subseteq>\<^sub>m ?t" by simp
  qed
  ultimately show thesis using that by (auto simp: loadAPIs_def load_listing_def)
qed

lemma table_stage:
  assumes "env_ok rx (w_env W)" "etcd_ok (w_etcd W) kv" "dir_ok (pb_codec p) (pb_GetID p) dir (kv db)"
    and t: "t = table_of (pb_codec p) dir (kv db)" "endID \<notin> dom t"
    and mk: "\<And>v d. drop_err (add v d) = doEvent (w_env W) (mk v) d" "\<And>v d. t (pb_GetID p v) = Some v \<Longrightarrow> pb_GetID p v \<noteq> 0 \<Longrightarrow> evt_ok rx d (mk v)"
    and spec: "\<And>v tb. spec_event (mk v) (upd (\<lambda>_. tb) (abs_config d)) = {upd (\<lambda>_. spec_put (pb_GetID p) EventTypeNew [] v tb) (abs_config d)}"
    and d: "reach rx d" "abs_config d = upd (\<lambda>_. Map.empty) (abs_config d)"
  obtains d' where "load_listing add (getValues (w_etcd W) p dir load_limit db) d = Some (Ok d')" "reach rx d'" "abs_config d' = upd (\<lambda>_. t) (abs_config d)"
proof -
  have fin: "finite (dom t)" unfolding t(1) by (rule table_finite [OF etcd_finite [OF assms(2)] assms(3)])
  have dom: "pb_GetID p v = i \<and> i \<noteq> 0" if "t i = Some v" for i v using that table_dom [OF assms(3)] by (simp add: t(1))
  have get: "getValues (w_etcd W) p dir load_limit db = Some (Ok (), listed t)"
    unfolding t(1) by (rule getValues_run [OF assms(2,3)]) (simp add: load_limit_def)
  show thesis
  proof (rule load_table_run [where mk = mk and idf = "pb_GetID p" and t = t and upd = upd, OF assms(1) d(1) mk(1) _ spec fin t(2) _ d(2) that [unfolded get]])
    fix v d assume "v \<in> set (listed t)"
    then show "evt_ok rx d (mk v)" using listed_mem [OF fin] dom mk(2) by blast
  qed (use dom in blast)
qed

lemma loadClusters_run:
  assumes "env_ok rx (w_env W)" "etcd_ok (w_etcd W) kv" "dir_ok (c_Cluster (w_codecs W)) cl_ID (es_clustersDir e) (kv db)"
    and "endID \<notin> dom (table_of (c_Cluster (w_codecs W)) (es_clustersDir e) (kv db))" "reach rx d" "cf_clusters (abs_config d) = Map.empty"
  obtains d' where "loadClusters W e db d = Some (Ok d')" "reach rx d'"
    "abs_config d' = (abs_config d)\<lparr>cf_clusters := table_of (c_Cluster (w_codecs W)) (es_clustersDir e) (kv db)\<rparr>"
  by (rule table_stage [where p = "cluster_pb (w_codecs W)" and dir = "es_clustersDir e" and mk = "ClusterEvt EventTypeNew []"
      and upd = cf_clusters_update and d = d, OF assms(1,2) _ refl _ drop_add(2)])
    (use assms that in \<open>simp_all add: pb_defs key_ok_def loadClusters_def GetClusters_def\<close>)

lemma loadServers_run:
  assumes "env_ok rx (w_env W)" "etcd_ok (w_etcd W) kv" "dir_ok (c_Server (w_codecs W)) sv_ID (es_serversDir e) (kv db)"
    and "endID \<notin> dom (table_of (c_Server (w_codecs W)) (es_serversDir e) (kv db))" "reach rx d" "cf_servers (abs_config d) = Map.empty"
    and "\<And>i v. table_of (c_Server (w_codecs W)) (es_serversDir e) (kv db) i = Some v \<Longrightarrow> valid_server v"
  obtains d' where "loadServers W e db d = Some (Ok d')" "reach rx d'"
    "abs_config d' = (abs_config d)\<lparr>cf_servers := table_of (c_Server (w_codecs W)) (es_serversDir e) (kv db)\<rparr>"
  by (rule table_stage [where p = "server_pb (w_codecs W)" and dir = "es_serversDir e" and mk = "ServerEvt EventTypeNew []"
      and upd = cf_servers_update and d = d, OF assms(1,2) _ refl _ drop_add(3)])
    (use assms that in \<open>simp_all add: pb_defs key_ok_def loadServers_def GetServers_def\<close>)

lemma loadRoutings_run:
  assumes "env_ok rx (w_env W)" "etcd_ok (w_etcd W) kv" "dir_ok (c_Routing (w_codecs W)) rg_ID (es_routingsDir e) (kv db)"
    and "endID \<notin> dom (table_of (c_Routing (w_codecs W)) (es_routingsDir e) (kv db))" "reach rx d" "cf_routings (abs_config d) = Map.empty"
  obtains d' where "loadRoutings W e db d = Some (Ok d')" "reach rx d'"
    "abs_config d' = (abs_config d)\<lparr>cf_routings := table_of (c_Routing (w_codecs W)) (es_routingsDir e) (kv db)\<rparr>"
  by (rule table_stage [where p = "routing_pb (w_codecs W)" and dir = "es_routingsDir e" and mk = "RoutingEvt EventTypeNew []"
      and upd = cf_routings_update and d = d, OF assms(1,2) _ refl _ drop_add(5)])
    (use assms that in \<open>simp_all add: pb_defs key_ok_def loadRoutings_def GetRoutings_def\<close>)

lemma loadPlugins_run:
  assumes "env_ok rx (w_env W)" "etcd_ok (w_etcd W) kv" "dir_ok (c_Plugin (w_codecs W)) pl_ID (es_pluginsDir e) (kv db)"
    and "endID \<notin> dom (table_of (c_Plugin (w_codecs W)) (es_pluginsDir e) (kv db))" "reach rx d" "cf_plugins (abs_config d) = Map.empty"
  obtains d' where "loadPlugins W e db d = Some (Ok d')" "reach rx d'"
    "abs_config d' = (abs_config d)\<lparr>cf_plugins := table_of (c_Plugin (w_codecs W)) (es_pluginsDir e) (kv db)\<rparr>"
  by (rule table_stage [where p = "plugin_pb (w_codecs W)" and dir = "es_pluginsDir e" and mk = "PluginEvt EventTypeNew []"
      and upd = cf_plugins_update and d = d, OF assms(1,2) _ refl _ drop_add(6)])
    (use assms that in \<open>simp_all add: pb_defs loadPlugins_def GetPlugins_def\<close>)

text \<open>The binds of a cluster: every server and the cluster exist, so no bind is refused.\<close>

lemma bind_all_run:
  assumes "env_ok rx en"
  shows "reach rx d \<Longrightarrow> cf_clusters (abs_config d) c \<noteq> None \<Longrightarrow> \<forall>s\<in>set ss. cf_servers (abs_config d) s \<noteq> None \<Longrightarrow>
    \<exists>d'. bind_all c ss d = Ok d' \<and> reach rx d' \<and>
      abs_config d' = (abs_config d)\<lparr>cf_binds := cf_binds (abs_config d) \<union> {c} \<times> set ss\<rparr>"
proof (induction ss arbitrary: d)
  case (Cons s ss)
  let ?b = "\<lparr>bd_ClusterID = c, bd_ServerID = s\<rparr>"
  have some: "map_of (d_servers d) s \<noteq> None" "map_of (d_clusters d) c \<noteq> None"
    using Cons.prems by (auto simp: abs_config_def map_of_metas)
  then obtain d0 where d0: "addBind ?b d = Ok (None, d0)" by (auto simp: addBind_def Let_def)
  obtain d1 where d1: "doEvent en (BindEvt EventTypeNew ?b) d = Ok d1" "abs_config d1 \<in> spec_event (BindEvt EventTypeNew ?b) (abs_config d)"
    using event_run [OF reach_good [OF Cons.prems(1)] assms, of "BindEvt EventTypeNew ?b"] by auto
  have [simp]: "d1 = d0" using d1(1) d0 by (simp add: drop_err_def)
  have a: "abs_config d0 = (abs_config d)\<lparr>cf_binds := insert (c, s) (cf_binds (abs_config d))\<rparr>" using d1(2) Cons.prems by simp
  have r: "reach rx d0" by (rule reach_event [OF Cons.prems(1) assms, of "BindEvt EventTypeNew ?b"]) (use d1(1) in simp_all)
  have "\<exists>d'. bind_all c ss d0 = Ok d' \<and> reach rx d' \<and>
      abs_config d' = (abs_config d0)\<lparr>cf_binds := cf_binds (abs_config d0) \<union> {c} \<times> set ss\<rparr>"
    by (rule Cons.IH [OF r]) (use Cons.prems in \<open>simp_all add: a\<close>)
  then show ?case by (auto simp: d0 a)
qed simp

lemma bind_clusters_run:
  assumes "env_ok rx (w_env W)" "etcd_ok (w_etcd W) kv" "binds_dir_ok (c_Bind (w_codecs W)) e (kv db)"
    and "\<forall>(c, s)\<in>B. cf_servers (abs_config d) s \<noteq> None" "B = binds_of e (kv db)"
  shows "reach rx d \<Longrightarrow> \<forall>c\<in>set cs. cf_clusters (abs_config d) c \<noteq> None \<Longrightarrow> \<forall>(c, s)\<in>B. cf_servers (abs_config d) s \<noteq> None \<Longrightarrow>
    \<exists>d'. bind_clusters W e db cs d = Ok d' \<and> reach rx d' \<and>
      abs_config d' = (abs_config d)\<lparr>cf_binds := cf_binds (abs_config d) \<union> {x \<in> B. fst x \<in> set cs}\<rparr>"
proof (induction cs arbitrary: d)
  case (Cons c cs)
  have get: "doGetBindServers W e c db = Ok (sorted_list_of_set {s. (c, s) \<in> B})" "finite {s. (c, s) \<in> B}"
    using doGetBindServers_run [OF assms(2,3), of c] assms(5) by simp_all
  obtain d1 where d1: "bind_all c (sorted_list_of_set {s. (c, s) \<in> B}) d = Ok d1" "reach rx d1"
      "abs_config d1 = (abs_config d)\<lparr>cf_binds := cf_binds (abs_config d) \<union> {c} \<times> {s. (c, s) \<in> B}\<rparr>"
    using bind_all_run [OF assms(1) Cons.prems(1), of c "sorted_list_of_set {s. (c, s) \<in> B}"] Cons.prems(2,3) get(2) by fastforce
  have "\<exists>d'. bind_clusters W e db cs d1 = Ok d' \<and> reach rx d' \<and>
      abs_config d' = (abs_config d1)\<lparr>cf_binds := cf_binds (abs_config d1) \<union> {x \<in> B. fst x \<in> set cs}\<rparr>"
    by (rule Cons.IH [OF d1(2)]) (use Cons.prems(2,3) in \<open>simp_all add: d1(3)\<close>)
  moreover have "{c} \<times> {s. (c, s) \<in> B} \<union> {x \<in> B. fst x \<in> set cs} = {x \<in> B. fst x \<in> set (c # cs)}" by auto
  ultimately show ?case by (simp add: get d1 Un_assoc)
qed simp

lemma loadBinds_run:
  assumes "env_ok rx (w_env W)" "etcd_ok (w_etcd W) kv" "binds_dir_ok (c_Bind (w_codecs W)) e (kv db)" "reach rx d"
    and known: "\<forall>(c, s)\<in>binds_of e (kv db). cf_clusters (abs_config d) c \<noteq> None \<and> cf_servers (abs_config d) s \<noteq> None"
    and "cf_binds (abs_config d) = {}"
  obtains d' where "loadBinds W e db d = Some (Ok d')" "reach rx d'" "abs_config d' = (abs_config d)\<lparr>cf_binds := binds_of e (kv db)\<rparr>"
proof -
  have cl: "c \<in> fst ` set (d_clusters d) \<longleftrightarrow> cf_clusters (abs_config d) c \<noteq> None" for c
    by (simp add: abs_config_def map_of_metas map_of_eq_None_iff)
  then have all: "{x \<in> binds_of e (kv db). fst x \<in> set (map fst (d_clusters d))} = binds_of e (kv db)" using known by force
  have "\<exists>d'. bind_clusters W e db (map fst (d_clusters d)) d = Ok d' \<and> reach rx d' \<and>
      abs_config d' = (abs_config d)\<lparr>cf_binds := cf_binds (abs_config d) \<union> {x \<in> binds_of e (kv db). fst x \<in> set (map fst (d_clusters d))}\<rparr>"
    by (rule bind_clusters_run [OF assms(1-3) _ refl assms(4)]) (use known cl in fastforce)+
  then show thesis using that assms(6) unfolding all by (auto simp: loadBinds_def)
qed

lemma loadAppliedPlugins_run:
  assumes "env_ok rx (w_env W)" "etcd_ok (w_etcd W) kv" "applied_ok (c_Applied (w_codecs W)) (es_appliedPluginDir e) (kv db)" "reach rx d"
    and ids: "ids = applied_of (c_Applied (w_codecs W)) (es_appliedPluginDir e) (kv db)" "\<forall>i\<in>set ids. cf_plugins (abs_config d) i \<noteq> None"
  obtains d' where "loadAppliedPlugins W e db d = Some (Ok d')" "reach rx d'" "abs_config d' = (abs_config d)\<lparr>cf_applied := Some ids\<rparr>"
proof -
  let ?ev = "ApplyPluginEvt EventTypeNew ids"
  obtain d' where d': "doEvent (w_env W) ?ev d = Ok d'" "abs_config d' \<in> spec_event ?ev (abs_config d)"
    using event_run [OF reach_good [OF assms(4)] assms(1), of ?ev] by auto
  have "reach rx d'" by (rule reach_event [OF assms(4,1) _ d'(1)]) simp
  moreover have "doGetAppliedPlugins W e db = Ok ids" using doGetAppliedPlugins_run [OF assms(2,3)] ids(1) by simp
  ultimately show thesis using that d' ids(2) by (auto simp: loadAppliedPlugins_def)
qed

subsection \<open>Starting a gateway\<close>

definition listable_config :: "config \<Rightarrow> bool" where
  "listable_config cf \<longleftrightarrow> endID \<notin> dom (cf_clusters cf) \<and> endID \<notin> dom (cf_servers cf) \<and> endID \<notin> dom (cf_routings cf) \<and>
     endID \<notin> dom (cf_plugins cf) \<and> (\<forall>a p. cf_proxies cf a = Some p \<longrightarrow> listable (px_Addr p))"

lemma then_load_Ok [simp]: "then_load (Some (Ok d)) f = f d"
  by (simp add: then_load_def)

lemma load_run:
  assumes en: "env_ok rx (w_env W)" and E: "etcd_ok (w_etcd W) kv" and S: "sound rx (w_codecs W) e (kv db)"
    and L: "listable_config (store_config (w_codecs W) e (kv db))"
  shows "\<exists>d. load W e db newDispatcher = Some (Ok d) \<and> reach rx d \<and> mirrors (abs_config d) (store_config (w_codecs W) e (kv db))"
proof -
  let ?C = "w_codecs W"
  note ok = S [unfolded sound_def dirs_ok_def intact_def store_config_def, simplified]
  note lst = L [unfolded listable_config_def store_config_def, simplified]
  have init: "abs_config newDispatcher = empty_config\<lparr>cf_applied := None\<rparr>"
    by (simp add: abs_config_def newDispatcher_def empty_config_def bind_set_def)
  obtain d1 px where d1: "loadProxies W e db newDispatcher = Some (Ok d1)" "reach rx d1"
      "abs_config d1 = (abs_config newDispatcher)\<lparr>cf_proxies := px\<rparr>" "dom px = dom (proxies_of (c_Proxy ?C) (es_proxiesDir e) (kv db))"
    by (rule loadProxies_run [OF en E _ _ reach_init, of e db]) (use ok lst in \<open>simp_all add: init empty_config_def\<close>)
  note a1 = d1(3) [unfolded init]
  obtain d2 where d2: "loadClusters W e db d1 = Some (Ok d2)" "reach rx d2"
      "abs_config d2 = (abs_config d1)\<lparr>cf_clusters := table_of (c_Cluster ?C) (es_clustersDir e) (kv db)\<rparr>"
    by (rule loadClusters_run [OF en E _ _ d1(2), of e db]) (use ok lst in \<open>simp_all add: a1 empty_config_def\<close>)
  note a2 = d2(3) [unfolded a1]
  obtain d3 where d3: "loadServers W e db d2 = Some (Ok d3)" "reach rx d3"
      "abs_config d3 = (abs_config d2)\<lparr>cf_servers := table_of (c_Server ?C) (es_serversDir e) (kv db)\<rparr>"
    by (rule loadServers_run [OF en E _ _ d2(2), of e db]) (use ok lst in \<open>simp_all add: a2 empty_config_def\<close>)
  note a3 = d3(3) [unfolded a2]
  obtain d4 where d4: "loadBinds W e db d3 = Some (Ok d4)" "reach rx d4" "abs_config d4 = (abs_config d3)\<lparr>cf_binds := binds_of e (kv db)\<rparr>"
    by (rule loadBinds_run [OF en E _ d3(2), of e db]) (use ok in \<open>simp_all add: a3 empty_config_def\<close>)
  note a4 = d4(3) [unfolded a3]
  obtain d5 ap where d5: "loadAPIs W e db d4 = Some (Ok d5)" "reach rx d5" "abs_config d5 = (abs_config d4)\<lparr>cf_apis := ap\<rparr>"
      "ap \<subseteq>\<^sub>m table_of (c_API ?C) (es_apisDir e) (kv db)"
    by (rule loadAPIs_run [OF en E _ _ d4(2), of e db]) (use ok in \<open>simp_all add: a4 empty_config_def\<close>)
  note a5 = d5(3) [unfolded a4]
  obtain d6 where d6: "loadRoutings W e db d5 = Some (Ok d6)" "reach rx d6"
      "abs_config d6 = (abs_config d5)\<lparr>cf_routings := table_of (c_Routing ?C) (es_routingsDir e) (kv db)\<rparr>"
    by (rule loadRoutings_run [OF en E _ _ d5(2), of e db]) (use ok lst in \<open>simp_all add: a5 empty_config_def\<close>)
  note a6 = d6(3) [unfolded a5]
  obtain d7 where d7: "loadPlugins W e db d6 = Some (Ok d7)" "reach rx d7"
      "abs_config d7 = (abs_config d6)\<lparr>cf_plugins := table_of (c_Plugin ?C) (es_pluginsDir e) (kv db)\<rparr>"
    by (rule loadPlugins_run [OF en E _ _ d6(2), of e db]) (use ok lst in \<open>simp_all add: a6 empty_config_def\<close>)
  note a7 = d7(3) [unfolded a6]
  obtain d8 where d8: "loadAppliedPlugins W e db d7 = Some (Ok d8)" "reach rx d8"
      "abs_config d8 = (abs_config d7)\<lparr>cf_applied := Some (applied_of (c_Applied ?C) (es_appliedPluginDir e) (kv db))\<rparr>"
    by (rule loadAppliedPlugins_run [OF en E _ d7(2) refl, of e db]) (use ok in \<open>simp_all add: a7 empty_config_def\<close>)
  have "load W e db newDispatcher = Some (Ok d8)"
    by (simp add: load_def d1(1) d2(1) d3(1) d4(1) d5(1) d6(1) d7(1) d8(1))
  moreover have "mirrors (abs_config d8) (store_config ?C e (kv db))"
    using d1(4) map_le_implies_dom_le [OF d5(4)] by (simp add: d8(3) a7 mirrors_def store_config_def)
  ultimately show ?thesis using d8(2) by blast
qed



end
