(* ===== verification/Store_Batch.thy ===== *)
theory Store_Batch
  imports Store_Load
begin

text \<open>
  Changing many messages at once (\<^verbatim>\<open>store/store_etcd.go\<close>, \<^verbatim>\<open>Batch\<close>) and copying a store to another gateway (\<^verbatim>\<open>BackupTo\<close>). The
  other gateway answers remote calls; its operations are parameters, and what the copy relies on is \<open>target_ok\<close>. That the store
  itself meets it is shown here as well.
\<close>

subsection \<open>Batches\<close>

record BatchReq =
  bq_PutClusters :: "Cluster list"
  bq_RemoveClusters :: "uint64 list"
  bq_PutServers :: "Server list"
  bq_RemoveServers :: "uint64 list"
  bq_PutAPIs :: "API list"
  bq_RemoveAPIs :: "uint64 list"
  bq_PutRoutings :: "Routing list"
  bq_RemoveRoutings :: "uint64 list"
  bq_AddBinds :: "Bind list"
  bq_RemoveBinds :: "Bind list"
  bq_PutPlugins :: "Plugin list"
  bq_RemovePlugins :: "uint64 list"
  bq_ApplyPlugins :: "uint64 list option"

definition no_batch :: BatchReq where
  "no_batch = \<lparr>bq_PutClusters = [], bq_RemoveClusters = [], bq_PutServers = [], bq_RemoveServers = [], bq_PutAPIs = [], bq_RemoveAPIs = [],
     bq_PutRoutings = [], bq_RemoveRoutings = [], bq_AddBinds = [], bq_RemoveBinds = [], bq_PutPlugins = [], bq_RemovePlugins = [],
     bq_ApplyPlugins = None\<rparr>"

record BatchRsp =
  br_PutServers :: "uint64 list"
  br_PutClusters :: "uint64 list"
  br_AddBinds :: nat
  br_PutAPIs :: "uint64 list"
  br_PutRoutings :: "uint64 list"
  br_PutPlugins :: "uint64 list"

text \<open>The loop over one kind of message: the operations so far, and the identifiers of the response, which has one only for a
  message that came without.\<close>

fun put_all :: "'db etcd \<Rightarrow> 'v pb \<Rightarrow> string \<Rightarrow> ('v \<Rightarrow> (store_error, unit) outcome) \<Rightarrow> 'v list \<Rightarrow> etcd_op list \<Rightarrow> uint64 list
    \<Rightarrow> ('db, etcd_op list \<times> uint64 list) sm" where
  "put_all E p dir validate [] ops ids = slift (Ok (ops, ids))"
| "put_all E p dir validate (v # vs) ops ids =
     sbind (slift (validate v)) (\<lambda>_.
     sbind (putPBWithOp E p dir v) (\<lambda>(x, v').
       put_all E p dir validate vs (ops @ [x]) (if pb_GetID p v = 0 then ids @ [pb_GetID p v'] else ids)))"

definition put_kind :: "'db etcd \<Rightarrow> 'v pb \<Rightarrow> string \<Rightarrow> ('v \<Rightarrow> (store_error, unit) outcome) \<Rightarrow> 'v list \<Rightarrow> ('db, uint64 list) sm" where
  "put_kind E p dir validate vs =
     sbind (put_all E p dir validate vs [] []) (\<lambda>(ops, ids). sbind (putBatch E ops) (\<lambda>_. slift (Ok ids)))"

fun bind_ops :: "Bind codec \<Rightarrow> EtcdStore \<Rightarrow> Bind list \<Rightarrow> (store_error, etcd_op list) outcome" where
  "bind_ops c e [] = Ok []"
| "bind_ops c e (b # bs) = obind (cd_Marshal c b) (\<lambda>data. obind (bind_ops c e bs) (\<lambda>ops. Ok (OpPut (getBindKey e b) data None # ops)))"

definition put_plugins :: "'db world \<Rightarrow> Plugin list \<Rightarrow> uint64 list option \<Rightarrow> ('db, uint64 list) sm" where
  "put_plugins W vs applied s =
     sbind (put_all (w_etcd W) (plugin_pb (w_codecs W)) (es_pluginsDir (fst s)) (NewRuntime (w_env W)) vs [] []) (\<lambda>(ops, ids).
     sbind (slift (case applied of
         None \<Rightarrow> Ok ops
       | Some v \<Rightarrow> obind (putPBKeyWithOp (c_Applied (w_codecs W)) (es_appliedPluginDir (fst s)) v) (\<lambda>x. Ok (ops @ [x])))) (\<lambda>ops.
     sbind (putBatch (w_etcd W) ops) (\<lambda>_. slift (Ok ids)))) s"

definition Batch :: "'db world \<Rightarrow> BatchReq \<Rightarrow> ('db, BatchRsp) sm" where
  "Batch W b s = (let E = w_etcd W; C = w_codecs W; e = fst s in
     sbind (put_kind E (server_pb C) (es_serversDir e) ValidateServer (bq_PutServers b)) (\<lambda>servers.
     sbind (put_kind E (cluster_pb C) (es_clustersDir e) ValidateCluster (bq_PutClusters b)) (\<lambda>clusters.
     sbind (slift (bind_ops (c_Bind C) e (bq_AddBinds b))) (\<lambda>ops. sbind (putBatch E ops) (\<lambda>_.
     sbind (put_kind E (api_pb C) (es_apisDir e) (ValidateAPI (en_rx (w_env W))) (bq_PutAPIs b)) (\<lambda>apis.
     sbind (put_kind E (routing_pb C) (es_routingsDir e) ValidateRouting (bq_PutRoutings b)) (\<lambda>routings.
     sbind (put_plugins W (bq_PutPlugins b) (bq_ApplyPlugins b)) (\<lambda>plugins.
       slift (Ok \<lparr>br_PutServers = servers, br_PutClusters = clusters, br_AddBinds = length (bq_AddBinds b), br_PutAPIs = apis,
         br_PutRoutings = routings, br_PutPlugins = plugins\<rparr>)))))))) s)"

text \<open>The fields for removals have no effect.\<close>

lemma Batch_ignores_removes:
  "Batch W (b\<lparr>bq_RemoveClusters := a1, bq_RemoveServers := a2, bq_RemoveAPIs := a3, bq_RemoveRoutings := a4, bq_RemoveBinds := a5,
     bq_RemovePlugins := a6\<rparr>) s = Batch W b s"
  by (simp add: Batch_def)

subsection \<open>What a batch does\<close>

text \<open>A batch whose messages carry distinct identifiers, are valid and fit a transaction.\<close>

definition puts_ok :: "('v \<Rightarrow> uint64) \<Rightarrow> ('v \<Rightarrow> (store_error, unit) outcome) \<Rightarrow> 'v list \<Rightarrow> bool" where
  "puts_ok idf validate vs \<longleftrightarrow> (\<forall>v\<in>set vs. validate v = Ok () \<and> idf v \<noteq> 0) \<and> distinct (map idf vs)"

definition batch_valid :: "env \<Rightarrow> BatchReq \<Rightarrow> bool" where
  "batch_valid en b \<longleftrightarrow> puts_ok sv_ID ValidateServer (bq_PutServers b) \<and> puts_ok cl_ID ValidateCluster (bq_PutClusters b) \<and>
     puts_ok api_ID (ValidateAPI (en_rx en)) (bq_PutAPIs b) \<and> puts_ok rg_ID ValidateRouting (bq_PutRoutings b) \<and>
     puts_ok pl_ID (NewRuntime en) (bq_PutPlugins b) \<and> distinct (map (\<lambda>b. (bd_ClusterID b, bd_ServerID b)) (bq_AddBinds b)) \<and>
     length (bq_PutServers b) \<le> 96 \<and> length (bq_PutClusters b) \<le> 96 \<and> length (bq_AddBinds b) \<le> 96 \<and> length (bq_PutAPIs b) \<le> 96 \<and>
     length (bq_PutRoutings b) \<le> 96 \<and> length (bq_PutPlugins b) \<le> 96"

definition put_ids :: "('v \<Rightarrow> uint64) \<Rightarrow> 'v list \<Rightarrow> (uint64 \<rightharpoonup> 'v) \<Rightarrow> (uint64 \<rightharpoonup> 'v)" where
  "put_ids idf vs t = fold (\<lambda>v t. t(idf v \<mapsto> v)) vs t"

definition bind_pairs :: "Bind list \<Rightarrow> (uint64 \<times> uint64) set" where
  "bind_pairs bs = (\<lambda>b. (bd_ClusterID b, bd_ServerID b)) ` set bs"

definition batch_effect :: "BatchReq \<Rightarrow> config \<Rightarrow> config" where
  "batch_effect b cf = cf\<lparr>cf_servers := put_ids sv_ID (bq_PutServers b) (cf_servers cf), cf_clusters := put_ids cl_ID (bq_PutClusters b) (cf_clusters cf),
     cf_binds := cf_binds cf \<union> bind_pairs (bq_AddBinds b), cf_apis := put_ids api_ID (bq_PutAPIs b) (cf_apis cf),
     cf_routings := put_ids rg_ID (bq_PutRoutings b) (cf_routings cf), cf_plugins := put_ids pl_ID (bq_PutPlugins b) (cf_plugins cf),
     cf_applied := (case bq_ApplyPlugins b of None \<Rightarrow> cf_applied cf | Some v \<Rightarrow> Some v)\<rparr>"

definition writes :: "'v codec \<Rightarrow> ('v \<Rightarrow> string) \<Rightarrow> 'v \<Rightarrow> etcd_op \<Rightarrow> bool" where
  "writes c key v x \<longleftrightarrow> (\<exists>data. x = OpPut (key v) data None \<and> data \<noteq> [] \<and> cd_Unmarshal c data = Ok v)"

lemma put_all_run:
  assumes "pb_ok p" "\<forall>v\<in>set vs. validate v = Ok () \<and> pb_GetID p v \<noteq> 0"
  shows "\<exists>xs. put_all E p dir validate vs ops ids (e, db) = Some (Ok (ops @ xs, ids), e, db) \<and>
    list_all2 (writes (pb_codec p) (\<lambda>v. getKey dir (pb_GetID p v))) vs xs"
  using assms(2)
proof (induction vs arbitrary: ops)
  case (Cons v vs)
  obtain data where d: "cd_Marshal (pb_codec p) v = Ok data" "data \<noteq> []" "cd_Unmarshal (pb_codec p) data = Ok v"
    using assms(1) codec_run [of "pb_codec p" v] by (auto simp: pb_ok_def)
  let ?x = "OpPut (getKey dir (pb_GetID p v)) data None"
  have "putPBWithOp E p dir v s = Some (Ok (?x, v), s)" for s
    using Cons.prems by (simp add: putPBWithOp_def with_id_def putPBKeyWithOp_def d(1) slift_def sbind_def)
  then have step: "put_all E p dir validate (v # vs) ops ids (e, db) = put_all E p dir validate vs (ops @ [?x]) ids (e, db)"
    using Cons.prems by (simp add: sbind_Ok)
  obtain xs where "put_all E p dir validate vs (ops @ [?x]) ids (e, db) = Some (Ok ((ops @ [?x]) @ xs, ids), e, db)"
    "list_all2 (writes (pb_codec p) (\<lambda>v. getKey dir (pb_GetID p v))) vs xs" using Cons by fastforce
  then show ?case using d(2,3) unfolding step
    by (intro exI [of _ "?x # xs"]) (auto simp: writes_def [of "pb_codec p" _ v])
qed (simp add: slift_def)

lemma writes_keys:
  assumes "list_all2 (writes c key) vs xs" "distinct (map key vs)" "length vs \<le> 128"
  shows "ops_ok xs"
proof -
  have "concat (map put_key xs) = map key vs" "\<forall>x\<in>set xs. put_key x \<noteq> []" "length xs = length vs"
    using assms(1) by (induction rule: list_all2_induct) (auto simp: writes_def)
  then show ?thesis using assms(2,3) by (simp add: ops_ok_def)
qed

lemma others_agree_trans: "others_agree p b m m1 \<Longrightarrow> others_agree p b m1 m2 \<Longrightarrow> others_agree p b m m2"
  by (simp add: others_agree_def agree_def)

context kind
begin

lemma puts_map:
  assumes "list_all2 (writes (pb_codec (p C)) (\<lambda>v. getKey (dirf e) (pb_GetID (p C) v))) vs xs" "\<forall>v\<in>set vs. pb_GetID (p C) v \<noteq> 0" "ns_ok e"
  shows "dir_ok (pb_codec (p C)) (pb_GetID (p C)) (dirf e) m \<Longrightarrow>
    others_agree (es_prefix e) name m (fold op_effect xs m) \<and> dir_ok (pb_codec (p C)) (pb_GetID (p C)) (dirf e) (fold op_effect xs m) \<and>
    table_of (pb_codec (p C)) (dirf e) (fold op_effect xs m) = put_ids (pb_GetID (p C)) vs (table_of (pb_codec (p C)) (dirf e) m) \<and>
    fold op_effect xs m (es_idPath e) = m (es_idPath e)"
  using assms(1,2)
proof (induction arbitrary: m rule: list_all2_induct)
  case (Cons v vs x xs)
  obtain data where x: "x = OpPut (getKey (dirf e) (pb_GetID (p C) v)) data None" "data \<noteq> []" "cd_Unmarshal (pb_codec (p C)) data = Ok v"
    using Cons.hyps(1) by (auto simp: writes_def)
  let ?k = "getKey (dirf e) (pb_GetID (p C) v)" and ?m = "op_effect x m"
  have m: "?m = m(?k \<mapsto> data)" by (simp add: x(1))
  have k: "?k = es_prefix e @ name @ ''/'' @ fmt020d (pb_GetID (p C) v)" by (simp add: getKey_def dir [OF assms(3)])
  have o: "others_agree (es_prefix e) name m ?m"
    using others_key [OF name, where zs = "''/'' @ fmt020d (pb_GetID (p C) v)" and v = "Some data"] by (simp add: m k)
  have "dir_ok (pb_codec (p C)) (pb_GetID (p C)) (dirf e) ?m"
    unfolding m using dir_put [OF Cons.prems(1) x(3,2)] Cons.prems(2) by simp
  note IH = Cons.IH [OF this]
  have "es_idPath e \<noteq> ?k" using no_id_path [OF assms(3)] has_prefix_getKey [of "dirf e"] by metis
  then have i: "?m (es_idPath e) = m (es_idPath e)" by (simp add: m)
  have t: "table_of (pb_codec (p C)) (dirf e) ?m = (table_of (pb_codec (p C)) (dirf e) m)(pb_GetID (p C) v \<mapsto> v)"
    by (simp add: m table_of_put [OF x(3)])
  have f: "fold op_effect (x # xs) m = fold op_effect xs ?m" by simp
  have g: "put_ids idf (v # vs) tb = put_ids idf vs (tb(idf v \<mapsto> v))" for idf and tb by (simp add: put_ids_def)
  have z: "\<forall>v\<in>set vs. pb_GetID (p C) v \<noteq> 0" using Cons.prems by simp
  show ?case unfolding f g using IH [OF z, unfolded t i] others_agree_trans [OF o] by blast
qed (auto simp: others_agree_def agree_def put_ids_def)

lemma puts_inv:
  assumes "list_all2 (writes (pb_codec (p C)) (\<lambda>v. getKey (dirf e) (pb_GetID (p C) v))) vs xs" "\<forall>v\<in>set vs. pb_GetID (p C) v \<noteq> 0" "store_inv C e m"
  shows "store_inv C e (fold op_effect xs m)"
    "store_config C e (fold op_effect xs m) = upd (put_ids (pb_GetID (p C)) vs) (store_config C e m)"
proof -
  have ns: "ns_ok e" and ids: "ids_ok e m" and d: "dirs_ok C e m" using assms(3) by (simp_all add: store_inv_def)
  note m = puts_map [OF assms(1,2) ns own [OF d]]
  show "store_inv C e (fold op_effect xs m)" using ns keeps [OF ns _ d] ids m by (simp add: store_inv_def ids_ok_def)
  show "store_config C e (fold op_effect xs m) = upd (put_ids (pb_GetID (p C)) vs) (store_config C e m)"
    by (rule changes [OF ns]) (use m in simp_all)
qed

lemma puts_run:
  assumes "codecs_ok C" "puts_ok (pb_GetID (p C)) validate vs" "length vs \<le> 96"
  obtains xs where "put_all E (p C) (dirf e) validate vs [] [] (e, db) = Some (Ok (xs, []), e, db)"
    "list_all2 (writes (pb_codec (p C)) (\<lambda>v. getKey (dirf e) (pb_GetID (p C) v))) vs xs" "ops_ok xs"
proof -
  have v: "\<forall>v\<in>set vs. validate v = Ok () \<and> pb_GetID (p C) v \<noteq> 0" "distinct (map (pb_GetID (p C)) vs)" using assms(2) by (auto simp: puts_ok_def)
  obtain xs where xs: "put_all E (p C) (dirf e) validate vs [] [] (e, db) = Some (Ok (xs, []), e, db)"
    "list_all2 (writes (pb_codec (p C)) (\<lambda>v. getKey (dirf e) (pb_GetID (p C) v))) vs xs"
    using put_all_run [OF messages [OF assms(1)] v(1), of E "dirf e" "[]" "[]" e db] by auto
  have "distinct (map (\<lambda>v. getKey (dirf e) (pb_GetID (p C) v)) vs)" using v(2) by (auto simp: distinct_map inj_on_def)
  then have "ops_ok xs" using writes_keys [OF xs(2)] assms(3) by simp
  then show thesis using that xs by blast
qed

lemma put_kind_run:
  assumes E: "etcd_ok E kv" "codecs_ok C" "store_inv C e (kv db)" and ok: "puts_ok (pb_GetID (p C)) validate vs" "length vs \<le> 96"
  obtains db' where "put_kind E (p C) (dirf e) validate vs (e, db) = Some (Ok [], e, db')" "store_inv C e (kv db')"
    "store_config C e (kv db') = upd (put_ids (pb_GetID (p C)) vs) (store_config C e (kv db))"
proof -
  have z: "\<forall>v\<in>set vs. pb_GetID (p C) v \<noteq> 0" using ok(1) by (auto simp: puts_ok_def)
  obtain xs where xs: "put_all E (p C) (dirf e) validate vs [] [] (e, db) = Some (Ok (xs, []), e, db)"
    "list_all2 (writes (pb_codec (p C)) (\<lambda>v. getKey (dirf e) (pb_GetID (p C) v))) vs xs" "ops_ok xs"
    by (rule puts_run [OF E(2) ok])
  obtain db' where db': "putBatch E xs (e, db) = Some (Ok (), e, db')" "kv db' = fold op_effect xs (kv db)" by (rule putBatch_run [OF E(1) xs(3)])
  show thesis
    using that [of db'] puts_inv [OF xs(2) z E(3)] by (simp add: db'(2) put_kind_def sbind_def xs(1) db'(1) slift_def)
qed

end

lemma bind_ops_run:
  assumes "codec_ok c"
  shows "\<exists>xs. bind_ops c e bs = Ok xs \<and> list_all2 (writes c (getBindKey e)) bs xs"
proof (induction bs)
  case (Cons b bs)
  obtain data where "cd_Marshal c b = Ok data" "data \<noteq> []" "cd_Unmarshal c data = Ok b" by (rule codec_run [OF assms])
  then show ?case using Cons by (auto simp: writes_def [of c _ b])
qed simp

lemma binds_puts_map:
  assumes "list_all2 (writes (c_Bind C) (getBindKey e)) bs xs"
  shows "store_inv C e m \<Longrightarrow> store_inv C e (fold op_effect xs m) \<and>
    store_config C e (fold op_effect xs m) = (store_config C e m)\<lparr>cf_binds := cf_binds (store_config C e m) \<union> bind_pairs bs\<rparr>"
  using assms
proof (induction arbitrary: m rule: list_all2_induct)
  case (Cons b bs x xs)
  obtain data where x: "x = OpPut (getBindKey e b) data None" "cd_Unmarshal (c_Bind C) data = Ok b" using Cons.hyps(1) by (auto simp: writes_def)
  have m: "op_effect x m = m(getBindKey e b := Some data)" by (simp add: x(1))
  note b = bind_put_map [OF Cons.prems m, simplified, OF x(2)]
  have c: "store_config C e (op_effect x m) = (store_config C e m)\<lparr>cf_binds := insert (bd_ClusterID b, bd_ServerID b) (cf_binds (store_config C e m))\<rparr>"
    using b(2) by (simp add: m binds_put) (simp add: store_config_def)
  have i: "store_inv C e (op_effect x m)" using b(1) by (simp add: m)
  show ?case using Cons.IH [OF i] by (simp add: c bind_pairs_def)
qed (simp add: bind_pairs_def)

lemma add_binds_run:
  assumes E: "etcd_ok E kv" "codecs_ok C" "store_inv C e (kv db)"
    and ok: "distinct (map (\<lambda>b. (bd_ClusterID b, bd_ServerID b)) bs)" "length bs \<le> 96"
  obtains xs db' where "bind_ops (c_Bind C) e bs = Ok xs" "putBatch E xs (e, db) = Some (Ok (), e, db')" "store_inv C e (kv db')"
    "store_config C e (kv db') = (store_config C e (kv db))\<lparr>cf_binds := cf_binds (store_config C e (kv db)) \<union> bind_pairs bs\<rparr>"
proof -
  have "codec_ok (c_Bind C)" using E(2) by (simp add: codecs_ok_def)
  then obtain xs where xs: "bind_ops (c_Bind C) e bs = Ok xs" "list_all2 (writes (c_Bind C) (getBindKey e)) bs xs" using bind_ops_run by blast
  have "distinct (map (getBindKey e) bs)" using ok(1) by (auto simp: distinct_map inj_on_def)
  then have "ops_ok xs" using writes_keys [OF xs(2)] ok(2) by simp
  then obtain db' where "putBatch E xs (e, db) = Some (Ok (), e, db')" "kv db' = fold op_effect xs (kv db)" by (rule putBatch_run [OF E(1)])
  then show thesis using that [of xs db'] xs binds_puts_map [OF xs(2) E(3)] by simp
qed

lemma ops_ok_snoc:
  assumes "ops_ok xs" "length xs \<le> 96" "\<forall>x\<in>set xs. put_key x \<noteq> []" "key \<notin> set (concat (map put_key xs))"
  shows "ops_ok (xs @ [OpPut key data None])"
  using assms by (auto simp: ops_ok_def)

lemma put_plugins_run:
  assumes E: "etcd_ok (w_etcd W) kv" "codecs_ok (w_codecs W)" "store_inv (w_codecs W) e (kv db)"
    and ok: "puts_ok pl_ID (NewRuntime (w_env W)) vs" "length vs \<le> 96"
  obtains db' where "put_plugins W vs applied (e, db) = Some (Ok [], e, db')" "store_inv (w_codecs W) e (kv db')"
    "store_config (w_codecs W) e (kv db') = (let cf = cf_plugins_update (put_ids pl_ID vs) (store_config (w_codecs W) e (kv db))
       in case applied of None \<Rightarrow> cf | Some v \<Rightarrow> cf\<lparr>cf_applied := Some v\<rparr>)"
proof -
  let ?C = "w_codecs W" and ?E = "w_etcd W" and ?a = "es_appliedPluginDir e"
  have ok': "puts_ok (pb_GetID (plugin_pb ?C)) (NewRuntime (w_env W)) vs" using ok(1) by (simp add: pb_fields)
  have z: "\<forall>v\<in>set vs. pb_GetID (plugin_pb ?C) v \<noteq> 0" using ok' by (auto simp: puts_ok_def)
  obtain xs where xs: "put_all ?E (plugin_pb ?C) (es_pluginsDir e) (NewRuntime (w_env W)) vs [] [] (e, db) = Some (Ok (xs, []), e, db)"
    "list_all2 (writes (pb_codec (plugin_pb ?C)) (\<lambda>v. getKey (es_pluginsDir e) (pb_GetID (plugin_pb ?C) v))) vs xs" "ops_ok xs"
    by (rule plugins.puts_run [OF E(2) ok' ok(2)])
  note inv = plugins.puts_inv [OF xs(2) z E(3), unfolded pb_fields]
  show thesis
  proof (cases applied)
    case None
    obtain db' where db': "putBatch ?E xs (e, db) = Some (Ok (), e, db')" "kv db' = fold op_effect xs (kv db)" by (rule putBatch_run [OF E(1) xs(3)])
    show thesis using that [of db'] inv by (simp add: None put_plugins_def sbind_def slift_def xs(1) db')
  next
    case (Some v)
    obtain data where data: "cd_Marshal (c_Applied ?C) v = Ok data" "data = [] \<longrightarrow> v = []"
      "data \<noteq> [] \<longrightarrow> cd_Unmarshal (c_Applied ?C) data = Ok v" using E(2) unfolding codecs_ok_def by blast
    have ns: "ns_ok e" using E(3) by (simp add: store_inv_def)
    have keys: "concat (map put_key xs) = map (\<lambda>v. getKey (es_pluginsDir e) (pl_ID v)) vs" "\<forall>x\<in>set xs. put_key x \<noteq> []" "length xs = length vs"
      using xs(2) by (induction rule: list_all2_induct) (auto simp: writes_def pb_fields)
    have "\<forall>i. getKey (es_pluginsDir e) i \<noteq> ?a" by (simp add: getKey_def ns_dirs [OF ns])
    then have "?a \<notin> set (concat (map put_key xs))" unfolding keys(1) by (metis (no_types, lifting) imageE set_map)
    then have "ops_ok (xs @ [OpPut ?a data None])" using ops_ok_snoc [OF xs(3)] keys(2,3) ok(2) by simp
    then obtain db' where db': "putBatch ?E (xs @ [OpPut ?a data None]) (e, db) = Some (Ok (), e, db')"
      "kv db' = fold op_effect (xs @ [OpPut ?a data None]) (kv db)" by (rule putBatch_run [OF E(1)])
    let ?m = "fold op_effect xs (kv db)"
    have m': "kv db' = ?m(?a \<mapsto> data)" by (simp add: db'(2))
    have a: "applied_ok (c_Applied ?C) ?a (kv db')" "applied_of (c_Applied ?C) ?a (kv db') = v"
      using data(2,3) by (auto simp: applied_ok_def applied_of_def m')
    show thesis
      using that [of db'] applied_map [OF inv(1) m' a(1)] a(2) inv(2)
      by (simp add: Some put_plugins_def sbind_def slift_def xs(1) db'(1) putPBKeyWithOp_def data(1))
  qed
qed

lemma Batch_run:
  assumes E: "etcd_ok (w_etcd W) kv" "codecs_ok (w_codecs W)" "store_inv (w_codecs W) e (kv db)" and ok: "batch_valid (w_env W) b"
  obtains rsp db' where "Batch W b (e, db) = Some (Ok rsp, e, db')" "store_inv (w_codecs W) e (kv db')"
    "store_config (w_codecs W) e (kv db') = batch_effect b (store_config (w_codecs W) e (kv db))"
proof -
  let ?C = "w_codecs W" and ?E = "w_etcd W"
  note v = ok [unfolded batch_valid_def]
  obtain db1 where d1: "put_kind ?E (server_pb ?C) (es_serversDir e) ValidateServer (bq_PutServers b) (e, db) = Some (Ok [], e, db1)"
    "store_inv ?C e (kv db1)" "store_config ?C e (kv db1) = cf_servers_update (put_ids sv_ID (bq_PutServers b)) (store_config ?C e (kv db))"
    by (rule servers.put_kind_run [OF E, unfolded pb_fields, of ValidateServer "bq_PutServers b"]) (use v in simp_all)
  obtain db2 where d2: "put_kind ?E (cluster_pb ?C) (es_clustersDir e) ValidateCluster (bq_PutClusters b) (e, db1) = Some (Ok [], e, db2)"
    "store_inv ?C e (kv db2)" "store_config ?C e (kv db2) = cf_clusters_update (put_ids cl_ID (bq_PutClusters b)) (store_config ?C e (kv db1))"
    by (rule clusters.put_kind_run [OF E(1,2) d1(2), unfolded pb_fields, of ValidateCluster "bq_PutClusters b"]) (use v in simp_all)
  obtain ops db3 where d3: "bind_ops (c_Bind ?C) e (bq_AddBinds b) = Ok ops" "putBatch ?E ops (e, db2) = Some (Ok (), e, db3)"
    "store_inv ?C e (kv db3)"
    "store_config ?C e (kv db3) = (store_config ?C e (kv db2))\<lparr>cf_binds := cf_binds (store_config ?C e (kv db2)) \<union> bind_pairs (bq_AddBinds b)\<rparr>"
    by (rule add_binds_run [OF E(1,2) d2(2), of "bq_AddBinds b"]) (use v in simp_all)
  obtain db4 where d4: "put_kind ?E (api_pb ?C) (es_apisDir e) (ValidateAPI (en_rx (w_env W))) (bq_PutAPIs b) (e, db3) = Some (Ok [], e, db4)"
    "store_inv ?C e (kv db4)" "store_config ?C e (kv db4) = cf_apis_update (put_ids api_ID (bq_PutAPIs b)) (store_config ?C e (kv db3))"
    by (rule apis.put_kind_run [OF E(1,2) d3(3), unfolded pb_fields, of "ValidateAPI (en_rx (w_env W))" "bq_PutAPIs b"]) (use v in simp_all)
  obtain db5 where d5: "put_kind ?E (routing_pb ?C) (es_routingsDir e) ValidateRouting (bq_PutRoutings b) (e, db4) = Some (Ok [], e, db5)"
    "store_inv ?C e (kv db5)" "store_config ?C e (kv db5) = cf_routings_update (put_ids rg_ID (bq_PutRoutings b)) (store_config ?C e (kv db4))"
    by (rule routings.put_kind_run [OF E(1,2) d4(2), unfolded pb_fields, of ValidateRouting "bq_PutRoutings b"]) (use v in simp_all)
  obtain db6 where d6: "put_plugins W (bq_PutPlugins b) (bq_ApplyPlugins b) (e, db5) = Some (Ok [], e, db6)" "store_inv ?C e (kv db6)"
    "store_config ?C e (kv db6) = (let cf = cf_plugins_update (put_ids pl_ID (bq_PutPlugins b)) (store_config ?C e (kv db5))
       in case bq_ApplyPlugins b of None \<Rightarrow> cf | Some v \<Rightarrow> cf\<lparr>cf_applied := Some v\<rparr>)"
    by (rule put_plugins_run [OF E(1,2) d5(2), of "bq_PutPlugins b" "bq_ApplyPlugins b"]) (use v in simp_all)
  have "store_config ?C e (kv db6) = batch_effect b (store_config ?C e (kv db))"
    unfolding d6(3) d5(3) d4(3) d3(4) d2(3) d1(3)
    by (cases "bq_ApplyPlugins b"; cases "store_config ?C e (kv db)") (simp_all add: batch_effect_def)
  then show thesis
    using that [OF _ d6(2)] by (simp add: Batch_def sbind_def slift_def d1(1) d2(1) d3(1,2) d4(1) d5(1) d6(1))
qed

end
