(* ===== verification/Store_Backup.thy ===== *)
theory Store_Backup
  imports Store_Batch
begin

text \<open>
  Copying a store to another gateway (\<^verbatim>\<open>store/store_etcd.go\<close>, \<^verbatim>\<open>BackupTo\<close>). The other gateway answers remote calls. What the copy
  needs of it is the locale \<open>backup_target\<close>; a gateway whose calls reach a store of this model, in an etcd of its own, meets it.
\<close>

subsection \<open>The other gateway\<close>

text \<open>The connection and the three calls, each with its error if it fails.\<close>

record 't target =
  tg_NewClient :: "string \<Rightarrow> store_error option"
  tg_Clean :: "'t \<Rightarrow> store_error option \<times> 't"
  tg_Batch :: "BatchReq \<Rightarrow> 't \<Rightarrow> store_error option \<times> 't"
  tg_SetID :: "uint64 \<Rightarrow> 't \<Rightarrow> store_error option \<times> 't"

type_synonym 't backup = "'t \<Rightarrow> ((store_error, unit) outcome \<times> 't) option"

definition call :: "('t \<Rightarrow> store_error option \<times> 't) \<Rightarrow> 't backup" where
  "call f t = (case f t of (None, t') \<Rightarrow> Some (Ok (), t') | (Some er, t') \<Rightarrow> Some (Err er, t'))"

definition then_backup :: "'t backup \<Rightarrow> 't backup \<Rightarrow> 't backup" where
  "then_backup f g t = (case f t of None \<Rightarrow> None | Some (r, t') \<Rightarrow> if r = Ok () then g t' else Some (r, t'))"

subsection \<open>Copying\<close>

definition backup_limit :: nat where
  "backup_limit = 96"

text \<open>One more message for the batch; a full batch is sent. When the send fails the batch is kept and the error returned.\<close>

definition push :: "'t target \<Rightarrow> (BatchReq \<Rightarrow> 'v list) \<Rightarrow> (('v list \<Rightarrow> 'v list) \<Rightarrow> BatchReq \<Rightarrow> BatchReq) \<Rightarrow> 'v \<Rightarrow> BatchReq \<times> 't
    \<Rightarrow> store_error option \<times> BatchReq \<times> 't" where
  "push T get upd v bt =
     (let batch = upd (\<lambda>vs. vs @ [v]) (fst bt)
      in if length (get batch) = backup_limit
         then (case tg_Batch T batch (snd bt) of (None, t') \<Rightarrow> (None, no_batch, t') | (Some er, t') \<Rightarrow> (Some er, batch, t'))
         else (None, batch, snd bt))"

text \<open>The callback of a listing returns that error, and the listing drops it.\<close>

definition push_all :: "'t target \<Rightarrow> (BatchReq \<Rightarrow> 'v list) \<Rightarrow> (('v list \<Rightarrow> 'v list) \<Rightarrow> BatchReq \<Rightarrow> BatchReq) \<Rightarrow> 'v list \<Rightarrow> BatchReq \<times> 't
    \<Rightarrow> BatchReq \<times> 't" where
  "push_all T get upd vs bt = fold (\<lambda>v bt. snd (push T get upd v bt)) vs bt"

definition send_rest :: "'t target \<Rightarrow> (BatchReq \<Rightarrow> 'v list) \<Rightarrow> BatchReq \<Rightarrow> 't backup" where
  "send_rest T get batch = (if 0 < length (get batch) then call (tg_Batch T batch) else (\<lambda>t. Some (Ok (), t)))"

definition backup_kind :: "'t target \<Rightarrow> (BatchReq \<Rightarrow> 'v list) \<Rightarrow> (('v list \<Rightarrow> 'v list) \<Rightarrow> BatchReq \<Rightarrow> BatchReq)
    \<Rightarrow> ((store_error, unit) outcome \<times> 'v list) option \<Rightarrow> 't backup" where
  "backup_kind T get upd listing t = (case listing of
      None \<Rightarrow> None
    | Some (r, vs) \<Rightarrow> (let (batch, t') = push_all T get upd vs (no_batch, t)
        in if r = Ok () then send_rest T get batch t' else Some (r, t')))"

text \<open>The binds go cluster by cluster: a cluster whose binds cannot be read is passed over, and a failed send ends the loop over the
  servers of its cluster.\<close>

fun push_servers :: "'t target \<Rightarrow> uint64 \<Rightarrow> uint64 list \<Rightarrow> BatchReq \<times> 't \<Rightarrow> BatchReq \<times> 't" where
  "push_servers T cid [] bt = bt"
| "push_servers T cid (sid # servers) bt =
     (case push T bq_AddBinds bq_AddBinds_update \<lparr>bd_ClusterID = cid, bd_ServerID = sid\<rparr> bt of
        (None, bt') \<Rightarrow> push_servers T cid servers bt' | (Some er, bt') \<Rightarrow> bt')"

fun push_binds :: "'db world \<Rightarrow> EtcdStore \<Rightarrow> 'db \<Rightarrow> 't target \<Rightarrow> Cluster list \<Rightarrow> BatchReq \<times> 't \<Rightarrow> (store_error, unit) outcome \<times> BatchReq \<times> 't" where
  "push_binds W e db T [] bt = (Ok (), bt)"
| "push_binds W e db T (c # cs) bt = (case doGetBindServers W e (cl_ID c) db of
      Ok servers \<Rightarrow> push_binds W e db T cs (push_servers T (cl_ID c) servers bt)
    | Err er \<Rightarrow> push_binds W e db T cs bt
    | Panic \<Rightarrow> (Panic, bt))"

definition backup_binds :: "'db world \<Rightarrow> EtcdStore \<Rightarrow> 'db \<Rightarrow> 't target \<Rightarrow> 't backup" where
  "backup_binds W e db T t = (case GetClusters W e (int backup_limit) db of
      None \<Rightarrow> None
    | Some (r, cs) \<Rightarrow> (let (r', batch, t') = push_binds W e db T cs (no_batch, t)
        in if r' \<noteq> Ok () then Some (r', t') else if r \<noteq> Ok () then Some (r, t') else send_rest T bq_AddBinds batch t'))"

text \<open>The applied plugins travel with the last batch of plugins, and only when there is one.\<close>

definition backup_plugins :: "'db world \<Rightarrow> EtcdStore \<Rightarrow> 'db \<Rightarrow> 't target \<Rightarrow> 't backup" where
  "backup_plugins W e db T t = (case GetPlugins W e (int backup_limit) db of
      None \<Rightarrow> None
    | Some (r, vs) \<Rightarrow> (let (batch, t') = push_all T bq_PutPlugins bq_PutPlugins_update vs (no_batch, t)
        in if r \<noteq> Ok () then Some (r, t')
           else (case doGetAppliedPlugins W e db of
                   Ok applied \<Rightarrow> send_rest T bq_PutPlugins (batch\<lparr>bq_ApplyPlugins := Some applied\<rparr>) t'
                 | Err er \<Rightarrow> Some (Err er, t') | Panic \<Rightarrow> Some (Panic, t'))))"

definition backup_id :: "'db world \<Rightarrow> EtcdStore \<Rightarrow> 'db \<Rightarrow> 't target \<Rightarrow> 't backup" where
  "backup_id W e db T t = (case store_getID (w_etcd W) e db of
      Ok i \<Rightarrow> call (tg_SetID T i) t | Err er \<Rightarrow> Some (Err er, t) | Panic \<Rightarrow> Some (Panic, t))"

definition BackupTo :: "'db world \<Rightarrow> EtcdStore \<Rightarrow> 'db \<Rightarrow> 't target \<Rightarrow> string \<Rightarrow> 't backup" where
  "BackupTo W e db T to t = (case tg_NewClient T to of
      Some er \<Rightarrow> Some (Err er, t)
    | None \<Rightarrow> then_backup (call (tg_Clean T))
       (then_backup (backup_kind T bq_PutServers bq_PutServers_update (GetServers W e (int backup_limit) db))
       (then_backup (backup_kind T bq_PutClusters bq_PutClusters_update (GetClusters W e (int backup_limit) db))
       (then_backup (backup_binds W e db T)
       (then_backup (backup_kind T bq_PutAPIs bq_PutAPIs_update (GetAPIs W e (int backup_limit) db))
       (then_backup (backup_kind T bq_PutRoutings bq_PutRoutings_update (GetRoutings W e (int backup_limit) db))
       (then_backup (backup_plugins W e db T) (backup_id W e db T))))))) t)"

subsection \<open>What the copy relies on\<close>

locale backup_target =
  fixes T :: "'t target" and ok :: "'t \<Rightarrow> bool" and cfg :: "'t \<Rightarrow> config" and cnt :: "'t \<Rightarrow> uint64" and en :: env
  assumes clean: "ok t \<Longrightarrow> \<exists>t'. tg_Clean T t = (None, t') \<and> ok t' \<and> cfg t' = empty_config"
    and batch: "ok t \<Longrightarrow> batch_valid en b \<Longrightarrow> \<exists>t'. tg_Batch T b t = (None, t') \<and> ok t' \<and> cfg t' = batch_effect b (cfg t)"
    and set_id: "ok t \<Longrightarrow> i \<noteq> 0 \<Longrightarrow> \<exists>t'. tg_SetID T i t = (None, t') \<and> ok t' \<and> cfg t' = cfg t \<and> cnt t' = i"

text \<open>One field of a batch: how it is read and updated, which of its values fit, and what a batch of that field alone does.\<close>

locale batch_field =
  fixes get :: "BatchReq \<Rightarrow> 'v list" and upd :: "('v list \<Rightarrow> 'v list) \<Rightarrow> BatchReq \<Rightarrow> BatchReq" and fits :: "'v list \<Rightarrow> bool"
    and eff :: "'v \<Rightarrow> config \<Rightarrow> config" and en :: env
  assumes get: "get (upd (\<lambda>_. vs) no_batch) = vs"
    and upd: "upd f (upd (\<lambda>_. vs) no_batch) = upd (\<lambda>_. f vs) no_batch"
    and upd_none: "upd (\<lambda>_. []) no_batch = no_batch"
    and valid: "fits vs \<Longrightarrow> length vs \<le> 96 \<Longrightarrow> batch_valid en (upd (\<lambda>_. vs) no_batch)"
    and part: "fits (us @ vs) \<Longrightarrow> fits us \<and> fits vs"
    and effect: "batch_effect (upd (\<lambda>_. vs) no_batch) cf = fold eff vs cf"

locale backup_field = backup_target T ok cfg cnt en + batch_field get upd fits eff en
  for T :: "'t target" and ok cfg cnt en get upd and fits :: "'v list \<Rightarrow> bool" and eff
begin

lemma push_one:
  assumes "fits (us @ [v])" "length us < 96" "ok t"
  obtains ws t' where "push T get upd v (upd (\<lambda>_. us) no_batch, t) = (None, upd (\<lambda>_. ws) no_batch, t')" "ok t'"
    "ws = us @ [v] \<or> ws = []" "length ws = Suc (length us) mod 96" "fold eff ws (cfg t') = fold eff (us @ [v]) (cfg t)"
proof (cases "length us = 95")
  case True
  obtain t' where "tg_Batch T (upd (\<lambda>_. us @ [v]) no_batch) t = (None, t')" "ok t'" "cfg t' = fold eff (us @ [v]) (cfg t)"
    using batch [OF assms(3) valid [OF assms(1)]] True effect by auto
  then show thesis using that [of "[]" t'] True by (simp add: push_def get upd upd_none backup_limit_def)
next
  case False
  then show thesis using that [of "us @ [v]" t] assms by (simp add: push_def get upd backup_limit_def)
qed

lemma push_run:
  "fits (us @ vs) \<Longrightarrow> length us < 96 \<Longrightarrow> ok t \<Longrightarrow>
    \<exists>ws t'. push_all T get upd vs (upd (\<lambda>_. us) no_batch, t) = (upd (\<lambda>_. ws) no_batch, t') \<and> ok t' \<and> fits ws \<and>
      length ws = (length us + length vs) mod 96 \<and> fold eff ws (cfg t') = fold eff (us @ vs) (cfg t)"
proof (induction vs arbitrary: us t)
  case Nil
  then show ?case by (auto simp: push_all_def)
next
  case (Cons v vs)
  have g: "fits (us @ [v])" "fits vs" using part [of "us @ [v]" vs] Cons.prems(1) by simp_all
  obtain us' t1 where p: "push T get upd v (upd (\<lambda>_. us) no_batch, t) = (None, upd (\<lambda>_. us') no_batch, t1)" "ok t1"
    "us' = us @ [v] \<or> us' = []" "length us' = Suc (length us) mod 96" "fold eff us' (cfg t1) = fold eff (us @ [v]) (cfg t)"
    by (rule push_one [OF g(1) Cons.prems(2,3)])
  have "fits (us' @ vs)" using p(3) g(2) Cons.prems(1) by auto
  then obtain ws t' where "push_all T get upd vs (upd (\<lambda>_. us') no_batch, t1) = (upd (\<lambda>_. ws) no_batch, t')" "ok t'" "fits ws"
      "length ws = (length us' + length vs) mod 96" "fold eff ws (cfg t') = fold eff (us' @ vs) (cfg t1)"
    using Cons.IH [of us' t1] p(2,4) by auto
  moreover have "(length us' + length vs) mod 96 = (length us + length (v # vs)) mod 96" using p(4) by (simp add: mod_add_left_eq)
  moreover have "fold eff (us' @ vs) (cfg t1) = fold eff (us @ v # vs) (cfg t)" using p(5) by simp
  ultimately show ?case using p(1) by (auto simp: push_all_def)
qed

lemma pushed:
  assumes "fits vs" "ok t"
  obtains ws t' where "push_all T get upd vs (no_batch, t) = (upd (\<lambda>_. ws) no_batch, t')" "ok t'" "fits ws"
    "length ws = length vs mod 96" "fold eff ws (cfg t') = fold eff vs (cfg t)"
  using push_run [of "[]" vs t] assms by (auto simp: upd_none)

lemma sent:
  assumes "fits ws" "length ws < 96" "ok t"
  obtains t' where "send_rest T get (upd (\<lambda>_. ws) no_batch) t = Some (Ok (), t')" "ok t'" "cfg t' = fold eff ws (cfg t)"
proof (cases "ws = []")
  case True
  then show thesis using that [of t] assms(3) by (simp add: send_rest_def get)
next
  case False
  obtain t' where "tg_Batch T (upd (\<lambda>_. ws) no_batch) t = (None, t')" "ok t'" "cfg t' = fold eff ws (cfg t)"
    using batch [OF assms(3) valid [OF assms(1)]] assms(2) effect by auto
  then show thesis using that [of t'] False by (simp add: send_rest_def get call_def)
qed

lemma kind_run:
  assumes "fits vs" "ok t"
  obtains t' where "backup_kind T get upd (Some (Ok (), vs)) t = Some (Ok (), t')" "ok t'" "cfg t' = fold eff vs (cfg t)"
proof -
  obtain ws t1 where p: "push_all T get upd vs (no_batch, t) = (upd (\<lambda>_. ws) no_batch, t1)" "ok t1" "fits ws"
    "length ws = length vs mod 96" "fold eff ws (cfg t1) = fold eff vs (cfg t)" by (rule pushed [OF assms])
  obtain t' where "send_rest T get (upd (\<lambda>_. ws) no_batch) t1 = Some (Ok (), t')" "ok t'" "cfg t' = fold eff ws (cfg t1)"
    by (rule sent [OF p(3) _ p(2)]) (simp add: p(4))
  then show thesis using that [of t'] p by (simp add: backup_kind_def)
qed

end

subsection \<open>A gateway of this model as the other one\<close>

text \<open>The calls reach the operations of its store; \<open>lost\<close> is the error of a call without an answer.\<close>

definition store_call :: "store_error \<Rightarrow> ('db, 'a) sm \<Rightarrow> EtcdStore \<times> 'db \<Rightarrow> store_error option \<times> EtcdStore \<times> 'db" where
  "store_call lost m s = (case m s of
      None \<Rightarrow> (Some lost, s)
    | Some (r, s') \<Rightarrow> (case r of Ok _ \<Rightarrow> None | Err er \<Rightarrow> Some er | Panic \<Rightarrow> Some lost, s'))"

definition store_target :: "store_error \<Rightarrow> 'db world \<Rightarrow> (EtcdStore \<times> 'db) target" where
  "store_target lost W = \<lparr>tg_NewClient = (\<lambda>to. None), tg_Clean = store_call lost (Clean W),
     tg_Batch = (\<lambda>b. store_call lost (Batch W b)), tg_SetID = (\<lambda>i. store_call lost (SetID (w_etcd W) i))\<rparr>"

definition target_inv :: "'db world \<Rightarrow> ('db \<Rightarrow> (string \<rightharpoonup> string)) \<Rightarrow> EtcdStore \<times> 'db \<Rightarrow> bool" where
  "target_inv W kv s \<longleftrightarrow> etcd_ok (w_etcd W) kv \<and> codecs_ok (w_codecs W) \<and> store_inv (w_codecs W) (fst s) (kv (snd s))"

definition target_config :: "'db world \<Rightarrow> ('db \<Rightarrow> (string \<rightharpoonup> string)) \<Rightarrow> EtcdStore \<times> 'db \<Rightarrow> config" where
  "target_config W kv s = store_config (w_codecs W) (fst s) (kv (snd s))"

definition target_counter :: "('db \<Rightarrow> (string \<rightharpoonup> string)) \<Rightarrow> EtcdStore \<times> 'db \<Rightarrow> uint64" where
  "target_counter kv s = counter (fst s) (kv (snd s))"

lemma SetID_run:
  assumes E: "etcd_ok E kv" "store_inv C e (kv db)" "i \<noteq> 0"
  obtains db' where "SetID E i (e, db) = Some (Ok (), e\<lparr>es_base := 0, es_end := 0\<rparr>, db')"
    "store_inv C (e\<lparr>es_base := 0, es_end := 0\<rparr>) (kv db')" "store_config C e (kv db') = store_config C e (kv db)"
    "counter e (kv db') = i"
proof -
  let ?x = "OpPut (es_idPath e) (fmt_Uint64ToBytes i) None"
  obtain db' where c: "Commit E [] [?x] (e, db) = Some (Ok True, e, db')" "kv db' = (kv db)(es_idPath e \<mapsto> fmt_Uint64ToBytes i)"
    by (rule Commit_run [OF E(1) one_op [of ?x], of "[]" e db]) simp
  have ns: "ns_ok e" and d: "dirs_ok C e (kv db)" using E(2) by (simp_all add: store_inv_def)
  have a: "agree (es_prefix e @ b) (kv db) (kv db')" if "b \<in> set dir_names" for b
    using dirs_apart(2) [OF that, of "es_prefix e"] by (auto simp: agree_def c(2) ns_dirs [OF ns])
  then have o: "others_agree (es_prefix e) [] (kv db) (kv db')" by (simp add: others_agree_def)
  have "store_config C e (kv db') = store_config C e (kv db)" by (simp add: store_config_def dir_frame [OF ns o])
  moreover have "store_inv C (e\<lparr>es_base := 0, es_end := 0\<rparr>) (kv db')"
    using d E(3) ns by (simp add: store_inv_def ids_ok_def c(2)) (simp add: dirs_ok_def dir_frame_ok [OF ns o] flip: c(2))
  moreover have "e\<lparr>es_end := 0, es_base := 0\<rparr> = e\<lparr>es_base := 0, es_end := 0\<rparr>" by (cases e) simp
  then have "SetID E i (e, db) = Some (Ok (), e\<lparr>es_base := 0, es_end := 0\<rparr>, db')" by (simp add: SetID_def sbind_def c(1))
  moreover have "counter e (kv db') = i" by (simp add: counter_def c(2))
  ultimately show thesis using that [of db'] by blast
qed

interpretation remote: backup_target "store_target lost W" "target_inv W kv" "target_config W kv" "target_counter kv" "w_env W"
  for lost W kv
proof
  fix t :: "EtcdStore \<times> 'a" and b and i :: uint64
  obtain e db where t: "t = (e, db)" by (cases t)
  assume inv: "target_inv W kv t"
  then have E: "etcd_ok (w_etcd W) kv" "codecs_ok (w_codecs W)" "store_inv (w_codecs W) e (kv db)" by (simp_all add: target_inv_def t)
  obtain db1 where d: "st_delete (w_etcd W) (OpDeletePrefix (es_prefix e)) (e, db) = Some (Ok (), e, db1)"
    "kv db1 = op_effect (OpDeletePrefix (es_prefix e)) (kv db)" by (rule st_delete_run [OF E(1)])
  show "\<exists>t'. tg_Clean (store_target lost W) t = (None, t') \<and> target_inv W kv t' \<and> target_config W kv t' = empty_config"
    using E clean_map [OF E(3) d(2)] d(1) by (simp add: store_target_def store_call_def t Clean_def target_inv_def target_config_def)
  show "\<exists>t'. tg_Batch (store_target lost W) b t = (None, t') \<and> target_inv W kv t' \<and> target_config W kv t' = batch_effect b (target_config W kv t)"
    if "batch_valid (w_env W) b"
    by (rule Batch_run [OF E that]) (use E in \<open>simp add: store_target_def store_call_def t target_inv_def target_config_def\<close>)
  show "\<exists>t'. tg_SetID (store_target lost W) i t = (None, t') \<and> target_inv W kv t' \<and> target_config W kv t' = target_config W kv t \<and> target_counter kv t' = i"
    if "i \<noteq> 0"
    by (rule SetID_run [OF E(1,3) that])
      (use E in \<open>simp add: store_target_def store_call_def t target_inv_def target_config_def target_counter_def counter_def\<close>)
qed

subsection \<open>The fields of a batch\<close>

lemma puts_ok_append: "puts_ok idf validate (us @ vs) \<Longrightarrow> puts_ok idf validate us \<and> puts_ok idf validate vs"
  by (auto simp: puts_ok_def)

lemma fold_update:
  assumes "\<And>f g c. U f (U g c) = U (\<lambda>x. f (g x)) c" "\<And>c. U (\<lambda>x. x) c = c"
  shows "fold (\<lambda>v. U (F v)) vs cf = U (fold F vs) cf"
  by (induction vs arbitrary: cf) (simp_all add: assms comp_def id_def)

lemma put_effects:
  "fold (\<lambda>v. cf_servers_update (\<lambda>t. t(sv_ID v \<mapsto> v))) svs cf = cf_servers_update (put_ids sv_ID svs) cf"
  "fold (\<lambda>v. cf_clusters_update (\<lambda>t. t(cl_ID v \<mapsto> v))) cls cf = cf_clusters_update (put_ids cl_ID cls) cf"
  "fold (\<lambda>v. cf_apis_update (\<lambda>t. t(api_ID v \<mapsto> v))) as cf = cf_apis_update (put_ids api_ID as) cf"
  "fold (\<lambda>v. cf_routings_update (\<lambda>t. t(rg_ID v \<mapsto> v))) rs cf = cf_routings_update (put_ids rg_ID rs) cf"
  "fold (\<lambda>v. cf_plugins_update (\<lambda>t. t(pl_ID v \<mapsto> v))) ps cf = cf_plugins_update (put_ids pl_ID ps) cf"
  unfolding put_ids_def [abs_def] 
  by - (rule fold_update [of cf_servers_update] fold_update [of cf_clusters_update] fold_update [of cf_apis_update]
      fold_update [of cf_routings_update] fold_update [of cf_plugins_update]; simp add: comp_def)+

lemma fold_insert_set: "fold (\<lambda>x. insert (f x)) xs S = S \<union> f ` set xs"
  by (induction xs arbitrary: S) auto

definition add_pairs :: "(uint64 \<times> uint64) set \<Rightarrow> config \<Rightarrow> config" where
  "add_pairs X = cf_binds_update (\<lambda>S. S \<union> X)"

lemma add_pairs_add: "add_pairs X (add_pairs Y cf) = add_pairs (Y \<union> X) cf"
  by (cases cf) (simp add: add_pairs_def Un_assoc)

lemma bind_effects: "fold (\<lambda>b. cf_binds_update (insert (bd_ClusterID b, bd_ServerID b))) bs cf = add_pairs (bind_pairs bs) cf"
  by (subst fold_update, simp add: comp_def, simp, simp add: add_pairs_def bind_pairs_def fold_insert_set [abs_def])

lemma no_puts [simp]: "puts_ok idf validate []" "put_ids idf [] = (\<lambda>t. t)" "bind_pairs [] = {}"
  by (simp_all add: fun_eq_iff puts_ok_def put_ids_def bind_pairs_def)

lemma field_effects:
  "batch_effect (bq_PutServers_update (\<lambda>_. svs) no_batch) cf = cf_servers_update (put_ids sv_ID svs) cf"
  "batch_effect (bq_PutClusters_update (\<lambda>_. cls) no_batch) cf = cf_clusters_update (put_ids cl_ID cls) cf"
  "batch_effect (bq_PutAPIs_update (\<lambda>_. as) no_batch) cf = cf_apis_update (put_ids api_ID as) cf"
  "batch_effect (bq_PutRoutings_update (\<lambda>_. rs) no_batch) cf = cf_routings_update (put_ids rg_ID rs) cf"
  "batch_effect (bq_PutPlugins_update (\<lambda>_. ps) no_batch) cf = cf_plugins_update (put_ids pl_ID ps) cf"
  "batch_effect (bq_AddBinds_update (\<lambda>_. bs) no_batch) cf = add_pairs (bind_pairs bs) cf"
  by (cases cf; simp add: batch_effect_def no_batch_def add_pairs_def)+

interpretation f_servers: backup_field "store_target lost W" "target_inv W kv" "target_config W kv" "target_counter kv" "w_env W"
    bq_PutServers bq_PutServers_update "puts_ok sv_ID ValidateServer" "\<lambda>v. cf_servers_update (\<lambda>t. t(sv_ID v \<mapsto> v))"
  for lost W kv
  by unfold_locales (erule puts_ok_append | simp add: put_effects field_effects | simp add: batch_valid_def no_batch_def)+

interpretation f_clusters: backup_field "store_target lost W" "target_inv W kv" "target_config W kv" "target_counter kv" "w_env W"
    bq_PutClusters bq_PutClusters_update "puts_ok cl_ID ValidateCluster" "\<lambda>v. cf_clusters_update (\<lambda>t. t(cl_ID v \<mapsto> v))"
  for lost W kv
  by unfold_locales (erule puts_ok_append | simp add: put_effects field_effects | simp add: batch_valid_def no_batch_def)+

interpretation f_apis: backup_field "store_target lost W" "target_inv W kv" "target_config W kv" "target_counter kv" "w_env W"
    bq_PutAPIs bq_PutAPIs_update "puts_ok api_ID (ValidateAPI (en_rx (w_env W)))" "\<lambda>v. cf_apis_update (\<lambda>t. t(api_ID v \<mapsto> v))"
  for lost W kv
  by unfold_locales (erule puts_ok_append | simp add: put_effects field_effects | simp add: batch_valid_def no_batch_def)+

interpretation f_routings: backup_field "store_target lost W" "target_inv W kv" "target_config W kv" "target_counter kv" "w_env W"
    bq_PutRoutings bq_PutRoutings_update "puts_ok rg_ID ValidateRouting" "\<lambda>v. cf_routings_update (\<lambda>t. t(rg_ID v \<mapsto> v))"
  for lost W kv
  by unfold_locales (erule puts_ok_append | simp add: put_effects field_effects | simp add: batch_valid_def no_batch_def)+

interpretation f_plugins: backup_field "store_target lost W" "target_inv W kv" "target_config W kv" "target_counter kv" "w_env W"
    bq_PutPlugins bq_PutPlugins_update "puts_ok pl_ID (NewRuntime (w_env W))" "\<lambda>v. cf_plugins_update (\<lambda>t. t(pl_ID v \<mapsto> v))"
  for lost W kv
  by unfold_locales (erule puts_ok_append | simp add: put_effects field_effects | simp add: batch_valid_def no_batch_def)+

interpretation f_binds: backup_field "store_target lost W" "target_inv W kv" "target_config W kv" "target_counter kv" "w_env W"
    bq_AddBinds bq_AddBinds_update "\<lambda>bs. distinct (map (\<lambda>b. (bd_ClusterID b, bd_ServerID b)) bs)"
    "\<lambda>b. cf_binds_update (insert (bd_ClusterID b, bd_ServerID b))"
  for lost W kv
  by unfold_locales (simp add: bind_effects field_effects | simp add: batch_valid_def no_batch_def)+

subsection \<open>The copy\<close>

lemma put_ids_eq: "put_ids idf vs t = t ++ map_of (rev (map (\<lambda>v. (idf v, v)) vs))"
proof (induction vs arbitrary: t)
  case (Cons v vs)
  have "put_ids idf (v # vs) t = put_ids idf vs (t(idf v \<mapsto> v))" by (simp add: put_ids_def)
  then show ?case by (simp add: Cons map_add_def fun_eq_iff split: option.split)
qed simp

lemma put_ids_listed:
  assumes "finite (dom t)" "endID \<notin> dom t" "\<And>i v. t i = Some v \<Longrightarrow> idf v = i"
  shows "put_ids idf (listed t) Map.empty = t"
proof -
  have k: "map (\<lambda>v. (idf v, v)) (listed t) = map (\<lambda>i. (i, the (t i))) (sorted_list_of_set (dom t))"
    using assms by (auto simp: listed_def)
  have "map_of (rev (map (\<lambda>v. (idf v, v)) (listed t))) = map_of (map (\<lambda>v. (idf v, v)) (listed t))"
    unfolding k by (subst map_of_inject_set) (simp_all add: rev_map comp_def distinct_map flip: rev_map)
  then show ?thesis using by_id_listed [OF assms] by (simp add: put_ids_eq by_id_def)
qed

lemma listed_fits:
  assumes "finite (dom t)" "\<And>i v. t i = Some v \<Longrightarrow> idf v = i \<and> i \<noteq> 0" "\<forall>v\<in>ran t. validate v = Ok ()"
  shows "puts_ok idf validate (listed t)"
proof -
  have "map idf (listed t) = sorted_list_of_set (dom t - {endID})" using assms(1,2) by (auto simp: listed_def intro!: map_idI)
  moreover have "validate v = Ok () \<and> idf v \<noteq> 0" if "v \<in> set (listed t)" for v
    using listed_mem [OF assms(1) that] assms(2,3) by (auto simp: ran_def)
  ultimately show ?thesis by (simp add: puts_ok_def)
qed

text \<open>A configuration that the other gateway accepts: valid messages, none under the identifier a listing leaves out, and no bind
  of a cluster that is gone.\<close>

definition copyable :: "env \<Rightarrow> config \<Rightarrow> bool" where
  "copyable en cf \<longleftrightarrow> endID \<notin> dom (cf_servers cf) \<union> dom (cf_clusters cf) \<union> dom (cf_apis cf) \<union> dom (cf_routings cf) \<union> dom (cf_plugins cf) \<and>
     (\<forall>v\<in>ran (cf_servers cf). ValidateServer v = Ok ()) \<and> (\<forall>v\<in>ran (cf_clusters cf). ValidateCluster v = Ok ()) \<and>
     (\<forall>v\<in>ran (cf_apis cf). ValidateAPI (en_rx en) v = Ok ()) \<and> (\<forall>v\<in>ran (cf_routings cf). ValidateRouting v = Ok ()) \<and>
     (\<forall>v\<in>ran (cf_plugins cf). NewRuntime en v = Ok ()) \<and> fst ` cf_binds cf \<subseteq> dom (cf_clusters cf)"

text \<open>Binds: the servers of one cluster, then all clusters.\<close>

abbreviation bind_pair :: "Bind \<Rightarrow> uint64 \<times> uint64" where
  "bind_pair b \<equiv> (bd_ClusterID b, bd_ServerID b)"

lemma push_servers_run:
  "distinct (map bind_pair (us @ map (\<lambda>s. \<lparr>bd_ClusterID = c, bd_ServerID = s\<rparr>) servers)) \<Longrightarrow> length us < 96 \<Longrightarrow> target_inv W kv t \<Longrightarrow>
    \<exists>ws t'. push_servers (store_target lost W) c servers (bq_AddBinds_update (\<lambda>_. us) no_batch, t) = (bq_AddBinds_update (\<lambda>_. ws) no_batch, t') \<and>
      target_inv W kv t' \<and> length ws < 96 \<and> bind_pair ` set ws \<subseteq> bind_pair ` set us \<union> Pair c ` set servers \<and> distinct (map bind_pair ws) \<and>
      add_pairs (bind_pairs ws) (target_config W kv t') =
        add_pairs (bind_pairs us \<union> Pair c ` set servers) (target_config W kv t)"
proof (induction servers arbitrary: us t)
  case (Cons s servers)
  let ?b = "\<lparr>bd_ClusterID = c, bd_ServerID = s\<rparr>"
  have d: "distinct (map bind_pair (us @ [?b]))" using Cons.prems(1) by auto
  obtain us' t1 where p: "push (store_target lost W) bq_AddBinds bq_AddBinds_update ?b (bq_AddBinds_update (\<lambda>_. us) no_batch, t) =
      (None, bq_AddBinds_update (\<lambda>_. us') no_batch, t1)" "target_inv W kv t1" "us' = us @ [?b] \<or> us' = []" "length us' = Suc (length us) mod 96"
    "add_pairs (bind_pairs us') (target_config W kv t1) = add_pairs (bind_pairs (us @ [?b])) (target_config W kv t)"
    by (rule f_binds.push_one [OF d Cons.prems(2,3), of lost, unfolded bind_effects])
  have n: "distinct (map bind_pair (us' @ map (\<lambda>s. \<lparr>bd_ClusterID = c, bd_ServerID = s\<rparr>) servers))" "length us' < 96"
    using p(3) Cons.prems(1) by (elim disjE) (simp_all add: p(4))
  obtain ws t' where w: "push_servers (store_target lost W) c servers (bq_AddBinds_update (\<lambda>_. us') no_batch, t1) = (bq_AddBinds_update (\<lambda>_. ws) no_batch, t')"
      "target_inv W kv t'" "length ws < 96" "bind_pair ` set ws \<subseteq> bind_pair ` set us' \<union> Pair c ` set servers" "distinct (map bind_pair ws)"
      "add_pairs (bind_pairs ws) (target_config W kv t') =
        add_pairs (bind_pairs us' \<union> Pair c ` set servers) (target_config W kv t1)"
    using Cons.IH [OF n p(2)] by blast
  have "bind_pair ` set us' \<subseteq> bind_pair ` set us \<union> {(c, s)}" using p(3) by auto
  then have "bind_pair ` set ws \<subseteq> bind_pair ` set us \<union> Pair c ` set (s # servers)" by (intro subset_trans [OF w(4)]) auto
  moreover have pairs: "bind_pairs us \<union> Pair c ` set (s # servers) = bind_pairs (us @ [?b]) \<union> Pair c ` set servers"
    by (auto simp: bind_pairs_def)
  have "add_pairs (bind_pairs ws) (target_config W kv t') =
      add_pairs (bind_pairs us \<union> Pair c ` set (s # servers)) (target_config W kv t)"
    using w(6) p(5) add_pairs_add pairs by metis
  ultimately show ?case using p(1) w(1,2,3,5) by auto
qed (auto simp: bind_pairs_def)

lemma push_binds_run:
  assumes bs: "\<And>c. doGetBindServers V e c db = Ok (f c)"
  shows "distinct (map bind_pair us) \<Longrightarrow> distinct (map cl_ID cs) \<Longrightarrow> \<forall>c\<in>set cs. distinct (f (cl_ID c)) \<and> cl_ID c \<notin> bd_ClusterID ` set us \<Longrightarrow>
    length us < 96 \<Longrightarrow> target_inv W kv t \<Longrightarrow>
    \<exists>ws t'. push_binds V e db (store_target lost W) cs (bq_AddBinds_update (\<lambda>_. us) no_batch, t) = (Ok (), bq_AddBinds_update (\<lambda>_. ws) no_batch, t') \<and>
      target_inv W kv t' \<and> length ws < 96 \<and> distinct (map bind_pair ws) \<and>
      add_pairs (bind_pairs ws) (target_config W kv t') =
        add_pairs (bind_pairs us \<union> (\<Union>c\<in>set cs. Pair (cl_ID c) ` set (f (cl_ID c)))) (target_config W kv t)"
proof (induction cs arbitrary: us t)
  case (Cons c cs)
  let ?f = "f (cl_ID c)"
  have "distinct (map bind_pair (us @ map (\<lambda>s. \<lparr>bd_ClusterID = cl_ID c, bd_ServerID = s\<rparr>) ?f))"
    using Cons.prems(1,3) by (auto simp: comp_def distinct_map inj_on_def image_iff)
  then obtain vs t1 where p: "push_servers (store_target lost W) (cl_ID c) ?f (bq_AddBinds_update (\<lambda>_. us) no_batch, t) = (bq_AddBinds_update (\<lambda>_. vs) no_batch, t1)"
      "target_inv W kv t1" "length vs < 96" "bind_pair ` set vs \<subseteq> bind_pair ` set us \<union> Pair (cl_ID c) ` set ?f" "distinct (map bind_pair vs)"
      "add_pairs (bind_pairs vs) (target_config W kv t1) = add_pairs (bind_pairs us \<union> Pair (cl_ID c) ` set ?f) (target_config W kv t)"
    using push_servers_run [OF _ Cons.prems(4,5)] by blast
  have vs: "bd_ClusterID ` set vs \<subseteq> insert (cl_ID c) (bd_ClusterID ` set us)"
    using image_mono [OF p(4), of fst] by (auto simp: image_Un image_image)
  have "cl_ID d \<notin> bd_ClusterID ` set vs" if d: "d \<in> set cs" for d
  proof -
    have "cl_ID d \<noteq> cl_ID c" using Cons.prems(2) d by (metis distinct.simps(2) image_eqI list.set_map list.simps(9))
    moreover have "cl_ID d \<notin> bd_ClusterID ` set us" using Cons.prems(3) d by simp
    ultimately show ?thesis using vs by blast
  qed
  then have "\<forall>d\<in>set cs. distinct (f (cl_ID d)) \<and> cl_ID d \<notin> bd_ClusterID ` set vs" using Cons.prems(3) by simp
  moreover have "distinct (map cl_ID cs)" using Cons.prems(2) by simp
  ultimately obtain ws t' where w: "push_binds V e db (store_target lost W) cs (bq_AddBinds_update (\<lambda>_. vs) no_batch, t1) = (Ok (), bq_AddBinds_update (\<lambda>_. ws) no_batch, t')"
      "target_inv W kv t'" "length ws < 96" "distinct (map bind_pair ws)"
      "add_pairs (bind_pairs ws) (target_config W kv t') =
        add_pairs (bind_pairs vs \<union> (\<Union>c\<in>set cs. Pair (cl_ID c) ` set (f (cl_ID c)))) (target_config W kv t1)"
    using Cons.IH [OF p(5) _ _ p(3,2)] by blast
  have "add_pairs (bind_pairs ws) (target_config W kv t') =
      add_pairs (bind_pairs us \<union> (\<Union>c\<in>set (c # cs). Pair (cl_ID c) ` set (f (cl_ID c)))) (target_config W kv t)"
    unfolding w(5) add_pairs_add [symmetric] p(6) by (simp add: add_pairs_add Un_assoc)
  then show ?case using p(1) w(1-4) by (auto simp: bs)
qed (auto simp: bind_pairs_def)

lemma put_ids_dom: "dom (put_ids idf vs Map.empty) = idf ` set vs"
  by (auto simp: put_ids_eq dom_map_of_conv_image_fst image_iff)

lemma cluster_pairs:
  assumes "finite B" "fst ` B \<subseteq> cl_ID ` set cs"
  shows "(\<Union>c\<in>set cs. Pair (cl_ID c) ` set (sorted_list_of_set {s. (cl_ID c, s) \<in> B})) = B"
proof -
  have "finite {s. (i, s) \<in> B}" for i by (rule finite_subset [OF _ finite_imageI [OF assms(1), of snd]]) (auto intro: rev_image_eqI)
  then show ?thesis using assms(2) by fastforce
qed

lemma binds_finite: "finite (dom m) \<Longrightarrow> finite (binds_of e m)"
proof (rule finite_imageD)
  assume "finite (dom m)"
  then show "finite ((\<lambda>(c, s). getBindKey e \<lparr>bd_ClusterID = c, bd_ServerID = s\<rparr>) ` binds_of e m)"
    by (rule rev_finite_subset) (auto simp: binds_of_def)
qed (auto simp: inj_on_def)

text \<open>What the source shows of itself.\<close>

lemma table_fits:
  assumes "etcd_ok E kv" "dir_ok c idf dir (kv db)" "t = table_of c dir (kv db)" "\<forall>v\<in>ran t. validate v = Ok ()" "endID \<notin> dom t"
  shows "puts_ok idf validate (listed t) \<and> put_ids idf (listed t) Map.empty = t \<and> length (listed t) = card (dom t)"
proof (intro conjI)
  have t: "finite (dom t)" "\<And>i v. t i = Some v \<Longrightarrow> idf v = i \<and> i \<noteq> 0"
    using table_finite [OF etcd_finite [OF assms(1)] assms(2)] table_dom [OF assms(2)] assms(3) by auto
  show "puts_ok idf validate (listed t)" by (rule listed_fits [OF t assms(4)])
  show "put_ids idf (listed t) Map.empty = t" by (rule put_ids_listed [OF t(1) assms(5)]) (use t(2) in blast)
  show "length (listed t) = card (dom t)" using assms(5) by (simp add: listed_def)
qed

lemma source_listings:
  assumes "etcd_ok (w_etcd W) kv" "store_inv (w_codecs W) e (kv db)" "cf = store_config (w_codecs W) e (kv db)" "copyable en cf"
  shows "GetServers W e (int backup_limit) db = Some (Ok (), listed (cf_servers cf))"
    "GetClusters W e (int backup_limit) db = Some (Ok (), listed (cf_clusters cf))"
    "GetAPIs W e (int backup_limit) db = Some (Ok (), listed (cf_apis cf))"
    "GetRoutings W e (int backup_limit) db = Some (Ok (), listed (cf_routings cf))"
    "GetPlugins W e (int backup_limit) db = Some (Ok (), listed (cf_plugins cf))"
    "doGetBindServers W e i db = Ok (sorted_list_of_set {s. (i, s) \<in> cf_binds cf})"
    "doGetAppliedPlugins W e db = Ok (the (cf_applied cf))"
    "store_getID (w_etcd W) e db = Ok (counter e (kv db))"
  using assms(2) doGetBindServers_run [OF assms(1), of e db i] doGetAppliedPlugins_run [OF assms(1), of e db] getID_run [OF assms(1), of e db]
  by (simp_all add: assms(3) store_inv_def dirs_ok_def store_config_def GetClusters_def GetServers_def GetAPIs_def GetRoutings_def GetPlugins_def
      getValues_run [OF assms(1)] pb_defs backup_limit_def)

lemma source_tables:
  assumes "etcd_ok (w_etcd W) kv" "store_inv (w_codecs W) e (kv db)" "cf = store_config (w_codecs W) e (kv db)" "copyable en cf"
  shows "puts_ok sv_ID ValidateServer (listed (cf_servers cf)) \<and> put_ids sv_ID (listed (cf_servers cf)) Map.empty = cf_servers cf \<and> length (listed (cf_servers cf)) = card (dom (cf_servers cf))"
    "puts_ok cl_ID ValidateCluster (listed (cf_clusters cf)) \<and> put_ids cl_ID (listed (cf_clusters cf)) Map.empty = cf_clusters cf \<and> length (listed (cf_clusters cf)) = card (dom (cf_clusters cf))"
    "puts_ok api_ID (ValidateAPI (en_rx en)) (listed (cf_apis cf)) \<and> put_ids api_ID (listed (cf_apis cf)) Map.empty = cf_apis cf \<and> length (listed (cf_apis cf)) = card (dom (cf_apis cf))"
    "puts_ok rg_ID ValidateRouting (listed (cf_routings cf)) \<and> put_ids rg_ID (listed (cf_routings cf)) Map.empty = cf_routings cf \<and> length (listed (cf_routings cf)) = card (dom (cf_routings cf))"
    "puts_ok pl_ID (NewRuntime en) (listed (cf_plugins cf)) \<and> put_ids pl_ID (listed (cf_plugins cf)) Map.empty = cf_plugins cf \<and> length (listed (cf_plugins cf)) = card (dom (cf_plugins cf))"
proof -
  note c = assms(4) [unfolded copyable_def] and d = assms(2) [unfolded store_inv_def dirs_ok_def] and tf = table_fits [OF assms(1)]
  show "puts_ok sv_ID ValidateServer (listed (cf_servers cf)) \<and> put_ids sv_ID (listed (cf_servers cf)) Map.empty = cf_servers cf \<and> length (listed (cf_servers cf)) = card (dom (cf_servers cf))"
    by (rule tf [where c = "c_Server (w_codecs W)" and dir = "es_serversDir e" and db = db]) (use c d in \<open>simp_all add: assms(3) store_config_def\<close>)
  show "puts_ok cl_ID ValidateCluster (listed (cf_clusters cf)) \<and> put_ids cl_ID (listed (cf_clusters cf)) Map.empty = cf_clusters cf \<and> length (listed (cf_clusters cf)) = card (dom (cf_clusters cf))"
    by (rule tf [where c = "c_Cluster (w_codecs W)" and dir = "es_clustersDir e" and db = db]) (use c d in \<open>simp_all add: assms(3) store_config_def\<close>)
  show "puts_ok api_ID (ValidateAPI (en_rx en)) (listed (cf_apis cf)) \<and> put_ids api_ID (listed (cf_apis cf)) Map.empty = cf_apis cf \<and> length (listed (cf_apis cf)) = card (dom (cf_apis cf))"
    by (rule tf [where c = "c_API (w_codecs W)" and dir = "es_apisDir e" and db = db]) (use c d in \<open>simp_all add: assms(3) store_config_def\<close>)
  show "puts_ok rg_ID ValidateRouting (listed (cf_routings cf)) \<and> put_ids rg_ID (listed (cf_routings cf)) Map.empty = cf_routings cf \<and> length (listed (cf_routings cf)) = card (dom (cf_routings cf))"
    by (rule tf [where c = "c_Routing (w_codecs W)" and dir = "es_routingsDir e" and db = db]) (use c d in \<open>simp_all add: assms(3) store_config_def\<close>)
  show "puts_ok pl_ID (NewRuntime en) (listed (cf_plugins cf)) \<and> put_ids pl_ID (listed (cf_plugins cf)) Map.empty = cf_plugins cf \<and> length (listed (cf_plugins cf)) = card (dom (cf_plugins cf))"
    by (rule tf [where c = "c_Plugin (w_codecs W)" and dir = "es_pluginsDir e" and db = db]) (use c d in \<open>simp_all add: assms(3) store_config_def\<close>)
qed

text \<open>The three stages that are more than a listing.\<close>

lemma backup_binds_run:
  assumes src: "etcd_ok (w_etcd W) kv" "store_inv (w_codecs W) e (kv db)" "cf = store_config (w_codecs W) e (kv db)" "copyable en cf"
    and t: "target_inv W' kv' t"
  obtains t' where "backup_binds W e db (store_target lost W') t = Some (Ok (), t')" "target_inv W' kv' t'"
    "target_config W' kv' t' = add_pairs (cf_binds cf) (target_config W' kv' t)"
proof -
  let ?f = "\<lambda>c. sorted_list_of_set {s. (c, s) \<in> cf_binds cf}" and ?cs = "listed (cf_clusters cf)" and ?T = "store_target lost W'"
  have ids: "distinct (map cl_ID ?cs)" using source_tables(2) [OF src] by (simp add: puts_ok_def)
  have none: "bq_AddBinds_update (\<lambda>_. []) no_batch = no_batch" by (simp add: no_batch_def)
  obtain ws t1 where p: "push_binds W e db ?T ?cs (no_batch, t) = (Ok (), bq_AddBinds_update (\<lambda>_. ws) no_batch, t1)" "target_inv W' kv' t1"
    "length ws < 96" "distinct (map bind_pair ws)"
    "add_pairs (bind_pairs ws) (target_config W' kv' t1) =
      add_pairs ((\<Union>c\<in>set ?cs. Pair (cl_ID c) ` set (?f (cl_ID c)))) (target_config W' kv' t)"
    using push_binds_run [where f = ?f and us = "[]" and lost = lost, OF source_listings(6) [OF src] _ ids _ _ t] by (auto simp: none)
  obtain t' where t': "send_rest ?T bq_AddBinds (bq_AddBinds_update (\<lambda>_. ws) no_batch) t1 = Some (Ok (), t')" "target_inv W' kv' t'"
    "target_config W' kv' t' = add_pairs (bind_pairs ws) (target_config W' kv' t1)"
    by (rule f_binds.sent [OF p(4,3,2), of lost, unfolded bind_effects])
  have "dom (cf_clusters cf) = cl_ID ` set ?cs" using source_tables(2) [OF src] put_ids_dom [of cl_ID ?cs] by metis
  then have "fst ` cf_binds cf \<subseteq> cl_ID ` set ?cs" using src(4) by (simp add: copyable_def)
  moreover have "finite (cf_binds cf)" using binds_finite [OF etcd_finite [OF src(1)], of e db] by (simp add: src(3) store_config_def)
  ultimately have "(\<Union>c\<in>set ?cs. Pair (cl_ID c) ` set (?f (cl_ID c))) = cf_binds cf" by (rule cluster_pairs [rotated])
  then show thesis
    using that [of t'] t' p(1,5) by (simp add: backup_binds_def source_listings(2) [OF src])
qed

lemma backup_plugins_run:
  assumes src: "etcd_ok (w_etcd W) kv" "store_inv (w_codecs W) e (kv db)" "cf = store_config (w_codecs W) e (kv db)" "copyable (w_env W') cf"
    and t: "target_inv W' kv' t"
  obtains t' where "backup_plugins W e db (store_target lost W') t = Some (Ok (), t')" "target_inv W' kv' t'"
    "target_config W' kv' t' = (let c = cf_plugins_update (put_ids pl_ID (listed (cf_plugins cf))) (target_config W' kv' t)
       in if 96 dvd card (dom (cf_plugins cf)) then c else c\<lparr>cf_applied := cf_applied cf\<rparr>)"
proof -
  let ?T = "store_target lost W'" and ?cfg = "target_config W' kv'" and ?vs = "listed (cf_plugins cf)" and ?b = "\<lambda>ws. bq_PutPlugins_update (\<lambda>_. ws) no_batch"
  have fits: "puts_ok pl_ID (NewRuntime (w_env W')) ?vs" and len: "length ?vs = card (dom (cf_plugins cf))" using source_tables(5) [OF src] by simp_all
  obtain ws t1 where p: "push_all ?T bq_PutPlugins bq_PutPlugins_update ?vs (no_batch, t) = (?b ws, t1)"
    "target_inv W' kv' t1" "puts_ok pl_ID (NewRuntime (w_env W')) ws" "length ws = length ?vs mod 96"
    "cf_plugins_update (put_ids pl_ID ws) (target_config W' kv' t1) = cf_plugins_update (put_ids pl_ID ?vs) (target_config W' kv' t)"
    by (rule f_plugins.pushed [OF fits t, of lost, unfolded put_effects])
  have run: "backup_plugins W e db ?T t = send_rest ?T bq_PutPlugins ((?b ws)\<lparr>bq_ApplyPlugins := Some (the (cf_applied cf))\<rparr>) t1"
    using p(1) by (simp add: backup_plugins_def source_listings(5,7) [OF src])
  have g: "bq_PutPlugins (?b ws) = ws" by simp
  show thesis
  proof (cases "ws = []")
    case True
    then have "96 dvd card (dom (cf_plugins cf))" using p(4) len by (simp add: dvd_eq_mod_eq_0)
    moreover have "?cfg t1 = cf_plugins_update (put_ids pl_ID ?vs) (?cfg t)" using p(5) True by (cases "?cfg t1") simp
    ultimately show thesis using that [of t1] p(2) True by (simp add: run send_rest_def no_batch_def)
  next
    case False
    then have "length ws \<noteq> 0" by simp
    then have n: "\<not> 96 dvd card (dom (cf_plugins cf))" unfolding p(4) len by (simp only: dvd_eq_mod_eq_0 not_False_eq_True)
    have "batch_valid (w_env W') ((?b ws)\<lparr>bq_ApplyPlugins := Some (the (cf_applied cf))\<rparr>)"
      using f_plugins.valid [OF p(3)] p(4) by (simp add: batch_valid_def)
    then obtain t' where t': "tg_Batch ?T ((?b ws)\<lparr>bq_ApplyPlugins := Some (the (cf_applied cf))\<rparr>) t1 = (None, t')" "target_inv W' kv' t'"
      "target_config W' kv' t' = batch_effect ((?b ws)\<lparr>bq_ApplyPlugins := Some (the (cf_applied cf))\<rparr>) (target_config W' kv' t1)"
      using remote.batch [OF p(2)] by blast
    have eff: "batch_effect ((?b ws)\<lparr>bq_ApplyPlugins := Some a\<rparr>) c = (cf_plugins_update (put_ids pl_ID ws) c)\<lparr>cf_applied := Some a\<rparr>" for a c
      by (cases c) (simp add: batch_effect_def no_batch_def)
    have ap: "Some (the (cf_applied cf)) = cf_applied cf" by (simp add: src(3) store_config_def)
    have "?cfg t' = (cf_plugins_update (put_ids pl_ID ?vs) (?cfg t))\<lparr>cf_applied := cf_applied cf\<rparr>" using t'(3) unfolding eff p(5) by (simp only: ap)
    then show thesis using that [of t'] t'(1,2) False n by (simp add: run send_rest_def call_def)
  qed
qed


text \<open>A store whose counter was used once and which has nothing else, copied over one that holds a cluster.\<close>

lemma counted_store:
  assumes "db = [(''/gw/id'', fmt_Uint64ToBytes 1000)]"
  shows "store_inv demo_codecs demo_store (map_of db)" "store_config demo_codecs demo_store (map_of db) = empty_config"
    "counter demo_store (map_of db) = 1000"
proof -
  obtain db' where d: "SetID demo_etcd 1000 (demo_store, []) = Some (Ok (), demo_store\<lparr>es_base := 0, es_end := 0\<rparr>, db')"
      "store_inv demo_codecs (demo_store\<lparr>es_base := 0, es_end := 0\<rparr>) (map_of db')"
      "store_config demo_codecs demo_store (map_of db') = store_config demo_codecs demo_store (map_of [])" "counter demo_store (map_of db') = 1000"
    by (rule SetID_run [OF demo_etcd_ok demo_store_inv [of demo_codecs], of 1000]) auto
  from d(1) have db': "db' = db"
    by (simp add: assms SetID_def Commit_def sbind_def slift_step_def demo_etcd_def demo_store_def NewEtcdStore_def Let_def)
  have b: "es_base demo_store \<le> es_end demo_store" by (simp add: demo_store_def NewEtcdStore_def)
  show "store_inv demo_codecs demo_store (map_of db)" using d(2) b by (simp add: db' store_inv_def ids_ok_def)
  show "store_config demo_codecs demo_store (map_of db) = empty_config" "counter demo_store (map_of db) = 1000"
    using d(3,4) demo_empty(1) by (simp_all add: db')
qed


end
