(* ===== verification/Ring_Buffer.thy ===== *)
theory Ring_Buffer
  imports Vx_Prelude
begin

unbundle bit_operations_syntax

text \<open>
  The bounded queue for many producers and consumers (\<^verbatim>\<open>utils/task/ring.go\<close>). It has no lock: a thread claims a position of
  the queue by compare-and-swap on a counter and then works on the slot of that position, whose sequence number tells whose
  turn it is. A thread is a program counter, one step of it is one access to the shared buffer, and threads interleave in any
  order. The accesses are those of \<^verbatim>\<open>sync/atomic\<close>, which Go orders totally; the plain accesses to the data of a slot lie
  between two of them. Counters and sequence numbers are 64-bit words.
\<close>

subsection \<open>The buffer\<close>

definition roundUp :: "uint64 \<Rightarrow> uint64" where
  "roundUp v =
     (let v = v - 1; v = v OR drop_bit 1 v; v = v OR drop_bit 2 v; v = v OR drop_bit 4 v; v = v OR drop_bit 8 v;
          v = v OR drop_bit 16 v; v = v OR drop_bit 32 v
      in v + 1)"

record 'a rnode =
  nd_position :: uint64
  nd_data :: "'a option"

record 'a RingBuffer =
  rb_queue :: uint64
  rb_dequeue :: uint64
  rb_mask :: uint64
  rb_disposed :: uint64
  rb_nodes :: "'a rnode list"

definition NewRingBuffer :: "uint64 \<Rightarrow> 'a RingBuffer" where
  "NewRingBuffer sz =
     (let sz = roundUp sz
      in \<lparr>rb_queue = 0, rb_dequeue = 0, rb_mask = sz - 1, rb_disposed = 0,
          rb_nodes = map (\<lambda>i. \<lparr>nd_position = of_nat i, nd_data = None\<rparr>) [0..<unat sz]\<rparr>)"

definition rb_Len :: "'a RingBuffer \<Rightarrow> uint64" where
  "rb_Len rb = rb_queue rb - rb_dequeue rb"

definition rb_Cap :: "'a RingBuffer \<Rightarrow> uint64" where
  "rb_Cap rb = of_nat (length (rb_nodes rb))"

definition rb_Dispose :: "'a RingBuffer \<Rightarrow> 'a RingBuffer" where
  "rb_Dispose rb = (if rb_disposed rb = 0 then rb\<lparr>rb_disposed := 1\<rparr> else rb)"

definition rb_IsDisposed :: "'a RingBuffer \<Rightarrow> bool" where
  "rb_IsDisposed rb \<longleftrightarrow> rb_disposed rb = 1"

subsection \<open>The steps of a thread\<close>

text \<open>What a call is about to do. A put carries its item and whether it is an \<^verbatim>\<open>Offer\<close>, a get whether it has a deadline; the
  position is the local variable \<^verbatim>\<open>pos\<close>.\<close>

datatype ring_error = RingDisposed | RingTimeout

datatype 'a ring_result = PutReturns "(ring_error, bool) outcome" | GetReturns "(ring_error, 'a option) outcome"

datatype 'a ring_pc =
    RingIdle
  | PutLoad 'a bool
  | PutTop 'a bool uint64 | PutSeq 'a bool uint64 | PutCas 'a bool uint64 | PutReload 'a bool uint64 | PutRetry 'a bool uint64
  | PutData 'a uint64 | PutStore uint64
  | GetLoad bool
  | GetTop bool uint64 | GetSeq bool uint64 | GetCas bool uint64 | GetReload bool uint64 | GetRetry bool uint64
  | GetTake uint64 | GetClear uint64 "'a option" | GetStore uint64 "'a option"
  | RingReturn "'a ring_result"

definition slot :: "'a RingBuffer \<Rightarrow> uint64 \<Rightarrow> nat" where
  "slot rb pos = unat (pos AND rb_mask rb)"

definition set_node :: "nat \<Rightarrow> ('a rnode \<Rightarrow> 'a rnode) \<Rightarrow> 'a RingBuffer \<Rightarrow> 'a RingBuffer" where
  "set_node i f rb = rb\<lparr>rb_nodes := (rb_nodes rb)[i := f (rb_nodes rb ! i)]\<rparr>"

text \<open>A put. The difference of two unsigned numbers is never negative, so the panic for a broken buffer cannot happen; a slot
  outside the buffer is the run-time panic.\<close>

fun put_step :: "'a ring_pc \<Rightarrow> 'a RingBuffer \<Rightarrow> 'a ring_pc \<times> 'a RingBuffer" where
  "put_step (PutLoad x offer) rb = (PutTop x offer (rb_queue rb), rb)"
| "put_step (PutTop x offer pos) rb =
     (if rb_disposed rb = 1 then RingReturn (PutReturns (Err RingDisposed)) else PutSeq x offer pos, rb)"
| "put_step (PutSeq x offer pos) rb =
     (if \<not> slot rb pos < length (rb_nodes rb) then RingReturn (PutReturns Panic)
      else let dif = nd_position (rb_nodes rb ! slot rb pos) - pos
           in if dif = 0 then PutCas x offer pos
              else if dif < 0 then RingReturn (PutReturns Panic)
              else PutReload x offer pos, rb)"
| "put_step (PutCas x offer pos) rb =
     (if rb_queue rb = pos then (PutData x pos, rb\<lparr>rb_queue := pos + 1\<rparr>) else (PutRetry x offer pos, rb))"
| "put_step (PutReload x offer pos) rb = (PutRetry x offer (rb_queue rb), rb)"
| "put_step (PutRetry x offer pos) rb = (if offer then RingReturn (PutReturns (Ok False)) else PutTop x offer pos, rb)"
| "put_step (PutData x pos) rb = (PutStore pos, set_node (slot rb pos) (\<lambda>n. n\<lparr>nd_data := Some x\<rparr>) rb)"
| "put_step (PutStore pos) rb =
     (RingReturn (PutReturns (Ok True)), set_node (slot rb pos) (\<lambda>n. n\<lparr>nd_position := pos + 1\<rparr>) rb)"
| "put_step pc rb = (pc, rb)"

text \<open>A get; \<open>late\<close> tells whether the deadline of the call has passed.\<close>

fun poll_step :: "bool \<Rightarrow> 'a ring_pc \<Rightarrow> 'a RingBuffer \<Rightarrow> 'a ring_pc \<times> 'a RingBuffer" where
  "poll_step late (GetLoad timed) rb = (GetTop timed (rb_dequeue rb), rb)"
| "poll_step late (GetTop timed pos) rb =
     (if rb_disposed rb = 1 then RingReturn (GetReturns (Err RingDisposed)) else GetSeq timed pos, rb)"
| "poll_step late (GetSeq timed pos) rb =
     (if \<not> slot rb pos < length (rb_nodes rb) then RingReturn (GetReturns Panic)
      else let dif = nd_position (rb_nodes rb ! slot rb pos) - (pos + 1)
           in if dif = 0 then GetCas timed pos
              else if dif < 0 then RingReturn (GetReturns Panic)
              else GetReload timed pos, rb)"
| "poll_step late (GetCas timed pos) rb =
     (if rb_dequeue rb = pos then (GetTake pos, rb\<lparr>rb_dequeue := pos + 1\<rparr>) else (GetRetry timed pos, rb))"
| "poll_step late (GetReload timed pos) rb = (GetRetry timed (rb_dequeue rb), rb)"
| "poll_step late (GetRetry timed pos) rb =
     (if timed \<and> late then RingReturn (GetReturns (Err RingTimeout)) else GetTop timed pos, rb)"
| "poll_step late (GetTake pos) rb = (GetClear pos (nd_data (rb_nodes rb ! slot rb pos)), rb)"
| "poll_step late (GetClear pos x) rb = (GetStore pos x, set_node (slot rb pos) (\<lambda>n. n\<lparr>nd_data := None\<rparr>) rb)"
| "poll_step late (GetStore pos x) rb =
     (RingReturn (GetReturns (Ok x)), set_node (slot rb pos) (\<lambda>n. n\<lparr>nd_position := pos + rb_mask rb + 1\<rparr>) rb)"
| "poll_step late pc rb = (pc, rb)"

fun getting :: "'a ring_pc \<Rightarrow> bool" where
  "getting (GetLoad timed) = True" | "getting (GetTop timed pos) = True" | "getting (GetSeq timed pos) = True"
| "getting (GetCas timed pos) = True" | "getting (GetReload timed pos) = True" | "getting (GetRetry timed pos) = True"
| "getting (GetTake pos) = True" | "getting (GetClear pos x) = True" | "getting (GetStore pos x) = True" | "getting pc = False"

definition ring_step :: "bool \<Rightarrow> 'a ring_pc \<Rightarrow> 'a RingBuffer \<Rightarrow> 'a ring_pc \<times> 'a RingBuffer" where
  "ring_step late pc rb = (if getting pc then poll_step late pc rb else put_step pc rb)"

text \<open>A system of threads. The last three fields record its history: the items in the order in which puts claimed a position,
  the number of gets that have, and what the gets have returned for which position.\<close>

record 'a ring_sys =
  rs_rb :: "'a RingBuffer"
  rs_pc :: "nat \<Rightarrow> 'a ring_pc"
  rs_puts :: "'a list"
  rs_gets :: nat
  rs_out :: "(nat \<times> 'a option) list"

definition claimed_put :: "'a ring_pc \<Rightarrow> 'a ring_pc \<Rightarrow> 'a list" where
  "claimed_put pc pc' = (case pc of PutCas x offer pos \<Rightarrow> (case pc' of PutData y p \<Rightarrow> [x] | _ \<Rightarrow> []) | _ \<Rightarrow> [])"

definition claimed_get :: "'a ring_pc \<Rightarrow> 'a ring_pc \<Rightarrow> nat" where
  "claimed_get pc pc' = (case pc of GetCas timed pos \<Rightarrow> (case pc' of GetTake p \<Rightarrow> 1 | _ \<Rightarrow> 0) | _ \<Rightarrow> 0)"

definition delivered :: "'a ring_pc \<Rightarrow> 'a ring_pc \<Rightarrow> (nat \<times> 'a option) list" where
  "delivered pc pc' = (case pc of GetStore pos x \<Rightarrow> (case pc' of RingReturn r \<Rightarrow> [(unat pos, x)] | _ \<Rightarrow> []) | _ \<Rightarrow> [])"

inductive ring_next :: "'a ring_sys \<Rightarrow> 'a ring_sys \<Rightarrow> bool" where
  call: "rs_pc s t = RingIdle \<or> rs_pc s t = RingReturn r \<Longrightarrow> pc = PutLoad x offer \<or> pc = GetLoad timed \<Longrightarrow>
    ring_next s (s\<lparr>rs_pc := (rs_pc s)(t := pc)\<rparr>)"
| dispose: "ring_next s (s\<lparr>rs_rb := rb_Dispose (rs_rb s)\<rparr>)"
| move: "ring_step late (rs_pc s t) (rs_rb s) = (pc', rb') \<Longrightarrow>
    ring_next s (s\<lparr>rs_rb := rb', rs_pc := (rs_pc s)(t := pc'), rs_puts := rs_puts s @ claimed_put (rs_pc s t) pc',
      rs_gets := rs_gets s + claimed_get (rs_pc s t) pc', rs_out := rs_out s @ delivered (rs_pc s t) pc'\<rparr>)"

definition ring_init :: "uint64 \<Rightarrow> 'a ring_sys" where
  "ring_init sz = \<lparr>rs_rb = NewRingBuffer sz, rs_pc = (\<lambda>_. RingIdle), rs_puts = [], rs_gets = 0, rs_out = []\<rparr>"

inductive ring_reach :: "uint64 \<Rightarrow> 'a ring_sys \<Rightarrow> bool" for sz where
  start: "ring_reach sz (ring_init sz)"
| run: "ring_reach sz s \<Longrightarrow> ring_next s s' \<Longrightarrow> ring_reach sz s'"

subsection \<open>The size of the buffer\<close>

text \<open>Each shift doubles how far every set bit has been smeared to the right.\<close>

lemma smear:
  assumes "\<And>n. bit x n \<longleftrightarrow> (\<exists>m<k. bit w (n + m))"
  shows "bit (x OR drop_bit k x) n \<longleftrightarrow> (\<exists>m<2 * k. bit (w :: uint64) (n + m))"
proof -
  have "bit (x OR drop_bit k x) n \<longleftrightarrow> (\<exists>m<k. bit w (n + m)) \<or> (\<exists>m<k. bit w (n + (k + m)))"
    by (simp add: bit_or_iff bit_drop_bit_eq assms add.left_commute add.assoc)
  also have "(\<exists>m<k. bit w (n + (k + m))) \<longleftrightarrow> (\<exists>m. k \<le> m \<and> m < 2 * k \<and> bit w (n + m))"
  proof
    assume "\<exists>m<k. bit w (n + (k + m))"
    then obtain m where "m < k" "bit w (n + (k + m))" by blast
    then show "\<exists>m. k \<le> m \<and> m < 2 * k \<and> bit w (n + m)" by (intro exI [of _ "k + m"]) simp
  next
    assume "\<exists>m. k \<le> m \<and> m < 2 * k \<and> bit w (n + m)"
    then obtain m where "k \<le> m" "m < 2 * k" "bit w (n + m)" by blast
    then show "\<exists>m<k. bit w (n + (k + m))" by (intro exI [of _ "m - k"]) simp
  qed
  also have "(\<exists>m<k. bit w (n + m)) \<or> (\<exists>m. k \<le> m \<and> m < 2 * k \<and> bit w (n + m)) \<longleftrightarrow> (\<exists>m<2 * k. bit w (n + m))"
  proof -
    have "m < 2 * k" if "m < k" for m using that by simp
    then show ?thesis by (meson not_le)
  qed
  finally show ?thesis .
qed

lemma smear_all:
  defines "s k x \<equiv> x OR drop_bit k (x :: uint64)"
  shows "bit (s 32 (s 16 (s 8 (s 4 (s 2 (s 1 w)))))) n \<longleftrightarrow> (\<exists>m\<ge>n. bit w m)"
proof -
  have 1: "bit w n \<longleftrightarrow> (\<exists>m<1. bit w (n + m))" for n by simp
  have 2: "bit (s 1 w) n \<longleftrightarrow> (\<exists>m<2. bit w (n + m))" for n using smear [OF 1, of n] by (simp add: s_def)
  have 4: "bit (s 2 (s 1 w)) n \<longleftrightarrow> (\<exists>m<4. bit w (n + m))" for n using smear [OF 2, of n] by (simp add: s_def)
  have 8: "bit (s 4 (s 2 (s 1 w))) n \<longleftrightarrow> (\<exists>m<8. bit w (n + m))" for n using smear [OF 4, of n] by (simp add: s_def)
  have 16: "bit (s 8 (s 4 (s 2 (s 1 w)))) n \<longleftrightarrow> (\<exists>m<16. bit w (n + m))" for n using smear [OF 8, of n] by (simp add: s_def)
  have 32: "bit (s 16 (s 8 (s 4 (s 2 (s 1 w))))) n \<longleftrightarrow> (\<exists>m<32. bit w (n + m))" for n using smear [OF 16, of n] by (simp add: s_def)
  have "bit (s 32 (s 16 (s 8 (s 4 (s 2 (s 1 w)))))) n \<longleftrightarrow> (\<exists>m<64. bit w (n + m))" using smear [OF 32, of n] by (simp add: s_def)
  also have "\<dots> \<longleftrightarrow> (\<exists>m\<ge>n. bit w m)"
  proof
    assume "\<exists>m\<ge>n. bit w m"
    then obtain m where m: "n \<le> m" "bit w m" by blast
    then have "m < 64" using bit_imp_le_length [of w m] by simp
    then show "\<exists>m<64. bit w (n + m)" using m by (intro exI [of _ "m - n"]) simp
  qed (metis le_add1)
  finally show ?thesis .
qed

lemma top_bit:
  fixes w :: uint64
  assumes "w \<noteq> 0"
  obtains M where "\<And>n. (\<exists>m\<ge>n. bit w m) \<longleftrightarrow> n \<le> M" "2 ^ M \<le> unat w" "unat w < 2 ^ Suc M"
proof -
  let ?J = "{m. bit w m}" and ?M = "Max {m. bit w m}"
  have fin: "finite ?J" by (rule finite_subset [of _ "{..<64}"]) (use bit_imp_le_length [of w] in auto)
  have ne: "?J \<noteq> {}" using assms by (auto simp: bit_eq_iff)
  have M: "bit w ?M" "\<And>m. bit w m \<Longrightarrow> m \<le> ?M" using Max_in [OF fin ne] Max_ge [OF fin] by auto
  have "w = take_bit (Suc ?M) w" using M(2) by (auto simp: bit_eq_iff bit_take_bit_iff less_Suc_eq_le)
  then have "unat w = take_bit (Suc ?M) (unat w)" by (metis unsigned_take_bit_eq)
  then have "unat w < 2 ^ Suc ?M" by (metis take_bit_nat_less_exp)
  moreover have "bit (unat w) ?M" using M(1) by (simp add: bit_unsigned_iff)
  then have "2 ^ ?M \<le> unat w" by (metis bit_iff_odd div_less dvd_0_right not_less)
  moreover have "(\<exists>m\<ge>n. bit w m) \<longleftrightarrow> n \<le> ?M" for n using M by (meson order_trans)
  ultimately show thesis using that by blast
qed

lemma roundUp_power:
  assumes "0 < v" "unat v \<le> 2 ^ 63"
  obtains j where "j \<le> 63" "roundUp v = 2 ^ j" "unat v \<le> 2 ^ j" "2 ^ j < 2 * unat v"
proof (cases "v = 1")
  case True
  then show thesis by (intro that [of 0]) (simp_all add: roundUp_def)
next
  case False
  define w where "w = v - 1"
  have uv: "unat v = Suc (unat w)" using assms(1) by (simp add: w_def unat_minus_one word_neq_0_conv unat_gt_0)
  have "w \<noteq> 0" using False by (simp add: w_def)
  then obtain M where M: "\<And>n. (\<exists>m\<ge>n. bit w m) \<longleftrightarrow> n \<le> M" "2 ^ M \<le> unat w" "unat w < 2 ^ Suc M" by (rule top_bit) blast
  have "(2 :: nat) ^ M < 2 ^ 63" using M(2) assms(2) uv by linarith
  then have M63: "M < 63" using power_less_imp_less_exp [of 2 M 63] by simp
  define x where "x = roundUp v - 1"
  have "bit x n \<longleftrightarrow> n \<le> M" for n
    using smear_all [of w n] M(1) by (simp add: x_def roundUp_def Let_def w_def)
  then have "x = mask (Suc M)" using M63 by (auto simp: bit_eq_iff bit_mask_iff less_Suc_eq_le)
  then have r: "roundUp v = 2 ^ Suc M" by (simp add: x_def mask_eq_exp_minus_1 del: power_Suc)
  show thesis by (rule that [of "Suc M"]) (use M63 r uv M in \<open>simp_all\<close>)
qed

end
