(* ===== verification/Ring_Laws.thy ===== *)
theory Ring_Laws
  imports Ring_Buffer
begin

text \<open>
  The ring buffer is a queue: however its threads interleave, the item that a put brought to a position is what the get of that
  position returns, and every position is filled and emptied once.

  A position is a natural number here, and the 64-bit counters hold it as long as fewer than \<open>2 ^ 64\<close> puts have been made.
  At any time slot \<open>i\<close> serves one position \<open>c i\<close>: it waits for the put of that position, is being written, is full, or is being
  read. A get that is through with it hands the slot over to the position one lap later.
\<close>

subsection \<open>The slots\<close>

text \<open>\<open>W\<close> and \<open>R\<close> are the positions that a thread has claimed and is writing or reading, \<open>D\<close> those of \<open>R\<close> that have been read.\<close>

definition ring_core :: "nat \<Rightarrow> (nat \<Rightarrow> nat) \<Rightarrow> 'a list \<Rightarrow> nat \<Rightarrow> nat set \<Rightarrow> nat set \<Rightarrow> nat set \<Rightarrow> 'a rnode list \<Rightarrow> bool" where
  "ring_core n c puts T W R D nodes \<longleftrightarrow>
     length nodes = n \<and> T \<le> length puts \<and> (\<forall>p\<in>W. T \<le> p \<and> p < length puts) \<and> (\<forall>p\<in>R. p < T) \<and> D \<subseteq> R \<and>
     (\<forall>i<n. c i mod n = i \<and> length puts \<le> c i + n \<and> c i < length puts + n \<and> (c i < length puts \<longrightarrow> T \<le> c i \<or> c i \<in> R)) \<and>
     (\<forall>q. T \<le> q \<and> q < length puts \<or> q \<in> R \<longrightarrow> c (q mod n) = q) \<and>
     (\<forall>i<n. nd_position (nodes ! i) = of_nat (if length puts \<le> c i \<or> c i \<in> W then c i else Suc (c i))) \<and>
     (\<forall>i<n. c i < length puts \<longrightarrow> c i \<notin> W \<longrightarrow> c i \<notin> D \<longrightarrow> nd_data (nodes ! i) = Some (puts ! c i))"

lemma coreD:
  assumes "ring_core n c puts T W R D nodes"
  shows "length nodes = n" "T \<le> length puts" "\<And>p. p \<in> W \<Longrightarrow> T \<le> p \<and> p < length puts" "\<And>p. p \<in> R \<Longrightarrow> p < T" "D \<subseteq> R"
    "\<And>i. i < n \<Longrightarrow> c i mod n = i" "\<And>i. i < n \<Longrightarrow> length puts \<le> c i + n" "\<And>i. i < n \<Longrightarrow> c i < length puts + n"
    "\<And>i. i < n \<Longrightarrow> c i < length puts \<Longrightarrow> T \<le> c i \<or> c i \<in> R" "\<And>q. T \<le> q \<Longrightarrow> q < length puts \<Longrightarrow> c (q mod n) = q"
    "\<And>q. q \<in> R \<Longrightarrow> c (q mod n) = q" "\<And>q. q \<in> W \<Longrightarrow> c (q mod n) = q"
    "\<And>i. i < n \<Longrightarrow> nd_position (nodes ! i) = of_nat (if length puts \<le> c i \<or> c i \<in> W then c i else Suc (c i))"
    "\<And>i. i < n \<Longrightarrow> c i < length puts \<Longrightarrow> c i \<notin> W \<Longrightarrow> c i \<notin> D \<Longrightarrow> nd_data (nodes ! i) = Some (puts ! c i)"
  using assms unfolding ring_core_def by blast+

lemma coreI:
  assumes "length nodes = n" "T \<le> length puts" "\<And>p. p \<in> W \<Longrightarrow> T \<le> p \<and> p < length puts" "\<And>p. p \<in> R \<Longrightarrow> p < T" "D \<subseteq> R"
    "\<And>i. i < n \<Longrightarrow> c i mod n = i" "\<And>i. i < n \<Longrightarrow> length puts \<le> c i + n" "\<And>i. i < n \<Longrightarrow> c i < length puts + n"
    "\<And>i. i < n \<Longrightarrow> c i < length puts \<Longrightarrow> T \<le> c i \<or> c i \<in> R" "\<And>q. T \<le> q \<and> q < length puts \<or> q \<in> R \<Longrightarrow> c (q mod n) = q"
    "\<And>i. i < n \<Longrightarrow> nd_position (nodes ! i) = of_nat (if length puts \<le> c i \<or> c i \<in> W then c i else Suc (c i))"
    "\<And>i. i < n \<Longrightarrow> c i < length puts \<Longrightarrow> c i \<notin> W \<Longrightarrow> c i \<notin> D \<Longrightarrow> nd_data (nodes ! i) = Some (puts ! c i)"
  shows "ring_core n c puts T W R D nodes"
  using assms unfolding ring_core_def by blast

lemma of_nat_unat64: "of_nat (unat p) = (p :: uint64)"
  by (simp add: word_eq_iff_unsigned [where ?'a = nat] unat_of_nat_small)

lemma of_nat64 [simp]:
  assumes "a < 2 ^ 64" "b < 2 ^ 64"
  shows "(of_nat a :: uint64) = of_nat b \<longleftrightarrow> a = b"
proof -
  have "unat (of_nat a :: uint64) = a" "unat (of_nat b :: uint64) = b" using assms by (simp_all add: unat_of_nat_small)
  then show ?thesis by metis
qed

text \<open>Two positions of one slot do not follow each other, because there is more than one slot.\<close>

lemma laps_apart: "2 \<le> n \<Longrightarrow> Suc a mod n = a mod n \<Longrightarrow> False"
  by (metis One_nat_def Suc_1 Suc_n_not_le_n le_SucE le_less_trans less_imp_le_nat mod_Suc mod_less_divisor n_not_Suc_n nat.simps(3)
      not_less_eq_eq zero_less_Suc)

text \<open>The slot whose sequence number is the next position to fill is free for it, the one whose number is behind the next
  position to empty is full.\<close>

lemma free_slot:
  assumes core: "ring_core n c puts T W R D nodes" and n: "2 \<le> n" "length puts + n < 2 ^ 64"
    and "nd_position (nodes ! (length puts mod n)) = of_nat (length puts)"
  shows "c (length puts mod n) = length puts"
proof -
  let ?H = "length puts" let ?i = "length puts mod n"
  have i: "?i < n" using n by simp
  note ci = coreD(6-8,13) [OF core i]
  show ?thesis
  proof (cases "?H \<le> c ?i \<or> c ?i \<in> W")
    case True
    then show ?thesis using assms(4) ci n by (simp split: if_splits)
  next
    case False
    then have "Suc (c ?i) = ?H" using assms(4) ci n by (simp del: of_nat_Suc)
    then show ?thesis using laps_apart [OF n(1), of "c ?i"] ci(1) by simp
  qed
qed

lemma full_slot:
  assumes core: "ring_core n c puts T W R D nodes" and n: "2 \<le> n" "length puts + n < 2 ^ 64"
    and "nd_position (nodes ! (T mod n)) = of_nat (Suc T)"
  shows "c (T mod n) = T \<and> T < length puts \<and> T \<notin> W"
proof -
  let ?i = "T mod n"
  have i: "?i < n" using n by simp
  have T: "T \<le> length puts" by (rule coreD(2) [OF core])
  note ci = coreD(6-8,13) [OF core i]
  show ?thesis
  proof (cases "length puts \<le> c ?i \<or> c ?i \<in> W")
    case True
    then have "c ?i = Suc T" using assms(4) ci n T by (simp del: of_nat_Suc)
    then show ?thesis using laps_apart [OF n(1), of T] ci(1) by simp
  next
    case False
    then have "c ?i = T" using assms(4) ci n T by (simp del: of_nat_Suc)
    then show ?thesis using False by simp
  qed
qed

subsection \<open>What a step does to a slot\<close>

lemma mod_same_slot: "c (q mod n) = q \<Longrightarrow> c (p mod n) = p \<Longrightarrow> p mod n = q mod n \<Longrightarrow> p = (q :: nat)"
  by simp

lemma core_claim_put:
  assumes core: "ring_core n c puts T W R D nodes" and n: "2 \<le> n" "length puts + n < 2 ^ 64"
    and "nd_position (nodes ! (length puts mod n)) = of_nat (length puts)"
  shows "ring_core n c (puts @ [x]) T (insert (length puts) W) R D nodes"
proof -
  let ?H = "length puts"
  note cd = coreD [OF core]
  have cH: "c (?H mod n) = ?H" by (rule free_slot [OF assms])
  have lap: "Suc ?H \<le> c i + n" if i: "i < n" for i
  proof (rule ccontr)
    assume "\<not> ?thesis"
    then have e: "?H = c i + n" using cd(7) [OF i] by simp
    then have "?H mod n = i" using cd(6) [OF i] by simp
    then show False using cH e n by simp
  qed
  have act: "T \<le> c i \<or> c i \<in> R" if "i < n" "c i < Suc ?H" for i using that cd(2) cd(9) [of i] by (cases "c i = ?H") auto
  have q: "c (q mod n) = q" if "T \<le> q \<and> q < Suc ?H \<or> q \<in> R" for q
    using that cd(10,11) cH by (cases "q = ?H") auto
  have "nd_position (nodes ! i) = of_nat (if Suc ?H \<le> c i \<or> c i \<in> insert ?H W then c i else Suc (c i))" if "i < n" for i
    using cd(13) [OF that] by (auto simp: Suc_le_eq le_less)
  moreover have "nd_data (nodes ! i) = Some ((puts @ [x]) ! c i)" if "i < n" "c i < Suc ?H" "c i \<notin> insert ?H W" "c i \<notin> D" for i
    using cd(14) [of i] that by (auto simp: nth_append)
  ultimately show ?thesis
    using cd(1,2,4,5,6) lap q less_SucI [OF cd(3) [THEN conjunct2]] cd(3) less_SucI [OF cd(8)] act
    by (intro coreI) (auto simp: less_Suc_eq)
qed

lemma core_claim_get:
  assumes core: "ring_core n c puts T W R D nodes" and n: "2 \<le> n" "length puts + n < 2 ^ 64"
    and "nd_position (nodes ! (T mod n)) = of_nat (Suc T)"
  shows "ring_core n c puts (Suc T) W (insert T R) D nodes"
proof -
  note cd = coreD [OF core]
  have T: "c (T mod n) = T" "T < length puts" "T \<notin> W" using full_slot [OF assms] by blast+
  have "Suc T \<le> p \<and> p < length puts" if "p \<in> W" for p using cd(3) [OF that] T(3) that by (cases "p = T") auto
  moreover have "c (q mod n) = q" if "Suc T \<le> q \<and> q < length puts \<or> q \<in> insert T R" for q using that cd(10,11) T(1) by auto
  moreover have "Suc T \<le> c i \<or> c i \<in> insert T R" if "i < n" "c i < length puts" for i using cd(9) [OF that] by auto
  ultimately show ?thesis
    using cd(1,4-8,13,14) T(2) by (intro coreI) (auto simp: less_Suc_eq)
qed

lemma core_write:
  assumes core: "ring_core n c puts T W R D nodes" and "0 < n" "p \<in> W \<or> p \<in> D"
  shows "ring_core n c puts T W R D (nodes[p mod n := (nodes ! (p mod n))\<lparr>nd_data := y\<rparr>])"
proof -
  note cd = coreD [OF core]
  have p: "c (p mod n) = p" using assms(3) cd(5,11,12) by auto
  show ?thesis using core p assms(2,3) unfolding ring_core_def by (auto simp: nth_list_update)
qed

lemma core_filled:
  assumes core: "ring_core n c puts T W R D nodes" and "0 < n" "p \<in> W" "nd_data (nodes ! (p mod n)) = Some (puts ! p)"
  shows "ring_core n c puts T (W - {p}) R D (nodes[p mod n := (nodes ! (p mod n))\<lparr>nd_position := of_nat (Suc p)\<rparr>])"
proof -
  note cd = coreD [OF core]
  have p: "c (p mod n) = p" "p < length puts" "T \<le> p" using assms(3) cd(3,12) by auto
  have ci: "c i \<noteq> p" if "i < n" "i \<noteq> p mod n" for i using cd(6) [OF that(1)] that(2) by auto
  show ?thesis using core p assms(2-4) ci unfolding ring_core_def by (auto simp: nth_list_update)
qed

lemma core_taken: "ring_core n c puts T W R D nodes \<Longrightarrow> p \<in> R \<Longrightarrow> ring_core n c puts T W R (insert p D) nodes"
  unfolding ring_core_def by auto

lemma core_emptied:
  assumes core: "ring_core n c puts T W R D nodes" and n: "0 < n" and p: "p \<in> R"
  shows "ring_core n (c(p mod n := p + n)) puts T W (R - {p}) (D - {p}) (nodes[p mod n := (nodes ! (p mod n))\<lparr>nd_position := of_nat (p + n)\<rparr>])"
proof -
  note cd = coreD [OF core]
  have cp: "c (p mod n) = p" "p < T" using p cd(4,11) by auto
  have H: "length puts \<le> p + n" using cd(7) [of "p mod n"] n cp by simp
  have W: "p \<notin> W" using cd(3) [of p] cp(2) by auto
  have other: "q mod n \<noteq> p mod n" if "T \<le> q \<and> q < length puts \<or> q \<in> R - {p}" for q
    using that cd(10,11) [of q] cp by (metis Diff_iff insertCI leD)
  have ci: "c i \<noteq> p" if "i < n" "i \<noteq> p mod n" for i using cd(6) [OF that(1)] that(2) by auto
  have len: "length puts \<le> p + n + n" "\<not> p + n < length puts" "p + n < length puts + n" using H cp(2) cd(2) by linarith+
  show ?thesis
  proof (rule coreI)
    fix q assume "T \<le> q \<and> q < length puts \<or> q \<in> R - {p}"
    then show "(c(p mod n := p + n)) (q mod n) = q" using other [of q] cd(10,11) by auto
  next
    fix i assume i: "i < n"
    let ?c = "c(p mod n := p + n)" and ?nodes = "nodes[p mod n := (nodes ! (p mod n))\<lparr>nd_position := of_nat (p + n)\<rparr>]"
    show "nd_position (?nodes ! i) = of_nat (if length puts \<le> ?c i \<or> ?c i \<in> W then ?c i else Suc (?c i))"
      using cd(13) [OF i] H i cd(1) by (auto simp: nth_list_update)
    show "nd_data (?nodes ! i) = Some (puts ! ?c i)" if "?c i < length puts" "?c i \<notin> W" "?c i \<notin> D - {p}"
      using that cd(14) [OF i] len(2) i cd(1) ci [OF i] by (cases "i = p mod n") (auto simp: nth_list_update)
    show "T \<le> ?c i \<or> ?c i \<in> R - {p}" if "?c i < length puts" using that len(2) cd(9) [OF i] ci [OF i] by (cases "i = p mod n") auto
    show "?c i mod n = i" "length puts \<le> ?c i + n" "?c i < length puts + n" using cd(6-8) [OF i] len by auto
  qed (use cd(1-5) in auto)
qed

subsection \<open>The threads\<close>

definition writer :: "'a ring_pc \<Rightarrow> nat option" where
  "writer pc = (case pc of PutData x pos \<Rightarrow> Some (unat pos) | PutStore pos \<Rightarrow> Some (unat pos) | _ \<Rightarrow> None)"

definition reader :: "'a ring_pc \<Rightarrow> nat option" where
  "reader pc = (case pc of GetTake pos \<Rightarrow> Some (unat pos) | GetClear pos x \<Rightarrow> Some (unat pos) | GetStore pos x \<Rightarrow> Some (unat pos) | _ \<Rightarrow> None)"

definition taken :: "'a ring_pc \<Rightarrow> nat option" where
  "taken pc = (case pc of GetClear pos x \<Rightarrow> Some (unat pos) | GetStore pos x \<Rightarrow> Some (unat pos) | _ \<Rightarrow> None)"

lemmas holder_defs = writer_def reader_def taken_def

definition holders :: "('a ring_pc \<Rightarrow> nat option) \<Rightarrow> (nat \<Rightarrow> 'a ring_pc) \<Rightarrow> nat set" where
  "holders f pcs = {p. \<exists>t. f (pcs t) = Some p}"

definition sole :: "('a ring_pc \<Rightarrow> nat option) \<Rightarrow> (nat \<Rightarrow> 'a ring_pc) \<Rightarrow> bool" where
  "sole f pcs \<longleftrightarrow> (\<forall>t u p. f (pcs t) = Some p \<longrightarrow> f (pcs u) = Some p \<longrightarrow> t = u)"

lemma holdersI: "f (pcs t) = Some p \<Longrightarrow> p \<in> holders f pcs"
  by (auto simp: holders_def)

lemma holders_same: "f pc' = f (pcs t) \<Longrightarrow> holders f (pcs(t := pc')) = holders f pcs"
  by (auto simp: holders_def)

lemma holders_enter: "f (pcs t) = None \<Longrightarrow> f pc' = Some p \<Longrightarrow> holders f (pcs(t := pc')) = insert p (holders f pcs)"
  by (auto simp: holders_def) (metis option.simps(3))+

lemma holders_leave: "sole f pcs \<Longrightarrow> f (pcs t) = Some p \<Longrightarrow> f pc' = None \<Longrightarrow> holders f (pcs(t := pc')) = holders f pcs - {p}"
  by (auto simp: holders_def sole_def) (metis option.inject)+

lemma sole_upd:
  assumes "sole f pcs" "f pc' = None \<or> f pc' = f (pcs t) \<or> (\<exists>p. f pc' = Some p \<and> p \<notin> holders f pcs)"
  shows "sole f (pcs(t := pc'))"
  using assms unfolding sole_def holders_def by (auto split: if_splits) metis+

text \<open>What a thread knows at each program counter: its position is not ahead of the counter, a slot it is about to claim is ready
  if nobody claims it first, and an item it carries is the one of its position.\<close>

definition pc_ok :: "nat \<Rightarrow> 'a list \<Rightarrow> nat \<Rightarrow> 'a rnode list \<Rightarrow> 'a ring_pc \<Rightarrow> bool" where
  "pc_ok n puts T nodes pc = (case pc of
      PutTop x b pos \<Rightarrow> unat pos \<le> length puts | PutSeq x b pos \<Rightarrow> unat pos \<le> length puts
    | PutReload x b pos \<Rightarrow> unat pos \<le> length puts | PutRetry x b pos \<Rightarrow> unat pos \<le> length puts
    | PutCas x b pos \<Rightarrow> unat pos \<le> length puts \<and>
        (unat pos = length puts \<longrightarrow> nd_position (nodes ! (length puts mod n)) = of_nat (length puts))
    | PutData x pos \<Rightarrow> puts ! unat pos = x
    | PutStore pos \<Rightarrow> nd_data (nodes ! (unat pos mod n)) = Some (puts ! unat pos)
    | GetTop b pos \<Rightarrow> unat pos \<le> T | GetSeq b pos \<Rightarrow> unat pos \<le> T | GetReload b pos \<Rightarrow> unat pos \<le> T | GetRetry b pos \<Rightarrow> unat pos \<le> T
    | GetCas b pos \<Rightarrow> unat pos \<le> T \<and> (unat pos = T \<longrightarrow> nd_position (nodes ! (T mod n)) = of_nat (Suc T))
    | GetClear pos x \<Rightarrow> x = Some (puts ! unat pos) | GetStore pos x \<Rightarrow> x = Some (puts ! unat pos)
    | RingReturn r \<Rightarrow> r \<noteq> PutReturns Panic \<and> r \<noteq> GetReturns Panic
    | _ \<Rightarrow> True)"

lemma pc_ok_nodes:
  assumes core: "ring_core n c puts T W R D nodes" and n: "2 \<le> n" "length puts + n < 2 ^ 64" and p: "p \<in> W \<union> R"
    and pc: "pc_ok n puts T nodes pc" "\<And>q. writer pc = Some q \<Longrightarrow> q \<in> W \<and> q \<noteq> p"
  shows "pc_ok n puts T (nodes[p mod n := nd]) pc"
proof -
  note cd = coreD [OF core]
  have cp: "c (p mod n) = p" "p < length puts" using p cd(2-4,11,12) by force+
  have put: "length puts mod n \<noteq> p mod n" if "nd_position (nodes ! (length puts mod n)) = of_nat (length puts)"
    using free_slot [OF core n that] cp by auto
  have get: "T mod n \<noteq> p mod n" if "nd_position (nodes ! (T mod n)) = of_nat (Suc T)"
    using full_slot [OF core n that] cp p cd(4) by force
  have "q mod n \<noteq> p mod n" if "writer pc = Some q" for q using pc(2) [OF that] cd(12) [of q] cp by auto
  then show ?thesis using pc(1) put get by (auto simp: pc_ok_def writer_def split: ring_pc.splits)
qed

lemma pc_ok_puts:
  assumes "pc_ok n puts T nodes pc" "\<And>p. writer pc = Some p \<or> reader pc = Some p \<Longrightarrow> p < length puts"
  shows "pc_ok n (puts @ [x]) T nodes pc"
  using assms by (auto simp: pc_ok_def holder_defs nth_append split: ring_pc.splits)

lemma pc_ok_gets: "pc_ok n puts T nodes pc \<Longrightarrow> pc_ok n puts (Suc T) nodes pc"
  by (auto simp: pc_ok_def split: ring_pc.splits)

definition outs_ok :: "'a list \<Rightarrow> nat \<Rightarrow> nat set \<Rightarrow> (nat \<times> 'a option) list \<Rightarrow> bool" where
  "outs_ok puts T R out \<longleftrightarrow> distinct (map fst out) \<and> fst ` set out = {..<T} - R \<and> (\<forall>(p, x)\<in>set out. x = Some (puts ! p))"

definition ring_inv :: "nat \<Rightarrow> (nat \<Rightarrow> nat) \<Rightarrow> 'a ring_sys \<Rightarrow> bool" where
  "ring_inv n c s \<longleftrightarrow> rb_mask (rs_rb s) = of_nat (n - 1) \<and> rb_queue (rs_rb s) = of_nat (length (rs_puts s)) \<and>
     rb_dequeue (rs_rb s) = of_nat (rs_gets s) \<and>
     ring_core n c (rs_puts s) (rs_gets s) (holders writer (rs_pc s)) (holders reader (rs_pc s)) (holders taken (rs_pc s)) (rb_nodes (rs_rb s)) \<and>
     (\<forall>t. pc_ok n (rs_puts s) (rs_gets s) (rb_nodes (rs_rb s)) (rs_pc s t)) \<and> sole writer (rs_pc s) \<and> sole reader (rs_pc s) \<and>
     outs_ok (rs_puts s) (rs_gets s) (holders reader (rs_pc s)) (rs_out s)"

lemma invD:
  assumes "ring_inv n c s"
  shows "rb_mask (rs_rb s) = of_nat (n - 1)" "rb_queue (rs_rb s) = of_nat (length (rs_puts s))" "rb_dequeue (rs_rb s) = of_nat (rs_gets s)"
    "ring_core n c (rs_puts s) (rs_gets s) (holders writer (rs_pc s)) (holders reader (rs_pc s)) (holders taken (rs_pc s)) (rb_nodes (rs_rb s))"
    "\<And>t. pc_ok n (rs_puts s) (rs_gets s) (rb_nodes (rs_rb s)) (rs_pc s t)" "sole writer (rs_pc s)" "sole reader (rs_pc s)"
    "outs_ok (rs_puts s) (rs_gets s) (holders reader (rs_pc s)) (rs_out s)"
  using assms unfolding ring_inv_def by blast+

text \<open>The number of slots is a power of two, so the mask selects the position modulo that number.\<close>

lemma slot_mod:
  assumes "rb_mask rb = of_nat (n - 1)" "n = 2 ^ k" "k \<le> 63"
  shows "slot rb pos = unat pos mod n"
proof -
  have "rb_mask rb = mask k" using assms by (simp add: mask_eq_exp_minus_1 of_nat_diff)
  then have "slot rb pos = unat (take_bit k pos)" by (simp add: slot_def take_bit_eq_mask)
  also have "\<dots> = take_bit k (unat pos)" by (simp add: unsigned_take_bit_eq)
  finally show ?thesis by (simp add: take_bit_eq_mod assms(2))
qed

text \<open>A step that changes neither the buffer nor who holds a slot.\<close>

lemma inv_local:
  assumes inv: "ring_inv n c s" and "writer pc' = writer (rs_pc s t)" "reader pc' = reader (rs_pc s t)" "taken pc' = taken (rs_pc s t)"
    and "pc_ok n (rs_puts s) (rs_gets s) (rb_nodes (rs_rb s)) pc'"
  shows "ring_inv n c (s\<lparr>rs_pc := (rs_pc s)(t := pc')\<rparr>)"
proof -
  note d = invD [OF inv]
  note h = holders_same [of writer pc' "rs_pc s" t, OF assms(2)] holders_same [of reader pc' "rs_pc s" t, OF assms(3)]
    holders_same [of taken pc' "rs_pc s" t, OF assms(4)]
  have "sole writer ((rs_pc s)(t := pc'))" "sole reader ((rs_pc s)(t := pc'))" using d(6,7) assms(2,3) by (auto intro!: sole_upd)
  then show ?thesis using d assms(5) unfolding ring_inv_def by (simp add: h)
qed

lemma inv_claim_put:
  assumes inv: "ring_inv n c s" and n: "2 \<le> n" "length (rs_puts s) + n < 2 ^ 64" and pc: "rs_pc s t = PutCas x b pos" "rb_queue (rs_rb s) = pos"
  shows "ring_inv n c (s\<lparr>rs_rb := (rs_rb s)\<lparr>rb_queue := pos + 1\<rparr>, rs_pc := (rs_pc s)(t := PutData x pos), rs_puts := rs_puts s @ [x]\<rparr>)"
proof -
  note d = invD [OF inv]
  let ?H = "length (rs_puts s)" and ?pcs = "(rs_pc s)(t := PutData x pos)"
  have pos: "unat pos = ?H" using d(2) pc(2) n(2) by (auto simp: unat_of_nat_small)
  have free: "nd_position (rb_nodes (rs_rb s) ! (?H mod n)) = of_nat ?H" using d(5) [of t] pos by (simp add: pc pc_ok_def)
  note cd = coreD [OF d(4)]
  have w: "holders writer ?pcs = insert ?H (holders writer (rs_pc s))" "holders reader ?pcs = holders reader (rs_pc s)"
    "holders taken ?pcs = holders taken (rs_pc s)"
    by (rule holders_enter holders_same; simp add: pc holder_defs pos)+
  have "?H \<notin> holders writer (rs_pc s)" using cd(3) by blast
  then have sole: "sole writer ?pcs" "sole reader ?pcs" using d(6,7) pos by (auto intro!: sole_upd simp: holder_defs)
  have less: "p < ?H" if "writer (rs_pc s u) = Some p \<or> reader (rs_pc s u) = Some p" for u p
    using that cd(2-4) by (metis holdersI less_le_trans)
  have ok: "pc_ok n (rs_puts s @ [x]) (rs_gets s) (rb_nodes (rs_rb s)) (?pcs u)" for u
    using pc_ok_puts [OF d(5) less] pos by (simp add: pc_ok_def)
  have "outs_ok (rs_puts s @ [x]) (rs_gets s) (holders reader (rs_pc s)) (rs_out s)"
    using d(8) cd(2) unfolding outs_ok_def by (auto simp: nth_append split: prod.splits) (metis DiffD1 imageI fst_conv lessThan_iff less_le_trans)+
  moreover have "pos + 1 = of_nat (length (rs_puts s @ [x]))" using d(2) pc(2) by simp
  ultimately show ?thesis
    using d(1,3) core_claim_put [OF d(4) n free, of x] sole ok w unfolding ring_inv_def by simp
qed

lemma inv_claim_get:
  assumes inv: "ring_inv n c s" and n: "2 \<le> n" "length (rs_puts s) + n < 2 ^ 64" and pc: "rs_pc s t = GetCas b pos" "rb_dequeue (rs_rb s) = pos"
  shows "ring_inv n c (s\<lparr>rs_rb := (rs_rb s)\<lparr>rb_dequeue := pos + 1\<rparr>, rs_pc := (rs_pc s)(t := GetTake pos), rs_gets := Suc (rs_gets s)\<rparr>)"
proof -
  note d = invD [OF inv]
  let ?T = "rs_gets s" and ?pcs = "(rs_pc s)(t := GetTake pos)"
  note cd = coreD [OF d(4)]
  have pos: "unat pos = ?T" using d(3) pc(2) n(2) cd(2) by (auto simp: unat_of_nat_small)
  have full: "nd_position (rb_nodes (rs_rb s) ! (?T mod n)) = of_nat (Suc ?T)" using d(5) [of t] pos by (simp add: pc pc_ok_def)
  have w: "holders writer ?pcs = holders writer (rs_pc s)" "holders reader ?pcs = insert ?T (holders reader (rs_pc s))"
    "holders taken ?pcs = holders taken (rs_pc s)"
    by (rule holders_enter holders_same; simp add: pc holder_defs pos)+
  have "?T \<notin> holders reader (rs_pc s)" using cd(4) by blast
  then have sole: "sole writer ?pcs" "sole reader ?pcs" using d(6,7) pos by (auto intro!: sole_upd simp: holder_defs)
  have ok: "pc_ok n (rs_puts s) (Suc ?T) (rb_nodes (rs_rb s)) (?pcs u)" for u
    using pc_ok_gets [OF d(5)] by (simp add: pc_ok_def)
  have "outs_ok (rs_puts s) (Suc ?T) (insert ?T (holders reader (rs_pc s))) (rs_out s)"
    using d(8) unfolding outs_ok_def by (auto simp: lessThan_Suc)
  moreover have "pos + 1 = of_nat (Suc ?T)" using d(3) pc(2) by simp
  ultimately show ?thesis
    using d(1,2) core_claim_get [OF d(4) n full] sole ok w unfolding ring_inv_def by simp
qed

text \<open>A step that changes the slot a thread holds.\<close>

lemma inv_slot:
  assumes inv: "ring_inv n c s" and n: "n = 2 ^ k" "k \<le> 63" "2 \<le> n" "length (rs_puts s) + n < 2 ^ 64"
    and p: "writer (rs_pc s t) = Some p \<or> reader (rs_pc s t) = Some p" and rb': "rb' = (rs_rb s)\<lparr>rb_nodes := (rb_nodes (rs_rb s))[p mod n := nd]\<rparr>"
    and hold: "writer pc' = writer (rs_pc s t) \<or> writer pc' = None" "reader pc' = reader (rs_pc s t) \<or> reader pc' = None"
    and core: "ring_core n c' (rs_puts s) (rs_gets s) (holders writer ((rs_pc s)(t := pc'))) (holders reader ((rs_pc s)(t := pc')))
      (holders taken ((rs_pc s)(t := pc'))) (rb_nodes rb')"
    and ok: "pc_ok n (rs_puts s) (rs_gets s) (rb_nodes rb') pc'"
    and out: "outs_ok (rs_puts s) (rs_gets s) (holders reader ((rs_pc s)(t := pc'))) out"
  shows "ring_inv n c' (s\<lparr>rs_rb := rb', rs_pc := (rs_pc s)(t := pc'), rs_out := out\<rparr>)"
proof -
  note d = invD [OF inv]
  have h: "p \<in> holders writer (rs_pc s) \<union> holders reader (rs_pc s)" using p by (auto intro: holdersI)
  have "pc_ok n (rs_puts s) (rs_gets s) (rb_nodes rb') (((rs_pc s)(t := pc')) u)" for u
  proof (cases "u = t")
    case False
    have "q \<in> holders writer (rs_pc s) \<and> q \<noteq> p" if q: "writer (rs_pc s u) = Some q" for q
    proof
      show "q \<in> holders writer (rs_pc s)" by (rule holdersI [of writer "rs_pc s" u, OF q])
      show "q \<noteq> p"
      proof
        assume [simp]: "q = p"
        from p show False
        proof
          assume "writer (rs_pc s t) = Some p"
          then show False using d(6) q False by (auto simp: sole_def)
        next
          assume "reader (rs_pc s t) = Some p"
          then show False using coreD(3,4) [OF d(4), of p] holdersI [of reader, of "rs_pc s" t p] holdersI [of writer "rs_pc s" u, OF q] by auto
        qed
      qed
    qed
    then show ?thesis using False pc_ok_nodes [OF d(4) n(3,4) h d(5)] by (simp add: rb')
  qed (simp add: ok)
  moreover have "sole writer ((rs_pc s)(t := pc'))" "sole reader ((rs_pc s)(t := pc'))" using d(6,7) hold by (auto intro!: sole_upd)
  ultimately show ?thesis using d(1-3) core out unfolding ring_inv_def by (simp add: rb')
qed

definition moved :: "'a ring_sys \<Rightarrow> nat \<Rightarrow> 'a ring_pc \<Rightarrow> 'a RingBuffer \<Rightarrow> 'a ring_sys" where
  "moved s t pc' rb' = s\<lparr>rs_rb := rb', rs_pc := (rs_pc s)(t := pc'), rs_puts := rs_puts s @ claimed_put (rs_pc s t) pc',
      rs_gets := rs_gets s + claimed_get (rs_pc s t) pc', rs_out := rs_out s @ delivered (rs_pc s t) pc'\<rparr>"

lemma moved_eq:
  "claimed_put (rs_pc s t) pc' = [] \<Longrightarrow> claimed_get (rs_pc s t) pc' = 0 \<Longrightarrow>
     moved s t pc' rb' = s\<lparr>rs_rb := rb', rs_pc := (rs_pc s)(t := pc'), rs_out := rs_out s @ delivered (rs_pc s t) pc'\<rparr>"
  "claimed_put (rs_pc s t) pc' = [] \<Longrightarrow> claimed_get (rs_pc s t) pc' = 0 \<Longrightarrow> delivered (rs_pc s t) pc' = [] \<Longrightarrow>
     moved s t pc' rb' = s\<lparr>rs_rb := rb', rs_pc := (rs_pc s)(t := pc')\<rparr>"
  by (simp_all add: moved_def)

lemmas claim_defs = claimed_put_def claimed_get_def delivered_def

text \<open>The steps that only look at the buffer.\<close>

lemma inv_look:
  assumes inv: "ring_inv n c s" and n: "n = 2 ^ k" "k \<le> 63" "length (rs_puts s) + n < 2 ^ 64"
    and step: "ring_step late (rs_pc s t) (rs_rb s) = (pc', rb')" and hold: "writer (rs_pc s t) = None" "reader (rs_pc s t) = None"
    and none: "claimed_put (rs_pc s t) pc' = []" "claimed_get (rs_pc s t) pc' = 0"
  shows "ring_inv n c (moved s t pc' rb')"
proof -
  note d = invD [OF inv] note cd = coreD [OF d(4)]
  have H: "unat (rb_queue (rs_rb s)) = length (rs_puts s)" "unat (rb_dequeue (rs_rb s)) = rs_gets s"
    using d(2,3) n(3) cd(2) by (simp_all add: unat_of_nat_small)
  have sl: "slot (rs_rb s) pos = unat pos mod n" for pos by (rule slot_mod [OF d(1) n(1,2)])
  have pos: "unat pos mod n < length (rb_nodes (rs_rb s))" for pos :: uint64 using cd(1) n(1) by simp
  have seq: "nd_position nd - p = 0 \<longleftrightarrow> nd_position nd = p" for nd :: "'a rnode" and p by simp
  have un: "unat p = length (rs_puts s) \<Longrightarrow> p = of_nat (length (rs_puts s))" "unat p = rs_gets s \<Longrightarrow> p + 1 = of_nat (Suc (rs_gets s))" for p :: uint64
    using of_nat_unat64 [of p] by (simp_all add: add.commute)
  have del: "delivered (rs_pc s t) pc' = []" using hold(2) by (cases "rs_pc s t") (simp_all add: delivered_def reader_def)
  have rb': "rb' = rs_rb s" using step hold none by (cases "rs_pc s t") (auto simp: ring_step_def claim_defs holder_defs split: if_splits)
  have "writer pc' = writer (rs_pc s t)" "reader pc' = reader (rs_pc s t)" "taken pc' = taken (rs_pc s t)"
    using step hold none by (cases "rs_pc s t"; auto simp: ring_step_def holder_defs claim_defs Let_def split: if_splits)+
  moreover have "pc_ok n (rs_puts s) (rs_gets s) (rb_nodes (rs_rb s)) pc'"
    using step hold none d(5) [of t] H pos un
    by (cases "rs_pc s t") (auto simp: ring_step_def holder_defs claim_defs pc_ok_def Let_def sl simp del: of_nat_Suc split: if_splits)
  ultimately have "ring_inv n c (s\<lparr>rs_pc := (rs_pc s)(t := pc')\<rparr>)" by (rule inv_local [OF inv])
  then show ?thesis by (simp add: moved_eq(2) none del rb')
qed

text \<open>The steps of a thread that holds a slot.\<close>

lemma reader_taken: "taken pc = Some p \<Longrightarrow> reader pc = Some p"
  by (cases pc) (simp_all add: holder_defs)

lemma set_node_eq:
  "slot rb pos = i \<Longrightarrow> set_node (slot rb pos) f rb = rb\<lparr>rb_nodes := (rb_nodes rb)[i := f (rb_nodes rb ! i)]\<rparr>"
  by (simp add: set_node_def)

lemma inv_put_step:
  assumes inv: "ring_inv n c s" and n: "n = 2 ^ k" "k \<le> 63" "2 \<le> n" "length (rs_puts s) + n < 2 ^ 64"
    and step: "ring_step late (rs_pc s t) (rs_rb s) = (pc', rb')" and w: "writer (rs_pc s t) = Some p"
  shows "ring_inv n c (moved s t pc' rb')"
proof -
  note d = invD [OF inv]
  have sl: "slot (rs_rb s) pos = unat pos mod n" for pos by (rule slot_mod [OF d(1) n(1,2)])
  have n0: "0 < n" using n(3) by simp
  have pW: "p \<in> holders writer (rs_pc s)" by (rule holdersI [of writer "rs_pc s" t, OF w])
  have none: "claimed_put (rs_pc s t) pc' = []" "claimed_get (rs_pc s t) pc' = 0" "delivered (rs_pc s t) pc' = []"
    using w by (cases "rs_pc s t"; simp add: claim_defs writer_def)+
  have len: "p mod n < length (rb_nodes (rs_rb s))" using coreD(1) [OF d(4)] n0 by simp
  show ?thesis
  proof (cases "rs_pc s t")
    case (PutData x pos)
    have [simp]: "unat pos = p" "pc' = PutStore pos" using w step PutData by (simp_all add: writer_def ring_step_def)
    have rb': "rb' = (rs_rb s)\<lparr>rb_nodes := (rb_nodes (rs_rb s))[p mod n := (rb_nodes (rs_rb s) ! (p mod n))\<lparr>nd_data := Some x\<rparr>]\<rparr>"
      using step PutData by (simp add: ring_step_def set_node_eq [OF sl])
    have hs: "holders writer ((rs_pc s)(t := PutStore pos)) = holders writer (rs_pc s)" "holders reader ((rs_pc s)(t := PutStore pos)) = holders reader (rs_pc s)"
      "holders taken ((rs_pc s)(t := PutStore pos)) = holders taken (rs_pc s)" by (rule holders_same; simp add: holder_defs PutData)+
    have "rs_puts s ! p = x" using d(5) [of t] by (simp add: PutData pc_ok_def)
    then have "ring_inv n c (s\<lparr>rs_rb := rb', rs_pc := (rs_pc s)(t := pc'), rs_out := rs_out s\<rparr>)"
      using w d(8) core_write [OF d(4) n0, of p "Some x"] pW len
      by (intro inv_slot [OF inv n, of t p]) (simp_all add: rb' hs pc_ok_def holder_defs PutData)
    then show ?thesis using moved_eq(1) [OF none(1,2)] none(3) by simp
  next
    case (PutStore pos)
    have up: "unat pos = p" using w PutStore by (simp add: writer_def)
    have q: "pos + 1 = of_nat (Suc p)" using of_nat_unat64 [of pos] by (simp add: add.commute up)
    have new: "pc' = RingReturn (PutReturns (Ok True))"
      "rb' = (rs_rb s)\<lparr>rb_nodes := (rb_nodes (rs_rb s))[p mod n := (rb_nodes (rs_rb s) ! (p mod n))\<lparr>nd_position := of_nat (Suc p)\<rparr>]\<rparr>"
      using step PutStore up by (auto simp: ring_step_def set_node_eq [OF sl] q simp del: of_nat_Suc)
    have hs: "holders writer ((rs_pc s)(t := pc')) = holders writer (rs_pc s) - {p}" "holders reader ((rs_pc s)(t := pc')) = holders reader (rs_pc s)"
      "holders taken ((rs_pc s)(t := pc')) = holders taken (rs_pc s)"
      by (rule holders_leave [OF d(6)] holders_same; simp add: holder_defs PutStore new up)+
    have "nd_data (rb_nodes (rs_rb s) ! (p mod n)) = Some (rs_puts s ! p)" using d(5) [of t] by (simp add: PutStore pc_ok_def up)
    note core = core_filled [OF d(4) n0 pW this]
    have "ring_inv n c (s\<lparr>rs_rb := rb', rs_pc := (rs_pc s)(t := pc'), rs_out := rs_out s\<rparr>)"
    proof (rule inv_slot [OF inv n, of t p])
      show "ring_core n c (rs_puts s) (rs_gets s) (holders writer ((rs_pc s)(t := pc'))) (holders reader ((rs_pc s)(t := pc')))
        (holders taken ((rs_pc s)(t := pc'))) (rb_nodes rb')" using core by (simp add: hs new(2))
    qed (use w d(8) in \<open>simp_all add: hs, simp_all add: new holder_defs pc_ok_def\<close>)
    then show ?thesis using moved_eq(1) [OF none(1,2)] none(3) by simp
  qed (use w in \<open>simp_all add: writer_def\<close>)
qed

lemma inv_get_step:
  assumes inv: "ring_inv n c s" and n: "n = 2 ^ k" "k \<le> 63" "2 \<le> n" "length (rs_puts s) + n < 2 ^ 64"
    and step: "ring_step late (rs_pc s t) (rs_rb s) = (pc', rb')" and r: "reader (rs_pc s t) = Some p"
  shows "\<exists>c'. ring_inv n c' (moved s t pc' rb')"
proof -
  note d = invD [OF inv] note cd = coreD [OF d(4)]
  have sl: "slot (rs_rb s) pos = unat pos mod n" for pos by (rule slot_mod [OF d(1) n(1,2)])
  have n0: "0 < n" using n(3) by simp
  have pR: "p \<in> holders reader (rs_pc s)" by (rule holdersI [of reader "rs_pc s" t, OF r])
  have p: "p < rs_gets s" "c (p mod n) = p" "p mod n < n" "p < length (rs_puts s)" "p \<notin> holders writer (rs_pc s)"
    using cd(2) cd(3) [of p] cd(4) [OF pR] cd(11) [OF pR] n0 by auto
  have none: "claimed_put (rs_pc s t) pc' = []" "claimed_get (rs_pc s t) pc' = 0"
    using r by (cases "rs_pc s t"; simp add: claim_defs reader_def)+
  show ?thesis
  proof (cases "rs_pc s t")
    case (GetTake pos)
    let ?nd = "rb_nodes (rs_rb s) ! (p mod n)"
    have up: "unat pos = p" using r GetTake by (simp add: reader_def)
    have "p \<notin> holders taken (rs_pc s)"
    proof
      assume "p \<in> holders taken (rs_pc s)"
      then obtain u where u: "taken (rs_pc s u) = Some p" by (auto simp: holders_def)
      have "u = t" using d(7) r reader_taken [OF u] by (simp add: sole_def)
      then show False using u by (simp add: taken_def GetTake)
    qed
    then have data: "nd_data ?nd = Some (rs_puts s ! p)" using cd(14) [OF p(3)] p by simp
    have new: "pc' = GetClear pos (Some (rs_puts s ! p))" "rb' = rs_rb s" using step GetTake up data by (auto simp: ring_step_def sl)
    have hs: "holders writer ((rs_pc s)(t := pc')) = holders writer (rs_pc s)" "holders reader ((rs_pc s)(t := pc')) = holders reader (rs_pc s)"
      "holders taken ((rs_pc s)(t := pc')) = insert p (holders taken (rs_pc s))"
      by (rule holders_enter holders_same; simp add: holder_defs GetTake new up)+
    have "ring_inv n c (s\<lparr>rs_rb := rb', rs_pc := (rs_pc s)(t := pc'), rs_out := rs_out s\<rparr>)"
      using r d(8) core_taken [OF d(4) pR] by (intro inv_slot [OF inv n, of t p _ ?nd]) (simp_all add: hs, simp_all add: new up pc_ok_def holder_defs GetTake)
    then show ?thesis using moved_eq(1) [OF none] by (auto simp: GetTake delivered_def)
  next
    case (GetClear pos x)
    have up: "unat pos = p" using r GetClear by (simp add: reader_def)
    have new: "pc' = GetStore pos x" "rb' = (rs_rb s)\<lparr>rb_nodes := (rb_nodes (rs_rb s))[p mod n := (rb_nodes (rs_rb s) ! (p mod n))\<lparr>nd_data := None\<rparr>]\<rparr>"
      using step GetClear up by (simp_all add: ring_step_def set_node_eq [OF sl])
    have hs: "holders writer ((rs_pc s)(t := pc')) = holders writer (rs_pc s)" "holders reader ((rs_pc s)(t := pc')) = holders reader (rs_pc s)"
      "holders taken ((rs_pc s)(t := pc')) = holders taken (rs_pc s)" by (rule holders_same; simp add: holder_defs GetClear new)+
    have "p \<in> holders taken (rs_pc s)" by (rule holdersI [of taken "rs_pc s" t]) (simp add: GetClear up taken_def)
    moreover have "x = Some (rs_puts s ! p)" using d(5) [of t] by (simp add: GetClear pc_ok_def up)
    ultimately have "ring_inv n c (s\<lparr>rs_rb := rb', rs_pc := (rs_pc s)(t := pc'), rs_out := rs_out s\<rparr>)"
      using r d(8) core_write [OF d(4) n0, of p None] by (intro inv_slot [OF inv n, of t p]) (simp_all add: hs, simp_all add: new up pc_ok_def holder_defs GetClear)
    then show ?thesis using moved_eq(1) [OF none] by (auto simp: GetClear delivered_def)
  next
    case (GetStore pos x)
    have up: "unat pos = p" using r GetStore by (simp add: reader_def)
    have q: "pos + rb_mask (rs_rb s) + 1 = of_nat (p + n)"
      using of_nat_unat64 [of pos] d(1) n0 by (simp add: up of_nat_diff)
    have new: "pc' = RingReturn (GetReturns (Ok x))"
      "rb' = (rs_rb s)\<lparr>rb_nodes := (rb_nodes (rs_rb s))[p mod n := (rb_nodes (rs_rb s) ! (p mod n))\<lparr>nd_position := of_nat (p + n)\<rparr>]\<rparr>"
      using step GetStore up by (auto simp: ring_step_def set_node_eq [OF sl] q simp del: of_nat_add)
    have sole: "sole taken (rs_pc s)"
      using d(7) unfolding sole_def by (metis (no_types, lifting) reader_taken)
    have hs: "holders writer ((rs_pc s)(t := pc')) = holders writer (rs_pc s)" "holders reader ((rs_pc s)(t := pc')) = holders reader (rs_pc s) - {p}"
      "holders taken ((rs_pc s)(t := pc')) = holders taken (rs_pc s) - {p}"
      by (rule holders_leave [OF d(7)] holders_leave [OF sole] holders_same; simp add: holder_defs GetStore new up)+
    have "x = Some (rs_puts s ! p)" using d(5) [of t] by (simp add: GetStore pc_ok_def up)
    then have "outs_ok (rs_puts s) (rs_gets s) (holders reader (rs_pc s) - {p}) (rs_out s @ [(p, x)])"
      using d(8) pR p(1) unfolding outs_ok_def by auto
    then have "ring_inv n (c(p mod n := p + n)) (s\<lparr>rs_rb := rb', rs_pc := (rs_pc s)(t := pc'), rs_out := rs_out s @ [(p, x)]\<rparr>)"
      using r core_emptied [OF d(4) n0 pR] by (intro inv_slot [OF inv n, of t p]) (simp_all add: hs, simp_all add: new pc_ok_def holder_defs GetStore)
    then show ?thesis using moved_eq(1) [OF none] by (auto simp: GetStore delivered_def new up)
  qed (use r in \<open>simp_all add: reader_def\<close>)
qed

end
