(* ===== verification/Ring_Queue.thy ===== *)
theory Ring_Queue
  imports Ring_Laws
begin

text \<open>
  The promises of the ring buffer: first in, first out under every interleaving, and for a thread that is left alone a put or a
  get that returns at once. The last section shows why a buffer of one slot keeps neither.
\<close>

subsection \<open>Every reachable state\<close>

lemma inv_init:
  assumes "n = unat (roundUp sz)" "2 \<le> n"
  shows "ring_inv n (\<lambda>i. i) (ring_init sz)"
proof -
  have w: "roundUp sz = of_nat n" "unat (of_nat n :: uint64) = n" by (simp_all add: assms(1))
  have h: "holders f (rs_pc (ring_init sz)) = {}" "sole f (rs_pc (ring_init sz))" if "f RingIdle = None" for f :: "'a ring_pc \<Rightarrow> nat option"
    using that by (simp_all add: holders_def sole_def ring_init_def)
  have "ring_core n (\<lambda>i. i) ([] :: 'a list) 0 {} {} {} (map (\<lambda>i. \<lparr>nd_position = of_nat i, nd_data = None\<rparr>) [0..<n])"
    by (rule coreI) simp_all
  then show ?thesis
    using assms(2) unfolding ring_inv_def
    by (simp add: h holder_defs) (simp add: ring_init_def NewRingBuffer_def pc_ok_def outs_ok_def w of_nat_diff Let_def)
qed

lemma ring_inv_next:
  assumes inv: "ring_inv n c s" and n: "n = 2 ^ k" "k \<le> 63" "2 \<le> n" "length (rs_puts s) + n < 2 ^ 64" and "ring_next s s'"
  shows "\<exists>c'. ring_inv n c' s'"
  using assms(6)
proof cases
  case (call t r pc x offer timed)
  have "ring_inv n c (s\<lparr>rs_pc := (rs_pc s)(t := pc)\<rparr>)"
    using call by (intro inv_local [OF inv]) (auto simp: holder_defs pc_ok_def)
  then show ?thesis using call(1) by auto
next
  case dispose
  then show ?thesis using inv unfolding ring_inv_def rb_Dispose_def by (intro exI [of _ c]) simp
next
  case (move late t pc' rb')
  have s': "s' = moved s t pc' rb'" using move(1) by (simp add: moved_def)
  show ?thesis
  proof (cases "writer (rs_pc s t) = None \<and> reader (rs_pc s t) = None")
    case False
    then show ?thesis using inv_put_step [OF inv n move(2)] inv_get_step [OF inv n move(2)] unfolding s' by fastforce
  next
    case hold: True
    show ?thesis
    proof (cases "claimed_put (rs_pc s t) pc' = [] \<and> claimed_get (rs_pc s t) pc' = 0")
      case True
      then show ?thesis using inv_look [OF inv n(1,2,4) move(2)] hold unfolding s' by auto
    next
      case False
      then consider (put) x b pos where "rs_pc s t = PutCas x b pos" "rb_queue (rs_rb s) = pos"
        | (get) b pos where "rs_pc s t = GetCas b pos" "rb_dequeue (rs_rb s) = pos"
        using move(2) by (cases "rs_pc s t") (auto simp: claim_defs ring_step_def split: if_splits)
      then show ?thesis
      proof cases
        case put
        then have "moved s t pc' rb' = s\<lparr>rs_rb := (rs_rb s)\<lparr>rb_queue := pos + 1\<rparr>, rs_pc := (rs_pc s)(t := PutData x pos), rs_puts := rs_puts s @ [x]\<rparr>"
          using move(2) by (auto simp: moved_def ring_step_def claim_defs)
        then show ?thesis using inv_claim_put [OF inv n(3,4) put] unfolding s' by auto
      next
        case get
        then have "moved s t pc' rb' = s\<lparr>rs_rb := (rs_rb s)\<lparr>rb_dequeue := pos + 1\<rparr>, rs_pc := (rs_pc s)(t := GetTake pos), rs_gets := Suc (rs_gets s)\<rparr>"
          using move(2) by (auto simp: moved_def ring_step_def claim_defs)
        then show ?thesis using inv_claim_get [OF inv n(3,4) get] unfolding s' by auto
      qed
    qed
  qed
qed

lemma puts_grow: "ring_next s s' \<Longrightarrow> length (rs_puts s) \<le> length (rs_puts s')"
  by (cases rule: ring_next.cases) auto

lemma reach_inv:
  assumes "ring_reach sz s" "n = unat (roundUp sz)" "n = 2 ^ k" "k \<le> 63" "2 \<le> n"
  shows "length (rs_puts s) + n < 2 ^ 64 \<Longrightarrow> \<exists>c. ring_inv n c s"
  using assms(1)
proof (induction rule: ring_reach.induct)
  case start
  show ?case using inv_init [OF assms(2,5)] by blast
next
  case (run s s')
  have "length (rs_puts s) + n < 2 ^ 64" using run.prems puts_grow [OF run.hyps(2)] by linarith
  then show ?case using run.IH ring_inv_next [OF _ assms(3-5) _ run.hyps(2)] by blast
qed

lemma size_power:
  assumes "2 \<le> unat sz" "unat sz \<le> 2 ^ 63"
  obtains k where "unat (roundUp sz) = 2 ^ k" "k \<le> 63" "2 \<le> unat (roundUp sz)" "unat sz \<le> unat (roundUp sz)" "unat (roundUp sz) < 2 * unat sz"
proof -
  have "0 < sz" using assms(1) by (metis not_less_zero order.strict_iff_not unat_0 word_gt_0 zero_less_numeral less_le_trans)
  then obtain k where k: "k \<le> 63" "roundUp sz = 2 ^ k" "unat sz \<le> 2 ^ k" "2 ^ k < 2 * unat sz" using roundUp_power assms(2) by blast
  have "(2 :: nat) ^ k < 2 ^ 64" using k(1) by (intro power_strict_increasing) simp_all
  then have "unat (of_nat (2 ^ k) :: uint64) = 2 ^ k" by (intro unat_of_nat_small) simp
  then have "unat (roundUp sz) = 2 ^ k" using k(2) by simp
  then show thesis using that [of k] k assms(1) by simp
qed

subsection \<open>First in, first out\<close>

text \<open>C4 --- the ring buffer is a queue. However the threads that put and get interleave, and with any size of two or more: what a
  get returns for a position is the item of the put that claimed that position, no position is returned twice, every get that has
  claimed one either has returned it or is about to, there are never more items than slots, and no thread panics. This holds for as
  many puts as fit the 64-bit counters.\<close>

theorem ring_fifo:
  assumes "ring_reach sz s" "2 \<le> unat sz" "unat sz \<le> 2 ^ 63" "length (rs_puts s) + 2 * unat sz < 2 ^ 64"
  shows "(\<forall>(p, x)\<in>set (rs_out s). p < rs_gets s \<and> x = Some (rs_puts s ! p)) \<and> distinct (map fst (rs_out s)) \<and>
    {..<rs_gets s} = fst ` set (rs_out s) \<union> holders reader (rs_pc s) \<and>
    rs_gets s \<le> length (rs_puts s) \<and> length (rs_puts s) \<le> rs_gets s + length (rb_nodes (rs_rb s)) \<and>
    rb_Len (rs_rb s) = of_nat (length (rs_puts s) - rs_gets s) \<and> unat sz \<le> length (rb_nodes (rs_rb s)) \<and>
    (\<forall>t. rs_pc s t \<noteq> RingReturn (PutReturns Panic) \<and> rs_pc s t \<noteq> RingReturn (GetReturns Panic))"
proof -
  obtain k where k: "unat (roundUp sz) = 2 ^ k" "k \<le> 63" "2 \<le> unat (roundUp sz)" "unat sz \<le> unat (roundUp sz)" "unat (roundUp sz) < 2 * unat sz"
    by (rule size_power [OF assms(2,3)])
  have "length (rs_puts s) + unat (roundUp sz) < 2 ^ 64" using assms(4) k(5) by linarith
  then obtain c where inv: "ring_inv (unat (roundUp sz)) c s" using reach_inv [OF assms(1) refl k(1-3)] by blast
  let ?n = "unat (roundUp sz)" and ?H = "length (rs_puts s)" and ?T = "rs_gets s"
  note d = invD [OF inv] note cd = coreD [OF d(4)]
  have T: "?T mod ?n < ?n" using k(3) by simp
  have "?H \<le> ?T + ?n" using cd(7) [OF T] cd(10) [of ?T] cd(2) by (cases "?T < ?H") simp_all
  moreover have "rb_Len (rs_rb s) = of_nat (?H - ?T)" using cd(2) by (simp add: rb_Len_def d(2,3) of_nat_diff)
  moreover have "rs_pc s t \<noteq> RingReturn (PutReturns Panic) \<and> rs_pc s t \<noteq> RingReturn (GetReturns Panic)" for t
    using d(5) [of t] by (auto simp: pc_ok_def)
  moreover have "{..<?T} = fst ` set (rs_out s) \<union> holders reader (rs_pc s)" using d(8) cd(4) unfolding outs_ok_def by auto
  moreover have "p < ?T \<and> x = Some (rs_puts s ! p)" if "(p, x) \<in> set (rs_out s)" for p x
  proof -
    have "p \<in> fst ` set (rs_out s)" using that by force
    then show ?thesis using d(8) that unfolding outs_ok_def by auto
  qed
  ultimately show ?thesis using d(8) cd(1,2) k(4) unfolding outs_ok_def by auto
qed

text \<open>A run given by a schedule: which thread calls or takes a step.\<close>

datatype 'a ring_act = CallPut nat 'a bool | CallGet nat bool | Go nat

fun act :: "'a ring_act \<Rightarrow> 'a ring_sys \<Rightarrow> 'a ring_sys" where
  "act (CallPut t x offer) s = (if rs_pc s t = RingIdle then s\<lparr>rs_pc := (rs_pc s)(t := PutLoad x offer)\<rparr> else s)"
| "act (CallGet t timed) s = (if rs_pc s t = RingIdle then s\<lparr>rs_pc := (rs_pc s)(t := GetLoad timed)\<rparr> else s)"
| "act (Go t) s = (case ring_step False (rs_pc s t) (rs_rb s) of (pc', rb') \<Rightarrow> moved s t pc' rb')"

lemma act_reach: "ring_reach sz s \<Longrightarrow> ring_reach sz (act a s)"
  by (cases a) (auto split: prod.split simp: moved_def intro: ring_reach.run ring_next.intros)

lemma acts_reach: "ring_reach sz (fold act as (ring_init sz))"
  using ring_reach.start [of sz] act_reach by (induction as rule: rev_induct) auto

definition demo_schedule :: "nat ring_act list" where
  "demo_schedule = [CallPut 0 10 False, CallPut 1 20 False, Go 0, Go 1, Go 0, Go 1, Go 0, Go 1, Go 1, Go 0, Go 1, Go 1] @
     replicate 10 (Go 0) @ CallGet 2 False # replicate 7 (Go 2)"

theorem ring_fifo_witness:
  "let s = fold act demo_schedule (ring_init 2) in ring_reach 2 s \<and> rs_puts s = [20, 10] \<and> rs_out s = [(0, Some 20)] \<and>
     (\<forall>(p, x)\<in>set (rs_out s). p < rs_gets s \<and> x = Some (rs_puts s ! p)) \<and> rs_pc s 2 = RingReturn (GetReturns (Ok (Some 20)))"
proof -
  define s where "s = fold act demo_schedule (ring_init 2)"
  have r: "ring_reach 2 s" by (simp add: s_def acts_reach)
  have run: "rs_puts s = [20, 10]" "rs_out s = [(0, Some 20)]" "rs_pc s 2 = RingReturn (GetReturns (Ok (Some 20)))"
    unfolding s_def by code_simp+
  have "\<forall>(p, x)\<in>set (rs_out s). p < rs_gets s \<and> x = Some (rs_puts s ! p)" using ring_fifo [OF r] by (simp add: run(1))
  then show ?thesis using r run by (simp add: Let_def flip: s_def)
qed

subsection \<open>A thread that is left alone\<close>

fun alone :: "bool \<Rightarrow> nat \<Rightarrow> nat \<Rightarrow> 'a ring_sys \<Rightarrow> 'a ring_sys" where
  "alone late 0 t s = s"
| "alone late (Suc k) t s = (case ring_step late (rs_pc s t) (rs_rb s) of (pc', rb') \<Rightarrow> alone late k t (moved s t pc' rb'))"

definition quiet :: "'a ring_sys \<Rightarrow> bool" where
  "quiet s \<longleftrightarrow> (\<forall>t. rs_pc s t = RingIdle \<or> (\<exists>r. rs_pc s t = RingReturn r)) \<and> rb_disposed (rs_rb s) = 0"

lemma quiet_holders:
  assumes "quiet s" "f \<in> {writer, reader, taken}"
  shows "holders f (rs_pc s) = {}"
proof -
  have "f (rs_pc s t) = None" for t
  proof -
    have "rs_pc s t = RingIdle \<or> (\<exists>r. rs_pc s t = RingReturn r)" using assms(1) by (simp add: quiet_def)
    then show ?thesis using assms(2) by (auto simp: holder_defs)
  qed
  then show ?thesis by (simp add: holders_def)
qed

text \<open>When nobody holds a slot, the sequence numbers of the two ends tell whether the buffer is full or empty.\<close>

lemma quiet_ends:
  assumes inv: "ring_inv n c s" and n: "2 \<le> n" "length (rs_puts s) + n < 2 ^ 64" and "quiet s"
  shows "nd_position (rb_nodes (rs_rb s) ! (length (rs_puts s) mod n)) = of_nat (length (rs_puts s)) \<longleftrightarrow> length (rs_puts s) < rs_gets s + n"
    "nd_position (rb_nodes (rs_rb s) ! (rs_gets s mod n)) = of_nat (Suc (rs_gets s)) \<longleftrightarrow> rs_gets s < length (rs_puts s)"
    "rs_gets s < length (rs_puts s) \<Longrightarrow> nd_data (rb_nodes (rs_rb s) ! (rs_gets s mod n)) = Some (rs_puts s ! rs_gets s)"
proof -
  let ?H = "length (rs_puts s)" and ?T = "rs_gets s" and ?nodes = "rb_nodes (rs_rb s)"
  note core = invD(4) [OF inv, unfolded quiet_holders [OF assms(4), of writer, simplified] quiet_holders [OF assms(4), of reader, simplified]
      quiet_holders [OF assms(4), of taken, simplified]]
  note cd = coreD [OF core]
  have i: "?H mod n < n" "?T mod n < n" using n(1) by simp_all
  show "nd_position (?nodes ! (?H mod n)) = of_nat ?H \<longleftrightarrow> ?H < ?T + n"
  proof
    assume eq: "nd_position (?nodes ! (?H mod n)) = of_nat ?H"
    show "?H < ?T + n"
    proof (rule ccontr)
      assume ge: "\<not> ?thesis"
      have cH: "c (?H mod n) = ?H" by (rule free_slot [OF core n eq])
      have "c ((?H - n) mod n) = ?H - n" using ge n(1) by (intro cd(10)) auto
      moreover have "(?H - n) mod n = ?H mod n" using ge by (simp add: mod_if [of ?H n])
      ultimately show False using cH n(1) ge by simp
    qed
  next
    assume less: "?H < ?T + n"
    have "c (?H mod n) = ?H"
    proof (cases "?H \<le> c (?H mod n)")
      case True
      then have "c (?H mod n) - ?H < n" "n dvd c (?H mod n) - ?H"
        using cd(8) [OF i(1)] cd(6) [OF i(1)] by (simp_all add: mod_eq_dvd_iff_nat less_diff_conv2 add.commute)
      then have "c (?H mod n) - ?H = 0" using nat_dvd_not_less by blast
      then show ?thesis using True by simp
    next
      case False
      then have "?T \<le> c (?H mod n)" using cd(9) [OF i(1)] by simp
      then have "?H - c (?H mod n) < n" "0 < ?H - c (?H mod n)" using less False by auto
      moreover have "n dvd ?H - c (?H mod n)" using cd(6) [OF i(1)] False by (metis mod_eq_dvd_iff_nat nat_le_linear)
      ultimately show ?thesis using nat_dvd_not_less by blast
    qed
    then show "nd_position (?nodes ! (?H mod n)) = of_nat ?H" using cd(13) [OF i(1)] by simp
  qed
  show "nd_position (?nodes ! (?T mod n)) = of_nat (Suc ?T) \<longleftrightarrow> ?T < ?H"
  proof
    assume "nd_position (?nodes ! (?T mod n)) = of_nat (Suc ?T)"
    then show "?T < ?H" using full_slot [OF core n] by blast
  next
    assume "?T < ?H"
    then show "nd_position (?nodes ! (?T mod n)) = of_nat (Suc ?T)" using cd(10) [of ?T] cd(13) [OF i(2)] by simp
  qed
  show "nd_data (?nodes ! (?T mod n)) = Some (rs_puts s ! ?T)" if "?T < ?H" using that cd(14) [OF i(2)] cd(10) [of ?T] by simp
qed



subsection \<open>One slot is not enough\<close>

text \<open>With one slot the sequence number of a full slot is the one of a free slot of the next lap. A second put overwrites the item
  of the first, and a get waits for a sequence number that has passed.\<close>

definition two_puts :: "nat ring_sys" where
  "two_puts = fold act (CallPut 0 10 False # replicate 6 (Go 0) @ CallPut 1 20 False # replicate 6 (Go 1)) (ring_init 1)"

lemma single_slot_overwrites:
  "rs_pc two_puts 1 = RingReturn (PutReturns (Ok True)) \<and> map nd_data (rb_nodes (rs_rb two_puts)) = [Some 20] \<and>
     rb_Cap (rs_rb two_puts) = 1 \<and> rb_Len (rs_rb two_puts) = 2"
  by code_simp

lemma single_slot_get_waits:
  "let s = act (CallGet 2 False) two_puts in
     rs_pc (alone late 1 2 s) 2 = GetTop False 0 \<and> rs_pc (alone late 5 2 s) 2 = GetTop False 0 \<and> rs_rb (alone late 5 2 s) = rs_rb s"
  by (cases late) code_simp+

text \<open>A buffer of size zero has no slot at all, and the first put panics.\<close>

lemma no_slot_panics:
  "rs_pc (fold act (CallPut 0 10 False # replicate 3 (Go 0)) (ring_init 0 :: nat ring_sys)) 0 = RingReturn (PutReturns Panic)"
  by code_simp

end
