(* ===== verification/Dispatch.thy ===== *)
theory Dispatch
  imports Dispatch_Refine
begin

text \<open>
  The way of a request through the dispatcher (\<^verbatim>\<open>proxy/dispatcher.go\<close>): the API found for the path, one dispatch
  node per node of the API, the server chosen for each node by the load balancer of its cluster and by the
  traffic routings.

  A pointer to a runtime is its key in the table of the dispatcher. A request is given in two views: \<open>HttpReq\<close> for
  conditions and routing, \<open>ReqCtx\<close> for the client address. The order in which \<^verbatim>\<open>range\<close> visits the routings is the
  order of the association list.
\<close>

record httpResp =
  hp_code :: int
  hp_headers :: "(string \<times> string) list"
  hp_contentType :: string
  hp_body :: string

datatype proxy_error = ErrNoServer | ErrRewriteNotMatch | ErrClient string | ErrFilter string

record dispatchNode =
  dp_idx :: nat
  dp_api :: uint64
  dp_node :: apiNode
  dp_dest :: "uint64 option"
  dp_copyTo :: "uint64 option"
  dp_res :: "httpResp option"
  dp_err :: "proxy_error option"
  dp_code :: int

subsection \<open>Choosing a server\<close>

definition selectServerFromCluster :: "ReqCtx \<Rightarrow> uint64 \<Rightarrow> dispatcher \<Rightarrow> dispatcher \<times> uint64 option" where
  "selectServerFromCluster rc i d =
     (case map_of (d_clusters d) i of
        None \<Rightarrow> (d, None)
      | Some cluster \<Rightarrow>
          (case map_of (d_binds d) i of
             None \<Rightarrow> (d, None)
           | Some bindsInfo \<Rightarrow>
               let (cluster, svr) = cluster_selectServer rc (bs_actives bindsInfo) cluster
               in (d\<lparr>d_clusters := AList.update i cluster (d_clusters d)\<rparr>,
                   if map_of (d_servers d) svr = None then None else Some svr)))"

fun adjust_loop :: "env \<Rightarrow> uint64 \<Rightarrow> ReqCtx \<Rightarrow> HttpReq \<Rightarrow> (uint64 \<times> routingRuntime) list \<Rightarrow> dispatchNode \<Rightarrow> dispatcher
    \<Rightarrow> (unit, dispatchNode \<times> dispatcher) outcome" where
  "adjust_loop en apiID rc req [] dn d = Ok (dn, d)"
| "adjust_loop en apiID rc req ((k, routing) # rest) dn d =
     (if \<not> routing_isUp routing then adjust_loop en apiID rc req rest dn d
      else obind (routing_matches en apiID req routing) (\<lambda>(routing, ok).
        let d = d\<lparr>d_routings := AList.update k routing (d_routings d)\<rparr>
        in if \<not> ok then adjust_loop en apiID rc req rest dn d
           else let (d, svr) = selectServerFromCluster rc (rg_ClusterID (rr_meta routing)) d
                in Ok (case rg_Strategy (rr_meta routing) of
                         Split \<Rightarrow> dn\<lparr>dp_dest := svr\<rparr>
                       | Copy \<Rightarrow> dn\<lparr>dp_copyTo := svr\<rparr>, d)))"

definition adjustByRouting :: "env \<Rightarrow> uint64 \<Rightarrow> ReqCtx \<Rightarrow> HttpReq \<Rightarrow> dispatchNode \<Rightarrow> dispatcher
    \<Rightarrow> (unit, dispatchNode \<times> dispatcher) outcome" where
  "adjustByRouting en apiID rc req dn d = adjust_loop en apiID rc req (d_routings d) dn d"

definition selectServer :: "env \<Rightarrow> ReqCtx \<Rightarrow> HttpReq \<Rightarrow> dispatchNode \<Rightarrow> dispatcher
    \<Rightarrow> (unit, dispatchNode \<times> dispatcher) outcome" where
  "selectServer en rc req dn d =
     (let (d, svr) = selectServerFromCluster rc (dn_ClusterID (nd_meta (dp_node dn))) d
      in adjustByRouting en (dp_api dn) rc req (dn\<lparr>dp_dest := svr\<rparr>) d)"

subsection \<open>Dispatching\<close>

definition acquireDispathNode :: "nat \<Rightarrow> uint64 \<Rightarrow> apiNode \<Rightarrow> dispatchNode" where
  "acquireDispathNode idx api node = \<lparr>dp_idx = idx, dp_api = api, dp_node = node, dp_dest = None, dp_copyTo = None,
     dp_res = None, dp_err = None, dp_code = 0\<rparr>"

fun dispatch_nodes :: "env \<Rightarrow> uint64 \<Rightarrow> ReqCtx \<Rightarrow> HttpReq \<Rightarrow> nat \<Rightarrow> apiNode list \<Rightarrow> dispatcher
    \<Rightarrow> (unit, dispatchNode list \<times> dispatcher) outcome" where
  "dispatch_nodes en api rc req idx [] d = Ok ([], d)"
| "dispatch_nodes en api rc req idx (node # nodes) d =
     obind (selectServer en rc req (acquireDispathNode idx api node) d) (\<lambda>(dn, d).
     obind (dispatch_nodes en api rc req (Suc idx) nodes d) (\<lambda>(dns, d). Ok (dn # dns, d)))"

fun add_params :: "(string \<times> string) list \<Rightarrow> Ctx \<Rightarrow> (unit, Ctx) outcome" where
  "add_params [] c = Ok c"
| "add_params ((n, v) # ps) c = obind (ctx_AddParam n v c) (add_params ps)"

definition acquireExprCtx :: Ctx where
  "acquireExprCtx = \<lparr>ctx_Origin = None, ctx_Depend = None, ctx_Params = Some Map.empty\<rparr>"

text \<open>The API, its dispatch nodes and the context of the rewrite expressions.\<close>

definition dispatch :: "env \<Rightarrow> ReqCtx \<Rightarrow> HttpReq \<Rightarrow> dispatcher
    \<Rightarrow> (unit, apiRuntime option \<times> dispatchNode list \<times> Ctx \<times> dispatcher) outcome" where
  "dispatch en rc req d =
     obind (Find True (d_route d) (rq_Path req) (rq_Method req)) (\<lambda>((i, ok), calls).
     obind (add_params calls (acquireExprCtx\<lparr>ctx_Origin := Some (Request.truncate req)\<rparr>)) (\<lambda>c.
       case (if ok then map_of (d_apis d) i else None) of
         None \<Rightarrow> Ok (None, [], c, d)
       | Some api \<Rightarrow>
           if \<not> api_matches req api then Ok (None, [], c, d)
           else if api_UseDefault (ar_meta api) then Ok (Some api, [], c, d)
           else obind (dispatch_nodes en i rc req 0 (ar_nodes api) d) (\<lambda>(dns, d). Ok (Some api, dns, c, d))))"

subsection \<open>Dispatch nodes\<close>

text \<open>\<^verbatim>\<open>setHost\<close>: the host of the forwarded request.\<close>

definition setHost :: "string \<Rightarrow> Server \<Rightarrow> dispatchNode \<Rightarrow> string" where
  "setHost origin svr dn =
     (case dn_HostType (nd_meta (dp_node dn)) of
        HostOrigin \<Rightarrow> origin
      | HostServerAddress \<Rightarrow> sv_Addr svr
      | HostCustom \<Rightarrow> dn_CustemHost (nd_meta (dp_node dn)))"

definition retryStrategy :: "dispatchNode \<Rightarrow> RetryStrategy option" where
  "retryStrategy dn = dn_RetryStrategy (nd_meta (dp_node dn))"

definition hasRetryStrategy :: "dispatchNode \<Rightarrow> bool" where
  "hasRetryStrategy dn \<longleftrightarrow> retryStrategy dn \<noteq> None"

definition matchRetryStrategy :: "int \<Rightarrow> RetryStrategy \<Rightarrow> bool" where
  "matchRetryStrategy code rs \<longleftrightarrow> code \<in> set (rs_Codes rs)"

definition matchAllRetryStrategy :: "RetryStrategy \<Rightarrow> bool" where
  "matchAllRetryStrategy rs \<longleftrightarrow> rs_Codes rs = []"

definition hasError :: "dispatchNode \<Rightarrow> bool" where
  "hasError dn \<longleftrightarrow> dp_err dn \<noteq> None \<or> 400 \<le> dp_code dn"

definition hasDefaultValue :: "dispatchNode \<Rightarrow> bool" where
  "hasDefaultValue dn \<longleftrightarrow> dn_DefaultValue (nd_meta (dp_node dn)) \<noteq> None"

definition needRewrite :: "dispatchNode \<Rightarrow> bool" where
  "needRewrite dn \<longleftrightarrow> dn_URLRewrite (nd_meta (dp_node dn)) \<noteq> []"

definition getResponseContentType :: "dispatchNode \<Rightarrow> string" where
  "getResponseContentType dn = (case dp_res dn of Some r \<Rightarrow> hp_contentType r | None \<Rightarrow> [])"

text \<open>A forced default without a default value is a nil dereference.\<close>

definition getResponseBody :: "dispatchNode \<Rightarrow> (unit, string) outcome" where
  "getResponseBody dn =
     (if dn_UseDefault (nd_meta (dp_node dn)) \<or> hasError dn \<and> hasDefaultValue dn
      then (case dn_DefaultValue (nd_meta (dp_node dn)) of None \<Rightarrow> Panic | Some v \<Rightarrow> Ok (hr_Body v))
      else Ok (case dp_res dn of Some r \<Rightarrow> hp_body r | None \<Rightarrow> []))"

subsection \<open>What dispatching leaves alone\<close>

text \<open>Only the states of balancers and barriers change.\<close>

definition same_tables :: "dispatcher \<Rightarrow> dispatcher \<Rightarrow> bool" where
  "same_tables d d' \<longleftrightarrow> d_servers d' = d_servers d \<and> d_apis d' = d_apis d \<and> d_route d' = d_route d \<and> d_binds d' = d_binds d \<and>
     d_proxies d' = d_proxies d \<and> d_plugins d' = d_plugins d \<and> d_applied d' = d_applied d \<and>
     metas cr_meta (d_clusters d') = metas cr_meta (d_clusters d) \<and> metas rr_meta (d_routings d') = metas rr_meta (d_routings d)"

lemma same_tables_refl [simp]: "same_tables d d"
  by (simp add: same_tables_def)

lemma same_tables_trans: "same_tables d d1 \<Longrightarrow> same_tables d1 d2 \<Longrightarrow> same_tables d d2"
  by (simp add: same_tables_def)

lemma same_tables_good: "same_tables d d' \<Longrightarrow> good rx d \<Longrightarrow> good rx d'"
  by (simp add: same_tables_def good_defs)

lemma same_tables_config: "same_tables d d' \<Longrightarrow> abs_config d' = abs_config d"
  by (simp add: same_tables_def abs_config_def)

lemma metas_update_same:
  "map_of (metas f xs) k = Some (f v) \<Longrightarrow> metas f (AList.update k v xs) = metas f xs"
  unfolding metas_update by (rule AList.update_triv)

lemma select_same: "same_tables d (fst (selectServerFromCluster rc k d))"
  by (auto simp: selectServerFromCluster_def same_tables_def cluster_selectServer_def Let_def map_of_metas metas_update_same
      split: option.splits prod.splits)

text \<open>A server that may serve a cluster.\<close>

definition serves :: "dispatcher \<Rightarrow> uint64 \<Rightarrow> uint64 \<Rightarrow> bool" where
  "serves d k i \<longleftrightarrow> map_of (d_clusters d) k \<noteq> None \<and>
     (\<exists>b a. map_of (d_binds d) k = Some b \<and> a \<in> set (bs_actives b) \<and> sv_ID a = i)"

definition few_actives :: "dispatcher \<Rightarrow> bool" where
  "few_actives d \<longleftrightarrow> (\<forall>k b. map_of (d_binds d) k = Some b \<longrightarrow> length (bs_actives b) < 2 ^ 32)"

lemma cluster_known: "same_tables d d' \<Longrightarrow> map_of (d_clusters d') k = None \<longleftrightarrow> map_of (d_clusters d) k = None"
  using map_of_metas [of cr_meta "d_clusters d" k] map_of_metas [of cr_meta "d_clusters d'" k]
  by (auto simp: same_tables_def)

lemma same_tables_serves: "same_tables d d' \<Longrightarrow> serves d' = serves d"
proof (intro ext)
  fix k i
  assume s: "same_tables d d'"
  then have "d_binds d' = d_binds d" by (simp add: same_tables_def)
  then show "serves d' k i = serves d k i" unfolding serves_def cluster_known [OF s] by simp
qed

lemma same_tables_few: "same_tables d d' \<Longrightarrow> few_actives d' = few_actives d"
  by (simp add: same_tables_def few_actives_def)

lemma select_cases:
  assumes "good rx d" "few_actives d"
  shows "case snd (selectServerFromCluster rc k d) of None \<Rightarrow> \<not> (\<exists>i. serves d k i) | Some i \<Rightarrow> serves d k i"
proof (cases "map_of (d_clusters d) k")
  case (Some c)
  show ?thesis
  proof (cases "map_of (d_binds d) k")
    case b: (Some b)
    let ?i = "snd (lb_Select (cr_lb c) rc (bs_actives b))"
    have d: "disp_inv d" using assms(1) by (simp add: good_def)
    then have z: "map_of (d_servers d) 0 = None" by (simp add: disp_inv_def keyed_def map_of_metas)
    have sel: "snd (selectServerFromCluster rc k d) = (if map_of (d_servers d) ?i = None then None else Some ?i)"
      using Some b by (simp add: selectServerFromCluster_def cluster_selectServer_def case_prod_unfold Let_def)
    show ?thesis
    proof (cases "bs_actives b = []")
      case True
      then show ?thesis using sel z b by (simp add: lb.select_none serves_def)
    next
      case False
      have "length (bs_actives b) < 2 ^ 32" using assms(2) b by (simp add: few_actives_def)
      then obtain a where a: "a \<in> set (bs_actives b)" "?i = sv_ID a" using lb.select_some [OF False, of "cr_lb c" rc] by auto
      then have "map_of (d_servers d) ?i \<noteq> None" using active_bound [OF d b a(1)] by simp
      then have "snd (selectServerFromCluster rc k d) = Some ?i" using sel by simp
      moreover have "serves d k ?i" unfolding serves_def using Some b a by auto
      ultimately show ?thesis by simp
    qed
  qed (simp add: selectServerFromCluster_def Some serves_def)
qed (simp add: selectServerFromCluster_def serves_def)

subsection \<open>Routings\<close>

text \<open>The routings that may take over a request of an API: up, and for this API or for all.\<close>

definition takes_over :: "dispatcher \<Rightarrow> uint64 \<Rightarrow> RoutingStrategy \<Rightarrow> uint64 \<Rightarrow> bool" where
  "takes_over d api st k \<longleftrightarrow>
     (\<exists>i m. map_of (metas rr_meta (d_routings d)) i = Some m \<and> rg_Status m = Up \<and> rg_Strategy m = st \<and> rg_ClusterID m = k \<and>
        (rg_API m = 0 \<or> rg_API m = api))"

definition copy_ok :: "dispatcher \<Rightarrow> dispatchNode \<Rightarrow> bool" where
  "copy_ok d dn \<longleftrightarrow> (\<forall>i. dp_copyTo dn = Some i \<longrightarrow> (\<exists>k. takes_over d (dp_api dn) Copy k \<and> serves d k i))"

definition node_ok :: "dispatcher \<Rightarrow> dispatchNode \<Rightarrow> bool" where
  "node_ok d dn \<longleftrightarrow>
     (\<forall>i. dp_dest dn = Some i \<longrightarrow>
        (\<exists>k. (k = dn_ClusterID (nd_meta (dp_node dn)) \<or> takes_over d (dp_api dn) Split k) \<and> serves d k i)) \<and>
     copy_ok d dn \<and>
     ((\<forall>k. \<not> takes_over d (dp_api dn) Split k) \<longrightarrow> dp_dest dn = None \<longrightarrow>
        \<not> (\<exists>i. serves d (dn_ClusterID (nd_meta (dp_node dn))) i))"

lemma same_tables_takes: "same_tables d d' \<Longrightarrow> takes_over d' = takes_over d"
  unfolding takes_over_def fun_eq_iff same_tables_def by simp

lemma same_tables_node: "same_tables d d' \<Longrightarrow> node_ok d' = node_ok d"
  unfolding node_ok_def copy_ok_def fun_eq_iff by (simp add: same_tables_serves same_tables_takes)

lemma routing_matches_meta:
  "routing_matches en api req r = Ok (r', ok) \<Longrightarrow> rr_meta r' = rr_meta r \<and> (ok \<longrightarrow> rg_API (rr_meta r) = 0 \<or> rg_API (rr_meta r) = api)"
  by (auto simp: routing_matches_def outcome_simps word_gt_0 split: if_splits)

lemma adjust_loop_ok:
  assumes "adjust_loop en (dp_api dn) rc req rs dn d = Ok (dn', d')" "good rx d" "few_actives d" "node_ok d dn"
    and "\<forall>(k, r)\<in>set rs. map_of (metas rr_meta (d_routings d)) k = Some (rr_meta r)"
  shows "same_tables d d' \<and> node_ok d dn' \<and> dp_api dn' = dp_api dn \<and> dp_node dn' = dp_node dn"
  using assms
proof (induction rs arbitrary: d)
  case (Cons x rs)
  obtain k r where x: "x = (k, r)" by (cases x)
  show ?case
  proof (cases "routing_isUp r")
    case up: True
    then obtain r' ok where m: "routing_matches en (dp_api dn) req r = Ok (r', ok)"
      using Cons.prems(1) x by (auto simp: outcome_simps)
    define d1 where "d1 = d\<lparr>d_routings := AList.update k r' (d_routings d)\<rparr>"
    have "map_of (metas rr_meta (d_routings d)) k = Some (rr_meta r')" using Cons.prems(5) x routing_matches_meta [OF m] by simp
    then have s1: "same_tables d d1" by (simp add: d1_def same_tables_def metas_update_same)
    then have d1: "good rx d1" "few_actives d1" "node_ok d1 dn" "metas rr_meta (d_routings d1) = metas rr_meta (d_routings d)"
      using Cons.prems(2-4) same_tables_good [OF s1] same_tables_few [OF s1] same_tables_node [OF s1]
      by (simp_all add: s1 [unfolded same_tables_def])
    show ?thesis
    proof (cases ok)
      case False
      then have "adjust_loop en (dp_api dn) rc req rs dn d1 = Ok (dn', d')"
        using Cons.prems(1) x up m by (simp add: d1_def [symmetric])
      then have "same_tables d1 d' \<and> node_ok d1 dn' \<and> dp_api dn' = dp_api dn \<and> dp_node dn' = dp_node dn"
        by (rule Cons.IH) (use d1 Cons.prems(5) x in auto)
      then show ?thesis using same_tables_trans [OF s1] same_tables_node [OF s1] by simp
    next
      case True
      let ?k = "rg_ClusterID (rr_meta r)"
      let ?sel = "selectServerFromCluster rc ?k d1"
      have t: "takes_over d (dp_api dn) (rg_Strategy (rr_meta r)) ?k"
        unfolding takes_over_def using Cons.prems(5) x up routing_matches_meta [OF m] True by (auto simp: routing_isUp_def)
      have d': "d' = fst ?sel" "dn' = (case rg_Strategy (rr_meta r) of Split \<Rightarrow> dn\<lparr>dp_dest := snd ?sel\<rparr> | Copy \<Rightarrow> dn\<lparr>dp_copyTo := snd ?sel\<rparr>)"
        using Cons.prems(1) x up m True routing_matches_meta [OF m] by (auto simp: d1_def [symmetric] case_prod_unfold Let_def)
      have "case snd ?sel of None \<Rightarrow> \<not> (\<exists>i. serves d ?k i) | Some i \<Rightarrow> serves d ?k i"
        using select_cases [OF d1(1,2), where rc = rc and k = ?k] unfolding same_tables_serves [OF s1] .
      then have "node_ok d dn'" using Cons.prems(4) t d'(2)
        by (cases "rg_Strategy (rr_meta r)"; cases "snd ?sel") (auto simp: node_ok_def copy_ok_def)
      moreover have "same_tables d d'" using same_tables_trans [OF s1 select_same [of d1 rc ?k]] d'(1) by simp
      ultimately show ?thesis using d'(2) by (cases "rg_Strategy (rr_meta r)") auto
    qed
  qed (use Cons x in auto)
qed simp

lemma selectServer_ok:
  assumes "selectServer en rc req dn d = Ok (dn', d')" "good rx d" "few_actives d" "copy_ok d dn"
  shows "same_tables d d' \<and> node_ok d dn' \<and> dp_api dn' = dp_api dn \<and> dp_node dn' = dp_node dn"
proof -
  let ?sel = "selectServerFromCluster rc (dn_ClusterID (nd_meta (dp_node dn))) d"
  have s: "same_tables d (fst ?sel)" by (rule select_same)
  have n: "node_ok d (dn\<lparr>dp_dest := snd ?sel\<rparr>)"
    using select_cases [OF assms(2,3), where rc = rc and k = "dn_ClusterID (nd_meta (dp_node dn))"] assms(4)
    by (auto simp: node_ok_def copy_ok_def split: option.splits)
  have g: "good rx (fst ?sel)" using same_tables_good [OF s assms(2)] .
  then have "distinct (map fst (metas rr_meta (d_routings (fst ?sel))))" unfolding good_def disp_inv_def keyed_def by blast
  then have all: "\<forall>(k, r)\<in>set (d_routings (fst ?sel)). map_of (metas rr_meta (d_routings (fst ?sel))) k = Some (rr_meta r)"
    by (auto simp: metas_def)
  have "same_tables (fst ?sel) d' \<and> node_ok (fst ?sel) dn' \<and> dp_api dn' = dp_api (dn\<lparr>dp_dest := snd ?sel\<rparr>) \<and>
      dp_node dn' = dp_node (dn\<lparr>dp_dest := snd ?sel\<rparr>)"
    by (rule adjust_loop_ok [OF _ g _ _ all])
      (use assms(1,3) s n in \<open>auto simp: selectServer_def adjustByRouting_def case_prod_unfold Let_def same_tables_few same_tables_node\<close>)
  then show ?thesis using same_tables_trans [OF s] same_tables_node [OF s] by simp
qed

lemma dispatch_nodes_ok:
  assumes "dispatch_nodes en api rc req idx nodes d = Ok (dns, d')" "good rx d" "few_actives d"
  shows "same_tables d d' \<and> (\<forall>dn\<in>set dns. node_ok d dn \<and> dp_api dn = api) \<and> map dp_node dns = nodes"
  using assms
proof (induction nodes arbitrary: idx d dns)
  case (Cons n nodes)
  obtain dn d1 dns1 where r: "selectServer en rc req (acquireDispathNode idx api n) d = Ok (dn, d1)"
    "dispatch_nodes en api rc req (Suc idx) nodes d1 = Ok (dns1, d')" "dns = dn # dns1"
    using Cons.prems(1) by (auto simp: outcome_simps)
  have s: "same_tables d d1 \<and> node_ok d dn \<and> dp_api dn = api \<and> dp_node dn = n"
    using selectServer_ok [OF r(1) Cons.prems(2,3)] by (simp add: acquireDispathNode_def copy_ok_def)
  then have "same_tables d1 d' \<and> (\<forall>dn\<in>set dns1. node_ok d1 dn \<and> dp_api dn = api) \<and> map dp_node dns1 = nodes"
    using Cons.IH [OF r(2)] same_tables_good [of d d1] Cons.prems same_tables_few [of d d1] by simp
  then show ?case using s r(3) same_tables_trans [of d d1 d'] same_tables_node [of d d1] by auto
qed simp

subsection \<open>Dispatching returns\<close>

text \<open>A routing that can decide a request \<open>n\<close> times: its barrier is sound and its counter has room, and its
  conditions read parameters that exist.\<close>

definition routing_ready :: "HttpReq \<Rightarrow> nat \<Rightarrow> routingRuntime \<Rightarrow> bool" where
  "routing_ready req n r \<longleftrightarrow> barrier_ok (rr_barrier r) \<and> unat (rb_op (rr_barrier r)) + n < 2 ^ 63 \<and>
     (\<forall>c\<in>set (rg_Conditions (rr_meta r)). param_ok req (co_Parameter c))"

lemma routing_ready_le: "routing_ready req n r \<Longrightarrow> m \<le> n \<Longrightarrow> routing_ready req m r"
  by (simp add: routing_ready_def)

lemma routing_matches_total:
  assumes "routing_ready req (Suc n) r"
  shows "\<exists>r' ok. routing_matches en api req r = Ok (r', ok) \<and> routing_ready req n r'"
proof -
  let ?b = "rr_barrier r"
  have b: "barrier_ok ?b" "unat (rb_op ?b) + 1 < 2 ^ 63" "unat (rb_op ?b) + Suc n < 2 ^ 63"
    using assms by (auto simp: routing_ready_def)
  have o: "unat (rb_op ?b + 1) = Suc (unat (rb_op ?b))" using b(2) unat_add_lem [of "rb_op ?b" 1] by simp
  obtain v where a: "Allow ?b = Ok (?b\<lparr>rb_op := rb_op ?b + 1\<rparr>, v)" using Allow_eq [OF b(1,2)] by blast
  obtain c where "all_conditions (en_jget en) (en_rx en) (rg_Conditions (rr_meta r)) req = Ok c"
    using all_conditions_total assms unfolding routing_ready_def by blast
  moreover have "routing_ready req n (r\<lparr>rr_barrier := ?b\<lparr>rb_op := rb_op ?b + 1\<rparr>\<rparr>)"
    using assms b(3) o by (simp add: routing_ready_def barrier_ok_def)
  ultimately show ?thesis using a routing_ready_le [OF assms, of n] by (auto simp: routing_matches_def)
qed

lemma selectFrom_routings: "d_routings (fst (selectServerFromCluster rc k d)) = d_routings d"
  by (auto simp: selectServerFromCluster_def Let_def split: option.splits prod.splits)

lemma adjust_loop_total:
  assumes "\<forall>x\<in>set rs. routing_ready req (Suc n) (snd x)" "\<forall>x\<in>set (d_routings d). routing_ready req n (snd x)"
  shows "\<exists>dn' d'. adjust_loop en api rc req rs dn d = Ok (dn', d') \<and> (\<forall>x\<in>set (d_routings d'). routing_ready req n (snd x))"
  using assms
proof (induction rs arbitrary: d)
  case (Cons x rs)
  obtain k r where x: "x = (k, r)" by (cases x)
  obtain r' ok where m: "routing_matches en api req r = Ok (r', ok)" "routing_ready req n r'"
    using routing_matches_total [of req n r en api] Cons.prems(1) x by auto
  define d1 where "d1 = d\<lparr>d_routings := AList.update k r' (d_routings d)\<rparr>"
  have d1: "\<forall>x\<in>set (d_routings d1). routing_ready req n (snd x)"
    using update_all [OF Cons.prems(2) m(2)] by (simp add: d1_def)
  show ?case
    using Cons.IH [of d] Cons.IH [OF _ d1] Cons.prems x m(1) d1 selectFrom_routings [of rc _ d1]
    by (auto simp: d1_def [symmetric] case_prod_unfold Let_def)
qed simp

lemma selectServer_total:
  assumes "\<forall>x\<in>set (d_routings d). routing_ready req (Suc n) (snd x)"
  shows "\<exists>dn' d'. selectServer en rc req dn d = Ok (dn', d') \<and> (\<forall>x\<in>set (d_routings d'). routing_ready req n (snd x))"
proof -
  let ?sel = "selectServerFromCluster rc (dn_ClusterID (nd_meta (dp_node dn))) d"
  have "\<forall>x\<in>set (d_routings (fst ?sel)). routing_ready req n (snd x)"
    using assms routing_ready_le by (auto simp: selectFrom_routings)
  then show ?thesis
    using adjust_loop_total [of "d_routings (fst ?sel)" req n "fst ?sel"] assms
    by (simp add: selectServer_def adjustByRouting_def case_prod_unfold Let_def selectFrom_routings)
qed

lemma dispatch_nodes_total:
  assumes "\<forall>x\<in>set (d_routings d). routing_ready req (length nodes) (snd x)"
  shows "\<exists>dns d'. dispatch_nodes en api rc req idx nodes d = Ok (dns, d')"
  using assms
proof (induction nodes arbitrary: idx d)
  case (Cons n nodes)
  obtain dn d1 where "selectServer en rc req (acquireDispathNode idx api n) d = Ok (dn, d1)"
      "\<forall>x\<in>set (d_routings d1). routing_ready req (length nodes) (snd x)"
    using selectServer_total [of d req "length nodes" en rc "acquireDispathNode idx api n"] Cons.prems by auto
  then show ?case using Cons.IH [of d1 "Suc idx"] by auto
qed simp

lemma add_params_total: "ctx_Params c \<noteq> None \<Longrightarrow> \<exists>c'. add_params ps c = Ok c'"
proof (induction ps arbitrary: c)
  case (Cons p ps)
  obtain n v where p: "p = (n, v)" by (cases p)
  obtain c1 where "ctx_AddParam n v c = Ok c1" "ctx_Params c1 \<noteq> None"
    using Cons.prems by (auto simp: ctx_AddParam_def)
  then show ?case using Cons.IH p by auto
qed simp


definition demo_node :: DispatchNode where
  "demo_node = \<lparr>dn_ClusterID = 1, dn_URLRewrite = [], dn_AttrName = [], dn_Validations = [], dn_Cache = None, dn_DefaultValue = None,
     dn_UseDefault = False, dn_BatchIndex = 0, dn_RetryStrategy = None, dn_WriteTimeout = 0, dn_ReadTimeout = 0,
     dn_HostType = HostOrigin, dn_CustemHost = []\<rparr>"

definition demo_upapi :: API where
  "demo_upapi = zero_api\<lparr>api_ID := 5, api_URLPattern := ''/a'', api_Method := ''GET'', api_Status := Up, api_Nodes := [demo_node]\<rparr>"

definition demo_routed :: dispatcher where
  "demo_routed = state_after [ClusterEvt EventTypeNew [] (demo_cluster 1), ServerEvt EventTypeNew [] (demo_svr 7 None),
      BindEvt EventTypeNew \<lparr>bd_ClusterID = 1, bd_ServerID = 7\<rparr>, APIEvt EventTypeNew [] demo_upapi]"

definition demo_http :: HttpReq where
  "demo_http = \<lparr>rq_QueryString = [], rq_QueryArg = (\<lambda>n. []), rq_Path = ''/a'', rq_Cookie = (\<lambda>n. []), rq_HeaderPeek = (\<lambda>n. []),
     rq_Body = [], rq_Method = ''GET'', rq_Host = [], rq_RequestURI = ''/a'', rq_PostArg = (\<lambda>n. [])\<rparr>"

lemma demo_routed_facts:
  "d_binds demo_routed = [(1, \<lparr>bs_servers = [\<lparr>bi_svrID = 7, bi_status = Up\<rparr>], bs_actives = [demo_svr 7 None]\<rparr>)]"
  "d_routings demo_routed = []"
  by (code_simp, code_simp)

lemma demo_dispatch:
  "case dispatch demo_env \<lparr>rc_Header = (\<lambda>n. []), rc_RemoteIP = ''1.2.3.4''\<rparr> demo_http demo_routed of
     Ok (Some a, [dn], c, d') \<Rightarrow> dp_dest dn = Some 7 | _ \<Rightarrow> False"
  by code_simp

lemma demo_routed_reach: "reach (\<lambda>p s. Some True) demo_routed"
  unfolding demo_routed_def
  by (rule state_after_reach) (auto simp: demo_upapi_def demo_node_def zero_api_def key_ok_def valid_api_def valid_node_def
      max_rate_def simp del: evt_ok.simps(1,2))


end
