(* ===== verification/Proxy_Retry.thy ===== *)
theory Proxy_Retry
  imports Dispatch
begin

text \<open>
  Sending a request to a server and retrying (the inner loop of \<^verbatim>\<open>doProxy\<close> in \<^verbatim>\<open>proxy/proxy.go\<close>). The backend is the
  argument \<open>backend\<close>: the number of the attempt and the server determine the response (\<^verbatim>\<open>client.Do\<close> always
  returns one) and the error of the call. The loop returns what it sent as a log.
\<close>

type_synonym backend = "int \<Rightarrow> uint64 \<Rightarrow> httpResp \<times> string option"

text \<open>Whether the loop goes on after an answer: the three tests before the limit.\<close>

definition retryable :: "dispatchNode \<Rightarrow> httpResp \<times> string option \<Rightarrow> bool" where
  "retryable dn ans =
     (let (res, err) = ans
      in if err = None \<and> hp_code res < 400 then False
         else case retryStrategy dn of
                None \<Rightarrow> False
              | Some rs \<Rightarrow> matchAllRetryStrategy rs \<or> matchRetryStrategy (signed_take_bit 31 (hp_code res)) rs)"

definition max_times :: "dispatchNode \<Rightarrow> int" where
  "max_times dn = (case retryStrategy dn of None \<Rightarrow> 0 | Some rs \<Rightarrow> rs_MaxTimes rs)"

lemma obind_cong [fundef_cong]:
  "x = y \<Longrightarrow> (\<And>v. y = Ok v \<Longrightarrow> f v = g v) \<Longrightarrow> obind x f = obind y g"
  by (cases y) auto

lemma adjust_loop_node:
  "adjust_loop en api rc req rs dn d = Ok (dn', d') \<Longrightarrow> dp_node dn' = dp_node dn \<and> dp_api dn' = dp_api dn"
proof (induction rs arbitrary: d)
  case (Cons x rs)
  then show ?case
    by (cases x) (auto simp: outcome_simps Let_def split: if_splits prod.splits RoutingStrategy.splits)
qed simp

lemma selectServer_node: "selectServer en rc req dn d = Ok (dn', d') \<Longrightarrow> dp_node dn' = dp_node dn \<and> dp_api dn' = dp_api dn"
  by (auto simp: selectServer_def adjustByRouting_def Let_def dest: adjust_loop_node split: prod.splits)

text \<open>The loop, from \<open>n\<close> attempts made. No answer at the end means that the reselection found no server.\<close>

function send_loop :: "env \<Rightarrow> backend \<Rightarrow> ReqCtx \<Rightarrow> HttpReq \<Rightarrow> int \<Rightarrow> dispatchNode \<Rightarrow> uint64 \<Rightarrow> dispatcher
    \<Rightarrow> (unit, (uint64 \<times> httpResp \<times> string option) list \<times> (httpResp \<times> string option) option \<times> dispatchNode \<times> dispatcher) outcome" where
  "send_loop en backend rc req n dn svr d =
     (let ans = backend n svr; n = n + 1
      in if \<not> retryable dn ans then Ok ([(svr, ans)], Some ans, dn, d)
         else if max_times dn \<le> n then Ok ([(svr, ans)], Some ans, dn, d)
         else obind (selectServer en rc req dn d) (\<lambda>(dn', d).
           case dp_dest dn' of
             None \<Rightarrow> Ok ([(svr, ans)], None, dn', d)
           | Some svr' \<Rightarrow>
               obind (send_loop en backend rc req n dn' svr' d) (\<lambda>(log, r). Ok ((svr, ans) # log, r))))"
  by pat_completeness auto

termination
proof (relation "measure (\<lambda>(en, backend, rc, req, n, dn, svr, d). nat (max_times dn - n))", goal_cases)
  case (2 en backend rc req n dn svr d ans n' x dn' d' svr')
  then have "dp_node dn' = dp_node dn" using selectServer_node by blast
  then show ?case using 2 by (auto simp: max_times_def retryStrategy_def)
qed simp

declare send_loop.simps [simp del]

subsection \<open>What the loop does\<close>

text \<open>A log of the loop started after \<open>n\<close> attempts: at least one attempt and no more than the strategy allows, each
  answered by the backend, every attempt but the last a failure the strategy covers. The loop ends with the last
  answer, which is final unless the limit is reached, or without an answer below the limit.\<close>

definition log_ok :: "backend \<Rightarrow> dispatchNode \<Rightarrow> int \<Rightarrow> (uint64 \<times> httpResp \<times> string option) list \<Rightarrow> (httpResp \<times> string option) option \<Rightarrow> bool" where
  "log_ok backend dn n log r \<longleftrightarrow> log \<noteq> [] \<and> int (length log) \<le> max 1 (max_times dn - n) \<and>
     (\<forall>k<length log. snd (log ! k) = backend (n + int k) (fst (log ! k))) \<and>
     (\<forall>x\<in>set (butlast log). retryable dn (snd x)) \<and>
     (case r of
        None \<Rightarrow> retryable dn (snd (last log)) \<and> int (length log) < max_times dn - n
      | Some ans \<Rightarrow> ans = snd (last log) \<and> (retryable dn ans \<longrightarrow> max_times dn \<le> n + int (length log)))"

lemma log_ok_Cons:
  assumes "log_ok backend dn (n + 1) log r" "retryable dn (backend n svr)" "n + 1 < max_times dn"
  shows "log_ok backend dn n ((svr, backend n svr) # log) r"
proof -
  have "snd (((svr, backend n svr) # log) ! k) = backend (n + int k) (fst (((svr, backend n svr) # log) ! k))"
    if "k < Suc (length log)" for k
    using assms(1) that by (cases k) (auto simp: log_ok_def add.assoc)
  then show ?thesis using assms by (auto simp: log_ok_def split: option.splits)
qed

lemma same_node: "dp_node dn' = dp_node dn \<Longrightarrow> retryable dn' = retryable dn \<and> max_times dn' = max_times dn"
  by (simp add: retryable_def max_times_def retryStrategy_def fun_eq_iff)

lemma log_ok_node: "dp_node dn' = dp_node dn \<Longrightarrow> log_ok backend dn' = log_ok backend dn"
proof (intro ext)
  fix n log r
  assume d: "dp_node dn' = dp_node dn"
  show "log_ok backend dn' n log r = log_ok backend dn n log r"
    unfolding log_ok_def conjunct1 [OF same_node [OF d]] conjunct2 [OF same_node [OF d]] ..
qed

definition dest_of :: "dispatcher \<Rightarrow> dispatchNode \<Rightarrow> uint64 \<Rightarrow> bool" where
  "dest_of d dn i \<longleftrightarrow> (\<exists>k. (k = dn_ClusterID (nd_meta (dp_node dn)) \<or> takes_over d (dp_api dn) Split k) \<and> serves d k i)"

lemma send_loop_stop:
  "\<not> retryable dn (backend n svr) \<or> max_times dn \<le> n + 1 \<Longrightarrow>
    send_loop en backend rc req n dn svr d = Ok ([(svr, backend n svr)], Some (backend n svr), dn, d) \<and>
    log_ok backend dn n [(svr, backend n svr)] (Some (backend n svr))"
  by (subst send_loop.simps) (auto simp: log_ok_def Let_def)

lemma send_loop_run:
  assumes "good rx d" "few_actives d" "copy_ok d dn" "\<forall>x\<in>set (d_routings d). routing_ready req (nat (max_times dn - n) + m) (snd x)"
  shows "\<exists>log r dn' d'. send_loop en backend rc req n dn svr d = Ok (log, r, dn', d') \<and> same_tables d d' \<and>
    log_ok backend dn n log r \<and> fst (hd log) = svr \<and> (\<forall>x\<in>set (tl log). dest_of d dn (fst x)) \<and>
    (\<forall>x\<in>set (d_routings d'). routing_ready req m (snd x))"
  using assms
proof (induction "nat (max_times dn - n)" arbitrary: n dn svr d rule: less_induct)
  case less
  show ?case
  proof (cases "\<not> retryable dn (backend n svr) \<or> max_times dn \<le> n + 1")
    case True
    moreover have "\<forall>x\<in>set (d_routings d). routing_ready req m (snd x)" using less.prems(4) routing_ready_le [OF _ le_add2] by blast
    ultimately show ?thesis using send_loop_stop [of dn backend n svr en rc req d] by auto
  next
    case False
    then have k: "nat (max_times dn - n) = Suc (nat (max_times dn - (n + 1)))" by linarith
    obtain dn1 d1 where s: "selectServer en rc req dn d = Ok (dn1, d1)"
        "\<forall>x\<in>set (d_routings d1). routing_ready req (nat (max_times dn - (n + 1)) + m) (snd x)"
      using selectServer_total [of d req "nat (max_times dn - (n + 1)) + m" en rc dn] less.prems(4) k by auto
    have o: "same_tables d d1" "node_ok d dn1" "dp_api dn1 = dp_api dn" "dp_node dn1 = dp_node dn"
      using selectServer_ok [OF s(1) less.prems(1,2,3)] by auto
    note eq = same_node [OF o(4)]
    show ?thesis
    proof (cases "dp_dest dn1")
      case None
      then have "send_loop en backend rc req n dn svr d = Ok ([(svr, backend n svr)], None, dn1, d1)"
        using False s(1) by (subst send_loop.simps) (simp add: Let_def)
      moreover have "\<forall>x\<in>set (d_routings d1). routing_ready req m (snd x)" using s(2) routing_ready_le [OF _ le_add2] by blast
      ultimately show ?thesis using False o(1) by (auto simp: log_ok_def)
    next
      case (Some svr1)
      have "\<exists>log r dn' d'. send_loop en backend rc req (n + 1) dn1 svr1 d1 = Ok (log, r, dn', d') \<and> same_tables d1 d' \<and>
        log_ok backend dn1 (n + 1) log r \<and> fst (hd log) = svr1 \<and> (\<forall>x\<in>set (tl log). dest_of d1 dn1 (fst x)) \<and>
        (\<forall>x\<in>set (d_routings d'). routing_ready req m (snd x))"
      proof (rule less.hyps)
        show "nat (max_times dn1 - (n + 1)) < nat (max_times dn - n)" using eq k by simp
        show "good rx d1" "few_actives d1" using same_tables_good [OF o(1) less.prems(1)] same_tables_few [OF o(1)] less.prems(2) by simp_all
        have "node_ok d1 dn1" using o(2) same_tables_node [OF o(1)] by simp
        then show "copy_ok d1 dn1" by (simp add: node_ok_def)
        show "\<forall>x\<in>set (d_routings d1). routing_ready req (nat (max_times dn1 - (n + 1)) + m) (snd x)" using s(2) eq by simp
      qed
      then obtain log r dn' d' where r: "send_loop en backend rc req (n + 1) dn1 svr1 d1 = Ok (log, r, dn', d')"
        "same_tables d1 d'" "log_ok backend dn (n + 1) log r" "fst (hd log) = svr1" "\<forall>x\<in>set (tl log). dest_of d dn (fst x)"
        "\<forall>x\<in>set (d_routings d'). routing_ready req m (snd x)"
        using log_ok_node [OF o(4)] same_tables_serves [OF o(1)] same_tables_takes [OF o(1)] o(3,4) by (auto simp: dest_of_def)
      have "dest_of d dn svr1" using o(2-4) Some by (auto simp: node_ok_def dest_of_def)
      then have "\<forall>x\<in>set log. dest_of d dn (fst x)" using r(3-5) by (cases log) (auto simp: log_ok_def)
      moreover have "send_loop en backend rc req n dn svr d = Ok ((svr, backend n svr) # log, r, dn', d')"
        using False s(1) Some r(1) by (subst send_loop.simps) (simp add: Let_def)
      moreover have "log_ok backend dn n ((svr, backend n svr) # log) r"
        using log_ok_Cons [OF r(3)] False by simp
      ultimately show ?thesis using same_tables_trans [OF o(1) r(2)] r(6) by auto
    qed
  qed
qed

text \<open>C10 --- sending and retrying. The retry loop always ends: it makes at least one attempt and at most as many as the
  retry strategy of the node allows, it only repeats a failure the strategy covers, and it returns the last answer.
  Every attempt after the first goes to a server that was chosen anew and is active in the cluster of the node or of a
  split routing that applies.\<close>

theorem retry_sound:
  assumes "reach rx d" "few_actives d" "copy_ok d dn"
    and "\<forall>x\<in>set (d_routings d). routing_ready req (nat (max_times dn)) (snd x)"
  shows "\<exists>log r dn' d'. send_loop en backend rc req 0 dn svr d = Ok (log, r, dn', d') \<and> abs_config d' = abs_config d \<and>
    log_ok backend dn 0 log r \<and> fst (hd log) = svr \<and> (\<forall>x\<in>set (tl log). dest_of d dn (fst x))"
proof -
  obtain log r dn' d' where "send_loop en backend rc req 0 dn svr d = Ok (log, r, dn', d')" "same_tables d d'" "log_ok backend dn 0 log r"
      "fst (hd log) = svr" "\<forall>x\<in>set (tl log). dest_of d dn (fst x)"
    using send_loop_run [OF reach_good [OF assms(1)] assms(2,3), of req 0 0 en backend rc svr] assms(4) by auto
  then show ?thesis using same_tables_config [of d d'] by auto
qed

definition demo_retry :: dispatchNode where
  "demo_retry = (acquireDispathNode 0 5
     \<lparr>nd_httpOption = en_http demo_env, nd_meta = demo_node\<lparr>dn_RetryStrategy := Some \<lparr>rs_Interval = 0, rs_MaxTimes = 3, rs_Codes = [502]\<rparr>\<rparr>,
      nd_validations = [], nd_defaultCookies = [], nd_parsedExprs = []\<rparr>)\<lparr>dp_dest := Some 7\<rparr>"

definition demo_backend :: backend where
  "demo_backend n svr = (\<lparr>hp_code = (if n < 1 then 502 else 200), hp_headers = [], hp_contentType = [], hp_body = []\<rparr>, None)"

theorem retry_sound_witness:
  "\<exists>log r dn' d'. send_loop demo_env demo_backend \<lparr>rc_Header = (\<lambda>n. []), rc_RemoteIP = ''1.2.3.4''\<rparr> demo_http 0 demo_retry 7 demo_routed
     = Ok (log, r, dn', d') \<and> map fst log = [7, 7] \<and> length log \<le> 3"
proof -
  let ?run = "send_loop demo_env demo_backend \<lparr>rc_Header = (\<lambda>n. []), rc_RemoteIP = ''1.2.3.4''\<rparr> demo_http 0 demo_retry 7 demo_routed"
  have f: "few_actives demo_routed" by (simp add: few_actives_def demo_routed_facts)
  have c: "copy_ok demo_routed demo_retry" by (simp add: copy_ok_def demo_retry_def acquireDispathNode_def)
  have "case ?run of Ok (log, r) \<Rightarrow> map fst log = [7, 7] | _ \<Rightarrow> False" by code_simp
  moreover have "max_times demo_retry = 3" by code_simp
  ultimately show ?thesis
    using retry_sound [OF demo_routed_reach f c, of demo_http demo_env demo_backend "\<lparr>rc_Header = (\<lambda>n. []), rc_RemoteIP = ''1.2.3.4''\<rparr>" 7]
    by (auto simp: demo_routed_facts log_ok_def)
qed

end
