(* ===== verification/Filters.thy ===== *)
theory Filters
  imports Proxy_Retry Response_Cache Lru_Cache
begin

text \<open>
  The filters of the proxy (\<^verbatim>\<open>proxy/filter_*.go\<close>, \<^verbatim>\<open>proxy/filters.go\<close>, \<^verbatim>\<open>proxy/factory.go\<close>, \<^verbatim>\<open>filter/filter.go\<close>).

  A filter is its name and its three functions over the context of a request. The context holds the state the filters
  share: the dispatcher, the response cache of the caching filter and the timers it has set. A cached value is the
  address of a byte buffer, since the cache and a request that has hit it use the same buffer. A pointer to an API
  or server runtime is its key, so a request sees the runtimes of the tables.

  What \<^verbatim>\<open>fasthttp\<close> does with a response (\<^verbatim>\<open>Header.VisitAll\<close>, filling a fresh response), with a rewritten URI, and
  the memory pool are the record \<open>hooks\<close>, as are the filters of the script engine, of JWT and of external plugins.
\<close>

subsection \<open>Contexts\<close>

record shared =
  sh_d :: dispatcher
  sh_cache :: "(string, nat) LRUCache"
  sh_bufs :: "nat \<Rightarrow> ByteBuf option"
  sh_next :: nat
  sh_removals :: "string list"
  sh_releases :: "nat list"

record proxyContext =
  pc_sh :: shared
  pc_startAt :: int
  pc_endAt :: int
  pc_result :: dispatchNode
  pc_forwardReq :: HttpReq
  pc_origin :: HttpReq
  pc_rc :: ReqCtx
  pc_outHeader :: "(string \<times> string) list"
  pc_realIP :: "string option"
  pc_cached :: "nat option"
  pc_using :: "httpResp option"

type_synonym filter_result = "(unit, proxyContext \<times> int \<times> proxy_error option) outcome"

record filter =
  fl_Name :: string
  fl_Pre :: "proxyContext \<Rightarrow> filter_result"
  fl_Post :: "proxyContext \<Rightarrow> filter_result"
  fl_PostErr :: "int \<Rightarrow> proxy_error option \<Rightarrow> proxyContext \<Rightarrow> (unit, proxyContext) outcome"

record hooks =
  hk_visit :: "httpResp \<Rightarrow> Response"
  hk_fill :: "Response \<Rightarrow> httpResp"
  hk_setURI :: "string \<Rightarrow> HttpReq \<Rightarrow> HttpReq"
  hk_alloc :: alloc_fn
  hk_cross :: "(string \<times> string) list"
  hk_jwt :: "filter option"
  hk_js :: filter
  hk_info :: bool

text \<open>The zero \<^verbatim>\<open>time.Time\<close> (the first of January of year 1) in nanoseconds of the Unix clock: the end of a request
  before any call has been made.\<close>

definition zero_time :: int where
  "zero_time = - 62135596800000000000"

definition BreakFilterChainCode :: int where
  "BreakFilterChainCode = - 1"

definition base_ok :: "proxyContext \<Rightarrow> filter_result" where
  "base_ok c = Ok (c, 200, None)"

definition BaseFilter :: "string \<Rightarrow> filter" where
  "BaseFilter name = \<lparr>fl_Name = name, fl_Pre = base_ok, fl_Post = base_ok, fl_PostErr = (\<lambda>code err c. Ok c)\<rparr>"

subsection \<open>The runtimes of a request\<close>

definition the_api :: "proxyContext \<Rightarrow> apiRuntime option" where
  "the_api c = map_of (d_apis (sh_d (pc_sh c))) (dp_api (pc_result c))"

definition the_dest :: "proxyContext \<Rightarrow> serverRuntime option" where
  "the_dest c = (case dp_dest (pc_result c) of None \<Rightarrow> None | Some i \<Rightarrow> map_of (d_servers (sh_d (pc_sh c))) i)"

definition put_protected :: "protectedRuntime \<Rightarrow> 'a protectedRuntime_scheme \<Rightarrow> 'a protectedRuntime_scheme" where
  "put_protected p x = x\<lparr>pr_id := pr_id p, pr_activeQPS := pr_activeQPS p, pr_limiter := pr_limiter p, pr_circuit := pr_circuit p,
     pr_cb := pr_cb p, pr_barrier := pr_barrier p, pr_half_timers := pr_half_timers p\<rparr>"

text \<open>The view of the circuit breaker and its way back into the tables; a nil runtime panics.\<close>

definition cb_view :: "proxyContext \<Rightarrow> cbState option" where
  "cb_view c =
     (case (the_api c, the_dest c) of
        (Some a, Some s) \<Rightarrow> Some \<lparr>cs_api = protectedRuntime.truncate a, cs_dest = protectedRuntime.truncate s,
                             cs_analysis = d_analysis (sh_d (pc_sh c))\<rparr>
      | _ \<Rightarrow> None)"

definition cb_put :: "cbState \<Rightarrow> proxyContext \<Rightarrow> proxyContext" where
  "cb_put s c =
     (case (the_api c, the_dest c) of
        (Some a, Some v) \<Rightarrow>
          let d = sh_d (pc_sh c)
          in c\<lparr>pc_sh := (pc_sh c)\<lparr>sh_d := d\<lparr>d_apis := AList.update (dp_api (pc_result c)) (put_protected (cs_api s) a) (d_apis d),
                 d_servers := AList.update (the (dp_dest (pc_result c))) (put_protected (cs_dest s) v) (d_servers d),
                 d_analysis := cs_analysis s\<rparr>\<rparr>\<rparr>
      | _ \<Rightarrow> c)"

definition with_cb :: "(cbState \<Rightarrow> (unit, cbState \<times> 'r) outcome) \<Rightarrow> proxyContext \<Rightarrow> (unit, proxyContext \<times> 'r) outcome" where
  "with_cb f c = (case cb_view c of None \<Rightarrow> Panic | Some s \<Rightarrow> obind (f s) (\<lambda>(s, r). Ok (cb_put s c, r)))"

subsection \<open>Circuit breaker, statistics and rate\<close>

fun cb_err :: "cb_error \<Rightarrow> proxy_error" where
  "cb_err ErrCircuitClose = ErrFilter ''resource is in circuit close''"
| "cb_err ErrCircuitHalfLimited = ErrFilter ''resource is in circuit half, traffic limit''"

definition err_text :: "proxy_error option \<Rightarrow> string option" where
  "err_text err = (case err of None \<Rightarrow> None | Some (ErrClient m) \<Rightarrow> Some m | Some (ErrFilter m) \<Rightarrow> Some m
     | Some ErrNoServer \<Rightarrow> Some ''has no server'' | Some ErrRewriteNotMatch \<Rightarrow> Some ''rewrite not match request url'')"

definition CircuitBreakeFilter :: filter where
  "CircuitBreakeFilter = (BaseFilter ''CIRCUIT-BREAKER'')
     \<lparr>fl_Pre := with_cb (\<lambda>s. obind (cb_Pre s) (\<lambda>(s, code, err). Ok (s, code, map_option cb_err err))),
      fl_Post := with_cb (\<lambda>s. Ok (cb_Post s, 200, None)),
      fl_PostErr := (\<lambda>code err c. obind (with_cb (\<lambda>s. Ok (cb_PostErr (err_text err) s, ())) c) (\<lambda>(c, _). Ok c))\<rparr>"

definition AnalysisFilter :: filter where
  "AnalysisFilter = (BaseFilter ''ANALYSIS'')
     \<lparr>fl_Pre := with_cb (\<lambda>s. Ok (af_Pre s, 200, None)),
      fl_Post := (\<lambda>c. with_cb (\<lambda>s. Ok (af_Post (time_Sub (pc_endAt c) (pc_startAt c)) s, 200, None)) c),
      fl_PostErr := (\<lambda>code err c. obind (with_cb (\<lambda>s. Ok (af_PostErr s, ())) c) (\<lambda>(c, _). Ok c))\<rparr>"

definition rate_Pre :: "int \<Rightarrow> cbState \<Rightarrow> (unit, cbState \<times> int \<times> proxy_error option) outcome" where
  "rate_Pre now s =
     (case rateLimiter_of s of
        None \<Rightarrow> Panic
      | Some l \<Rightarrow>
          let (l, ok) = rl_do now 1 l;
              s = (if pr_limiter (cs_api s) \<noteq> None then s\<lparr>cs_api := (cs_api s)\<lparr>pr_limiter := Some l\<rparr>\<rparr>
                   else s\<lparr>cs_dest := (cs_dest s)\<lparr>pr_limiter := Some l\<rparr>\<rparr>)
          in if ok then Ok (s, 200, None) else Ok (s, 429, Some (ErrFilter ''too many requests'')))"

definition RateLimitingFilter :: "int \<Rightarrow> filter" where
  "RateLimitingFilter now = (BaseFilter ''RATE-LIMITING'')\<lparr>fl_Pre := with_cb (rate_Pre now)\<rparr>"

subsection \<open>Access lists and validation\<close>

definition PrepareFilter :: filter where
  "PrepareFilter = (BaseFilter ''PREPARE'')\<lparr>fl_Pre := (\<lambda>c. base_ok (c\<lparr>pc_realIP := Some (ClientIP (pc_rc c))\<rparr>))\<rparr>"

text \<open>\<^verbatim>\<open>StringValue\<close> asserts the type of the attribute, which panics while it is not set.\<close>

definition with_ip :: "(string \<Rightarrow> apiRuntime \<Rightarrow> (unit, bool) outcome) \<Rightarrow> string \<Rightarrow> proxyContext \<Rightarrow> filter_result" where
  "with_ip allow msg c =
     (case (pc_realIP c, the_api c) of
        (Some ip, Some a) \<Rightarrow> obind (allow ip a) (\<lambda>ok. if ok then base_ok c else Ok (c, 403, Some (ErrFilter msg)))
      | _ \<Rightarrow> Panic)"

definition BlackListFilter :: filter where
  "BlackListFilter = (BaseFilter ''BLACKLIST'')\<lparr>fl_Pre := with_ip api_allowWithBlacklist ''Err, target ip in black list''\<rparr>"

definition WhiteListFilter :: filter where
  "WhiteListFilter = (BaseFilter ''WHITELIST'')\<lparr>fl_Pre := with_ip api_allowWithWhitelist ''Err, target ip not in in white list''\<rparr>"

definition ValidationFilter :: "env \<Rightarrow> filter" where
  "ValidationFilter en = (BaseFilter ''VALIDATION'')
     \<lparr>fl_Pre := (\<lambda>c. obind (node_validate (en_jget en) (en_rx en) (nd_validations (dp_node (pc_result c))) (pc_forwardReq c)) (\<lambda>ok.
        if ok then base_ok c else Ok (c, 400, Some (ErrFilter ''request validation failure''))))\<rparr>"

subsection \<open>Headers\<close>

definition hopHeaders :: "string list" where
  "hopHeaders = [''Connection'', ''Keep-Alive'', ''Proxy-Authenticate'', ''Proxy-Authorization'', ''Te'', ''Trailers'', ''Transfer-Encoding'']"

definition del_headers :: "string list \<Rightarrow> HttpReq \<Rightarrow> HttpReq" where
  "del_headers hs req = req\<lparr>rq_HeaderPeek := (\<lambda>n. if n \<in> set hs then [] else rq_HeaderPeek req n)\<rparr>"

definition headers_Pre :: "proxyContext \<Rightarrow> filter_result" where
  "headers_Pre c =
     (case the_dest c of
        None \<Rightarrow> Panic
      | Some s \<Rightarrow> base_ok (c\<lparr>pc_forwardReq := (del_headers hopHeaders (pc_forwardReq c))\<lparr>rq_Host := sv_Addr (sr_meta s)\<rparr>\<rparr>))"

text \<open>An API of several nodes leaves the header of the answer to the merge.\<close>

definition headers_Post :: "proxyContext \<Rightarrow> filter_result" where
  "headers_Post c =
     (case (dp_res (pc_result c), the_api c) of
        (Some r, Some a) \<Rightarrow>
          let r = r\<lparr>hp_headers := filter (\<lambda>h. fst h \<notin> set hopHeaders) (hp_headers r)\<rparr>;
              c = c\<lparr>pc_result := (pc_result c)\<lparr>dp_res := Some r\<rparr>\<rparr>
          in base_ok (if length (api_Nodes (ar_meta a)) = 1 then c\<lparr>pc_outHeader := hp_headers r\<rparr> else c)
      | _ \<Rightarrow> Panic)"

definition HeadersFilter :: filter where
  "HeadersFilter = (BaseFilter ''HEADER'')\<lparr>fl_Pre := headers_Pre, fl_Post := headers_Post\<rparr>"

definition xforward_Pre :: "proxyContext \<Rightarrow> filter_result" where
  "xforward_Pre c =
     (let prev = rq_HeaderPeek (pc_origin c) ''X-Forwarded-For'';
          v = (if prev = [] then rc_RemoteIP (pc_rc c) else prev @ '', '' @ rc_RemoteIP (pc_rc c));
          req = pc_forwardReq c
      in base_ok (c\<lparr>pc_forwardReq := req\<lparr>rq_HeaderPeek := (rq_HeaderPeek req)(''X-Forwarded-For'' := v)\<rparr>\<rparr>))"

definition XForwardForFilter :: filter where
  "XForwardForFilter = (BaseFilter ''XFORWARD'')\<lparr>fl_Pre := xforward_Pre\<rparr>"

definition cross_Pre :: "(string \<times> string) list \<Rightarrow> proxyContext \<Rightarrow> filter_result" where
  "cross_Pre hs c =
     (if rq_Method (pc_origin c) \<noteq> ''OPTIONS'' then base_ok c
      else Ok (c\<lparr>pc_using := Some \<lparr>hp_code = 200, hp_headers = hs, hp_contentType = [], hp_body = []\<rparr>\<rparr>, BreakFilterChainCode, None))"

definition CrossDomainFilter :: "(string \<times> string) list \<Rightarrow> filter" where
  "CrossDomainFilter hs = (BaseFilter ''CROSS'')\<lparr>fl_Pre := cross_Pre hs\<rparr>"

text \<open>The access log reads the client address, the response and the server.\<close>

definition access_Post :: "bool \<Rightarrow> proxyContext \<Rightarrow> filter_result" where
  "access_Post info c =
     (if info \<and> (pc_realIP c = None \<or> dp_res (pc_result c) = None \<or> the_dest c = None) then Panic else base_ok c)"

definition AccessFilter :: "bool \<Rightarrow> filter" where
  "AccessFilter info = (BaseFilter ''HTTP-ACCESS'')\<lparr>fl_Post := access_Post info\<rparr>"

subsection \<open>Caching\<close>

fun param_values :: "json_get \<Rightarrow> Parameter list \<Rightarrow> HttpReq \<Rightarrow> (unit, string list) outcome" where
  "param_values jget [] req = Ok []"
| "param_values jget (p # ps) req = obind (paramValue jget p req) (\<lambda>v. obind (param_values jget ps req) (\<lambda>vs. Ok (v # vs)))"

definition getID :: "json_get \<Rightarrow> HttpReq \<Rightarrow> Parameter list \<Rightarrow> (unit, string) outcome" where
  "getID jget req keys =
     (if keys = [] then Ok (rq_RequestURI req)
      else obind (param_values jget keys req) (\<lambda>vs. Ok (join_with (CHR ''-'') (rq_RequestURI req # vs))))"

definition getCachingID :: "env \<Rightarrow> Cache \<Rightarrow> HttpReq \<Rightarrow> (unit, bool \<times> string) outcome" where
  "getCachingID en ca req =
     (if ca_Conditions ca = [] then obind (getID (en_jget en) req (ca_Keys ca)) (\<lambda>i. Ok (True, i))
      else obind (all_conditions (en_jget en) (en_rx en) (ca_Conditions ca) req) (\<lambda>ok.
        if \<not> ok then Ok (False, []) else obind (getID (en_jget en) req (ca_Keys ca)) (\<lambda>i. Ok (True, i))))"

definition readable_at :: "(nat \<Rightarrow> ByteBuf option) \<Rightarrow> nat \<Rightarrow> uint64" where
  "readable_at bufs a = (case bufs a of None \<Rightarrow> 0 | Some b \<Rightarrow> word_of_int (Readable b))"

definition caching_Pre :: "env \<Rightarrow> proxyContext \<Rightarrow> filter_result" where
  "caching_Pre en c =
     (case dn_Cache (nd_meta (dp_node (pc_result c))) of
        None \<Rightarrow> base_ok c
      | Some ca \<Rightarrow> obind (getCachingID en ca (pc_forwardReq c)) (\<lambda>(ok, i).
          if \<not> ok then base_ok c
          else let sh = pc_sh c; (cache, v) = lru_Get i (sh_cache sh); c = c\<lparr>pc_sh := sh\<lparr>sh_cache := cache\<rparr>\<rparr>
               in base_ok (case v of None \<Rightarrow> c | Some a \<Rightarrow> c\<lparr>pc_cached := Some a\<rparr>)))"

text \<open>\<^verbatim>\<open>onEvicted\<close> schedules the release of every evicted buffer; a deadline schedules the removal of the entry.\<close>

definition cache_add :: "hooks \<Rightarrow> string \<Rightarrow> uint64 \<Rightarrow> httpResp \<Rightarrow> shared \<Rightarrow> (unit, shared) outcome" where
  "cache_add hk i deadline res sh =
     (case NewCachedValue (hk_alloc hk) (hk_visit hk res) of
        Ok b \<Rightarrow>
          let a = sh_next sh; bufs = (sh_bufs sh)(a \<mapsto> b); (cache, evicted) = lru_Add (readable_at bufs) i a (sh_cache sh)
          in Ok (sh\<lparr>sh_cache := cache, sh_bufs := bufs, sh_next := Suc a,
                    sh_removals := (if 0 < deadline then i # sh_removals sh else sh_removals sh),
                    sh_releases := map snd evicted @ sh_releases sh\<rparr>)
      | _ \<Rightarrow> Panic)"

definition caching_Post :: "env \<Rightarrow> hooks \<Rightarrow> proxyContext \<Rightarrow> filter_result" where
  "caching_Post en hk c =
     (case dn_Cache (nd_meta (dp_node (pc_result c))) of
        None \<Rightarrow> base_ok c
      | Some ca \<Rightarrow> obind (getCachingID en ca (pc_forwardReq c)) (\<lambda>(ok, i).
          if \<not> ok then base_ok c
          else (case dp_res (pc_result c) of
                  None \<Rightarrow> Panic
                | Some res \<Rightarrow> obind (cache_add hk i (ca_Deadline ca) res (pc_sh c)) (\<lambda>sh. base_ok (c\<lparr>pc_sh := sh\<rparr>)))))"

definition CachingFilter :: "env \<Rightarrow> hooks \<Rightarrow> filter" where
  "CachingFilter en hk = (BaseFilter ''CACHING'')\<lparr>fl_Pre := caching_Pre en, fl_Post := caching_Post en hk\<rparr>"

text \<open>The timers of the caching filter.\<close>

definition removeCache :: "string \<Rightarrow> shared \<Rightarrow> shared" where
  "removeCache i sh =
     (let (cache, evicted) = lru_Remove (readable_at (sh_bufs sh)) i (sh_cache sh)
      in sh\<lparr>sh_cache := cache, sh_releases := map snd evicted @ sh_releases sh, sh_removals := remove1 i (sh_removals sh)\<rparr>)"

definition doReleaseCacheBuf :: "nat \<Rightarrow> shared \<Rightarrow> shared" where
  "doReleaseCacheBuf a sh = sh\<lparr>sh_bufs := (sh_bufs sh)(a := map_option bb_Release (sh_bufs sh a)), sh_releases := remove1 a (sh_releases sh)\<rparr>"

subsection \<open>The chain\<close>

definition newFilter :: "env \<Rightarrow> hooks \<Rightarrow> string \<Rightarrow> filter option" where
  "newFilter en hk name =
     (let input = ToUpper name
      in if input = ''PREPARE'' then Some PrepareFilter
         else if input = ''HTTP-ACCESS'' then Some (AccessFilter (hk_info hk))
         else if input = ''HEADER'' then Some HeadersFilter
         else if input = ''XFORWARD'' then Some XForwardForFilter
         else if input = ''ANALYSIS'' then Some AnalysisFilter
         else if input = ''BLACKLIST'' then Some BlackListFilter
         else if input = ''WHITELIST'' then Some WhiteListFilter
         else if input = ''RATE-LIMITING'' then Some (RateLimitingFilter (en_now en))
         else if input = ''CIRCUIT-BREAKER'' then Some CircuitBreakeFilter
         else if input = ''VALIDATION'' then Some (ValidationFilter en)
         else if input = ''CACHING'' then Some (CachingFilter en hk)
         else if input = ''JWT'' then hk_jwt hk
         else if input = ''CROSS'' then Some (CrossDomainFilter (hk_cross hk))
         else if input = ''JS-ENGINE'' then Some (hk_js hk)
         else None)"

fun doPreFilters :: "filter list \<Rightarrow> proxyContext \<Rightarrow> (unit, proxyContext \<times> string \<times> int \<times> proxy_error option) outcome" where
  "doPreFilters [] c = Ok (c, [], 200, None)"
| "doPreFilters (f # fs) c =
     obind (fl_Pre f c) (\<lambda>(c, code, err).
       if err \<noteq> None \<or> code = BreakFilterChainCode then Ok (c, fl_Name f, code, err) else doPreFilters fs c)"

text \<open>\<^verbatim>\<open>doPostFilters\<close> walks the filters backwards and never sets the name it returns.\<close>

fun post_loop :: "filter list \<Rightarrow> proxyContext \<Rightarrow> (unit, proxyContext \<times> string \<times> int \<times> proxy_error option) outcome" where
  "post_loop [] c = Ok (c, [], 200, None)"
| "post_loop (f # fs) c =
     obind (fl_Post f c) (\<lambda>(c, code, err).
       if err \<noteq> None \<or> code = BreakFilterChainCode then Ok (c, [], code, err) else post_loop fs c)"

definition doPostFilters :: "filter list \<Rightarrow> proxyContext \<Rightarrow> (unit, proxyContext \<times> string \<times> int \<times> proxy_error option) outcome" where
  "doPostFilters fs c = post_loop (rev fs) c"

fun post_err_loop :: "int \<Rightarrow> proxy_error option \<Rightarrow> filter list \<Rightarrow> proxyContext \<Rightarrow> (unit, proxyContext) outcome" where
  "post_err_loop code err [] c = Ok c"
| "post_err_loop code err (f # fs) c = obind (fl_PostErr f code err c) (post_err_loop code err fs)"

definition doPostErrFilters :: "int \<Rightarrow> proxy_error option \<Rightarrow> filter list \<Rightarrow> proxyContext \<Rightarrow> (unit, proxyContext) outcome" where
  "doPostErrFilters code err fs c = post_err_loop code err (rev fs) c"

end
