(* ===== verification/Filter_Laws.thy ===== *)
theory Filter_Laws
  imports Filters
begin

text \<open>
  The contract of the filters. The locale \<open>gateway_filter\<close> states what the proxy relies on: every function of a filter
  returns, keeps the configuration of the dispatcher and the choice of the server, and keeps what the next filters
  need. Every filter of the program is shown to meet it, so that the chains of \<^verbatim>\<open>proxy/filters.go\<close> return.
\<close>

subsection \<open>What filters leave alone\<close>

definition sr_core :: "serverRuntime \<Rightarrow> Server \<times> int" where
  "sr_core s = (sr_meta s, pr_activeQPS s)"

definition ar_core :: "apiRuntime \<Rightarrow> API \<times> int \<times> ipSegment list \<times> ipSegment list" where
  "ar_core a = (ar_meta a, pr_activeQPS a, ar_parsedBlacklist a, ar_parsedWhitelist a)"

text \<open>Two dispatchers with the same configuration; circuits, limiters, barriers and statistics may differ.\<close>

definition frame :: "dispatcher \<Rightarrow> dispatcher \<Rightarrow> bool" where
  "frame d d' \<longleftrightarrow> metas sr_core (d_servers d') = metas sr_core (d_servers d) \<and> metas ar_core (d_apis d') = metas ar_core (d_apis d) \<and>
     d_clusters d' = d_clusters d \<and> d_routings d' = d_routings d \<and> d_binds d' = d_binds d \<and> d_route d' = d_route d \<and>
     d_proxies d' = d_proxies d \<and> d_plugins d' = d_plugins d \<and> d_applied d' = d_applied d"

lemma frame_refl [simp]: "frame d d"
  by (simp add: frame_def)

lemma frame_trans: "frame d d1 \<Longrightarrow> frame d1 d2 \<Longrightarrow> frame d d2"
  by (simp add: frame_def)

lemma metas_comp: "metas g (metas f xs) = metas (\<lambda>x. g (f x)) xs"
  by (simp add: metas_def case_prod_unfold)

lemma core_metas:
  assumes "metas sr_core xs = metas sr_core ys"
  shows "metas sr_meta xs = metas sr_meta ys" "(\<forall>x\<in>set xs. server_ok (snd x)) \<longleftrightarrow> (\<forall>x\<in>set ys. server_ok (snd x))"
    "fst ` set xs = fst ` set ys"
proof -
  have "metas fst (metas sr_core xs) = metas sr_meta xs" for xs by (simp add: metas_comp sr_core_def)
  then show "metas sr_meta xs = metas sr_meta ys" using assms by metis
  have "(\<forall>x\<in>set (metas sr_core xs). valid_server (fst (snd x)) \<and> rate_ok (snd (snd x))) \<longleftrightarrow> (\<forall>x\<in>set xs. server_ok (snd x))" for xs
    by (auto simp: metas_def sr_core_def server_ok_def)
  then show "(\<forall>x\<in>set xs. server_ok (snd x)) \<longleftrightarrow> (\<forall>x\<in>set ys. server_ok (snd x))" using assms by metis
  show "fst ` set xs = fst ` set ys" using arg_cong [OF assms, of "\<lambda>zs. fst ` set zs"] by simp
qed

lemma api_core_metas:
  assumes "metas ar_core xs = metas ar_core ys"
  shows "metas ar_meta xs = metas ar_meta ys" "(\<forall>x\<in>set xs. api_ok rx (snd x)) \<longleftrightarrow> (\<forall>x\<in>set ys. api_ok rx (snd x))"
    "fst ` set xs = fst ` set ys"
proof -
  have "metas fst (metas ar_core xs) = metas ar_meta xs" for xs by (simp add: metas_comp ar_core_def)
  then show "metas ar_meta xs = metas ar_meta ys" using assms by metis
  have "(\<forall>x\<in>set (metas ar_core xs). valid_api rx (fst (snd x)) \<and> rate_ok (fst (snd (snd x)))) \<longleftrightarrow> (\<forall>x\<in>set xs. api_ok rx (snd x))" for xs
    by (auto simp: metas_def ar_core_def api_ok_def)
  then show "(\<forall>x\<in>set xs. api_ok rx (snd x)) \<longleftrightarrow> (\<forall>x\<in>set ys. api_ok rx (snd x))" using assms by metis
  show "fst ` set xs = fst ` set ys" using arg_cong [OF assms, of "\<lambda>zs. fst ` set zs"] by simp
qed

lemma frame_good: "frame d d' \<Longrightarrow> good rx d \<Longrightarrow> good rx d'"
  using core_metas [of "d_servers d'" "d_servers d"] api_core_metas(1,3) [of "d_apis d'" "d_apis d"]
    api_core_metas(2) [of "d_apis d'" "d_apis d" rx]
  by (simp add: frame_def good_defs)

lemma frame_config: "frame d d' \<Longrightarrow> abs_config d' = abs_config d"
  using core_metas(1) [of "d_servers d'" "d_servers d"] api_core_metas(1) [of "d_apis d'" "d_apis d"]
  by (simp add: frame_def abs_config_def)

subsection \<open>What a filter needs\<close>

text \<open>A protected resource that can pass \<open>n\<close> more filters: with a circuit breaker it has a barrier, and the counter
  of the barrier has room.\<close>

definition prot_ok :: "nat \<Rightarrow> 'a protectedRuntime_scheme \<Rightarrow> bool" where
  "prot_ok n p \<longleftrightarrow> (pr_cb p \<noteq> None \<longrightarrow> (\<exists>b. pr_barrier p = Some b \<and> barrier_ok b \<and> unat (rb_op b) + n < 2 ^ 63))"

definition cb_ok :: "nat \<Rightarrow> cbState \<Rightarrow> bool" where
  "cb_ok n s \<longleftrightarrow> prot_ok n (cs_api s) \<and> prot_ok n (cs_dest s) \<and> pr_limiter (cs_dest s) \<noteq> None"

definition cb_keep :: "cbState \<Rightarrow> cbState \<Rightarrow> bool" where
  "cb_keep s s' \<longleftrightarrow> pr_activeQPS (cs_api s') = pr_activeQPS (cs_api s) \<and> pr_activeQPS (cs_dest s') = pr_activeQPS (cs_dest s)"

lemma prot_ok_le: "prot_ok n p \<Longrightarrow> m \<le> n \<Longrightarrow> prot_ok m p"
  by (fastforce simp: prot_ok_def)

lemma prot_ok_circuit [simp]:
  "prot_ok n (circuitToClose p) = prot_ok n p" "prot_ok n (circuitToOpen p) = prot_ok n p"
  "pr_limiter (circuitToClose p) = pr_limiter p" "pr_limiter (circuitToOpen p) = pr_limiter p"
  "pr_activeQPS (circuitToClose p) = pr_activeQPS p" "pr_activeQPS (circuitToOpen p) = pr_activeQPS p"
  by (simp_all add: prot_ok_def circuitToClose_def circuitToOpen_def)

lemma cb_ok_simps:
  "cb_ok n (changeCircuitStatusToClose s) = cb_ok n s" "cb_keep s (changeCircuitStatusToClose s)"
  "cb_ok n (changeCircuitStatusToOpen s) = cb_ok n s" "cb_keep s (changeCircuitStatusToOpen s)"
  "cb_ok n (cb_reject s) = cb_ok n s" "cb_keep s' (cb_reject s) = cb_keep s' s" "cb_keep s s"
  "cb_ok n (s\<lparr>cs_analysis := a\<rparr>) = cb_ok n s" "cb_keep s' (s\<lparr>cs_analysis := a\<rparr>) = cb_keep s' s"
  by (simp_all add: cb_ok_def cb_keep_def changeCircuitStatusToClose_def changeCircuitStatusToOpen_def cb_reject_def Let_def)

lemma cb_ok_le: "cb_ok n s \<Longrightarrow> m \<le> n \<Longrightarrow> cb_ok m s"
  using prot_ok_le by (auto simp: cb_ok_def)

lemma Allow_room:
  assumes "barrier_ok b" "unat (rb_op b) + Suc n < 2 ^ 63"
  shows "\<exists>b' v. Allow b = Ok (b', v) \<and> barrier_ok b' \<and> unat (rb_op b') + n < 2 ^ 63"
proof -
  have "unat (rb_op b + 1) = Suc (unat (rb_op b))" using assms(2) unat_add_lem [of "rb_op b" 1] by simp
  then show ?thesis using Allow_eq [OF assms(1)] assms by (auto simp: barrier_ok_def)
qed

lemma set_barrier_ok:
  assumes "cb_ok n s" "barrier_ok b" "unat (rb_op b) + n < 2 ^ 63"
  shows "cb_ok n (set_barrier b s) \<and> cb_keep s (set_barrier b s)"
  using assms by (auto simp: cb_ok_def set_barrier_def cb_keep_def prot_ok_def)

lemma cb_Pre_run:
  assumes "cb_ok (Suc n) s"
  shows "\<exists>s' code err. cb_Pre s = Ok (s', code, err) \<and> cb_ok n s' \<and> cb_keep s s'"
proof (cases "circuitBreaker s")
  case (Pair cb barrier)
  have n: "cb_ok n s" using cb_ok_le [OF assms] by simp
  show ?thesis
  proof (cases cb)
    case None
    then show ?thesis using n Pair by (simp add: cb_Pre_def cb_ok_simps)
  next
    case (Some x)
    then obtain b where b: "barrier = Some b" "barrier_ok b" "unat (rb_op b) + Suc n < 2 ^ 63"
      using assms Pair by (auto simp: circuitBreaker_def cb_ok_def prot_ok_def split: if_splits)
    obtain b' v where a: "Allow b = Ok (b', v)" "barrier_ok b'" "unat (rb_op b') + n < 2 ^ 63"
      using Allow_room [OF b(2,3)] by blast
    show ?thesis
      using Pair Some b(1) a n set_barrier_ok [OF n a(2,3)] by (cases "circuitStatus s") (auto simp: cb_Pre_def cb_ok_simps)
  qed
qed

lemma cb_post_ok: "cb_ok n s \<Longrightarrow> cb_ok n (cb_Post s) \<and> cb_keep s (cb_Post s)"
  "cb_ok n s \<Longrightarrow> cb_ok n (cb_PostErr err s) \<and> cb_keep s (cb_PostErr err s)"
  by (auto simp: cb_Post_def cb_PostErr_def cb_ok_simps split: prod.splits option.splits)

lemma rate_Pre_run:
  assumes "cb_ok n s"
  shows "\<exists>s' code err. rate_Pre now s = Ok (s', code, err) \<and> cb_ok n s' \<and> cb_keep s s'"
proof -
  obtain l where l: "rateLimiter_of s = Some l"
    using assms by (cases "pr_limiter (cs_api s)") (auto simp: rateLimiter_of_def cb_ok_def)
  show ?thesis using assms l
    by (cases "rl_do now 1 l") (auto simp: rate_Pre_def cb_ok_def cb_keep_def prot_ok_def Let_def)
qed

definition tables_ok :: "nat \<Rightarrow> dispatcher \<Rightarrow> bool" where
  "tables_ok n d \<longleftrightarrow> (\<forall>x\<in>set (d_servers d). prot_ok n (snd x) \<and> pr_limiter (snd x) \<noteq> None) \<and> (\<forall>x\<in>set (d_apis d). prot_ok n (snd x))"

text \<open>The address of the client has the segments the lists of the API ask for.\<close>

definition ips_ok :: "string \<Rightarrow> apiRuntime \<Rightarrow> bool" where
  "ips_ok ip a \<longleftrightarrow> (\<exists>b. any_matches (ar_parsedBlacklist a) ip = Ok b) \<and> (\<exists>b. any_matches (ar_parsedWhitelist a) ip = Ok b)"

definition params_ok :: "DispatchNode \<Rightarrow> apiValidation list \<Rightarrow> HttpReq \<Rightarrow> bool" where
  "params_ok node vs req \<longleftrightarrow> (\<forall>v\<in>set vs. param_ok req (va_Parameter (av_meta v))) \<and>
     (\<forall>ca. dn_Cache node = Some ca \<longrightarrow> (\<forall>p\<in>set (ca_Keys ca). param_ok req p) \<and> (\<forall>co\<in>set (ca_Conditions ca). param_ok req (co_Parameter co)))"

text \<open>Every buffer can be read, which empties it, and every address in the cache is that of a buffer.\<close>

definition buf_readable :: "ByteBuf \<Rightarrow> bool" where
  "buf_readable b \<longleftrightarrow> (\<exists>b' r. ReadCachedValueTo b = Ok (b', r) \<and> buf_inv b' \<and> content b' = [])"

lemma empty_readable: "buf_inv b \<Longrightarrow> content b = [] \<Longrightarrow> buf_readable b"
  by (simp add: buf_readable_def read_empty)

definition bufs_ok :: "shared \<Rightarrow> bool" where
  "bufs_ok sh \<longleftrightarrow> (\<forall>a b. sh_bufs sh a = Some b \<longrightarrow> buf_readable b) \<and> (\<forall>(e, k, a)\<in>set (ll (sh_cache sh)). sh_bufs sh a \<noteq> None)"

definition ctx_ok :: "nat \<Rightarrow> proxyContext \<Rightarrow> bool" where
  "ctx_ok n c \<longleftrightarrow> pc_realIP c = Some (ClientIP (pc_rc c)) \<and> tables_ok n (sh_d (pc_sh c)) \<and>
     (\<exists>a. the_api c = Some a \<and> ips_ok (ClientIP (pc_rc c)) a) \<and> (\<exists>s. the_dest c = Some s) \<and>
     params_ok (nd_meta (dp_node (pc_result c))) (nd_validations (dp_node (pc_result c))) (pc_forwardReq c) \<and>
     bufs_ok (pc_sh c) \<and> (\<forall>a. pc_cached c = Some a \<longrightarrow> sh_bufs (pc_sh c) a \<noteq> None)"

text \<open>What a filter must not change.\<close>

definition same_dn :: "dispatchNode \<Rightarrow> dispatchNode \<Rightarrow> bool" where
  "same_dn dn dn' \<longleftrightarrow> dp_idx dn' = dp_idx dn \<and> dp_api dn' = dp_api dn \<and> dp_node dn' = dp_node dn \<and> dp_dest dn' = dp_dest dn \<and>
     dp_copyTo dn' = dp_copyTo dn \<and> dp_err dn' = dp_err dn \<and> dp_code dn' = dp_code dn"

definition kept :: "proxyContext \<Rightarrow> proxyContext \<Rightarrow> bool" where
  "kept c c' \<longleftrightarrow> frame (sh_d (pc_sh c)) (sh_d (pc_sh c')) \<and> same_dn (pc_result c) (pc_result c') \<and>
     pc_rc c' = pc_rc c \<and> pc_origin c' = pc_origin c"

lemma kept_refl [simp]: "kept c c"
  by (simp add: kept_def same_dn_def)

lemma kept_trans: "kept c c1 \<Longrightarrow> kept c1 c2 \<Longrightarrow> kept c c2"
  using frame_trans [of "sh_d (pc_sh c)" "sh_d (pc_sh c1)" "sh_d (pc_sh c2)"] by (simp add: kept_def same_dn_def)

subsection \<open>The contract of a filter\<close>

text \<open>\<open>I n\<close> says that \<open>n\<close> more calls of filters are safe. A filter returns on every such context, keeps it safe for
  the remaining calls, and keeps the configuration and the dispatch node; after a call it keeps the status code
  of the response.\<close>

locale gateway_filter =
  fixes I :: "nat \<Rightarrow> proxyContext \<Rightarrow> bool" and f :: filter
  assumes fewer: "I (Suc n) c \<Longrightarrow> I n c"
    and pre: "I (Suc n) c \<Longrightarrow> \<exists>c' code err. fl_Pre f c = Ok (c', code, err) \<and> I n c' \<and> kept c c'"
    and post: "I (Suc n) c \<Longrightarrow> dp_res (pc_result c) = Some r \<Longrightarrow>
      \<exists>c' code err r'. fl_Post f c = Ok (c', code, err) \<and> I n c' \<and> kept c c' \<and> dp_res (pc_result c') = Some r' \<and> hp_code r' = hp_code r"
    and post_err: "I (Suc n) c \<Longrightarrow> \<exists>c'. fl_PostErr f code err c = Ok c' \<and> I n c' \<and> kept c c'"
begin

lemma fewer_add: "I (m + n) c \<Longrightarrow> I n c"
  by (induction m) (auto dest: fewer)

end

lemma pre_chain:
  assumes "\<forall>f\<in>set fs. gateway_filter I f" "I (length fs + n) c"
  shows "\<exists>c' name code err. doPreFilters fs c = Ok (c', name, code, err) \<and> I n c' \<and> kept c c'"
  using assms
proof (induction fs arbitrary: c)
  case (Cons f fs)
  then have g: "gateway_filter I f" by simp
  obtain c1 code err where c1: "fl_Pre f c = Ok (c1, code, err)" "I (length fs + n) c1" "kept c c1"
    using gateway_filter.pre [OF g, of "length fs + n" c] Cons.prems(2) by auto
  show ?case
    using Cons.IH [OF _ c1(2)] Cons.prems(1) c1 gateway_filter.fewer_add [OF g c1(2)] kept_trans [OF c1(3)] by fastforce
qed simp

lemma post_chain:
  assumes "\<forall>f\<in>set fs. gateway_filter I f" "I (length fs + n) c" "dp_res (pc_result c) = Some r"
  shows "\<exists>c' name code err r'. post_loop fs c = Ok (c', name, code, err) \<and> I n c' \<and> kept c c' \<and>
    dp_res (pc_result c') = Some r' \<and> hp_code r' = hp_code r"
  using assms
proof (induction fs arbitrary: c r)
  case (Cons f fs)
  then have g: "gateway_filter I f" by simp
  obtain c1 code err r1 where c1: "fl_Post f c = Ok (c1, code, err)" "I (length fs + n) c1" "kept c c1"
      "dp_res (pc_result c1) = Some r1" "hp_code r1 = hp_code r"
    using gateway_filter.post [OF g, of "length fs + n" c r] Cons.prems(2,3) by auto
  show ?case
  proof (cases "err \<noteq> None \<or> code = BreakFilterChainCode")
    case True
    then show ?thesis using c1 gateway_filter.fewer_add [OF g c1(2)] by auto
  next
    case False
    obtain c2 name code2 err2 r2 where "post_loop fs c1 = Ok (c2, name, code2, err2)" "I n c2" "kept c1 c2"
        "dp_res (pc_result c2) = Some r2" "hp_code r2 = hp_code r1"
      using Cons.IH [OF _ c1(2,4)] Cons.prems(1) by auto
    then show ?thesis using c1 False kept_trans [OF c1(3)] by auto
  qed
qed auto

lemma post_err_chain:
  assumes "\<forall>f\<in>set fs. gateway_filter I f" "I (length fs + n) c"
  shows "\<exists>c'. post_err_loop code err fs c = Ok c' \<and> I n c' \<and> kept c c'"
  using assms
proof (induction fs arbitrary: c)
  case (Cons f fs)
  then have g: "gateway_filter I f" by simp
  obtain c1 where c1: "fl_PostErr f code err c = Ok c1" "I (length fs + n) c1" "kept c c1"
    using gateway_filter.post_err [OF g, of "length fs + n" c code err] Cons.prems(2) by auto
  obtain c2 where "post_err_loop code err fs c1 = Ok c2" "I n c2" "kept c1 c2"
    using Cons.IH [OF _ c1(2)] Cons.prems(1) by auto
  then show ?case using c1 kept_trans [OF c1(3)] by auto
qed simp

subsection \<open>The filters meet the contract\<close>

lemma put_protected_simps [simp]:
  "prot_ok n (put_protected p x) = prot_ok n p" "pr_limiter (put_protected p x) = pr_limiter p"
  "sr_core (put_protected p s) = (sr_meta s, pr_activeQPS p)"
  "ar_core (put_protected p a) = (ar_meta a, pr_activeQPS p, ar_parsedBlacklist a, ar_parsedWhitelist a)"
  "ips_ok ip (put_protected p a) = ips_ok ip a"
  by (simp_all add: put_protected_def prot_ok_def sr_core_def ar_core_def ips_ok_def)

lemma truncate_simps [simp]:
  "prot_ok n (protectedRuntime.truncate x) = prot_ok n x" "pr_limiter (protectedRuntime.truncate x) = pr_limiter x"
  "pr_activeQPS (protectedRuntime.truncate x) = pr_activeQPS x"
  by (simp_all add: protectedRuntime.truncate_def prot_ok_def)

lemma the_api_shared [simp]:
  "sh_d sh' = sh_d (pc_sh c) \<Longrightarrow> the_api (c\<lparr>pc_sh := sh'\<rparr>) = the_api c"
  "sh_d sh' = sh_d (pc_sh c) \<Longrightarrow> the_dest (c\<lparr>pc_sh := sh'\<rparr>) = the_dest c"
  "the_api (c\<lparr>pc_cached := x\<rparr>) = the_api c" "the_dest (c\<lparr>pc_cached := x\<rparr>) = the_dest c"
  by (simp_all add: the_api_def the_dest_def split: option.splits)

lemma tables_ok_le: "tables_ok n d \<Longrightarrow> m \<le> n \<Longrightarrow> tables_ok m d"
  unfolding tables_ok_def by (blast intro: prot_ok_le)

lemma ctx_ok_fewer: "ctx_ok (Suc n) c \<Longrightarrow> ctx_ok n c"
  using tables_ok_le [of "Suc n" _ n] by (auto simp: ctx_ok_def)

lemma put_tables:
  assumes "tables_ok n d" "map_of (d_apis d) i = Some a" "map_of (d_servers d) j = Some v"
    and "cb_ok n s" "pr_activeQPS (cs_api s) = pr_activeQPS a" "pr_activeQPS (cs_dest s) = pr_activeQPS v"
  defines "d' \<equiv> d\<lparr>d_apis := AList.update i (put_protected (cs_api s) a) (d_apis d),
      d_servers := AList.update j (put_protected (cs_dest s) v) (d_servers d), d_analysis := cs_analysis s\<rparr>"
  shows "frame d d' \<and> tables_ok n d'"
proof -
  have "map_of (metas ar_core (d_apis d)) i = Some (ar_core (put_protected (cs_api s) a))"
    "map_of (metas sr_core (d_servers d)) j = Some (sr_core (put_protected (cs_dest s) v))"
    using assms(2,3,5,6) by (simp_all add: map_of_metas ar_core_def sr_core_def put_protected_def)
  then have "frame d d'" by (simp add: frame_def d'_def metas_update_same)
  moreover have "\<forall>x\<in>set (d_apis d'). prot_ok n (snd x)" unfolding d'_def
    using update_all [of "d_apis d" "prot_ok n" "put_protected (cs_api s) a" i] assms(1,4) by (simp add: tables_ok_def cb_ok_def)
  moreover have "\<forall>x\<in>set (d_servers d'). prot_ok n (snd x) \<and> pr_limiter (snd x) \<noteq> None" unfolding d'_def
    using update_all [of "d_servers d" "\<lambda>y. prot_ok n y \<and> pr_limiter y \<noteq> None" "put_protected (cs_dest s) v" j] assms(1,4) by (simp add: tables_ok_def cb_ok_def)
  ultimately show ?thesis by (simp add: tables_ok_def)
qed

lemma with_cb_run:
  assumes "ctx_ok m c" "\<And>s. cb_ok m s \<Longrightarrow> \<exists>s' r. f s = Ok (s', r) \<and> cb_ok n s' \<and> cb_keep s s'" "n \<le> m"
  shows "\<exists>c' r. with_cb f c = Ok (c', r) \<and> ctx_ok n c' \<and> kept c c' \<and> pc_result c' = pc_result c"
proof -
  let ?d = "sh_d (pc_sh c)"
  obtain a v j where a: "the_api c = Some a" "the_dest c = Some v" "dp_dest (pc_result c) = Some j"
    using assms(1) by (auto simp: ctx_ok_def the_dest_def split: option.splits)
  have t: "map_of (d_apis ?d) (dp_api (pc_result c)) = Some a" "map_of (d_servers ?d) j = Some v"
    using a by (simp_all add: the_api_def the_dest_def)
  have tb: "tables_ok m ?d" using assms(1) by (simp add: ctx_ok_def)
  then have e: "prot_ok m a" "prot_ok m v" "pr_limiter v \<noteq> None"
    using map_of_SomeD [OF t(1)] map_of_SomeD [OF t(2)] unfolding tables_ok_def by fastforce+
  define s where "s = \<lparr>cs_api = protectedRuntime.truncate a, cs_dest = protectedRuntime.truncate v, cs_analysis = d_analysis ?d\<rparr>"
  have "cb_ok m s" using e by (simp add: s_def cb_ok_def)
  then obtain s' r where s': "f s = Ok (s', r)" "cb_ok n s'" "cb_keep s s'" using assms(2) by blast
  define d' where "d' = ?d\<lparr>d_apis := AList.update (dp_api (pc_result c)) (put_protected (cs_api s') a) (d_apis ?d),
      d_servers := AList.update j (put_protected (cs_dest s') v) (d_servers ?d), d_analysis := cs_analysis s'\<rparr>"
  have d': "frame ?d d' \<and> tables_ok n d'" unfolding d'_def
    by (rule put_tables [OF tables_ok_le [OF tb assms(3)] t s'(2)]) (use s'(3) in \<open>simp_all add: cb_keep_def s_def\<close>)
  let ?c = "c\<lparr>pc_sh := (pc_sh c)\<lparr>sh_d := d'\<rparr>\<rparr>"
  have "with_cb f c = Ok (?c, r)" using a s' by (simp add: with_cb_def cb_view_def cb_put_def s_def d'_def Let_def)
  moreover have "the_api ?c = Some (put_protected (cs_api s') a)" "the_dest ?c = Some (put_protected (cs_dest s') v)"
    using a(3) by (simp_all add: the_api_def the_dest_def d'_def AList.update_conv')
  then have "ctx_ok n ?c" using assms(1) a(1) d' by (simp add: ctx_ok_def bufs_ok_def)
  moreover have "kept c ?c" using d' by (simp add: kept_def same_dn_def)
  ultimately show ?thesis by auto
qed

subsubsection \<open>The caching filter\<close>

lemma param_values_run: "\<forall>p\<in>set ps. param_ok req p \<Longrightarrow> \<exists>vs. param_values jget ps req = Ok vs"
proof (induction ps)
  case (Cons p ps)
  then show ?case using paramValue_total [of req p jget] by auto
qed simp

lemma getCachingID_run:
  assumes "\<forall>p\<in>set (ca_Keys ca). param_ok req p" "\<forall>co\<in>set (ca_Conditions ca). param_ok req (co_Parameter co)"
  shows "\<exists>ok i. getCachingID en ca req = Ok (ok, i)"
  using param_values_run [OF assms(1), of "en_jget en"] all_conditions_total [OF assms(2), of "en_jget en" "en_rx en"]
  by (auto simp: getCachingID_def getID_def)

lemma lru_Get_elements:
  "set (ll (fst (lru_Get k c))) \<subseteq> set (ll c)" "snd (lru_Get k c) = Some v \<Longrightarrow> \<exists>e k'. (e, k', v) \<in> set (ll c)"
  by (auto simp: lru_Get_def MoveToFront_def entry_of_def split: option.splits dest!: map_of_SomeD)

lemma lru_Add_elements: "(e, k', w) \<in> set (ll (fst (lru_Add rd k v c))) \<Longrightarrow> w = v \<or> (e, k', w) \<in> set (ll c)"
  by (auto simp: lru_Add_def removeOldest_def removeElement_def MoveToFront_def Let_def split: option.splits if_splits prod.splits)

definition hooks_ok :: "hooks \<Rightarrow> bool" where
  "hooks_ok hk \<longleftrightarrow> mem_alloc (hk_alloc hk) \<and> (\<forall>r. resp_ok (hk_visit hk r))"

lemma cache_add_run:
  assumes "hooks_ok hk" "bufs_ok sh"
  shows "\<exists>sh'. cache_add hk i dl res sh = Ok sh' \<and> bufs_ok sh' \<and> sh_d sh' = sh_d sh \<and>
    (\<forall>a. sh_bufs sh a \<noteq> None \<longrightarrow> sh_bufs sh' a \<noteq> None)"
proof -
  obtain b where b: "NewCachedValue (hk_alloc hk) (hk_visit hk res) = Ok b" "buf_readable b"
    using cached_value_run [of "hk_alloc hk" "hk_visit hk res"] assms(1) by (auto simp: hooks_ok_def buf_readable_def)
  define bufs where "bufs = (sh_bufs sh)(sh_next sh \<mapsto> b)"
  define sh' where "sh' = sh\<lparr>sh_cache := fst (lru_Add (readable_at bufs) i (sh_next sh) (sh_cache sh)), sh_bufs := bufs, sh_next := Suc (sh_next sh),
      sh_removals := (if 0 < dl then i # sh_removals sh else sh_removals sh),
      sh_releases := map snd (snd (lru_Add (readable_at bufs) i (sh_next sh) (sh_cache sh))) @ sh_releases sh\<rparr>"
  have "cache_add hk i dl res sh = Ok sh'" using b(1) by (simp add: cache_add_def sh'_def bufs_def Let_def case_prod_unfold)
  moreover have "bufs_ok sh'" unfolding bufs_ok_def
  proof (intro conjI allI impI ballI)
    show "buf_readable b'" if "sh_bufs sh' a = Some b'" for a b'
      using that b(2) assms(2) by (auto simp: sh'_def bufs_def bufs_ok_def split: if_splits)
    fix x assume "x \<in> set (ll (sh_cache sh'))"
    moreover obtain e k a where x: "x = (e, k, a)" by (cases x)
    ultimately have "a = sh_next sh \<or> (e, k, a) \<in> set (ll (sh_cache sh))" using lru_Add_elements by (fastforce simp: sh'_def)
    then show "case x of (e, k, a) \<Rightarrow> sh_bufs sh' a \<noteq> None" using assms(2) x by (auto simp: sh'_def bufs_def bufs_ok_def)
  qed
  ultimately show ?thesis by (auto simp: sh'_def bufs_def)
qed

lemma caching_Pre_run:
  assumes "ctx_ok n c"
  shows "\<exists>c' code err. caching_Pre en c = Ok (c', code, err) \<and> ctx_ok n c' \<and> kept c c'"
proof (cases "dn_Cache (nd_meta (dp_node (pc_result c)))")
  case (Some ca)
  have p: "\<forall>p\<in>set (ca_Keys ca). param_ok (pc_forwardReq c) p" "\<forall>co\<in>set (ca_Conditions ca). param_ok (pc_forwardReq c) (co_Parameter co)"
    using assms Some by (auto simp: ctx_ok_def params_ok_def)
  obtain ok i where i: "getCachingID en ca (pc_forwardReq c) = Ok (ok, i)" using getCachingID_run [OF p] by blast
  let ?g = "lru_Get i (sh_cache (pc_sh c))"
  define c1 where "c1 = c\<lparr>pc_sh := (pc_sh c)\<lparr>sh_cache := fst ?g\<rparr>\<rparr>"
  have b: "\<forall>(e, k, a)\<in>set (ll (sh_cache (pc_sh c))). sh_bufs (pc_sh c) a \<noteq> None" using assms by (simp add: ctx_ok_def bufs_ok_def)
  then have "bufs_ok (pc_sh c1)" using assms lru_Get_elements(1) [of i "sh_cache (pc_sh c)"] by (auto simp: ctx_ok_def bufs_ok_def c1_def)
  then have c1: "ctx_ok n c1" "kept c c1"
    using assms by (simp_all add: ctx_ok_def c1_def kept_def same_dn_def)
  show ?thesis
  proof (cases "ok \<and> snd ?g \<noteq> None")
    case True
    then obtain a where a: "snd ?g = Some a" by auto
    have "sh_bufs (pc_sh c1) a \<noteq> None" using lru_Get_elements(2) [OF a] b by (auto simp: c1_def)
    then have "ctx_ok n (c1\<lparr>pc_cached := Some a\<rparr>)" "kept c (c1\<lparr>pc_cached := Some a\<rparr>)"
      using c1 by (simp_all add: ctx_ok_def kept_def)
    moreover have "caching_Pre en c = base_ok (c1\<lparr>pc_cached := Some a\<rparr>)"
      using Some i True a by (simp add: caching_Pre_def c1_def case_prod_unfold Let_def)
    ultimately show ?thesis by (simp add: base_ok_def)
  next
    case False
    then have "caching_Pre en c = base_ok (if ok then c1 else c)"
      using Some i by (auto simp: caching_Pre_def c1_def case_prod_unfold Let_def)
    then show ?thesis using c1 assms by (simp add: base_ok_def)
  qed
qed (use assms in \<open>simp add: caching_Pre_def base_ok_def\<close>)

lemma caching_Post_run:
  assumes "hooks_ok hk" "ctx_ok n c" "dp_res (pc_result c) = Some r"
  shows "\<exists>c'. caching_Post en hk c = Ok (c', 200, None) \<and> ctx_ok n c' \<and> kept c c' \<and> dp_res (pc_result c') = Some r"
proof (cases "dn_Cache (nd_meta (dp_node (pc_result c)))")
  case (Some ca)
  have p: "\<forall>p\<in>set (ca_Keys ca). param_ok (pc_forwardReq c) p" "\<forall>co\<in>set (ca_Conditions ca). param_ok (pc_forwardReq c) (co_Parameter co)"
    using assms Some by (auto simp: ctx_ok_def params_ok_def)
  obtain ok i where i: "getCachingID en ca (pc_forwardReq c) = Ok (ok, i)" using getCachingID_run [OF p] by blast
  have "bufs_ok (pc_sh c)" using assms(2) by (simp add: ctx_ok_def)
  then obtain sh' where sh': "cache_add hk i (ca_Deadline ca) r (pc_sh c) = Ok sh'" "bufs_ok sh'" "sh_d sh' = sh_d (pc_sh c)"
      "\<forall>a. sh_bufs (pc_sh c) a \<noteq> None \<longrightarrow> sh_bufs sh' a \<noteq> None" using cache_add_run [OF assms(1)] by blast
  have "ctx_ok n (c\<lparr>pc_sh := sh'\<rparr>)" "kept c (c\<lparr>pc_sh := sh'\<rparr>)"
    using assms(2) sh'(2-4) by (simp_all add: ctx_ok_def kept_def same_dn_def)
  then show ?thesis using Some i sh'(1) assms(2,3) by (auto simp: caching_Post_def base_ok_def)
qed (use assms in \<open>simp add: caching_Post_def base_ok_def\<close>)

subsubsection \<open>The other filters\<close>

lemma kept_request [simp]: "kept c (c\<lparr>pc_forwardReq := q\<rparr>)" "kept c (c\<lparr>pc_realIP := p\<rparr>)" "kept c (c\<lparr>pc_using := u\<rparr>)"
  "kept c (c\<lparr>pc_outHeader := h\<rparr>)" "kept c (c\<lparr>pc_endAt := t\<rparr>)" "kept c (c\<lparr>pc_result := (pc_result c)\<lparr>dp_res := r\<rparr>\<rparr>)"
  "kept c (c\<lparr>pc_result := (pc_result c)\<lparr>dp_res := r\<rparr>, pc_outHeader := h\<rparr>)"
  by (simp_all add: kept_def same_dn_def)

lemma the_api_request [simp]:
  "the_api (c\<lparr>pc_forwardReq := q\<rparr>) = the_api c" "the_dest (c\<lparr>pc_forwardReq := q\<rparr>) = the_dest c"
  "the_api (c\<lparr>pc_realIP := p\<rparr>) = the_api c" "the_dest (c\<lparr>pc_realIP := p\<rparr>) = the_dest c"
  "the_api (c\<lparr>pc_using := u\<rparr>) = the_api c" "the_dest (c\<lparr>pc_using := u\<rparr>) = the_dest c"
  "the_api (c\<lparr>pc_outHeader := h\<rparr>) = the_api c" "the_dest (c\<lparr>pc_outHeader := h\<rparr>) = the_dest c"
  "the_api (c\<lparr>pc_result := (pc_result c)\<lparr>dp_res := r\<rparr>\<rparr>) = the_api c"
  "the_dest (c\<lparr>pc_result := (pc_result c)\<lparr>dp_res := r\<rparr>\<rparr>) = the_dest c"
  "the_api (c\<lparr>pc_result := (pc_result c)\<lparr>dp_res := r\<rparr>, pc_outHeader := h\<rparr>) = the_api c"
  "the_dest (c\<lparr>pc_result := (pc_result c)\<lparr>dp_res := r\<rparr>, pc_outHeader := h\<rparr>) = the_dest c"
  by (simp_all add: the_api_def the_dest_def split: option.splits)

lemma ctx_ok_request [simp]:
  "ctx_ok n (c\<lparr>pc_using := u\<rparr>) = ctx_ok n c" "ctx_ok n (c\<lparr>pc_outHeader := h\<rparr>) = ctx_ok n c"
  "ctx_ok n (c\<lparr>pc_result := (pc_result c)\<lparr>dp_res := r\<rparr>\<rparr>) = ctx_ok n c"
  "ctx_ok n (c\<lparr>pc_result := (pc_result c)\<lparr>dp_res := r\<rparr>, pc_outHeader := h\<rparr>) = ctx_ok n c"
  by (simp_all add: ctx_ok_def)

text \<open>A filter may change the headers and the host of the request, not its path.\<close>

lemma ctx_ok_headers: "ctx_ok n c \<Longrightarrow> rq_Path q = rq_Path (pc_forwardReq c) \<Longrightarrow> ctx_ok n (c\<lparr>pc_forwardReq := q\<rparr>)"
  by (simp add: ctx_ok_def params_ok_def param_ok_def)

lemma simple_filter:
  assumes "\<And>n c. ctx_ok n c \<Longrightarrow> \<exists>c' code err. fl_Pre f c = Ok (c', code, err) \<and> ctx_ok n c' \<and> kept c c'"
    and "\<And>n c r. ctx_ok n c \<Longrightarrow> dp_res (pc_result c) = Some r \<Longrightarrow> \<exists>c' code err r'. fl_Post f c = Ok (c', code, err) \<and> ctx_ok n c' \<and> kept c c' \<and>
      dp_res (pc_result c') = Some r' \<and> hp_code r' = hp_code r"
    and "\<And>code err c. fl_PostErr f code err c = Ok c"
  shows "gateway_filter ctx_ok f"
  using assms ctx_ok_fewer by unfold_locales (blast, blast, blast, fastforce)

lemma pre_filter:
  assumes "\<And>n c. ctx_ok n c \<Longrightarrow> \<exists>c' code err. h c = Ok (c', code, err) \<and> ctx_ok n c' \<and> kept c c'"
  shows "gateway_filter ctx_ok ((BaseFilter name)\<lparr>fl_Pre := h\<rparr>)"
  using assms by (intro simple_filter) (auto simp: BaseFilter_def base_ok_def)

interpretation prepare: gateway_filter ctx_ok PrepareFilter
  unfolding PrepareFilter_def by (rule pre_filter) (auto simp: base_ok_def ctx_ok_def)

interpretation xforward: gateway_filter ctx_ok XForwardForFilter
  unfolding XForwardForFilter_def by (rule pre_filter) (auto simp: xforward_Pre_def base_ok_def Let_def intro!: ctx_ok_headers)

interpretation cross: gateway_filter ctx_ok "CrossDomainFilter hs" for hs
  unfolding CrossDomainFilter_def by (rule pre_filter) (auto simp: cross_Pre_def base_ok_def)

interpretation access: gateway_filter ctx_ok "AccessFilter info" for info
  unfolding AccessFilter_def by (rule simple_filter) (auto simp: BaseFilter_def base_ok_def access_Post_def ctx_ok_def)

interpretation headers: gateway_filter ctx_ok HeadersFilter
proof (rule simple_filter)
  fix n c
  assume c: "ctx_ok n c"
  then obtain a s where a: "the_api c = Some a" "the_dest c = Some s" by (auto simp: ctx_ok_def)
  show "\<exists>c' code err. fl_Pre HeadersFilter c = Ok (c', code, err) \<and> ctx_ok n c' \<and> kept c c'"
    using a c by (auto simp: HeadersFilter_def BaseFilter_def headers_Pre_def base_ok_def del_headers_def intro!: ctx_ok_headers)
  fix r
  assume "dp_res (pc_result c) = Some r"
  then show "\<exists>c' code err r'. fl_Post HeadersFilter c = Ok (c', code, err) \<and> ctx_ok n c' \<and> kept c c' \<and>
      dp_res (pc_result c') = Some r' \<and> hp_code r' = hp_code r"
    using a c by (auto simp: HeadersFilter_def BaseFilter_def headers_Post_def base_ok_def Let_def)
qed (simp add: HeadersFilter_def BaseFilter_def)

lemma with_ip_run:
  assumes "ctx_ok n c" "\<And>ip a. ips_ok ip a \<Longrightarrow> \<exists>b. allow ip a = Ok b"
  shows "\<exists>c' code err. with_ip allow msg c = Ok (c', code, err) \<and> ctx_ok n c' \<and> kept c c'"
proof -
  obtain a where a: "the_api c = Some a" "ips_ok (ClientIP (pc_rc c)) a" "pc_realIP c = Some (ClientIP (pc_rc c))"
    using assms(1) by (auto simp: ctx_ok_def)
  then show ?thesis using assms(1) assms(2) [OF a(2)] by (auto simp: with_ip_def base_ok_def)
qed

interpretation blacklist: gateway_filter ctx_ok BlackListFilter
  unfolding BlackListFilter_def
  by (rule pre_filter, erule with_ip_run) (auto simp: ips_ok_def api_allowWithBlacklist_def)

interpretation whitelist: gateway_filter ctx_ok WhiteListFilter
  unfolding WhiteListFilter_def
  by (rule pre_filter, erule with_ip_run) (auto simp: ips_ok_def api_allowWithWhitelist_def split: option.splits)

interpretation validation: gateway_filter ctx_ok "ValidationFilter en" for en
  unfolding ValidationFilter_def
proof (rule pre_filter)
  fix n c
  assume c: "ctx_ok n c"
  then obtain b where "node_validate (en_jget en) (en_rx en) (nd_validations (dp_node (pc_result c))) (pc_forwardReq c) = Ok b"
    using node_validate_total by (fastforce simp: ctx_ok_def params_ok_def)
  then show "\<exists>c' code err. obind (node_validate (en_jget en) (en_rx en) (nd_validations (dp_node (pc_result c))) (pc_forwardReq c))
      (\<lambda>ok. if ok then base_ok c else Ok (c, 400, Some (ErrFilter ''request validation failure''))) = Ok (c', code, err) \<and> ctx_ok n c' \<and> kept c c'"
    using c by (auto simp: base_ok_def)
qed

interpretation rate: gateway_filter ctx_ok "RateLimitingFilter now" for now
  unfolding RateLimitingFilter_def
proof (rule pre_filter)
  fix n c
  assume "ctx_ok n c"
  from with_cb_run [OF this, of "rate_Pre now" n] rate_Pre_run [of n _ now]
  show "\<exists>c' code err. with_cb (rate_Pre now) c = Ok (c', code, err) \<and> ctx_ok n c' \<and> kept c c'" by fastforce
qed

lemma caching_filter:
  assumes "hooks_ok hk"
  shows "gateway_filter ctx_ok (CachingFilter en hk)"
proof (rule simple_filter)
  show "\<exists>c' code err. fl_Pre (CachingFilter en hk) c = Ok (c', code, err) \<and> ctx_ok n c' \<and> kept c c'" if "ctx_ok n c" for n c
    using caching_Pre_run [OF that] by (simp add: CachingFilter_def)
  show "\<exists>c' code err r'. fl_Post (CachingFilter en hk) c = Ok (c', code, err) \<and> ctx_ok n c' \<and> kept c c' \<and>
      dp_res (pc_result c') = Some r' \<and> hp_code r' = hp_code r" if "ctx_ok n c" "dp_res (pc_result c) = Some r" for n c r
    using caching_Post_run [OF assms that, of en] by (fastforce simp: CachingFilter_def)
qed (simp add: CachingFilter_def BaseFilter_def)

text \<open>The circuit breaker and the statistics work on the runtimes in the tables.\<close>

lemma with_cb_filter:
  assumes "\<And>n s. cb_ok (Suc n) s \<Longrightarrow> \<exists>s' code err. p s = Ok (s', code, err) \<and> cb_ok n s' \<and> cb_keep s s'"
    and "\<And>c n s. cb_ok n s \<Longrightarrow> cb_ok n (q c s) \<and> cb_keep s (q c s)"
    and "\<And>err n s. cb_ok n s \<Longrightarrow> cb_ok n (e err s) \<and> cb_keep s (e err s)"
  shows "gateway_filter ctx_ok \<lparr>fl_Name = name, fl_Pre = with_cb p, fl_Post = (\<lambda>c. with_cb (\<lambda>s. Ok (q c s, 200, None)) c),
    fl_PostErr = (\<lambda>code err c. obind (with_cb (\<lambda>s. Ok (e err s, ())) c) (\<lambda>(c, _). Ok c))\<rparr>"
proof (unfold_locales, goal_cases)
  case (1 n c)
  then show ?case by (rule ctx_ok_fewer)
next
  case (2 n c)
  then show ?case using with_cb_run [of "Suc n" c p n] assms(1) by fastforce
next
  case (3 n c r)
  have "\<exists>c' r. with_cb (\<lambda>s. Ok (q c s, 200 :: int, None :: proxy_error option)) c = Ok (c', r) \<and> ctx_ok n c' \<and> kept c c' \<and> pc_result c' = pc_result c"
    using assms(2) by (intro with_cb_run [OF ctx_ok_fewer [OF 3(1)]]) auto
  then show ?case using 3(2) by fastforce
next
  case (4 n c code err)
  have "\<exists>c' r. with_cb (\<lambda>s. Ok (e err s, ())) c = Ok (c', r) \<and> ctx_ok n c' \<and> kept c c' \<and> pc_result c' = pc_result c"
    using assms(3) by (intro with_cb_run [OF ctx_ok_fewer [OF 4]]) auto
  then show ?case by auto
qed

interpretation circuit: gateway_filter ctx_ok CircuitBreakeFilter
proof -
  have "\<exists>s' code err. obind (cb_Pre s) (\<lambda>(s, code, err). Ok (s, code, map_option cb_err err)) = Ok (s', code, err) \<and> cb_ok n s' \<and> cb_keep s s'"
    if "cb_ok (Suc n) s" for n s using cb_Pre_run [OF that] by auto
  from with_cb_filter [OF this, where q = "\<lambda>c. cb_Post" and e = "\<lambda>err. cb_PostErr (err_text err)" and name = "''CIRCUIT-BREAKER''"] cb_post_ok
  show "gateway_filter ctx_ok CircuitBreakeFilter" by (simp add: CircuitBreakeFilter_def BaseFilter_def)
qed

lemma af_keep: "cb_ok n s \<Longrightarrow> cb_ok n (af_Pre s) \<and> cb_keep s (af_Pre s)"
  "cb_ok n s \<Longrightarrow> cb_ok n (af_Post cost s) \<and> cb_keep s (af_Post cost s)"
  "cb_ok n s \<Longrightarrow> cb_ok n (af_PostErr s) \<and> cb_keep s (af_PostErr s)"
  by (simp_all add: af_Pre_def af_Post_def af_PostErr_def cb_ok_simps)

interpretation analysis: gateway_filter ctx_ok AnalysisFilter
proof -
  have "\<exists>s' code err. Ok (af_Pre s, 200, None) = Ok (s', code, err) \<and> cb_ok n s' \<and> cb_keep s s'" if "cb_ok (Suc n) s" for n s
    using af_keep(1) cb_ok_le [OF that] by auto
  from with_cb_filter [OF this, where q = "\<lambda>c. af_Post (time_Sub (pc_endAt c) (pc_startAt c))" and e = "\<lambda>err. af_PostErr" and name = "''ANALYSIS''"] af_keep
  show "gateway_filter ctx_ok AnalysisFilter" by (simp add: AnalysisFilter_def BaseFilter_def)
qed

text \<open>Every filter the factory builds; the script engine and JWT are hooks.\<close>

definition external_ok :: "hooks \<Rightarrow> bool" where
  "external_ok hk \<longleftrightarrow> hooks_ok hk \<and> gateway_filter ctx_ok (hk_js hk) \<and> (\<forall>f. hk_jwt hk = Some f \<longrightarrow> gateway_filter ctx_ok f)"

lemmas gateway_laws = prepare.gateway_filter_axioms access.gateway_filter_axioms headers.gateway_filter_axioms
  xforward.gateway_filter_axioms analysis.gateway_filter_axioms blacklist.gateway_filter_axioms whitelist.gateway_filter_axioms
  rate.gateway_filter_axioms circuit.gateway_filter_axioms validation.gateway_filter_axioms cross.gateway_filter_axioms

lemma newFilter_law:
  assumes "external_ok hk" "newFilter en hk name = Some f"
  shows "gateway_filter ctx_ok f"
  using assms caching_filter [of hk en] by (auto simp: newFilter_def external_ok_def gateway_laws Let_def split: if_splits)

lemma Base_law: "gateway_filter ctx_ok (BaseFilter name)"
  using pre_filter [of base_ok name] by (simp add: BaseFilter_def base_ok_def)

end
