(* ===== verification/Proxy_Flow.thy ===== *)
theory Proxy_Flow
  imports Filter_Laws
begin

text \<open>
  One dispatch node through the proxy (\<^verbatim>\<open>doProxy\<close> of \<^verbatim>\<open>proxy/proxy.go\<close>): URL rewriting, the filters before the call, the
  cache, the calls with their retries, the filters after the call and the result of the node. The backends are
  an argument, as in \<^verbatim>\<open>Proxy_Retry\<close>.
\<close>

record proxy_result =
  px_log :: "(uint64 \<times> httpResp \<times> string option) list"
  px_dn :: dispatchNode
  px_part :: "(string \<times> string) option"
  px_sh :: shared
  px_out :: "(string \<times> string) list"

text \<open>\<^verbatim>\<open>maybeDone\<close>: in an API of several nodes the body is a part of the merged answer.\<close>

definition maybeDone :: "bool \<Rightarrow> dispatchNode \<Rightarrow> (unit, (string \<times> string) option) outcome" where
  "maybeDone multi dn =
     (if multi then obind (getResponseBody dn) (\<lambda>b. Ok (Some (dn_AttrName (nd_meta (dp_node dn)), b))) else Ok None)"

definition finish :: "bool \<Rightarrow> (uint64 \<times> httpResp \<times> string option) list \<Rightarrow> dispatchNode \<Rightarrow> shared \<Rightarrow> (string \<times> string) list
    \<Rightarrow> (unit, proxy_result) outcome" where
  "finish multi log dn sh out =
     obind (maybeDone multi dn) (\<lambda>part. Ok \<lparr>px_log = log, px_dn = dn, px_part = part, px_sh = sh, px_out = out\<rparr>)"

text \<open>After an answer: the error filters or the post filters.\<close>

definition after_call :: "bool \<Rightarrow> filter list \<Rightarrow> (uint64 \<times> httpResp \<times> string option) list \<Rightarrow> httpResp \<Rightarrow> string option \<Rightarrow> proxyContext
    \<Rightarrow> (unit, proxy_result) outcome" where
  "after_call multi fs log res err c =
     (let c = c\<lparr>pc_result := (pc_result c)\<lparr>dp_res := Some res\<rparr>\<rparr>
      in if err \<noteq> None \<or> 400 \<le> hp_code res
         then let resCode = (if err \<noteq> None then 500 else hp_code res); e = map_option ErrClient err
              in obind (doPostErrFilters resCode e fs c) (\<lambda>c.
                   finish multi log ((pc_result c)\<lparr>dp_err := e, dp_code := resCode\<rparr>) (pc_sh c) (pc_outHeader c))
         else obind (doPostFilters fs c) (\<lambda>(c, name, code, e).
                if e \<noteq> None then finish multi log ((pc_result c)\<lparr>dp_err := e, dp_code := code\<rparr>) (pc_sh c) (pc_outHeader c)
                else finish multi log (pc_result c) (pc_sh c) (pc_outHeader c)))"

text \<open>The calls with their retries, and what follows them.\<close>

definition send_node :: "env \<Rightarrow> backend \<Rightarrow> int \<Rightarrow> filter list \<Rightarrow> bool \<Rightarrow> uint64 \<Rightarrow> proxyContext \<Rightarrow> (unit, proxy_result) outcome" where
  "send_node en backend endAt fs multi svr c =
     obind (send_loop en backend (pc_rc c) (pc_origin c) 0 (pc_result c) svr (sh_d (pc_sh c))) (\<lambda>(log, ans, dn, d).
       let c = c\<lparr>pc_result := dn, pc_sh := (pc_sh c)\<lparr>sh_d := d\<rparr>, pc_endAt := endAt\<rparr>
       in case ans of
            None \<Rightarrow> finish multi log (dn\<lparr>dp_err := Some ErrNoServer, dp_code := 503\<rparr>) (pc_sh c) (pc_outHeader c)
          | Some (res, err) \<Rightarrow> after_call multi fs log res err c)"

text \<open>The answer comes from the cache, from a filter or from a server.\<close>

definition call_node :: "env \<Rightarrow> hooks \<Rightarrow> backend \<Rightarrow> int \<Rightarrow> filter list \<Rightarrow> bool \<Rightarrow> uint64 \<Rightarrow> proxyContext \<Rightarrow> (unit, proxy_result) outcome" where
  "call_node en hk backend endAt fs multi svr c =
     (case pc_cached c of
        Some a \<Rightarrow>
          (case sh_bufs (pc_sh c) a of
             None \<Rightarrow> Panic
           | Some b \<Rightarrow>
               (case ReadCachedValueTo b of
                  Ok (b', r) \<Rightarrow>
                    after_call multi fs [] (hk_fill hk r) None (c\<lparr>pc_sh := (pc_sh c)\<lparr>sh_bufs := (sh_bufs (pc_sh c))(a \<mapsto> b')\<rparr>\<rparr>)
                | _ \<Rightarrow> Panic))
      | None \<Rightarrow>
          (case pc_using c of
             Some res \<Rightarrow> after_call multi fs [] res None c
           | None \<Rightarrow> send_node en backend endAt fs multi svr c))"

definition doProxy :: "env \<Rightarrow> hooks \<Rightarrow> backend \<Rightarrow> int \<Rightarrow> filter list \<Rightarrow> bool \<Rightarrow> ReqCtx \<Rightarrow> HttpReq \<Rightarrow> Ctx \<Rightarrow> dispatchNode \<Rightarrow> shared
    \<Rightarrow> (unit, proxy_result) outcome" where
  "doProxy en hk backend endAt fs multi rc origin ectx dn sh =
     (if dn_UseDefault (nd_meta (dp_node dn)) then finish multi [] dn sh []
      else case dp_dest dn of
        None \<Rightarrow> finish multi [] (dn\<lparr>dp_err := Some ErrNoServer, dp_code := 503\<rparr>) sh []
      | Some svr \<Rightarrow>
          obind (if needRewrite dn then obind (Exec (en_jget en) ectx (nd_parsedExprs (dp_node dn))) (\<lambda>p. Ok (Some p)) else Ok None) (\<lambda>path.
          if path = Some [] then finish multi [] (dn\<lparr>dp_err := Some ErrRewriteNotMatch, dp_code := 400\<rparr>) sh []
          else let req = (case path of None \<Rightarrow> origin | Some p \<Rightarrow> hk_setURI hk p origin);
                   c = \<lparr>pc_sh = sh, pc_startAt = en_now en, pc_endAt = zero_time, pc_result = dn, pc_forwardReq = req, pc_origin = origin,
                        pc_rc = rc, pc_outHeader = [], pc_realIP = None, pc_cached = None, pc_using = None\<rparr>
               in obind (doPreFilters fs c) (\<lambda>(c, name, code, e).
                  if e \<noteq> None then finish multi [] ((pc_result c)\<lparr>dp_err := e, dp_code := code\<rparr>) (pc_sh c) (pc_outHeader c)
                  else call_node en hk backend endAt fs multi svr c)))"

subsection \<open>What serving leaves alone\<close>

text \<open>Two dispatchers with the same configuration; the filters change the runtimes, the choice of servers the states of
  balancers and routings.\<close>

definition stable :: "dispatcher \<Rightarrow> dispatcher \<Rightarrow> bool" where
  "stable d d' \<longleftrightarrow> metas sr_core (d_servers d') = metas sr_core (d_servers d) \<and> metas ar_core (d_apis d') = metas ar_core (d_apis d) \<and>
     metas cr_meta (d_clusters d') = metas cr_meta (d_clusters d) \<and> metas rr_meta (d_routings d') = metas rr_meta (d_routings d) \<and>
     d_binds d' = d_binds d \<and> d_route d' = d_route d \<and> d_proxies d' = d_proxies d \<and> d_plugins d' = d_plugins d \<and> d_applied d' = d_applied d"

lemma stable_refl [simp]: "stable d d"
  by (simp add: stable_def)

lemma stable_trans: "stable d d1 \<Longrightarrow> stable d1 d2 \<Longrightarrow> stable d d2"
  by (simp add: stable_def)

lemma stableI: "frame d d' \<Longrightarrow> stable d d'" "same_tables d d' \<Longrightarrow> stable d d'"
  by (simp_all add: stable_def frame_def same_tables_def)

lemma stable_good: "stable d d' \<Longrightarrow> good rx d \<Longrightarrow> good rx d'"
  using core_metas [of "d_servers d'" "d_servers d"] api_core_metas(1,3) [of "d_apis d'" "d_apis d"]
    api_core_metas(2) [of "d_apis d'" "d_apis d" rx]
  by (simp add: stable_def good_defs)

lemma stable_config: "stable d d' \<Longrightarrow> abs_config d' = abs_config d"
  using core_metas(1) [of "d_servers d'" "d_servers d"] api_core_metas(1) [of "d_apis d'" "d_apis d"]
  by (simp add: stable_def abs_config_def)

lemma stable_tables:
  assumes "stable d d'"
  shows "few_actives d' = few_actives d" "serves d' = serves d" "takes_over d' = takes_over d" "dest_of d' = dest_of d" "node_ok d' = node_ok d"
proof -
  have "map_of (d_clusters d') k = None \<longleftrightarrow> map_of (d_clusters d) k = None" for k
    using assms map_of_metas [of cr_meta "d_clusters d" k] map_of_metas [of cr_meta "d_clusters d'" k] by (auto simp: stable_def)
  then show s: "serves d' = serves d" using assms unfolding serves_def stable_def fun_eq_iff by simp
  show t: "takes_over d' = takes_over d" using assms unfolding takes_over_def stable_def fun_eq_iff by simp
  show "few_actives d' = few_actives d" using assms by (simp add: few_actives_def stable_def)
  show "dest_of d' = dest_of d" unfolding dest_of_def s t ..
  show "node_ok d' = node_ok d" unfolding node_ok_def copy_ok_def fun_eq_iff s t by simp
qed

lemma stable_ips:
  assumes "stable d d'" "map_of (d_apis d) i = Some a" "ips_ok ip a"
  shows "\<exists>a'. map_of (d_apis d') i = Some a' \<and> ips_ok ip a'"
proof -
  have "map_of (metas ar_core (d_apis d')) i = Some (ar_core a)" using assms(1,2) by (simp add: stable_def map_of_metas)
  then obtain a' where "map_of (d_apis d') i = Some a'" "ar_core a' = ar_core a" by (auto simp: map_of_metas)
  then show ?thesis using assms(3) by (auto simp: ar_core_def ips_ok_def)
qed

text \<open>What the state must offer: room for \<open>m\<close> more calls of filters and \<open>k\<close> more choices of a server.\<close>

definition fit :: "HttpReq \<Rightarrow> nat \<Rightarrow> nat \<Rightarrow> shared \<Rightarrow> bool" where
  "fit req m k sh \<longleftrightarrow> tables_ok m (sh_d sh) \<and> bufs_ok sh \<and> (\<forall>x\<in>set (d_routings (sh_d sh)). routing_ready req k (snd x))"

subsection \<open>What comes out\<close>

text \<open>A finished node: the configuration is what it was, the node is the same, an API of several nodes has its part, and
  the node has an error, its default or a response below 400.\<close>

definition answered :: "bool \<Rightarrow> dispatcher \<Rightarrow> dispatchNode \<Rightarrow> proxy_result \<Rightarrow> bool" where
  "answered multi d dn r \<longleftrightarrow> stable d (sh_d (px_sh r)) \<and> dp_node (px_dn r) = dp_node dn \<and> (px_part r \<noteq> None \<longleftrightarrow> multi) \<and>
     (dn_UseDefault (nd_meta (dp_node dn)) \<or> hasError (px_dn r) \<or> (\<exists>res. dp_res (px_dn r) = Some res \<and> hp_code res < 400))"

text \<open>The calls made for it: no more than its retry strategy allows, all to servers that may serve it.\<close>

definition sent_ok :: "bool \<Rightarrow> dispatcher \<Rightarrow> dispatchNode \<Rightarrow> proxy_result \<Rightarrow> bool" where
  "sent_ok multi d dn r \<longleftrightarrow> answered multi d dn r \<and> int (length (px_log r)) \<le> max 1 (max_times dn) \<and>
     (\<forall>x\<in>set (px_log r). dest_of d dn (fst x))"

lemma finish_run:
  assumes "dn_UseDefault (nd_meta (dp_node dn)) \<longrightarrow> multi \<longrightarrow> hasDefaultValue dn" "stable d (sh_d sh)" "dp_node dn = dp_node dn0"
    and "dn_UseDefault (nd_meta (dp_node dn)) \<or> hasError dn \<or> (\<exists>res. dp_res dn = Some res \<and> hp_code res < 400)"
  shows "\<exists>r. finish multi log dn sh out = Ok r \<and> px_log r = log \<and> answered multi d dn0 r \<and> px_sh r = sh"
proof -
  have "\<exists>part. maybeDone multi dn = Ok part \<and> (part \<noteq> None \<longleftrightarrow> multi)"
    using assms(1) by (auto simp: maybeDone_def getResponseBody_def hasDefaultValue_def split: option.splits)
  then show ?thesis using assms(2-4) by (auto simp: finish_def answered_def)
qed

lemma finish_fit:
  assumes "\<not> dn_UseDefault (nd_meta (dp_node dn0))" "stable d (sh_d sh)" "dp_node dn = dp_node dn0" "hasError dn \<or> (\<exists>res. dp_res dn = Some res \<and> hp_code res < 400)"
    and "fit req m k sh"
  shows "\<exists>r. finish multi log dn sh out = Ok r \<and> px_log r = log \<and> answered multi d dn0 r \<and> fit req m k (px_sh r)"
proof -
  obtain r where "finish multi log dn sh out = Ok r" "px_log r = log" "answered multi d dn0 r" "px_sh r = sh"
    using finish_run [of dn multi d sh dn0 log out] assms by auto
  then show ?thesis using assms(5) by auto
qed

text \<open>A context that has passed filters: what is left of its room.\<close>

lemma ctx_fit:
  assumes "ctx_ok m c2" "kept c c2" "\<forall>x\<in>set (d_routings (sh_d (pc_sh c))). routing_ready req k (snd x)"
  shows "fit req m k (pc_sh c2)"
  using assms by (simp add: fit_def ctx_ok_def kept_def frame_def)

lemma after_call_run:
  assumes "\<forall>f\<in>set fs. gateway_filter ctx_ok f" "ctx_ok (length fs + m) c" "\<not> dn_UseDefault (nd_meta (dp_node (pc_result c)))"
    and "\<forall>x\<in>set (d_routings (sh_d (pc_sh c))). routing_ready req k (snd x)"
  shows "\<exists>r. after_call multi fs log res err c = Ok r \<and> px_log r = log \<and> answered multi (sh_d (pc_sh c)) (pc_result c) r \<and> fit req m k (px_sh r)"
proof -
  define c1 where "c1 = c\<lparr>pc_result := (pc_result c)\<lparr>dp_res := Some res\<rparr>\<rparr>"
  have c1: "ctx_ok (length (rev fs) + m) c1" "dp_res (pc_result c1) = Some res" "\<forall>f\<in>set (rev fs). gateway_filter ctx_ok f"
    using assms by (simp_all add: c1_def)
  have rr: "\<forall>x\<in>set (d_routings (sh_d (pc_sh c1))). routing_ready req k (snd x)" using assms(4) by (simp add: c1_def)
  have cfg: "stable (sh_d (pc_sh c)) (sh_d (pc_sh c2)) \<and> dp_node (pc_result c2) = dp_node (pc_result c)" if "kept c1 c2" for c2
    using that stableI(1) by (auto simp: kept_def same_dn_def c1_def)
  show ?thesis
  proof (cases "err \<noteq> None \<or> 400 \<le> hp_code res")
    case True
    define code where "code = (if err \<noteq> None then 500 else hp_code res)"
    obtain c2 where c2: "doPostErrFilters code (map_option ErrClient err) fs c1 = Ok c2" "ctx_ok m c2" "kept c1 c2"
      using post_err_chain [OF c1(3,1)] by (fastforce simp: doPostErrFilters_def)
    have "after_call multi fs log res err c
      = finish multi log ((pc_result c2)\<lparr>dp_err := map_option ErrClient err, dp_code := code\<rparr>) (pc_sh c2) (pc_outHeader c2)"
      using True c2(1) by (simp add: after_call_def c1_def code_def Let_def)
    moreover have "\<exists>r. finish multi log ((pc_result c2)\<lparr>dp_err := map_option ErrClient err, dp_code := code\<rparr>) (pc_sh c2) (pc_outHeader c2) = Ok r \<and>
        px_log r = log \<and> answered multi (sh_d (pc_sh c)) (pc_result c) r \<and> fit req m k (px_sh r)"
      using cfg [OF c2(3)] True by (intro finish_fit [OF assms(3)] ctx_fit [OF c2(2,3) rr]) (auto simp: hasError_def code_def)
    ultimately show ?thesis by simp
  next
    case False
    obtain c2 name code e r where c2: "doPostFilters fs c1 = Ok (c2, name, code, e)" "ctx_ok m c2" "kept c1 c2"
        "dp_res (pc_result c2) = Some r" "hp_code r = hp_code res"
      using post_chain [OF c1(3,1,2)] by (auto simp: doPostFilters_def)
    define dn where "dn = (if e \<noteq> None then (pc_result c2)\<lparr>dp_err := e, dp_code := code\<rparr> else pc_result c2)"
    have "after_call multi fs log res err c = finish multi log dn (pc_sh c2) (pc_outHeader c2)"
      using False c2(1) by (simp add: after_call_def c1_def dn_def Let_def)
    moreover have "\<exists>r. finish multi log dn (pc_sh c2) (pc_outHeader c2) = Ok r \<and>
        px_log r = log \<and> answered multi (sh_d (pc_sh c)) (pc_result c) r \<and> fit req m k (px_sh r)"
      using cfg [OF c2(3)] False c2(4,5) by (intro finish_fit [OF assms(3)] ctx_fit [OF c2(2,3) rr]) (auto simp: hasError_def dn_def)
    ultimately show ?thesis by simp
  qed
qed

lemma send_loop_dest:
  assumes "send_loop en backend rc req n dn svr d = Ok (log, r, dn', d')" "dp_dest dn = Some svr"
  shows "(r \<noteq> None \<longrightarrow> dp_dest dn' = Some (fst (last log))) \<and> dp_node dn' = dp_node dn \<and> dp_api dn' = dp_api dn \<and> log \<noteq> []"
  using assms
proof (induction en backend rc req n dn svr d arbitrary: log rule: send_loop.induct)
  case (1 en backend rc req n dn svr d)
  show ?case
  proof (cases "\<not> retryable dn (backend n svr) \<or> max_times dn \<le> n + 1")
    case True
    then show ?thesis using send_loop_stop [of dn backend n svr en rc req d] 1(2,3) by auto
  next
    case False
    from 1(2) False obtain dn1 d1 where s: "selectServer en rc req dn d = Ok (dn1, d1)"
      by (subst (asm) send_loop.simps) (auto simp: Let_def outcome_simps)
    note node = selectServer_node [OF s]
    show ?thesis
    proof (cases "dp_dest dn1")
      case None
      then show ?thesis using 1(2) False s node by (subst (asm) send_loop.simps) (auto simp: Let_def)
    next
      case (Some svr1)
      obtain log1 where l: "send_loop en backend rc req (n + 1) dn1 svr1 d1 = Ok (log1, r, dn', d')" "log = (svr, backend n svr) # log1"
        using 1(2) False s Some by (subst (asm) send_loop.simps) (auto simp: Let_def outcome_simps)
      have "(r \<noteq> None \<longrightarrow> dp_dest dn' = Some (fst (last log1))) \<and> dp_node dn' = dp_node dn1 \<and> dp_api dn' = dp_api dn1 \<and> log1 \<noteq> []"
        by (rule 1(1) [OF refl refl _ _ s refl Some]) (use False l Some in auto)
      then show ?thesis using l(2) node by simp
    qed
  qed
qed

text \<open>After the calls the context is still fit for the filters: the server that answered is in the table.\<close>

lemma ctx_ok_sent:
  assumes "ctx_ok n c" "same_tables (sh_d (pc_sh c)) d'" "dp_node dn = dp_node (pc_result c)" "dp_api dn = dp_api (pc_result c)"
    and "dp_dest dn = Some i" "map_of (d_servers d') i \<noteq> None"
  shows "ctx_ok n (c\<lparr>pc_result := dn, pc_sh := (pc_sh c)\<lparr>sh_d := d'\<rparr>, pc_endAt := t\<rparr>)"
  using assms by (auto simp: ctx_ok_def the_api_def the_dest_def same_tables_def tables_ok_def bufs_ok_def)

lemma dest_known:
  assumes "disp_inv d" "dest_of d dn i"
  shows "map_of (d_servers d) i \<noteq> None"
  using assms active_bound [OF assms(1)] by (fastforce simp: dest_of_def serves_def)

lemma send_run:
  assumes "\<forall>f\<in>set fs. gateway_filter ctx_ok f" "ctx_ok (length fs + m) c" "good rx (sh_d (pc_sh c))" "few_actives (sh_d (pc_sh c))"
    and "node_ok (sh_d (pc_sh c)) (pc_result c)"
    and "\<forall>x\<in>set (d_routings (sh_d (pc_sh c))). routing_ready (pc_origin c) (nat (max_times (pc_result c)) + k) (snd x)"
    and "\<not> dn_UseDefault (nd_meta (dp_node (pc_result c)))" "dp_dest (pc_result c) = Some svr"
  shows "\<exists>r. send_node en backend endAt fs multi svr c = Ok r \<and> sent_ok multi (sh_d (pc_sh c)) (pc_result c) r \<and>
    fit (pc_origin c) m k (px_sh r)"
proof -
  let ?d = "sh_d (pc_sh c)" and ?dn = "pc_result c"
  have co: "copy_ok ?d ?dn" and svr: "dest_of ?d ?dn svr" using assms(5,8) by (auto simp: node_ok_def dest_of_def)
  obtain log a dn d1 where l: "send_loop en backend (pc_rc c) (pc_origin c) 0 ?dn svr ?d = Ok (log, a, dn, d1)" "same_tables ?d d1"
      "log_ok backend ?dn 0 log a" "fst (hd log) = svr" "\<forall>x\<in>set (tl log). dest_of ?d ?dn (fst x)"
      "\<forall>x\<in>set (d_routings d1). routing_ready (pc_origin c) k (snd x)"
    using send_loop_run [OF assms(3,4) co, of "pc_origin c" 0 k en backend "pc_rc c" svr] assms(6) by auto
  have dn: "(a \<noteq> None \<longrightarrow> dp_dest dn = Some (fst (last log))) \<and> dp_node dn = dp_node ?dn \<and> dp_api dn = dp_api ?dn \<and> log \<noteq> []"
    by (rule send_loop_dest [OF l(1) assms(8)])
  have all: "\<forall>x\<in>set log. dest_of ?d ?dn (fst x)" using l(4,5) svr by (cases log) auto
  have "disp_inv ?d" using assms(3) by (simp add: good_def)
  then have known: "map_of (d_servers d1) (fst (last log)) \<noteq> None"
    using dest_known all dn l(2) by (fastforce simp: same_tables_def)
  define c1 where "c1 = c\<lparr>pc_result := dn, pc_sh := (pc_sh c)\<lparr>sh_d := d1\<rparr>, pc_endAt := endAt\<rparr>"
  have cfg: "stable ?d (sh_d (pc_sh c1))" using stableI(2) [OF l(2)] by (simp add: c1_def)
  have rr: "\<forall>x\<in>set (d_routings (sh_d (pc_sh c1))). routing_ready (pc_origin c) k (snd x)" using l(6) by (simp add: c1_def)
  let ?run = "case a of None \<Rightarrow> finish multi log (dn\<lparr>dp_err := Some ErrNoServer, dp_code := 503\<rparr>) (pc_sh c1) (pc_outHeader c1)
      | Some (res, err) \<Rightarrow> after_call multi fs log res err c1"
  have "\<exists>r. ?run = Ok r \<and> px_log r = log \<and> answered multi ?d ?dn r \<and> fit (pc_origin c) m k (px_sh r)"
  proof (cases a)
    case None
    have "tables_ok m d1" using assms(2) l(2) tables_ok_le [of "length fs + m" d1 m] by (simp add: ctx_ok_def tables_ok_def same_tables_def)
    then have "fit (pc_origin c) m k (pc_sh c1)" using assms(2) l(6) by (simp add: fit_def c1_def ctx_ok_def bufs_ok_def)
    then have "\<exists>r. finish multi log (dn\<lparr>dp_err := Some ErrNoServer, dp_code := 503\<rparr>) (pc_sh c1) (pc_outHeader c1) = Ok r \<and> px_log r = log \<and>
        answered multi ?d ?dn r \<and> fit (pc_origin c) m k (px_sh r)"
      using dn by (intro finish_fit [OF assms(7) cfg]) (auto simp: hasError_def)
    then show ?thesis using None by simp
  next
    case (Some x)
    have k: "ctx_ok (length fs + m) c1" unfolding c1_def
      by (rule ctx_ok_sent [of _ _ _ _ "fst (last log)"]) (use assms(2) l(2) dn Some known in auto)
    have "\<not> dn_UseDefault (nd_meta (dp_node (pc_result c1)))" using dn assms(7) by (simp add: c1_def)
    from after_call_run [OF assms(1) k this rr, of multi log "fst x" "snd x"]
    obtain r where r: "after_call multi fs log (fst x) (snd x) c1 = Ok r" "px_log r = log" "answered multi (sh_d (pc_sh c1)) dn r"
        "fit (pc_origin c) m k (px_sh r)" by (auto simp: c1_def)
    then have "answered multi ?d ?dn r" using stable_trans [OF cfg] dn by (simp add: answered_def)
    then show ?thesis using Some r by (simp add: case_prod_unfold)
  qed
  then obtain r where r: "?run = Ok r" "px_log r = log" "answered multi ?d ?dn r" "fit (pc_origin c) m k (px_sh r)" by blast
  have "send_node en backend endAt fs multi svr c = ?run" unfolding c1_def using l(1) by (simp add: send_node_def Let_def)
  then show ?thesis using r l(3) all by (auto simp: sent_ok_def log_ok_def)
qed

text \<open>What the proxy needs of its state, and of each request it may forward, to serve one node.\<close>

definition servable :: "ReqCtx \<Rightarrow> HttpReq set \<Rightarrow> bool \<Rightarrow> dispatchNode \<Rightarrow> dispatcher \<Rightarrow> bool" where
  "servable rc reqs multi dn d \<longleftrightarrow> few_actives d \<and> node_ok d dn \<and>
     (\<exists>a. map_of (d_apis d) (dp_api dn) = Some a \<and> ips_ok (ClientIP rc) a) \<and>
     (dn_UseDefault (nd_meta (dp_node dn)) \<longrightarrow> multi \<longrightarrow> hasDefaultValue dn) \<and>
     (\<forall>q\<in>reqs. params_ok (nd_meta (dp_node dn)) (nd_validations (dp_node dn)) q)"

lemma servable_stable: "stable d d' \<Longrightarrow> servable rc reqs multi dn d \<Longrightarrow> servable rc reqs multi dn d'"
  using stable_tables [of d d'] stable_ips [of d d' "dp_api dn"] by (auto simp: servable_def)

lemma start_ok:
  assumes "good rx (sh_d sh)" "servable rc reqs multi dn (sh_d sh)" "fit origin n k sh" "dp_dest dn = Some svr" "req \<in> reqs"
  shows "ctx_ok n \<lparr>pc_sh = sh, pc_startAt = t, pc_endAt = zero_time, pc_result = dn, pc_forwardReq = req, pc_origin = origin,
    pc_rc = rc, pc_outHeader = [], pc_realIP = Some (ClientIP rc), pc_cached = None, pc_using = None\<rparr>"
proof -
  have "disp_inv (sh_d sh)" using assms(1) by (simp add: good_def)
  moreover have "dest_of (sh_d sh) dn svr" using assms(2,4) by (auto simp: servable_def node_ok_def dest_of_def)
  ultimately have "map_of (d_servers (sh_d sh)) svr \<noteq> None" by (rule dest_known)
  then show ?thesis using assms by (auto simp: ctx_ok_def servable_def fit_def the_api_def the_dest_def)
qed

lemma cache_hit_ok:
  assumes "ctx_ok n c" "pc_cached c = Some a"
  shows "\<exists>b b' r. sh_bufs (pc_sh c) a = Some b \<and> ReadCachedValueTo b = Ok (b', r) \<and>
    ctx_ok n (c\<lparr>pc_sh := (pc_sh c)\<lparr>sh_bufs := (sh_bufs (pc_sh c))(a \<mapsto> b')\<rparr>\<rparr>)"
proof -
  obtain b where b: "sh_bufs (pc_sh c) a = Some b" "buf_readable b" using assms by (auto simp: ctx_ok_def bufs_ok_def)
  then obtain b' r where r: "ReadCachedValueTo b = Ok (b', r)" "buf_readable b'" by (auto simp: buf_readable_def read_empty)
  have "bufs_ok ((pc_sh c)\<lparr>sh_bufs := (sh_bufs (pc_sh c))(a \<mapsto> b')\<rparr>)" using assms(1) r(2) by (auto simp: ctx_ok_def bufs_ok_def)
  then show ?thesis using assms b r by (auto simp: ctx_ok_def)
qed

lemma call_run:
  assumes "\<forall>f\<in>set fs. gateway_filter ctx_ok f" "ctx_ok (length fs + m) c" "good rx (sh_d (pc_sh c))" "few_actives (sh_d (pc_sh c))"
    and "node_ok (sh_d (pc_sh c)) (pc_result c)"
    and "\<forall>x\<in>set (d_routings (sh_d (pc_sh c))). routing_ready (pc_origin c) (nat (max_times (pc_result c)) + k) (snd x)"
    and "\<not> dn_UseDefault (nd_meta (dp_node (pc_result c)))" "dp_dest (pc_result c) = Some svr"
  shows "\<exists>r. call_node en hk backend endAt fs multi svr c = Ok r \<and> sent_ok multi (sh_d (pc_sh c)) (pc_result c) r \<and>
    fit (pc_origin c) m k (px_sh r)"
proof -
  have rr: "\<forall>x\<in>set (d_routings (sh_d (pc_sh c))). routing_ready (pc_origin c) k (snd x)"
    using assms(6) routing_ready_le [OF _ le_add2] by blast
  show ?thesis
proof (cases "pc_cached c")
  case (Some a)
  obtain b b' q where b: "sh_bufs (pc_sh c) a = Some b" "ReadCachedValueTo b = Ok (b', q)"
      "ctx_ok (length fs + m) (c\<lparr>pc_sh := (pc_sh c)\<lparr>sh_bufs := (sh_bufs (pc_sh c))(a \<mapsto> b')\<rparr>\<rparr>)"
    using cache_hit_ok [OF assms(2) Some] by blast
  have "\<forall>x\<in>set (d_routings (sh_d (pc_sh c))). routing_ready (pc_origin c) k (snd x)" by (rule rr)
  with after_call_run [OF assms(1) b(3), of "pc_origin c" k multi "[]" "hk_fill hk q" None] assms(7)
  show ?thesis using Some b(1,2) by (auto simp: call_node_def sent_ok_def)
next
  case None
  show ?thesis
  proof (cases "pc_using c")
    case (Some res)
    from after_call_run [OF assms(1,2,7) rr, of multi "[]" res None]
    show ?thesis using None Some by (auto simp: call_node_def sent_ok_def)
  next
    case us: None
    from send_run [OF assms(1-8), of en backend endAt multi]
    show ?thesis using None us by (simp add: call_node_def)
  qed
qed
qed

lemma kept_facts:
  assumes "kept c c1"
  shows "stable (sh_d (pc_sh c)) (sh_d (pc_sh c1))" "node_ok d (pc_result c1) = node_ok d (pc_result c)"
    "max_times (pc_result c1) = max_times (pc_result c)" "d_routings (sh_d (pc_sh c1)) = d_routings (sh_d (pc_sh c))"
    "sent_ok multi d (pc_result c1) r = sent_ok multi d (pc_result c) r"
    "dp_node (pc_result c1) = dp_node (pc_result c)" "dp_dest (pc_result c1) = dp_dest (pc_result c)" "pc_origin c1 = pc_origin c"
proof -
  have n: "same_dn (pc_result c) (pc_result c1)" using assms by (simp add: kept_def)
  have e: "dp_node (pc_result c1) = dp_node (pc_result c)" "dp_dest (pc_result c1) = dp_dest (pc_result c)"
    "dp_api (pc_result c1) = dp_api (pc_result c)" "dp_copyTo (pc_result c1) = dp_copyTo (pc_result c)" using n by (simp_all add: same_dn_def)
  note m = conjunct2 [OF same_node [OF e(1)]]
  show "stable (sh_d (pc_sh c)) (sh_d (pc_sh c1))" using assms by (simp add: kept_def stableI)
  show "sent_ok multi d (pc_result c1) r = sent_ok multi d (pc_result c) r"
    unfolding sent_ok_def answered_def dest_of_def e m by simp
  show "node_ok d (pc_result c1) = node_ok d (pc_result c)" unfolding node_ok_def copy_ok_def e by simp
  show "max_times (pc_result c1) = max_times (pc_result c)" by (rule m)
qed (use assms in \<open>simp_all add: kept_def same_dn_def frame_def\<close>)

lemma sent_stable:
  assumes "stable d d'" "sent_ok multi d' dn r"
  shows "sent_ok multi d dn r"
  using assms stable_trans [OF assms(1)] stable_tables(4) [OF assms(1)] by (auto simp: sent_ok_def answered_def)

lemma doProxy_run:
  assumes "good rx (sh_d sh)" "external_ok hk" "\<forall>f\<in>set fs. \<exists>name. newFilter en hk name = Some f"
    and "servable rc (insert origin (range (\<lambda>p. hk_setURI hk p origin))) multi dn (sh_d sh)"
    and "fit origin (2 * length fs + 1 + m) (nat (max_times dn) + k) sh" "ctx_Origin ectx = Some q"
  shows "\<exists>r. doProxy en hk backend endAt (PrepareFilter # fs) multi rc origin ectx dn sh = Ok r \<and> sent_ok multi (sh_d sh) dn r \<and>
    fit origin m k (px_sh r)"
proof -
  let ?fs = "PrepareFilter # fs"
  have fit: "fit origin m k sh"
    using assms(5) tables_ok_le [of "2 * length fs + 1 + m" "sh_d sh" m] routing_ready_le [OF _ le_add2] by (simp add: fit_def) blast
  have fin: "\<exists>r. finish multi [] (dn\<lparr>dp_err := Some e, dp_code := j\<rparr>) sh [] = Ok r \<and> sent_ok multi (sh_d sh) dn r \<and> fit origin m k (px_sh r)"
    if "\<not> dn_UseDefault (nd_meta (dp_node dn))" for e j
    using finish_fit [OF that, of "sh_d sh" sh "dn\<lparr>dp_err := Some e, dp_code := j\<rparr>" origin m k multi "[]" "[]"] fit
    by (auto simp: sent_ok_def hasError_def)
  show ?thesis
  proof (cases "dn_UseDefault (nd_meta (dp_node dn)) \<or> dp_dest dn = None")
    case True
    moreover have "\<exists>r. finish multi [] dn sh [] = Ok r \<and> sent_ok multi (sh_d sh) dn r \<and> fit origin m k (px_sh r)"
      if "dn_UseDefault (nd_meta (dp_node dn))"
      using finish_run [of dn multi "sh_d sh" sh dn "[]" "[]"] assms(4) that fit by (auto simp: sent_ok_def servable_def)
    ultimately show ?thesis using fin by (auto simp: doProxy_def)
  next
    case False
    then obtain svr where d: "\<not> dn_UseDefault (nd_meta (dp_node dn))" "dp_dest dn = Some svr" by auto
    obtain path where path: "(if needRewrite dn then obind (Exec (en_jget en) ectx (nd_parsedExprs (dp_node dn))) (\<lambda>p. Ok (Some p)) else Ok None) = Ok path"
      using Exec_value [OF assms(6), of "en_jget en" "nd_parsedExprs (dp_node dn)" "[]"] by (cases "needRewrite dn") (auto simp: Exec_def)
    show ?thesis
    proof (cases "path = Some []")
      case True
      then show ?thesis using path d fin by (simp add: doProxy_def)
    next
      case p: False
      define req where "req = (case path of None \<Rightarrow> origin | Some p \<Rightarrow> hk_setURI hk p origin)"
      define c where "c = \<lparr>pc_sh = sh, pc_startAt = en_now en, pc_endAt = zero_time, pc_result = dn, pc_forwardReq = req, pc_origin = origin,
         pc_rc = rc, pc_outHeader = [], pc_realIP = Some (ClientIP rc), pc_cached = None, pc_using = None\<rparr>"
      have "ctx_ok (length fs + (length ?fs + m)) c" unfolding c_def
        by (rule start_ok [OF assms(1,4) _ d(2), where origin = origin]) (use assms(5) in \<open>auto simp: req_def mult_2 add.assoc split: option.splits\<close>)
      moreover have g: "\<forall>f\<in>set ?fs. gateway_filter ctx_ok f"
        using assms(2,3) newFilter_law prepare.gateway_filter_axioms by auto
      ultimately obtain c1 name code e where c1: "doPreFilters fs c = Ok (c1, name, code, e)" "ctx_ok (length ?fs + m) c1" "kept c c1"
        using pre_chain [of fs ctx_ok "length ?fs + m" c] by auto
      note k = kept_facts [OF c1(3)]
      have rr: "\<forall>x\<in>set (d_routings (sh_d (pc_sh c1))). routing_ready (pc_origin c1) (nat (max_times (pc_result c1)) + k) (snd x)"
        using assms(5) k by (simp add: fit_def c_def)
      have st: "stable (sh_d sh) (sh_d (pc_sh c1))" using k(1) by (simp add: c_def)
      have run: "doProxy en hk backend endAt ?fs multi rc origin ectx dn sh =
         (if e \<noteq> None then finish multi [] ((pc_result c1)\<lparr>dp_err := e, dp_code := code\<rparr>) (pc_sh c1) (pc_outHeader c1)
          else call_node en hk backend endAt ?fs multi svr c1)"
        using d path p c1(1) by (simp add: doProxy_def PrepareFilter_def BaseFilter_def base_ok_def BreakFilterChainCode_def c_def req_def)
      show ?thesis
      proof (cases "e = None")
        case True
        have n: "node_ok (sh_d (pc_sh c1)) (pc_result c1)" "few_actives (sh_d (pc_sh c1))"
          using assms(4) k(2) stable_tables [OF st] by (simp_all add: servable_def c_def)
        have u: "\<not> dn_UseDefault (nd_meta (dp_node (pc_result c1)))" "dp_dest (pc_result c1) = Some svr" using d k by (simp_all add: c_def)
        from call_run [OF g c1(2) stable_good [OF st assms(1)] n(2,1) rr u, of en hk backend endAt multi]
        obtain r where r: "call_node en hk backend endAt ?fs multi svr c1 = Ok r" "sent_ok multi (sh_d (pc_sh c1)) (pc_result c1) r"
            "fit (pc_origin c1) m k (px_sh r)" by blast
        have "sent_ok multi (sh_d sh) dn r" using sent_stable [OF st r(2)] k(5) by (simp add: c_def)
        then show ?thesis using True run r k(8) by (simp add: c_def)
      next
        case False
        have "ctx_ok m c1" using gateway_filter.fewer_add [OF prepare.gateway_filter_axioms c1(2)] .
        then have "fit origin m k (pc_sh c1)"
          by (rule ctx_fit [OF _ c1(3)]) (use fit in \<open>simp add: fit_def c_def\<close>)
        then have "\<exists>r. finish multi [] ((pc_result c1)\<lparr>dp_err := e, dp_code := code\<rparr>) (pc_sh c1) (pc_outHeader c1) = Ok r \<and> px_log r = [] \<and>
            answered multi (sh_d sh) dn r \<and> fit origin m k (px_sh r)"
          using False k(6) st by (intro finish_fit [OF d(1)]) (auto simp: hasError_def c_def)
        then show ?thesis using False run by (auto simp: sent_ok_def)
      qed
    qed
  qed
qed


definition demo_hooks :: hooks where
  "demo_hooks = \<lparr>hk_visit = (\<lambda>r. \<lparr>rp_headers = [], rp_body = []\<rparr>), hk_fill = (\<lambda>r. \<lparr>hp_code = 200, hp_headers = [], hp_contentType = [], hp_body = []\<rparr>),
     hk_setURI = (\<lambda>p q. q), hk_alloc = (\<lambda>n. replicate n 0), hk_cross = [], hk_jwt = None, hk_js = BaseFilter ''JS-ENGINE'', hk_info = True\<rparr>"

definition demo_shared :: shared where
  "demo_shared = \<lparr>sh_d = demo_routed, sh_cache = NewLRUCache 100 True, sh_bufs = (\<lambda>a. None), sh_next = 0, sh_removals = [], sh_releases = []\<rparr>"

definition demo_names :: "string list" where
  "demo_names = [''whitelist'', ''rate-limiting'', ''caching'', ''circuit-breaker'', ''analysis'', ''header'']"

definition demo_rc :: ReqCtx where
  "demo_rc = \<lparr>rc_Header = (\<lambda>n. []), rc_RemoteIP = ''1.2.3.4''\<rparr>"

lemma demo_tables:
  "list_all (\<lambda>x. pr_cb (snd x) = None \<and> pr_limiter (snd x) \<noteq> None) (d_servers demo_routed)"
  "list_all (\<lambda>x. pr_cb (snd x) = None) (d_apis demo_routed)"
  "case map_of (d_apis demo_routed) 5 of None \<Rightarrow> False | Some a \<Rightarrow> ar_parsedBlacklist a = [] \<and> ar_parsedWhitelist a = []"
  "map fst (d_clusters demo_routed) = [1]"
  by (code_simp, code_simp, code_simp, code_simp)

lemma demo_servable: "servable demo_rc {demo_http} multi demo_retry demo_routed"
proof -
  have "node_ok demo_routed demo_retry"
    using demo_tables(4) by (auto simp: node_ok_def copy_ok_def demo_retry_def acquireDispathNode_def serves_def demo_routed_facts
        demo_node_def demo_svr_def map_of_eq_None_iff simp flip: set_map)
  moreover have "\<exists>a. map_of (d_apis demo_routed) 5 = Some a \<and> ips_ok (ClientIP demo_rc) a"
    using demo_tables(3) by (auto simp: ips_ok_def split: option.splits)
  ultimately show ?thesis
    by (simp add: servable_def few_actives_def demo_routed_facts demo_retry_def acquireDispathNode_def params_ok_def demo_node_def)
qed

lemma demo_fit: "fit demo_http n k demo_shared"
proof -
  have "tables_ok n demo_routed" using demo_tables(1,2) by (auto simp: tables_ok_def prot_ok_def list_all_iff)
  then show ?thesis by (simp add: fit_def demo_shared_def demo_routed_facts bufs_ok_def NewLRUCache_def)
qed

lemma demo_chain:
  "external_ok demo_hooks" "insert demo_http (range (\<lambda>p. hk_setURI demo_hooks p demo_http)) = {demo_http}"
  "\<forall>f\<in>set (map (\<lambda>m. the (newFilter demo_env demo_hooks m)) demo_names). \<exists>name. newFilter demo_env demo_hooks name = Some f"
proof -
  show "external_ok demo_hooks"
    using Base_law fresh.mem_alloc_axioms by (simp add: external_ok_def hooks_ok_def demo_hooks_def resp_ok_def)
  show "insert demo_http (range (\<lambda>p. hk_setURI demo_hooks p demo_http)) = {demo_http}" by (auto simp: demo_hooks_def)
  have "list_all (\<lambda>m. case newFilter demo_env demo_hooks m of None \<Rightarrow> False | Some f \<Rightarrow> True) demo_names" by code_simp
  then show "\<forall>f\<in>set (map (\<lambda>m. the (newFilter demo_env demo_hooks m)) demo_names). \<exists>name. newFilter demo_env demo_hooks name = Some f"
    by (fastforce simp: list_all_iff split: option.splits)
qed


end
