(* ===== verification/Json_Scan.thy ===== *)
theory Json_Scan
  imports Conditions
begin

text \<open>
  The scanners of the JSON accessor (\<^verbatim>\<open>json/parser.go\<close>): white space, ends of tokens, strings and blocks, and the value at an
  offset. A document is a string of bytes; \<open>None\<close> is the result \<open>-1\<close>. A loop over \<^verbatim>\<open>data[i:]\<close> is a recursion over that suffix.
\<close>

abbreviation quote :: char where "quote \<equiv> CHR 0x22"

abbreviation backslash :: char where "backslash \<equiv> CHR 0x5C"

datatype json_error = KeyPathNotFoundError | UnknownValueTypeError | MalformedJsonError | MalformedStringError | MalformedArrayError
  | MalformedObjectError | MalformedValueError | OverflowIntegerError | MalformedStringEscapeError | NotATypeError string

datatype ValueType = NotExist | String | Number | Object | Array | Boolean | Null | Unknown

definition is_ws :: "char \<Rightarrow> bool" where
  "is_ws c \<longleftrightarrow> c = CHR '' '' \<or> c = CHR 0x0A \<or> c = CHR 0x0D \<or> c = CHR 0x09"

definition is_end :: "char \<Rightarrow> bool" where
  "is_end c \<longleftrightarrow> is_ws c \<or> c = CHR '','' \<or> c = CHR ''}'' \<or> c = CHR '']''"

fun tokenEnd :: "string \<Rightarrow> nat" where
  "tokenEnd [] = 0"
| "tokenEnd (c # cs) = (if is_end c then 0 else Suc (tokenEnd cs))"

text \<open>Loops from the end: the argument is the reversed slice, the index of its head is the length of its tail.\<close>

fun token_back :: "char \<Rightarrow> string \<Rightarrow> nat" where
  "token_back tok [] = 0"
| "token_back tok (c # cs) = (if c = tok then length cs else if c = CHR ''['' \<or> c = CHR ''{'' then 0 else token_back tok cs)"

definition findTokenStart :: "string \<Rightarrow> char \<Rightarrow> nat" where
  "findTokenStart data tok = token_back tok (rev data)"

fun start_back :: "string \<Rightarrow> nat" where
  "start_back [] = 0"
| "start_back (c # cs) = (if c \<in> {CHR 0x0A, CHR 0x0D, CHR 0x09, CHR '','', CHR ''{'', CHR ''[''} then length cs else start_back cs)"

definition tokenStart :: "string \<Rightarrow> nat" where
  "tokenStart data = start_back (rev data)"

fun nextToken :: "string \<Rightarrow> nat option" where
  "nextToken [] = None"
| "nextToken (c # cs) = (if is_ws c then map_option Suc (nextToken cs) else Some 0)"

fun last_back :: "string \<Rightarrow> nat option" where
  "last_back [] = None"
| "last_back (c # cs) = (if is_ws c then last_back cs else Some (length cs))"

definition lastToken :: "string \<Rightarrow> nat option" where
  "lastToken data = last_back (rev data)"

subsection \<open>Strings and blocks\<close>

text \<open>The inner loop of \<^verbatim>\<open>stringEnd\<close> walks back over the backslashes in front of a quote, two at a time.\<close>

fun even_backslashes :: "string \<Rightarrow> bool" where
  "even_backslashes (c # d # cs) = (if c \<noteq> backslash then True else if d \<noteq> backslash then False else even_backslashes cs)"
| "even_backslashes [c] = (c \<noteq> backslash)"
| "even_backslashes [] = True"

fun string_loop :: "string \<Rightarrow> bool \<Rightarrow> nat \<Rightarrow> string \<Rightarrow> nat option \<times> bool" where
  "string_loop before escaped i [] = (None, escaped)"
| "string_loop before escaped i (c # cs) =
     (if c = quote
      then if \<not> escaped then (Some (i + 1), False)
           else if even_backslashes before then (Some (i + 1), True)
           else string_loop (c # before) escaped (i + 1) cs
      else string_loop (c # before) (if c = backslash then True else escaped) (i + 1) cs)"

definition stringEnd :: "string \<Rightarrow> nat option \<times> bool" where
  "stringEnd data = string_loop [] False 0 data"

function block_loop :: "char \<Rightarrow> char \<Rightarrow> int \<Rightarrow> nat \<Rightarrow> string \<Rightarrow> nat option" where
  "block_loop openSym closeSym level i [] = None"
| "block_loop openSym closeSym level i (c # cs) =
     (if c = quote
      then (case fst (stringEnd cs) of None \<Rightarrow> None | Some se \<Rightarrow> block_loop openSym closeSym level (i + se + 1) (drop se cs))
      else if c = openSym then block_loop openSym closeSym (level + 1) (i + 1) cs
      else if c = closeSym then (if level - 1 = 0 then Some (i + 1) else block_loop openSym closeSym (level - 1) (i + 1) cs)
      else block_loop openSym closeSym level (i + 1) cs)"
  by pat_completeness auto
termination by (relation "measure (\<lambda>(_, _, _, _, cs). length cs)") auto

definition blockEnd :: "string \<Rightarrow> char \<Rightarrow> char \<Rightarrow> nat option" where
  "blockEnd data openSym closeSym = block_loop openSym closeSym 0 0 data"

subsection \<open>Values\<close>

definition literal_type :: "string \<Rightarrow> ValueType" where
  "literal_type value = (case value of
      [] \<Rightarrow> Unknown
    | c # cs \<Rightarrow>
        if c = CHR ''t'' \<or> c = CHR ''f'' then (if value = ''true'' \<or> value = ''false'' then Boolean else Unknown)
        else if c = CHR ''u'' \<or> c = CHR ''n'' then (if value = ''null'' then Null else Unknown)
        else if (CHR ''0'' \<le> c \<and> c \<le> CHR ''9'') \<or> c = CHR ''-'' then Number
        else Unknown)"

text \<open>The value, its type, the offset after it, and the error. The first byte of an empty token is an end of token, no literal.\<close>

definition getType :: "string \<Rightarrow> nat \<Rightarrow> string \<times> ValueType \<times> nat \<times> json_error option" where
  "getType data offset =
     (let rest = drop offset data; found = (\<lambda>n t. (take n rest, t, offset + n, None))
      in if hd rest = quote
         then (case fst (stringEnd (tl rest)) of Some n \<Rightarrow> found (n + 1) String | None \<Rightarrow> ([], String, offset, Some MalformedStringError))
         else if hd rest = CHR ''[''
         then (case blockEnd rest (CHR ''['') (CHR '']'') of Some n \<Rightarrow> found n Array | None \<Rightarrow> ([], Array, offset, Some MalformedArrayError))
         else if hd rest = CHR ''{''
         then (case blockEnd rest (CHR ''{'') (CHR ''}'') of Some n \<Rightarrow> found n Object | None \<Rightarrow> ([], Object, offset, Some MalformedObjectError))
         else (let n = tokenEnd rest; t = literal_type (take n rest)
               in if t = Unknown then ([], Unknown, offset, Some UnknownValueTypeError) else found n t))"

text \<open>\<^verbatim>\<open>internalGet\<close> from the offset where the search ended: the value without quotes, its type, where it starts and ends.\<close>

definition value_at :: "string \<Rightarrow> nat \<Rightarrow> string \<times> ValueType \<times> int \<times> int \<times> json_error option" where
  "value_at data offset = (case nextToken (drop offset data) of
      None \<Rightarrow> ([], NotExist, int offset, -1, Some MalformedJsonError)
    | Some n \<Rightarrow> (case getType data (offset + n) of
        (value, dataType, endOffset, Some er) \<Rightarrow> (value, dataType, int (offset + n), int endOffset, Some er)
      | (value, dataType, endOffset, None) \<Rightarrow>
          (if dataType = String then take (length value - 2) (drop 1 value) else value, dataType, int (offset + n), int endOffset, None)))"

end
