(* ===== verification/Render.thy ===== *)
theory Render
  imports Dispatch Json_Scan
begin

text \<open>
  The answer of the gateway (\<^verbatim>\<open>proxy/render.go\<close>, \<^verbatim>\<open>proxy/multi.go\<close>, \<^verbatim>\<open>copyHeaderTo\<close> of \<^verbatim>\<open>proxy/dispatcher.go\<close>): the body of the
  single node, the merged bodies of several nodes, a template filled from them, the default value of the API or an
  error code.

  The JSON accessor (\<^verbatim>\<open>Get\<close> and \<^verbatim>\<open>Set\<close>) and \<^verbatim>\<open>fasthttp\<close>'s \<^verbatim>\<open>Header.CopyTo\<close> are the record \<open>render_env\<close>. Releasing buffers to their pools is
  left out.
\<close>

record clientResp =
  cl_status :: int
  cl_contentType :: string
  cl_headers :: "(string \<times> string) list"
  cl_cookies :: "(string \<times> string) list"
  cl_body :: string

record render_env =
  re_get :: "string \<Rightarrow> string list \<Rightarrow> (string \<times> ValueType) option"
  re_set :: "string \<Rightarrow> string \<Rightarrow> string \<Rightarrow> string option"
  re_copyTo :: "httpResp \<Rightarrow> clientResp \<Rightarrow> clientResp"

definition emptyString :: string where
  "emptyString = [CHR 0x22, CHR 0x22]"

definition emptyObject :: string where
  "emptyObject = ''{}''"

definition emptyArray :: string where
  "emptyArray = ''[]''"

definition MultiResultsContentType :: string where
  "MultiResultsContentType = ''application/json; charset=utf-8''"

definition MultiResultsRemoveHeaders :: "string list" where
  "MultiResultsRemoveHeaders = [''Content-Length'', ''Content-Type'', ''Date'']"

subsection \<open>The merged context of several nodes\<close>

text \<open>\<^verbatim>\<open>completePart\<close> drops the error of \<^verbatim>\<open>Set\<close>, which returns nil with it.\<close>

definition completePart :: "render_env \<Rightarrow> string \<Rightarrow> string \<Rightarrow> string \<Rightarrow> string" where
  "completePart re attr part ctx =
     (if part \<noteq> [] \<and> attr \<noteq> [] then (case re_set re ctx part attr of None \<Rightarrow> [] | Some ctx' \<Rightarrow> ctx') else ctx)"

definition getAttr :: "render_env \<Rightarrow> string list \<Rightarrow> string \<Rightarrow> string" where
  "getAttr re paths ctx = (case re_get re ctx paths of None \<Rightarrow> [] | Some (v, t) \<Rightarrow> v)"

subsection \<open>Templates\<close>

text \<open>An error of the accessor is the value \<open>None\<close>.\<close>

definition extractAttrValue :: "render_env \<Rightarrow> string \<Rightarrow> string list \<Rightarrow> string option" where
  "extractAttrValue re src paths =
     (case re_get re src paths of
        None \<Rightarrow> None
      | Some (v, vt) \<Rightarrow>
          Some (if vt = String \<and> v \<noteq> [] then CHR 0x22 # v @ [CHR 0x22]
                else if vt = String then emptyString
                else if vt = Array \<and> v = [] then emptyArray
                else if vt = Unknown \<or> vt = NotExist \<or> vt = Null then emptyString
                else v))"

fun extract_paths :: "render_env \<Rightarrow> string \<Rightarrow> string list list \<Rightarrow> string \<Rightarrow> string option" where
  "extract_paths re src [] obj = Some obj"
| "extract_paths re src (p # ps) obj =
     (case extractAttrValue re src p of
        None \<Rightarrow> None
      | Some v \<Rightarrow>
          if v \<noteq> [] \<and> p \<noteq> []
          then (case re_set re obj v (last p) of None \<Rightarrow> None | Some obj \<Rightarrow> extract_paths re src ps obj)
          else extract_paths re src ps obj)"

definition extractValue :: "render_env \<Rightarrow> renderAttr \<Rightarrow> string \<Rightarrow> string option" where
  "extractValue re attr src =
     (case rd_extracts attr of
        [p] \<Rightarrow> extractAttrValue re src p
      | ps \<Rightarrow> extract_paths re src ps emptyObject)"

text \<open>The attributes of one object, collected in \<open>obj\<close>: the data itself for a flat object, a fresh one otherwise.\<close>

fun extract_attrs :: "render_env \<Rightarrow> string \<Rightarrow> renderAttr list \<Rightarrow> string \<Rightarrow> string option" where
  "extract_attrs re src [] obj = Some obj"
| "extract_attrs re src (a # rest) obj =
     (case extractValue re a src of
        None \<Rightarrow> None
      | Some v \<Rightarrow>
          if v \<noteq> [] \<and> ra_Name (rd_attrMeta a) \<noteq> []
          then (case re_set re obj v (ra_Name (rd_attrMeta a)) of None \<Rightarrow> None | Some obj \<Rightarrow> extract_attrs re src rest obj)
          else extract_attrs re src rest obj)"

fun extract_objects :: "render_env \<Rightarrow> string \<Rightarrow> renderObject list \<Rightarrow> string \<Rightarrow> string option" where
  "extract_objects re src [] data = Some data"
| "extract_objects re src (ob # rest) data =
     (if ro_FlatAttrs (rd_objMeta ob)
      then (case extract_attrs re src (rd_attrs ob) data of None \<Rightarrow> None | Some data \<Rightarrow> extract_objects re src rest data)
      else case extract_attrs re src (rd_attrs ob) emptyObject of
        None \<Rightarrow> None
      | Some tmp \<Rightarrow>
          if tmp \<noteq> [] \<and> ro_Name (rd_objMeta ob) \<noteq> []
          then (case re_set re data tmp (ro_Name (rd_objMeta ob)) of None \<Rightarrow> None | Some data \<Rightarrow> extract_objects re src rest data)
          else extract_objects re src rest data)"

definition rd_extract :: "render_env \<Rightarrow> apiRuntime \<Rightarrow> string \<Rightarrow> string option" where
  "rd_extract re api src = extract_objects re src (ar_parsedRenderObjects api) emptyObject"

definition renderTemplate :: "render_env \<Rightarrow> apiRuntime \<Rightarrow> string \<Rightarrow> clientResp \<Rightarrow> clientResp" where
  "renderTemplate re api ctx resp =
     (case rd_extract re api ctx of
        None \<Rightarrow> resp\<lparr>cl_status := 500\<rparr>
      | Some data \<Rightarrow> resp\<lparr>cl_body := cl_body resp @ data\<rparr>)"

subsection \<open>Default value, single node, several nodes\<close>

fun default_headers :: "PairValue list \<Rightarrow> clientResp \<Rightarrow> clientResp" where
  "default_headers [] resp = resp"
| "default_headers (h # hs) resp =
     default_headers hs
       (if pv_Name h = ''Content-Type'' then resp\<lparr>cl_contentType := pv_Value h\<rparr>
        else resp\<lparr>cl_headers := cl_headers resp @ [(pv_Name h, pv_Value h)]\<rparr>)"

definition renderDefault :: "apiRuntime \<Rightarrow> clientResp \<Rightarrow> (unit, clientResp) outcome" where
  "renderDefault api resp =
     (case api_DefaultValue (ar_meta api) of
        None \<Rightarrow> Panic
      | Some v \<Rightarrow>
          let resp = default_headers (hr_Headers v) resp;
              resp = resp\<lparr>cl_cookies := cl_cookies resp @ ar_defaultCookies api\<rparr>
          in Ok (resp\<lparr>cl_status := (if 0 < hr_Code v then hr_Code v else 200), cl_body := cl_body resp @ hr_Body v\<rparr>))"

definition api_hasDefaultValue :: "apiRuntime \<Rightarrow> bool" where
  "api_hasDefaultValue api \<longleftrightarrow> api_DefaultValue (ar_meta api) \<noteq> None"

definition renderRaw :: "dispatchNode \<Rightarrow> clientResp \<Rightarrow> (unit, clientResp) outcome" where
  "renderRaw dn resp =
     obind (getResponseBody dn) (\<lambda>b. Ok (resp\<lparr>cl_contentType := getResponseContentType dn, cl_body := cl_body resp @ b\<rparr>))"

definition renderSingle :: "render_env \<Rightarrow> apiRuntime \<Rightarrow> dispatchNode \<Rightarrow> clientResp \<Rightarrow> (unit, clientResp) outcome" where
  "renderSingle re api dn resp =
     (let resp = (case dp_res dn of Some r \<Rightarrow> resp\<lparr>cl_status := hp_code r\<rparr> | None \<Rightarrow> resp)
      in if hasError dn then
           (if api_hasDefaultValue api then renderDefault api resp else Ok (resp\<lparr>cl_status := dp_code dn\<rparr>))
         else if \<not> hasRenderTemplate api then renderRaw dn resp
         else obind (getResponseBody dn) (\<lambda>src. Ok (renderTemplate re api src resp)))"

definition copyHeaderTo :: "render_env \<Rightarrow> dispatchNode \<Rightarrow> clientResp \<Rightarrow> (unit, clientResp) outcome" where
  "copyHeaderTo re dn resp =
     (if dn_UseDefault (nd_meta (dp_node dn)) \<or> hasError dn \<and> hasDefaultValue dn
      then (case dn_DefaultValue (nd_meta (dp_node dn)) of
              None \<Rightarrow> Panic
            | Some v \<Rightarrow> Ok (resp\<lparr>cl_headers := cl_headers resp @ map (\<lambda>h. (pv_Name h, pv_Value h)) (hr_Headers v),
                              cl_cookies := cl_cookies resp @ nd_defaultCookies (dp_node dn)\<rparr>))
      else case dp_res dn of
        None \<Rightarrow> Ok resp
      | Some r \<Rightarrow> Ok (re_copyTo re (r\<lparr>hp_headers := filter (\<lambda>h. fst h \<notin> set MultiResultsRemoveHeaders) (hp_headers r)\<rparr>) resp))"

text \<open>The loop over the nodes: the headers so far and the code of the first failing node without a default.\<close>

fun multi_headers :: "render_env \<Rightarrow> dispatchNode list \<Rightarrow> clientResp \<Rightarrow> (unit, clientResp \<times> int option) outcome" where
  "multi_headers re [] resp = Ok (resp, None)"
| "multi_headers re (dn # dns) resp =
     (if hasError dn \<and> \<not> hasDefaultValue dn then Ok (resp, Some (dp_code dn))
      else obind (copyHeaderTo re dn resp) (multi_headers re dns))"

definition renderMulti :: "render_env \<Rightarrow> apiRuntime \<Rightarrow> dispatchNode list \<Rightarrow> string \<Rightarrow> clientResp \<Rightarrow> (unit, clientResp) outcome" where
  "renderMulti re api dns ctx resp =
     obind (multi_headers re dns resp) (\<lambda>(resp, failed).
       case failed of
         Some code \<Rightarrow> if api_hasDefaultValue api then renderDefault api resp else Ok (resp\<lparr>cl_status := code\<rparr>)
       | None \<Rightarrow> if \<not> hasRenderTemplate api then Ok (resp\<lparr>cl_body := cl_body resp @ ctx\<rparr>)
                 else Ok (renderTemplate re api ctx resp))"

text \<open>\<^verbatim>\<open>init\<close> chooses the way by the number of nodes; \<^verbatim>\<open>render\<close> sets the content type and the status first.\<close>

definition render :: "render_env \<Rightarrow> apiRuntime \<Rightarrow> dispatchNode list \<Rightarrow> string \<Rightarrow> clientResp \<Rightarrow> (unit, clientResp) outcome" where
  "render re api dns ctx resp =
     (let resp = resp\<lparr>cl_contentType := MultiResultsContentType, cl_status := 200\<rparr>
      in case dns of
           [] \<Rightarrow> renderDefault api resp
         | [dn] \<Rightarrow> renderSingle re api dn resp
         | _ \<Rightarrow> renderMulti re api dns ctx resp)"

subsection \<open>What is answered\<close>

text \<open>The nodes that make the whole request fail: a node with an error, unless it is one of several and has a default
  value of its own.\<close>

definition failing :: "dispatchNode list \<Rightarrow> dispatchNode list" where
  "failing dns = filter (\<lambda>dn. hasError dn \<and> (length dns > 1 \<longrightarrow> \<not> hasDefaultValue dn)) dns"

definition defaults_given :: "dispatchNode list \<Rightarrow> bool" where
  "defaults_given dns \<longleftrightarrow> (\<forall>dn\<in>set dns. dn_UseDefault (nd_meta (dp_node dn)) \<longrightarrow> hasDefaultValue dn)"

text \<open>The text a template is filled from or that is answered as it is.\<close>

definition node_body :: "dispatchNode \<Rightarrow> string" where
  "node_body dn =
     (if dn_UseDefault (nd_meta (dp_node dn)) \<or> hasError dn \<and> hasDefaultValue dn
      then hr_Body (the (dn_DefaultValue (nd_meta (dp_node dn))))
      else case dp_res dn of Some r \<Rightarrow> hp_body r | None \<Rightarrow> [])"

definition answer_text :: "dispatchNode list \<Rightarrow> string \<Rightarrow> string" where
  "answer_text dns ctx = (case dns of [dn] \<Rightarrow> node_body dn | _ \<Rightarrow> ctx)"

lemma getResponseBody_ok: "(dn_UseDefault (nd_meta (dp_node dn)) \<longrightarrow> hasDefaultValue dn) \<Longrightarrow> getResponseBody dn = Ok (node_body dn)"
  by (auto simp: getResponseBody_def node_body_def hasDefaultValue_def split: option.splits)

lemma default_headers_keep [simp]:
  "cl_status (default_headers hs resp) = cl_status resp" "cl_body (default_headers hs resp) = cl_body resp"
  by (induction hs arbitrary: resp) auto

lemma renderDefault_ok:
  "api_DefaultValue (ar_meta api) = Some v \<Longrightarrow>
    \<exists>r. renderDefault api resp = Ok r \<and> cl_status r = (if 0 < hr_Code v then hr_Code v else 200) \<and> cl_body r = cl_body resp @ hr_Body v"
  by (simp add: renderDefault_def Let_def)

lemma copyHeaderTo_ok:
  assumes "dn_UseDefault (nd_meta (dp_node dn)) \<longrightarrow> hasDefaultValue dn" "\<And>r c. cl_body (re_copyTo re r c) = cl_body c"
  shows "\<exists>r. copyHeaderTo re dn resp = Ok r \<and> cl_body r = cl_body resp"
  using assms by (auto simp: copyHeaderTo_def hasDefaultValue_def split: option.splits)

lemma multi_headers_ok:
  assumes "defaults_given dns" "\<And>r c. cl_body (re_copyTo re r c) = cl_body c"
  shows "\<exists>r. multi_headers re dns resp = Ok (r, case filter (\<lambda>dn. hasError dn \<and> \<not> hasDefaultValue dn) dns of [] \<Rightarrow> None | dn # _ \<Rightarrow> Some (dp_code dn)) \<and>
    cl_body r = cl_body resp"
  using assms(1)
proof (induction dns arbitrary: resp)
  case (Cons dn dns)
  then have d: "dn_UseDefault (nd_meta (dp_node dn)) \<longrightarrow> hasDefaultValue dn" "defaults_given dns" by (auto simp: defaults_given_def)
  show ?case
  proof (cases "hasError dn \<and> \<not> hasDefaultValue dn")
    case False
    obtain r where r: "copyHeaderTo re dn resp = Ok r" "cl_body r = cl_body resp" using copyHeaderTo_ok [OF d(1) assms(2)] by blast
    show ?thesis using False r Cons.IH [OF d(2), of r] by auto
  qed simp
qed simp

text \<open>The answer for the three kinds of result.\<close>

definition answer_ok :: "render_env \<Rightarrow> apiRuntime \<Rightarrow> dispatchNode list \<Rightarrow> string \<Rightarrow> clientResp \<Rightarrow> bool" where
  "answer_ok re api dns ctx r \<longleftrightarrow>
     (if dns = [] \<or> failing dns \<noteq> [] then
        (case api_DefaultValue (ar_meta api) of
           Some v \<Rightarrow> cl_status r = (if 0 < hr_Code v then hr_Code v else 200) \<and> cl_body r = hr_Body v
         | None \<Rightarrow> cl_status r = dp_code (hd (failing dns)) \<and> cl_body r = [])
      else if hasRenderTemplate api then
        (case rd_extract re api (answer_text dns ctx) of
           Some t \<Rightarrow> cl_body r = t
         | None \<Rightarrow> cl_status r = 500 \<and> cl_body r = [])
      else cl_body r = answer_text dns ctx)"

lemma renderTemplate_body:
  "cl_body (renderTemplate re api src resp) = (case rd_extract re api src of None \<Rightarrow> cl_body resp | Some t \<Rightarrow> cl_body resp @ t)"
  "rd_extract re api src = None \<Longrightarrow> cl_status (renderTemplate re api src resp) = 500"
  by (simp_all add: renderTemplate_def split: option.splits)

lemma render_single:
  assumes "dn_UseDefault (nd_meta (dp_node dn)) \<longrightarrow> hasDefaultValue dn" "cl_body resp = []"
  shows "\<exists>r. render re api [dn] ctx resp = Ok r \<and> answer_ok re api [dn] ctx r"
proof (cases "hasError dn")
  case True
  then have f: "failing [dn] = [dn]" by (simp add: failing_def)
  show ?thesis
  proof (cases "api_DefaultValue (ar_meta api)")
    case None
    then show ?thesis using True f assms(2)
      by (simp add: render_def renderSingle_def api_hasDefaultValue_def answer_ok_def Let_def split: option.splits)
  next
    case (Some v)
    then show ?thesis using True f assms(2)
      by (simp add: render_def renderSingle_def api_hasDefaultValue_def renderDefault_def answer_ok_def Let_def split: option.splits)
  qed
next
  case False
  then have f: "failing [dn] = []" by (simp add: failing_def)
  have b: "getResponseBody dn = Ok (node_body dn)" by (rule getResponseBody_ok [OF assms(1)])
  define r0 where "r0 = (let c = resp\<lparr>cl_contentType := MultiResultsContentType, cl_status := 200\<rparr>
      in case dp_res dn of Some r \<Rightarrow> c\<lparr>cl_status := hp_code r\<rparr> | None \<Rightarrow> c)"
  have e: "cl_body r0 = []" using assms(2) by (simp add: r0_def Let_def split: option.splits)
  have run: "render re api [dn] ctx resp = (if hasRenderTemplate api then Ok (renderTemplate re api (node_body dn) r0) else renderRaw dn r0)"
    using False b by (simp add: render_def renderSingle_def r0_def Let_def)
  show ?thesis
  proof (cases "hasRenderTemplate api")
    case True
    then show ?thesis using run e f renderTemplate_body [of re api "node_body dn" r0]
      by (auto simp: answer_ok_def answer_text_def split: option.splits)
  next
    case False
    then show ?thesis using run e f b by (auto simp: renderRaw_def answer_ok_def answer_text_def)
  qed
qed

lemma render_several:
  assumes "defaults_given dns" "\<And>r c. cl_body (re_copyTo re r c) = cl_body c" "cl_body resp = []" "length dns > 1"
  shows "\<exists>r. render re api dns ctx resp = Ok r \<and> answer_ok re api dns ctx r"
proof -
  have f: "filter (\<lambda>dn. hasError dn \<and> \<not> hasDefaultValue dn) dns = failing dns" using assms(4) by (simp add: failing_def)
  define resp0 where "resp0 = resp\<lparr>cl_contentType := MultiResultsContentType, cl_status := 200\<rparr>"
  obtain r0 where r0: "multi_headers re dns resp0 = Ok (r0, case failing dns of [] \<Rightarrow> None | dn # _ \<Rightarrow> Some (dp_code dn))" "cl_body r0 = []"
    using multi_headers_ok [OF assms(1,2), of resp0] assms(3) f by (auto simp: resp0_def)
  have run: "render re api dns ctx resp = renderMulti re api dns ctx resp0"
    using assms(4) by (cases dns rule: list.exhaust [case_names Nil Cons]; cases "tl dns") (auto simp: render_def resp0_def)
  have ne: "dns \<noteq> []" "answer_text dns ctx = ctx" using assms(4) by (auto simp: answer_text_def split: list.splits)
  show ?thesis
  proof (cases "failing dns")
    case Nil
    then show ?thesis using run r0 ne renderTemplate_body [of re api ctx r0]
      by (auto simp: renderMulti_def answer_ok_def split: option.splits)
  next
    case (Cons dn rest)
    then show ?thesis using run r0 ne
      by (cases "api_DefaultValue (ar_meta api)")
        (auto simp: renderMulti_def answer_ok_def api_hasDefaultValue_def renderDefault_def Let_def)
  qed
qed

lemma render_run:
  assumes "defaults_given dns" "dns = [] \<longrightarrow> api_hasDefaultValue api" "\<forall>r c. cl_body (re_copyTo re r c) = cl_body c" "cl_body resp = []"
  shows "\<exists>r. render re api dns ctx resp = Ok r \<and> answer_ok re api dns ctx r"
proof (cases dns)
  case Nil
  then obtain v where v: "api_DefaultValue (ar_meta api) = Some v" using assms(2) by (auto simp: api_hasDefaultValue_def)
  then show ?thesis using renderDefault_ok [OF v] Nil assms(4) by (fastforce simp: render_def answer_ok_def)
next
  case (Cons dn rest)
  show ?thesis
  proof (cases rest)
    case Nil
    then show ?thesis using Cons assms(1,4) render_single by (auto simp: defaults_given_def)
  next
    case (Cons dn2 rest2)
    then show ?thesis using \<open>dns = dn # rest\<close> assms by (intro render_several) auto
  qed
qed


definition demo_render :: render_env where
  "demo_render = \<lparr>re_get = (\<lambda>src ps. None), re_set = (\<lambda>d v k. Some (d @ k @ v)), re_copyTo = (\<lambda>r c. c\<lparr>cl_status := hp_code r\<rparr>)\<rparr>"

definition demo_failed :: dispatchNode where
  "demo_failed = \<lparr>dp_idx = 0, dp_api = 5, dp_node = \<lparr>nd_httpOption = en_http demo_env, nd_meta = demo_node, nd_validations = [],
     nd_defaultCookies = [], nd_parsedExprs = []\<rparr>, dp_dest = None, dp_copyTo = None, dp_res = None, dp_err = Some ErrNoServer, dp_code = 503\<rparr>"


end
