(* ===== verification/Serve.thy ===== *)
theory Serve
  imports Proxy_Flow Render
begin

text \<open>
  Serving a whole request (\<^verbatim>\<open>ServeFastHTTP\<close> of \<^verbatim>\<open>proxy/proxy.go\<close>): the request is dispatched, the nodes of the API are handed to the
  workers batch by batch, their bodies are merged, and the answer is rendered.

  The main loop and the workers are the steps of a transition relation. A worker serves a node in one step
  (\<^verbatim>\<open>doProxy\<close>), any node that has been handed over may be next, so every order of completion is covered. The
  expression context is shared by all nodes: the loop overwrites its \<^verbatim>\<open>Depend\<close> field before each hand-over.
\<close>

subsection \<open>Copied traffic\<close>

record copyReq =
  cq_origin :: HttpReq
  cq_api :: apiRuntime
  cq_node :: apiNode
  cq_to :: serverRuntime
  cq_params :: "string \<rightharpoonup> string"
  cq_idx :: nat

definition copy_needRewrite :: "copyReq \<Rightarrow> bool" where
  "copy_needRewrite q \<longleftrightarrow> dn_URLRewrite (nd_meta (cq_node q)) \<noteq> []"

definition rewriteURL :: "env \<Rightarrow> copyReq \<Rightarrow> (unit, string) outcome" where
  "rewriteURL en q =
     Exec (en_jget en) \<lparr>ctx_Origin = Some (Request.truncate (cq_origin q)), ctx_Depend = None, ctx_Params = Some (cq_params q)\<rparr> (nd_parsedExprs (cq_node q))"

definition copy_prepare :: "env \<Rightarrow> hooks \<Rightarrow> copyReq \<Rightarrow> (unit, copyReq) outcome" where
  "copy_prepare en hk q =
     (if copy_needRewrite q
      then obind (rewriteURL en q) (\<lambda>p. Ok (if p = [] then q
             else q\<lparr>cq_origin := (hk_setURI hk p (cq_origin q))\<lparr>rq_Host := sv_Addr (sr_meta (cq_to q))\<rparr>\<rparr>))
      else Ok q)"

text \<open>What a copy worker sends, and where.\<close>

definition doCopy :: "env \<Rightarrow> hooks \<Rightarrow> copyReq \<Rightarrow> (unit, HttpReq \<times> string) outcome" where
  "doCopy en hk q = obind (copy_prepare en hk q) (\<lambda>q. Ok (cq_origin q, sv_Addr (sr_meta (cq_to q))))"

definition newCopyReq :: "env \<Rightarrow> Ctx \<Rightarrow> HttpReq \<Rightarrow> nat \<Rightarrow> dispatchNode \<Rightarrow> dispatcher \<Rightarrow> (unit, copyReq list) outcome" where
  "newCopyReq en ectx req idx dn d =
     (case dp_copyTo dn of
        None \<Rightarrow> Ok []
      | Some i \<Rightarrow>
          (case (map_of (d_servers d) i, map_of (d_apis d) (dp_api dn)) of
             (Some s, Some a) \<Rightarrow>
               obind (server_clone en s) (\<lambda>s. obind (api_clone en a) (\<lambda>a. obind (node_clone en (dp_node dn)) (\<lambda>n.
                 Ok [\<lparr>cq_origin = req, cq_api = a, cq_node = n, cq_to = s, cq_params = ctx_CopyParams ectx, cq_idx = idx\<rparr>])))
           | _ \<Rightarrow> Panic))"

subsection \<open>The steps\<close>

record serveCfg =
  sc_en :: env
  sc_hk :: hooks
  sc_re :: render_env
  sc_backend :: "nat \<Rightarrow> backend"
  sc_endAt :: "nat \<Rightarrow> int"
  sc_fs :: "filter list"
  sc_rc :: ReqCtx
  sc_req :: HttpReq
  sc_ectx :: Ctx
  sc_api :: apiRuntime
  sc_dns :: "dispatchNode list"

record serveState =
  ss_todo :: "nat list"
  ss_wg :: bool
  ss_last :: int
  ss_running :: "nat list"
  ss_done :: "(nat \<times> proxy_result) list"
  ss_data :: "string option"
  ss_depend :: "string option"
  ss_copies :: "copyReq list"
  ss_sh :: shared

definition num :: "serveCfg \<Rightarrow> nat" where
  "num cf = length (sc_dns cf)"

definition batch :: "serveCfg \<Rightarrow> nat \<Rightarrow> int" where
  "batch cf i = dn_BatchIndex (nd_meta (dp_node (sc_dns cf ! i)))"

definition serve_begin :: "serveCfg \<Rightarrow> shared \<Rightarrow> serveState" where
  "serve_begin cf sh = \<lparr>ss_todo = [0..<num cf], ss_wg = (1 < num cf), ss_last = 0, ss_running = [], ss_done = [],
     ss_data = (if 1 < num cf then Some emptyObject else None), ss_depend = None, ss_copies = [], ss_sh = sh\<rparr>"

text \<open>A worker serves node \<open>i\<close> and adds its body to the merged context.\<close>

definition add_part :: "render_env \<Rightarrow> proxy_result \<Rightarrow> string \<Rightarrow> string" where
  "add_part re r ctx = (case px_part r of None \<Rightarrow> ctx | Some (attr, b) \<Rightarrow> completePart re attr b ctx)"

definition complete_node :: "serveCfg \<Rightarrow> nat \<Rightarrow> proxy_result \<Rightarrow> serveState \<Rightarrow> serveState" where
  "complete_node cf i r s = s\<lparr>ss_running := remove1 i (ss_running s), ss_done := ss_done s @ [(i, r)], ss_sh := px_sh r,
     ss_data := map_option (add_part (sc_re cf) r) (ss_data s)\<rparr>"

definition work :: "serveCfg \<Rightarrow> nat \<Rightarrow> serveState \<Rightarrow> (unit, serveState) outcome" where
  "work cf i s =
     obind (doProxy (sc_en cf) (sc_hk cf) (sc_backend cf i) (sc_endAt cf i) (PrepareFilter # sc_fs cf) (1 < num cf) (sc_rc cf) (sc_req cf)
         ((sc_ectx cf)\<lparr>ctx_Depend := ss_depend s\<rparr>) (sc_dns cf ! i) (ss_sh s)) (\<lambda>r. Ok (complete_node cf i r s))"

text \<open>The body of the loop for the next node, after a possible wait.\<close>

definition hand_over :: "serveCfg \<Rightarrow> serveState \<Rightarrow> (unit, serveState) outcome" where
  "hand_over cf s =
     (case ss_todo s of
        [] \<Rightarrow> Ok s
      | i # rest \<Rightarrow>
          let s = s\<lparr>ss_todo := rest, ss_depend := (case ss_data s of None \<Rightarrow> ss_depend s | Some x \<Rightarrow> Some x)\<rparr>
          in obind (newCopyReq (sc_en cf) ((sc_ectx cf)\<lparr>ctx_Depend := ss_depend s\<rparr>) (sc_req cf) i (sc_dns cf ! i) (sh_d (ss_sh s))) (\<lambda>qs.
               let s = s\<lparr>ss_copies := ss_copies s @ qs\<rparr>
               in if ss_wg s then Ok (s\<lparr>ss_running := ss_running s @ [i]\<rparr>) else work cf i s))"

definition must_wait :: "serveCfg \<Rightarrow> serveState \<Rightarrow> bool" where
  "must_wait cf s \<longleftrightarrow> ss_wg s \<and> (case ss_todo s of [] \<Rightarrow> False | i # _ \<Rightarrow> ss_last s < batch cf i)"

text \<open>After the wait for the last batch: a new wait group, unless the node is the last one.\<close>

definition next_batch :: "serveCfg \<Rightarrow> serveState \<Rightarrow> serveState" where
  "next_batch cf s = s\<lparr>ss_wg := (1 < num cf - hd (ss_todo s)), ss_last := batch cf (hd (ss_todo s))\<rparr>"

inductive serve_step :: "serveCfg \<Rightarrow> serveState \<Rightarrow> serveState \<Rightarrow> bool" for cf where
  Wait: "must_wait cf s \<Longrightarrow> ss_running s = [] \<Longrightarrow> serve_step cf s (next_batch cf s)"
| HandOver: "ss_todo s \<noteq> [] \<Longrightarrow> \<not> must_wait cf s \<Longrightarrow> hand_over cf s = Ok s' \<Longrightarrow> serve_step cf s s'"
| Work: "i \<in> set (ss_running s) \<Longrightarrow> work cf i s = Ok s' \<Longrightarrow> serve_step cf s s'"

definition completed :: "serveState \<Rightarrow> bool" where
  "completed s \<longleftrightarrow> ss_todo s = [] \<and> ss_running s = []"

text \<open>The answer, from the nodes as the workers left them.\<close>

definition served_nodes :: "serveCfg \<Rightarrow> serveState \<Rightarrow> dispatchNode list" where
  "served_nodes cf s = map (\<lambda>i. case map_of (ss_done s) i of Some r \<Rightarrow> px_dn r | None \<Rightarrow> sc_dns cf ! i) [0..<num cf]"

definition serve_answer :: "serveCfg \<Rightarrow> serveState \<Rightarrow> clientResp \<Rightarrow> (unit, clientResp) outcome" where
  "serve_answer cf s resp = render (sc_re cf) (sc_api cf) (served_nodes cf s) (case ss_data s of None \<Rightarrow> [] | Some x \<Rightarrow> x) resp"

text \<open>The head of the handler: a stopped proxy answers 503, a request that matches nothing 404.\<close>

definition serve_open :: "bool \<Rightarrow> env \<Rightarrow> ReqCtx \<Rightarrow> HttpReq \<Rightarrow> dispatcher \<Rightarrow> (unit, int + apiRuntime \<times> dispatchNode list \<times> Ctx \<times> dispatcher) outcome" where
  "serve_open stopped en rc req d =
     (if stopped then Ok (Inl 503)
      else obind (dispatch en rc req d) (\<lambda>(api, dns, c, d).
        case api of
          None \<Rightarrow> Ok (Inl 404)
        | Some a \<Rightarrow> if dns = [] \<and> api_DefaultValue (ar_meta a) = None then Ok (Inl 404) else Ok (Inr (a, dns, c, d))))"

subsection \<open>What a request needs\<close>

definition filter_cost :: "serveCfg \<Rightarrow> nat" where
  "filter_cost cf = 2 * length (sc_fs cf) + 1"

definition call_cost :: "serveCfg \<Rightarrow> nat \<Rightarrow> nat" where
  "call_cost cf i = nat (max_times (sc_dns cf ! i))"

text \<open>The level of a node: batches below zero run with batch zero.\<close>

definition lvl :: "serveCfg \<Rightarrow> nat \<Rightarrow> int" where
  "lvl cf i = max 0 (batch cf i)"

definition serve_ready :: "serveCfg \<Rightarrow> shared \<Rightarrow> bool" where
  "serve_ready cf sh \<longleftrightarrow> good (en_rx (sc_en cf)) (sh_d sh) \<and> external_ok (sc_hk cf) \<and>
     (\<forall>f\<in>set (sc_fs cf). \<exists>name. newFilter (sc_en cf) (sc_hk cf) name = Some f) \<and> ctx_Origin (sc_ectx cf) \<noteq> None \<and>
     (\<forall>dn\<in>set (sc_dns cf). servable (sc_rc cf) (insert (sc_req cf) (range (\<lambda>p. hk_setURI (sc_hk cf) p (sc_req cf)))) (1 < num cf) dn (sh_d sh) \<and>
        valid_node (en_rx (sc_en cf)) (nd_meta (dp_node dn))) \<and>
     defaults_given (sc_dns cf) \<and> (sc_dns cf = [] \<longrightarrow> api_hasDefaultValue (sc_api cf)) \<and>
     sorted (map (batch cf) [0..<num cf]) \<and>
     fit (sc_req cf) (num cf * filter_cost cf) (sum_list (map (call_cost cf) [0..<num cf])) sh \<and>
     (\<forall>r c. cl_body (re_copyTo (sc_re cf) r c) = cl_body c)"

definition merged :: "serveCfg \<Rightarrow> (nat \<times> proxy_result) list \<Rightarrow> string" where
  "merged cf xs = fold (\<lambda>x. add_part (sc_re cf) (snd x)) xs emptyObject"

subsection \<open>Serving a node is safe\<close>

lemma work_run:
  assumes "serve_ready cf sh0" "i < num cf" "stable (sh_d sh0) (sh_d (ss_sh s))"
    and "fit (sc_req cf) (filter_cost cf + m) (call_cost cf i + k) (ss_sh s)"
  shows "\<exists>r. work cf i s = Ok (complete_node cf i r s) \<and> sent_ok (1 < num cf) (sh_d sh0) (sc_dns cf ! i) r \<and>
    stable (sh_d sh0) (sh_d (px_sh r)) \<and> fit (sc_req cf) m k (px_sh r)"
proof -
  let ?dn = "sc_dns cf ! i" and ?sh = "ss_sh s" and ?reqs = "insert (sc_req cf) (range (\<lambda>p. hk_setURI (sc_hk cf) p (sc_req cf)))"
  have dn: "?dn \<in> set (sc_dns cf)" using assms(2) by (simp add: num_def)
  have g: "good (en_rx (sc_en cf)) (sh_d ?sh)" using stable_good [OF assms(3)] assms(1) by (simp add: serve_ready_def)
  have v: "servable (sc_rc cf) ?reqs (1 < num cf) ?dn (sh_d ?sh)"
    using servable_stable [OF assms(3)] assms(1) dn by (simp add: serve_ready_def)
  obtain q where q: "ctx_Origin ((sc_ectx cf)\<lparr>ctx_Depend := ss_depend s\<rparr>) = Some q" using assms(1) by (auto simp: serve_ready_def)
  have f: "fit (sc_req cf) (2 * length (sc_fs cf) + 1 + m) (nat (max_times ?dn) + k) ?sh"
    using assms(4) by (simp add: filter_cost_def call_cost_def)
  have e: "external_ok (sc_hk cf)" "\<forall>f\<in>set (sc_fs cf). \<exists>name. newFilter (sc_en cf) (sc_hk cf) name = Some f"
    using assms(1) by (simp_all add: serve_ready_def)
  obtain r where r: "doProxy (sc_en cf) (sc_hk cf) (sc_backend cf i) (sc_endAt cf i) (PrepareFilter # sc_fs cf) (1 < num cf) (sc_rc cf) (sc_req cf)
         ((sc_ectx cf)\<lparr>ctx_Depend := ss_depend s\<rparr>) ?dn ?sh = Ok r" "sent_ok (1 < num cf) (sh_d ?sh) ?dn r" "fit (sc_req cf) m k (px_sh r)"
    using doProxy_run [OF g e v f q] by blast
  have st: "stable (sh_d ?sh) (sh_d (px_sh r))" using r(2) by (simp add: sent_ok_def answered_def)
  show ?thesis using r sent_stable [OF assms(3) r(2)] stable_trans [OF assms(3) st] by (auto simp: work_def)
qed

lemma newCopyReq_run:
  assumes "serve_ready cf sh0" "i < num cf" "stable (sh_d sh0) d"
  shows "\<exists>qs. newCopyReq (sc_en cf) ectx (sc_req cf) i (sc_dns cf ! i) d = Ok qs"
proof (cases "dp_copyTo (sc_dns cf ! i)")
  case (Some j)
  let ?dn = "sc_dns cf ! i"
  have dn: "?dn \<in> set (sc_dns cf)" using assms(2) by (simp add: num_def)
  have g: "good (en_rx (sc_en cf)) d" using stable_good [OF assms(3)] assms(1) by (simp add: serve_ready_def)
  have v: "servable (sc_rc cf) (insert (sc_req cf) (range (\<lambda>p. hk_setURI (sc_hk cf) p (sc_req cf)))) (1 < num cf) ?dn d"
    "valid_node (en_rx (sc_en cf)) (nd_meta (dp_node ?dn))"
    using servable_stable [OF assms(3)] assms(1) dn by (simp_all add: serve_ready_def)
  have inv: "disp_inv d" using g by (simp add: good_def)
  obtain k where k: "serves d k j" using v(1) Some by (auto simp: servable_def node_ok_def copy_ok_def)
  then obtain s where s: "map_of (d_servers d) j = Some s" using active_bound [OF inv] by (fastforce simp: serves_def)
  obtain a where a: "map_of (d_apis d) (dp_api ?dn) = Some a" using v(1) by (auto simp: servable_def)
  have ok: "server_ok s" "api_ok (en_rx (sc_en cf)) a"
    using g map_of_SomeD [OF s] map_of_SomeD [OF a] by (auto simp: good_defs)
  then obtain s' a' where c: "server_clone (sc_en cf) s = Ok s'" "api_clone (sc_en cf) a = Ok a'"
    using server_clone_run [of s] api_clone_run [of "sc_en cf" a] by blast
  obtain n where "node_clone (sc_en cf) (dp_node ?dn) = Ok n" using newAPINode_run [OF v(2)] by (auto simp: node_clone_def)
  then show ?thesis using Some s a c by (simp add: newCopyReq_def)
qed (simp add: newCopyReq_def)

subsection \<open>The invariant of the steps\<close>

text \<open>Every node is waiting, running or done, and there is room for those that are not done.\<close>

definition serve_inv :: "serveCfg \<Rightarrow> shared \<Rightarrow> serveState \<Rightarrow> bool" where
  "serve_inv cf sh0 s \<longleftrightarrow>
     mset (map fst (ss_done s)) + mset (ss_running s) + mset (ss_todo s) = mset [0..<num cf] \<and>
     (\<exists>m\<le>num cf. ss_todo s = [m..<num cf]) \<and> stable (sh_d sh0) (sh_d (ss_sh s)) \<and>
     fit (sc_req cf) ((length (ss_running s) + length (ss_todo s)) * filter_cost cf)
       (sum_list (map (call_cost cf) (ss_running s @ ss_todo s))) (ss_sh s) \<and>
     (\<forall>x\<in>set (ss_done s). sent_ok (1 < num cf) (sh_d sh0) (sc_dns cf ! fst x) (snd x)) \<and>
     (\<not> ss_wg s \<longrightarrow> length (ss_running s) + length (ss_todo s) \<le> 1) \<and> (ss_wg s \<longrightarrow> 1 < num cf)"

text \<open>Batches are served in order, and a running node sees the merged bodies of all lower levels.\<close>

definition serve_ord :: "serveCfg \<Rightarrow> serveState \<Rightarrow> bool" where
  "serve_ord cf s \<longleftrightarrow> 0 \<le> ss_last s \<and> sorted (map (lvl cf) (map fst (ss_done s))) \<and>
     (\<forall>x\<in>set (ss_done s). \<forall>j\<in>set (ss_running s) \<union> set (ss_todo s). lvl cf (fst x) \<le> lvl cf j) \<and>
     (\<forall>i\<in>set (ss_running s). ss_last s \<le> lvl cf i \<and> (ss_wg s \<longrightarrow> lvl cf i = ss_last s)) \<and> (\<forall>j\<in>set (ss_todo s). ss_last s \<le> lvl cf j) \<and>
     ss_data s = (if 1 < num cf then Some (merged cf (ss_done s)) else None) \<and>
     (1 < num cf \<longrightarrow> ss_running s \<noteq> [] \<longrightarrow>
        (\<exists>k. ss_depend s = Some (merged cf (take k (ss_done s))) \<and> (\<forall>x\<in>set (drop k (ss_done s)). ss_wg s \<and> lvl cf (fst x) = ss_last s)))"

text \<open>Handing a node over, whether a worker or the loop itself will serve it.\<close>

definition enqueue :: "nat \<Rightarrow> copyReq list \<Rightarrow> serveState \<Rightarrow> serveState" where
  "enqueue i qs s = s\<lparr>ss_todo := tl (ss_todo s), ss_depend := (case ss_data s of None \<Rightarrow> ss_depend s | Some x \<Rightarrow> Some x),
     ss_copies := ss_copies s @ qs, ss_running := ss_running s @ [i]\<rparr>"

lemma serve_begin_inv:
  assumes "serve_ready cf sh"
  shows "serve_inv cf sh (serve_begin cf sh) \<and> serve_ord cf (serve_begin cf sh)"
  using assms by (auto simp: serve_inv_def serve_ord_def serve_begin_def serve_ready_def merged_def lvl_def)

lemma inv_stable: "serve_inv cf sh0 s \<Longrightarrow> stable (sh_d sh0) (sh_d (ss_sh s))"
  by (simp add: serve_inv_def)

lemma todo_Cons:
  assumes "serve_inv cf sh0 s" "ss_todo s = i # rest"
  shows "i < num cf" "rest = [Suc i..<num cf]" "i \<notin> set (ss_running s)"
proof -
  obtain m where m: "m \<le> num cf" "i # rest = [m..<num cf]" using assms by (auto simp: serve_inv_def)
  have "[m..<num cf] = i # rest" by (rule m(2) [symmetric])
  then have "m < num cf \<and> m = i \<and> [Suc i..<num cf] = rest" unfolding upt_eq_Cons_conv by auto
  then show i: "i < num cf" "rest = [Suc i..<num cf]" by auto
  have "count (mset (map fst (ss_done s)) + mset (ss_running s) + mset (ss_todo s)) i = count (mset [0..<num cf]) i"
    using assms(1) unfolding serve_inv_def by metis
  then have "count (mset (ss_running s)) i = 0" using assms(2) i(1) by simp
  then show "i \<notin> set (ss_running s)" by (simp add: count_eq_zero_iff)
qed

lemma enqueue_inv:
  assumes "serve_inv cf sh0 s" "ss_todo s = i # rest"
  shows "serve_inv cf sh0 (enqueue i qs s)"
proof -
  have f: "ss_todo (enqueue i qs s) = rest" "ss_running (enqueue i qs s) = ss_running s @ [i]" "ss_done (enqueue i qs s) = ss_done s"
    "ss_sh (enqueue i qs s) = ss_sh s" "ss_wg (enqueue i qs s) = ss_wg s"
    using assms(2) by (simp_all add: enqueue_def)
  show ?thesis unfolding serve_inv_def f
  proof (intro conjI)
    show "mset (map fst (ss_done s)) + mset (ss_running s @ [i]) + mset rest = mset [0..<num cf]"
      using assms by (simp add: serve_inv_def add.assoc)
    show "fit (sc_req cf) ((length (ss_running s @ [i]) + length rest) * filter_cost cf)
        (sum_list (map (call_cost cf) ((ss_running s @ [i]) @ rest))) (ss_sh s)"
      using assms by (simp add: serve_inv_def)
    show "\<not> ss_wg s \<longrightarrow> length (ss_running s @ [i]) + length rest \<le> 1" using assms by (simp add: serve_inv_def)
      show "\<exists>m\<le>num cf. rest = [m..<num cf]" using todo_Cons(1,2) [OF assms] by (intro exI [of _ "Suc i"]) simp
  qed (use assms(1) in \<open>simp_all add: serve_inv_def\<close>)
qed

lemma enqueue_ord:
  assumes "serve_inv cf sh0 s" "serve_ord cf s" "ss_todo s = i # rest" "\<not> must_wait cf s" "ss_wg s \<or> ss_running s = []"
  shows "serve_ord cf (enqueue i qs s)"
proof -
  have l: "ss_last s \<le> lvl cf i" "ss_wg s \<Longrightarrow> lvl cf i = ss_last s" "0 \<le> ss_last s"
    using assms(2-4) by (auto simp: serve_ord_def must_wait_def lvl_def)
  have "1 < num cf \<Longrightarrow> \<exists>k. ss_depend (enqueue i qs s) = Some (merged cf (take k (ss_done s))) \<and>
      (\<forall>x\<in>set (drop k (ss_done s)). ss_wg s \<and> lvl cf (fst x) = ss_last s)"
    using assms(2) by (intro exI [of _ "length (ss_done s)"]) (simp add: serve_ord_def enqueue_def)
  then show ?thesis using assms(2,3) l by (auto simp: serve_ord_def enqueue_def)
qed

lemma complete_inv:
  assumes "serve_inv cf sh0 s" "i \<in> set (ss_running s)" "sent_ok (1 < num cf) (sh_d sh0) (sc_dns cf ! i) r" "stable (sh_d sh0) (sh_d (px_sh r))"
    and "fit (sc_req cf) ((length (remove1 i (ss_running s)) + length (ss_todo s)) * filter_cost cf)
       (sum_list (map (call_cost cf) (remove1 i (ss_running s) @ ss_todo s))) (px_sh r)"
  shows "serve_inv cf sh0 (complete_node cf i r s)"
proof -
  have f: "ss_todo (complete_node cf i r s) = ss_todo s" "ss_running (complete_node cf i r s) = remove1 i (ss_running s)"
    "ss_done (complete_node cf i r s) = ss_done s @ [(i, r)]" "ss_sh (complete_node cf i r s) = px_sh r" "ss_wg (complete_node cf i r s) = ss_wg s"
    by (simp_all add: complete_node_def)
  have l: "length (remove1 i (ss_running s)) \<le> length (ss_running s)" by (simp add: length_remove1)
  have m: "add_mset i (mset (remove1 i (ss_running s))) = mset (ss_running s)" using assms(2) by simp
  show ?thesis unfolding serve_inv_def f
  proof (intro conjI)
    show "mset (map fst (ss_done s @ [(i, r)])) + mset (remove1 i (ss_running s)) + mset (ss_todo s) = mset [0..<num cf]"
      using assms(1) m unfolding serve_inv_def by simp (metis union_mset_add_mset_left union_mset_add_mset_right)
    show "\<not> ss_wg s \<longrightarrow> length (remove1 i (ss_running s)) + length (ss_todo s) \<le> 1" using assms(1) l unfolding serve_inv_def by linarith
  qed (use assms in \<open>simp_all add: serve_inv_def\<close>)
qed

lemma complete_ord:
  assumes "serve_inv cf sh0 s" "serve_ord cf s" "i \<in> set (ss_running s)" "sent_ok (1 < num cf) (sh_d sh0) (sc_dns cf ! i) r"
  shows "serve_ord cf (complete_node cf i r s)"
proof -
  let ?run = "remove1 i (ss_running s)"
  have sub: "set ?run \<subseteq> set (ss_running s)" by (rule set_remove1_subset)
  have lv: "lvl cf i \<le> lvl cf j" if "j \<in> set ?run \<union> set (ss_todo s)" for j
  proof (cases "ss_wg s")
    case True
    then show ?thesis using assms(2,3) that sub unfolding serve_ord_def by auto
  next
    case False
    then have "length (ss_running s) + length (ss_todo s) \<le> 1" using assms(1) by (simp add: serve_inv_def)
    then have "?run = [] \<and> ss_todo s = []" using assms(3) by (cases "ss_running s") auto
    then show ?thesis using that by simp
  qed
  have sorted: "sorted (map (lvl cf) (map fst (ss_done s @ [(i, r)])))"
    using assms(2,3) by (auto simp: serve_ord_def sorted_append)
  have data: "map_option (add_part (sc_re cf) r) (ss_data s) = (if 1 < num cf then Some (merged cf (ss_done s @ [(i, r)])) else None)"
    using assms(2) by (auto simp: serve_ord_def merged_def)
  have dep: "\<exists>k. ss_depend s = Some (merged cf (take k (ss_done s @ [(i, r)]))) \<and>
      (\<forall>x\<in>set (drop k (ss_done s @ [(i, r)])). ss_wg s \<and> lvl cf (fst x) = ss_last s)" if mu: "1 < num cf" and "?run \<noteq> []"
  proof -
    have w: "ss_wg s"
    proof (rule ccontr)
      assume "\<not> ss_wg s"
      then have "length (ss_running s) \<le> 1" using assms(1) by (simp add: serve_inv_def)
      then show False using that(2) assms(3) by (cases "ss_running s") auto
    qed
    obtain k where k: "ss_depend s = Some (merged cf (take k (ss_done s)))" "\<forall>x\<in>set (drop k (ss_done s)). ss_wg s \<and> lvl cf (fst x) = ss_last s"
      using assms(2) mu length_pos_if_in_set [OF assms(3)] by (auto simp: serve_ord_def)
    have "lvl cf i = ss_last s" using assms(2,3) w by (simp add: serve_ord_def)
    then show ?thesis using k w by (intro exI [of _ "min k (length (ss_done s))"]) (auto simp: min_def)
  qed
  have f: "ss_todo (complete_node cf i r s) = ss_todo s" "ss_running (complete_node cf i r s) = ?run"
    "ss_done (complete_node cf i r s) = ss_done s @ [(i, r)]" "ss_wg (complete_node cf i r s) = ss_wg s" "ss_last (complete_node cf i r s) = ss_last s"
    "ss_data (complete_node cf i r s) = map_option (add_part (sc_re cf) r) (ss_data s)" "ss_depend (complete_node cf i r s) = ss_depend s"
    by (simp_all add: complete_node_def)
  show ?thesis unfolding serve_ord_def f
  proof (intro conjI ballI impI)
    fix x j
    assume "x \<in> set (ss_done s @ [(i, r)])" "j \<in> set ?run \<union> set (ss_todo s)"
    then show "lvl cf (fst x) \<le> lvl cf j" using lv assms(2) sub unfolding serve_ord_def by auto
  next
    fix j
    assume "j \<in> set ?run"
    then have "j \<in> set (ss_running s)" using sub by blast
    then show "ss_last s \<le> lvl cf j" "ss_wg s \<Longrightarrow> lvl cf j = ss_last s" using assms(2) by (simp_all add: serve_ord_def)
  qed (use assms(2) sorted data dep in \<open>simp_all add: serve_ord_def\<close>)
qed

lemma next_batch_ok:
  assumes "serve_inv cf sh0 s" "serve_ord cf s" "must_wait cf s" "ss_running s = []" "serve_ready cf sh0"
  shows "serve_inv cf sh0 (next_batch cf s) \<and> serve_ord cf (next_batch cf s)"
proof -
  obtain i rest where t: "ss_todo s = i # rest" "ss_last s < batch cf i" using assms(3) by (auto simp: must_wait_def split: list.splits)
  note c = todo_Cons [OF assms(1) t(1)]
  have so: "batch cf i \<le> batch cf j" if "j \<in> set rest" for j
  proof -
    have "sorted (map (batch cf) [0..<num cf])" using assms(5) by (simp add: serve_ready_def)
    then show ?thesis using c that by (auto simp: sorted_iff_nth_mono dest: spec [of _ i])
  qed
  have b: "0 \<le> ss_last s" using assms(2) by (simp add: serve_ord_def)
  have "1 < num cf - i \<or> rest = []" using c by auto
  then have "serve_inv cf sh0 (next_batch cf s)"
    using assms(1,4) t(1) by (auto simp: serve_inv_def next_batch_def)
  moreover have "serve_ord cf (next_batch cf s)"
    using assms(2,4) t b max.coboundedI2 [OF so] by (auto simp: serve_ord_def next_batch_def lvl_def)
  ultimately show ?thesis by blast
qed

subsection \<open>Every step\<close>

text \<open>Between two steps a node runs only while there is a wait group.\<close>

definition serve_good :: "serveCfg \<Rightarrow> shared \<Rightarrow> serveState \<Rightarrow> bool" where
  "serve_good cf sh0 s \<longleftrightarrow> serve_inv cf sh0 s \<and> serve_ord cf s \<and> (\<not> ss_wg s \<longrightarrow> ss_running s = [])"

lemma sum_list_remove1: "i \<in> set xs \<Longrightarrow> sum_list (map f xs) = (f i :: nat) + sum_list (map f (remove1 i xs))"
  by (induction xs) auto

lemma serve_work:
  assumes "serve_ready cf sh0" "serve_inv cf sh0 s" "serve_ord cf s" "i \<in> set (ss_running s)"
  shows "\<exists>r. work cf i s = Ok (complete_node cf i r s) \<and> serve_inv cf sh0 (complete_node cf i r s) \<and> serve_ord cf (complete_node cf i r s)"
proof -
  let ?run = "remove1 i (ss_running s)"
  have "i \<in># mset (map fst (ss_done s)) + mset (ss_running s) + mset (ss_todo s)" using assms(4) by simp
  then have i: "i < num cf" using assms(2) unfolding serve_inv_def by (metis atLeastLessThan_iff set_mset_mset set_upt)
  have n: "length (ss_running s) = Suc (length ?run)" using assms(4) by (simp add: length_remove1) (metis Suc_pred length_pos_if_in_set)
  have "fit (sc_req cf) (filter_cost cf + (length ?run + length (ss_todo s)) * filter_cost cf)
      (call_cost cf i + sum_list (map (call_cost cf) (?run @ ss_todo s))) (ss_sh s)"
    using assms(2) n sum_list_remove1 [OF assms(4), of "call_cost cf"] by (simp add: serve_inv_def add.assoc)
  then obtain r where r: "work cf i s = Ok (complete_node cf i r s)" "sent_ok (1 < num cf) (sh_d sh0) (sc_dns cf ! i) r"
      "stable (sh_d sh0) (sh_d (px_sh r))" "fit (sc_req cf) ((length ?run + length (ss_todo s)) * filter_cost cf)
       (sum_list (map (call_cost cf) (?run @ ss_todo s))) (px_sh r)"
    using work_run [OF assms(1) i, of s] assms(2) unfolding serve_inv_def by blast
  then show ?thesis using complete_inv [OF assms(2,4) r(2-4)] complete_ord [OF assms(2-4) r(2)] by blast
qed

text \<open>Handing over to a worker only queues the node; without a wait group the loop serves it at once.\<close>

lemma serve_hand_over:
  assumes "serve_ready cf sh0" "serve_good cf sh0 s" "ss_todo s = i # rest" "\<not> must_wait cf s"
  shows "\<exists>s'. hand_over cf s = Ok s' \<and> serve_good cf sh0 s' \<and> ss_todo s' = rest \<and> ss_wg s' = ss_wg s \<and>
    length (ss_running s') \<le> Suc (length (ss_running s))"
proof -
  have inv: "serve_inv cf sh0 s" "serve_ord cf s" "\<not> ss_wg s \<longrightarrow> ss_running s = []" using assms(2) by (simp_all add: serve_good_def)
  note c = todo_Cons [OF inv(1) assms(3)]
  define dep where "dep = (case ss_data s of None \<Rightarrow> ss_depend s | Some x \<Rightarrow> Some x)"
  obtain qs where qs: "newCopyReq (sc_en cf) ((sc_ectx cf)\<lparr>ctx_Depend := dep\<rparr>) (sc_req cf) i (sc_dns cf ! i) (sh_d (ss_sh s)) = Ok qs"
    using newCopyReq_run [OF assms(1) c(1) inv_stable [OF inv(1)]] by blast
  have e: "serve_inv cf sh0 (enqueue i qs s)" "serve_ord cf (enqueue i qs s)"
    using enqueue_inv [OF inv(1) assms(3)] enqueue_ord [OF inv(1,2) assms(3,4)] inv(3) by auto
  show ?thesis
  proof (cases "ss_wg s")
    case True
    then have "hand_over cf s = Ok (enqueue i qs s)"
      using assms(3) qs by (simp add: hand_over_def enqueue_def dep_def)
    then show ?thesis using True e assms(3) by (simp add: serve_good_def enqueue_def)
  next
    case False
    obtain r where r: "work cf i (enqueue i qs s) = Ok (complete_node cf i r (enqueue i qs s))"
        "serve_inv cf sh0 (complete_node cf i r (enqueue i qs s))" "serve_ord cf (complete_node cf i r (enqueue i qs s))"
      using serve_work [OF assms(1) e, of i] by (auto simp: enqueue_def)
    have "hand_over cf s = Ok (complete_node cf i r (enqueue i qs s))"
      using assms(3) qs False inv(3) r(1) by (auto simp: hand_over_def enqueue_def dep_def work_def complete_node_def outcome_simps)
    then show ?thesis using r False inv(3) assms(3) by (simp add: serve_good_def enqueue_def complete_node_def)
  qed
qed

text \<open>The number of steps that are left.\<close>

definition steps_left :: "serveCfg \<Rightarrow> serveState \<Rightarrow> nat" where
  "steps_left cf s = 3 * length (ss_todo s) + length (ss_running s) + (if must_wait cf s then 1 else 0)"

lemma serve_step_ok:
  assumes "serve_ready cf sh0" "serve_good cf sh0 s" "serve_step cf s s'"
  shows "serve_good cf sh0 s' \<and> steps_left cf s' < steps_left cf s"
  using assms(3)
proof (cases rule: serve_step.cases)
  case Wait
  have inv: "serve_inv cf sh0 s" "serve_ord cf s" using assms(2) by (simp_all add: serve_good_def)
  have "\<not> must_wait cf (next_batch cf s)" by (auto simp: must_wait_def next_batch_def split: list.splits)
  then show ?thesis using next_batch_ok [OF inv Wait(2,3) assms(1)] Wait by (simp add: serve_good_def steps_left_def next_batch_def)
next
  case HandOver
  then obtain i rest where t: "ss_todo s = i # rest" by (cases "ss_todo s") auto
  show ?thesis using serve_hand_over [OF assms(1,2) t HandOver(2)] HandOver(3) t HandOver(2) by (auto simp: steps_left_def)
next
  case (Work i)
  have inv: "serve_inv cf sh0 s" "serve_ord cf s" using assms(2) by (simp_all add: serve_good_def)
  obtain r where r: "s' = complete_node cf i r s" "serve_inv cf sh0 s'" "serve_ord cf s'"
    using serve_work [OF assms(1) inv Work(1)] Work(2) by auto
  have "length (remove1 i (ss_running s)) < length (ss_running s)" using Work(1) length_pos_if_in_set [OF Work(1)] by (simp add: length_remove1)
  moreover have "must_wait cf s' = must_wait cf s" using r(1) by (auto simp: must_wait_def complete_node_def split: list.splits)
  moreover have "\<not> ss_wg s' \<longrightarrow> ss_running s' = []" using assms(2) Work(1) r(1) by (auto simp: serve_good_def complete_node_def)
  ultimately show ?thesis using r by (simp add: serve_good_def steps_left_def complete_node_def)
qed

lemma serve_progress:
  assumes "serve_ready cf sh0" "serve_good cf sh0 s"
  shows "completed s \<or> (\<exists>s'. serve_step cf s s')"
proof (cases "ss_running s")
  case (Cons i run)
  have inv: "serve_inv cf sh0 s" "serve_ord cf s" using assms(2) by (simp_all add: serve_good_def)
  show ?thesis using serve_work [OF assms(1) inv, of i] Cons serve_step.Work [of i s cf] by auto
next
  case Nil
  show ?thesis
  proof (cases "ss_todo s")
    case (Cons i rest)
    show ?thesis
      using serve_hand_over [OF assms Cons] serve_step.Wait [of cf s] serve_step.HandOver [of s cf] Cons \<open>ss_running s = []\<close>
      by (cases "must_wait cf s") auto
  qed (simp add: completed_def Nil)
qed

lemma serve_reach_good:
  assumes "serve_ready cf sh" "(serve_step cf)\<^sup>*\<^sup>* (serve_begin cf sh) s"
  shows "serve_good cf sh s"
  using assms(2)
proof (induction rule: rtranclp_induct)
  case base
  then show ?case using serve_begin_inv [OF assms(1)] by (simp add: serve_good_def serve_begin_def)
next
  case (step s s')
  then show ?case using serve_step_ok [OF assms(1)] by blast
qed

subsection \<open>The whole request\<close>

lemma served_defaults:
  assumes "serve_ready cf sh0" "serve_inv cf sh0 s"
  shows "defaults_given (served_nodes cf s)"
proof -
  have "dp_node (case map_of (ss_done s) i of Some r \<Rightarrow> px_dn r | None \<Rightarrow> sc_dns cf ! i) = dp_node (sc_dns cf ! i)" for i
    using assms(2) by (auto simp: serve_inv_def sent_ok_def answered_def split: option.splits dest!: map_of_SomeD)
  moreover have "dn_UseDefault (nd_meta (dp_node (sc_dns cf ! i))) \<longrightarrow> hasDefaultValue (sc_dns cf ! i)" if "i < num cf" for i
    using assms(1) that by (simp add: serve_ready_def defaults_given_def num_def)
  ultimately show ?thesis by (auto simp: defaults_given_def served_nodes_def hasDefaultValue_def)
qed



definition demo_serve :: serveCfg where
  "demo_serve = \<lparr>sc_en = demo_env, sc_hk = demo_hooks, sc_re = demo_render, sc_backend = (\<lambda>i. demo_backend), sc_endAt = (\<lambda>i. 7),
     sc_fs = map (\<lambda>m. the (newFilter demo_env demo_hooks m)) demo_names, sc_rc = demo_rc, sc_req = demo_http,
     sc_ectx = acquireExprCtx\<lparr>ctx_Origin := Some (Request.truncate demo_http)\<rparr>,
     sc_api = the (map_of (d_apis demo_routed) 5), sc_dns = [demo_retry, demo_retry\<lparr>dp_idx := 1\<rparr>]\<rparr>"

lemma demo_serve_ready: "serve_ready demo_serve demo_shared"
proof -
  have n: "num demo_serve = 2" by (simp add: num_def demo_serve_def)
  have u: "\<not> dn_UseDefault (nd_meta (dp_node demo_retry))" by (simp add: demo_retry_def acquireDispathNode_def demo_node_def)
  have s: "servable demo_rc {demo_http} True (demo_retry\<lparr>dp_idx := 1\<rparr>) demo_routed"
    using demo_servable [of True] by (simp add: servable_def node_ok_def copy_ok_def hasDefaultValue_def)
  have v: "valid_node (\<lambda>p s. Some True) (nd_meta (dp_node demo_retry))"
    by (simp add: valid_node_def demo_retry_def acquireDispathNode_def demo_node_def)
  have b: "sorted (map (batch demo_serve) [0..<2])"
    by (simp add: batch_def demo_serve_def demo_retry_def acquireDispathNode_def demo_node_def upt_rec)
  have g: "good (\<lambda>p s. Some True) demo_routed" by (rule reach_good [OF demo_routed_reach])
  have f: "sc_en demo_serve = demo_env" "sc_hk demo_serve = demo_hooks" "sc_re demo_serve = demo_render" "sc_rc demo_serve = demo_rc"
    "sc_fs demo_serve = map (\<lambda>m. the (newFilter demo_env demo_hooks m)) demo_names" "sc_req demo_serve = demo_http"
    "sc_dns demo_serve = [demo_retry, demo_retry\<lparr>dp_idx := 1\<rparr>]" "ctx_Origin (sc_ectx demo_serve) \<noteq> None" "sh_d demo_shared = demo_routed"
    "en_rx demo_env = (\<lambda>p s. Some True)"
    by (simp_all add: demo_serve_def demo_shared_def demo_env_def acquireExprCtx_def)
  show ?thesis unfolding serve_ready_def n f(1-7,9,10) demo_chain(2)
  proof (intro conjI)
    show "\<forall>f\<in>set (map (\<lambda>m. the (newFilter demo_env demo_hooks m)) demo_names). \<exists>name. newFilter demo_env demo_hooks name = Some f"
      by (rule demo_chain(3))
  qed (use demo_chain(1) demo_servable [of True] s v b g u demo_fit f(8) in \<open>simp_all add: defaults_given_def demo_render_def\<close>)
qed



end
