(* ===== verification/Json_Escape.thy ===== *)
theory Json_Escape
  imports Json_Scan
begin

text \<open>
  Escape sequences (\<^verbatim>\<open>json/escape.go\<close>) and the parsing of integers (\<^verbatim>\<open>json/bytes.go\<close>). The buffer that \<^verbatim>\<open>Unescape\<close> fills is
  as long as its input; the model keeps the space left in it, since a write past its end panics.
\<close>

subsection \<open>Definitions\<close>

definition combineUTF16Surrogates :: "nat \<Rightarrow> nat \<Rightarrow> nat" where
  "combineUTF16Surrogates high low = 0x10000 + (high - 0xD800) * 2 ^ 10 + (low - 0xDC00)"

definition h2I :: "char \<Rightarrow> nat option" where
  "h2I c = (let n = of_char c in
     if 48 \<le> n \<and> n \<le> 57 then Some (n - 48)
     else if 65 \<le> n \<and> n \<le> 70 then Some (n - 65 + 10)
     else if 97 \<le> n \<and> n \<le> 102 then Some (n - 97 + 10)
     else None)"

definition decodeSingleUnicodeEscape :: "string \<Rightarrow> nat option" where
  "decodeSingleUnicodeEscape s =
     (if length s < 6 then None
      else case (h2I (s ! 2), h2I (s ! 3), h2I (s ! 4), h2I (s ! 5)) of
        (Some h1, Some h2, Some h3, Some h4) \<Rightarrow> Some (h1 * 2 ^ 12 + h2 * 2 ^ 8 + h3 * 2 ^ 4 + h4)
      | _ \<Rightarrow> None)"

definition isUTF16EncodedRune :: "nat \<Rightarrow> bool" where
  "isUTF16EncodedRune r \<longleftrightarrow> 0xD800 \<le> r \<and> r \<le> 0xDFFF"

definition decodeUnicodeEscape :: "string \<Rightarrow> (nat \<times> nat) option" where
  "decodeUnicodeEscape s = (case decodeSingleUnicodeEscape s of
      None \<Rightarrow> None
    | Some r \<Rightarrow>
        if r \<le> 0xFFFF \<and> \<not> isUTF16EncodedRune r then Some (r, 6)
        else case decodeSingleUnicodeEscape (drop 6 s) of
          None \<Rightarrow> None
        | Some r2 \<Rightarrow> if r2 < 0xDC00 then None else Some (combineUTF16Surrogates r r2, 12))"

definition backslashCharEscapeTable :: "char \<Rightarrow> char option" where
  "backslashCharEscapeTable e =
     (if e = quote \<or> e = backslash \<or> e = CHR ''/'' then Some e
      else if e = CHR ''b'' then Some (CHR 0x08)
      else if e = CHR ''f'' then Some (CHR 0x0C)
      else if e = CHR ''n'' then Some (CHR 0x0A)
      else if e = CHR ''r'' then Some (CHR 0x0D)
      else if e = CHR ''t'' then Some (CHR 0x09)
      else None)"

text \<open>\<^verbatim>\<open>utf8.EncodeRune\<close> of the standard library: a surrogate or a number above the last code point becomes U+FFFD.\<close>

definition rune_byte :: "nat \<Rightarrow> char" where
  "rune_byte n = char_of n"

definition utf8_bytes :: "nat \<Rightarrow> string" where
  "utf8_bytes r =
     (if r < 0x80 then [rune_byte r]
      else if r < 0x800 then [rune_byte (0xC0 + r div 64), rune_byte (0x80 + r mod 64)]
      else if r < 0x10000 then [rune_byte (0xE0 + r div 4096), rune_byte (0x80 + r div 64 mod 64), rune_byte (0x80 + r mod 64)]
      else [rune_byte (0xF0 + r div 262144), rune_byte (0x80 + r div 4096 mod 64), rune_byte (0x80 + r div 64 mod 64), rune_byte (0x80 + r mod 64)])"

definition EncodeRune :: "nat \<Rightarrow> string" where
  "EncodeRune r = utf8_bytes (if r > 0x10FFFF \<or> isUTF16EncodedRune r then 0xFFFD else r)"

text \<open>One escape sequence: how many bytes it takes and what it stands for, with \<open>room\<close> bytes left in the buffer.\<close>

definition unescapeToUTF8 :: "string \<Rightarrow> nat \<Rightarrow> (unit, nat \<times> string) outcome" where
  "unescapeToUTF8 s room = (case s of
      c # e # rest \<Rightarrow>
        if c \<noteq> backslash then Err ()
        else (case backslashCharEscapeTable e of
            Some b \<Rightarrow> if room < 1 then Panic else Ok (2, [b])
          | None \<Rightarrow>
              if e \<noteq> CHR ''u'' then Err ()
              else (case decodeUnicodeEscape s of
                  None \<Rightarrow> Err ()
                | Some (r, n) \<Rightarrow> if room < length (EncodeRune r) then Panic else Ok (n, EncodeRune r)))
    | _ \<Rightarrow> Err ())"

definition plain_prefix :: "string \<Rightarrow> string" where
  "plain_prefix s = takeWhile (\<lambda>c. c \<noteq> backslash) s"

lemma unescape_takes: "unescapeToUTF8 s room = Ok (n, bs) \<Longrightarrow> 0 < n \<and> s \<noteq> []"
  by (auto simp: unescapeToUTF8_def decodeUnicodeEscape_def split: list.splits if_splits option.splits)

function unescape_loop :: "string \<Rightarrow> nat \<Rightarrow> (json_error, string) outcome" where
  "unescape_loop s room =
     (if s = [] then Ok []
      else case unescapeToUTF8 s room of
        Err er \<Rightarrow> Err MalformedStringEscapeError
      | Panic \<Rightarrow> Panic
      | Ok (n, bs) \<Rightarrow>
          (let rest = drop n s; p = plain_prefix rest
           in if room - length bs < length p then Panic
              else obind (unescape_loop (drop (length p) rest) (room - length bs - length p)) (\<lambda>out. Ok (bs @ p @ out))))"
  by auto
termination
proof (relation "measure (length \<circ> fst)", goal_cases)
  case (2 s room x n bs rest p)
  then show ?case using unescape_takes [of s room n bs] by auto
qed simp

declare unescape_loop.simps [simp del]

definition Unescape :: "string \<Rightarrow> (json_error, string) outcome" where
  "Unescape s =
     (if backslash \<notin> set s then Ok s
      else let p = plain_prefix s in obind (unescape_loop (drop (length p) s) (length s - length p)) (\<lambda>out. Ok (p @ out)))"

subsection \<open>Integers\<close>

text \<open>The digits: \<open>None\<close> for a byte that is none, \<open>Inl b\<close> when the wrapped value dropped below the one before, \<open>Inr v\<close> at the end.\<close>

fun int_loop :: "int \<Rightarrow> string \<Rightarrow> (int + int) option" where
  "int_loop v [] = Some (Inr v)"
| "int_loop v (c # cs) =
     (if CHR ''0'' \<le> c \<and> c \<le> CHR ''9''
      then (let b = i64 (10 * v + (of_char c - 48)) in if b < v then Some (Inl b) else int_loop b cs)
      else None)"

definition minInt64 :: string where
  "minInt64 = ''9223372036854775808''"

definition parseInt :: "string \<Rightarrow> int \<times> bool \<times> bool" where
  "parseInt bytes =
     (if bytes = [] then (0, False, False)
      else let neg = hd bytes = CHR ''-''; digits = (if neg then tl bytes else bytes)
           in case int_loop 0 digits of
                None \<Rightarrow> (0, False, False)
              | Some (Inl b) \<Rightarrow> if neg \<and> digits = minInt64 then (b, True, False) else (0, False, True)
              | Some (Inr v) \<Rightarrow> (if neg then - v else v, True, False))"

definition ParseInt :: "string \<Rightarrow> (json_error, int) outcome" where
  "ParseInt b = (case parseInt b of (v, ok, overflow) \<Rightarrow>
     if \<not> ok then (if overflow then Err OverflowIntegerError else Err MalformedValueError) else Ok v)"

definition ParseBoolean :: "string \<Rightarrow> (json_error, bool) outcome" where
  "ParseBoolean b = (if b = ''true'' then Ok True else if b = ''false'' then Ok False else Err MalformedValueError)"

definition ParseString :: "string \<Rightarrow> (json_error, string) outcome" where
  "ParseString b = (case Unescape b of Ok s \<Rightarrow> Ok s | Err er \<Rightarrow> Err MalformedValueError | Panic \<Rightarrow> Panic)"

subsection \<open>The buffer is long enough\<close>

lemma EncodeRune_length: "length (EncodeRune r) \<le> 4" "r \<le> 0xFFFF \<Longrightarrow> length (EncodeRune r) \<le> 3"
  by (auto simp: EncodeRune_def utf8_bytes_def)

lemma decode_takes:
  assumes "decodeUnicodeEscape s = Some (r, n)"
  shows "length (EncodeRune r) \<le> n \<and> n \<le> length s"
proof -
  have single: "decodeSingleUnicodeEscape t = Some x \<Longrightarrow> 6 \<le> length t" for t x
    by (simp add: decodeSingleUnicodeEscape_def split: if_splits)
  show ?thesis
    using assms EncodeRune_length [of r] single [of s] single [of "drop 6 s"]
    by (force simp: decodeUnicodeEscape_def split: option.splits if_splits)
qed

lemma unescapeToUTF8_room:
  assumes "length s \<le> room"
  shows "unescapeToUTF8 s room \<noteq> Panic" "unescapeToUTF8 s room = Ok (n, bs) \<Longrightarrow> length bs \<le> n \<and> n \<le> length s"
  using assms decode_takes [of s]
  by (fastforce simp: unescapeToUTF8_def split: list.splits option.splits if_splits)+

lemma plain_length: "length (plain_prefix s) \<le> length s"
  unfolding plain_prefix_def by (rule length_takeWhile_le)

lemma unescape_loop_no_panic: "length s \<le> room \<Longrightarrow> unescape_loop s room \<noteq> Panic"
proof (induction s room rule: unescape_loop.induct)
  case (1 s room)
  show ?case
  proof (cases "unescapeToUTF8 s room")
    case (Ok x)
    obtain n bs where x: "x = (n, bs)" by (cases x)
    let ?rest = "drop n s"
    have b: "length bs \<le> n" "n \<le> length s" using unescapeToUTF8_room(2) [OF 1(2)] Ok x by auto
    have p: "length (plain_prefix ?rest) \<le> length s - n" using plain_length [of ?rest] by simp
    have IH: "unescape_loop (drop (length (plain_prefix ?rest)) ?rest) (room - length bs - length (plain_prefix ?rest)) \<noteq> Panic" if "s \<noteq> []"
      by (rule 1(1) [OF that Ok x [THEN sym] refl refl]) (use b p 1(2) in auto)
    then show ?thesis using b p 1(2) Ok x
      by (subst unescape_loop.simps) (auto simp: Let_def obind_eq_Panic)
  qed (use unescapeToUTF8_room(1) [OF 1(2)] in \<open>auto simp: unescape_loop.simps\<close>)
qed

lemma Unescape_no_panic: "Unescape s \<noteq> Panic"
  using unescape_loop_no_panic [of "drop (length (plain_prefix s)) s" "length s - length (plain_prefix s)"]
  by (simp add: Unescape_def Let_def obind_eq_Panic)

subsection \<open>What an escaped string stands for\<close>

text \<open>The contents of a JSON string: plain bytes, two-byte escapes, and a code point written in UTF-16 with upper or lower case digits.\<close>

datatype str_item = Plain char | Short char | Uni bool nat

definition hex_digit :: "bool \<Rightarrow> nat \<Rightarrow> char" where
  "hex_digit up d = char_of (if d < 10 then 48 + d else if up then 55 + d else 87 + d)"

definition hex4 :: "bool \<Rightarrow> nat \<Rightarrow> string" where
  "hex4 up n = [backslash, CHR ''u'', hex_digit up (n div 4096), hex_digit up (n div 256 mod 16), hex_digit up (n div 16 mod 16), hex_digit up (n mod 16)]"

fun item_text :: "str_item \<Rightarrow> string" where
  "item_text (Plain c) = [c]"
| "item_text (Short e) = [backslash, e]"
| "item_text (Uni up r) = (if r < 0x10000 then hex4 up r
     else hex4 up (0xD800 + (r - 0x10000) div 1024) @ hex4 up (0xDC00 + (r - 0x10000) mod 1024))"

fun str_item_bytes :: "str_item \<Rightarrow> string" where
  "str_item_bytes (Plain c) = [c]"
| "str_item_bytes (Short e) = [the (backslashCharEscapeTable e)]"
| "str_item_bytes (Uni up r) = utf8_bytes r"

fun str_item_ok :: "str_item \<Rightarrow> bool" where
  "str_item_ok (Plain c) = (c \<noteq> backslash \<and> c \<noteq> quote)"
| "str_item_ok (Short e) = (backslashCharEscapeTable e \<noteq> None)"
| "str_item_ok (Uni up r) = (r \<le> 0x10FFFF \<and> \<not> isUTF16EncodedRune r)"

definition items_text :: "str_item list \<Rightarrow> string" where
  "items_text xs = concat (map item_text xs)"

lemma h2I_hex_digit: "d < 16 \<Longrightarrow> h2I (hex_digit up d) = Some d"
  by (simp add: h2I_def hex_digit_def Let_def)

lemma decode_hex4: "n < 0x10000 \<Longrightarrow> decodeSingleUnicodeEscape (hex4 up n @ rest) = Some n"
proof -
  assume n: "n < 0x10000"
  have "n div 4096 < 16" using n by auto
  then have h: "h2I (hex_digit up (n div 4096)) = Some (n div 4096)" by (rule h2I_hex_digit)
  have d: "n div 256 = n div 16 div 16" "n div 4096 = n div 16 div 16 div 16" by (simp_all flip: div_mult2_eq)
  have "n div 4096 * 4096 + n div 256 mod 16 * 256 + n div 16 mod 16 * 16 + n mod 16 = n"
    using mult_div_mod_eq [of 16 n] mult_div_mod_eq [of 16 "n div 16"] mult_div_mod_eq [of 16 "n div 16 div 16"] unfolding d by linarith
  then show ?thesis by (simp add: decodeSingleUnicodeEscape_def hex4_def h h2I_hex_digit)
qed

lemma hex4_drop [simp]: "drop 6 (hex4 up n @ rest) = rest" "length (hex4 up n) = 6"
  by (simp_all add: hex4_def)

lemma decode_item:
  assumes "str_item_ok (Uni up r)"
  shows "decodeUnicodeEscape (item_text (Uni up r) @ rest) = Some (r, length (item_text (Uni up r)))"
proof (cases "r < 0x10000")
  case True
  then show ?thesis using assms by (simp add: decodeUnicodeEscape_def decode_hex4)
next
  case False
  have hi: "0xD800 + (r - 0x10000) div 1024 \<le> 0xDFFF" using assms by auto
  have "combineUTF16Surrogates (0xD800 + (r - 0x10000) div 1024) (0xDC00 + (r - 0x10000) mod 1024) = r"
    using False by (simp add: combineUTF16Surrogates_def)
  moreover have "isUTF16EncodedRune (0xD800 + (r - 0x10000) div 1024)" using hi by (simp add: isUTF16EncodedRune_def)
  moreover have "decodeSingleUnicodeEscape (hex4 up (0xD800 + (r - 0x10000) div 1024) @ zs) = Some (0xD800 + (r - 0x10000) div 1024)" for zs
    using hi by (intro decode_hex4) simp
  moreover have "decodeSingleUnicodeEscape (hex4 up (0xDC00 + (r - 0x10000) mod 1024) @ zs) = Some (0xDC00 + (r - 0x10000) mod 1024)" for zs
    by (rule decode_hex4) (use mod_less_divisor [of 1024 "r - 0x10000"] in linarith)
  ultimately show ?thesis using False by (simp add: decodeUnicodeEscape_def)
qed

text \<open>One escape at the front of the input.\<close>

lemma unescape_item:
  assumes "str_item_ok x" "\<forall>c. x \<noteq> Plain c" "length (item_text x) \<le> room"
  shows "unescapeToUTF8 (item_text x @ rest) room = Ok (length (item_text x), str_item_bytes x)"
proof (cases x)
  case (Short e)
  then show ?thesis using assms by (auto simp: unescapeToUTF8_def)
next
  case (Uni up r)
  have e: "EncodeRune r = utf8_bytes r" using assms(1) by (simp add: Uni EncodeRune_def)
  have d: "decodeUnicodeEscape (item_text x @ rest) = Some (r, length (item_text x))" using decode_item assms(1) Uni by blast
  have "\<exists>t. item_text x @ rest = backslash # CHR ''u'' # t" by (auto simp: Uni hex4_def)
  then obtain t where t: "item_text x @ rest = backslash # CHR ''u'' # t" by blast
  have u: "backslashCharEscapeTable (CHR ''u'') = None" by (simp add: backslashCharEscapeTable_def)
  have l: "length (utf8_bytes r) \<le> length (item_text x)" using decode_takes [OF d] e decode_item [of up r "[]"] decode_takes [of "item_text x" r] assms(1) Uni by simp
  have "unescapeToUTF8 (item_text x @ rest) room = (case decodeUnicodeEscape (item_text x @ rest) of None \<Rightarrow> Err ()
      | Some (r, n) \<Rightarrow> if room < length (EncodeRune r) then Panic else Ok (n, EncodeRune r))"
    unfolding t by (simp add: unescapeToUTF8_def u)
  then show ?thesis using l assms(3) unfolding d by (simp add: e) (simp add: Uni)
qed (use assms in simp)

lemma items_text_simps [simp]: "items_text [] = []" "items_text (x # xs) = item_text x @ items_text xs"
  by (simp_all add: items_text_def)

lemma item_text_plain: "str_item_ok x \<Longrightarrow> (\<exists>c. x = Plain c \<and> c \<noteq> backslash) \<or> (\<forall>c. x \<noteq> Plain c) \<and> hd (item_text x) = backslash \<and> item_text x \<noteq> []"
  by (cases x) (auto simp: hex4_def)

text \<open>The plain bytes at the front.\<close>

lemma plain_items:
  assumes "\<forall>x\<in>set xs. str_item_ok x"
  shows "\<exists>ps ys. xs = map Plain ps @ ys \<and> plain_prefix (items_text xs) = ps \<and> drop (length ps) (items_text xs) = items_text ys \<and>
    (ys = [] \<or> (\<forall>c. hd ys \<noteq> Plain c))"
  using assms
proof (induction xs)
  case (Cons x xs)
  have ok: "str_item_ok x" "\<forall>x\<in>set xs. str_item_ok x" using Cons.prems by simp_all
  show ?case
  proof (cases "\<exists>c. x = Plain c")
    case True
    then obtain c where c: "x = Plain c" by blast
    then have nb: "c \<noteq> backslash" using ok(1) by simp
    obtain ps ys where p: "xs = map Plain ps @ ys" "plain_prefix (items_text xs) = ps" "drop (length ps) (items_text xs) = items_text ys"
      "ys = [] \<or> (\<forall>c. hd ys \<noteq> Plain c)" using Cons.IH [OF ok(2)] by blast
    have "x # xs = map Plain (c # ps) @ ys" using c p(1) by simp
    moreover have "plain_prefix (items_text (x # xs)) = c # ps" using nb c p(2) by (simp add: plain_prefix_def)
    moreover have "drop (length (c # ps)) (items_text (x # xs)) = items_text ys" using c p(3) by simp
    ultimately show ?thesis using p(4) by blast
  next
    case False
    then have "plain_prefix (items_text (x # xs)) = []" using item_text_plain [OF ok(1)] by (cases "item_text x") (auto simp: plain_prefix_def)
    then show ?thesis using False by (intro exI [of _ "[]"] exI [of _ "x # xs"]) simp
  qed
qed (simp add: plain_prefix_def)

lemma items_bytes_plain: "concat (map str_item_bytes (map Plain ps)) = ps" "items_text (map Plain ps) = ps"
  by (induction ps) simp_all

lemma unescape_loop_items:
  assumes "\<forall>x\<in>set xs. str_item_ok x" "xs = [] \<or> (\<forall>c. hd xs \<noteq> Plain c)" "length (items_text xs) \<le> room"
  shows "unescape_loop (items_text xs) room = Ok (concat (map str_item_bytes xs))"
  using assms
proof (induction "length xs" arbitrary: xs room rule: less_induct)
  case less
  show ?case
  proof (cases xs)
    case Nil
    then show ?thesis by (simp add: unescape_loop.simps)
  next
    case (Cons x xs')
    have x: "str_item_ok x" "\<forall>c. x \<noteq> Plain c" using less.prems Cons by auto
    have u: "unescapeToUTF8 (items_text xs) room = Ok (length (item_text x), str_item_bytes x)"
      using unescape_item [OF x, of room "items_text xs'"] less.prems(3) by (simp add: Cons)
    have ok': "\<forall>x\<in>set xs'. str_item_ok x" using less.prems(1) Cons by simp
    obtain ps ys where p: "xs' = map Plain ps @ ys" "plain_prefix (items_text xs') = ps" "drop (length ps) (items_text xs') = items_text ys"
      "ys = [] \<or> (\<forall>c. hd ys \<noteq> Plain c)" using plain_items [OF ok'] by blast
    have b: "length (str_item_bytes x) \<le> length (item_text x)"
      using unescapeToUTF8_room(2) [OF less.prems(3) u] by (simp add: Cons)
    have t: "items_text xs' = ps @ items_text ys" using items_bytes_plain(2) [of ps] by (simp add: p(1) items_text_def)
    have IH: "unescape_loop (items_text ys) (room - length (str_item_bytes x) - length ps) = Ok (concat (map str_item_bytes ys))"
      by (rule less.hyps) (use less.prems p b t in \<open>auto simp: Cons\<close>)
    have "items_text xs \<noteq> []" using item_text_plain [OF x(1)] x(2) by (auto simp: Cons)
    moreover have "drop (length (item_text x)) (items_text xs) = items_text xs'" by (simp add: Cons)
    moreover have "concat (map str_item_bytes xs) = str_item_bytes x @ ps @ concat (map str_item_bytes ys)" using items_bytes_plain(1) [of ps] by (simp add: Cons p(1))
    moreover have "length ps \<le> room - length (str_item_bytes x)" using less.prems(3) b t by (simp add: Cons)
    ultimately show ?thesis using u p(2,3) IH by (subst unescape_loop.simps) (simp add: Let_def)
  qed
qed

text \<open>C39 --- strings. Unescaping never writes past its buffer, and the contents of every JSON string, in any mix of plain bytes,
  short escapes and code points written as one or two UTF-16 units, are unescaped to the bytes they stand for, code points
  to their UTF-8 form.\<close>

theorem Unescape_exact:
  "Unescape s \<noteq> Panic \<and> ((\<forall>x\<in>set xs. str_item_ok x) \<longrightarrow> Unescape (items_text xs) = Ok (concat (map str_item_bytes xs)))"
proof (intro conjI impI)
  assume ok: "\<forall>x\<in>set xs. str_item_ok x"
  obtain ps ys where p: "xs = map Plain ps @ ys" "plain_prefix (items_text xs) = ps" "drop (length ps) (items_text xs) = items_text ys"
    "ys = [] \<or> (\<forall>c. hd ys \<noteq> Plain c)" using plain_items [OF ok] by blast
  have t: "items_text xs = ps @ items_text ys" using items_bytes_plain(2) [of ps] by (simp add: p(1) items_text_def)
  have ys: "unescape_loop (items_text ys) (length (items_text ys)) = Ok (concat (map str_item_bytes ys))"
    by (rule unescape_loop_items) (use ok p in auto)
  show "Unescape (items_text xs) = Ok (concat (map str_item_bytes xs))"
  proof (cases "backslash \<in> set (items_text xs)")
    case True
    have "length (items_text xs) - length ps = length (items_text ys)" by (simp add: t)
    then show ?thesis using True ys p(2,3) items_bytes_plain(1) [of ps] by (simp add: Unescape_def Let_def) (simp add: p(1))
  next
    case False
    then have "ys = []" using p(4) ok item_text_plain [of "hd ys"] t by (cases ys; cases "item_text (hd ys)") (auto simp: p(1))
    then show ?thesis using False items_bytes_plain [of ps] by (simp add: Unescape_def p(1))
  qed
qed (rule Unescape_no_panic)

theorem Unescape_exact_witness:
  "Unescape (''a'' @ [backslash] @ ''uD83D'' @ [backslash] @ ''uDE00'' @ [backslash] @ ''n'') = Ok (''a'' @ [CHR 0xF0, CHR 0x9F, CHR 0x98, CHR 0x80, CHR 0x0A])"
proof -
  let ?xs = "[Plain (CHR ''a''), Uni True 0x1F600, Short (CHR ''n'')]"
  have hex: "hex_digit True 13 = CHR ''D''" "hex_digit True 8 = CHR ''8''" "hex_digit True 3 = CHR ''3''" "hex_digit True 14 = CHR ''E''" "hex_digit True 0 = CHR ''0''"
    by code_simp+
  have bytes: "rune_byte 240 = CHR 0xF0" "rune_byte 159 = CHR 0x9F" "rune_byte 152 = CHR 0x98" "rune_byte 128 = CHR 0x80" by code_simp+
  have "items_text ?xs = ''a'' @ [backslash] @ ''uD83D'' @ [backslash] @ ''uDE00'' @ [backslash] @ ''n''" by (simp add: hex4_def hex)
  moreover have "concat (map str_item_bytes ?xs) = ''a'' @ [CHR 0xF0, CHR 0x9F, CHR 0x98, CHR 0x80, CHR 0x0A]"
    by (simp add: utf8_bytes_def bytes backslashCharEscapeTable_def)
  moreover have "\<forall>x\<in>set ?xs. str_item_ok x" by (simp add: isUTF16EncodedRune_def backslashCharEscapeTable_def)
  ultimately show ?thesis using Unescape_exact [of "[]" ?xs] by metis
qed

text \<open>Two low surrogates are taken for a pair, the replacement character.\<close>

lemma low_surrogates_pair: "decodeUnicodeEscape (hex4 up 0xDC00 @ hex4 up 0xDC00) = Some (0x110000, 12) \<and> EncodeRune 0x110000 = utf8_bytes 0xFFFD"
  using decode_hex4 [of "0xDC00" up "[]"]
  by (simp add: decodeUnicodeEscape_def decode_hex4 isUTF16EncodedRune_def combineUTF16Surrogates_def EncodeRune_def)

subsection \<open>Integers\<close>

lemma int_loop_append: "int_loop v (xs @ ys) = (case int_loop v xs of Some (Inr w) \<Rightarrow> int_loop w ys | r \<Rightarrow> r)"
  by (induction v xs rule: int_loop.induct) (auto simp: Let_def)

lemma int_loop_digits: "int n < 2 ^ 63 \<Longrightarrow> int_loop 0 (nat_digits n) = Some (Inr (int n))"
proof (induction n rule: nat_digits.induct)
  case (1 n)
  have dig: "CHR ''0'' \<le> char_of (48 + d) \<and> char_of (48 + d) \<le> CHR ''9''" "(of_char (char_of (48 + d) :: char) :: int) = 48 + int d" if "d < 10" for d :: nat
    using that by (simp_all add: less_eq_char_def of_char_of flip: of_nat_of_char [where 'a = int])
  show ?case
  proof (cases "n < 10")
    case True
    then show ?thesis using 1(2) dig [OF True] by (subst nat_digits.simps) (simp add: Let_def)
  next
    case False
    have m: "n mod 10 < 10" by simp
    have n: "10 * int (n div 10) + int (n mod 10) = int n" by (metis mult_div_mod_eq of_nat_add of_nat_mult of_nat_numeral)
    have "int_loop 0 (nat_digits (n div 10)) = Some (Inr (int (n div 10)))" using 1 False by simp
    then show ?thesis
      using False 1(2) dig [OF m] n by (subst nat_digits.simps) (simp add: int_loop_append Let_def)
  qed
qed

lemma nat_digits_minus: "hd (nat_digits n) \<noteq> CHR ''-''" "nat_digits n \<noteq> []"
  using nat_digits_head [of n] by auto

lemma digits_minInt64: "nat_digits (2 ^ 63) = minInt64"
proof -
  have d: "char_of (48::nat) = CHR ''0''" "char_of (50::nat) = CHR ''2''" "char_of (51::nat) = CHR ''3''" "char_of (52::nat) = CHR ''4''"
    "char_of (53::nat) = CHR ''5''" "char_of (54::nat) = CHR ''6''" "char_of (55::nat) = CHR ''7''" "char_of (56::nat) = CHR ''8''"
    "char_of (57::nat) = CHR ''9''" by code_simp+
  show ?thesis by (simp add: nat_digits.simps [of "numeral x" for x] d minInt64_def)
qed

text \<open>C40 --- integers. The decimal form of every 64-bit integer, the smallest one included, is read back as that integer,
  without a report of an overflow.\<close>

theorem parseInt_exact:
  assumes "- (2 ^ 63) \<le> n" "n < 2 ^ 63"
  shows "parseInt (Itoa n) = (n, True, False) \<and> ParseInt (Itoa n) = Ok n"
proof -
  have "parseInt (Itoa n) = (n, True, False)"
  proof (cases "n = - (2 ^ 63)")
    case True
    have "int_loop 0 minInt64 = Some (Inl (- (2 ^ 63)))"
      by (simp add: minInt64_def less_eq_char_def Let_def i64_def signed_take_bit_eq_take_bit_minus)
    then show ?thesis using True digits_minInt64 by (simp add: parseInt_def Itoa_def Let_def)
  next
    case False
    then show ?thesis
      using assms nat_digits_minus [of "nat n"] int_loop_digits [of "nat n"] int_loop_digits [of "nat (- n)"]
      by (cases "n < 0") (simp_all add: parseInt_def Itoa_def)
  qed
  then show ?thesis by (simp add: ParseInt_def)
qed

theorem parseInt_exact_witness: "ParseInt (Itoa (- (2 ^ 63))) = Ok (- (2 ^ 63))"
  using parseInt_exact [of "- (2 ^ 63)"] by simp

text \<open>An overflow that passes the value before goes unseen, and a lone minus sign is the number 0.\<close>

lemma parseInt_wraps: "parseInt ''42000000000000000000'' = (5106511852580896768, True, False)" "parseInt ''-'' = (0, True, False)"
  by (simp_all add: parseInt_def less_eq_char_def Let_def i64_def signed_take_bit_eq_take_bit_minus)

end
