(* ===== verification/Json_Get.thy ===== *)
theory Json_Get
  imports Json_Escape
begin

text \<open>
  Reading a JSON document (\<^verbatim>\<open>json/parser.go\<close>): the search for a path of keys and array indices, \<^verbatim>\<open>Get\<close>, and the iterators.
  An index out of range panics; \<open>None\<close> is that panic, and an offset of \<open>-1\<close> is one that was not found. An iterator returns the calls it makes.
\<close>

subsection \<open>Scanners move forward\<close>

lemma nextToken_Some: "nextToken s = Some n \<Longrightarrow> n < length s \<and> \<not> is_ws (s ! n)"
proof (induction s arbitrary: n)
  case (Cons c cs)
  then show ?case by (cases n) (auto split: if_splits)
qed simp

lemma string_loop_pos: "fst (string_loop before escaped i s) = Some e \<Longrightarrow> i < e \<and> e \<le> i + length s"
  by (induction before escaped i s rule: string_loop.induct) (auto split: if_splits)

lemma stringEnd_pos: "stringEnd s = (Some e, b) \<Longrightarrow> 0 < e \<and> e \<le> length s"
  using string_loop_pos [of "[]" False 0 s e] by (simp add: stringEnd_def)

lemma block_loop_pos: "block_loop a z level i s = Some e \<Longrightarrow> i < e \<and> e \<le> i + length s"
proof (induction a z level i s rule: block_loop.induct)
  case (2 a z level i c cs)
  show ?case
  proof (cases "c = quote")
    case True
    then obtain se where se: "fst (stringEnd cs) = Some se" "block_loop a z level (i + se + 1) (drop se cs) = Some e"
      using 2(5) by (auto split: option.splits)
    then show ?thesis using 2(1) [OF True se(1) se(2)] stringEnd_pos [of cs se "snd (stringEnd cs)"] by (auto simp: prod_eq_iff)
  qed (use 2 in \<open>auto split: if_splits\<close>)
qed simp

lemma blockEnd_pos: "blockEnd s a z = Some e \<Longrightarrow> 0 < e \<and> e \<le> length s"
  using block_loop_pos [of a z 0 0 s e] by (simp add: blockEnd_def)

subsection \<open>Arrays\<close>

text \<open>The loop of \<^verbatim>\<open>ArrayEach\<close> at \<^verbatim>\<open>data[offset:]\<close>: the elements with their types and the offset passed to the callback, then the
  result.\<close>

function array_loop :: "string \<Rightarrow> nat \<Rightarrow> (string \<times> ValueType \<times> int) list \<times> int \<times> json_error option" where
  "array_loop cs offset = (case value_at cs 0 of (v, t, st, e, er) \<Rightarrow>
     if er \<noteq> None then ([], int offset, er)
     else if e = 0 then ([], int offset, None)
     else let items = (if t \<noteq> NotExist then [(v, t, int offset + e - int (length v))] else []); rest = drop (nat e) cs
          in case nextToken rest of
               None \<Rightarrow> (items, int offset + e, Some MalformedArrayError)
             | Some s \<Rightarrow> (let rest = drop s rest; offset = offset + nat e + s
                 in if hd rest = CHR '']'' then (items, int offset, None)
                    else if hd rest \<noteq> CHR '','' then (items, int offset, Some MalformedArrayError)
                    else case array_loop (tl rest) (offset + 1) of (others, res) \<Rightarrow> (items @ others, res)))"
  by auto
termination
  by (relation "measure (length \<circ> fst)") (auto dest!: nextToken_Some)

declare array_loop.simps [simp del]

text \<open>\<^verbatim>\<open>ArrayEach\<close> after the opening bracket. Without keys the first byte that is not white space is taken for the bracket.\<close>

definition array_from :: "string \<Rightarrow> nat \<Rightarrow> (string \<times> ValueType \<times> int) list \<times> int \<times> json_error option" where
  "array_from data offset = (case nextToken (drop offset data) of
      None \<Rightarrow> ([], int offset, Some MalformedJsonError)
    | Some n \<Rightarrow> if data ! (offset + n) = CHR '']'' then ([], int (offset + n), None) else array_loop (drop (offset + n) data) (offset + n))"

definition array_each :: "string \<Rightarrow> (string \<times> ValueType \<times> int) list \<times> int \<times> json_error option" where
  "array_each data =
     (if data = [] then ([], -1, Some MalformedObjectError)
      else case nextToken data of None \<Rightarrow> ([], -1, Some MalformedJsonError) | Some n \<Rightarrow> array_from data (n + 1))"

subsection \<open>Searching\<close>

text \<open>The index in a key such as \<open>[12]\<close>.\<close>

definition index_key :: "string \<Rightarrow> int option" where
  "index_key k = (if length k < 3 \<or> last k \<noteq> CHR '']'' then None else Atoi (butlast (tl k)))"

text \<open>The element with that index, as a slice of the array, and where it starts. A string comes with its quotes.\<close>

definition array_item :: "string \<Rightarrow> int \<Rightarrow> (string \<times> int) option" where
  "array_item data idx =
     (if 0 \<le> idx \<and> idx < int (length (fst (array_each data)))
      then (case fst (array_each data) ! nat idx of (v, t, off) \<Rightarrow>
        Some (if t = String then (take (length v + 2) (drop (nat (off - 2)) data), off - 2) else (v, off)))
      else None)"

definition key_text :: "string \<Rightarrow> bool \<Rightarrow> string option" where
  "key_text k escaped = (if escaped then (case Unescape k of Ok s \<Rightarrow> Some s | _ \<Rightarrow> None) else Some k)"

function search_loop :: "string list \<Rightarrow> string \<Rightarrow> nat \<Rightarrow> int \<Rightarrow> int \<Rightarrow> bool \<Rightarrow> int option" where
  "search_loop keys [] i level keyLevel lastMatched = Some (-1)"
| "search_loop keys (c # cs) i level keyLevel lastMatched =
     (if c = quote
      then (case stringEnd cs of
          (None, _) \<Rightarrow> Some (-1)
        | (Some strEnd, keyEscaped) \<Rightarrow> (case nextToken (drop strEnd cs) of
            None \<Rightarrow> Some (-1)
          | Some valueOffset \<Rightarrow> (let rest = drop (strEnd + valueOffset) cs; j = i + 1 + strEnd + valueOffset
              in if hd rest = CHR '':''
                 then if level < 1 then Some (-1)
                      else (case key_text (take (strEnd - 1) cs) keyEscaped of
                          None \<Rightarrow> Some (-1)
                        | Some k \<Rightarrow>
                            if int (length keys) < level then Some (-1)
                            else if k = keys ! nat (level - 1)
                            then if keyLevel = level - 1
                                 then if keyLevel + 1 = int (length keys) then Some (int j + 1)
                                      else search_loop keys (tl rest) (j + 1) level (keyLevel + 1) True
                                 else search_loop keys (tl rest) (j + 1) level keyLevel True
                            else search_loop keys (tl rest) (j + 1) level keyLevel False)
                 else search_loop keys rest j level keyLevel lastMatched)))
      else if c = CHR ''{''
      then if \<not> lastMatched
           then (case blockEnd (c # cs) (CHR ''{'') (CHR ''}'') of
               None \<Rightarrow> Some (-1)
             | Some e \<Rightarrow> search_loop keys (drop (e - 1) cs) (i + e) level keyLevel lastMatched)
           else search_loop keys cs (i + 1) (level + 1) keyLevel lastMatched
      else if c = CHR ''}''
      then search_loop keys cs (i + 1) (level - 1) (if level - 1 = keyLevel then keyLevel - 1 else keyLevel) lastMatched
      else if c = CHR ''[''
      then if keyLevel = level \<and> (level < 0 \<or> int (length keys) \<le> level \<or> keys ! nat level = []) then None
           else if keyLevel = level \<and> hd (keys ! nat level) = CHR ''[''
           then (case index_key (keys ! nat level) of
               None \<Rightarrow> Some (-1)
             | Some aIdx \<Rightarrow> (case array_item (c # cs) aIdx of
                 None \<Rightarrow> Some (-1)
               | Some (valueFound, valueOffset) \<Rightarrow>
                   (let ks = drop (nat level + 1) keys
                    in if ks = [] then Some (int i + valueOffset)
                       else case search_loop ks valueFound 0 0 0 True of
                         None \<Rightarrow> None
                       | Some subIndex \<Rightarrow> Some (if subIndex < 0 then -1 else int i + valueOffset + subIndex))))
           else (case blockEnd (c # cs) (CHR ''['') (CHR '']'') of
               None \<Rightarrow> Some (-1)
             | Some arraySkip \<Rightarrow> search_loop keys (drop (arraySkip - 1) cs) (i + arraySkip) level keyLevel lastMatched)
      else if c = CHR '':'' then Some (-1)
      else search_loop keys cs (i + 1) level keyLevel lastMatched)"
  by pat_completeness auto
termination
  by (relation "measures [\<lambda>(keys, cs, _). length keys, \<lambda>(keys, cs, _). length cs]") (auto dest!: nextToken_Some)

declare search_loop.simps [simp del]

definition searchKeys :: "string \<Rightarrow> string list \<Rightarrow> int option" where
  "searchKeys data keys = (if keys = [] then Some 0 else search_loop keys data 0 0 0 True)"

subsection \<open>Get\<close>

definition internalGet :: "string \<Rightarrow> string list \<Rightarrow> (string \<times> ValueType \<times> int \<times> int \<times> json_error option) option" where
  "internalGet data keys = (case searchKeys data keys of
      None \<Rightarrow> None
    | Some offset \<Rightarrow> Some (if offset = -1 then ([], NotExist, -1, -1, Some KeyPathNotFoundError) else value_at data (nat offset)))"

definition Get :: "string \<Rightarrow> string list \<Rightarrow> (string \<times> ValueType \<times> int \<times> json_error option) option" where
  "Get data keys = (case internalGet data keys of None \<Rightarrow> None | Some (a, b, _, d, e) \<Rightarrow> Some (a, b, d, e))"

definition GetUnsafeString :: "string \<Rightarrow> string list \<Rightarrow> (json_error, string) outcome" where
  "GetUnsafeString data keys = (case Get data keys of
      None \<Rightarrow> Panic | Some (v, t, _, Some er) \<Rightarrow> Err er | Some (v, t, _, None) \<Rightarrow> Ok v)"

text \<open>The value if it has the type asked for.\<close>

definition get_typed :: "ValueType \<Rightarrow> string \<Rightarrow> string list \<Rightarrow> (json_error, string) outcome" where
  "get_typed t data keys = (case Get data keys of
      None \<Rightarrow> Panic
    | Some (v, t', _, Some er) \<Rightarrow> Err er
    | Some (v, t', _, None) \<Rightarrow> if t' \<noteq> t then Err (NotATypeError v) else Ok v)"

definition GetString :: "string \<Rightarrow> string list \<Rightarrow> (json_error, string) outcome" where
  "GetString data keys = obind (get_typed String data keys) (\<lambda>v. if backslash \<notin> set v then Ok v else ParseString v)"

definition GetInt :: "string \<Rightarrow> string list \<Rightarrow> (json_error, int) outcome" where
  "GetInt data keys = obind (get_typed Number data keys) ParseInt"

definition GetBoolean :: "string \<Rightarrow> string list \<Rightarrow> (json_error, bool) outcome" where
  "GetBoolean data keys = obind (get_typed Boolean data keys) ParseBoolean"

subsection \<open>Iterators\<close>

definition ArrayEach :: "string \<Rightarrow> string list \<Rightarrow> ((string \<times> ValueType \<times> int) list \<times> int \<times> json_error option) option" where
  "ArrayEach data keys =
     (if data = [] then Some ([], -1, Some MalformedObjectError)
      else if nextToken data = None then Some ([], -1, Some MalformedJsonError)
      else if keys = [] then Some (array_each data)
      else case searchKeys data keys of
        None \<Rightarrow> None
      | Some off \<Rightarrow>
          if off = -1 then Some ([], -1, Some KeyPathNotFoundError)
          else (case nextToken (drop (nat off) data) of
              None \<Rightarrow> Some ([], off, Some MalformedJsonError)
            | Some n \<Rightarrow>
                if data ! (nat off + n) \<noteq> CHR ''['' then Some ([], off + int n, Some MalformedArrayError)
                else Some (array_from data (nat off + n + 1))))"

text \<open>The loop of \<^verbatim>\<open>ObjectEach\<close> at \<^verbatim>\<open>data[offset:]\<close>. The callback gets the key, the value, its type and the offset after it; it works on a
  state of the caller and may return an error.\<close>

type_synonym 's callback = "string \<Rightarrow> string \<Rightarrow> ValueType \<Rightarrow> int \<Rightarrow> 's \<Rightarrow> 's \<times> json_error option"

text \<open>Steps 1 and 2: the key and the colon; the result is the key and how far they reach.\<close>

definition object_key :: "string \<Rightarrow> (json_error, string \<times> nat) outcome" where
  "object_key cs = (case stringEnd cs of
      (None, _) \<Rightarrow> Err MalformedJsonError
    | (Some off, esc) \<Rightarrow> (case (if esc then Unescape (take (off - 1) cs) else Ok (take (off - 1) cs)) of
        Err er \<Rightarrow> Err MalformedStringEscapeError
      | Panic \<Rightarrow> Panic
      | Ok key \<Rightarrow> (case nextToken (drop off cs) of
          None \<Rightarrow> Err MalformedJsonError
        | Some n \<Rightarrow> if cs ! (off + n) \<noteq> CHR '':'' then Err MalformedJsonError else Ok (key, off + n + 1))))"

function object_loop :: "'s callback \<Rightarrow> string \<Rightarrow> nat \<Rightarrow> 's \<Rightarrow> ('s \<times> json_error option) option" where
  "object_loop cb [] offset st = Some (st, Some MalformedObjectError)"
| "object_loop cb (c # cs) offset st =
     (if c = CHR ''}'' then Some (st, None)
      else if c \<noteq> quote then Some (st, Some MalformedObjectError)
      else case object_key cs of
        Err er \<Rightarrow> Some (st, Some er)
      | Panic \<Rightarrow> None
      | Ok (key, n) \<Rightarrow> (let rest = drop n cs; offset = offset + 1 + n
          in case value_at rest 0 of
               (value, t, _, _, Some er) \<Rightarrow> Some (st, Some er)
             | (value, t, _, off, None) \<Rightarrow> (case cb key value t (int offset + off) st of
                 (st, Some er) \<Rightarrow> Some (st, Some er)
               | (st, None) \<Rightarrow> (let rest = drop (nat off) rest; offset = offset + nat off
                   in case nextToken rest of
                        None \<Rightarrow> Some (st, Some MalformedArrayError)
                      | Some m \<Rightarrow>
                          if rest ! m = CHR ''}'' then Some (st, None)
                          else if rest ! m \<noteq> CHR '','' then Some (st, Some MalformedObjectError)
                          else (case nextToken (drop (m + 1) rest) of
                              None \<Rightarrow> Some (st, Some MalformedArrayError)
                            | Some k \<Rightarrow> object_loop cb (drop (m + 1 + k) rest) (offset + m + 1 + k) st)))))"
  by pat_completeness auto
termination
  by (relation "measure (\<lambda>(cb, cs, _). length cs)") auto

declare object_loop.simps [simp del]

definition ObjectEach :: "string \<Rightarrow> 's callback \<Rightarrow> string list \<Rightarrow> 's \<Rightarrow> ('s \<times> json_error option) option" where
  "ObjectEach data cb keys st = (case searchKeys data keys of
      None \<Rightarrow> None
    | Some off \<Rightarrow>
        if off = -1 then Some (st, Some KeyPathNotFoundError)
        else (case nextToken (drop (nat off) data) of
            None \<Rightarrow> Some (st, Some MalformedObjectError)
          | Some n \<Rightarrow> (let offset = nat off + n
              in if data ! offset \<noteq> CHR ''{'' then Some (st, Some MalformedObjectError)
                 else case nextToken (drop (offset + 1) data) of
                   None \<Rightarrow> Some (st, Some MalformedJsonError)
                 | Some m \<Rightarrow>
                     if data ! (offset + 1 + m) = CHR ''}'' then Some (st, None)
                     else object_loop cb (drop (offset + 1 + m) data) (offset + 1 + m) st)))"

end
