(* ===== verification/Json_Set.thy ===== *)
theory Json_Set
  imports Json_Get
begin

text \<open>
  Writing into a JSON document (\<^verbatim>\<open>json/parser.go\<close>): \<^verbatim>\<open>Set\<close> replaces the value at a path, or adds what is missing of the path. The
  inserted text is written piece by piece into a buffer whose length is computed first.
\<close>

definition is_index :: "string \<Rightarrow> bool" where
  "is_index k \<longleftrightarrow> hd k = CHR ''[''"

text \<open>Only the first byte of a key is looked at; an empty key panics.\<close>

definition calcAllocateSpace :: "string list \<Rightarrow> string \<Rightarrow> bool \<Rightarrow> bool \<Rightarrow> nat" where
  "calcAllocateSpace keys setValue comma object =
     (let isIndex = is_index (hd keys)
      in (if comma then 1 else 0)
       + (if isIndex \<and> \<not> comma then 2 else (if object then 1 else 0) + (if \<not> isIndex then length (hd keys) + 3 else 0))
       + length setValue
       + sum_list (map (\<lambda>k. if is_index k then 2 else length k + 5) (tl keys))
       + (if object \<and> \<not> isIndex then 1 else 0))"

text \<open>\<^verbatim>\<open>WriteToBuffer(buffer[offset:], str)\<close>: what does not fit is cut off, and the offset moves on by the length of the string.\<close>

definition WriteToBuffer :: "string \<Rightarrow> string \<times> nat \<Rightarrow> string \<times> nat" where
  "WriteToBuffer str b = (take (length (fst b)) (take (snd b) (fst b) @ str @ drop (snd b + length str) (fst b)), snd b + length str)"

definition insert_pieces :: "string list \<Rightarrow> string \<Rightarrow> bool \<Rightarrow> bool \<Rightarrow> string list" where
  "insert_pieces keys setValue comma object =
     (let isIndex = is_index (hd keys)
      in (if comma then ['',''] else [])
       @ (if isIndex \<and> \<not> comma then [''['']
          else (if object then [''{''] else []) @ (if \<not> isIndex then [[quote], hd keys, [quote, CHR '':'']] else []))
       @ concat (map (\<lambda>k. if is_index k then [''[''] else [[CHR ''{'', quote], k, [quote, CHR '':'']]) (tl keys))
       @ [setValue]
       @ map (\<lambda>k. if is_index k then '']'' else ''}'') (rev (tl keys))
       @ (if isIndex \<and> \<not> comma then ['']''] else [])
       @ (if object \<and> \<not> isIndex then [''}''] else []))"

fun write_all :: "string list \<Rightarrow> string \<times> nat \<Rightarrow> string option" where
  "write_all [] b = Some (fst b)"
| "write_all (p # ps) b = (if length (fst b) < snd b then None else write_all ps (WriteToBuffer p b))"

definition createInsertComponent :: "string list \<Rightarrow> string \<Rightarrow> bool \<Rightarrow> bool \<Rightarrow> string option" where
  "createInsertComponent keys setValue comma object =
     (if keys = [] \<or> [] \<in> set keys then None
      else write_all (insert_pieces keys setValue comma object) (replicate (calcAllocateSpace keys setValue comma object) (CHR 0x00), 0))"

subsection \<open>Set\<close>

text \<open>The loop over the prefixes of the path: how many exist, and where the value of the last of them lies.\<close>

fun path_depth :: "string \<Rightarrow> string list \<Rightarrow> string list \<Rightarrow> nat \<times> int \<times> int \<Rightarrow> (nat \<times> int \<times> int) option" where
  "path_depth data before [] acc = Some acc"
| "path_depth data before (k # ks) (depth, startOffset, endOffset) = (case internalGet data (before @ [k]) of
      None \<Rightarrow> None
    | Some (_, _, st, en, er) \<Rightarrow>
        if er \<noteq> None then Some (depth, startOffset, endOffset) else path_depth data (before @ [k]) ks (depth + 1, st, en))"

text \<open>The first byte after position \<open>i\<close> that is not white space; the byte at \<open>i\<close> itself when there is none.\<close>

definition after :: "string \<Rightarrow> nat \<Rightarrow> char" where
  "after data i = (case nextToken (drop (i + 1) data) of None \<Rightarrow> data ! i | Some n \<Rightarrow> data ! (i + 1 + n))"

definition set_missing :: "string \<Rightarrow> string \<Rightarrow> string list \<Rightarrow> nat \<times> int \<times> int \<Rightarrow> (json_error, string) outcome" where
  "set_missing data setValue keys d = (case d of (depth, startOffset, endOffset) \<Rightarrow>
     obind (if endOffset = -1
            then (case nextToken data of
                None \<Rightarrow> Err KeyPathNotFoundError
              | Some firstToken \<Rightarrow>
                  if data ! firstToken \<noteq> CHR ''{'' then Err KeyPathNotFoundError
                  else Ok (after data firstToken \<noteq> CHR ''}'', the (lastToken data)))
            else Ok (True, nat endOffset)) (\<lambda>(comma, endOffset).
       let ks = drop depth keys; at_start = data ! nat startOffset; first = after data (nat startOffset)
       in if depth \<noteq> 0 \<and> at_start = CHR ''['' \<and> first = CHR ''{'' \<and> hd ks = [] then Panic
          else let (comma, object, startOffset, depthOffset) =
                 (if depth = 0 then (comma, False, endOffset, endOffset)
                  else if at_start = CHR ''{'' \<and> first \<noteq> CHR ''}'' \<or> at_start = CHR ''['' \<and> first = CHR ''{'' \<and> is_index (hd ks)
                  then (comma, False, endOffset - 1, endOffset - 1)
                  else (False, True, nat startOffset, endOffset))
               in case createInsertComponent ks setValue comma object of
                    None \<Rightarrow> Panic
                  | Some component \<Rightarrow> Ok (take startOffset data @ component @ drop depthOffset data)))"

definition Set :: "string \<Rightarrow> string \<Rightarrow> string list \<Rightarrow> (json_error, string) outcome" where
  "Set data setValue keys =
     (if keys = [] then Err KeyPathNotFoundError
      else case internalGet data keys of
        None \<Rightarrow> Panic
      | Some (_, _, st, en, None) \<Rightarrow> Ok (take (nat st) data @ setValue @ drop (nat en) data)
      | Some (_, _, st, en, Some er) \<Rightarrow>
          if er \<noteq> KeyPathNotFoundError then Err er
          else (case path_depth data [] keys (0, st, en) of None \<Rightarrow> Panic | Some d \<Rightarrow> set_missing data setValue keys d))"

subsection \<open>The buffer has the right length\<close>

lemma write_all_concat:
  "length xs + length (concat ps) \<le> n \<Longrightarrow> write_all ps (xs @ replicate (n - length xs) z, length xs) = Some (xs @ concat ps @ replicate (n - length xs - length (concat ps)) z)"
proof (induction ps arbitrary: xs)
  case (Cons p ps)
  have "WriteToBuffer p (xs @ replicate (n - length xs) z, length xs) = ((xs @ p) @ replicate (n - length (xs @ p)) z, length (xs @ p))"
    using Cons.prems by (simp add: WriteToBuffer_def)
  then show ?case using Cons.IH [of "xs @ p"] Cons.prems by simp
qed simp

lemma insert_length: "length (concat (insert_pieces keys v comma object)) = calcAllocateSpace keys v comma object"
proof -
  have a: "length (concat (concat (map (\<lambda>k. if is_index k then [''[''] else [[CHR ''{'', quote], k, [quote, CHR '':'']]) ks))) +
      length (concat (map (\<lambda>k. if is_index k then '']'' else ''}'') (rev ks))) = sum_list (map (\<lambda>k. if is_index k then 2 else length k + 5) ks)" for ks
    by (induction ks) auto
  show ?thesis using a [of "tl keys"] by (simp add: insert_pieces_def calcAllocateSpace_def Let_def)
qed

lemma createInsertComponent_eq:
  "keys \<noteq> [] \<Longrightarrow> [] \<notin> set keys \<Longrightarrow> createInsertComponent keys v comma object = Some (concat (insert_pieces keys v comma object))"
  using write_all_concat [of "[]" "insert_pieces keys v comma object" "calcAllocateSpace keys v comma object" "CHR 0x00"]
  by (simp add: createInsertComponent_def insert_length)

end
