(* ===== verification/Json_Text.thy ===== *)
theory Json_Text
  imports Json_Set
begin

text \<open>
  JSON documents and their texts, with white space between any two tokens, and what the scanners do on them.
\<close>

subsection \<open>Documents\<close>

text \<open>Strings and keys are kept as they are written between the quotes.\<close>

datatype json = JNull | JBool bool | JNum string | JStr string | JArr "json list" | JObj "(string \<times> json) list"

definition ws :: "string \<Rightarrow> bool" where
  "ws s \<longleftrightarrow> (\<forall>c\<in>set s. is_ws c)"

fun str_ok :: "string \<Rightarrow> bool" where
  "str_ok [] = True"
| "str_ok (c # cs) = (if c = backslash then (case cs of [] \<Rightarrow> False | d # ds \<Rightarrow> str_ok ds) else c \<noteq> quote \<and> str_ok cs)"

definition num_char :: "char \<Rightarrow> bool" where
  "num_char c \<longleftrightarrow> (CHR ''0'' \<le> c \<and> c \<le> CHR ''9'') \<or> c = CHR ''-'' \<or> c = CHR ''+'' \<or> c = CHR ''.'' \<or> c = CHR ''e'' \<or> c = CHR ''E''"

definition num_ok :: "string \<Rightarrow> bool" where
  "num_ok n \<longleftrightarrow> n \<noteq> [] \<and> ((CHR ''0'' \<le> hd n \<and> hd n \<le> CHR ''9'') \<or> hd n = CHR ''-'') \<and> (\<forall>c\<in>set n. num_char c)"

inductive text_of :: "json \<Rightarrow> string \<Rightarrow> bool" where
  text_null: "text_of JNull ''null''"
| text_true: "text_of (JBool True) ''true''"
| text_false: "text_of (JBool False) ''false''"
| text_num: "num_ok n \<Longrightarrow> text_of (JNum n) n"
| text_str: "str_ok r \<Longrightarrow> text_of (JStr r) (quote # r @ [quote])"
| text_arr0: "ws a \<Longrightarrow> text_of (JArr []) (CHR ''['' # a @ [CHR '']''])"
| text_arr: "vs \<noteq> [] \<Longrightarrow> list_all2 (\<lambda>v m. \<exists>a t b. ws a \<and> text_of v t \<and> ws b \<and> m = a @ t @ b) vs ms \<Longrightarrow>
    text_of (JArr vs) (CHR ''['' # join_with (CHR '','') ms @ [CHR '']''])"
| text_obj0: "ws a \<Longrightarrow> text_of (JObj []) (CHR ''{'' # a @ [CHR ''}''])"
| text_obj: "kvs \<noteq> [] \<Longrightarrow> list_all2 (\<lambda>kv m. \<exists>a b c t d. ws a \<and> str_ok (fst kv) \<and> ws b \<and> ws c \<and> text_of (snd kv) t \<and> ws d \<and>
      m = a @ quote # fst kv @ quote # b @ CHR '':'' # c @ t @ d) kvs ms \<Longrightarrow>
    text_of (JObj kvs) (CHR ''{'' # join_with (CHR '','') ms @ [CHR ''}''])"

inductive_cases text_arrE: "text_of (JArr vs) t"
inductive_cases text_objE: "text_of (JObj kvs) t"
inductive_cases text_strE: "text_of (JStr r) t"

definition elem_text :: "json \<Rightarrow> string \<Rightarrow> bool" where
  "elem_text v m \<longleftrightarrow> (\<exists>a t b. ws a \<and> text_of v t \<and> ws b \<and> m = a @ t @ b)"

definition member_text :: "string \<times> json \<Rightarrow> string \<Rightarrow> bool" where
  "member_text kv m \<longleftrightarrow> (\<exists>a b c t d. ws a \<and> str_ok (fst kv) \<and> ws b \<and> ws c \<and> text_of (snd kv) t \<and> ws d \<and>
     m = a @ quote # fst kv @ quote # b @ CHR '':'' # c @ t @ d)"

lemma text_arr_iff: "text_of (JArr vs) t \<longleftrightarrow> (if vs = [] then \<exists>a. ws a \<and> t = CHR ''['' # a @ [CHR '']'']
    else \<exists>ms. list_all2 elem_text vs ms \<and> t = CHR ''['' # join_with (CHR '','') ms @ [CHR '']''])"
  unfolding elem_text_def [abs_def] by (auto elim!: text_arrE intro: text_of.intros)

lemma text_obj_iff: "text_of (JObj kvs) t \<longleftrightarrow> (if kvs = [] then \<exists>a. ws a \<and> t = CHR ''{'' # a @ [CHR ''}'']
    else \<exists>ms. list_all2 member_text kvs ms \<and> t = CHR ''{'' # join_with (CHR '','') ms @ [CHR ''}''])"
  unfolding member_text_def [abs_def] by (auto elim!: text_objE intro: text_of.intros)

subsection \<open>White space and strings\<close>

lemma ws_simps [simp]: "ws []" "ws (c # s) \<longleftrightarrow> is_ws c \<and> ws s" "ws (s @ t) \<longleftrightarrow> ws s \<and> ws t"
  by (auto simp: ws_def)

lemma nextToken_ws: "ws a \<Longrightarrow> nextToken (a @ s) = map_option (\<lambda>n. length a + n) (nextToken s)"
  by (cases "nextToken s"; induction a) auto

lemma nextToken_none: "ws a \<Longrightarrow> nextToken a = None"
  by (induction a) auto

text \<open>An even number of backslashes stands in front of the rest of a string, as long as the pairs are complete.\<close>

lemma even_backslashes_other: "c \<noteq> backslash \<Longrightarrow> even_backslashes (c # s)"
  by (cases s) auto

lemma even_backslashes_odd: "even_backslashes (backslash # s) = (\<not> even_backslashes s)"
  by (induction s rule: even_backslashes.induct) (auto simp: even_backslashes_other)

lemma string_loop_str:
  "str_ok r \<Longrightarrow> even_backslashes before \<Longrightarrow> (escaped \<or> backslash \<notin> set before) \<Longrightarrow>
    string_loop before escaped i (r @ quote # s) = (Some (i + length r + 1), escaped \<or> backslash \<in> set r)"
proof (induction r arbitrary: before escaped i rule: str_ok.induct)
  case (2 c cs)
  show ?case
  proof (cases "c = backslash")
    case True
    then obtain d ds where cs: "cs = d # ds" "str_ok ds" using 2(3) by (auto split: list.splits)
    have odd: "\<not> even_backslashes (backslash # before)" using 2(4) by (simp add: even_backslashes_odd)
    have e: "even_backslashes (d # backslash # before)"
      using 2(4) odd by (cases "d = backslash") (auto simp: even_backslashes_other even_backslashes_odd simp del: even_backslashes.simps)
    have "string_loop before escaped i ((c # cs) @ quote # s) = string_loop (d # backslash # before) True (i + 2) (ds @ quote # s)"
      using odd by (simp add: True cs(1))
    also have "\<dots> = (Some (i + 2 + length ds + 1), True)" using 2(1) [OF True cs(1) cs(2) e] by simp
    finally show ?thesis by (simp add: True cs(1))
  next
    case False
    then have c: "c \<noteq> quote" "str_ok cs" using 2(3) by auto
    have "even_backslashes (c # before)" using False by (rule even_backslashes_other)
    then show ?thesis using 2(2) [OF False c(2)] False c(1) 2(5) by auto
  qed
qed simp

lemma stringEnd_str: "str_ok r \<Longrightarrow> stringEnd (r @ quote # s) = (Some (length r + 1), backslash \<in> set r)"
  by (simp add: stringEnd_def string_loop_str)

subsection \<open>Blocks\<close>

definition bracket_pair :: "char \<Rightarrow> char \<Rightarrow> bool" where
  "bracket_pair a z \<longleftrightarrow> a = CHR ''['' \<and> z = CHR '']'' \<or> a = CHR ''{'' \<and> z = CHR ''}''"

text \<open>A piece of text that leaves the level of every open block as it is.\<close>

definition balanced :: "string \<Rightarrow> bool" where
  "balanced s \<longleftrightarrow> (\<forall>a z level i rest. bracket_pair a z \<longrightarrow> 1 \<le> level \<longrightarrow>
     block_loop a z level i (s @ rest) = block_loop a z level (i + length s) rest)"

lemma balanced_append: "balanced s \<Longrightarrow> balanced t \<Longrightarrow> balanced (s @ t)"
  by (simp add: balanced_def add.assoc)

definition ordinary :: "char \<Rightarrow> bool" where
  "ordinary c \<longleftrightarrow> c \<notin> {quote, CHR ''['', CHR '']'', CHR ''{'', CHR ''}'', CHR '':''}"

lemma balanced_char: "c \<notin> {quote, CHR ''['', CHR '']'', CHR ''{'', CHR ''}''} \<Longrightarrow> balanced [c]"
  by (auto simp: balanced_def bracket_pair_def)

lemma balanced_chars: "\<forall>c\<in>set s. ordinary c \<Longrightarrow> balanced s"
proof (induction s)
  case (Cons c s)
  then show ?case using balanced_append [OF balanced_char [of c], of s] by (auto simp: ordinary_def)
qed (simp add: balanced_def)

lemma ws_ordinary: "is_ws c \<Longrightarrow> ordinary c"
  by (auto simp: is_ws_def ordinary_def)

lemma num_ordinary: "num_char c \<Longrightarrow> ordinary c"
  by (auto simp: num_char_def ordinary_def less_eq_char_def)

lemma balanced_ws: "ws s \<Longrightarrow> balanced s"
  by (rule balanced_chars) (auto simp: ws_def ws_ordinary)

lemma balanced_str: "str_ok r \<Longrightarrow> balanced (quote # r @ [quote])"
  by (auto simp: balanced_def bracket_pair_def stringEnd_str)

lemma balanced_block: "bracket_pair a z \<Longrightarrow> balanced s \<Longrightarrow> balanced (a # s @ [z])"
  by (auto simp: balanced_def bracket_pair_def)

lemma balanced_join: "\<forall>m\<in>set ms. balanced m \<Longrightarrow> balanced (join_with (CHR '','') ms)"
proof (induction "CHR '',''" ms rule: join_with.induct)
  case (3 p q ps)
  have "balanced (p @ [CHR '',''] @ join_with (CHR '','') (q # ps))"
    using 3 by (intro balanced_append balanced_char) auto
  then show ?case by simp
qed (simp_all add: balanced_def)

lemma balanced_elem: "ws a \<Longrightarrow> balanced t \<Longrightarrow> ws b \<Longrightarrow> balanced (a @ t @ b)"
  by (simp add: balanced_append balanced_ws)

lemma balanced_member:
  assumes "ws a" "str_ok k" "ws b" "ws c" "balanced t" "ws d"
  shows "balanced (a @ quote # k @ quote # b @ CHR '':'' # c @ t @ d)"
proof -
  have "balanced (a @ (quote # k @ [quote]) @ b @ [CHR '':''] @ c @ t @ d)"
    by (intro balanced_append assms balanced_str balanced_char balanced_ws) auto
  then show ?thesis by simp
qed

lemma balanced_text: "text_of v t \<Longrightarrow> balanced t"
proof (induction rule: text_of.induct)
  case (text_num n)
  then show ?case by (intro balanced_chars) (auto simp: num_ok_def num_ordinary)
next
  case (text_arr vs ms)
  have "\<forall>m\<in>set ms. balanced m" using text_arr(2) by (induction rule: list_all2_induct) (auto simp: balanced_elem)
  then show ?case using balanced_block [OF _ balanced_join] by (simp add: bracket_pair_def)
next
  case (text_obj kvs ms)
  have "\<forall>m\<in>set ms. balanced m" using text_obj(2) by (induction rule: list_all2_induct) (auto simp: balanced_member)
  then show ?case using balanced_block [OF _ balanced_join] by (simp add: bracket_pair_def)
qed (simp_all add: balanced_chars balanced_str balanced_block balanced_ws ordinary_def bracket_pair_def)

text \<open>What is between the brackets of an array or object.\<close>

lemma text_block:
  assumes "text_of v t"
  shows "v = JArr vs \<Longrightarrow> \<exists>s. t = CHR ''['' # s @ [CHR '']''] \<and> balanced s"
    "v = JObj kvs \<Longrightarrow> \<exists>s. t = CHR ''{'' # s @ [CHR ''}''] \<and> balanced s"
proof -
  have "list_all2 elem_text vs ms \<Longrightarrow> \<forall>m\<in>set ms. balanced m" for vs ms
    by (induction rule: list_all2_induct) (auto simp: elem_text_def balanced_elem balanced_text)
  then show "v = JArr vs \<Longrightarrow> \<exists>s. t = CHR ''['' # s @ [CHR '']''] \<and> balanced s"
    using assms by (fastforce simp: text_arr_iff intro: balanced_ws balanced_join split: if_splits)
  have "list_all2 member_text kvs ms \<Longrightarrow> \<forall>m\<in>set ms. balanced m" for kvs ms
    by (induction rule: list_all2_induct) (auto simp: member_text_def balanced_member balanced_text)
  then show "v = JObj kvs \<Longrightarrow> \<exists>s. t = CHR ''{'' # s @ [CHR ''}''] \<and> balanced s"
    using assms by (fastforce simp: text_obj_iff intro: balanced_ws balanced_join split: if_splits)
qed

lemma blockEnd_text: "bracket_pair a z \<Longrightarrow> balanced s \<Longrightarrow> blockEnd (a # s @ z # rest) a z = Some (length s + 2)"
  by (auto simp: blockEnd_def balanced_def bracket_pair_def)

subsection \<open>The value at the front\<close>

fun type_of :: "json \<Rightarrow> ValueType" where
  "type_of JNull = Null" | "type_of (JBool b) = Boolean" | "type_of (JNum n) = Number"
| "type_of (JStr r) = String" | "type_of (JArr vs) = Array" | "type_of (JObj kvs) = Object"

definition bare :: "json \<Rightarrow> string \<Rightarrow> string" where
  "bare v t = (case v of JStr r \<Rightarrow> r | _ \<Rightarrow> t)"

definition ends :: "string \<Rightarrow> bool" where
  "ends rest \<longleftrightarrow> rest = [] \<or> is_end (hd rest)"

lemma tokenEnd_ends: "\<forall>c\<in>set s. \<not> is_end c \<Longrightarrow> ends rest \<Longrightarrow> tokenEnd (s @ rest) = length s"
  by (induction s) (cases rest; auto simp: ends_def)+

lemma num_not_end: "num_char c \<Longrightarrow> \<not> is_end c"
  by (auto simp: num_char_def is_end_def is_ws_def less_eq_char_def)

lemma text_head: "text_of v t \<Longrightarrow> t \<noteq> [] \<and> \<not> is_ws (hd t)"
  by (cases rule: text_of.cases) (auto simp: is_ws_def num_ok_def less_eq_char_def)

lemma getType_text:
  assumes "text_of v t" "ends rest" "drop offset data = t @ rest"
  shows "getType data offset = (t, type_of v, offset + length t, None)"
proof (cases v)
  case (JNum n)
  then have t: "t = n" "num_ok n" using assms(1) by (auto elim: text_of.cases)
  have "tokenEnd (t @ rest) = length t" using t assms(2) by (intro tokenEnd_ends) (auto simp: num_ok_def num_not_end)
  moreover have "literal_type t = Number" using t by (cases n) (auto simp: literal_type_def num_ok_def less_eq_char_def)
  moreover have "hd (t @ rest) \<noteq> quote \<and> hd (t @ rest) \<noteq> CHR ''['' \<and> hd (t @ rest) \<noteq> CHR ''{''"
    using t by (auto simp: num_ok_def less_eq_char_def)
  ultimately show ?thesis using t by (simp add: getType_def assms(3) Let_def JNum)
next
  case (JStr r)
  then have "t = quote # r @ [quote]" "str_ok r" using assms(1) by (auto elim: text_of.cases)
  then show ?thesis by (simp add: getType_def assms(3) stringEnd_str JStr)
next
  case (JArr vs)
  obtain s where "t = CHR ''['' # s @ [CHR '']'']" "balanced s" using text_block(1) [OF assms(1) JArr] by blast
  then show ?thesis using blockEnd_text [of "CHR ''[''" "CHR '']''" s rest] by (simp add: getType_def assms(3) bracket_pair_def JArr)
next
  case (JObj kvs)
  obtain s where "t = CHR ''{'' # s @ [CHR ''}'']" "balanced s" using text_block(2) [OF assms(1) JObj] by blast
  then show ?thesis using blockEnd_text [of "CHR ''{''" "CHR ''}''" s rest] by (simp add: getType_def assms(3) bracket_pair_def JObj)
next
  case JNull
  then have "t = ''null''" using assms(1) by (auto elim: text_of.cases)
  moreover have "tokenEnd (''null'' @ rest) = 4" using tokenEnd_ends [OF _ assms(2), of "''null''"] by (simp add: is_end_def is_ws_def)
  ultimately show ?thesis using JNull by (simp add: getType_def assms(3) Let_def literal_type_def)
next
  case (JBool b)
  then have t: "t = (if b then ''true'' else ''false'')" using assms(1) by (auto elim: text_of.cases)
  have "tokenEnd (''true'' @ rest) = 4" "tokenEnd (''false'' @ rest) = 5"
    using tokenEnd_ends [OF _ assms(2), of "''true''"] tokenEnd_ends [OF _ assms(2), of "''false''"] by (simp_all add: is_end_def is_ws_def)
  then show ?thesis using t JBool by (cases b) (simp_all add: getType_def assms(3) Let_def literal_type_def)
qed

lemma value_at_text:
  assumes "text_of v t" "ends rest" "ws a" "drop offset data = a @ t @ rest"
  shows "value_at data offset = (bare v t, type_of v, int (offset + length a), int (offset + length a + length t), None)"
proof -
  have "nextToken (t @ rest) = Some 0" using text_head [OF assms(1)] by (cases t) auto
  then have n: "nextToken (drop offset data) = Some (length a)" by (simp add: assms(3,4) nextToken_ws)
  have "drop (offset + length a) data = drop (length a) (drop offset data)" by (simp add: add.commute)
  then have "drop (offset + length a) data = t @ rest" by (simp add: assms(4))
  note g = getType_text [OF assms(1,2) this]
  show ?thesis
  proof (cases v)
    case (JStr r)
    then have "t = quote # r @ [quote]" using assms(1) by (auto elim: text_of.cases)
    then show ?thesis using g JStr by (simp add: value_at_def n bare_def)
  qed (use g in \<open>simp_all add: value_at_def n bare_def\<close>)
qed

subsection \<open>Arrays\<close>

lemma join_split:
  "n < length ms \<Longrightarrow> join_with c ms = concat (map (\<lambda>m. m @ [c]) (take n ms)) @ ms ! n @ concat (map (\<lambda>m. c # m) (drop (Suc n) ms))"
proof (induction c ms arbitrary: n rule: join_with.induct)
  case (3 c p q ps)
  show ?case
  proof (cases n)
    case 0
    have "join_with c (q # ps) = q @ concat (map (\<lambda>m. c # m) ps)" using 3(1) [of 0] by simp
    then show ?thesis by (simp add: 0)
  next
    case (Suc m)
    then show ?thesis using 3(1) [of m] 3(2) by simp
  qed
qed auto

definition item_of :: "json \<Rightarrow> string \<Rightarrow> nat \<Rightarrow> string \<times> ValueType \<times> int" where
  "item_of v t start = (bare v t, type_of v, int start + int (length t) - int (length (bare v t)))"

lemma array_loop_step:
  assumes "ws a" "text_of v t" "ws b" "x = CHR '','' \<or> x = CHR '']''"
  shows "array_loop (a @ t @ b @ x # rest) off =
    (if x = CHR '']'' then ([item_of v t (off + length a)], int (off + length (a @ t @ b)), None)
     else case array_loop rest (off + length (a @ t @ b) + 1) of (others, res) \<Rightarrow> (item_of v t (off + length a) # others, res))"
proof -
  have e: "ends (b @ x # rest)" using assms(3,4) by (cases b) (auto simp: ends_def is_end_def)
  note va = value_at_text [OF assms(2) e assms(1), of 0 "a @ t @ b @ x # rest", simplified]
  have x: "\<not> is_ws x" using assms(4) by (auto simp: is_ws_def)
  have n: "nextToken (b @ x # rest) = Some (length b)" using x by (simp add: nextToken_ws assms(3))
  have ty: "type_of v \<noteq> NotExist" by (cases v) simp_all
  have t: "t \<noteq> []" using text_head [OF assms(2)] by simp
  then have z: "int (length a) + int (length t) \<noteq> 0" by (cases t) auto
  have d: "nat (int (length a) + int (length t)) = length a + length t" by simp
  show ?thesis
  proof (cases "x = CHR '']''")
    case True
    then show ?thesis by (subst array_loop.simps) (simp add: va [unfolded True] n [unfolded True] z d ty item_of_def)
  next
    case False
    then have x: "x = CHR '',''" using assms(4) by simp
    show ?thesis
      by (subst array_loop.simps) (simp add: x va [unfolded x] n [unfolded x] z d ty item_of_def add.assoc split: prod.split)
  qed
qed

end
