(* ===== verification/Json_Laws.thy ===== *)
theory Json_Laws
  imports Json_Text
begin

text \<open>
  Reading and writing JSON documents: \<^verbatim>\<open>Get\<close> finds the value at a path, and \<^verbatim>\<open>Set\<close> replaces it or adds a member, whatever the white
  space of the document.
\<close>

subsection \<open>Paths in a document\<close>

definition key_of :: "string \<Rightarrow> string option" where
  "key_of r = key_text r (backslash \<in> set r)"

text \<open>The first member with a key; a key before it that cannot be unescaped ends the search.\<close>

fun member_pos :: "string \<Rightarrow> (string \<times> json) list \<Rightarrow> nat option" where
  "member_pos k [] = None"
| "member_pos k (m # ms) = (case key_of (fst m) of
      None \<Rightarrow> None
    | Some k' \<Rightarrow> if k' = k then Some 0 else map_option Suc (member_pos k ms))"

definition index_pos :: "string \<Rightarrow> nat \<Rightarrow> nat option" where
  "index_pos k n = (if k = [] \<or> hd k \<noteq> CHR ''['' then None
     else case index_key k of None \<Rightarrow> None | Some i \<Rightarrow> if 0 \<le> i \<and> i < int n then Some (nat i) else None)"

fun lookup :: "json \<Rightarrow> string list \<Rightarrow> json option" where
  "lookup v [] = Some v"
| "lookup (JObj kvs) (k # ks) = (case member_pos k kvs of None \<Rightarrow> None | Some n \<Rightarrow> lookup (snd (kvs ! n)) ks)"
| "lookup (JArr vs) (k # ks) = (case index_pos k (length vs) of None \<Rightarrow> None | Some n \<Rightarrow> lookup (vs ! n) ks)"
| "lookup v (k # ks) = None"

fun update :: "json \<Rightarrow> string list \<Rightarrow> json \<Rightarrow> json" where
  "update v [] w = w"
| "update (JObj kvs) (k # ks) w =
     (case member_pos k kvs of None \<Rightarrow> JObj kvs | Some n \<Rightarrow> JObj (kvs[n := (fst (kvs ! n), update (snd (kvs ! n)) ks w)]))"
| "update (JArr vs) (k # ks) w = (case index_pos k (length vs) of None \<Rightarrow> JArr vs | Some n \<Rightarrow> JArr (vs[n := update (vs ! n) ks w]))"
| "update v (k # ks) w = v"

lemma member_pos_less: "member_pos k kvs = Some n \<Longrightarrow> n < length kvs \<and> key_of (fst (kvs ! n)) = Some k \<and>
    (\<forall>m<n. \<exists>k'. key_of (fst (kvs ! m)) = Some k' \<and> k' \<noteq> k)"
proof (induction kvs arbitrary: n)
  case (Cons kv kvs)
  then obtain k' where k': "key_of (fst kv) = Some k'" by (auto split: option.splits)
  show ?case
  proof (cases "k' = k")
    case True
    then show ?thesis using Cons.prems k' by simp
  next
    case False
    then obtain m where m: "n = Suc m" "member_pos k kvs = Some m" using Cons.prems k' by auto
    show ?thesis using Cons.IH [OF m(2)] m(1) k' False by (auto simp: less_Suc_eq_0_disj)
  qed
qed simp

lemma member_pos_update: "member_pos k kvs = Some n \<Longrightarrow> member_pos k (kvs[n := (fst (kvs ! n), w)]) = Some n"
proof (induction kvs arbitrary: n)
  case (Cons kv kvs)
  then show ?case by (cases n) (auto split: option.splits if_splits)
qed simp

lemma index_pos_less: "index_pos k l = Some n \<Longrightarrow> n < l \<and> k \<noteq> [] \<and> hd k = CHR ''['' \<and> index_key k = Some (int n)"
  by (auto simp: index_pos_def split: if_splits option.splits)

lemma lookup_update: "lookup v ks = Some w \<Longrightarrow> lookup (update v ks w') ks = Some w'"
proof (induction v ks arbitrary: w rule: lookup.induct)
  case (2 kvs k ks)
  then obtain n where n: "member_pos k kvs = Some n" by (auto split: option.splits)
  then have "n < length kvs" using member_pos_less by blast
  then show ?case using 2 n by (simp add: member_pos_update)
next
  case (3 vs k ks)
  then obtain n where n: "index_pos k (length vs) = Some n" by (auto split: option.splits)
  then have "n < length vs" using index_pos_less by blast
  then show ?case using 3 n by simp
qed auto

subsection \<open>What the search passes over\<close>

lemma search_skip:
  "\<forall>c\<in>set s. ordinary c \<Longrightarrow> search_loop keys (s @ rest) i l kl lm = search_loop keys rest (i + length s) l kl lm"
proof (induction s arbitrary: i)
  case (Cons c s)
  have "search_loop keys (c # s @ rest) i l kl lm = search_loop keys (s @ rest) (i + 1) l kl lm"
    by (subst search_loop.simps) (use Cons.prems in \<open>simp add: ordinary_def\<close>)
  then show ?case using Cons by simp
qed simp

lemma search_ws: "ws a \<Longrightarrow> search_loop keys (a @ rest) i l kl lm = search_loop keys rest (i + length a) l kl lm"
  by (rule search_skip) (auto simp: ws_def ws_ordinary)

lemma search_string:
  assumes "str_ok r" "ws d" "\<not> is_ws x" "x \<noteq> CHR '':''"
  shows "search_loop keys (quote # r @ quote # d @ x # rest) i l kl lm = search_loop keys (x # rest) (i + length r + 2 + length d) l kl lm"
proof -
  have "nextToken (d @ x # rest) = Some (length d)" using assms(3) by (simp add: nextToken_ws assms(2))
  then show ?thesis by (subst search_loop.simps) (simp add: stringEnd_str assms(1,4) Let_def add.assoc)
qed

lemma search_key:
  assumes "str_ok r" "ws b" "key_of r = Some k" "1 \<le> l" "l \<le> int (length keys)"
  shows "search_loop keys (quote # r @ quote # b @ CHR '':'' # rest) i l kl lm =
    (let j = i + length r + 2 + length b
     in if k = keys ! nat (l - 1)
        then if kl = l - 1
             then if l = int (length keys) then Some (int j + 1) else search_loop keys rest (j + 1) l l True
             else search_loop keys rest (j + 1) l kl True
        else search_loop keys rest (j + 1) l kl False)"
proof -
  have "nextToken (b @ CHR '':'' # rest) = Some (length b)" by (simp add: nextToken_ws assms(2) is_ws_def)
  then show ?thesis
    using assms(4,5) by (subst search_loop.simps)
      (simp add: stringEnd_str assms(1) assms(3) [unfolded key_of_def] Let_def add.assoc)
qed

lemma search_array:
  assumes "balanced s" "kl \<noteq> l"
  shows "search_loop keys (CHR ''['' # s @ CHR '']'' # rest) i l kl lm = search_loop keys rest (i + length s + 2) l kl lm"
  by (subst search_loop.simps) (simp add: assms(2) blockEnd_text [OF _ assms(1)] bracket_pair_def add.assoc)

lemma search_object:
  assumes "balanced s"
  shows "search_loop keys (CHR ''{'' # s @ CHR ''}'' # rest) i l kl False = search_loop keys rest (i + length s + 2) l kl False"
  by (subst search_loop.simps) (simp add: blockEnd_text [OF _ assms(1)] bracket_pair_def add.assoc)

lemma search_open: "search_loop keys (CHR ''{'' # rest) i l kl True = search_loop keys rest (i + 1) (l + 1) kl True"
  by (subst search_loop.simps) simp

lemma search_close: "search_loop keys (CHR ''}'' # rest) i l kl lm = search_loop keys rest (i + 1) (l - 1) (if l - 1 = kl then kl - 1 else kl) lm"
  by (subst search_loop.simps) simp

lemma search_value:
  assumes "text_of w t" "ws d" "x = CHR '','' \<or> x = CHR ''}''" "kl \<noteq> l"
  shows "search_loop keys (t @ d @ x # rest) i l kl False = search_loop keys (x # rest) (i + length t + length d) l kl False"
proof (cases w)
  case (JStr r)
  then have "t = quote # r @ [quote]" "str_ok r" using assms(1) by (auto elim: text_of.cases)
  then show ?thesis using search_string [OF _ assms(2), of r x] assms(3) by (auto simp: is_ws_def)
next
  case (JArr vs)
  obtain s where "t = CHR ''['' # s @ [CHR '']'']" "balanced s" using text_block(1) [OF assms(1) JArr] by blast
  then show ?thesis using search_array [OF _ assms(4), of s] by (simp add: search_ws assms(2) add.assoc)
next
  case (JObj kvs)
  obtain s where "t = CHR ''{'' # s @ [CHR ''}'']" "balanced s" using text_block(2) [OF assms(1) JObj] by blast
  then show ?thesis using search_object [of s] by (simp add: search_ws assms(2) add.assoc)
next
  case (JNum n)
  then have "\<forall>c\<in>set t. ordinary c" using assms(1) by (auto elim!: text_of.cases simp: num_ok_def num_ordinary)
  then show ?thesis by (simp add: search_skip search_ws assms(2) add.assoc)
next
  case JNull
  then have "\<forall>c\<in>set t. ordinary c" using assms(1) by (auto elim!: text_of.cases simp: ordinary_def)
  then show ?thesis by (simp add: search_skip search_ws assms(2) add.assoc)
next
  case (JBool b)
  then have "\<forall>c\<in>set t. ordinary c" using assms(1) by (auto elim!: text_of.cases simp: ordinary_def)
  then show ?thesis by (simp add: search_skip search_ws assms(2) add.assoc)
qed

text \<open>A member with another key.\<close>

lemma search_member:
  assumes "member_text kv m" "key_of (fst kv) = Some k" "1 \<le> l" "l \<le> int (length keys)" "k \<noteq> keys ! nat (l - 1)" "kl \<noteq> l" "x = CHR '','' \<or> x = CHR ''}''"
  shows "search_loop keys (m @ x # rest) i l kl lm = search_loop keys (x # rest) (i + length m) l kl False"
proof -
  obtain a b c t d where m: "ws a" "str_ok (fst kv)" "ws b" "ws c" "text_of (snd kv) t" "ws d"
    "m = a @ quote # fst kv @ quote # b @ CHR '':'' # c @ t @ d"
    using assms(1) by (auto simp: member_text_def)
  show ?thesis
    using assms(5) search_value [OF m(5,6) assms(7,6)]
    by (simp add: m(7) search_ws m(1,4) search_key [OF m(2,3) assms(2-4)] Let_def add.assoc add.left_commute)
qed

lemma search_members:
  assumes "list_all2 member_text kvs ms" "\<forall>kv\<in>set kvs. \<exists>k. key_of (fst kv) = Some k \<and> k \<noteq> keys ! nat (l - 1)" "1 \<le> l" "l \<le> int (length keys)" "kl \<noteq> l"
  shows "search_loop keys (concat (map (\<lambda>m. m @ [CHR '','']) ms) @ rest) i l kl lm =
    search_loop keys rest (i + length (concat (map (\<lambda>m. m @ [CHR '','']) ms))) l kl (lm \<and> ms = [])"
  using assms(1,2)
proof (induction arbitrary: i lm rule: list_all2_induct)
  case (Cons kv kvs m ms)
  obtain k where k: "key_of (fst kv) = Some k" "k \<noteq> keys ! nat (l - 1)" using Cons.prems by auto
  have comma: "search_loop keys (CHR '','' # r) j l kl lm' = search_loop keys r (j + 1) l kl lm'" for r j lm'
    using search_skip [of "[CHR '','']" keys r j l kl lm'] by (simp add: ordinary_def)
  show ?case
    using Cons.IH [of "i + length m + 1" False] Cons.prems
      search_member [OF Cons.hyps(1) k(1) assms(3,4) k(2) assms(5), of "CHR '',''" "concat (map (\<lambda>m. m @ [CHR '','']) ms) @ rest" i lm]
    by (simp add: comma add.assoc)
qed simp

subsection \<open>One step of a path\<close>

lemma join_update:
  assumes "n < length ms"
  shows "join_with c (ms[n := x]) = concat (map (\<lambda>m. m @ [c]) (take n ms)) @ x @ concat (map (\<lambda>m. c # m) (drop (Suc n) ms))"
  using join_split [of n "ms[n := x]" c] assms by simp

lemma array_loop_cons:
  assumes "m = a @ t @ b" "ws a" "text_of v t" "ws b"
  shows "fst (array_loop (join_with (CHR '','') (m # ms) @ CHR '']'' # rest) off) =
    item_of v t (off + length a) # (if ms = [] then [] else fst (array_loop (join_with (CHR '','') ms @ CHR '']'' # rest) (off + length m + 1)))"
proof (cases ms)
  case Nil
  then show ?thesis using array_loop_step [OF assms(2-4), of "CHR '']''" rest off] assms(1) by simp
next
  case (Cons m' ms')
  then have "join_with (CHR '','') (m # ms) @ CHR '']'' # rest = a @ t @ b @ CHR '','' # join_with (CHR '','') ms @ CHR '']'' # rest"
    by (simp add: assms(1))
  then show ?thesis
    using array_loop_step [OF assms(2-4), of "CHR '',''" "join_with (CHR '','') ms @ CHR '']'' # rest" off] Cons by (simp add: assms(1) split: prod.split)
qed

lemma array_loop_items:
  assumes "list_all2 elem_text vs ms" "vs \<noteq> []"
  shows "length (fst (array_loop (join_with (CHR '','') ms @ CHR '']'' # rest) off)) = length vs"
    "n < length vs \<Longrightarrow> ms ! n = a @ t @ b \<Longrightarrow> ws a \<Longrightarrow> text_of (vs ! n) t \<Longrightarrow> ws b \<Longrightarrow>
      fst (array_loop (join_with (CHR '','') ms @ CHR '']'' # rest) off) ! n =
        item_of (vs ! n) t (off + length (concat (map (\<lambda>m. m @ [CHR '','']) (take n ms))) + length a)"
  using assms
proof (induction arbitrary: off n rule: list_all2_induct)
  case (Cons v vs m ms)
  obtain p tv q where m: "m = p @ tv @ q" "ws p" "text_of v tv" "ws q" using Cons.hyps(1) by (auto simp: elem_text_def)
  note l = array_loop_cons [OF m, of ms rest]
  have e: "ms = [] \<longleftrightarrow> vs = []" using Cons.hyps(2) by auto
  { case 1
    show ?case using l [of off] e Cons.IH(1) [of "off + length m + 1"] by auto
  next
    case 2
    show ?case
    proof (cases n)
      case 0
      then show ?thesis using array_loop_cons [of m a t b v ms rest off] 2 by simp
    next
      case (Suc k)
      then show ?thesis using l [of off] e 2 Cons.IH(2) [of k "off + length m + 1"] by (auto simp: add.assoc)
    qed }
qed simp_all

lemma text_arr_lead:
  assumes "vs \<noteq> []" "list_all2 elem_text vs ms" "ws a"
  shows "text_of (JArr vs) (CHR ''['' # a @ join_with (CHR '','') ms @ [CHR '']''])"
proof -
  obtain v vs' m ms' where c: "vs = v # vs'" "ms = m # ms'" "elem_text v m" "list_all2 elem_text vs' ms'"
    using assms(1,2) by (cases vs; cases ms) auto
  have "elem_text v (a @ m)" using c(3) assms(3) unfolding elem_text_def by (metis append.assoc ws_simps(3))
  then have l: "list_all2 elem_text vs ((a @ m) # ms')" using c by simp
  have "a @ join_with (CHR '','') ms = join_with (CHR '','') ((a @ m) # ms')" by (cases ms') (simp_all add: c(2))
  then show ?thesis using l assms(1) unfolding text_arr_iff by auto
qed

definition starts :: "string \<Rightarrow> bool" where
  "starts s \<longleftrightarrow> s \<noteq> [] \<and> \<not> is_ws (hd s) \<and> hd s \<noteq> CHR '']''"

lemma text_starts: "text_of v t \<Longrightarrow> starts (t @ s)"
  by (cases rule: text_of.cases) (auto simp: starts_def is_ws_def num_ok_def less_eq_char_def)

lemma join_starts: "ms \<noteq> [] \<Longrightarrow> starts (ms ! 0) \<Longrightarrow> starts (join_with c ms @ s)"
  by (cases ms; cases "tl ms") (auto simp: starts_def)

text \<open>The elements of an array, the white space after the bracket apart.\<close>

lemma text_arr_split:
  assumes "text_of (JArr vs) t" "vs \<noteq> []"
  obtains a ms where "t = CHR ''['' # a @ join_with (CHR '','') ms @ [CHR '']'']" "ws a" "list_all2 elem_text vs ms" "starts (ms ! 0)"
proof -
  obtain ms where ms: "list_all2 elem_text vs ms" "t = CHR ''['' # join_with (CHR '','') ms @ [CHR '']'']"
    using assms by (auto simp: text_arr_iff)
  obtain v vs' m ms' where c: "vs = v # vs'" "ms = m # ms'" "elem_text v m" "list_all2 elem_text vs' ms'"
    using assms(2) ms(1) by (cases vs; cases ms) auto
  obtain a tv b where m: "ws a" "text_of v tv" "ws b" "m = a @ tv @ b" using c(3) by (auto simp: elem_text_def)
  have "elem_text v (tv @ b)" unfolding elem_text_def using m(2,3) by (intro exI [of _ "[]"] exI [of _ tv] exI [of _ b]) simp
  then have l: "list_all2 elem_text vs ((tv @ b) # ms')" using c by simp
  have j: "join_with (CHR '','') ms = a @ join_with (CHR '','') ((tv @ b) # ms')" by (cases ms') (simp_all add: c(2) m(4))
  show thesis using that [of a "(tv @ b) # ms'"] ms(2) j l m(1) text_starts [OF m(2)] by simp
qed

lemma array_item_at:
  assumes "list_all2 elem_text vs ms" "starts (ms ! 0)" "ws a" "n < length vs" "ms ! n = p @ tw @ b" "ws p" "text_of (vs ! n) tw" "ws b"
  shows "array_item (CHR ''['' # a @ join_with (CHR '','') ms @ CHR '']'' # rest) (int n) =
    Some (tw, int (1 + length a + length (concat (map (\<lambda>m. m @ [CHR '','']) (take n ms))) + length p))"
proof -
  let ?j = "join_with (CHR '','') ms" and ?P = "concat (map (\<lambda>m. m @ [CHR '','']) (take n ms))"
  let ?data = "CHR ''['' # a @ ?j @ CHR '']'' # rest"
  have len: "n < length ms" "vs \<noteq> []" "ms \<noteq> []" using assms(1,4) by (auto simp: list_all2_lengthD)
  have st: "starts (?j @ CHR '']'' # rest)" by (rule join_starts [OF len(3) assms(2)])
  then have "nextToken (?j @ CHR '']'' # rest) = Some 0" "(?j @ CHR '']'' # rest) ! 0 \<noteq> CHR '']''"
    by (cases "?j @ CHR '']'' # rest"; simp add: starts_def)+
  then have each: "fst (array_each ?data) = fst (array_loop (?j @ CHR '']'' # rest) (1 + length a))"
    using assms(3) by (simp add: array_each_def array_from_def is_ws_def nextToken_ws nth_append)
  note i = array_loop_items [OF assms(1) len(2), where rest = rest and off = "1 + length a", folded each]
  have d: "?data = (CHR ''['' # a @ ?P @ p) @ tw @ b @ concat (map (\<lambda>m. CHR '','' # m) (drop (Suc n) ms)) @ CHR '']'' # rest"
    using join_split [OF len(1), of "CHR '',''"] assms(5) by simp
  show ?thesis
  proof (cases "vs ! n")
    case (JStr r)
    then have tw: "tw = quote # r @ [quote]" using assms(7) by (auto elim: text_of.cases)
    have "fst (array_each ?data) ! n = (r, String, int (length (CHR ''['' # a @ ?P @ p)) + 2)"
      using i(2) [OF assms(4-8)] JStr by (simp add: item_of_def bare_def tw)
    then show ?thesis using assms(4) i(1) d by (simp add: array_item_def tw nat_add_distrib del: length_concat)
  qed (use assms(4) i(1) i(2) [OF assms(4-8)] in \<open>simp_all add: array_item_def item_of_def bare_def\<close>)
qed

text \<open>A place in the text of \<open>v\<close>: the text before it, the white space there, the text of the value \<open>w\<close> and what follows. Any other value may
  take its place.\<close>

definition place :: "json \<Rightarrow> string list \<Rightarrow> json \<Rightarrow> string \<Rightarrow> string \<Rightarrow> string \<Rightarrow> string \<Rightarrow> string \<Rightarrow> bool" where
  "place v ks w t pre a tw post \<longleftrightarrow> t = pre @ a @ tw @ post \<and> ws a \<and> text_of w tw \<and> ends post \<and>
     (\<forall>w' tw'. text_of w' tw' \<longrightarrow> text_of (update v ks w') (pre @ a @ tw' @ post))"

lemma ends_ws: "ws b \<Longrightarrow> x \<noteq> [] \<Longrightarrow> is_end (hd x) \<Longrightarrow> ends (b @ x)"
  by (cases b) (auto simp: ends_def is_end_def)

lemma after_item: "ws b \<Longrightarrow> z = CHR '']'' \<or> z = CHR ''}'' \<Longrightarrow> ends (b @ concat (map (\<lambda>m. CHR '','' # m) ms) @ [z])"
  by (rule ends_ws) (cases ms; auto simp: is_end_def)+

lemma array_step:
  assumes "text_of (JArr vs) t" "index_pos k (length vs) = Some n"
  obtains pre tw post where "place (JArr vs) [k] (vs ! n) t pre [] tw post"
    "\<And>w' tw' rest. text_of w' tw' \<Longrightarrow> array_item (pre @ tw' @ post @ rest) (int n) = Some (tw', int (length pre))" "\<exists>cs. pre = CHR ''['' # cs"
proof -
  have n: "n < length vs" "vs \<noteq> []" using index_pos_less [OF assms(2)] by auto
  obtain a ms where ms: "t = CHR ''['' # a @ join_with (CHR '','') ms @ [CHR '']'']" "ws a" "list_all2 elem_text vs ms" "starts (ms ! 0)"
    using text_arr_split [OF assms(1) n(2)] by metis
  have len: "n < length ms" using n ms(3) by (simp add: list_all2_lengthD)
  let ?P = "concat (map (\<lambda>m. m @ [CHR '','']) (take n ms))" and ?Q = "concat (map (\<lambda>m. CHR '','' # m) (drop (Suc n) ms)) @ [CHR '']'']"
  obtain p tw b where p: "ms ! n = p @ tw @ b" "ws p" "text_of (vs ! n) tw" "ws b"
    using ms(3) n(1) by (auto simp: list_all2_conv_all_nth elem_text_def)
  have upd: "list_all2 elem_text (vs[n := w']) (ms[n := p @ tw' @ b])" if "text_of w' tw'" for w' tw'
    using ms(3) p(2,4) that by (intro list_all2_update_cong) (auto simp: elem_text_def)
  show thesis
  proof (rule that [of "CHR ''['' # a @ ?P @ p" tw "b @ ?Q"])
    show "place (JArr vs) [k] (vs ! n) t (CHR ''['' # a @ ?P @ p) [] tw (b @ ?Q)"
      unfolding place_def
    proof (intro conjI allI impI)
      show "t = (CHR ''['' # a @ ?P @ p) @ [] @ tw @ b @ ?Q" using join_split [OF len, of "CHR '',''"] p(1) by (simp add: ms(1))
      show "ends (b @ ?Q)" by (rule after_item [OF p(4)]) simp
      show "text_of (update (JArr vs) [k] w') ((CHR ''['' # a @ ?P @ p) @ [] @ tw' @ b @ ?Q)" if w': "text_of w' tw'" for w' tw'
        using text_arr_lead [OF _ upd [OF w'] ms(2)] n join_update [OF len, of "CHR '',''" "p @ tw' @ b"] assms(2) by auto
    qed (use p(3) in simp_all)
    show "\<exists>cs. CHR ''['' # a @ ?P @ p = CHR ''['' # cs" by simp
    fix w' tw' rest assume w': "text_of w' tw'"
    have "p = []" if "n = 0" using ms(4) p(1,2) that by (cases p) (auto simp: starts_def)
    then have st: "starts (ms[n := p @ tw' @ b] ! 0)" using ms(4) text_starts [OF w', of b] len by (cases "n = 0") auto
    show "array_item ((CHR ''['' # a @ ?P @ p) @ tw' @ (b @ ?Q) @ rest) (int n) = Some (tw', int (length (CHR ''['' # a @ ?P @ p)))"
      using array_item_at [OF upd [OF w'] st ms(2), of n p tw' b rest] n(1) len p(2,4) w' join_update [OF len, of "CHR '',''" "p @ tw' @ b"]
      by (simp del: length_concat)
  qed
qed

lemma member_textI:
  "ws a \<Longrightarrow> str_ok k \<Longrightarrow> ws b \<Longrightarrow> ws c \<Longrightarrow> text_of w t \<Longrightarrow> ws d \<Longrightarrow>
    member_text (k, w) (a @ quote # k @ quote # b @ CHR '':'' # c @ t @ d)"
  by (simp add: member_text_def) blast

lemma object_step:
  assumes "text_of (JObj kvs) t" "member_pos k kvs = Some n"
  obtains pre c tw post where "place (JObj kvs) [k] (snd (kvs ! n)) t pre c tw post"
    "\<And>keys l i tw' rest. l < length keys \<Longrightarrow> keys ! l = k \<Longrightarrow> search_loop keys (pre @ c @ tw' @ post @ rest) i (int l) (int l) True =
      (if Suc l = length keys then Some (int (i + length pre)) else search_loop keys (c @ tw' @ post @ rest) (i + length pre) (int (Suc l)) (int (Suc l)) True)"
proof -
  note pos = member_pos_less [OF assms(2)]
  then have n: "n < length kvs" and ne: "kvs \<noteq> []" by auto
  then obtain ms where ms: "list_all2 member_text kvs ms" "t = CHR ''{'' # join_with (CHR '','') ms @ [CHR ''}'']"
    using assms(1) by (auto simp: text_obj_iff)
  have len: "n < length ms" using n ms(1) by (simp add: list_all2_lengthD)
  have "member_text (kvs ! n) (ms ! n)" using ms(1) n by (simp add: list_all2_nthD)
  then obtain a b c tw d where m: "ws a" "str_ok (fst (kvs ! n))" "ws b" "ws c" "text_of (snd (kvs ! n)) tw" "ws d"
      "ms ! n = a @ quote # fst (kvs ! n) @ quote # b @ CHR '':'' # c @ tw @ d"
    by (auto simp: member_text_def)
  let ?P = "concat (map (\<lambda>m. m @ [CHR '','']) (take n ms))" and ?Q = "concat (map (\<lambda>m. CHR '','' # m) (drop (Suc n) ms)) @ [CHR ''}'']"
  let ?key = "a @ quote # fst (kvs ! n) @ quote # b @ [CHR '':'']"
  let ?pre = "CHR ''{'' # ?P @ ?key"
  show thesis
  proof (rule that [of ?pre c tw "d @ ?Q"])
    show "place (JObj kvs) [k] (snd (kvs ! n)) t ?pre c tw (d @ ?Q)"
      unfolding place_def
    proof (intro conjI allI impI)
      show "t = ?pre @ c @ tw @ d @ ?Q" using join_split [OF len, of "CHR '',''"] m(7) by (simp add: ms(2))
      show "ends (d @ ?Q)" by (rule after_item [OF m(6)]) simp
      fix w' tw' assume w': "text_of w' tw'"
      have "member_text (fst (kvs ! n), w') (?key @ c @ tw' @ d)" using member_textI [OF m(1-4) w' m(6)] by simp
      then have "list_all2 member_text (kvs[n := (fst (kvs ! n), w')]) (ms[n := ?key @ c @ tw' @ d])" using ms(1) by (intro list_all2_update_cong)
      then show "text_of (update (JObj kvs) [k] w') (?pre @ c @ tw' @ d @ ?Q)"
        unfolding text_obj_iff using ne join_update [OF len, of "CHR '',''" "?key @ c @ tw' @ d"] assms(2)
        by (auto simp: text_obj_iff intro!: exI [of _ "ms[n := ?key @ c @ tw' @ d]"])
    qed (use m in simp_all)
    fix keys l i tw' rest assume l: "l < length keys" "keys ! l = k"
    have before: "\<forall>kv\<in>set (take n kvs). \<exists>k'. key_of (fst kv) = Some k' \<and> k' \<noteq> keys ! nat (int (Suc l) - 1)"
    proof
      fix kv assume "kv \<in> set (take n kvs)"
      then obtain j where "j < n" "kv = kvs ! j" by (auto simp: in_set_conv_nth)
      then show "\<exists>k'. key_of (fst kv) = Some k' \<and> k' \<noteq> keys ! nat (int (Suc l) - 1)" using pos l(2) by simp
    qed
    have pass: "list_all2 member_text (take n kvs) (take n ms)" using ms(1) by (rule list_all2_takeI)
    have "search_loop keys (?pre @ c @ tw' @ (d @ ?Q) @ rest) i (int l) (int l) True = search_loop keys (?P @ ?key @ c @ tw' @ d @ ?Q @ rest) (i + 1) (int (Suc l)) (int l) True"
      by (simp add: search_open add.commute)
    also have "\<dots> = search_loop keys (?key @ c @ tw' @ d @ ?Q @ rest) (i + 1 + length ?P) (int (Suc l)) (int l) (take n ms = [])"
      using search_members [OF pass before, of "int l" "?key @ c @ tw' @ d @ ?Q @ rest" "i + 1" True] l(1) by simp
    also have "\<dots> = (if Suc l = length keys then Some (int (i + length ?pre))
        else search_loop keys (c @ tw' @ (d @ ?Q) @ rest) (i + length ?pre) (int (Suc l)) (int (Suc l)) True)"
      using l search_key [OF m(2,3), where k = k and keys = keys and l = "1 + int l" and i = "i + 1 + length ?P + length a" and kl = "int l" and lm = "take n ms = []"] pos
      by (auto simp: search_ws m(1) Let_def add.assoc)
    finally show "search_loop keys (?pre @ c @ tw' @ (d @ ?Q) @ rest) i (int l) (int l) True =
      (if Suc l = length keys then Some (int (i + length ?pre))
       else search_loop keys (c @ tw' @ (d @ ?Q) @ rest) (i + length ?pre) (int (Suc l)) (int (Suc l)) True)" .
  qed
qed

subsection \<open>A whole path\<close>

lemma place_trans:
  assumes "place v [k] w1 t pre1 c1 t1 post1" "place w1 ks w t1 pre2 a tw post2" "\<And>w'. update v (k # ks) w' = update v [k] (update w1 ks w')"
  shows "place v (k # ks) w t (pre1 @ c1 @ pre2) a tw (post2 @ post1)"
  unfolding place_def
proof (intro conjI allI impI)
  show "ends (post2 @ post1)" using assms(1,2) by (cases post2) (auto simp: place_def ends_def)
  fix w' tw' assume "text_of w' tw'"
  then have "text_of (update w1 ks w') (pre2 @ a @ tw' @ post2)" using assms(2) by (simp add: place_def)
  then show "text_of (update v (k # ks) w') ((pre1 @ c1 @ pre2) @ a @ tw' @ post2 @ post1)"
    using assms(1) unfolding assms(3) place_def by fastforce
qed (use assms in \<open>auto simp: place_def\<close>)

lemma drop_Cons_nth: "drop l xs = k # ks \<Longrightarrow> l < length xs \<and> xs ! l = k \<and> drop (Suc l) xs = ks"
  by (metis Cons_nth_drop_Suc drop_eq_Nil linorder_not_le list.distinct(1) list.inject)

text \<open>The search finds the place, also after another value was put there.\<close>

definition finds :: "string list \<Rightarrow> string \<Rightarrow> string \<Rightarrow> string \<Rightarrow> bool" where
  "finds ks pre a post \<longleftrightarrow> (\<forall>w tw keys l i rest. text_of w tw \<longrightarrow> drop l keys = ks \<longrightarrow>
     search_loop keys (pre @ a @ tw @ post @ rest) i (int l) (int l) True = Some (int (i + length pre)))"

lemma found_member:
  assumes "text_of (JObj kvs) t" "member_pos k kvs = Some n"
    "\<And>t1. text_of (snd (kvs ! n)) t1 \<Longrightarrow> ks \<noteq> [] \<Longrightarrow> \<exists>pre a tw post. place (snd (kvs ! n)) ks w t1 pre a tw post \<and> finds ks pre a post" "ks = [] \<Longrightarrow> w = snd (kvs ! n)"
  shows "\<exists>pre a tw post. place (JObj kvs) (k # ks) w t pre a tw post \<and> finds (k # ks) pre a post"
proof -
  obtain pre c t1 post where s: "place (JObj kvs) [k] (snd (kvs ! n)) t pre c t1 post"
    "\<And>keys l i tw rest. l < length keys \<Longrightarrow> keys ! l = k \<Longrightarrow> search_loop keys (pre @ c @ tw @ post @ rest) i (int l) (int l) True =
      (if Suc l = length keys then Some (int (i + length pre)) else search_loop keys (c @ tw @ post @ rest) (i + length pre) (int (Suc l)) (int (Suc l)) True)"
    using object_step [OF assms(1,2)] by metis
  show ?thesis
  proof (cases "ks = []")
    case True
    have "finds [k] pre c post" unfolding finds_def using s(2) by (fastforce dest: drop_Cons_nth)
    then show ?thesis using s(1) True assms(4) by auto
  next
    case False
    have t1: "text_of (snd (kvs ! n)) t1" "ws c" using s(1) by (simp_all add: place_def)
    obtain pre2 a tw post2 where p: "place (snd (kvs ! n)) ks w t1 pre2 a tw post2" "finds ks pre2 a post2" using assms(3) [OF t1(1) False] by blast
    have "search_loop keys ((pre @ c @ pre2) @ a @ tw' @ (post2 @ post) @ rest) i (int l) (int l) True = Some (int (i + length (pre @ c @ pre2)))"
      if "text_of w' tw'" "drop l keys = k # ks" for w' tw' keys l i rest
      using s(2) [of l keys "pre2 @ a @ tw' @ post2" rest i] drop_Cons_nth [OF that(2)] False
        p(2) [unfolded finds_def, rule_format, OF that(1), of "Suc l" keys "post @ rest" "i + length pre + length c"]
      by (auto simp: search_ws t1(2) add.assoc)
    then have "finds (k # ks) (pre @ c @ pre2) a (post2 @ post)" unfolding finds_def by blast
    then show ?thesis using place_trans [OF s(1) p(1)] assms(2) by fastforce
  qed
qed

lemma found_index:
  assumes "text_of (JArr vs) t" "index_pos k (length vs) = Some n"
    "\<And>t1. text_of (vs ! n) t1 \<Longrightarrow> ks \<noteq> [] \<Longrightarrow> \<exists>pre a tw post. place (vs ! n) ks w t1 pre a tw post \<and> finds ks pre a post" "ks = [] \<Longrightarrow> w = vs ! n"
  shows "\<exists>pre a tw post. place (JArr vs) (k # ks) w t pre a tw post \<and> finds (k # ks) pre a post"
proof -
  note k = index_pos_less [OF assms(2)]
  obtain pre t1 post where s: "place (JArr vs) [k] (vs ! n) t pre [] t1 post"
    "\<And>w' tw' rest. text_of w' tw' \<Longrightarrow> array_item (pre @ tw' @ post @ rest) (int n) = Some (tw', int (length pre))" "\<exists>cs. pre = CHR ''['' # cs"
    using array_step [OF assms(1,2)] by metis
  obtain cs where pre: "pre = CHR ''['' # cs" using s(3) by blast
  have t1: "text_of (vs ! n) t1" using s(1) by (simp add: place_def)
  have run: "search_loop keys (pre @ tw' @ post @ rest) i (int l) (int l) True =
      (if ks = [] then Some (int (i + length pre))
       else case search_loop ks tw' 0 0 0 True of None \<Rightarrow> None | Some sub \<Rightarrow> Some (if sub < 0 then -1 else int i + int (length pre) + sub))"
    if "text_of w' tw'" "drop l keys = k # ks" for w' tw' keys l i rest
    using drop_Cons_nth [OF that(2)] k s(2) [OF that(1), of rest]
    by (subst search_loop.simps(2) [of keys "CHR ''[''" "cs @ tw' @ post @ rest", folded append_Cons, folded pre]) (auto simp: pre split: option.split)
  show ?thesis
  proof (cases "ks = []")
    case True
    then have "finds (k # ks) pre [] post" unfolding finds_def using run by fastforce
    then show ?thesis using s(1) assms(4) True by fastforce
  next
    case False
    obtain pre2 a tw post2 where p: "place (vs ! n) ks w t1 pre2 a tw post2" "finds ks pre2 a post2" using assms(3) [OF t1 False] by blast
    have "search_loop keys ((pre @ [] @ pre2) @ a @ tw' @ (post2 @ post) @ rest) i (int l) (int l) True = Some (int (i + length (pre @ [] @ pre2)))"
      if "text_of w' tw'" "drop l keys = k # ks" for w' tw' keys l i rest
    proof -
      have "text_of (update (vs ! n) ks w') (pre2 @ a @ tw' @ post2)" using p(1) that(1) by (simp add: place_def)
      from run [OF this that(2)] show ?thesis using False p(2) [unfolded finds_def, rule_format, OF that(1), of 0 ks "[]" 0] by simp
    qed
    then have "finds (k # ks) (pre @ [] @ pre2) a (post2 @ post)" unfolding finds_def by blast
    then show ?thesis using place_trans [OF s(1) p(1)] assms(2) by fastforce
  qed
qed

lemma found:
  assumes "text_of v t" "lookup v ks = Some w" "ks \<noteq> []"
  shows "\<exists>pre a tw post. place v ks w t pre a tw post \<and> finds ks pre a post"
  using assms
proof (induction v ks arbitrary: t rule: lookup.induct)
  case (2 kvs k ks)
  then obtain n where n: "member_pos k kvs = Some n" "lookup (snd (kvs ! n)) ks = Some w" by (auto split: option.splits)
  show ?case by (rule found_member [OF 2(2) n(1)]) (use 2(1) [OF n(1)] n(2) in auto)
next
  case (3 vs k ks)
  then obtain n where n: "index_pos k (length vs) = Some n" "lookup (vs ! n) ks = Some w" by (auto split: option.splits)
  show ?case by (rule found_index [OF 3(2) n(1)]) (use 3(1) [OF n(1)] n(2) in auto)
qed auto

end
