(* ===== verification/Json_Docs.thy ===== *)
theory Json_Docs
  imports Json_Laws
begin

text \<open>
  Whole documents: what \<^verbatim>\<open>Get\<close> returns for a path that a document has, and the document after \<^verbatim>\<open>Set\<close> has replaced a value or added a
  member. The text of a document may have white space around it.
\<close>

subsection \<open>Reading\<close>

lemma ends_append: "ends p \<Longrightarrow> ends q \<Longrightarrow> ends (p @ q)"
  by (cases p) (auto simp: ends_def)

lemma ends_white: "ws b \<Longrightarrow> ends b"
  by (cases b) (auto simp: ends_def is_end_def)

lemma doc_place:
  assumes "elem_text v data" "lookup v ks = Some w" "ks \<noteq> []"
  obtains pre c tw post where "data = pre @ c @ tw @ post" "ws c" "text_of w tw" "ends post"
    "\<And>w' tw'. text_of w' tw' \<Longrightarrow> elem_text (update v ks w') (pre @ c @ tw' @ post) \<and> searchKeys (pre @ c @ tw' @ post) ks = Some (int (length pre))"
proof -
  obtain a t b where d: "ws a" "text_of v t" "ws b" "data = a @ t @ b" using assms(1) by (auto simp: elem_text_def)
  obtain pre c tw post where p: "place v ks w t pre c tw post" "finds ks pre c post" using found [OF d(2) assms(2,3)] by blast
  show thesis
  proof (rule that [of "a @ pre" c tw "post @ b"])
    show "ends (post @ b)" using p(1) d(3) by (simp add: place_def ends_append ends_white)
    fix w' tw' assume w': "text_of w' tw'"
    have "text_of (update v ks w') (pre @ c @ tw' @ post)" using p(1) w' by (simp add: place_def)
    then have "elem_text (update v ks w') (a @ (pre @ c @ tw' @ post) @ b)" unfolding elem_text_def using d(1,3) by blast
    moreover have "searchKeys (a @ pre @ c @ tw' @ post @ b) ks = Some (int (length (a @ pre)))"
      using p(2) [unfolded finds_def, rule_format, OF w', of 0 ks b "length a"] assms(3) by (simp add: searchKeys_def search_ws d(1))
    ultimately show "elem_text (update v ks w') ((a @ pre) @ c @ tw' @ post @ b) \<and> searchKeys ((a @ pre) @ c @ tw' @ post @ b) ks = Some (int (length (a @ pre)))"
      by simp
  qed (use p(1) d(4) in \<open>simp_all add: place_def\<close>)
qed

lemma internalGet_at:
  assumes "searchKeys (pre @ c @ t @ post) ks = Some (int (length pre))" "ws c" "text_of w t" "ends post"
  shows "internalGet (pre @ c @ t @ post) ks = Some (bare w t, type_of w, int (length (pre @ c)), int (length (pre @ c @ t)), None)"
  using value_at_text [OF assms(3,4,2), of "length pre" "pre @ c @ t @ post"] by (simp add: internalGet_def assms(1) add.assoc)

text \<open>C17 --- reading. For every path that a document has, \<^verbatim>\<open>Get\<close> returns the text of the value there, a string without its quotes, with its
  type and the offset of its end, whatever the white space of the document.\<close>

theorem Get_path:
  assumes "elem_text v data" "lookup v ks = Some w"
  shows "\<exists>pre tw post. data = pre @ tw @ post \<and> text_of w tw \<and> Get data ks = Some (bare w tw, type_of w, int (length (pre @ tw)), None)"
proof (cases "ks = []")
  case True
  obtain a t b where d: "ws a" "text_of v t" "ws b" "data = a @ t @ b" using assms(1) by (auto simp: elem_text_def)
  have "internalGet data [] = Some (bare v t, type_of v, int (length a), int (length (a @ t)), None)"
    using internalGet_at [of "[]" a t b "[]" v] d ends_white [OF d(3)] by (simp add: searchKeys_def)
  then show ?thesis using d assms(2) True by (intro exI [of _ a] exI [of _ t] exI [of _ b]) (simp add: Get_def)
next
  case False
  obtain pre c tw post where p: "data = pre @ c @ tw @ post" "ws c" "text_of w tw" "ends post" "searchKeys data ks = Some (int (length pre))"
    using doc_place [OF assms False] by metis
  show ?thesis using internalGet_at [OF p(5) [unfolded p(1)] p(2-4)] p(1,3) by (intro exI [of _ "pre @ c"] exI [of _ tw] exI [of _ post]) (simp add: Get_def)
qed

lemma demo_array: "text_of (JArr [JNum ''7'', JBool True]) ''[7, true ]''"
proof -
  have "elem_text (JNum ''7'') ''7''" "elem_text (JBool True) '' true ''"
    unfolding elem_text_def
    by (intro exI [of _ "[]"] exI [of _ "''7''"], simp add: text_of.intros num_ok_def num_char_def less_eq_char_def)
      (intro exI [of _ "'' ''"] exI [of _ "''true''"], simp add: text_of.intros is_ws_def)
  then show ?thesis unfolding text_arr_iff by (auto intro!: exI [of _ "[''7'', '' true '']"])
qed

lemma demo_doc: "elem_text (JObj [(''a'', JArr [JNum ''7'', JBool True])]) (''{ '' @ quote # ''a'' @ quote # '': [7, true ]} '')"
proof -
  have "member_text (''a'', JArr [JNum ''7'', JBool True]) ('' '' @ quote # ''a'' @ quote # [] @ CHR '':'' # '' '' @ ''[7, true ]'' @ [])"
    by (rule member_textI [OF _ _ _ _ demo_array]) (simp_all add: is_ws_def)
  then have "text_of (JObj [(''a'', JArr [JNum ''7'', JBool True])]) (''{ '' @ quote # ''a'' @ quote # '': [7, true ]}'')"
    unfolding text_obj_iff by (auto intro!: exI [of _ "['' '' @ quote # ''a'' @ quote # '': [7, true ]'']"])
  then show ?thesis unfolding elem_text_def by (intro exI [of _ "[]"] exI [of _ "''{ '' @ quote # ''a'' @ quote # '': [7, true ]}''"] exI [of _ "'' ''"]) (simp add: is_ws_def)
qed

lemma demo_path: "lookup (JObj [(''a'', JArr [JNum ''7'', JBool True])]) [''a'', ''[1]''] = Some (JBool True)"
  by code_simp

theorem Get_path_witness:
  "\<exists>pre tw post. ''{ '' @ quote # ''a'' @ quote # '': [7, true ]} '' = pre @ tw @ post \<and> text_of (JBool True) tw \<and>
    Get (''{ '' @ quote # ''a'' @ quote # '': [7, true ]} '') [''a'', ''[1]''] = Some (bare (JBool True) tw, type_of (JBool True), int (length (pre @ tw)), None)"
  by (rule Get_path [OF demo_doc demo_path])

subsection \<open>Adding a member\<close>

text \<open>Keys that stand for themselves between quotes and are no index.\<close>

definition plain_key :: "string \<Rightarrow> bool" where
  "plain_key k \<longleftrightarrow> k \<noteq> [] \<and> hd k \<noteq> CHR ''['' \<and> quote \<notin> set k \<and> backslash \<notin> set k"

definition absent :: "string \<Rightarrow> (string \<times> json) list \<Rightarrow> bool" where
  "absent k kvs \<longleftrightarrow> list_all (\<lambda>kv. case key_of (fst kv) of None \<Rightarrow> False | Some k' \<Rightarrow> k' \<noteq> k) kvs"

lemma absent_iff: "absent k kvs \<longleftrightarrow> (\<forall>kv\<in>set kvs. \<exists>k'. key_of (fst kv) = Some k' \<and> k' \<noteq> k)"
  by (auto simp: absent_def list_all_iff split: option.splits)

lemma plain_key_ok: "plain_key k \<Longrightarrow> str_ok k \<and> key_of k = Some k"
proof -
  have "quote \<notin> set k \<Longrightarrow> backslash \<notin> set k \<Longrightarrow> str_ok k" for k by (induction k) auto
  then show "plain_key k \<Longrightarrow> str_ok k \<and> key_of k = Some k" by (simp add: plain_key_def key_of_def key_text_def)
qed

text \<open>The members of an object as the search meets them: those followed by a comma and the rest.\<close>

lemma obj_parts:
  assumes "text_of (JObj kvs) t"
  obtains (empty) a where "kvs = []" "ws a" "t = CHR ''{'' # a @ [CHR ''}'']"
  | (members) kvs' kv ms m where "kvs = kvs' @ [kv]" "list_all2 member_text kvs' ms" "member_text kv m"
      "t = CHR ''{'' # concat (map (\<lambda>m. m @ [CHR '','']) ms) @ m @ [CHR ''}'']"
proof (cases kvs rule: rev_cases)
  case Nil
  then show thesis using assms empty by (auto simp: text_obj_iff)
next
  case (snoc kvs' kv)
  then obtain ms0 where ms0: "list_all2 member_text kvs ms0" "t = CHR ''{'' # join_with (CHR '','') ms0 @ [CHR ''}'']" using assms by (auto simp: text_obj_iff)
  then obtain ms m where ms: "ms0 = ms @ [m]" "list_all2 member_text kvs' ms" "member_text kv m" by (auto simp: snoc list_all2_append1 list_all2_Cons1)
  then show thesis using members [OF snoc ms(2,3)] ms0(2) join_split [of "length ms" "ms @ [m]" "CHR '',''"] by simp
qed

lemma search_absent:
  assumes "text_of (JObj kvs) t" "absent k kvs" "ws b"
  shows "search_loop [k] (t @ b) i 0 0 True = Some (-1)"
proof -
  have close: "search_loop [k] (CHR ''}'' # b) j 1 0 lm = Some (-1)" for j lm
    using search_ws [OF assms(3), of "[k]" "[]" "j + 1" 0 "-1" lm] by (simp add: search_close search_loop.simps(1))
  show ?thesis
    using assms(1)
  proof (cases rule: obj_parts)
    case (empty a)
    then show ?thesis by (simp add: search_open search_ws close)
  next
    case (members kvs' kv ms m)
    have "\<forall>kv\<in>set kvs'. \<exists>k'. key_of (fst kv) = Some k' \<and> k' \<noteq> [k] ! nat (1 - 1)" using assms(2) by (simp add: absent_iff members(1))
    note pass = search_members [OF members(2) this, of 0 "m @ CHR ''}'' # b" "i + 1" True]
    obtain k' where k': "key_of (fst kv) = Some k'" "k' \<noteq> k" using assms(2) by (auto simp: absent_iff members(1))
    show ?thesis
      using pass search_member [OF members(3) k'(1), of 1 "[k]" 0 "CHR ''}''" b] k'(2) by (simp add: members(4) search_open close)
  qed
qed

text \<open>The new member and the comma in front of it.\<close>

definition new_member :: "(string \<times> json) list \<Rightarrow> string \<Rightarrow> string" where
  "new_member kvs k = (if kvs = [] then [] else '','') @ quote # k @ [quote, CHR '':'']"

lemma last_back_ws: "ws r \<Longrightarrow> last_back (r @ s) = last_back s"
  by (induction r) auto

lemma lastToken_doc: "ws b \<Longrightarrow> \<not> is_ws z \<Longrightarrow> lastToken (s @ z # b) = Some (length s)"
  using last_back_ws [of "rev b" "z # rev s"] by (simp add: lastToken_def ws_def)

lemma obj_first:
  assumes "text_of (JObj kvs) (CHR ''{'' # body @ [CHR ''}''])"
  shows "\<exists>n. nextToken (body @ CHR ''}'' # b) = Some n \<and> ((body @ CHR ''}'' # b) ! n = CHR ''}'' \<longleftrightarrow> kvs = [])"
proof (cases kvs)
  case Nil
  then have "ws body" using assms by (auto simp: text_obj_iff)
  then show ?thesis using Nil by (simp add: nextToken_ws is_ws_def)
next
  case (Cons kv kvs')
  then obtain m ms where m: "member_text kv m" "body = join_with (CHR '','') (m # ms)" using assms by (auto simp: text_obj_iff list_all2_Cons1)
  then obtain a s where "ws a" "m = a @ quote # s" by (auto simp: member_text_def)
  then obtain s' where "ws a" "body = a @ quote # s'" using m(2) by (cases ms) auto
  then show ?thesis using Cons by (simp add: nextToken_ws is_ws_def)
qed

lemma Set_missing_key:
  assumes "text_of (JObj kvs) (CHR ''{'' # body @ [CHR ''}''])" "absent k kvs" "plain_key k" "ws a" "ws b"
  shows "Set (a @ CHR ''{'' # body @ CHR ''}'' # b) m [k] = Ok (a @ CHR ''{'' # body @ new_member kvs k @ m @ CHR ''}'' # b)"
proof -
  let ?data = "a @ CHR ''{'' # body @ CHR ''}'' # b"
  have "search_loop [k] ?data 0 0 0 True = Some (-1)" using search_absent [OF assms(1,2,5)] by (simp add: search_ws assms(4))
  then have ig: "internalGet ?data [k] = Some ([], NotExist, -1, -1, Some KeyPathNotFoundError)" by (simp add: internalGet_def searchKeys_def)
  have nt: "nextToken ?data = Some (length a)" by (simp add: nextToken_ws assms(4) is_ws_def)
  have lt: "lastToken ?data = Some (length a + 1 + length body)"
    using lastToken_doc [OF assms(5), of "CHR ''}''" "a @ CHR ''{'' # body"] by (simp add: is_ws_def)
  obtain n where n: "nextToken (body @ CHR ''}'' # b) = Some n" "(body @ CHR ''}'' # b) ! n = CHR ''}'' \<longleftrightarrow> kvs = []"
    using obj_first [OF assms(1)] by blast
  then have af: "after ?data (length a) = CHR ''}'' \<longleftrightarrow> kvs = []" by (simp add: after_def nth_append)
  have comp: "createInsertComponent [k] m comma False = Some ((if comma then '','' else []) @ quote # k @ [quote, CHR '':''] @ m)" for comma
    using createInsertComponent_eq [of "[k]" m comma False] assms(3) by (auto simp: plain_key_def insert_pieces_def is_index_def)
  have "set_missing ?data m [k] (0, -1, -1) = Ok (a @ CHR ''{'' # body @ new_member kvs k @ m @ CHR ''}'' # b)"
    by (simp add: set_missing_def nt lt af comp new_member_def Let_def)
  then show ?thesis by (simp add: Set_def ig)
qed

lemma new_member_text:
  assumes "text_of (JObj kvs) (CHR ''{'' # body @ [CHR ''}''])" "plain_key k" "elem_text w m"
  shows "text_of (JObj (kvs @ [(k, w)])) (CHR ''{'' # body @ new_member kvs k @ m @ [CHR ''}''])"
proof -
  obtain c t d where m: "ws c" "text_of w t" "ws d" "m = c @ t @ d" using assms(3) by (auto simp: elem_text_def)
  have mem: "member_text (k, w) (e @ quote # k @ quote # CHR '':'' # m)" if "ws e" for e
    using member_textI [OF that _ _ m(1,2,3), of k "[]"] plain_key_ok [OF assms(2)] m(4) by simp
  show ?thesis
  proof (cases "kvs = []")
    case True
    then have "ws body" using assms(1) by (auto simp: text_obj_iff)
    from mem [OF this] show ?thesis using True unfolding text_obj_iff
      by (auto simp: new_member_def intro!: exI [of _ "[body @ quote # k @ quote # CHR '':'' # m]"])
  next
    case False
    then obtain ms where ms: "list_all2 member_text kvs ms" "body = join_with (CHR '','') ms" using assms(1) by (auto simp: text_obj_iff)
    then have "ms \<noteq> []" using False by auto
    then have "join_with (CHR '','') (ms @ [x]) = body @ CHR '','' # x" for x unfolding ms(2)
      by (induction "CHR '',''" ms rule: join_with.induct) auto
    moreover have "list_all2 member_text (kvs @ [(k, w)]) (ms @ [quote # k @ quote # CHR '':'' # m])" using ms(1) mem [of "[]"] by (simp add: list_all2_appendI)
    ultimately show ?thesis using False unfolding text_obj_iff
      by (auto simp: new_member_def intro!: exI [of _ "ms @ [quote # k @ quote # CHR '':'' # m]"])
  qed
qed

lemma Set_new:
  assumes "elem_text (JObj kvs) data" "absent k kvs" "plain_key k" "elem_text w m"
  shows "\<exists>data'. Set data m [k] = Ok data' \<and> elem_text (JObj (kvs @ [(k, w)])) data'"
proof -
  obtain a t b where d: "ws a" "text_of (JObj kvs) t" "ws b" "data = a @ t @ b" using assms(1) by (auto simp: elem_text_def)
  obtain body where t: "t = CHR ''{'' # body @ [CHR ''}'']" using text_block(2) [OF d(2)] by blast
  have "elem_text (JObj (kvs @ [(k, w)])) (a @ (CHR ''{'' # body @ new_member kvs k @ m @ [CHR ''}'']) @ b)"
    unfolding elem_text_def using new_member_text [OF d(2) [unfolded t] assms(3,4)] d(1,3) by blast
  then show ?thesis using Set_missing_key [OF d(2) [unfolded t] assms(2,3) d(1,3), of m] by (simp add: d(4) t)
qed

lemma search_new:
  assumes "text_of (JObj kvs) (CHR ''{'' # body @ [CHR ''}''])" "absent k kvs" "plain_key k"
  shows "search_loop [k] (CHR ''{'' # body @ new_member kvs k @ rest) i 0 0 True = Some (int (i + length (CHR ''{'' # body @ new_member kvs k)))"
proof -
  note k = plain_key_ok [OF assms(3)]
  have key: "search_loop [k] (quote # k @ quote # CHR '':'' # rest) j 1 0 lm = Some (int (j + length k + 3))" for j lm
    using search_key [of k "[]" k 1 "[k]" rest j 0 lm] k by (simp add: Let_def)
  show ?thesis
    using assms(1)
  proof (cases rule: obj_parts)
    case (empty a)
    then have "body = a" by simp
    then show ?thesis using empty by (simp add: search_open search_ws new_member_def key)
  next
    case (members kvs' kv ms m)
    have "\<forall>kv\<in>set kvs. \<exists>k'. key_of (fst kv) = Some k' \<and> k' \<noteq> [k] ! nat (1 - 1)" using assms(2) by (simp add: absent_iff)
    moreover have "list_all2 member_text kvs (ms @ [m])" using members by (simp add: list_all2_appendI)
    ultimately have "search_loop [k] (concat (map (\<lambda>m. m @ [CHR '','']) (ms @ [m])) @ r) j 1 0 True =
        search_loop [k] r (j + length (concat (map (\<lambda>m. m @ [CHR '','']) (ms @ [m])))) 1 0 False" for r j
      using search_members [of kvs "ms @ [m]" "[k]" 1 0 r j True] by simp
    moreover have "body = concat (map (\<lambda>m. m @ [CHR '','']) ms) @ m" using members(4) by simp
    ultimately show ?thesis using members(1) by (simp add: search_open new_member_def key add.assoc)
  qed
qed

subsection \<open>Writing\<close>

text \<open>What \<^verbatim>\<open>Set\<close> is meant to do: replace the value at a path, or add a member to the object that is the whole document.\<close>

definition put :: "json \<Rightarrow> string list \<Rightarrow> json \<Rightarrow> json option" where
  "put v ks w = (if ks = [] then None
     else if lookup v ks \<noteq> None then Some (update v ks w)
     else case (v, ks) of (JObj kvs, [k]) \<Rightarrow> if plain_key k \<and> absent k kvs then Some (JObj (kvs @ [(k, w)])) else None | _ \<Rightarrow> None)"

lemma member_pos_append: "absent k kvs \<Longrightarrow> key_of r = Some k \<Longrightarrow> member_pos k (kvs @ [(r, w)]) = Some (length kvs)"
  by (induction kvs) (auto simp: absent_def split: option.splits)

lemma put_cases:
  assumes "put v ks w = Some v'"
  obtains (path) u where "ks \<noteq> []" "lookup v ks = Some u" "v' = update v ks w"
  | (member) kvs k where "v = JObj kvs" "ks = [k]" "plain_key k" "absent k kvs" "v' = JObj (kvs @ [(k, w)])"
  using assms that by (auto simp: put_def split: if_splits json.splits list.splits)

text \<open>C16 --- writing. \<^verbatim>\<open>Set\<close> turns the text of a document into a text of the document with the value put in the place of the one at
  an existing path, or with a new member at its end; the path then has that value, and \<^verbatim>\<open>Get\<close> returns exactly the text that was set.\<close>

theorem Set_Get:
  assumes "elem_text v data" "text_of w tw" "put v ks w = Some v'"
  shows "\<exists>data' e. Set data tw ks = Ok data' \<and> elem_text v' data' \<and> lookup v' ks = Some w \<and> Get data' ks = Some (bare w tw, type_of w, e, None)"
  using assms(3)
proof (cases rule: put_cases)
  case (path u)
  obtain pre c tu post where p: "data = pre @ c @ tu @ post" "ws c" "text_of u tu" "ends post"
    "\<And>w' tw'. text_of w' tw' \<Longrightarrow> elem_text (update v ks w') (pre @ c @ tw' @ post) \<and> searchKeys (pre @ c @ tw' @ post) ks = Some (int (length pre))"
    using doc_place [OF assms(1) path(2,1)] by metis
  have "internalGet data ks = Some (bare u tu, type_of u, int (length (pre @ c)), int (length (pre @ c @ tu)), None)"
    using internalGet_at [OF _ p(2-4), of pre ks] p(1) p(5) [OF p(3)] by simp
  then have "Set data tw ks = Ok (pre @ c @ tw @ post)" using path(1) p(1) by (simp add: Set_def nat_add_distrib)
  moreover have "internalGet (pre @ c @ tw @ post) ks = Some (bare w tw, type_of w, int (length (pre @ c)), int (length (pre @ c @ tw)), None)"
    using internalGet_at [OF _ p(2) assms(2) p(4), of pre ks] p(5) [OF assms(2)] by simp
  ultimately show ?thesis using p(5) [OF assms(2)] path lookup_update [OF path(2), of w] by (simp add: Get_def)
next
  case (member kvs k)
  obtain a t b where d: "ws a" "text_of (JObj kvs) t" "ws b" "data = a @ t @ b" using assms(1) member(1) by (auto simp: elem_text_def)
  obtain body where t: "t = CHR ''{'' # body @ [CHR ''}'']" using text_block(2) [OF d(2)] by blast
  let ?pre = "a @ CHR ''{'' # body @ new_member kvs k" and ?post = "CHR ''}'' # b"
  have w: "elem_text w tw" unfolding elem_text_def using assms(2) by (intro exI [of _ "[]"] exI [of _ tw]) simp
  have "Set data tw ks = Ok (?pre @ [] @ tw @ ?post)"
    using Set_missing_key [OF d(2) [unfolded t] member(4,3) d(1,3), of tw] by (simp add: d(4) t member(2))
  moreover have "elem_text v' (a @ (CHR ''{'' # body @ new_member kvs k @ tw @ [CHR ''}'']) @ b)"
    unfolding elem_text_def member(5) using new_member_text [OF d(2) [unfolded t] member(3) w] d(1,3) by blast
  moreover have "searchKeys (?pre @ [] @ tw @ ?post) ks = Some (int (length ?pre))"
    using search_new [OF d(2) [unfolded t] member(4,3), of "tw @ ?post" "length a"] by (simp add: searchKeys_def search_ws d(1) member(2) add.assoc)
  from internalGet_at [OF this _ assms(2)] have "Get (?pre @ [] @ tw @ ?post) ks = Some (bare w tw, type_of w, int (length (?pre @ [] @ tw)), None)"
    by (simp add: Get_def ends_def is_end_def)
  moreover have "lookup v' ks = Some w" using member_pos_append [OF member(4)] plain_key_ok [OF member(3)] member(2,5) by simp
  ultimately show ?thesis by simp
qed

theorem Set_Get_witness:
  "\<exists>data' e. Set (''{ '' @ quote # ''a'' @ quote # '': [7, true ]} '') ''null'' [''b''] = Ok data' \<and>
    elem_text (JObj [(''a'', JArr [JNum ''7'', JBool True]), (''b'', JNull)]) data' \<and>
    lookup (JObj [(''a'', JArr [JNum ''7'', JBool True]), (''b'', JNull)]) [''b''] = Some JNull \<and>
    Get data' [''b''] = Some (bare JNull ''null'', type_of JNull, e, None)"
proof -
  have "put (JObj [(''a'', JArr [JNum ''7'', JBool True])]) [''b''] JNull = Some (JObj [(''a'', JArr [JNum ''7'', JBool True]), (''b'', JNull)])"
    by code_simp
  from Set_Get [OF demo_doc text_null this] show ?thesis .
qed

end
