(* ===== verification/Json_Merge.thy ===== *)
theory Json_Merge
  imports Serve Json_Docs
begin

text \<open>
  The accessor of \<^verbatim>\<open>json\<close> in the place of the accessor of \<^verbatim>\<open>Render\<close>, and what the merged context of several nodes (\<^verbatim>\<open>proxy/multi.go\<close>) is
  then: a JSON object with one member per node that has a body.
\<close>

definition json_env :: "(httpResp \<Rightarrow> clientResp \<Rightarrow> clientResp) \<Rightarrow> render_env" where
  "json_env copyTo = \<lparr>
     re_get = (\<lambda>data ks. case Get data ks of Some (v, t, _, None) \<Rightarrow> Some (v, t) | _ \<Rightarrow> None),
     re_set = (\<lambda>data v k. case Set data v [k] of Ok data' \<Rightarrow> Some data' | _ \<Rightarrow> None),
     re_copyTo = copyTo\<rparr>"

text \<open>The parts that are not skipped: an attribute and a body, neither of them empty.\<close>

definition parts :: "(nat \<times> proxy_result) list \<Rightarrow> (string \<times> string) list" where
  "parts xs = filter (\<lambda>(attr, b). attr \<noteq> [] \<and> b \<noteq> []) (List.map_filter (\<lambda>x. px_part (snd x)) xs)"

definition part_of :: "string \<times> string \<Rightarrow> string \<times> json \<Rightarrow> bool" where
  "part_of p kv \<longleftrightarrow> fst kv = fst p \<and> elem_text (snd kv) (snd p)"

lemma parts_snoc: "parts (xs @ [x]) = parts xs @
    (case px_part (snd x) of Some (attr, b) \<Rightarrow> if attr \<noteq> [] \<and> b \<noteq> [] then [(attr, b)] else [] | None \<Rightarrow> [])"
  by (auto simp: parts_def List.map_filter_def split: option.split)

lemma merged_snoc: "merged cf (xs @ [x]) = add_part (sc_re cf) (snd x) (merged cf xs)"
  by (simp add: merged_def)

lemma part_keys: "list_all2 part_of ps kvs \<Longrightarrow> map fst kvs = map fst ps"
  by (induction rule: list_all2_induct) (auto simp: part_of_def)

lemma empty_document: "elem_text (JObj []) emptyObject"
  unfolding elem_text_def by (intro exI [of _ "[]"] exI [of _ "''{}''"]) (simp add: emptyObject_def text_obj_iff)

lemma absent_keys: "\<forall>k'\<in>set (map fst kvs). plain_key k' \<Longrightarrow> k \<notin> set (map fst kvs) \<Longrightarrow> absent k kvs"
  by (auto simp: absent_iff dest!: plain_key_ok)

lemma merged_object:
  assumes "sc_re cf = json_env copyTo" "\<forall>p\<in>set (parts xs). plain_key (fst p) \<and> (\<exists>w. elem_text w (snd p))" "distinct (map fst (parts xs))"
  shows "\<exists>kvs. elem_text (JObj kvs) (merged cf xs) \<and> list_all2 part_of (parts xs) kvs"
  using assms(2,3)
proof (induction xs rule: rev_induct)
  case Nil
  then show ?case using empty_document by (auto simp: merged_def parts_def List.map_filter_def)
next
  case (snoc x xs)
  then obtain kvs where kvs: "elem_text (JObj kvs) (merged cf xs)" "list_all2 part_of (parts xs) kvs" by (auto simp: parts_snoc)
  show ?case
  proof (cases "parts (xs @ [x]) = parts xs")
    case True
    then have "merged cf (xs @ [x]) = merged cf xs"
      by (auto simp: merged_snoc add_part_def parts_snoc completePart_def split: option.splits if_splits)
    then show ?thesis using True kvs by auto
  next
    case False
    then obtain k b where x: "px_part (snd x) = Some (k, b)" "k \<noteq> []" "b \<noteq> []" by (auto simp: parts_snoc split: option.splits if_splits)
    then have p: "parts (xs @ [x]) = parts xs @ [(k, b)]" by (simp add: parts_snoc)
    obtain w where w: "plain_key k" "elem_text w b" using snoc.prems(1) by (auto simp: p)
    have "absent k kvs" using snoc.prems part_keys [OF kvs(2)] by (intro absent_keys) (auto simp: p)
    then obtain data' where d: "Set (merged cf xs) b [k] = Ok data'" "elem_text (JObj (kvs @ [(k, w)])) data'"
      using Set_new [OF kvs(1) _ w] by blast
    have "merged cf (xs @ [x]) = data'" using x d(1) by (simp add: merged_snoc add_part_def completePart_def assms(1) json_env_def)
    moreover have "list_all2 part_of (parts xs @ [(k, b)]) (kvs @ [(k, w)])" using kvs(2) w(2) by (simp add: list_all2_appendI part_of_def)
    ultimately show ?thesis using d(2) p by auto
  qed
qed

lemma member_pos_distinct:
  assumes "n < length kvs" "\<forall>k\<in>set (map fst kvs). plain_key k" "distinct (map fst kvs)"
  shows "member_pos (fst (kvs ! n)) kvs = Some n"
  using assms
proof (induction kvs arbitrary: n)
  case (Cons kv kvs)
  have k: "key_of (fst kv) = Some (fst kv)" using Cons.prems(2) plain_key_ok by simp
  show ?case
  proof (cases n)
    case (Suc m)
    then have "fst (kvs ! m) \<in> set (map fst kvs)" using Cons.prems(1) by auto
    then have "fst kv \<noteq> fst (kvs ! m)" using Cons.prems(3) by (metis distinct.simps(2) list.simps(9))
    then show ?thesis using Cons k Suc by auto
  qed (use k in simp)
qed simp

text \<open>C18 --- merged bodies. When every node that has a body has a JSON body and an attribute name of its own, the merged context is, in
  whatever order the nodes finish, a JSON object with these attributes and bodies, in that order, and each attribute is read back from it.\<close>

theorem merged_bodies:
  assumes "sc_re cf = json_env copyTo" "\<forall>p\<in>set (parts xs). plain_key (fst p) \<and> (\<exists>w. elem_text w (snd p))" "distinct (map fst (parts xs))"
  shows "\<exists>kvs. elem_text (JObj kvs) (merged cf xs) \<and> list_all2 part_of (parts xs) kvs \<and>
    (\<forall>kv\<in>set kvs. \<exists>t. text_of (snd kv) t \<and> getAttr (sc_re cf) [fst kv] (merged cf xs) = bare (snd kv) t)"
proof -
  obtain kvs where kvs: "elem_text (JObj kvs) (merged cf xs)" "list_all2 part_of (parts xs) kvs" using merged_object [OF assms] by blast
  note keys = part_keys [OF kvs(2)]
  have "\<exists>t. text_of (snd kv) t \<and> getAttr (sc_re cf) [fst kv] (merged cf xs) = bare (snd kv) t" if kv: "kv \<in> set kvs" for kv
  proof -
    obtain n where n: "n < length kvs" "kv = kvs ! n" using kv by (auto simp: in_set_conv_nth)
    have "\<forall>k\<in>set (map fst kvs). plain_key k" "distinct (map fst kvs)" unfolding keys using assms(2,3) by auto
    then have "lookup (JObj kvs) [fst kv] = Some (snd kv)" using member_pos_distinct [OF n(1)] n(2) by simp
    then obtain pre c t post where p: "merged cf xs = pre @ c @ t @ post" "ws c" "text_of (snd kv) t" "ends post"
        "searchKeys (merged cf xs) [fst kv] = Some (int (length pre))"
      using doc_place [OF kvs(1)] by (metis list.distinct(1))
    show ?thesis using internalGet_at [OF p(5) [unfolded p(1)] p(2-4)] p(1,3) by (auto simp: getAttr_def assms(1) json_env_def Get_def)
  qed
  then show ?thesis using kvs by blast
qed

theorem merged_bodies_witness:
  "\<exists>kvs. elem_text (JObj kvs) (merged (demo_serve\<lparr>sc_re := json_env (\<lambda>r c. c)\<rparr>)
      [(0, \<lparr>px_log = [], px_dn = demo_retry, px_part = Some (''x'', ''[7, true ]''), px_sh = demo_shared, px_out = []\<rparr>),
       (1, \<lparr>px_log = [], px_dn = demo_retry, px_part = Some (''y'', ''null''), px_sh = demo_shared, px_out = []\<rparr>)]) \<and> map fst kvs = [''x'', ''y'']"
proof -
  let ?xs = "[(0, \<lparr>px_log = [], px_dn = demo_retry, px_part = Some (''x'', ''[7, true ]''), px_sh = demo_shared, px_out = []\<rparr>),
       (1, \<lparr>px_log = [], px_dn = demo_retry, px_part = Some (''y'', ''null''), px_sh = demo_shared, px_out = []\<rparr>)] :: (nat \<times> proxy_result) list"
  have p: "parts ?xs = [(''x'', ''[7, true ]''), (''y'', ''null'')]" by (simp add: parts_def List.map_filter_def)
  have "elem_text v t" if "text_of v t" for v t unfolding elem_text_def using that by (intro exI [of _ "[]"] exI [of _ t]) simp
  then have "\<forall>p\<in>set (parts ?xs). plain_key (fst p) \<and> (\<exists>w. elem_text w (snd p))"
    using demo_array text_null unfolding p by (fastforce simp: plain_key_def)
  then obtain kvs where "elem_text (JObj kvs) (merged (demo_serve\<lparr>sc_re := json_env (\<lambda>r c. c)\<rparr>) ?xs)" "list_all2 part_of (parts ?xs) kvs"
    using merged_bodies [of "demo_serve\<lparr>sc_re := json_env (\<lambda>r c. c)\<rparr>" "\<lambda>r c. c" ?xs] p by auto
  then show ?thesis using part_keys [of "parts ?xs" kvs] p by auto
qed

end
