(* ===== verification/Spec2Isabelle.thy ===== *)
theory Spec2Isabelle
  imports Url_Expr Balance Mem_Pool Response_Cache Lru_Cache Dispatch_Effects Store_Ids Store_Listing Store_Watch Store_Load Store_Backup Ring_Queue Json_Merge
begin

text \<open>
  Verification of vxway, an HTTP API gateway written in Go. Paths below are under \<^verbatim>\<open>src/src\<close>.

  \<^bold>\<open>The program.\<close> A gateway process answers HTTP requests by sending them to backend servers. Its metadata (clusters, servers,
  binds, APIs, routings, plugins) lives in etcd. The store (\<^verbatim>\<open>store\<close>) checks and writes it; every gateway loads it at start and
  follows the changes of the key space. The dispatcher (\<^verbatim>\<open>proxy/dispatcher*.go\<close>) keeps the metadata as runtime objects: a route
  table from URL patterns to APIs (\<^verbatim>\<open>route\<close>), the servers of each cluster with their health (\<^verbatim>\<open>proxy/checker.go\<close>), a load balancer
  per cluster (\<^verbatim>\<open>lbs\<close>), circuits and rate limits. A request is dispatched to the nodes of an API, batch by batch; each
  node passes the filters (\<^verbatim>\<open>proxy/filter_*.go\<close>), is sent with retries (\<^verbatim>\<open>proxy/proxy.go\<close>), and the answers are rendered
  (\<^verbatim>\<open>proxy/render.go\<close>). Utilities below it: byte buffers and a slab pool, an LRU cache of responses, a token bucket, a rate
  barrier, statistics, a lock-free ring buffer and a JSON accessor.

  \<^bold>\<open>Conventions.\<close> \<^verbatim>\<open>Vx_Prelude\<close>: a Go function that may panic or return an error is an \<open>outcome\<close> (\<open>Ok\<close>, \<open>Err\<close>, \<open>Panic\<close>);
  structs are records, enumerations are datatypes, strings and byte slices are \<open>string\<close>, fixed-width integers are words or integers with the wrap-around
  written out. Every loop is a total function: most recurse on a list or on the rest of the input, the others have a termination proof. Concurrency is an
  inductive step relation whose steps are atomic operations or operations under one lock, so theorems quantify over all interleavings.

  \<^bold>\<open>Metadata and routing.\<close> \<^verbatim>\<open>Meta_Model\<close> has the messages of \<^verbatim>\<open>pb/metapb\<close>. \<^verbatim>\<open>Scan\<close> and \<^verbatim>\<open>Route_Parser\<close> model \<^verbatim>\<open>route/scanner.go\<close>,
  \<^verbatim>\<open>route/lexer.go\<close> and \<^verbatim>\<open>route/parser.go\<close>: the parser is total and reads back every printed pattern. \<^verbatim>\<open>Route_Tree\<close> models \<^verbatim>\<open>route/route.go\<close>: adding an
  API refines an abstract table, and finding is sound and, for constant patterns, complete. \<^verbatim>\<open>Url_Expr\<close> models the rewrite templates of
  \<^verbatim>\<open>utils/expr/expr.go\<close> over the same scanner locale.

  \<^bold>\<open>Choice and protection.\<close> \<^verbatim>\<open>Fast_Rand\<close>, \<^verbatim>\<open>Balance\<close> (\<^verbatim>\<open>lbs\<close>, \<^verbatim>\<open>utils/ip.go\<close>: every strategy chooses an available server, round robin and weighted
  round robin are fair), \<^verbatim>\<open>Rate_Barrier\<close> (exactly \<open>rate\<close> of \<open>base\<close> calls pass), \<^verbatim>\<open>Token_Bucket\<close> (never more than the rate), \<^verbatim>\<open>Analysis_Stats\<close>
  (windows are exact), \<^verbatim>\<open>Circuit\<close> (trips exactly at the rate and never stays closed), \<^verbatim>\<open>Conditions\<close> (parameters, comparisons, validation, IP lists).

  \<^bold>\<open>Buffers and caches.\<close> \<^verbatim>\<open>Byte_Buf\<close>, \<^verbatim>\<open>Mem_Pool\<close> (\<^verbatim>\<open>goetty\<close>), \<^verbatim>\<open>Response_Cache\<close> (\<^verbatim>\<open>filter/cache_utils.go\<close>): what is written is read back, with any pool
  that keeps the locale of pools. \<^verbatim>\<open>Lru_Cache\<close> (\<^verbatim>\<open>utils/lru.go\<close>) refines a recency list. \<^verbatim>\<open>Ring_Buffer\<close>, \<^verbatim>\<open>Ring_Laws\<close>, \<^verbatim>\<open>Ring_Queue\<close>
  (\<^verbatim>\<open>utils/task/ring.go\<close>): a queue under every interleaving, for at least two slots and fewer than \<open>2 ^ 64\<close> puts.

  \<^bold>\<open>JSON.\<close> \<^verbatim>\<open>Json_Scan\<close>, \<^verbatim>\<open>Json_Escape\<close>, \<^verbatim>\<open>Json_Get\<close> and \<^verbatim>\<open>Json_Set\<close> model \<^verbatim>\<open>json/parser.go\<close>, \<^verbatim>\<open>json/escape.go\<close> and \<^verbatim>\<open>json/bytes.go\<close>: string contents unescape exactly
  and 64-bit integers are read exactly. \<^verbatim>\<open>Json_Text\<close> defines the documents, their texts with any white space, and what the scanners do on
  them; \<^verbatim>\<open>Json_Laws\<close> follows the search along a path and \<^verbatim>\<open>Json_Docs\<close> shows that \<^verbatim>\<open>Get\<close> returns the value at a path and \<^verbatim>\<open>Set\<close> replaces it
  or adds a member. In \<^verbatim>\<open>Conditions\<close>, \<^verbatim>\<open>Url_Expr\<close> and \<^verbatim>\<open>Render\<close> the accessor is an argument, so their theorems hold for any accessor;
  \<^verbatim>\<open>Json_Merge\<close> puts the modelled one in its place and shows that the merged context of several nodes is the JSON object of their bodies.

  \<^bold>\<open>The dispatcher.\<close> \<^verbatim>\<open>Runtime\<close>, \<^verbatim>\<open>Dispatch_Meta\<close>, \<^verbatim>\<open>Dispatch_Events\<close> hold the state and every operation and event handler; \<^verbatim>\<open>Dispatch_Inv\<close> and
  \<^verbatim>\<open>Dispatch_Refine\<close> the invariant, the absence of panics and the refinement of an abstract configuration; \<^verbatim>\<open>Dispatch_Effects\<close> three effects that
  differ from it. \<^verbatim>\<open>Dispatch\<close> is the way of a request to its nodes and servers.

  \<^bold>\<open>A request.\<close> \<^verbatim>\<open>Proxy_Retry\<close> (the sending loop ends within the allowed attempts), \<^verbatim>\<open>Filters\<close> and \<^verbatim>\<open>Filter_Laws\<close> (the locale \<open>gateway_filter\<close>, which
  every built-in filter fulfils), \<^verbatim>\<open>Proxy_Flow\<close> (\<^verbatim>\<open>doProxy\<close> for every chain of such filters and all servers), \<^verbatim>\<open>Render\<close> (the answer), \<^verbatim>\<open>Serve\<close>
  (\<^verbatim>\<open>ServeFastHTTP\<close> with its workers: it completes, serves each node once, in the order of the batches).

  \<^bold>\<open>The store.\<close> \<^verbatim>\<open>Store_Keys\<close>, \<^verbatim>\<open>Etcd\<close> and \<^verbatim>\<open>Store\<close> model \<^verbatim>\<open>store\<close> and \<^verbatim>\<open>pb/validation.go\<close>; \<^verbatim>\<open>Store_Spec\<close>, \<^verbatim>\<open>Store_Refine\<close> and \<^verbatim>\<open>Store_Requests\<close> show that every request
  implements its specification on the configuration; \<^verbatim>\<open>Store_Listing\<close> that reads return it; \<^verbatim>\<open>Store_Ids\<close> that identifiers are unique among
  processes; \<^verbatim>\<open>Store_Watch\<close> and \<^verbatim>\<open>Store_Load\<close> that a gateway mirrors the store from its start on; \<^verbatim>\<open>Store_Batch\<close> and \<^verbatim>\<open>Store_Backup\<close> that a
  backup copies it. \<^verbatim>\<open>Store_Demo\<close> is an etcd in memory with codecs, which shows that the hypotheses can hold.

  \<^bold>\<open>Parameters.\<close> Code outside the repository is an argument: the etcd client and the protobuf codecs (the laws \<open>etcd_ok\<close> and \<open>codec_ok\<close>: a put is read back, decoding
  inverts encoding), the HTTP client (any answer at all), regular expressions, the clock, random shuffles, the sort of the standard library (a permutation), the map
  iteration order, and the \<^verbatim>\<open>fasthttp\<close> request and response (records of what is read and written).

  \<^bold>\<open>Not modelled.\<close> Generated protobuf code, the JWT filter and script plugins (external libraries; hooks with the contract of a filter), websockets,
  listeners and process start, metrics, logging, the client builders, RPC wrappers, network sessions, the timer wheel (timers are steps
  that may fire at any time) and the task runner; of the accessor \<^verbatim>\<open>Delete\<close>, \<^verbatim>\<open>EachKey\<close> and floating point numbers.
\<close>

end
